(* ===== verification/Cmt_Prelude.thy ===== *)
theory Cmt_Prelude
  imports Main "HOL-Library.Log_Nat"
begin

text \<open>
  Shared material of the development: names for the types of the program, the rules for
  \<^verbatim>\<open>for\<close> loops (a loop \<^verbatim>\<open>for (i = a; i < b; i++)\<close> is \<open>fold f [a..<b]\<close> on the loop's state),
  in-place updates of arrays, arithmetic modulo an odd prime, and the interface of GMP's
  \<^verbatim>\<open>mpz_invert\<close>, the one routine of the library whose result is not plain integer arithmetic.

  GMP integers (\<^verbatim>\<open>mpz_t\<close>) are unbounded: they are \<^typ>\<open>int\<close>, \<^verbatim>\<open>mpz_add\<close>, \<^verbatim>\<open>mpz_sub\<close>, \<^verbatim>\<open>mpz_mul\<close>
  and \<^verbatim>\<open>mpz_addmul\<close> are the operations of \<^typ>\<open>int\<close>, and \<^verbatim>\<open>mpz_mod\<close>, whose result is never negative,
  is \<open>mod\<close>, the modulus being positive in every call.
\<close>

type_synonym mpz = int
type_synonym mpz_vec = "int list"

named_theorems loop_simps \<open>closed forms of array loops\<close>

section \<open>Loops over an index range\<close>

lemma fold_range_inv [consumes 1, case_names init step]:
  assumes "a \<le> b" and "P a s"
    and "\<And>i s. a \<le> i \<Longrightarrow> i < b \<Longrightarrow> P i s \<Longrightarrow> P (Suc i) (f i s)"
  shows "P b (fold f [a..<b] s)"
  using assms
proof (induction "b - a" arbitrary: b)
  case 0
  then show ?case by simp
next
  case (Suc k)
  then obtain c where b: "b = Suc c" "a \<le> c" by (cases b) auto
  have "P c (fold f [a..<c] s)" using Suc b by simp
  with Suc.prems(3) b show ?case by simp
qed

lemma fold_invariant_set:
  assumes "P s" and "\<And>x s. x \<in> set xs \<Longrightarrow> P s \<Longrightarrow> P (f x s)"
  shows "P (fold f xs s)"
  using assms by (induction xs arbitrary: s) auto

text \<open>A loop that writes slot \<open>i\<close> at iteration \<open>i\<close> from what slot \<open>i\<close> held.\<close>

lemma length_fold_upd [simp]:
  "length (fold (\<lambda>i xs. xs[g i := f i xs]) is xs) = length xs"
  by (induction "is" arbitrary: xs) auto

lemma fold_upd_nth [loop_simps]:
  assumes "k < length xs"
  shows "fold (\<lambda>i xs. xs[i := f i (xs ! i)]) [a..<b] xs ! k =
         (if a \<le> k \<and> k < b then f k (xs ! k) else xs ! k)"
proof (induction b)
  case 0
  then show ?case by simp
next
  case (Suc b)
  with assms show ?case by (cases "a \<le> b"; cases "k = b") (auto simp: nth_list_update)
qed

text \<open>A loop that writes slot \<open>i\<close> from a slot below the range, which the loop never writes.\<close>

lemma fold_upd_shift [loop_simps]:
  assumes "k < length xs" and "\<And>i. a \<le> i \<Longrightarrow> i < b \<Longrightarrow> h i < a"
  shows "fold (\<lambda>i xs. xs[i := f i (xs ! h i)]) [a..<b] xs ! k =
         (if a \<le> k \<and> k < b then f k (xs ! h k) else xs ! k)"
  using assms
proof (induction b arbitrary: k)
  case 0
  then show ?case by simp
next
  case (Suc b)
  show ?case
  proof (cases "a \<le> b")
    case True
    with Suc.prems have h: "h b < a" by simp
    show ?thesis
    proof (cases "k = b")
      case True
      have len: "h b < length xs" using h Suc.prems(1) \<open>a \<le> b\<close> True by simp
      have "fold (\<lambda>i xs. xs[i := f i (xs ! h i)]) [a..<b] xs ! h b = xs ! h b"
        using Suc.IH [of "h b"] Suc.prems h len by simp
      with True \<open>a \<le> b\<close> Suc.prems(1) show ?thesis by simp
    next
      case False
      with \<open>a \<le> b\<close> Suc show ?thesis by auto
    qed
  next
    case False
    then show ?thesis by auto
  qed
qed

text \<open>A loop that compacts an array in place: slot \<open>i\<close> is written from slots at or above \<open>i\<close>.\<close>

lemma fold_upd_compact [loop_simps]:
  assumes "k < length xs"
    and "\<And>i ys. length ys = length xs \<Longrightarrow> (\<And>j. i \<le> j \<Longrightarrow> j < length xs \<Longrightarrow> ys ! j = xs ! j) \<Longrightarrow>
           i < b \<Longrightarrow> F i ys = G i"
  shows "fold (\<lambda>i xs. xs[i := F i xs]) [0..<b] xs ! k = (if k < b then G k else xs ! k)"
  using assms
proof (induction b arbitrary: k)
  case 0
  then show ?case by simp
next
  case (Suc b)
  let ?ys = "fold (\<lambda>i xs. xs[i := F i xs]) [0..<b] xs"
  have ys: "?ys ! j = (if j < b then G j else xs ! j)" if "j < length xs" for j
    using Suc.prems(2) by (intro Suc.IH that) simp
  have "F b ?ys = G b" using Suc.prems(2) [of ?ys b] ys by simp
  then show ?case using ys [OF Suc.prems(1)] Suc.prems(1) by (auto simp: nth_list_update less_Suc_eq)
qed

text \<open>An accumulation loop that skips nothing is a sum, one that multiplies is a product.\<close>

lemma fold_add_sum [loop_simps]:
  "fold (\<lambda>i acc. acc + f i) [a..<b] (x :: int) = x + (\<Sum>i = a..<b. f i)"
  by (induction b) auto

lemma fold_mult_prod [loop_simps]:
  "fold (\<lambda>i acc. acc * f i) [a..<b] (x :: int) = x * (\<Prod>i = a..<b. f i)"
  by (induction b) (auto simp: mult.assoc)

lemma fold_mult_mod_prod [loop_simps]:
  "fold (\<lambda>i acc. acc * f i mod p) [a..<b] (x :: int) mod p = x * (\<Prod>i = a..<b. f i) mod p"
proof (induction b)
  case 0
  then show ?case by simp
next
  case (Suc b)
  show ?case
  proof (cases "a \<le> b")
    case True
    have "fold (\<lambda>i acc. acc * f i mod p) [a..<b] x * f b mod p = (x * (\<Prod>i = a..<b. f i) mod p) * f b mod p"
      unfolding Suc [symmetric] by (simp add: mod_mult_left_eq)
    with True show ?thesis by (simp add: mod_mult_left_eq mult.assoc)
  qed simp
qed

lemma fold_add_mod_sum [loop_simps]:
  "fold (\<lambda>i acc. (acc + f i) mod p) [a..<b] (x :: int) mod p = (x + (\<Sum>i = a..<b. f i)) mod p"
proof (induction b)
  case 0
  then show ?case by simp
next
  case (Suc b)
  show ?case
  proof (cases "a \<le> b")
    case True
    have "(fold (\<lambda>i acc. (acc + f i) mod p) [a..<b] x + f b) mod p = ((x + (\<Sum>i = a..<b. f i)) mod p + f b) mod p"
      unfolding Suc [symmetric] by (simp add: mod_add_left_eq)
    with True show ?thesis by (simp add: mod_add_left_eq add.assoc)
  qed simp
qed

end
