(* ===== verification/Prime_Field.thy ===== *)
theory Prime_Field
  imports Cmt_Prelude
begin

text \<open>
  Arithmetic modulo the protocol's prime. \<^verbatim>\<open>mpz_invert\<close> of GMP is not part of the repository: the
  definitions that call it take it as an argument, and the locale \<open>gmp_invert\<close> states what its
  manual promises (an inverse in \<open>[0, p)\<close> where one exists; nothing where none does). The second
  half holds the polynomial facts behind the protocol: a polynomial function given by \<open>n\<close>
  coefficients modulo a prime is determined by its values at \<open>n\<close> points.
\<close>

definition prime_modulus :: "int \<Rightarrow> bool" where
  "prime_modulus p \<longleftrightarrow> 2 < p \<and> (\<forall>d \<in> {2..<p}. \<not> d dvd p)"

lemma prime_modulus_gt2 [dest]: "prime_modulus p \<Longrightarrow> 2 < p"
  by (simp add: prime_modulus_def)

lemma prime_modulus_coprime:
  assumes "prime_modulus p" and "a mod p \<noteq> 0"
  shows "coprime a p"
proof -
  let ?g = "gcd a p"
  have p: "2 < p" using assms(1) by auto
  have g: "?g dvd p" "?g dvd a" "0 < ?g" using p by auto
  have "?g \<noteq> p" using assms(2) g(2) by (auto simp: dvd_eq_mod_eq_0)
  moreover have "?g \<le> p" using g(1) p by (simp add: zdvd_imp_le)
  ultimately have "?g < p" by simp
  with assms(1) g have "?g = 1" unfolding prime_modulus_def by (metis atLeastLessThan_iff int_one_le_iff_zero_less linorder_not_less order_le_less zle_add1_eq_le one_add_one)
  then show ?thesis by (simp add: coprime_iff_gcd_eq_1)
qed

lemma prime_modulus_mult_0:
  assumes "prime_modulus p" and "a * b mod p = 0"
  shows "a mod p = 0 \<or> b mod p = 0"
proof (rule disjCI)
  assume "b mod p \<noteq> 0"
  then have "coprime b p" using assms(1) by (rule prime_modulus_coprime [rotated])
  moreover have "p dvd a * b" using assms(2) by (simp add: dvd_eq_mod_eq_0)
  ultimately have "p dvd a" by (simp add: coprime_commute coprime_dvd_mult_left_iff)
  then show "a mod p = 0" by (simp add: dvd_eq_mod_eq_0)
qed

lemma prime_modulus_mult_nonzero:
  "prime_modulus p \<Longrightarrow> a mod p \<noteq> 0 \<Longrightarrow> b mod p \<noteq> 0 \<Longrightarrow> a * b mod p \<noteq> 0"
  using prime_modulus_mult_0 [of p a b] by auto

lemma prime_modulus_odd: "prime_modulus p \<Longrightarrow> odd p"
  by (auto simp: prime_modulus_def)

lemma small_mod_nonzero: "0 < \<bar>a\<bar> \<Longrightarrow> \<bar>a\<bar> < p \<Longrightarrow> (a :: int) mod p \<noteq> 0"
  using zdvd_not_zless [of "\<bar>a\<bar>" p] by (auto simp: dvd_eq_mod_eq_0 [symmetric])

section \<open>The interface of mpz\_invert\<close>

locale gmp_invert =
  fixes mpz_invert :: "int \<Rightarrow> int \<Rightarrow> int"
  assumes mpz_invert_range: "1 < p \<Longrightarrow> coprime a p \<Longrightarrow> 0 \<le> mpz_invert a p \<and> mpz_invert a p < p"
    and mpz_invert_mult: "1 < p \<Longrightarrow> coprime a p \<Longrightarrow> a * mpz_invert a p mod p = 1"
begin

lemma mpz_invert_prime:
  "prime_modulus p \<Longrightarrow> a mod p \<noteq> 0 \<Longrightarrow> a * mpz_invert a p mod p = 1"
  using mpz_invert_mult prime_modulus_coprime by force

lemma mpz_invert_cancel:
  assumes "prime_modulus p" and "a mod p \<noteq> 0"
  shows "a * b * mpz_invert a p mod p = b mod p"
proof -
  have "a * b * mpz_invert a p mod p = (a * mpz_invert a p mod p) * b mod p"
    by (simp add: mod_mult_right_eq mult_ac)
  with mpz_invert_prime [OF assms] show ?thesis by simp
qed

end

text \<open>Extended Euclid: an executable routine with the promised behaviour.\<close>

function bezout :: "int \<Rightarrow> int \<Rightarrow> int \<times> int" where
  "bezout a b = (if b \<le> 0 then (1, 0)
     else let (x, y) = bezout b (a mod b) in (y, x - (a div b) * y))"
  by pat_completeness auto
termination
  by (relation "measure (\<lambda>(a, b). nat b)") auto

declare bezout.simps [simp del]

lemma bezout_gcd: "0 \<le> a \<Longrightarrow> 0 \<le> b \<Longrightarrow> fst (bezout a b) * a + snd (bezout a b) * b = gcd a b"
proof (induction a b rule: bezout.induct)
  case (1 a b)
  show ?case
  proof (cases "b \<le> 0")
    case True
    with 1 show ?thesis by (auto simp: bezout.simps [of a b] bezout.simps [of a 0])
  next
    case False
    obtain x y where xy: "bezout b (a mod b) = (x, y)" by fastforce
    have IH: "x * b + y * (a mod b) = gcd b (a mod b)"
      using 1 False xy by (simp add: Let_def)
    have "y * a + (x - (a div b) * y) * b = x * b + y * (a - (a div b) * b)"
      by (simp add: algebra_simps)
    also have "\<dots> = gcd b (a mod b)" using IH by (simp add: minus_div_mult_eq_mod)
    finally show ?thesis using False xy
      by (simp add: bezout.simps [of a b] gcd_red_int [of a b] gcd.commute)
  qed
qed

definition mod_inverse :: "int \<Rightarrow> int \<Rightarrow> int" where
  "mod_inverse a p = fst (bezout (a mod p) p) mod p"

lemma mod_inverse_mult:
  assumes "1 < p" and "coprime a p"
  shows "a * mod_inverse a p mod p = 1"
proof -
  let ?x = "fst (bezout (a mod p) p)" and ?y = "snd (bezout (a mod p) p)"
  have "?x * (a mod p) + ?y * p = gcd (a mod p) p" using assms by (intro bezout_gcd) auto
  also have "\<dots> = 1" using assms(2) by (simp add: coprime_iff_gcd_eq_1 gcd_red_int [of a p] gcd.commute)
  finally have "(?x * (a mod p) + ?y * p) mod p = 1" using assms(1) by simp
  then have "?x * a mod p = 1" by (simp add: mod_mult_right_eq)
  then show ?thesis by (simp add: mod_inverse_def mod_mult_right_eq mult.commute)
qed

interpretation euclid: gmp_invert mod_inverse
proof
  fix a p :: int
  assume "1 < p" "coprime a p"
  then show "0 \<le> mod_inverse a p \<and> mod_inverse a p < p" "a * mod_inverse a p mod p = 1"
    by (simp_all add: mod_inverse_mult) (simp add: mod_inverse_def)
qed

section \<open>Polynomial functions modulo a prime\<close>

definition poly_eval :: "int list \<Rightarrow> int \<Rightarrow> int" where
  "poly_eval cs x = foldr (\<lambda>c acc. c + x * acc) cs 0"

lemma poly_eval_simps [simp]:
  "poly_eval [] x = 0" "poly_eval (c # cs) x = c + x * poly_eval cs x"
  by (simp_all add: poly_eval_def)

lemma synthetic_division:
  "\<exists>qs. length qs = length cs - 1 \<and> (\<forall>x. poly_eval cs x = (x - a) * poly_eval qs x + poly_eval cs a)"
proof (induction cs)
  case Nil
  then show ?case by simp
next
  case (Cons c cs)
  then obtain qs where qs: "length qs = length cs - 1"
    "\<And>x. poly_eval cs x = (x - a) * poly_eval qs x + poly_eval cs a" by blast
  show ?case
  proof (cases cs)
    case Nil
    then show ?thesis by simp
  next
    case (Cons d ds)
    have "poly_eval (c # cs) x = (x - a) * poly_eval (poly_eval cs a # qs) x + poly_eval (c # cs) a" for x
      by (subst poly_eval_simps(2), subst qs(2)) (simp add: algebra_simps)
    moreover have "length (poly_eval cs a # qs) = length (c # cs) - 1" using qs(1) Cons by simp
    ultimately show ?thesis by blast
  qed
qed

lemma poly_many_roots:
  assumes "prime_modulus p" and "R \<subseteq> {0..<p}" and "length cs \<le> card R"
    and "\<And>r. r \<in> R \<Longrightarrow> poly_eval cs r mod p = 0"
  shows "poly_eval cs x mod p = 0"
  using assms(2-)
proof (induction "length cs" arbitrary: cs R x)
  case 0
  then show ?case by simp
next
  case (Suc n)
  have fin: "finite R" using Suc.prems(1) by (rule finite_subset) simp
  from Suc obtain a where a: "a \<in> R" by (metis card.empty equals0I not_less_eq_eq zero_le)
  obtain qs where qs: "length qs = length cs - 1"
    "\<And>x. poly_eval cs x = (x - a) * poly_eval qs x + poly_eval cs a"
    using synthetic_division by blast
  have root: "poly_eval qs b mod p = 0" if b: "b \<in> R - {a}" for b
  proof -
    have "poly_eval cs b = (b - a) * poly_eval qs b + poly_eval cs a" by (rule qs(2))
    moreover have "poly_eval cs b mod p = 0" "poly_eval cs a mod p = 0" using b a Suc.prems by auto
    ultimately have "(b - a) * poly_eval qs b mod p = 0" by (simp add: dvd_eq_mod_eq_0 [symmetric] dvd_add_left_iff)
    moreover have "(b - a) mod p \<noteq> 0"
    proof (rule small_mod_nonzero)
      have "a \<in> {0..<p}" "b \<in> {0..<p}" "b \<noteq> a" using Suc.prems(1) a b by auto
      then show "0 < \<bar>b - a\<bar>" "\<bar>b - a\<bar> < p" by auto
    qed
    ultimately show ?thesis using prime_modulus_mult_0 [OF assms(1), of "b - a" "poly_eval qs b"] by simp
  qed
  have "poly_eval qs x mod p = 0"
  proof (rule Suc.hyps(1) [of qs "R - {a}"])
    show "n = length qs" using qs(1) Suc.hyps(2) by simp
    show "length qs \<le> card (R - {a})" using qs(1) Suc.prems(2) a fin by simp
  qed (use Suc.prems(1) root in auto)
  moreover have "poly_eval cs a mod p = 0" using a Suc.prems by blast
  ultimately show ?case by (subst qs(2)) (simp add: dvd_eq_mod_eq_0 [symmetric])
qed

text \<open>\<open>polyfn p n f\<close>: modulo \<open>p\<close>, \<open>f\<close> is a polynomial of degree less than \<open>n\<close>.\<close>

definition polyfn :: "int \<Rightarrow> nat \<Rightarrow> (int \<Rightarrow> int) \<Rightarrow> bool" where
  "polyfn p n f \<longleftrightarrow> (\<exists>cs. length cs = n \<and> (\<forall>x. f x mod p = poly_eval cs x mod p))"

named_theorems polyfn_intros \<open>closure properties of polynomial functions\<close>

lemma poly_eval_append_0 [simp]: "poly_eval (cs @ replicate k 0) x = poly_eval cs x"
proof (induction cs)
  case Nil
  then show ?case by (induction k) auto
qed auto

lemma polyfn_mono: "polyfn p n f \<Longrightarrow> n \<le> m \<Longrightarrow> polyfn p m f"
  unfolding polyfn_def
  by (metis (no_types, lifting) le_add_diff_inverse length_append length_replicate poly_eval_append_0)

lemma polyfn_cong: "polyfn p n f \<Longrightarrow> (\<And>x. f x mod p = g x mod p) \<Longrightarrow> polyfn p n g"
  unfolding polyfn_def by metis

lemma polyfn_const [polyfn_intros]: "0 < n \<Longrightarrow> polyfn p n (\<lambda>_. c)"
  by (rule polyfn_mono [of p 1]) (auto simp: polyfn_def intro!: exI [of _ "[c]"])

lemma poly_eval_map2_add:
  "length cs = length ds \<Longrightarrow> poly_eval (map2 (+) cs ds) x = poly_eval cs x + poly_eval ds x"
  by (induction cs ds rule: list_induct2) (auto simp: algebra_simps)

lemma polyfn_add [polyfn_intros]:
  assumes "polyfn p n f" and "polyfn p n g"
  shows "polyfn p n (\<lambda>x. f x + g x)"
proof -
  obtain cs ds where "length cs = n" "length ds = n"
    "\<And>x. f x mod p = poly_eval cs x mod p" "\<And>x. g x mod p = poly_eval ds x mod p"
    using assms by (auto simp: polyfn_def)
  then have "length (map2 (+) cs ds) = n \<and> (\<forall>x. (f x + g x) mod p = poly_eval (map2 (+) cs ds) x mod p)"
    by (simp add: poly_eval_map2_add) (metis mod_add_eq)
  then show ?thesis unfolding polyfn_def by blast
qed

lemma poly_eval_map_mult: "poly_eval (map ((*) c) cs) x = c * poly_eval cs x"
  by (induction cs) (auto simp: algebra_simps)

lemma polyfn_scale [polyfn_intros]:
  assumes "polyfn p n f"
  shows "polyfn p n (\<lambda>x. c * f x)"
proof -
  obtain cs where "length cs = n" "\<And>x. f x mod p = poly_eval cs x mod p"
    using assms by (auto simp: polyfn_def)
  then have "length (map ((*) c) cs) = n \<and> (\<forall>x. c * f x mod p = poly_eval (map ((*) c) cs) x mod p)"
    by (simp add: poly_eval_map_mult) (metis mod_mult_right_eq)
  then show ?thesis unfolding polyfn_def by blast
qed

lemma polyfn_times_x:
  assumes "polyfn p n f"
  shows "polyfn p (Suc n) (\<lambda>x. x * f x)"
proof -
  obtain cs where "length cs = n" "\<And>x. f x mod p = poly_eval cs x mod p"
    using assms by (auto simp: polyfn_def)
  then have "length (0 # cs) = Suc n \<and> (\<forall>x. x * f x mod p = poly_eval (0 # cs) x mod p)"
    by simp (metis mod_mult_right_eq)
  then show ?thesis unfolding polyfn_def by blast
qed

lemma polyfn_times_linear [polyfn_intros]:
  assumes "polyfn p n f"
  shows "polyfn p (Suc n) (\<lambda>x. (a + b * x) * f x)"
proof -
  have "polyfn p (Suc n) (\<lambda>x. a * f x + b * (x * f x))"
    using assms by (intro polyfn_add polyfn_scale polyfn_times_x) (auto intro: polyfn_mono)
  then show ?thesis by (rule polyfn_cong) (simp add: algebra_simps)
qed

lemma polyfn_sum [polyfn_intros]:
  assumes "finite A" and "0 < n" and "\<And>i. i \<in> A \<Longrightarrow> polyfn p n (f i)"
  shows "polyfn p n (\<lambda>x. \<Sum>i\<in>A. f i x)"
  using assms by (induction A rule: finite_induct) (auto intro: polyfn_intros)

lemma polyfn_prod_linear [polyfn_intros]:
  assumes "finite A"
  shows "polyfn p (Suc (card A)) (\<lambda>x. \<Prod>i\<in>A. (a i + b i * x))"
  using assms by (induction A rule: finite_induct) (auto intro: polyfn_intros)

lemma polyfn_unique:
  assumes p: "prime_modulus p" and fg: "polyfn p n f" "polyfn p n g"
    and R: "R \<subseteq> {0..<p}" "n \<le> card R" and eq: "\<And>r. r \<in> R \<Longrightarrow> f r mod p = g r mod p"
  shows "f x mod p = g x mod p"
proof -
  have "polyfn p n (\<lambda>x. f x + (-1) * g x)" using fg by (intro polyfn_intros)
  then obtain cs where cs: "length cs = n" "\<And>x. (f x - g x) mod p = poly_eval cs x mod p"
    unfolding polyfn_def by auto
  have "poly_eval cs x mod p = 0"
  proof (rule poly_many_roots [OF p R(1)])
    show "length cs \<le> card R" using cs(1) R(2) by simp
    show "poly_eval cs r mod p = 0" if "r \<in> R" for r
      unfolding cs(2) [symmetric] using eq [OF that] by (metis diff_self mod_0 mod_diff_eq)
  qed
  then have "(f x - g x) mod p = 0" using cs(2) by metis
  then show ?thesis by (simp add: dvd_eq_mod_eq_0 [symmetric] mod_eq_dvd_iff)
qed

lemma polyfn_root_bound:
  assumes "prime_modulus p" and "polyfn p n f" "polyfn p n g" and "f x mod p \<noteq> g x mod p"
  shows "card {r \<in> {0..<p}. f r mod p = g r mod p} < n"
proof (rule ccontr)
  let ?R = "{r \<in> {0..<p}. f r mod p = g r mod p}"
  assume "\<not> card ?R < n"
  then have n: "n \<le> card ?R" by (simp only: not_less)
  have R: "?R \<subseteq> {0..<p}" by (rule Collect_restrict)
  have eq: "\<And>r. r \<in> ?R \<Longrightarrow> f r mod p = g r mod p" by (simp only: mem_Collect_eq)
  from polyfn_unique [OF assms(1-3) R n eq] assms(4) show False by metis
qed

end
