(* ===== verification/Cmt_Env.thy ===== *)
theory Cmt_Env
  imports Prime_Field "HOL-Library.Word"
begin

text \<open>
  The arithmetic of \<^verbatim>\<open>cmtgkr/cmtgkr_env.cpp\<close>: modular operations, the Lagrange basis \<open>chi\<close> and its
  batched computation \<open>computeChiAll\<close>, multilinear extensions of gate values and of the equality
  predicate (\<open>evaluate_beta\<close>). A C++ function that writes its first argument \<^verbatim>\<open>rop\<close> returns it; where it
  also reads \<^verbatim>\<open>rop\<close>, the old value is the first argument. An array \<^verbatim>\<open>const mpz_t* r\<close> is a list and the
  pointer \<^verbatim>\<open>&r[k]\<close> is \<open>drop k r\<close>. A layer enters only through its gates' \<^verbatim>\<open>zValue()\<close>s, a list.
\<close>

section \<open>Integer helpers and modular operations\<close>

definition powi_ull :: "64 word \<Rightarrow> 64 word \<Rightarrow> 64 word" where
  "powi_ull x b = fold (\<lambda>j i. i * x) [0..<unat b] 1"

definition log2i :: "nat \<Rightarrow> nat" where
  "log2i n = (if n = 1 then 1 else ceillog2 n)"

definition modmult :: "mpz \<Rightarrow> mpz \<Rightarrow> mpz \<Rightarrow> mpz" where
  "modmult op1 op2 prime = op1 * op2 mod prime"

definition modmult_si :: "mpz \<Rightarrow> int \<Rightarrow> mpz \<Rightarrow> mpz" where
  "modmult_si op1 op2 prime = op1 * op2 mod prime"

definition addmodmult :: "mpz \<Rightarrow> mpz \<Rightarrow> mpz \<Rightarrow> mpz \<Rightarrow> mpz" where
  "addmodmult rop op1 op2 prime = (rop + op1 * op2) mod prime"

definition addmodmult_ui :: "mpz \<Rightarrow> mpz \<Rightarrow> nat \<Rightarrow> mpz \<Rightarrow> mpz" where
  "addmodmult_ui rop op1 op2 prime = (rop + op1 * int op2) mod prime"

definition addmodmult_si :: "mpz \<Rightarrow> mpz \<Rightarrow> int \<Rightarrow> mpz \<Rightarrow> mpz" where
  "addmodmult_si rop op1 op2 prime =
     (let rop1 = rop + op1 * \<bar>op2\<bar>;
          rop2 = (if op2 < 0 then - rop1 else rop1)
      in rop2 mod prime)"

definition modadd :: "mpz \<Rightarrow> mpz \<Rightarrow> mpz \<Rightarrow> mpz" where
  "modadd op1 op2 prime = (op1 + op2) mod prime"

definition modsub :: "mpz \<Rightarrow> mpz \<Rightarrow> mpz \<Rightarrow> mpz" where
  "modsub op1 op2 prime = (op1 - op2) mod prime"

definition toTrueNumber :: "mpz \<Rightarrow> mpz \<Rightarrow> mpz \<Rightarrow> mpz" where
  "toTrueNumber a halfPrime prime = (if halfPrime < a then a - prime else a)"

definition one_sub :: "mpz \<Rightarrow> mpz" where
  "one_sub op1 = 1 - op1"

lemmas mod_ops = modmult_def modmult_si_def addmodmult_def modadd_def modsub_def one_sub_def

section \<open>The Lagrange basis\<close>

text \<open>\<^verbatim>\<open>(v >> i) & 1\<close>\<close>

definition bit_at :: "nat \<Rightarrow> nat \<Rightarrow> bool" where
  "bit_at v i \<longleftrightarrow> odd (v div 2 ^ i)"

definition mul_chi :: "mpz \<Rightarrow> nat \<Rightarrow> mpz_vec \<Rightarrow> nat \<Rightarrow> mpz \<Rightarrow> mpz" where
  "mul_chi rop v r n prime =
     fold (\<lambda>i rop. if bit_at v i then modmult rop (r ! i) prime
                   else let tmp = one_sub (r ! i) in modmult rop tmp prime) [0..<n] rop"

definition chi :: "nat \<Rightarrow> mpz_vec \<Rightarrow> nat \<Rightarrow> mpz \<Rightarrow> mpz" where
  "chi v r n prime = mul_chi 1 v r n prime"

definition computeChiAll :: "mpz_vec \<Rightarrow> mpz_vec \<Rightarrow> mpz \<Rightarrow> mpz_vec" where
  "computeChiAll rop r prime =
     (if length rop = 0 then rop
      else let n = length rop
        in fold (\<lambda>logi rop.
             let base = 2 ^ logi;
                 rop = fold (\<lambda>i rop. rop[i := modmult (rop ! (i - base)) (r ! logi) prime])
                         [base..<min (2 * base) n] rop;
                 one_sub_r = one_sub (r ! logi)
             in fold (\<lambda>i rop. rop[i := modmult (rop ! i) one_sub_r prime]) [0..<min base n] rop)
           [0..<length r] (rop[0 := 1]))"

definition evaluate_beta_z_ULL :: "nat \<Rightarrow> mpz_vec \<Rightarrow> nat \<Rightarrow> mpz \<Rightarrow> mpz" where
  "evaluate_beta_z_ULL mi z k prime = chi k z mi prime"

section \<open>Univariate and multilinear extensions\<close>

definition mulmle_si :: "mpz \<Rightarrow> int \<Rightarrow> mpz \<Rightarrow> mpz \<Rightarrow> mpz \<Rightarrow> mpz" where
  "mulmle_si rop pt val0 val1 prime =
     (if pt = 0 then modmult rop val0 prime
      else if pt = 1 then modmult rop val1 prime
      else let tmp = val0 * (1 - pt);
               tmp = addmodmult_si tmp val1 pt prime
           in modmult rop tmp prime)"

definition mle_si :: "int \<Rightarrow> mpz \<Rightarrow> mpz \<Rightarrow> mpz \<Rightarrow> mpz" where
  "mle_si pt val0 val1 prime = mulmle_si 1 pt val0 val1 prime"

definition mulmle :: "mpz \<Rightarrow> mpz \<Rightarrow> mpz \<Rightarrow> mpz \<Rightarrow> mpz \<Rightarrow> mpz" where
  "mulmle rop pt val0 val1 prime =
     (let tmp = one_sub pt;
          tmp = tmp * val0;
          tmp = tmp + pt * val1
      in modmult rop tmp prime)"

definition mle :: "mpz \<Rightarrow> mpz \<Rightarrow> mpz \<Rightarrow> mpz \<Rightarrow> mpz" where
  "mle pt val0 val1 prime = mulmle 1 pt val0 val1 prime"

definition evaluate_beta :: "mpz_vec \<Rightarrow> mpz_vec \<Rightarrow> nat \<Rightarrow> mpz \<Rightarrow> mpz" where
  "evaluate_beta z r n prime =
     fold (\<lambda>i prod. let one_sub_r = one_sub (r ! i)
                    in mulmle prod (z ! i) one_sub_r (r ! i) prime) [0..<n] 1"

definition evaluate_V_chis :: "mpz_vec \<Rightarrow> mpz_vec \<Rightarrow> mpz \<Rightarrow> mpz" where
  "evaluate_V_chis level chis prime =
     fold (\<lambda>i ans. if level ! i \<noteq> 0 then ans + level ! i * chis ! i else ans)
       [0..<length level] 0 mod prime"

definition evaluate_V_i :: "mpz_vec \<Rightarrow> mpz_vec \<Rightarrow> mpz \<Rightarrow> mpz" where
  "evaluate_V_i level_i r prime =
     fold (\<lambda>k ans. let op2 = chi k r (log2i (length level_i)) prime
                   in addmodmult ans (level_i ! k) op2 prime) [0..<length level_i] 0"

section \<open>Lemmas on bits\<close>

lemma le_two_power_log2i: "n \<le> 2 ^ log2i n"
  using le_two_power_ceillog2 by (auto simp: log2i_def)

lemma log2i_pos: "0 < n \<Longrightarrow> 0 < log2i n"
  using le_two_power_ceillog2 [of n] by (cases "ceillog2 n = 0") (auto simp: log2i_def)

lemma two_power_log2i_less: "1 < n \<Longrightarrow> 2 ^ (log2i n - 1) < n"
  using two_power_ceillog2_gt [of n] log2i_pos [of n]
  by (cases "log2i n") (auto simp: log2i_def)

lemma bit_at_add_high: "v < 2 ^ k \<Longrightarrow> i < k \<Longrightarrow> bit_at (v + 2 ^ k * w) i = bit_at v i"
proof -
  assume "i < k"
  then have "v + 2 ^ k * w = v + 2 ^ i * (2 ^ (k - i) * w)"
    by (metis le_add_diff_inverse less_imp_le mult.assoc power_add)
  then have "(v + 2 ^ k * w) div 2 ^ i = v div 2 ^ i + 2 ^ (k - i) * w"
    by (simp only:) (simp add: add.commute)
  with \<open>i < k\<close> show ?thesis by (simp add: bit_at_def)
qed

lemma bit_at_high: "v < 2 ^ k \<Longrightarrow> bit_at (v + 2 ^ k * w) (k + i) = bit_at w i"
  by (simp add: bit_at_def power_add div_mult2_eq)

lemma bit_at_zero_high: "v < 2 ^ k \<Longrightarrow> k \<le> i \<Longrightarrow> \<not> bit_at v i"
  using bit_at_high [of v k 0 "i - k"] by (simp add: bit_at_def)

lemma bit_at_div: "bit_at (v div 2 ^ k) i = bit_at v (k + i)"
  by (simp add: bit_at_def power_add div_mult2_eq)

lemma bit_at_Suc: "bit_at v (Suc i) = bit_at (v div 2) i"
  using bit_at_div [of v 1 i] by simp

lemma bit_at_0: "bit_at v 0 = odd v"
  by (simp add: bit_at_def)

lemma bit_at_eqI: "v < 2 ^ n \<Longrightarrow> w < 2 ^ n \<Longrightarrow> (\<And>i. i < n \<Longrightarrow> bit_at v i = bit_at w i) \<Longrightarrow> v = w"
proof (induction n arbitrary: v w)
  case 0
  then show ?case by simp
next
  case (Suc n)
  have "v div 2 = w div 2"
    using Suc.prems(1,2) Suc.prems(3) [of "Suc i" for i]
    by (intro Suc.IH) (auto simp: bit_at_Suc)
  moreover have "odd v = odd w" using Suc.prems(3) [of 0] by (simp add: bit_at_0)
  ultimately show ?case by (metis bit_eq_rec)
qed

section \<open>The Lagrange basis as a product\<close>

definition sel :: "bool \<Rightarrow> int \<Rightarrow> int" where
  "sel b x = (if b then x else 1 - x)"

definition lagr :: "nat \<Rightarrow> (nat \<Rightarrow> int) \<Rightarrow> nat \<Rightarrow> int" where
  "lagr v f n = (\<Prod>i < n. sel (bit_at v i) (f i))"

lemma lagr_0 [simp]: "lagr v f 0 = 1"
  by (simp add: lagr_def)

lemma lagr_Suc: "lagr v f (Suc n) = lagr v f n * sel (bit_at v n) (f n)"
  by (simp add: lagr_def)

lemma lagr_cong: "(\<And>i. i < n \<Longrightarrow> f i = g i) \<Longrightarrow> lagr v f n = lagr v g n"
  by (simp add: lagr_def)

lemma lagr_add_high: "v < 2 ^ n \<Longrightarrow> lagr (v + 2 ^ n * w) f n = lagr v f n"
  by (auto simp: lagr_def bit_at_add_high intro!: prod.cong)

lemma lagr_split: "lagr v f (m + n) = lagr v f m * lagr (v div 2 ^ m) (\<lambda>i. f (m + i)) n"
  by (induction n) (auto simp: lagr_Suc bit_at_div mult.assoc)

lemma lagr_boolean:
  assumes "v < 2 ^ n" and "w < 2 ^ n"
  shows "lagr v (\<lambda>i. of_bool (bit_at w i)) n = of_bool (v = w)"
proof (cases "v = w")
  case True
  then show ?thesis by (auto simp: lagr_def sel_def intro!: prod.neutral)
next
  case False
  with bit_at_eqI [OF assms] obtain i where "i < n" "bit_at v i \<noteq> bit_at w i" by blast
  then have "sel (bit_at v i) (of_bool (bit_at w i)) = 0" by (auto simp: sel_def)
  with \<open>i < n\<close> have "lagr v (\<lambda>i. of_bool (bit_at w i)) n = 0"
    unfolding lagr_def by (intro prod_zero bexI [of _ i]) auto
  with False show ?thesis by simp
qed

lemma mul_chi_mod: "mul_chi rop v r n p mod p = rop * lagr v ((!) r) n mod p"
proof -
  have "mul_chi rop v r n p = fold (\<lambda>i acc. acc * sel (bit_at v i) (r ! i) mod p) [0..<n] rop"
    unfolding mul_chi_def by (intro fold_cong) (auto simp: mod_ops sel_def)
  then show ?thesis
    by (simp add: fold_mult_mod_prod lagr_def atLeast0LessThan)
qed

lemma mul_chi_reduced: "0 < n \<Longrightarrow> mul_chi rop v r n p = rop * lagr v ((!) r) n mod p"
proof (cases n)
  case (Suc m)
  have "mul_chi rop v r (Suc m) p = mul_chi rop v r m p * sel (bit_at v m) (r ! m) mod p"
    by (auto simp: mul_chi_def mod_ops sel_def)
  then show ?thesis using Suc mul_chi_mod [of rop v r m p]
    by (simp add: lagr_Suc) (metis mod_mult_left_eq mult.assoc)
qed simp

lemma chi_lagr: "1 < p \<Longrightarrow> chi v r n p = lagr v ((!) r) n mod p"
  using mul_chi_reduced [of n 1 v r p] by (cases "n = 0") (auto simp: chi_def mul_chi_def)

section \<open>All basis values at once\<close>

definition chi_step :: "mpz_vec \<Rightarrow> mpz \<Rightarrow> nat \<Rightarrow> nat \<Rightarrow> mpz_vec \<Rightarrow> mpz_vec" where
  "chi_step r prime n logi rop =
     (let base = 2 ^ logi;
          rop = fold (\<lambda>i rop. rop[i := modmult (rop ! (i - base)) (r ! logi) prime])
                  [base..<min (2 * base) n] rop;
          one_sub_r = one_sub (r ! logi)
      in fold (\<lambda>i rop. rop[i := modmult (rop ! i) one_sub_r prime]) [0..<min base n] rop)"

lemma length_chi_step [simp]: "length (chi_step r p n logi rop) = length rop"
  by (simp add: chi_step_def Let_def)

lemma length_fold_chi_step [simp]: "length (fold (chi_step r p n) xs rop) = length rop"
  by (induction xs arbitrary: rop) auto

lemma computeChiAll_chi_step:
  "rop \<noteq> [] \<Longrightarrow> computeChiAll rop r p = fold (chi_step r p (length rop)) [0..<length r] (rop[0 := 1])"
  unfolding computeChiAll_def chi_step_def [abs_def] by (simp add: Let_def)

lemma length_computeChiAll [simp]: "length (computeChiAll rop r p) = length rop"
  by (cases "rop = []") (simp_all add: computeChiAll_chi_step, simp add: computeChiAll_def)

lemma chi_step_nth:
  assumes "k < n" and "n \<le> length rop"
  shows "chi_step r p n logi rop ! k =
     (if k < 2 ^ logi then rop ! k * (1 - r ! logi) mod p
      else if k < 2 * 2 ^ logi then rop ! (k - 2 ^ logi) * r ! logi mod p else rop ! k)"
proof -
  let ?b = "2 ^ logi :: nat"
  have shift: "fold (\<lambda>i rop. rop[i := rop ! (i - ?b) * r ! logi mod p]) [?b..<min (2 * ?b) n] rop ! j =
      (if ?b \<le> j \<and> j < min (2 * ?b) n then rop ! (j - ?b) * r ! logi mod p else rop ! j)"
    if "j < length rop" for j
    using that by (intro fold_upd_shift [where f = "\<lambda>i x. x * r ! logi mod p"]) auto
  show ?thesis using assms
    by (auto simp: chi_step_def Let_def mod_ops shift
        fold_upd_nth [where f = "\<lambda>i x. x * (1 - r ! logi) mod p"])
qed

lemma chi_step_lagr:
  assumes "\<And>i. i < n \<Longrightarrow> i < 2 ^ logi \<Longrightarrow> rop ! i mod p = lagr i f logi mod p"
    and "f logi = r ! logi" and "k < n" "n \<le> length rop" and "k < 2 ^ Suc logi"
  shows "chi_step r p n logi rop ! k = lagr k f (Suc logi) mod p"
proof (cases "k < 2 ^ logi")
  case True
  then have "\<not> bit_at k logi" by (simp add: bit_at_def)
  moreover have "rop ! k * (1 - r ! logi) mod p = lagr k f logi * (1 - r ! logi) mod p"
    using assms(1,3) True by (metis mod_mult_left_eq)
  ultimately show ?thesis using True assms(2-4) by (simp add: chi_step_nth lagr_Suc sel_def)
next
  case False
  define j where "j = k - 2 ^ logi"
  have j: "k = j + 2 ^ logi * 1" "j < 2 ^ logi" using False assms(5) by (auto simp: j_def)
  have "bit_at k logi" using bit_at_high [OF j(2), of 1 0] j(1) by (simp add: bit_at_def)
  moreover have "lagr k f logi = lagr j f logi" using lagr_add_high [OF j(2), of 1] j(1) by simp
  moreover have "rop ! j * r ! logi mod p = lagr j f logi * r ! logi mod p"
    using assms(1) [of j] assms(3) j by (metis add_lessD1 mod_mult_left_eq)
  ultimately show ?thesis using False assms(2-5) by (simp add: chi_step_nth lagr_Suc sel_def j_def)
qed

lemma fold_chi_step_lagr:
  assumes "1 < p" and "k < n" "n \<le> length rop" and "k < 2 ^ m"
  shows "fold (chi_step r p n) [0..<m] (rop[0 := 1]) ! k = lagr k ((!) r) m mod p"
  using assms(2,4)
proof (induction m arbitrary: k)
  case 0
  then show ?case using assms(1,3) by (cases rop) auto
next
  case (Suc m)
  have "chi_step r p n m (fold (chi_step r p n) [0..<m] (rop[0 := 1])) ! k = lagr k ((!) r) (Suc m) mod p"
    using Suc assms(3) by (intro chi_step_lagr) auto
  then show ?case by simp
qed

lemma computeChiAll_lagr:
  assumes "1 < p" and "k < length rop" and "length rop \<le> 2 ^ length r"
  shows "computeChiAll rop r p ! k = lagr k ((!) r) (length r) mod p"
  using assms fold_chi_step_lagr [of p k "length rop" rop "length r" r]
  by (subst computeChiAll_chi_step) auto

section \<open>Evaluation lemmas\<close>

lemma mulmle_mod: "mulmle rop pt v0 v1 p = rop * ((1 - pt) * v0 + pt * v1) mod p"
  by (simp add: mulmle_def mod_ops Let_def)

lemma mle_eq: "mle pt v0 v1 p = ((1 - pt) * v0 + pt * v1) mod p"
  by (simp add: mle_def mulmle_mod)

lemma mle_si_eq: "0 \<le> pt \<Longrightarrow> mle_si pt v0 v1 p = ((1 - pt) * v0 + pt * v1) mod p"
  by (auto simp: mle_si_def mulmle_si_def addmodmult_si_def mod_ops Let_def algebra_simps)

definition eq_ext :: "int \<Rightarrow> int \<Rightarrow> int" where
  "eq_ext z r = (1 - z) * (1 - r) + z * r"

lemma evaluate_beta_mod: "evaluate_beta z r n p mod p = (\<Prod>i < n. eq_ext (z ! i) (r ! i)) mod p"
proof -
  have "evaluate_beta z r n p = fold (\<lambda>i acc. acc * eq_ext (z ! i) (r ! i) mod p) [0..<n] 1"
    unfolding evaluate_beta_def by (intro fold_cong) (auto simp: mulmle_mod eq_ext_def one_sub_def)
  then show ?thesis by (simp add: fold_mult_mod_prod atLeast0LessThan)
qed

lemma evaluate_beta_reduced: "1 < p \<Longrightarrow> evaluate_beta z r n p = (\<Prod>i < n. eq_ext (z ! i) (r ! i)) mod p"
proof (cases n)
  case 0
  then show "1 < p \<Longrightarrow> ?thesis" by (simp add: evaluate_beta_def)
next
  case (Suc m)
  have "evaluate_beta z r (Suc m) p mod p = evaluate_beta z r (Suc m) p"
    by (simp add: evaluate_beta_def mulmle_mod Let_def)
  then show ?thesis using Suc evaluate_beta_mod [of z r n p] by simp
qed

definition mle_at :: "mpz_vec \<Rightarrow> (nat \<Rightarrow> int) \<Rightarrow> nat \<Rightarrow> int" where
  "mle_at vals f m = (\<Sum>k < length vals. vals ! k * lagr k f m)"

lemma evaluate_V_i_mle:
  assumes "1 < p" shows "evaluate_V_i vals r p = mle_at vals ((!) r) (log2i (length vals)) mod p"
proof -
  have "evaluate_V_i vals r p = fold (\<lambda>k ans. (ans + vals ! k * (lagr k ((!) r) (log2i (length vals)) mod p)) mod p)
          [0..<length vals] 0"
    unfolding evaluate_V_i_def by (intro fold_cong) (auto simp: mod_ops chi_lagr assms)
  also have "\<dots> = \<dots> mod p" by (cases vals rule: rev_cases) (auto simp: assms)
  also have "\<dots> = (\<Sum>k = 0..<length vals. vals ! k * (lagr k ((!) r) (log2i (length vals)) mod p)) mod p"
    by (simp add: fold_add_mod_sum)
  also have "\<dots> = mle_at vals ((!) r) (log2i (length vals)) mod p"
    unfolding mle_at_def atLeast0LessThan
    by (subst (1 2) mod_sum_eq [symmetric]) (simp add: mod_mult_right_eq)
  finally show ?thesis .
qed

lemma evaluate_V_chis_sum:
  "evaluate_V_chis vals chis p = (\<Sum>k < length vals. vals ! k * chis ! k) mod p"
proof -
  have "fold (\<lambda>i ans. if vals ! i \<noteq> 0 then ans + vals ! i * chis ! i else ans) [0..<length vals] 0 =
        fold (\<lambda>i ans. ans + vals ! i * chis ! i) [0..<length vals] 0"
    by (intro fold_cong) auto
  then show ?thesis by (simp add: evaluate_V_chis_def fold_add_sum atLeast0LessThan)
qed

lemma evaluate_V_chis_mle:
  assumes "1 < p" and "length vals \<le> 2 ^ m"
    and "\<And>k. k < length vals \<Longrightarrow> chis ! k mod p = lagr k f m mod p"
  shows "evaluate_V_chis vals chis p = mle_at vals f m mod p"
proof -
  have "vals ! k * chis ! k mod p = vals ! k * lagr k f m mod p" if "k < length vals" for k
    using mod_mult_cong [OF refl assms(3) [OF that]] .
  then show ?thesis unfolding evaluate_V_chis_sum mle_at_def
    by (subst (1 2) mod_sum_eq [symmetric]) simp
qed

end
