(* ===== verification/Extrap.thy ===== *)
theory Extrap
  imports Cmt_Env
begin

text \<open>
  Polynomial extrapolation of \<^verbatim>\<open>cmtgkr/cmtgkr_env.cpp\<close>: a polynomial given by its values at
  \<open>0, 1, \<dots>, n - 1\<close> is evaluated at a random point \<open>r\<close>, by the direct formula (\<open>extrap\<close>,
  \<open>extrap3\<close>) on the prover's side and by precomputed barycentric weights
  (\<open>bary_precompute_weights\<close>, \<open>bary_precompute_weights3\<close>, \<open>bary_extrap\<close>) on the verifier's. Each
  routine is shown to give the value of the unique polynomial of degree less than \<open>n\<close>.
\<close>

section \<open>The routines\<close>

definition bary_precompute_weights3 :: "mpz \<Rightarrow> mpz \<Rightarrow> mpz_vec" where
  "bary_precompute_weights3 r prime =
     (let tmp = map (\<lambda>i. r - int i) [0..<3];
          weights = map (\<lambda>i. tmp ! ((i + 1) mod 3) * tmp ! ((i + 2) mod 3)) [0..<3];
          tmp0 = (prime + 1) div 2
      in [modmult (weights ! 0) tmp0 prime, modmult_si (weights ! 1) (-1) prime,
          modmult (weights ! 2) tmp0 prime])"

definition bary_precompute_weights ::
  "(mpz \<Rightarrow> mpz \<Rightarrow> mpz) \<Rightarrow> nat \<Rightarrow> mpz \<Rightarrow> mpz \<Rightarrow> mpz_vec" where
  "bary_precompute_weights mpz_invert n r prime =
     (let (weights, lx) =
        fold (\<lambda>i (weights, lx).
            let w = fold (\<lambda>j w. if i \<noteq> j then w * (int i - int j) else w) [0..<n] 1;
                tmp = r - int i
            in (weights @ [mpz_invert (w * tmp) prime], modmult lx tmp prime)) [0..<n] ([], 1)
      in map (\<lambda>w. modmult w lx prime) weights)"

definition bary_extrap :: "nat \<Rightarrow> mpz_vec \<Rightarrow> mpz_vec \<Rightarrow> mpz \<Rightarrow> mpz_vec" where
  "bary_extrap nrop vec weights prime =
     map (\<lambda>b. let y = drop (b * length weights) vec
              in fold (\<lambda>i acc. let tmp = weights ! i * y ! i in acc + tmp)
                   [0..<length weights] 0 mod prime)
       [0..<nrop]"

definition extrap3 :: "mpz_vec \<Rightarrow> mpz \<Rightarrow> mpz \<Rightarrow> mpz" where
  "extrap3 vec r prime =
     (let tmp1 = r - 1; tmp2 = r - 2;
          rop = tmp1 * tmp2 * vec ! 0;
          tmp2 = tmp2 * 2 * vec ! 1;
          tmp1 = tmp1 * vec ! 2;
          tmp1 = (tmp1 - tmp2) * r;
          rop = rop + tmp1;
          tmp1 = (prime + 1) div 2
      in rop * tmp1 mod prime)"

definition extrap :: "(mpz \<Rightarrow> mpz \<Rightarrow> mpz) \<Rightarrow> mpz_vec \<Rightarrow> nat \<Rightarrow> mpz \<Rightarrow> mpz \<Rightarrow> mpz" where
  "extrap mpz_invert vec n r prime =
     fold (\<lambda>i out.
         let mult = fold (\<lambda>j mult.
               if i \<noteq> j
               then let inv = mpz_invert (int i - int j) prime;
                        mult = mult * inv;
                        inv = r - int j
                    in modmult mult inv prime
               else mult) [0..<n] 1
         in addmodmult out mult (vec ! i) prime) [0..<n] 0"

definition extrap_ui :: "(mpz \<Rightarrow> mpz \<Rightarrow> mpz) \<Rightarrow> mpz_vec \<Rightarrow> nat \<Rightarrow> nat \<Rightarrow> mpz \<Rightarrow> mpz" where
  "extrap_ui mpz_invert vec n r prime = extrap mpz_invert vec n (int r) prime"

section \<open>Products over the other nodes\<close>

abbreviation others :: "nat \<Rightarrow> nat \<Rightarrow> nat set" where
  "others n i \<equiv> {0..<n} - {i}"

lemma fold_others_mult:
  "fold (\<lambda>j w. if i \<noteq> j then w * f j else w) [0..<n] (x :: int) = x * (\<Prod>j \<in> others n i. f j)"
proof (induction n)
  case (Suc n)
  have "others (Suc n) i = (if i = n then others n i else insert n (others n i))"
    by (auto simp: less_Suc_eq)
  with Suc show ?case by (cases "i = n") (auto simp: mult.assoc mult.commute)
qed simp

lemma fold_others_mult_mod:
  "fold (\<lambda>j w. if i \<noteq> j then w * f j mod p else w) [0..<n] (x :: int) mod p
    = x * (\<Prod>j \<in> others n i. f j) mod p"
proof (induction n)
  case (Suc n)
  have set: "others (Suc n) i = (if i = n then others n i else insert n (others n i))"
    by (auto simp: less_Suc_eq)
  show ?case
  proof (cases "i = n")
    case True
    with Suc set show ?thesis by simp
  next
    case False
    let ?F = "fold (\<lambda>j w. if i \<noteq> j then w * f j mod p else w) [0..<n] x"
    have "?F * f n mod p = (?F mod p) * f n mod p" by (simp add: mod_mult_left_eq)
    also have "\<dots> = x * (\<Prod>j \<in> others n i. f j) * f n mod p" by (simp only: Suc mod_mult_left_eq)
    finally show ?thesis using False set by (simp add: mult_ac)
  qed
qed simp

lemma prod_mod_1:
  assumes "finite A" and "\<And>j. j \<in> A \<Longrightarrow> f j mod p = 1" and "1 < (p :: int)"
  shows "(\<Prod>j \<in> A. f j) mod p = 1"
  using assms
proof (induction A rule: finite_induct)
  case (insert a A)
  have "f a * prod f A mod p = (f a mod p) * (prod f A mod p) mod p" by (simp add: mod_mult_eq)
  also have "\<dots> = 1" using insert by simp
  finally show ?case using insert by simp
qed simp

lemma node_diff_nonzero:
  "i < n \<Longrightarrow> j < n \<Longrightarrow> i \<noteq> j \<Longrightarrow> int n \<le> p \<Longrightarrow> (int i - int j) mod p \<noteq> 0"
  by (rule small_mod_nonzero) auto

lemma prime_modulus_cancel:
  assumes "prime_modulus p" and "c mod p \<noteq> 0" and "a * c mod p = b * c mod p"
  shows "a mod p = b mod p"
proof -
  have "(a - b) * c mod p = 0" using assms(3) by (simp add: mod_eq_dvd_iff left_diff_distrib dvd_eq_mod_eq_0)
  with prime_modulus_mult_0 [OF assms(1), of "a - b" c] assms(2) have "(a - b) mod p = 0" by simp
  then show ?thesis by (simp add: mod_eq_dvd_iff dvd_eq_mod_eq_0)
qed

section \<open>Extrapolation is interpolation\<close>

definition lag_basis :: "(mpz \<Rightarrow> mpz \<Rightarrow> mpz) \<Rightarrow> nat \<Rightarrow> nat \<Rightarrow> mpz \<Rightarrow> mpz \<Rightarrow> mpz" where
  "lag_basis mpz_invert n i p x = (\<Prod>j \<in> others n i. mpz_invert (int i - int j) p * (x - int j))"

lemma extrap_basis: "extrap mpz_invert vec n r p mod p = (\<Sum>i < n. lag_basis mpz_invert n i p r * vec ! i) mod p"
proof -
  let ?m = "\<lambda>i. fold (\<lambda>j w. if i \<noteq> j then w * (mpz_invert (int i - int j) p * (r - int j)) mod p else w) [0..<n] 1"
  have ext: "extrap mpz_invert vec n r p = fold (\<lambda>i out. (out + ?m i * vec ! i) mod p) [0..<n] 0"
    unfolding extrap_def modmult_def addmodmult_def Let_def mult.assoc ..
  have "extrap mpz_invert vec n r p mod p = (\<Sum>i < n. ?m i * vec ! i) mod p"
    unfolding ext fold_add_mod_sum by (simp add: atLeast0LessThan)
  also have "\<dots> = (\<Sum>i < n. ?m i * vec ! i mod p) mod p" by (simp add: mod_sum_eq)
  also have "\<dots> = (\<Sum>i < n. lag_basis mpz_invert n i p r * vec ! i mod p) mod p"
  proof -
    have "?m i * vec ! i mod p = lag_basis mpz_invert n i p r * vec ! i mod p" for i
      by (rule mod_mult_cong) (simp_all add: fold_others_mult_mod lag_basis_def)
    then show ?thesis by simp
  qed
  finally show ?thesis by (simp add: mod_sum_eq)
qed

lemma extrap_reduced: "0 < n \<Longrightarrow> extrap mpz_invert vec n r p mod p = extrap mpz_invert vec n r p"
  by (cases n) (simp_all add: extrap_def mod_ops)

lemma polyfn_basis: "i < n \<Longrightarrow> polyfn p n (lag_basis mpz_invert n i p)"
proof -
  assume i: "i < n"
  let ?c = "\<lambda>j. mpz_invert (int i - int j) p"
  have "polyfn p (Suc (card (others n i))) (\<lambda>x. \<Prod>j \<in> others n i. (- ?c j * int j + ?c j * x))"
    by (rule polyfn_prod_linear) simp
  moreover have "Suc (card (others n i)) = n" using i by simp
  ultimately show ?thesis
    unfolding lag_basis_def by (simp add: algebra_simps cong: prod.cong)
qed

context gmp_invert
begin

lemma lag_basis_node:
  assumes p: "prime_modulus p" "int n \<le> p" and "i < n" "k < n"
  shows "lag_basis mpz_invert n i p (int k) mod p = of_bool (i = k)"
proof (cases "i = k")
  case True
  have "mpz_invert (int i - int j) p * (int i - int j) mod p = 1" if "j \<in> others n i" for j
    using mpz_invert_prime [OF p(1) node_diff_nonzero [of i n j]] that assms by (auto simp: mult.commute)
  then have "lag_basis mpz_invert n i p (int i) mod p = 1"
    unfolding lag_basis_def using p(1) by (intro prod_mod_1) auto
  with True show ?thesis by simp
next
  case False
  then have "lag_basis mpz_invert n i p (int k) = 0"
    unfolding lag_basis_def using assms by (intro prod_zero bexI [of _ k]) auto
  with False show ?thesis by simp
qed

lemma basis_interpolates:
  assumes p: "prime_modulus p" "int n \<le> p" and f: "polyfn p n f"
    and vec: "\<And>i. i < n \<Longrightarrow> vec ! i mod p = f (int i) mod p"
  shows "(\<Sum>i < n. lag_basis mpz_invert n i p r * vec ! i) mod p = f r mod p"
proof (cases "n = 0")
  case True
  then show ?thesis using f by (auto simp: polyfn_def)
next
  case False
  let ?g = "\<lambda>x. \<Sum>i < n. vec ! i * lag_basis mpz_invert n i p x"
  have g: "polyfn p n ?g" using False by (intro polyfn_intros polyfn_basis) auto
  have "?g r mod p = f r mod p"
  proof (rule polyfn_unique [OF p(1) g f, of "int ` {0..<n}"])
    show "int ` {0..<n} \<subseteq> {0..<p}" using p(2) by auto
    show "n \<le> card (int ` {0..<n})" by (simp add: card_image)
    fix x assume "x \<in> int ` {0..<n}"
    then obtain k where k: "x = int k" "k < n" by auto
    have "?g x mod p = (\<Sum>i < n. vec ! i * (lag_basis mpz_invert n i p x mod p)) mod p"
      by (subst (1 2) mod_sum_eq [symmetric]) (simp add: mod_mult_right_eq)
    also have "\<dots> = (\<Sum>i < n. vec ! i * of_bool (i = k)) mod p"
      using p k by (intro arg_cong [where f = "\<lambda>x. x mod p"] sum.cong refl) (simp add: lag_basis_node)
    also have "\<dots> = vec ! k mod p" using k by (simp add: of_bool_def if_distrib sum.If_cases cong: if_cong)
    finally show "?g x mod p = f x mod p" using vec k by simp
  qed
  then show ?thesis by (simp add: mult.commute)
qed

lemma extrap_poly:
  assumes "prime_modulus p" "int n \<le> p" "0 < n" "polyfn p n f"
    and "\<And>i. i < n \<Longrightarrow> vec ! i mod p = f (int i) mod p"
  shows "extrap mpz_invert vec n r p = f r mod p"
  using extrap_basis [of mpz_invert vec n r p] basis_interpolates [of p n f vec r] assms extrap_reduced by metis

end

section \<open>Barycentric weights\<close>

lemma bary_weights_state:
  "fold (\<lambda>i (weights, lx).
        let w = fold (\<lambda>j w. if i \<noteq> j then w * (int i - int j) else w) [0..<n] 1; tmp = r - int i
        in (weights @ [mpz_invert (w * tmp) prime], modmult lx tmp prime)) [0..<m] ([], 1) =
   (map (\<lambda>i. mpz_invert ((\<Prod>j \<in> others n i. int i - int j) * (r - int i)) prime) [0..<m],
    fold (\<lambda>i lx. lx * (r - int i) mod prime) [0..<m] 1)"
  by (induction m) (simp_all add: Let_def modmult_def fold_others_mult)

lemma length_bary_precompute_weights [simp]: "length (bary_precompute_weights mpz_invert n r p) = n"
  unfolding bary_precompute_weights_def bary_weights_state by simp

lemma bary_weight_nth:
  assumes "i < n"
  shows "bary_precompute_weights mpz_invert n r p ! i =
    mpz_invert ((\<Prod>j \<in> others n i. int i - int j) * (r - int i)) p * (\<Prod>j < n. r - int j) mod p"
proof -
  let ?lx = "fold (\<lambda>i lx. lx * (r - int i) mod p) [0..<n] 1"
  have "x * ?lx mod p = x * (\<Prod>j < n. r - int j) mod p" for x
    using fold_mult_mod_prod [of "\<lambda>i. r - int i" p 0 n 1]
    by (intro mod_mult_cong refl) (simp add: atLeast0LessThan)
  then show ?thesis using assms
    unfolding bary_precompute_weights_def bary_weights_state by (simp add: modmult_def)
qed

lemma bary_extrap_nth:
  assumes "b < m"
  shows "bary_extrap m vec weights p ! b =
    (\<Sum>i < length weights. weights ! i * drop (b * length weights) vec ! i) mod p"
  using assms by (simp add: bary_extrap_def Let_def fold_add_sum atLeast0LessThan)

lemma length_bary_extrap [simp]: "length (bary_extrap m vec weights p) = m"
  by (simp add: bary_extrap_def)

lemma sum_mod_cong:
  assumes "\<And>i. i \<in> A \<Longrightarrow> f i mod (p :: int) = g i mod p"
  shows "(\<Sum>i \<in> A. f i) mod p = (\<Sum>i \<in> A. g i) mod p"
  by (subst (1 2) mod_sum_eq [symmetric]) (simp add: assms)

lemma prod_mod_nonzero:
  assumes "finite A" and "prime_modulus p" and "\<And>i. i \<in> A \<Longrightarrow> f i mod p \<noteq> 0"
  shows "prod f A mod p \<noteq> 0"
  using assms
proof (induction A rule: finite_induct)
  case empty
  then show ?case by (auto dest: prime_modulus_gt2)
next
  case (insert a A)
  then show ?case using prime_modulus_mult_0 [of p "f a" "prod f A"] by auto
qed

lemma inv2_mult: "prime_modulus p \<Longrightarrow> 2 * ((p + 1) div 2) mod p = 1"
proof -
  assume p: "prime_modulus p"
  then have "2 * ((p + 1) div 2) = p + 1" using prime_modulus_odd [OF p] by presburger
  with prime_modulus_gt2 [OF p] show ?thesis by simp
qed

text \<open>A degree-two interpolation formula shared by \<open>extrap3\<close> and the three-point weights.\<close>

lemma quadratic_interpolation:
  assumes p: "prime_modulus p" and f: "polyfn p 3 f"
  shows "(f 0 * ((r - 1) * (r - 2)) - 2 * f 1 * (r * (r - 2)) + f 2 * (r * (r - 1))) * ((p + 1) div 2) mod p
          = f r mod p"
proof -
  obtain cs where cs: "length cs = 3" "\<And>x. f x mod p = poly_eval cs x mod p"
    using f by (auto simp: polyfn_def)
  obtain a b c where abc: "cs = [a, b, c]" using cs(1) by (auto simp: length_Suc_conv numeral_3_eq_3)
  let ?q = "poly_eval cs" and ?h = "(p + 1) div 2"
  have q: "?q 0 * ((r - 1) * (r - 2)) - 2 * ?q 1 * (r * (r - 2)) + ?q 2 * (r * (r - 1)) = 2 * ?q r"
    by (simp add: abc algebra_simps)
  have "(f 0 * ((r - 1) * (r - 2)) - 2 * f 1 * (r * (r - 2)) + f 2 * (r * (r - 1))) * ?h mod p =
        (?q 0 * ((r - 1) * (r - 2)) - 2 * ?q 1 * (r * (r - 2)) + ?q 2 * (r * (r - 1))) * ?h mod p"
    by (intro mod_mult_cong mod_add_cong mod_diff_cong refl cs(2))
  also have "\<dots> = ?q r * (2 * ?h) mod p" unfolding q by (simp add: mult_ac)
  also have "\<dots> = ?q r * (2 * ?h mod p) mod p" by (simp only: mod_mult_right_eq)
  also have "\<dots> = f r mod p" by (simp add: inv2_mult [OF p] cs(2))
  finally show ?thesis .
qed

lemma extrap3_poly:
  assumes p: "prime_modulus p" and f: "polyfn p 3 f"
    and vec: "\<And>i. i < 3 \<Longrightarrow> vec ! i mod p = f (int i) mod p"
  shows "extrap3 vec r p = f r mod p"
proof -
  have "extrap3 vec r p =
     (vec ! 0 * ((r - 1) * (r - 2)) - 2 * vec ! 1 * (r * (r - 2)) + vec ! 2 * (r * (r - 1))) * ((p + 1) div 2) mod p"
    by (simp add: extrap3_def Let_def algebra_simps)
  also have "\<dots> = (f 0 * ((r - 1) * (r - 2)) - 2 * f 1 * (r * (r - 2)) + f 2 * (r * (r - 1))) * ((p + 1) div 2) mod p"
    using vec [of 0] vec [of 1] vec [of 2] by (intro mod_mult_cong mod_add_cong mod_diff_cong refl) auto
  finally show ?thesis using quadratic_interpolation [OF p f] by simp
qed

lemma weights3_list:
  "bary_precompute_weights3 r p =
    [(r - 1) * (r - 2) * ((p + 1) div 2) mod p, - ((r - 2) * r) mod p, r * (r - 1) * ((p + 1) div 2) mod p]"
proof -
  have upt: "[0..<3] = [0, 1, 2 :: nat]" by (simp add: upt_rec)
  show ?thesis by (simp add: bary_precompute_weights3_def Let_def modmult_def modmult_si_def upt)
qed

lemma length_weights3 [simp]: "length (bary_precompute_weights3 r p) = 3"
  by (simp add: weights3_list)

lemma bary3_poly:
  assumes p: "prime_modulus p" and f: "polyfn p 3 f" and "b < m"
    and vec: "\<And>i. i < 3 \<Longrightarrow> drop (b * 3) vec ! i mod p = f (int i) mod p"
  shows "bary_extrap m vec (bary_precompute_weights3 r p) p ! b = f r mod p"
proof -
  let ?h = "(p + 1) div 2" and ?w = "bary_precompute_weights3 r p"
  have h: "2 * ?h mod p = 1" by (rule inv2_mult [OF p])
  have "- ((r - 2) * r) mod p = - ((r - 2) * r) * (2 * ?h mod p) mod p" unfolding h by simp
  also have "\<dots> = - ((r - 2) * r) * (2 * ?h) mod p" by (rule mod_mult_right_eq)
  also have "- ((r - 2) * r) * (2 * ?h) = - 2 * (r * (r - 2)) * ?h" by (simp add: algebra_simps)
  finally have w1: "- ((r - 2) * r) mod p = - 2 * (r * (r - 2)) * ?h mod p" .
  have "bary_extrap m vec ?w p ! b = (\<Sum>i < 3. ?w ! i * drop (b * 3) vec ! i) mod p"
    using \<open>b < m\<close> by (simp add: bary_extrap_nth)
  also have "\<dots> = (\<Sum>i < 3. ?w ! i * f (int i)) mod p"
    by (intro sum_mod_cong mod_mult_cong refl vec) simp
  also have "\<dots> = ((r - 1) * (r - 2) * ?h * f 0 + - 2 * (r * (r - 2)) * ?h * f 1 + r * (r - 1) * ?h * f 2) mod p"
  proof -
    have "(x mod p * f 0 + y mod p * f 1 + z mod p * f 2) mod p = (x * f 0 + y * f 1 + z * f 2) mod p" for x y z
      by (intro mod_add_cong mod_mult_cong refl) simp_all
    then show ?thesis unfolding weights3_list w1 by (simp add: numeral_3_eq_3)
  qed
  also have "\<dots> = (f 0 * ((r - 1) * (r - 2)) - 2 * f 1 * (r * (r - 2)) + f 2 * (r * (r - 1))) * ?h mod p"
    by (simp add: algebra_simps)
  finally show ?thesis using quadratic_interpolation [OF p f] by simp
qed

context gmp_invert
begin

lemma bary_weight_basis:
  assumes p: "prime_modulus p" "int n \<le> p" and i: "i < n"
    and r: "\<And>j. j < n \<Longrightarrow> (r - int j) mod p \<noteq> 0"
  shows "bary_precompute_weights mpz_invert n r p ! i mod p = lag_basis mpz_invert n i p r mod p"
proof -
  let ?D = "\<Prod>j \<in> others n i. int i - int j" and ?N = "\<Prod>j \<in> others n i. r - int j"
  let ?I = "\<Prod>j \<in> others n i. mpz_invert (int i - int j) p"
  have diff: "(int i - int j) mod p \<noteq> 0" if "j \<in> others n i" for j
    using that i p(2) by (intro node_diff_nonzero) auto
  have D: "?D mod p \<noteq> 0" using p(1) diff by (intro prod_mod_nonzero) auto
  have nz: "?D * (r - int i) mod p \<noteq> 0" by (rule prime_modulus_mult_nonzero [OF p(1) D r [OF i]])
  have all: "(\<Prod>j < n. r - int j) = (r - int i) * ?N"
    using i prod.remove [of "{0..<n}" i "\<lambda>j. r - int j"] by (simp add: atLeast0LessThan)
  have "(\<Prod>j \<in> others n i. (int i - int j) * mpz_invert (int i - int j) p) mod p = 1"
    using p(1) mpz_invert_prime [OF p(1) diff] by (intro prod_mod_1) (auto dest: prime_modulus_gt2)
  then have DI: "?D * ?I mod p = 1" by (simp add: prod.distrib)
  let ?w = "mpz_invert (?D * (r - int i)) p * (\<Prod>j < n. r - int j)"
  have "?w * ?D = ?D * (r - int i) * ?N * mpz_invert (?D * (r - int i)) p"
    unfolding all by (simp add: mult_ac)
  then have "?w * ?D mod p = ?N mod p" by (simp only: mpz_invert_cancel [OF p(1) nz])
  also have "\<dots> = ?N * (?D * ?I mod p) mod p" unfolding DI by simp
  also have "\<dots> = ?I * ?N * ?D mod p" unfolding mod_mult_right_eq by (simp add: mult_ac)
  finally have "?w mod p = ?I * ?N mod p" by (rule prime_modulus_cancel [OF p(1) D])
  then show ?thesis using i by (simp add: bary_weight_nth lag_basis_def prod.distrib)
qed

lemma bary_poly:
  assumes p: "prime_modulus p" "int n \<le> p" and f: "polyfn p n f" and b: "b < m"
    and r: "\<And>j. j < n \<Longrightarrow> (r - int j) mod p \<noteq> 0"
    and vec: "\<And>i. i < n \<Longrightarrow> drop (b * n) vec ! i mod p = f (int i) mod p"
  shows "bary_extrap m vec (bary_precompute_weights mpz_invert n r p) p ! b = f r mod p"
proof -
  have "bary_extrap m vec (bary_precompute_weights mpz_invert n r p) p ! b =
        (\<Sum>i < n. lag_basis mpz_invert n i p r * drop (b * n) vec ! i) mod p"
    using b bary_weight_basis [OF p _ r]
    by (simp add: bary_extrap_nth) (intro sum_mod_cong mod_mult_cong refl, simp)
  then show ?thesis using basis_interpolates [OF p f vec] by simp
qed

end

text \<open>At a node, where \<^verbatim>\<open>mpz_invert\<close> is asked for the inverse of 0, the common factor vanishes.\<close>

lemma bary_at_node:
  assumes "r mod p = int j" and "j < n" and "int n \<le> p" and "b < m"
  shows "bary_extrap m vec (bary_precompute_weights mpz_invert n r p) p ! b = 0"
proof -
  have "p dvd r - int j" using assms(1-3) by (metis mod_eq_dvd_iff mod_mod_trivial)
  moreover have "r - int j dvd (\<Prod>i < n. r - int i)" using assms(2) by (intro dvd_prodI) auto
  ultimately have "p dvd (\<Prod>i < n. r - int i)" by (rule dvd_trans)
  then have "bary_precompute_weights mpz_invert n r p ! i = 0" if "i < n" for i
    using that by (simp add: bary_weight_nth dvd_eq_mod_eq_0 [symmetric])
  then show ?thesis using assms(4) by (simp add: bary_extrap_nth)
qed

section \<open>Properties\<close>

text \<open>C23: extrapolation is exact. Given the values at \<open>0, \<dots>, n - 1\<close> of a function that is a
  polynomial of degree less than \<open>n\<close> modulo the prime, \<open>extrap\<close> returns its value at any \<open>r\<close>, the nodes
  included.\<close>

theorem extrap_exact:
  assumes "gmp_invert mpz_invert" and "prime_modulus p" and "0 < n" and "int n \<le> p"
    and "polyfn p n f" and "\<And>i. i < n \<Longrightarrow> vec ! i mod p = f (int i) mod p"
  shows "extrap mpz_invert vec n r p = f r mod p"
  using gmp_invert.extrap_poly [OF assms(1,2,4,3,5,6)] .

lemma prime_modulus_7: "prime_modulus 7"
  by code_simp

lemma polyfn_square: "polyfn p 3 (\<lambda>x. x * x)"
  unfolding polyfn_def by (rule exI [of _ "[0, 0, 1]"]) simp

theorem extrap_exact_witness: "extrap mod_inverse [0, 1, 4] 3 5 7 = 4"
proof -
  have "[0, 1, 4] ! i mod 7 = (int i * int i) mod 7" if "i < 3" for i
    using that by (auto simp: less_Suc_eq numeral_3_eq_3)
  then have "extrap mod_inverse [0, 1, 4] 3 5 7 = 5 * 5 mod 7"
    by (intro extrap_exact [OF euclid.gmp_invert_axioms prime_modulus_7 _ _ polyfn_square]) simp_all
  then show ?thesis by simp
qed

text \<open>C24: the verifier's barycentric extrapolation of a whole batch agrees, instance by instance, with
  \<open>extrap\<close> on the instance's slice, provided the point is not one of the nodes.\<close>

theorem bary_extrap_agrees:
  assumes "gmp_invert mpz_invert" and "prime_modulus p" and "0 < n" and "int n \<le> p" and "b < m"
    and "polyfn p n f" and "\<And>i. i < n \<Longrightarrow> drop (b * n) vec ! i mod p = f (int i) mod p"
    and "\<And>j. j < n \<Longrightarrow> (r - int j) mod p \<noteq> 0"
  shows "bary_extrap m vec (bary_precompute_weights mpz_invert n r p) p ! b = extrap mpz_invert (drop (b * n) vec) n r p"
  using gmp_invert.bary_poly [OF assms(1,2,4,6,5,8,7)] gmp_invert.extrap_poly [OF assms(1,2,4,3,6,7)] by simp

theorem bary_extrap_agrees_witness:
  "bary_extrap 2 [1, 2, 5, 0, 1, 4] (bary_precompute_weights mod_inverse 3 5 7) 7 ! 1 = extrap mod_inverse [0, 1, 4] 3 5 7"
proof -
  have "bary_extrap 2 [1, 2, 5, 0, 1, 4] (bary_precompute_weights mod_inverse 3 5 7) 7 ! 1 =
      extrap mod_inverse (drop (1 * 3) [1, 2, 5, 0, 1, 4]) 3 5 7"
    by (rule bary_extrap_agrees [OF euclid.gmp_invert_axioms prime_modulus_7 _ _ _ polyfn_square])
      (auto simp: less_Suc_eq numeral_3_eq_3)
  then show ?thesis by simp
qed

text \<open>C29: at a node the two differ. When the coin is one of \<open>0, \<dots>, n - 1\<close>, \<open>bary_extrap\<close> returns 0 for every
  instance whatever the polynomial, so an honest prover's next claim is rejected.\<close>

theorem bary_extrap_zero_at_node:
  assumes "r mod p = int j" and "j < n" and "int n \<le> p" and "b < m"
  shows "bary_extrap m vec (bary_precompute_weights mpz_invert n r p) p ! b = 0"
  using bary_at_node [OF assms] .

theorem bary_extrap_zero_at_node_witness:
  "bary_extrap 1 [1, 1, 1] (bary_precompute_weights mod_inverse 3 2 7) 7 ! 0 = 0 \<and> extrap mod_inverse [1, 1, 1] 3 2 7 = 1"
proof
  show "bary_extrap 1 [1, 1, 1] (bary_precompute_weights mod_inverse 3 2 7) 7 ! 0 = 0"
    by (rule bary_extrap_zero_at_node [of _ _ 2]) simp_all
  show "extrap mod_inverse [1, 1, 1] 3 2 7 = 1" by code_simp
qed

end
