(* ===== verification/Circuit.thy ===== *)
theory Circuit
  imports Extrap
begin

text \<open>
  Gates, layers and circuits: \<^verbatim>\<open>cmtgkr/circuit/circuit_layer.cpp\<close>, \<^verbatim>\<open>circuit.cpp\<close>, and the helpers
  \<^verbatim>\<open>convert_to_z\<close> and \<^verbatim>\<open>modIfNeeded\<close> of \<^verbatim>\<open>common/utility.cpp\<close>. Every gate holds a rational (\<^verbatim>\<open>mpq_t\<close>,
  kept canonical by GMP: \<^typ>\<open>rat\<close> with \<open>quotient_of\<close> for numerator and denominator) and its image
  in the field. \<open>None\<close> is a run that aborts: a failed \<^verbatim>\<open>assert\<close> or a division by zero in GMP. The
  layers' data live in lists indexed by layer, as \<^verbatim>\<open>qData\<close> and \<^verbatim>\<open>zData\<close> do; the cache on disk behind
  them (\<^verbatim>\<open>circuit_data.cpp\<close>) has a theory of its own, \<open>Circuit_Data\<close>.
\<close>

section \<open>Numbers\<close>

definition mpz_sizeinbase2 :: "mpz \<Rightarrow> nat" where
  "mpz_sizeinbase2 v = (if v = 0 then 1 else floorlog 2 (nat \<bar>v\<bar>))"

definition modIfNeeded :: "mpz \<Rightarrow> mpz \<Rightarrow> nat \<Rightarrow> mpz \<times> bool" where
  "modIfNeeded val prime slack =
     (if mpz_sizeinbase2 val \<ge> slack * mpz_sizeinbase2 prime - 1 then (val mod prime, True)
      else (val, False))"

definition modIfNeeded_q :: "rat \<Rightarrow> mpz \<Rightarrow> nat \<Rightarrow> (rat \<times> bool) option" where
  "modIfNeeded_q val prime slack =
     (let (num, den) = quotient_of val;
          (num, changed1) = modIfNeeded num prime slack;
          (den, changed2) = modIfNeeded den prime slack;
          changed = (changed1 \<or> changed2)
      in if changed
         then if den = 0 then None else Some (Fract num den, changed)
         else Some (val, changed))"

definition convert_to_z :: "(mpz \<Rightarrow> mpz \<Rightarrow> mpz) \<Rightarrow> rat \<Rightarrow> mpz \<Rightarrow> mpz" where
  "convert_to_z mpz_invert q prime =
     (let (num, den) = quotient_of q; z = mpz_invert den prime; z = z * num in z mod prime)"

definition mpqMod :: "rat \<Rightarrow> mpz \<Rightarrow> rat option" where
  "mpqMod val prime =
     (let (num, den) = quotient_of val
      in if den mod prime = 0 then None else Some (Fract (num mod prime) (den mod prime)))"

definition verify_conversion_to_z :: "mpz_vec \<Rightarrow> rat list \<Rightarrow> mpz \<Rightarrow> bool" where
  "verify_conversion_to_z z q prime =
     list_all (\<lambda>i. let (num, den) = quotient_of (q ! i); temp = z ! i * den; temp = temp - num
                   in temp mod prime = 0) [0..<length q]"

section \<open>Gates\<close>

datatype GateType = ADD | MUL | DIV_INT

record GateWiring =
  gtype :: GateType
  in1 :: nat
  in2 :: nat

definition GateWiring_default :: GateWiring where
  "GateWiring_default = \<lparr>gtype = ADD, in1 = 0, in2 = 0\<rparr>"

definition setWiring :: "GateWiring \<Rightarrow> GateType \<Rightarrow> nat \<Rightarrow> nat \<Rightarrow> GateWiring" where
  "setWiring g t i1 i2 = g\<lparr>gtype := t, in1 := i1, in2 := i2\<rparr>"

definition shouldBeTreatedAs :: "GateWiring \<Rightarrow> GateType \<Rightarrow> bool" where
  "shouldBeTreatedAs g gateType \<longleftrightarrow> gateType = gtype g \<or>
     (gateType = MUL \<and> gtype g = DIV_INT) \<or> (gateType = DIV_INT \<and> gtype g = MUL)"

definition applyGateOperation :: "GateWiring \<Rightarrow> mpz \<Rightarrow> mpz \<Rightarrow> mpz \<Rightarrow> mpz" where
  "applyGateOperation g op1 op2 prime =
     (let rop = (if gtype g = ADD
                 then if op1 = 0 then op2 else if op2 = 0 then op1 else op1 + op2
                 else if op1 = 0 \<or> op2 = 0 then 0 else op1 * op2)
      in fst (modIfNeeded rop prime 2))"

text \<open>\<^verbatim>\<open>Gate::canonicalize\<close> and the three \<^verbatim>\<open>Gate::setValue\<close>s act on the pair of a gate's values.\<close>

definition canonicalize :: "mpz \<Rightarrow> rat \<times> mpz \<Rightarrow> (rat \<times> mpz) option" where
  "canonicalize prime v =
     (case modIfNeeded_q (fst v) prime 2 of None \<Rightarrow> None
      | Some (q, _) \<Rightarrow> Some (q, fst (modIfNeeded (snd v) prime 2)))"

definition setValue_q :: "(mpz \<Rightarrow> mpz \<Rightarrow> mpz) \<Rightarrow> mpz \<Rightarrow> rat \<Rightarrow> (rat \<times> mpz) option" where
  "setValue_q mpz_invert prime v = canonicalize prime (v, convert_to_z mpz_invert v prime)"

definition setValue_z :: "mpz \<Rightarrow> mpz \<Rightarrow> (rat \<times> mpz) option" where
  "setValue_z prime v = canonicalize prime (of_int v, v)"

definition setValue_si :: "mpz \<Rightarrow> int \<Rightarrow> (rat \<times> mpz) option" where
  "setValue_si prime v = canonicalize prime (of_int v, v)"

definition computeGateValue ::
  "(mpz \<Rightarrow> mpz \<Rightarrow> mpz) \<Rightarrow> mpz \<Rightarrow> GateWiring \<Rightarrow> rat \<times> mpz \<Rightarrow> rat \<times> mpz \<Rightarrow> (rat \<times> mpz) option" where
  "computeGateValue mpz_invert prime wiring op1 op2 =
     (let q0 = fst op1; q1 = fst op2; z0 = snd op1; z1 = snd op2;
          finish = (\<lambda>out. map_option (\<lambda>(q, _). (q, applyGateOperation wiring z0 z1 prime))
                            (setValue_q mpz_invert prime out))
      in case gtype wiring of
           ADD \<Rightarrow> finish (if q0 = 0 then q1 else if q1 = 0 then q0 else q0 + q1)
         | MUL \<Rightarrow> if q0 = 0 \<or> q1 = 0 then Some (0, 0) else finish (q0 * q1)
         | DIV_INT \<Rightarrow>
             let tmp0 = prime div 2;
                 tmp1 = mpz_invert z1 prime;
                 tmp1 = toTrueNumber tmp1 tmp0 prime
             in if tmp1 = 0 then None else finish (q0 / of_int tmp1))"

section \<open>Layers and circuits\<close>

type_synonym mle_fn = "mpz_vec \<Rightarrow> nat \<Rightarrow> nat \<Rightarrow> nat \<Rightarrow> nat \<Rightarrow> mpz \<Rightarrow> mpz"

record CircuitLayer =
  gates :: "GateWiring list"
  add_fn :: "mle_fn option"
  mul_fn :: "mle_fn option"

record Circuit =
  layers :: "CircuitLayer list"
  qData :: "rat list list"
  zData :: "mpz list list"
  valid :: bool
  cprime :: mpz

definition layer_size :: "CircuitLayer \<Rightarrow> nat" where
  "layer_size l = length (gates l)"

definition logSize :: "CircuitLayer \<Rightarrow> nat" where
  "logSize l = log2i (layer_size l)"

definition new_layer :: CircuitLayer where
  "new_layer = \<lparr>gates = [], add_fn = None, mul_fn = None\<rparr>"

text \<open>\<^verbatim>\<open>std::vector::resize\<close> keeps a prefix and fills with default gates.\<close>

definition resize_layer :: "CircuitLayer \<Rightarrow> nat \<Rightarrow> CircuitLayer" where
  "resize_layer l newSize =
     l\<lparr>gates := take newSize (gates l) @ replicate (newSize - length (gates l)) GateWiring_default\<rparr>"

definition computeWirePredicates ::
  "CircuitLayer \<Rightarrow> mpz_vec \<Rightarrow> nat \<Rightarrow> mpz \<Rightarrow> mpz \<times> mpz" where
  "computeWirePredicates l rand inputLayerSize prime =
     (let mi = logSize l; ni = layer_size l;
          mip1 = log2i inputLayerSize; nip1 = inputLayerSize;
          add_predr = (case add_fn l of None \<Rightarrow> 0 | Some f \<Rightarrow> f rand mi mip1 ni nip1 prime);
          mul_predr = (case mul_fn l of None \<Rightarrow> 0 | Some f \<Rightarrow> f rand mi mip1 ni nip1 prime);
          addDone = (add_fn l \<noteq> None); mulDone = (mul_fn l \<noteq> None)
      in if addDone \<and> mulDone then (add_predr, mul_predr)
         else
           let pChi = computeChiAll (replicate ni 0) (take mi rand) prime;
               w1Chi = computeChiAll (replicate nip1 0) (take mip1 (drop mi rand)) prime;
               w2Chi = computeChiAll (replicate nip1 0) (take mip1 (drop (mi + mip1) rand)) prime;
               (add_predr, mul_predr) =
                 fold (\<lambda>i (add_predr, mul_predr).
                   let wiring = gates l ! i;
                       tmp = modmult (pChi ! i * w1Chi ! in1 wiring) (w2Chi ! in2 wiring) prime;
                       add_predr = (if \<not> addDone \<and> shouldBeTreatedAs wiring ADD
                                    then add_predr + tmp else add_predr);
                       mul_predr = (if \<not> mulDone \<and> shouldBeTreatedAs wiring MUL
                                    then mul_predr + tmp else mul_predr)
                   in (add_predr, mul_predr)) [0..<ni] (add_predr, mul_predr)
           in (if addDone then add_predr else add_predr mod prime,
               if mulDone then mul_predr else mul_predr mod prime))"

definition depth :: "Circuit \<Rightarrow> nat" where
  "depth c = length (layers c)"

definition layer_at :: "Circuit \<Rightarrow> nat \<Rightarrow> CircuitLayer option" where
  "layer_at c lvl = (if lvl < depth c then Some (layers c ! lvl) else None)"

definition getInputLayer :: "Circuit \<Rightarrow> CircuitLayer option" where
  "getInputLayer c = (if layers c = [] then None else Some (last (layers c)))"

definition finalizeConstruct :: "Circuit \<Rightarrow> Circuit" where
  "finalizeConstruct c =
     (if \<not> valid c
      then let sizes = map layer_size (layers c)
           in c\<lparr>zData := map (\<lambda>n. replicate n 0) sizes, qData := map (\<lambda>n. replicate n 0) sizes, valid := True\<rparr>
      else c)"

definition construct :: "(Circuit \<Rightarrow> Circuit) \<Rightarrow> Circuit \<Rightarrow> Circuit" where
  "construct constructCircuit c = finalizeConstruct (constructCircuit (c\<lparr>valid := False\<rparr>))"

definition get_prime_nbits :: "Circuit \<Rightarrow> nat" where
  "get_prime_nbits c = mpz_sizeinbase2 (cprime c)"

text \<open>The value of gate \<open>idx\<close> of layer \<open>lvl\<close>, with the range \<^verbatim>\<open>assert\<close> of \<^verbatim>\<open>CircuitLayer::gate\<close>.\<close>

definition gate_value :: "Circuit \<Rightarrow> nat \<Rightarrow> nat \<Rightarrow> (rat \<times> mpz) option" where
  "gate_value c lvl idx =
     (if lvl < depth c \<and> idx < layer_size (layers c ! lvl)
      then Some (qData c ! lvl ! idx, zData c ! lvl ! idx) else None)"

definition set_gate :: "Circuit \<Rightarrow> nat \<Rightarrow> nat \<Rightarrow> rat \<times> mpz \<Rightarrow> Circuit" where
  "set_gate c lvl idx v =
     c\<lparr>qData := (qData c)[lvl := (qData c ! lvl)[idx := fst v]],
       zData := (zData c)[lvl := (zData c ! lvl)[idx := snd v]]\<rparr>"

definition eval_gate :: "(mpz \<Rightarrow> mpz \<Rightarrow> mpz) \<Rightarrow> nat \<Rightarrow> nat \<Rightarrow> Circuit \<Rightarrow> Circuit option" where
  "eval_gate mpz_invert lvl j c =
     (let wiring = gates (layers c ! lvl) ! j
      in case gate_value c (Suc lvl) (in1 wiring) of None \<Rightarrow> None
         | Some op1 \<Rightarrow> (case gate_value c (Suc lvl) (in2 wiring) of None \<Rightarrow> None
             | Some op2 \<Rightarrow> map_option (set_gate c lvl j)
                             (computeGateValue mpz_invert (cprime c) wiring op1 op2)))"

definition eval_layer :: "(mpz \<Rightarrow> mpz \<Rightarrow> mpz) \<Rightarrow> nat \<Rightarrow> Circuit \<Rightarrow> Circuit option" where
  "eval_layer mpz_invert lvl c =
     fold (\<lambda>j r. Option.bind r (eval_gate mpz_invert lvl j)) [0..<layer_size (layers c ! lvl)] (Some c)"

definition evaluate :: "(mpz \<Rightarrow> mpz \<Rightarrow> mpz) \<Rightarrow> Circuit \<Rightarrow> Circuit option" where
  "evaluate mpz_invert c =
     (if depth c < 2 then Some c
      else fold (\<lambda>lvl r. Option.bind r (eval_layer mpz_invert lvl)) (rev [0..<depth c - 1]) (Some c))"

end
