(* ===== verification/Mpn_Vector.thy ===== *)
theory Mpn_Vector
  imports Cmt_Prelude
begin

text \<open>
  Vectors of GMP numbers, \<^verbatim>\<open>common/mpnvector.cpp\<close>: lists with the copies of the source written out.
  Lengths are \<^verbatim>\<open>size_t\<close>, and a subtraction that goes below zero wraps around modulo \<open>2 ^ 64\<close>;
  \<open>None\<close> is an access outside the allocated arrays. Lengths stay below \<open>2 ^ 32\<close>, the range of the
  loop counter.
\<close>

definition size_sub :: "nat \<Rightarrow> nat \<Rightarrow> nat" where
  "size_sub a b = (if b \<le> a then a - b else a + 2 ^ 64 - b)"

definition new_vec :: "nat \<Rightarrow> mpz_vec" where
  "new_vec s = replicate s 0"

definition new_qvec :: "nat \<Rightarrow> rat list" where
  "new_qvec s = replicate s 0"

definition vec_copy :: "'a list \<Rightarrow> 'a list \<Rightarrow> nat \<Rightarrow> nat \<Rightarrow> nat \<Rightarrow> 'a list option" where
  "vec_copy this other startOther len startThis =
     (let len = min len (min (size_sub (length this) startThis) (size_sub (length other) startOther))
      in if startThis + len \<le> length this \<and> startOther + len \<le> length other
         then Some (fold (\<lambda>i v. v[startThis + i := other ! (startOther + i)]) [0..<len] this)
         else None)"

definition vec_copy_all :: "'a list \<Rightarrow> 'a list \<Rightarrow> 'a list option" where
  "vec_copy_all this other = vec_copy this other 0 (length other) 0"

definition vec_scale :: "mpz_vec \<Rightarrow> mpz \<Rightarrow> mpz_vec" where
  "vec_scale v factor = fold (\<lambda>i v. v[i := v ! i * factor]) [0..<length v] v"

definition vec_assign :: "mpz_vec \<Rightarrow> mpz_vec \<Rightarrow> mpz_vec" where
  "vec_assign this other = fold (\<lambda>i v. v[i := other ! i]) [0..<length other] (new_vec (length other))"

definition vec_reserve :: "mpz_vec \<Rightarrow> nat \<Rightarrow> mpz_vec" where
  "vec_reserve v s = (if s \<le> length v then v else new_vec (max (nat \<lceil>of_nat (length v) * (3 / 2 :: rat)\<rceil>) s))"

section \<open>Lemmas\<close>

lemma size_sub_le [simp]: "b \<le> a \<Longrightarrow> size_sub a b = a - b"
  by (simp add: size_sub_def)

lemma fold_write_nth:
  "k < length v \<Longrightarrow> fold (\<lambda>i v. v[s + i := f i]) [0..<n] v ! k = (if s \<le> k \<and> k < s + n then f (k - s) else v ! k)"
proof (induction n)
  case (Suc n)
  then show ?case by (cases "k = s + n") auto
qed auto

lemma vec_copy_in_range:
  assumes "startThis + n \<le> length this" and "startOther + n \<le> length other"
  shows "vec_copy this other startOther n startThis =
    Some (take startThis this @ take n (drop startOther other) @ drop (startThis + n) this)"
proof -
  have n: "min n (min (length this - startThis) (length other - startOther)) = n" using assms by auto
  have "fold (\<lambda>i v. v[startThis + i := other ! (startOther + i)]) [0..<n] this =
      take startThis this @ take n (drop startOther other) @ drop (startThis + n) this"
    using assms by (intro nth_equalityI) (auto simp: fold_write_nth nth_append)
  then show ?thesis using assms n by (simp add: vec_copy_def Let_def)
qed

lemma length_vec_copy: "vec_copy this other so n st = Some v \<Longrightarrow> length v = length this"
  by (auto simp: vec_copy_def Let_def split: if_splits)

lemma vec_copy_slice:
  assumes "(b + 1) * n \<le> length other" and "length this = n"
  shows "vec_copy this other (b * n) n 0 = Some (take n (drop (b * n) other))"
  using assms vec_copy_in_range [of 0 n this "b * n" other] by (simp add: algebra_simps)

lemma vec_assign_eq: "vec_assign this other = other"
proof -
  have "fold (\<lambda>i v. v[0 + i := other ! i]) [0..<length other] (new_vec (length other)) = other"
    by (rule nth_equalityI) (simp_all only: fold_write_nth length_fold_upd new_vec_def length_replicate, auto)
  then show ?thesis by (simp add: vec_assign_def)
qed

end
