(* ===== verification/Cmt_Circuit.thy ===== *)
theory Cmt_Circuit
  imports Circuit Mpn_Vector
begin

text \<open>
  Circuits with named inputs, outputs and magic gates (\<^verbatim>\<open>circuit/cmt_circuit.cpp\<close>) and the wiring patterns
  they are built from (\<^verbatim>\<open>circuit/basic_cmt_circuit.cpp\<close>). A \<^verbatim>\<open>Gate*\<close> is the level and the index it names;
  a null pointer is \<open>None\<close>.
\<close>

type_synonym gate_ref = "nat \<times> nat"

record CMTCircuit =
  circ :: Circuit
  currentLevel :: nat
  inGates :: "gate_ref option list"
  outGates :: "gate_ref option list"
  magicGates :: "gate_ref option list"

definition getInputSize :: "CMTCircuit \<Rightarrow> nat" where
  "getInputSize c = length (inGates c)"

definition getOutputSize :: "CMTCircuit \<Rightarrow> nat" where
  "getOutputSize c = length (outGates c)"

definition getMagicSize :: "CMTCircuit \<Rightarrow> nat" where
  "getMagicSize c = length (magicGates c)"

definition setGate_q :: "(mpz \<Rightarrow> mpz \<Rightarrow> mpz) \<Rightarrow> gate_ref \<Rightarrow> rat \<Rightarrow> Circuit \<Rightarrow> Circuit option" where
  "setGate_q mpz_invert g v c = map_option (set_gate c (fst g) (snd g)) (setValue_q mpz_invert (cprime c) v)"

definition setGates ::
  "(mpz \<Rightarrow> mpz \<Rightarrow> mpz) \<Rightarrow> gate_ref option list \<Rightarrow> rat list \<Rightarrow> Circuit \<Rightarrow> Circuit option" where
  "setGates mpz_invert gs vec c =
     fold (\<lambda>i r. Option.bind r (\<lambda>c.
        case gs ! i of
          Some g \<Rightarrow> if i < length vec then setGate_q mpz_invert g (vec ! i) c else Some c
        | None \<Rightarrow> Some c)) [0..<length gs] (Some c)"

definition initializeInputs ::
  "(mpz \<Rightarrow> mpz \<Rightarrow> mpz) \<Rightarrow> CMTCircuit \<Rightarrow> rat list \<Rightarrow> rat list \<Rightarrow> CMTCircuit option" where
  "initializeInputs mpz_invert c inputs magic =
     Option.bind (setGates mpz_invert (inGates c) inputs (circ c)) (\<lambda>c1.
       map_option (\<lambda>c2. c\<lparr>circ := c2\<rparr>) (setGates mpz_invert (magicGates c) magic c1))"

definition initializeOutputs ::
  "(mpz \<Rightarrow> mpz \<Rightarrow> mpz) \<Rightarrow> CMTCircuit \<Rightarrow> rat list \<Rightarrow> CMTCircuit option" where
  "initializeOutputs mpz_invert c outputs =
     map_option (\<lambda>c1. c\<lparr>circ := c1\<rparr>) (setGates mpz_invert (outGates c) outputs (circ c))"

definition getGates :: "rat list \<Rightarrow> gate_ref option list \<Rightarrow> Circuit \<Rightarrow> rat list option" where
  "getGates vec gs c =
     fold (\<lambda>i r. Option.bind r (\<lambda>vec.
        case gs ! i of
          Some g \<Rightarrow> if i < length vec
                   then map_option (\<lambda>q. vec[i := fst q]) (modIfNeeded_q (qData c ! fst g ! snd g) (cprime c) 1)
                   else Some vec
        | None \<Rightarrow> Some vec)) [0..<length gs] (Some vec)"

definition getInputs :: "CMTCircuit \<Rightarrow> rat list \<Rightarrow> rat list option" where
  "getInputs c inputs = getGates inputs (inGates c) (circ c)"

definition getOutputs :: "CMTCircuit \<Rightarrow> rat list \<Rightarrow> rat list option" where
  "getOutputs c outputs = getGates outputs (outGates c) (circ c)"

definition getMagics :: "CMTCircuit \<Rightarrow> rat list \<Rightarrow> rat list option" where
  "getMagics c magics = getGates magics (magicGates c) (circ c)"

section \<open>Building levels\<close>

definition makeShell :: "CMTCircuit \<Rightarrow> nat \<Rightarrow> CMTCircuit" where
  "makeShell c nlevels = c\<lparr>circ := (circ c)\<lparr>layers := replicate nlevels new_layer\<rparr>, currentLevel := nlevels\<rparr>"

definition makeLevel_at ::
  "CMTCircuit \<Rightarrow> nat \<Rightarrow> nat \<Rightarrow> mle_fn option \<Rightarrow> mle_fn option \<Rightarrow> CMTCircuit" where
  "makeLevel_at c lvl sz add_ifn mul_ifn =
     (let newLayer = (resize_layer (layers (circ c) ! lvl) sz)\<lparr>add_fn := add_ifn, mul_fn := mul_ifn\<rparr>
      in c\<lparr>circ := (circ c)\<lparr>layers := (layers (circ c))[lvl := newLayer]\<rparr>, currentLevel := lvl\<rparr>)"

definition makeLevel :: "CMTCircuit \<Rightarrow> nat \<Rightarrow> mle_fn option \<Rightarrow> mle_fn option \<Rightarrow> CMTCircuit" where
  "makeLevel c sz add_ifn mul_ifn = makeLevel_at c (currentLevel c - 1) sz add_ifn mul_ifn"

definition clayer :: "CMTCircuit \<Rightarrow> nat \<Rightarrow> CircuitLayer option" where
  "clayer c shift = layer_at (circ c) (currentLevel c + shift)"

text \<open>\<^verbatim>\<open>clayer()[i].setWiring(...)\<close>, with the range \<^verbatim>\<open>assert\<close> of the layer.\<close>

definition wire :: "nat \<Rightarrow> GateType \<Rightarrow> nat \<Rightarrow> nat \<Rightarrow> CMTCircuit \<Rightarrow> CMTCircuit option" where
  "wire i t i1 i2 c =
     (case clayer c 0 of None \<Rightarrow> None
      | Some l \<Rightarrow>
          if i < layer_size l
          then Some (c\<lparr>circ := (circ c)\<lparr>layers := (layers (circ c))[currentLevel c :=
                 l\<lparr>gates := (gates l)[i := setWiring (gates l ! i) t i1 i2]\<rparr>]\<rparr>\<rparr>)
          else None)"

definition wire_loop :: "nat list \<Rightarrow> (nat \<Rightarrow> CMTCircuit \<Rightarrow> CMTCircuit option) \<Rightarrow> CMTCircuit \<Rightarrow> CMTCircuit option" where
  "wire_loop is f c = fold (\<lambda>i r. Option.bind r (f i)) is (Some c)"

text \<open>\<^verbatim>\<open>clayer(1).size() - 1\<close>\<close>

definition lastGate :: "CMTCircuit \<Rightarrow> nat option" where
  "lastGate c = map_option (\<lambda>l. layer_size l - 1) (clayer c 1)"

text \<open>The argument \<open>shift\<close> of the source may be negative.\<close>

definition addToLastGate :: "nat \<Rightarrow> nat \<Rightarrow> int \<Rightarrow> CMTCircuit \<Rightarrow> CMTCircuit option" where
  "addToLastGate start end' shift =
     wire_loop [start..<end'] (\<lambda>i c. Option.bind (lastGate c) (\<lambda>last. wire i ADD (nat (shift + int i)) last c))"

definition stride_range :: "nat \<Rightarrow> nat \<Rightarrow> nat \<Rightarrow> nat list" where
  "stride_range start end' stride = map (\<lambda>k. start + k * stride) [0..<(end' - start + stride - 1) div stride]"

definition makeGates :: "GateType \<Rightarrow> nat \<Rightarrow> nat \<Rightarrow> nat \<Rightarrow> nat \<Rightarrow> CMTCircuit \<Rightarrow> CMTCircuit option" where
  "makeGates t start end' shift stride = wire_loop (stride_range start end' stride) (\<lambda>i. wire i t i (shift + i))"

definition makeMulGates :: "nat \<Rightarrow> nat \<Rightarrow> nat \<Rightarrow> nat \<Rightarrow> CMTCircuit \<Rightarrow> CMTCircuit option" where
  "makeMulGates = makeGates MUL"

definition makeAddGates :: "nat \<Rightarrow> nat \<Rightarrow> nat \<Rightarrow> nat \<Rightarrow> CMTCircuit \<Rightarrow> CMTCircuit option" where
  "makeAddGates = makeGates ADD"

definition makeReduceLayer :: "GateType \<Rightarrow> nat \<Rightarrow> nat \<Rightarrow> CMTCircuit \<Rightarrow> CMTCircuit option" where
  "makeReduceLayer t start end' = wire_loop [start..<end'] (\<lambda>i. wire i t (2 * i) (2 * i + 1))"

definition makeFLTLvl2 :: "nat \<Rightarrow> nat \<Rightarrow> CMTCircuit \<Rightarrow> CMTCircuit option" where
  "makeFLTLvl2 start end' =
     wire_loop [start..<end'] (\<lambda>i c.
       if odd i then wire i MUL (i div 2) (i div 2) c
       else Option.bind (lastGate c) (\<lambda>last. wire i ADD (i div 2) last c))"

definition makeFLTGeneral :: "mpz \<Rightarrow> nat \<Rightarrow> nat \<Rightarrow> nat \<Rightarrow> CMTCircuit \<Rightarrow> CMTCircuit option" where
  "makeFLTGeneral psub1 start end' bit_num =
     wire_loop [start..<end'] (\<lambda>i c.
       if odd i then wire i MUL i i c
       else if bit_at (nat psub1) bit_num then wire i MUL i (i + 1) c
       else Option.bind (lastGate c) (\<lambda>last. wire i ADD i last c))"

definition makeFLTLast :: "nat \<Rightarrow> nat \<Rightarrow> CMTCircuit \<Rightarrow> CMTCircuit option" where
  "makeFLTLast = makeReduceLayer MUL"

definition getFLTDepth :: "mpz \<Rightarrow> nat" where
  "getFLTDepth psub1 = mpz_sizeinbase2 psub1"

definition addGatesFromLevel ::
  "Circuit \<Rightarrow> gate_ref option list \<Rightarrow> nat \<Rightarrow> nat \<Rightarrow> nat \<Rightarrow> gate_ref option list option" where
  "addGatesFromLevel c gs lvl start end' =
     (case layer_at c lvl of None \<Rightarrow> None
      | Some l \<Rightarrow> if list_all (\<lambda>i. i < layer_size l) [start..<end']
                  then Some (gs @ map (\<lambda>i. Some (lvl, i)) [start..<end']) else None)"

section \<open>Virtual methods\<close>

text \<open>The methods a subclass overrides, as the table the protocol calls through, and the table of
  \<^verbatim>\<open>CMTCircuit\<close> itself.\<close>

record circuit_class =
  cls_initializeInputs :: "CMTCircuit \<Rightarrow> rat list \<Rightarrow> rat list \<Rightarrow> CMTCircuit option"
  cls_initializeOutputs :: "CMTCircuit \<Rightarrow> rat list \<Rightarrow> CMTCircuit option"
  cls_evaluate :: "CMTCircuit \<Rightarrow> CMTCircuit option"

definition cmt_evaluate :: "(mpz \<Rightarrow> mpz \<Rightarrow> mpz) \<Rightarrow> CMTCircuit \<Rightarrow> CMTCircuit option" where
  "cmt_evaluate mpz_invert c = map_option (\<lambda>x. c\<lparr>circ := x\<rparr>) (evaluate mpz_invert (circ c))"

definition base_class :: "(mpz \<Rightarrow> mpz \<Rightarrow> mpz) \<Rightarrow> circuit_class" where
  "base_class mpz_invert =
     \<lparr>cls_initializeInputs = initializeInputs mpz_invert, cls_initializeOutputs = initializeOutputs mpz_invert,
      cls_evaluate = cmt_evaluate mpz_invert\<rparr>"

end
