(* ===== verification/Wiring_Mle.thy ===== *)
theory Wiring_Mle
  imports Circuit
begin

text \<open>
  The closed-form wiring predicates of \<^verbatim>\<open>cmtgkr_env.cpp\<close>: functions of the point \<open>r\<close> (the label, then the
  two inputs) that a layer may carry instead of a sum over its gates. A pointer \<^verbatim>\<open>&r[k]\<close> is \<open>drop k r\<close>.
\<close>

section \<open>Shared checks\<close>

text \<open>The product \<^verbatim>\<open>r1 r2 rp + (1 - r1)(1 - r2)(1 - rp)\<close> that the loops of the source spell out.\<close>

definition match3 :: "mpz \<Rightarrow> mpz \<Rightarrow> mpz \<Rightarrow> mpz" where
  "match3 w1 w2 p =
     (let temp = w1 * w2;
          temp = temp * p;
          tmp = one_sub w1;
          tmp2 = one_sub w2;
          tmp = tmp * tmp2;
          tmp2 = one_sub p
      in temp + tmp * tmp2)"

definition match2 :: "mpz \<Rightarrow> mpz \<Rightarrow> mpz" where
  "match2 a b = (let tmp = one_sub a; tmp2 = one_sub b; tmp = tmp * tmp2 in tmp + a * b)"

definition F2_mult_d :: mle_fn where
  "F2_mult_d r mi mip1 ni nip1 prime =
     fold (\<lambda>i ans. modmult ans (match3 (r ! (mi + i)) (r ! (mi + mip1 + i)) (r ! i)) prime) [0..<mi] 1"

definition zero :: mle_fn where
  "zero r mi mip1 ni nip1 prime = 0"

definition check_wiring :: "mpz \<Rightarrow> mpz_vec \<Rightarrow> nat \<Rightarrow> nat \<Rightarrow> nat \<Rightarrow> nat \<Rightarrow> nat \<Rightarrow> mpz \<Rightarrow> mpz" where
  "check_wiring rop r out i1 i2 mi mip1 prime =
     (let ans = chi out r mi prime;
          ans = mul_chi ans i1 (drop mi r) mip1 prime;
          ans = mul_chi ans i2 (drop (mi + mip1) r) mip1 prime
      in modadd rop ans prime)"

definition check_equal_tmpl :: "mpz \<Rightarrow> mpz_vec list \<Rightarrow> nat \<Rightarrow> nat \<Rightarrow> mpz \<Rightarrow> mpz" where
  "check_equal_tmpl rop rs start end' prime =
     (let ans = fold (\<lambda>i ans.
            let (part1, part2) = fold (\<lambda>it (part1, part2). (part1 * it ! i, part2 * one_sub (it ! i))) rs (1, 1);
                part1 = part1 + part2
            in modmult ans part1 prime) [start..<end'] 1
      in modmult rop ans prime)"

definition check_equal3 :: "mpz \<Rightarrow> mpz_vec \<Rightarrow> mpz_vec \<Rightarrow> mpz_vec \<Rightarrow> nat \<Rightarrow> nat \<Rightarrow> mpz \<Rightarrow> mpz" where
  "check_equal3 rop p i1 i2 start end' prime = check_equal_tmpl rop [p, i1, i2] start end' prime"

definition check_equal2 :: "mpz \<Rightarrow> mpz_vec \<Rightarrow> mpz_vec \<Rightarrow> nat \<Rightarrow> nat \<Rightarrow> mpz \<Rightarrow> mpz" where
  "check_equal2 rop p i1 start end' prime = check_equal_tmpl rop [p, i1] start end' prime"

definition check_zero_tmpl :: "mpz \<Rightarrow> mpz_vec list \<Rightarrow> nat \<Rightarrow> nat \<Rightarrow> mpz \<Rightarrow> mpz" where
  "check_zero_tmpl rop rs start end' prime =
     (let ans = fold (\<lambda>i ans. fold (\<lambda>it ans. ans * one_sub (it ! i)) rs ans mod prime) [start..<end'] 1
      in modmult rop ans prime)"

definition check_zero3 :: "mpz \<Rightarrow> mpz_vec \<Rightarrow> mpz_vec \<Rightarrow> mpz_vec \<Rightarrow> nat \<Rightarrow> nat \<Rightarrow> mpz \<Rightarrow> mpz" where
  "check_zero3 rop p i1 i2 start end' prime = check_zero_tmpl rop [p, i1, i2] start end' prime"

definition check_zero2 :: "mpz \<Rightarrow> mpz_vec \<Rightarrow> mpz_vec \<Rightarrow> nat \<Rightarrow> nat \<Rightarrow> mpz \<Rightarrow> mpz" where
  "check_zero2 rop p i1 start end' prime = check_zero_tmpl rop [p, i1] start end' prime"

section \<open>Reduction trees and the F0 circuit\<close>

definition reduce :: mle_fn where
  "reduce r mi mip1 ni nip1 prime =
     (let ans = (if ni = 1 then one_sub (r ! 0)
                 else check_equal3 1 r (drop (mi + 1) r) (drop (mi + mip1 + 1) r) 0 (mip1 - 1) prime);
          tmp = one_sub (r ! mi);
          ans = ans * tmp
      in modmult ans (r ! (mi + mip1)) prime)"

definition F0add_dp1to58pd :: mle_fn where
  "F0add_dp1to58pd r mi mip1 ni nip1 prime = 0"

definition F0mult_dp1to58pd :: mle_fn where
  "F0mult_dp1to58pd r mi mip1 ni nip1 prime =
     (let ans1 = fold (\<lambda>i ans1. modmult ans1 (match3 (r ! (mi + i)) (r ! (mi + mip1 + i)) (r ! i)) prime) [1..<mi] 1;
          ans2 = ans1;
          ans1 = ans1 * one_sub (r ! 0);
          tmp2 = one_sub (r ! mi) * r ! (mi + mip1);
          ans1 = ans1 * tmp2;
          ans2 = ans2 * r ! 0;
          tmp = r ! mi * r ! (mi + mip1);
          ans2 = ans2 * tmp
      in modadd ans1 ans2 prime)"

definition F0mult_59pd :: mle_fn where
  "F0mult_59pd r mi mip1 ni nip1 prime =
     fold (\<lambda>i ans. modmult ans (match3 (r ! (mi + i)) (r ! (mi + mip1 + i)) (r ! (i + 1))) prime) [0..<mip1] (r ! 0)"

definition F0add_59pd :: mle_fn where
  "F0add_59pd r mi mip1 ni nip1 prime =
     (let ans = fold (\<lambda>i ans.
            let temp = r ! (i + 1) * r ! (mi + mip1 + i);
                temp = temp + one_sub (r ! (i + 1)) * one_sub (r ! (mi + mip1 + i))
            in modmult ans temp prime) [0..<mip1] (one_sub (r ! 0));
          tmp = chi (nip1 - 1) (drop mi r) mip1 prime
      in modmult tmp ans prime)"

definition F0mult_d :: mle_fn where
  "F0mult_d r mi mip1 ni nip1 prime = reduce r mi mip1 ni nip1 prime"

definition F0mult_60pd :: mle_fn where
  "F0mult_60pd r mi mip1 ni nip1 prime = F2_mult_d r mi mip1 ni nip1 prime"

section \<open>Matrix multiplication\<close>

definition mat_add_63_p3d :: mle_fn where
  "mat_add_63_p3d r mi mip1 ni nip1 prime =
     (let d = (mi - 1) div 3;
          ans = r ! (mi - 1);
          ans = fold (\<lambda>j ans. modmult ans (1 - r ! (2 * d + j)) prime) [0..<d] ans;
          tmp = (1 - r ! (mi + 2 * d)) * r ! (mi + 2 * d + 1);
          ans = modmult ans tmp prime;
          ans = fold (\<lambda>j ans. modmult ans (match2 (r ! (mi + j)) (r ! j)) prime) [0..<2 * d] ans;
          ans = mul_chi ans (nip1 - 1) (drop (mi + mip1) r) mip1 prime
      in check_wiring ans r (ni - 1) (nip1 - 1) (nip1 - 1) mi mip1 prime)"

definition mat_mult_63_p3d :: mle_fn where
  "mat_mult_63_p3d r mi mip1 ni nip1 prime =
     (let d = (mi - 1) div 3;
          rop = one_sub (r ! (mi - 1)) mod prime;
          rop = rop * one_sub (r ! (mi + mip1 - 1));
          rop = modmult rop (one_sub (r ! (mi + mip1 - 2))) prime;
          rop = rop * one_sub (r ! (mi + 2 * mip1 - 1));
          rop = modmult rop (r ! (mi + 2 * mip1 - 2)) prime;
          rop = fold (\<lambda>j rop. modmult rop (match2 (r ! (2 * d + j)) (r ! (mi + d + j))) prime) [0..<d] rop;
          rop = fold (\<lambda>j rop. modmult rop (match3 (r ! (mi + j)) (r ! (mi + mip1 + d + j)) (r ! j)) prime) [0..<d] rop
      in fold (\<lambda>j rop. modmult rop (match2 (r ! (d + j)) (r ! (mi + mip1 + j))) prime) [0..<d] rop)"

text \<open>\<^verbatim>\<open>floor(Log2((double) n) / 2 + 0.5)\<close>, exactly: the largest \<open>k\<close> with \<open>2 ^ (2 * k - 1) \<le> n\<close>.\<close>

definition half_log2 :: "nat \<Rightarrow> nat" where
  "half_log2 n = (floorlog 2 n) div 2"

definition mat_add_below_63_p3d :: mle_fn where
  "mat_add_below_63_p3d r mi mip1 ni nip1 prime =
     (let three_d_min_i = int mi - 1;
          n_squared = ni - 2 ^ (mi - 1) - 1;
          d = half_log2 n_squared;
          i = (three_d_min_i - 3 * int d) * (-1);
          tmp = one_sub (r ! (mi + mip1 - 1)) * one_sub (r ! (mi + 2 * mip1 - 1));
          rop = modmult (one_sub (r ! (mi - 1))) tmp prime;
          rop = fold (\<lambda>j rop. modmult rop (match3 (r ! (mi + j + 1)) (r ! (mi + mip1 + j + 1)) (r ! j)) prime) [0..<mi - 1] rop;
          rop = rop * one_sub (r ! mi);
          rop = modmult rop (r ! (mi + mip1)) prime;
          part_two = r ! (mi - 1);
          part_two = fold (\<lambda>j part_two. modmult part_two (one_sub (r ! (2 * d + j))) prime) [0..<nat (int d - i)] part_two;
          part_two = modmult part_two (r ! (mi + mip1 - 1)) prime;
          part_two = fold (\<lambda>j part_two. modmult part_two (one_sub (r ! (mi + 2 * d + j))) prime) [0..<nat (int d - i + 1)] part_two;
          part_two = fold (\<lambda>j part_two. modmult part_two (match2 (r ! j) (r ! (mi + j))) prime) [0..<2 * d] part_two;
          part_two = mul_chi part_two (nip1 - 1) (drop (mi + mip1) r) mip1 prime;
          part_three = check_wiring 0 r (ni - 1) (nip1 - 1) (nip1 - 1) mi mip1 prime
      in modadd rop (part_two + part_three) prime)"

definition mat_add_61_p2dp1 :: mle_fn where
  "mat_add_61_p2dp1 r mi mip1 ni nip1 prime =
     (let n_squared = ni - 2 ^ (mi - 2) - 1;
          d = half_log2 n_squared;
          tmp = one_sub (r ! (mi + 2 * mip1 - 1)) * one_sub (r ! (mi + mip1 - 1));
          rop = modmult (one_sub (r ! (mi - 1))) tmp prime;
          rop = modmult rop (one_sub (r ! (mi - 2))) prime;
          rop = fold (\<lambda>j rop. modmult rop (match3 (r ! (mi + j + 1)) (r ! (mi + mip1 + j + 1)) (r ! j)) prime) [0..<mi - 2] rop;
          rop = rop * one_sub (r ! mi);
          rop = modmult rop (r ! (mi + mip1)) prime;
          part_two = modmult (one_sub (r ! (mi - 1))) (r ! (mi - 2)) prime;
          tmp = one_sub (r ! (mi + mip1 - 2)) * r ! (mi + mip1 - 1);
          part_two = modmult part_two tmp prime;
          part_two = fold (\<lambda>j part_two. modmult part_two (match2 (r ! j) (r ! (mi + j))) prime) [0..<2 * d] part_two;
          part_two = mul_chi part_two (nip1 - 1) (drop (mi + mip1) r) mip1 prime;
          part_three = check_wiring 0 r (ni - 1) (nip1 - 1) (nip1 - 1) mi mip1 prime
      in modadd rop (part_two + part_three) prime)"

definition mat_add_61_p2d :: mle_fn where
  "mat_add_61_p2d r mi mip1 ni nip1 prime =
     (let rop = one_sub (r ! (mi - 1));
          rop = fold (\<lambda>j rop.
            let tmp = one_sub (r ! (mi + j)) * one_sub (r ! (mi + mip1 + j));
                tmp = tmp * one_sub (r ! j);
                tmp2 = r ! (mi + j) * r ! (mi + mip1 + j);
                tmp2 = tmp2 * r ! j
            in modmult rop (tmp + tmp2) prime) [0..<mi - 1] rop;
          tmp = one_sub (r ! (mi + mip1 - 2)) * one_sub (r ! (mi + mip1 - 1));
          rop = modmult rop tmp prime;
          tmp2 = one_sub (r ! (mi + 2 * mip1 - 1)) * r ! (mi + 2 * mip1 - 2);
          rop = modmult rop tmp2 prime
      in check_wiring rop r (ni - 1) (nip1 - 1) (nip1 - 1) mi mip1 prime)"

section \<open>The check of the first level\<close>

definition update_a_fast :: "nat \<Rightarrow> mpz \<Rightarrow> mpz_vec \<Rightarrow> mpz \<Rightarrow> mpz_vec" where
  "update_a_fast num_effective rjm1 vals prime =
     fold (\<lambda>k vals. let index = k div 2
            in if odd k then vals[index := addmodmult (vals ! index) (vals ! k) rjm1 prime]
               else let vals = vals[index := vals ! k]
                    in vals[index := addmodmult (vals ! index) (vals ! k) (- rjm1) prime])
       [0..<num_effective] vals"

text \<open>The loop that computes the prover's messages \<open>y\<close>, and the one that combines them. A mismatch is
  only printed, so it leaves no trace in the result.\<close>

definition first_level_round ::
  "mpz_vec \<Rightarrow> mpz \<Rightarrow> nat \<Rightarrow> (mpz \<times> mpz) list \<times> mpz_vec \<times> nat \<Rightarrow> (mpz \<times> mpz) list \<times> mpz_vec \<times> nat" where
  "first_level_round r prime j s =
     (let (y, a, num_effective) = s;
          (y0, y1) = fold (\<lambda>k (y0, y1). (y0 + a ! (2 * k), y1 + a ! (2 * k + 1))) [0..<num_effective div 2] (0, 0)
      in (y @ [(y0 mod prime, y1 mod prime)], update_a_fast num_effective (r ! j) a prime, num_effective div 2))"

definition check_first_level :: "mpz_vec \<Rightarrow> nat \<Rightarrow> mpz_vec \<Rightarrow> mpz_vec \<Rightarrow> mpz \<Rightarrow> mpz \<times> mpz_vec" where
  "check_first_level zs logn r zi prime =
     (let a = zs @ replicate (2 ^ logn - length zs) 0;
          (y, _, _) = fold (first_level_round r prime) [0..<logn] ([], a, 2 ^ logn);
          check = fold (\<lambda>j check. let check = snd (y ! j) * r ! j; tmp = one_sub (r ! j)
                                  in addmodmult check (fst (y ! j)) tmp prime) [0..<logn] 0
      in (check, fold (\<lambda>i zi. zi[i := r ! i]) [0..<logn] zi))"

end
