(* ===== verification/Wiring_Apps.thy ===== *)
theory Wiring_Apps
  imports Wiring_Mle
begin

text \<open>
  The wiring predicates of the applications: Fermat's little theorem (\<^verbatim>\<open>wiremle_flt.cpp\<close>), Hamming distance
  (\<^verbatim>\<open>wiremle_hamdist.cpp\<close>) and matrix multiplication (\<^verbatim>\<open>apps/matmul_circuit.cpp\<close>). A template argument
  \<^verbatim>\<open>bit\<close> is a boolean.
\<close>

section \<open>Fermat's little theorem\<close>

definition FLT_mul_lvl2 :: mle_fn where
  "FLT_mul_lvl2 r mi mip1 ni nip1 prime =
     check_equal3 (r ! 0) (drop 1 r) (drop mi r) (drop (mi + mip1) r) 0 mip1 prime"

definition FLT_add_lvl2 :: mle_fn where
  "FLT_add_lvl2 r mi mip1 ni nip1 prime =
     (let ans = check_equal2 (one_sub (r ! 0)) (drop 1 r) (drop (mi + mip1) r) 0 mip1 prime;
          tmp = chi (nip1 - 1) (drop mi r) mip1 prime
      in modmult tmp ans prime)"

definition FLT_mul_lvl1 :: mle_fn where
  "FLT_mul_lvl1 r mi mip1 ni nip1 prime = F2_mult_d r mi mip1 ni nip1 prime"

definition FLT_add :: "bool \<Rightarrow> mle_fn" where
  "FLT_add b r mi mip1 ni nip1 prime =
     (if b then check_wiring 0 r (ni - 1) (nip1 - 1) (nip1 - 1) mi mip1 prime
      else let ans1 = check_equal2 (one_sub (r ! 0)) r (drop mi r) 0 mi prime
           in mul_chi ans1 (nip1 - 1) (drop (mi + mip1) r) mip1 prime)"

definition FLT_mul :: "bool \<Rightarrow> mle_fn" where
  "FLT_mul b r mi mip1 ni nip1 prime =
     (let ans1 = check_equal3 1 r (drop mi r) (drop (mi + mip1) r) 0 (mi - 1) prime;
          ans2 = ans1;
          ans1 = (if b
                  then let ans1 = ans1 * one_sub (r ! 0);
                           tmp2 = one_sub (r ! mi) * r ! (mi + mip1);
                           ans1 = ans1 * tmp2;
                           tmp = check_wiring 0 r (ni - 1) (nip1 - 1) (nip1 - 1) mi mip1 prime
                       in ans1 - tmp
                  else 0);
          ans2 = ans2 * r ! 0;
          tmp = r ! mi * r ! (mi + mip1);
          ans2 = ans2 * tmp;
          tmp = ans1 + ans2;
          tmp2 = one_sub (r ! (mi - 1))
      in modmult tmp tmp2 prime)"

section \<open>Hamming distance\<close>

definition hamdist_add_last_two :: mle_fn where
  "hamdist_add_last_two r mi mip1 ni nip1 prime =
     (let tmp = chi (ni - 1) r mi prime;
          tmp = mul_chi tmp (nip1 - 1) (drop mi r) mip1 prime;
          ans = chi (ni - 2) r mi prime;
          ans = mul_chi ans (nip1 - 2) (drop mi r) mip1 prime;
          ans = ans + tmp
      in mul_chi ans (nip1 - 1) (drop (mi + mip1) r) mip1 prime)"

definition hamdist_sum_vec :: mle_fn where
  "hamdist_sum_vec r mi mip1 ni nip1 prime =
     (let ans1 = check_equal3 1 r (drop mi r) (drop (mi + mip1) r) 0 (mi - 1) prime;
          ans1 = ans1 * one_sub (r ! (mi - 1));
          ans1 = ans1 * one_sub (r ! (mi + mip1 - 2));
          ans1 = ans1 * one_sub (r ! (mi + mip1 - 1));
          ans1 = ans1 * r ! (mi + 2 * mip1 - 2)
      in ans1 * one_sub (r ! (mi + 2 * mip1 - 1)))"

definition hamdist_reduce :: mle_fn where
  "hamdist_reduce r mi mip1 ni nip1 prime =
     (let ans = check_equal3 1 r (drop (mi + 1) r) (drop (mi + mip1 + 1) r) 0 (mi - 1) prime;
          ans = check_zero3 ans r (drop (mi + 1) r) (drop (mi + mip1 + 1) r) (mi - 1) mi prime;
          ans = ans * one_sub (r ! mi)
      in ans * r ! (mi + mip1))"

definition hamdist_flt_mul_lvl1 :: mle_fn where
  "hamdist_flt_mul_lvl1 r mi mip1 ni nip1 prime =
     (let ans = check_equal3 1 r (drop mi r) (drop (mi + mip1) r) 0 (mi - 1) prime
      in check_zero3 ans r (drop mi r) (drop (mi + mip1) r) (mi - 1) mi prime)"

definition hamdist_flt_mul_lvl2 :: mle_fn where
  "hamdist_flt_mul_lvl2 r mi mip1 ni nip1 prime =
     (let ans = check_equal3 (r ! 0) (drop 1 r) (drop mi r) (drop (mi + mip1) r) 0 (mip1 - 1) prime
      in check_zero3 ans (drop 1 r) (drop mi r) (drop (mi + mip1) r) (mip1 - 1) mip1 prime)"

definition hamdist_flt_add_lvl2 :: mle_fn where
  "hamdist_flt_add_lvl2 r mi mip1 ni nip1 prime =
     (let ans = one_sub (r ! 0);
          ans = check_equal2 ans (drop 1 r) (drop mi r) 0 (mip1 - 1) prime;
          ans = check_zero2 ans (drop 1 r) (drop mi r) (mip1 - 1) mip1 prime;
          tmp = chi (nip1 - 1) (drop (mi + mip1) r) mip1 prime
      in modmult tmp ans prime)"

definition hamdist_flt_add :: "bool \<Rightarrow> mle_fn" where
  "hamdist_flt_add b r mi mip1 ni nip1 prime =
     (if b then 0
      else let ans1 = check_zero2 1 r (drop mi r) 0 1 prime;
               ans1 = check_equal2 ans1 r (drop mi r) 1 (mi - 1) prime;
               ans1 = check_zero2 ans1 r (drop mi r) (mi - 1) mi prime
           in mul_chi ans1 (nip1 - 1) (drop (mi + mip1) r) mip1 prime)"

definition hamdist_flt_mul :: "bool \<Rightarrow> mle_fn" where
  "hamdist_flt_mul b r mi mip1 ni nip1 prime =
     (let ans1 = check_equal3 1 r (drop mi r) (drop (mi + mip1) r) 1 (mi - 1) prime;
          ans1 = check_zero3 ans1 r (drop mi r) (drop (mi + mip1) r) (mi - 1) mi prime;
          ans2 = ans1;
          ans1 = (if b
                  then let ans1 = ans1 * one_sub (r ! 0);
                           tmp2 = one_sub (r ! mi) * r ! (mi + mip1)
                       in ans1 * tmp2
                  else 0);
          ans2 = ans2 * r ! 0;
          tmp = r ! mi * r ! (mi + mip1);
          ans2 = ans2 * tmp
      in ans1 + ans2)"

definition hamdist_add_wrap :: "mle_fn \<Rightarrow> mle_fn" where
  "hamdist_add_wrap add_ifn r mi mip1 ni nip1 prime =
     (let rop = add_ifn r mi mip1 ni nip1 prime;
          tmp = hamdist_add_last_two r mi mip1 ni nip1 prime
      in modadd rop tmp prime)"

section \<open>Matrix multiplication\<close>

definition mat_sq :: mle_fn where
  "mat_sq r mi mip1 ni nip1 prime =
     (let p = r; w1 = drop mi r; w2 = drop mip1 w1; d = mi div 3;
          tmp = check_equal2 1 p w2 0 d prime;
          tmp = check_equal2 tmp (drop d p) (drop d w1) 0 d prime;
          tmp = check_equal3 tmp (drop (2 * d) p) w1 (drop d w2) 0 d prime;
          tmp = tmp * w2 ! (2 * d);
          tmp2 = one_sub (w1 ! (2 * d))
      in modmult tmp tmp2 prime)"

definition mat_reduce :: mle_fn where
  "mat_reduce r mi mip1 ni nip1 prime =
     (let p = r; w1 = drop mi r; w2 = drop mip1 w1;
          tmp = check_equal3 1 p w1 w2 0 (mip1 - 1) prime;
          tmp = tmp * w2 ! (mip1 - 1);
          tmp2 = one_sub (w1 ! (mip1 - 1))
      in modmult tmp tmp2 prime)"

end
