(* ===== verification/App_Circuits.thy ===== *)
theory App_Circuits
  imports Cmt_Circuit Wiring_Apps "HOL-Library.Monad_Syntax"
begin

text \<open>
  The circuits of the two tailored applications: Hamming distance (\<^verbatim>\<open>apps/hamdist_circuit.cpp\<close>) and matrix
  multiplication (\<^verbatim>\<open>apps/matmul_circuit.cpp\<close>). \<open>psub1\<close> is the member of \<^verbatim>\<open>BasicCMTCircuit\<close>, the prime
  less one; \<open>None\<close> is a failed \<^verbatim>\<open>assert\<close>.
\<close>

text \<open>\<^verbatim>\<open>addGatesFromLevel(inGates, ...)\<close> and the same for the outputs.\<close>

definition addInGates :: "nat \<Rightarrow> nat \<Rightarrow> nat \<Rightarrow> CMTCircuit \<Rightarrow> CMTCircuit option" where
  "addInGates lvl start end' c = map_option (\<lambda>gs. c\<lparr>inGates := gs\<rparr>) (addGatesFromLevel (circ c) (inGates c) lvl start end')"

definition addOutGates :: "nat \<Rightarrow> nat \<Rightarrow> nat \<Rightarrow> CMTCircuit \<Rightarrow> CMTCircuit option" where
  "addOutGates lvl start end' c = map_option (\<lambda>gs. c\<lparr>outGates := gs\<rparr>) (addGatesFromLevel (circ c) (outGates c) lvl start end')"

definition setGate_at :: "nat \<Rightarrow> nat \<Rightarrow> (rat \<times> mpz) option \<Rightarrow> CMTCircuit \<Rightarrow> CMTCircuit option" where
  "setGate_at lvl idx v c =
     (if lvl < depth (circ c) \<and> idx < layer_size (layers (circ c) ! lvl)
      then map_option (\<lambda>v. c\<lparr>circ := set_gate (circ c) lvl idx v\<rparr>) v else None)"

definition finish :: "CMTCircuit \<Rightarrow> CMTCircuit" where
  "finish c = c\<lparr>circ := finalizeConstruct (circ c)\<rparr>"

section \<open>Hamming distance\<close>

definition hamdist_inputs :: "nat \<Rightarrow> CMTCircuit \<Rightarrow> CMTCircuit option" where
  "hamdist_inputs n c = do {
     let c = makeLevel c (2 * n + 2) (Some zero) (Some zero);
     c \<leftarrow> addInGates (depth (circ c) - 1) 0 (2 * n) c;
     addOutGates (depth (circ c) - 1) (2 * n) (2 * n + 1) c
   }"

definition hamdist_sum_level :: "nat \<Rightarrow> CMTCircuit \<Rightarrow> CMTCircuit option" where
  "hamdist_sum_level n c = do {
     let c = makeLevel c (n + 2) (Some (hamdist_add_wrap hamdist_sum_vec)) (Some zero);
     c \<leftarrow> makeAddGates 0 n n 1 c;
     addToLastGate n (n + 2) (int n) c
   }"

definition hamdist_square_level :: "nat \<Rightarrow> CMTCircuit \<Rightarrow> CMTCircuit option" where
  "hamdist_square_level n c = do {
     let c = makeLevel c (n + 2) (Some hamdist_add_last_two) (Some hamdist_flt_mul_lvl1);
     c \<leftarrow> makeMulGates 0 n 0 1 c;
     addToLastGate n (n + 2) 0 c
   }"

definition hamdist_second_level :: "nat \<Rightarrow> CMTCircuit \<Rightarrow> CMTCircuit option" where
  "hamdist_second_level n c = do {
     let c = makeLevel c (2 * n + 2) (Some (hamdist_add_wrap hamdist_flt_add_lvl2)) (Some hamdist_flt_mul_lvl2);
     c \<leftarrow> makeFLTLvl2 0 (2 * n) c;
     addToLastGate (2 * n) (2 * n + 2) (- int n) c
   }"

definition hamdist_flt_level :: "mpz \<Rightarrow> nat \<Rightarrow> nat \<Rightarrow> CMTCircuit \<Rightarrow> CMTCircuit option" where
  "hamdist_flt_level psub1 n i c = do {
     let b = bit_at (nat psub1) i;
     let c = makeLevel c (2 * n + 2) (Some (hamdist_add_wrap (hamdist_flt_add b))) (Some (hamdist_flt_mul b));
     c \<leftarrow> makeFLTGeneral psub1 0 (2 * n) i c;
     addToLastGate (2 * n) (2 * n + 2) 0 c
   }"

definition hamdist_last_level :: "nat \<Rightarrow> CMTCircuit \<Rightarrow> CMTCircuit option" where
  "hamdist_last_level n c = do {
     let c = makeLevel c (n + 2) (Some hamdist_add_last_two) (Some hamdist_reduce);
     c \<leftarrow> makeFLTLast 0 n c;
     addToLastGate n (n + 2) (int n) c
   }"

definition hamdist_reduce_level :: "nat \<Rightarrow> CMTCircuit \<Rightarrow> CMTCircuit option" where
  "hamdist_reduce_level i c = do {
     let c = makeLevel c (2 ^ i + 2) (Some (hamdist_add_wrap hamdist_reduce)) (Some zero);
     c \<leftarrow> makeReduceLayer ADD 0 (2 ^ i) c;
     addToLastGate (2 ^ i) (2 ^ i + 2) (2 ^ i) c
   }"

definition hamdist_top_level :: "nat \<Rightarrow> CMTCircuit \<Rightarrow> CMTCircuit option" where
  "hamdist_top_level n c = makeReduceLayer ADD 0 n (makeLevel c n (Some reduce) (Some zero))"

definition hamdist_constructCircuit :: "nat \<Rightarrow> mpz \<Rightarrow> CMTCircuit \<Rightarrow> CMTCircuit option" where
  "hamdist_constructCircuit d psub1 c = do {
     let n = 2 ^ d;
     let flt_depth = getFLTDepth psub1;
     let c = makeShell c (flt_depth + d + 3);
     c \<leftarrow> hamdist_inputs n c;
     c \<leftarrow> hamdist_sum_level n c;
     c \<leftarrow> hamdist_square_level n c;
     c \<leftarrow> hamdist_second_level n c;
     c \<leftarrow> fold (\<lambda>i r. Option.bind r (hamdist_flt_level psub1 n i)) [2..<flt_depth - 1] (Some c);
     c \<leftarrow> hamdist_last_level n c;
     c \<leftarrow> fold (\<lambda>i r. Option.bind r (hamdist_reduce_level i)) (rev [1..<d]) (Some c);
     c \<leftarrow> hamdist_top_level 2 c;
     hamdist_top_level 1 c
   }"

definition hamdist_evaluate :: "(mpz \<Rightarrow> mpz \<Rightarrow> mpz) \<Rightarrow> CMTCircuit \<Rightarrow> CMTCircuit option" where
  "hamdist_evaluate mpz_invert c =
     (let inLayer = depth (circ c) - 1; n = getInputSize c div 2; z = zData (circ c) ! inLayer;
          hamdist = fold (\<lambda>i hamdist. if z ! i \<noteq> z ! (n + i) then hamdist + 1 else hamdist) [0..<n] (0 :: int)
      in do {
        c \<leftarrow> setGate_at inLayer (2 * n) (setValue_si (cprime (circ c)) (- hamdist)) c;
        cmt_evaluate mpz_invert c
      })"

definition hamdist_initializeInputs ::
  "(mpz \<Rightarrow> mpz \<Rightarrow> mpz) \<Rightarrow> CMTCircuit \<Rightarrow> rat list \<Rightarrow> rat list \<Rightarrow> CMTCircuit option" where
  "hamdist_initializeInputs mpz_invert c op magic = do {
     c \<leftarrow> initializeInputs mpz_invert c op magic;
     let inLayer = depth (circ c) - 1;
     setGate_at inLayer (layer_size (layers (circ c) ! inLayer) - 1) (setValue_si (cprime (circ c)) 0) c
   }"

definition hamdist_initializeOutputs :: "(mpz \<Rightarrow> mpz \<Rightarrow> mpz) \<Rightarrow> CMTCircuit \<Rightarrow> rat list \<Rightarrow> CMTCircuit option" where
  "hamdist_initializeOutputs mpz_invert c op = do {
     c \<leftarrow> initializeOutputs mpz_invert c op;
     setGate_at 0 0 (setValue_si (cprime (circ c)) 0) c
   }"

definition hamdist_class :: "(mpz \<Rightarrow> mpz \<Rightarrow> mpz) \<Rightarrow> circuit_class" where
  "hamdist_class mpz_invert =
     \<lparr>cls_initializeInputs = hamdist_initializeInputs mpz_invert,
      cls_initializeOutputs = hamdist_initializeOutputs mpz_invert, cls_evaluate = hamdist_evaluate mpz_invert\<rparr>"

definition new_CMTCircuit :: "mpz \<Rightarrow> CMTCircuit" where
  "new_CMTCircuit prime =
     \<lparr>circ = \<lparr>layers = [], qData = [], zData = [], valid = True, cprime = prime\<rparr>, currentLevel = 0,
      inGates = [], outGates = [], magicGates = []\<rparr>"

definition hamdist_buildCircuit :: "nat \<Rightarrow> mpz \<Rightarrow> CMTCircuit option" where
  "hamdist_buildCircuit d prime =
     (let c = new_CMTCircuit prime; c = c\<lparr>circ := (circ c)\<lparr>valid := False\<rparr>\<rparr>
      in map_option finish (hamdist_constructCircuit d (prime - 1) c))"

section \<open>Matrix multiplication\<close>

definition matmul_square_wiring :: "nat \<Rightarrow> nat \<Rightarrow> nat \<times> nat" where
  "matmul_square_wiring d idx =
     (let n = 2 ^ d; j = idx mod n; i = (idx div 2 ^ d) mod n; k = (idx div 2 ^ (2 * d)) mod n
      in (i * 2 ^ d + k, n * n + k * 2 ^ d + j))"

definition matmul_cmtpp :: "nat \<Rightarrow> CMTCircuit \<Rightarrow> CMTCircuit option" where
  "matmul_cmtpp d c = do {
     let n = 2 ^ d;
     let n_squared = n * n;
     let n_cubed = n * n * n;
     let c = makeShell c (d + 2);
     let c = makeLevel c (2 * n_squared) (Some zero) (Some zero);
     c \<leftarrow> addInGates (depth (circ c) - 1) 0 (2 * n_squared) c;
     let c = makeLevel c n_cubed (Some zero) (Some mat_sq);
     c \<leftarrow> wire_loop [0..<n_cubed]
            (\<lambda>idx. let (i1, i2) = matmul_square_wiring d idx in wire idx MUL i1 i2) c;
     c \<leftarrow> fold (\<lambda>i r. Option.bind r (\<lambda>c.
            let size = n_cubed div 2 ^ (i + 1); c = makeLevel c size (Some mat_reduce) (Some zero)
            in wire_loop [0..<size] (\<lambda>idx. let lower = idx mod size in wire idx ADD lower (size + lower)) c))
            [0..<d] (Some c);
     addOutGates 0 0 (layer_size (layers (circ c) ! 0)) c
   }"

definition matmul_product_wiring :: "nat \<Rightarrow> nat \<Rightarrow> nat \<times> nat" where
  "matmul_product_wiring d index =
     (let n = 2 ^ d; k = index mod n; i = (index div 2 ^ (2 * d)) mod n; j = (index div 2 ^ d) mod n
      in (i * 2 ^ d + k, 2 ^ (2 * d) + k * 2 ^ d + j))"

text \<open>The last gates of a layer copy the last gates of the layer below.\<close>

definition matmul_copy_last :: "nat \<Rightarrow> nat \<Rightarrow> CMTCircuit \<Rightarrow> CMTCircuit option" where
  "matmul_copy_last start end' =
     wire_loop [start..<end'] (\<lambda>k c. do {
       last \<leftarrow> lastGate c;
       wire k ADD (last + 1 - (end' - k)) last c
     })"

definition matmul_reduce_level :: "nat \<Rightarrow> nat \<Rightarrow> CMTCircuit \<Rightarrow> CMTCircuit option" where
  "matmul_reduce_level d step c = do {
     let n = 2 ^ d;
     let n_squared = n * n;
     let products = n * n * n div 2 ^ step;
     let add_ifn = (if step = d then mat_add_61_p2dp1 else mat_add_below_63_p3d);
     let c = makeLevel c (products + n_squared + 1) (Some add_ifn) (Some zero);
     c \<leftarrow> makeReduceLayer ADD 0 products c;
     matmul_copy_last products (products + n_squared + 1) c
   }"

definition matmul_flt_level :: "mpz \<Rightarrow> nat \<Rightarrow> nat \<Rightarrow> nat \<Rightarrow> CMTCircuit \<Rightarrow> CMTCircuit option" where
  "matmul_flt_level psub1 flt_top n_squared i c = do {
     let b = bit_at (nat psub1) (flt_top - i - 1);
     let c = makeLevel c (2 * n_squared + 1) (Some (FLT_add b)) (Some (FLT_mul b));
     c \<leftarrow> makeFLTGeneral psub1 0 (2 * n_squared) i c;
     addToLastGate (2 * n_squared) (2 * n_squared + 1) 0 c
   }"

definition matmul_plain :: "nat \<Rightarrow> mpz \<Rightarrow> CMTCircuit \<Rightarrow> CMTCircuit option" where
  "matmul_plain d psub1 c = do {
     let n = 2 ^ d;
     let n_squared = n * n;
     let n_cubed = n * n * n;
     let flt_depth = getFLTDepth psub1;
     let c = makeShell c (flt_depth + 3 + 3 * d);
     let c = makeLevel c (3 * n_squared + 1) (Some zero) (Some zero);
     c \<leftarrow> addInGates (depth (circ c) - 1) 0 (2 * n_squared) c;
     c \<leftarrow> addOutGates (depth (circ c) - 1) (2 * n_squared) (3 * n_squared) c;
     let c = makeLevel c (n_cubed + n_squared + 1) (Some mat_add_63_p3d) (Some mat_mult_63_p3d);
     c \<leftarrow> wire_loop [0..<n_cubed] (\<lambda>index. let (i1, i2) = matmul_product_wiring d index in wire index MUL i1 i2) c;
     c \<leftarrow> matmul_copy_last n_cubed (n_cubed + n_squared + 1) c;
     c \<leftarrow> fold (\<lambda>step r. Option.bind r (matmul_reduce_level d step)) [1..<d + 1] (Some c);
     let c = makeLevel c (n_squared + 1) (Some mat_add_61_p2d) (Some zero);
     c \<leftarrow> makeAddGates 0 n_squared n_squared 1 c;
     c \<leftarrow> addToLastGate n_squared (n_squared + 1) (int n_squared) c;
     let flt_top = flt_depth + 2 * d;
     let c = makeLevel c (n_squared + 1) (Some zero) (Some FLT_mul_lvl1);
     c \<leftarrow> makeMulGates 0 n_squared 0 1 c;
     c \<leftarrow> addToLastGate n_squared (n_squared + 1) 0 c;
     let c = makeLevel c (2 * n_squared + 1) (Some FLT_add_lvl2) (Some FLT_mul_lvl2);
     c \<leftarrow> makeFLTLvl2 0 (2 * n_squared) c;
     last \<leftarrow> lastGate c;
     c \<leftarrow> wire (2 * n_squared) ADD last last c;
     c \<leftarrow> fold (\<lambda>i r. Option.bind r (matmul_flt_level psub1 flt_top n_squared i)) [2..<flt_depth - 1] (Some c);
     let c = makeLevel c n_squared (Some zero) (Some F0mult_d);
     c \<leftarrow> makeFLTLast 0 n_squared c;
     fold (\<lambda>i r. Option.bind r (\<lambda>c.
       let size = n_squared div 2 ^ (i + 1)
       in makeReduceLayer ADD 0 size (makeLevel c size (Some zero) (Some zero)))) [0..<2 * d] (Some c)
   }"

definition matmul_constructCircuit :: "nat \<Rightarrow> bool \<Rightarrow> mpz \<Rightarrow> CMTCircuit \<Rightarrow> CMTCircuit option" where
  "matmul_constructCircuit d useCmtPP psub1 c = (if useCmtPP then matmul_cmtpp d c else matmul_plain d psub1 c)"

text \<open>The claimed product, negated: \<^verbatim>\<open>sum\<close> is the rational value of the gate that receives it.\<close>

definition matmul_claim :: "(mpz \<Rightarrow> mpz \<Rightarrow> mpz) \<Rightarrow> nat \<Rightarrow> nat \<Rightarrow> CMTCircuit \<Rightarrow> CMTCircuit option" where
  "matmul_claim mpz_invert n ij c =
     (let inLayer = depth (circ c) - 1; n_sq = n * n; i = ij div n; j = ij mod n; q = qData (circ c) ! inLayer;
          sum = fold (\<lambda>k sum. sum + q ! (i * n + k) * q ! (n_sq + k * n + j)) [0..<n] 0
      in setGate_at inLayer (2 * n_sq + i * n + j) (setValue_q mpz_invert (cprime (circ c)) (- sum)) c)"

definition matmul_evaluate :: "(mpz \<Rightarrow> mpz \<Rightarrow> mpz) \<Rightarrow> nat \<Rightarrow> bool \<Rightarrow> CMTCircuit \<Rightarrow> CMTCircuit option" where
  "matmul_evaluate mpz_invert d useCmtPP c =
     Option.bind (if useCmtPP then Some c
                  else fold (\<lambda>ij r. Option.bind r (matmul_claim mpz_invert (2 ^ d) ij)) [0..<2 ^ d * 2 ^ d] (Some c))
       (cmt_evaluate mpz_invert)"

definition matmul_initializeInputs ::
  "(mpz \<Rightarrow> mpz \<Rightarrow> mpz) \<Rightarrow> bool \<Rightarrow> CMTCircuit \<Rightarrow> rat list \<Rightarrow> rat list \<Rightarrow> CMTCircuit option" where
  "matmul_initializeInputs mpz_invert useCmtPP c op magic =
     (if useCmtPP then initializeInputs mpz_invert c op magic else hamdist_initializeInputs mpz_invert c op magic)"

definition matmul_initializeOutputs ::
  "(mpz \<Rightarrow> mpz \<Rightarrow> mpz) \<Rightarrow> bool \<Rightarrow> CMTCircuit \<Rightarrow> rat list \<Rightarrow> CMTCircuit option" where
  "matmul_initializeOutputs mpz_invert useCmtPP c op =
     (if useCmtPP then initializeOutputs mpz_invert c op else hamdist_initializeOutputs mpz_invert c op)"

definition matmul_class :: "(mpz \<Rightarrow> mpz \<Rightarrow> mpz) \<Rightarrow> nat \<Rightarrow> bool \<Rightarrow> circuit_class" where
  "matmul_class mpz_invert d useCmtPP =
     \<lparr>cls_initializeInputs = matmul_initializeInputs mpz_invert useCmtPP,
      cls_initializeOutputs = matmul_initializeOutputs mpz_invert useCmtPP,
      cls_evaluate = matmul_evaluate mpz_invert d useCmtPP\<rparr>"

definition matmul_buildCircuit :: "nat \<Rightarrow> bool \<Rightarrow> mpz \<Rightarrow> CMTCircuit option" where
  "matmul_buildCircuit d cmtPP prime =
     (let c = new_CMTCircuit prime; c = c\<lparr>circ := (circ c)\<lparr>valid := False\<rparr>\<rparr>
      in map_option finish (matmul_constructCircuit d cmtPP (prime - 1) c))"

end
