(* ===== verification/Circuit_Builder.thy ===== *)
theory Circuit_Builder
  imports Cmt_Circuit
begin

text \<open>
  What the wiring calls of \<^verbatim>\<open>basic_cmt_circuit.cpp\<close> build. A circuit is built from the input layer up; \<open>built\<close>
  says that the layers from the current one down to the inputs are finished.
\<close>

abbreviation gate :: "GateType \<Rightarrow> nat \<Rightarrow> nat \<Rightarrow> GateWiring" where
  "gate t a b \<equiv> \<lparr>gtype = t, in1 = a, in2 = b\<rparr>"

lemma gate_eta [simp]: "gate (gtype w) (in1 w) (in2 w) = w"
  by (cases w) simp

definition no_layers ::
  "CMTCircuit \<Rightarrow> gate_ref option list \<times> gate_ref option list \<times> gate_ref option list \<times> rat list list \<times> mpz list list \<times> bool \<times> mpz"
  where "no_layers c = (inGates c, outGates c, magicGates c, qData (circ c), zData (circ c), valid (circ c), cprime (circ c))"

definition built :: "CMTCircuit \<Rightarrow> nat \<Rightarrow> CircuitLayer list \<Rightarrow> CMTCircuit \<Rightarrow> bool" where
  "built c0 k ls c \<longleftrightarrow> currentLevel c = k \<and> k \<le> depth (circ c) \<and> drop k (layers (circ c)) = ls \<and>
     (\<forall>i < k. layers (circ c) ! i = new_layer) \<and>
     no_layers c = no_layers c0"

lemma built_shell: "built (makeShell c n) n [] (makeShell c n)"
  by (simp add: built_def makeShell_def depth_def)

lemma built_complete: "built c0 0 ls c \<Longrightarrow> layers (circ c) = ls"
  by (simp add: built_def)

lemma built_clayer:
  assumes "built c0 k (l # ls) c"
  shows "layers (circ c) ! k = l" "k < depth (circ c)" "clayer c 0 = Some l"
    "ls \<noteq> [] \<Longrightarrow> clayer c 1 = Some (hd ls)"
proof -
  have d: "drop k (layers (circ c)) = l # ls" and k: "currentLevel c = k" "k \<le> depth (circ c)"
    using assms by (simp_all add: built_def)
  show lt: "k < depth (circ c)" using arg_cong [OF d, of length] by (simp add: depth_def)
  show nk: "layers (circ c) ! k = l" using d lt by (metis Cons_nth_drop_Suc depth_def list.inject)
  show "clayer c 0 = Some l" using nk lt k by (simp add: clayer_def layer_at_def)
  have d': "drop (Suc k) (layers (circ c)) = ls" using d lt by (metis Cons_nth_drop_Suc depth_def list.inject)
  assume "ls \<noteq> []"
  then have "Suc k < depth (circ c)" using d' by (metis depth_def drop_all not_le)
  moreover from this have "layers (circ c) ! Suc k = hd ls" using d' by (metis depth_def hd_drop_conv_nth)
  ultimately show "clayer c 1 = Some (hd ls)" using k by (simp add: clayer_def layer_at_def)
qed

lemma built_lastGate: "built c0 k (l # l1 # ls) c \<Longrightarrow> lastGate c = Some (layer_size l1 - 1)"
  using built_clayer(4) [of c0 k l "l1 # ls" c] by (simp add: lastGate_def)

lemma built_set:
  assumes "built c0 k (l # ls) c"
  shows "built c0 k (l' # ls) (c\<lparr>circ := (circ c)\<lparr>layers := (layers (circ c))[k := l']\<rparr>\<rparr>)"
proof -
  note B = built_clayer [OF assms]
  have "drop k ((layers (circ c))[k := l']) = l' # ls"
    using assms B(2) by (simp add: built_def drop_update_swap depth_def)
  then show ?thesis using assms by (simp add: built_def depth_def no_layers_def)
qed

lemma built_level:
  assumes "built c0 (Suc k) ls c"
  shows "built c0 k (\<lparr>gates = replicate sz GateWiring_default, add_fn = a, mul_fn = m\<rparr> # ls) (makeLevel c sz a m)"
proof -
  have k: "k < length (layers (circ c))" "currentLevel c = Suc k" "drop (Suc k) (layers (circ c)) = ls"
    "layers (circ c) ! k = new_layer"
    using assms by (simp_all add: built_def depth_def)
  let ?l = "\<lparr>gates = replicate sz GateWiring_default, add_fn = a, mul_fn = m\<rparr>"
  have "makeLevel c sz a m = c\<lparr>circ := (circ c)\<lparr>layers := (layers (circ c))[k := ?l]\<rparr>, currentLevel := k\<rparr>"
    using k by (simp add: makeLevel_def makeLevel_at_def new_layer_def resize_layer_def Let_def)
  moreover have "drop k ((layers (circ c))[k := ?l]) = ?l # ls"
    using k by (metis Cons_nth_drop_Suc drop_update_cancel length_list_update lessI nth_list_update_eq)
  ultimately show ?thesis using assms k by (simp add: built_def depth_def no_layers_def)
qed

lemma built_wire:
  assumes "built c0 k (l # ls) c" and "i < layer_size l"
  shows "\<exists>c'. wire i t a b c = Some c' \<and> built c0 k (l\<lparr>gates := (gates l)[i := gate t a b]\<rparr> # ls) c'"
proof -
  have "setWiring (gates l ! i) t a b = gate t a b" by (simp add: setWiring_def)
  moreover have "currentLevel c = k" using assms(1) by (simp add: built_def)
  ultimately show ?thesis
    using built_set [OF assms(1), of "l\<lparr>gates := (gates l)[i := gate t a b]\<rparr>"] built_clayer(3) [OF assms(1)] assms(2)
    by (simp add: wire_def)
qed

text \<open>A loop of wirings over a range, whatever the state it reads, as long as that is a finished part.\<close>

lemma built_wire_loop:
  assumes "built c0 k (l # ls) c" and "s \<le> e" "e \<le> layer_size l"
    and step: "\<forall>i c l'. s \<le> i \<longrightarrow> i < e \<longrightarrow> built c0 k (l' # ls) c \<longrightarrow> f i c = wire i (t i) (x i) (y i) c"
  shows "\<exists>c'. wire_loop [s..<e] f c = Some c' \<and>
    built c0 k (l\<lparr>gates := take s (gates l) @ map (\<lambda>i. gate (t i) (x i) (y i)) [s..<e] @ drop e (gates l)\<rparr> # ls) c'"
  using assms(2,3) step
proof (induction e)
  case (Suc e)
  show ?case
  proof (cases "s \<le> e")
    case True
    let ?g = "take s (gates l) @ map (\<lambda>i. gate (t i) (x i) (y i)) [s..<e] @ drop e (gates l)"
    obtain c1 where c1: "wire_loop [s..<e] f c = Some c1" "built c0 k (l\<lparr>gates := ?g\<rparr> # ls) c1"
      using Suc.IH [OF True] Suc.prems by (auto simp: less_SucI)
    have len: "e < layer_size (l\<lparr>gates := ?g\<rparr>)" using Suc.prems True by (simp add: layer_size_def)
    obtain c2 where c2: "wire e (t e) (x e) (y e) c1 = Some c2"
      "built c0 k (l\<lparr>gates := ?g[e := gate (t e) (x e) (y e)]\<rparr> # ls) c2"
      using built_wire [OF c1(2) len, of "t e" "x e" "y e"] by auto
    have e: "e < length (gates l)" using Suc.prems by (simp add: layer_size_def)
    then have "?g[e := gate (t e) (x e) (y e)] =
        take s (gates l) @ map (\<lambda>i. gate (t i) (x i) (y i)) [s..<Suc e] @ drop (Suc e) (gates l)"
      using True by (simp add: list_update_append Cons_nth_drop_Suc [symmetric])
    moreover have "f e c1 = wire e (t e) (x e) (y e) c1" using Suc.prems(3) True c1(2) by blast
    ultimately show ?thesis using c1 c2 True by (simp add: wire_loop_def)
  next
    case False
    then have "s = Suc e" using Suc.prems by simp
    then show ?thesis using assms(1) by (auto simp: wire_loop_def)
  qed
qed (use assms(1) in \<open>auto simp: wire_loop_def\<close>)

lemma stride_range_1 [simp]: "stride_range s e (Suc 0) = [s..<e]"
  by (rule nth_equalityI) (simp_all add: stride_range_def)

end
