(* ===== verification/Hamdist_Build.thy ===== *)
theory Hamdist_Build
  imports App_Circuits Circuit_Builder
begin

text \<open>
  The layers that \<^verbatim>\<open>HamdistCircuit::constructCircuit\<close> builds. Every layer between the inputs and the two
  inl ones ends in two gates that carry the claimed result and the constant 0 upwards.
\<close>

definition last_two :: "nat \<Rightarrow> GateWiring list" where
  "last_two nip1 = [gate ADD (nip1 - 2) (nip1 - 1), gate ADD (nip1 - 1) (nip1 - 1)]"

definition ham_layer :: "nat \<Rightarrow> (nat \<Rightarrow> GateWiring) \<Rightarrow> nat \<Rightarrow> mle_fn \<Rightarrow> mle_fn \<Rightarrow> CircuitLayer" where
  "ham_layer n body nip1 add_ifn mul_ifn =
     \<lparr>gates = map body [0..<n] @ last_two nip1, add_fn = Some add_ifn, mul_fn = Some mul_ifn\<rparr>"

definition ham_in :: "nat \<Rightarrow> CircuitLayer" where
  "ham_in n = \<lparr>gates = replicate (2 * n + 2) GateWiring_default, add_fn = Some zero, mul_fn = Some zero\<rparr>"

definition ham_sum :: "nat \<Rightarrow> CircuitLayer" where
  "ham_sum n = ham_layer n (\<lambda>i. gate ADD i (n + i)) (2 * n + 2) (hamdist_add_wrap hamdist_sum_vec) zero"

definition ham_square :: "nat \<Rightarrow> CircuitLayer" where
  "ham_square n = ham_layer n (\<lambda>i. gate MUL i i) (n + 2) hamdist_add_last_two hamdist_flt_mul_lvl1"

definition ham_second :: "nat \<Rightarrow> CircuitLayer" where
  "ham_second n = ham_layer (2 * n)
     (\<lambda>i. if odd i then gate MUL (i div 2) (i div 2) else gate ADD (i div 2) (n + 1)) (n + 2)
     (hamdist_add_wrap hamdist_flt_add_lvl2) hamdist_flt_mul_lvl2"

definition ham_flt :: "nat \<Rightarrow> bool \<Rightarrow> CircuitLayer" where
  "ham_flt n b = ham_layer (2 * n)
     (\<lambda>i. if odd i then gate MUL i i else if b then gate MUL i (i + 1) else gate ADD i (2 * n + 1)) (2 * n + 2)
     (hamdist_add_wrap (hamdist_flt_add b)) (hamdist_flt_mul b)"

definition ham_last :: "nat \<Rightarrow> CircuitLayer" where
  "ham_last n = ham_layer n (\<lambda>i. gate MUL (2 * i) (2 * i + 1)) (2 * n + 2) hamdist_add_last_two hamdist_reduce"

definition ham_reduce :: "nat \<Rightarrow> CircuitLayer" where
  "ham_reduce n = ham_layer n (\<lambda>i. gate ADD (2 * i) (2 * i + 1)) (2 * n + 2) (hamdist_add_wrap hamdist_reduce) zero"

definition ham_top :: "nat \<Rightarrow> CircuitLayer" where
  "ham_top n = \<lparr>gates = map (\<lambda>i. gate ADD (2 * i) (2 * i + 1)) [0..<n], add_fn = Some reduce, mul_fn = Some zero\<rparr>"

definition ham_lower :: "nat \<Rightarrow> mpz \<Rightarrow> CircuitLayer list" where
  "ham_lower n psub1 = ham_last n # map (\<lambda>i. ham_flt n (bit_at (nat psub1) i)) (rev [2..<getFLTDepth psub1 - 1]) @
     [ham_second n, ham_square n, ham_sum n, ham_in n]"

definition ham_layers :: "nat \<Rightarrow> mpz \<Rightarrow> CircuitLayer list" where
  "ham_layers d psub1 = ham_top 1 # ham_top 2 # map (\<lambda>i. ham_reduce (2 ^ i)) [1..<d] @ ham_lower (2 ^ d) psub1"

lemma size_ham_layer [simp]: "layer_size (ham_layer n body nip1 a m) = n + 2"
  by (simp add: ham_layer_def layer_size_def last_two_def)

lemma sizes [simp]:
  "layer_size (ham_in n) = 2 * n + 2" "layer_size (ham_sum n) = n + 2" "layer_size (ham_square n) = n + 2"
  "layer_size (ham_second n) = 2 * n + 2" "layer_size (ham_flt n b) = 2 * n + 2" "layer_size (ham_last n) = n + 2"
  "layer_size (ham_reduce n) = n + 2" "layer_size (ham_top n) = n"
  by (simp_all add: ham_sum_def ham_square_def ham_second_def ham_flt_def ham_last_def ham_reduce_def)
    (simp_all add: ham_in_def ham_top_def layer_size_def)

section \<open>Building a layer\<close>

lemma built_ham_layer:
  assumes B: "built c0 (Suc k) (l1 # ls) c" and sh: "2 \<le> layer_size l1" "shift + int n = int (layer_size l1) - 2"
    and f: "\<forall>i < n. \<forall>c l'. built c0 k (l' # l1 # ls) c \<longrightarrow> f i c = wire i (gtype (body i)) (in1 (body i)) (in2 (body i)) c"
  shows "\<exists>c'. Option.bind (wire_loop [0..<n] f (makeLevel c (n + 2) (Some a) (Some m))) (addToLastGate n (n + 2) shift) = Some c' \<and>
    built c0 k (ham_layer n body (layer_size l1) a m # l1 # ls) c'"
proof -
  let ?l = "\<lparr>gates = replicate (n + 2) GateWiring_default, add_fn = Some a, mul_fn = Some m\<rparr>"
  have "built c0 k (?l # l1 # ls) (makeLevel c (n + 2) (Some a) (Some m))" by (rule built_level [OF B])
  from built_wire_loop [OF this, of 0 n f "\<lambda>i. gtype (body i)" "\<lambda>i. in1 (body i)" "\<lambda>i. in2 (body i)"] f
  obtain c1 where c1: "wire_loop [0..<n] f (makeLevel c (n + 2) (Some a) (Some m)) = Some c1"
    "built c0 k (?l\<lparr>gates := take 0 (gates ?l) @ map (\<lambda>i. gate (gtype (body i)) (in1 (body i)) (in2 (body i))) [0..<n] @
       drop n (gates ?l)\<rparr> # l1 # ls) c1"
    unfolding layer_size_def by auto
  have "drop n (gates ?l) = replicate 2 GateWiring_default" by (simp del: replicate.simps)
  then have b1: "built c0 k (?l\<lparr>gates := map body [0..<n] @ replicate 2 GateWiring_default\<rparr> # l1 # ls) c1"
    using c1(2) by (simp del: replicate.simps)
  let ?last = "layer_size l1 - 1"
  have "Option.bind (lastGate c) (\<lambda>last. wire i ADD (nat (shift + int i)) last c) = wire i ADD (nat (shift + int i)) ?last c"
    if "built c0 k (l' # l1 # ls) c" for i c l' using built_lastGate [OF that] by simp
  then have "\<forall>i c l'. n \<le> i \<longrightarrow> i < n + 2 \<longrightarrow> built c0 k (l' # l1 # ls) c \<longrightarrow>
      Option.bind (lastGate c) (\<lambda>last. wire i ADD (nat (shift + int i)) last c) = wire i ADD (nat (shift + int i)) ?last c" by blast
  from built_wire_loop [OF b1, of n "n + 2" "\<lambda>i c. Option.bind (lastGate c) (\<lambda>last. wire i ADD (nat (shift + int i)) last c)"
      "\<lambda>_. ADD" "\<lambda>i. nat (shift + int i)" "\<lambda>_. ?last", OF _ _ this]
  obtain c2 where c2: "addToLastGate n (n + 2) shift c1 = Some c2"
    "built c0 k (?l\<lparr>gates := map body [0..<n] @ map (\<lambda>i. gate ADD (nat (shift + int i)) ?last) [n..<n + 2]\<rparr> # l1 # ls) c2"
    by (auto simp: layer_size_def addToLastGate_def)
  have "nat (shift + int n) = layer_size l1 - 2" "nat (shift + int (Suc n)) = ?last" using sh by simp_all
  then have "map (\<lambda>i. gate ADD (nat (shift + int i)) ?last) [n..<n + 2] = last_two (layer_size l1)"
    by (simp add: last_two_def upt_rec)
  then show ?thesis using c1 c2 by (simp add: ham_layer_def)
qed

section \<open>The levels of the circuit\<close>

lemma bind_level: "Let (makeLevel c sz a m) (\<lambda>c. Option.bind (wire_loop is f c) g) = Option.bind (wire_loop is f (makeLevel c sz a m)) g"
  by simp

lemma built_ham_inputs:
  fixes n :: nat
  assumes B: "built c0 (Suc k) [] c" and c0: "inGates c0 = []" "outGates c0 = []"
  defines "c1 \<equiv> c0\<lparr>inGates := map (\<lambda>i. Some (k, i)) [0..<2 * n], outGates := [Some (k, 2 * n)]\<rparr>"
  shows "\<exists>c'. hamdist_inputs n c = Some c' \<and> built c1 k [ham_in n] c'"
proof -
  define m where "m = makeLevel c (2 * n + 2) (Some zero) (Some zero)"
  have B': "built c0 k [ham_in n] m" unfolding ham_in_def m_def by (rule built_level [OF B])
  note C = built_clayer [OF B']
  have "length (drop k (layers (circ m))) = 1" using B' by (simp add: built_def)
  then have d: "depth (circ m) - 1 = k" by (simp add: depth_def)
  have io: "inGates m = []" "outGates m = []"
    using B' c0 by (simp_all add: built_def no_layers_def)
  have "layer_at (circ m) k = Some (ham_in n)" using C by (simp add: layer_at_def)
  then have "hamdist_inputs n c = Some (m\<lparr>inGates := map (\<lambda>i. Some (k, i)) [0..<2 * n], outGates := [Some (k, 2 * n)]\<rparr>)"
    using d io unfolding hamdist_inputs_def m_def [symmetric] Let_def
    by (simp add: addInGates_def addOutGates_def addGatesFromLevel_def list_all_iff)
  moreover have "built c1 k [ham_in n] (m\<lparr>inGates := map (\<lambda>i. Some (k, i)) [0..<2 * n], outGates := [Some (k, 2 * n)]\<rparr>)"
    using B' by (simp add: built_def c1_def no_layers_def)
  ultimately show ?thesis by blast
qed

lemma built_ham_sum:
  assumes "built c0 (Suc k) [ham_in n] c"
  shows "\<exists>c'. hamdist_sum_level n c = Some c' \<and> built c0 k [ham_sum n, ham_in n] c'"
  using built_ham_layer [OF assms, of "int n" n "\<lambda>i. wire i ADD i (n + i)" "\<lambda>i. gate ADD i (n + i)"]
  by (simp add: hamdist_sum_level_def ham_sum_def makeAddGates_def makeGates_def)

lemma built_ham_square:
  assumes "built c0 (Suc k) (ham_sum n # ls) c"
  shows "\<exists>c'. hamdist_square_level n c = Some c' \<and> built c0 k (ham_square n # ham_sum n # ls) c'"
  using built_ham_layer [OF assms, of 0 n "\<lambda>i. wire i MUL i (0 + i)" "\<lambda>i. gate MUL i i"]
  by (simp add: hamdist_square_level_def ham_square_def makeMulGates_def makeGates_def)

lemma built_ham_second:
  assumes "built c0 (Suc k) (ham_square n # ls) c"
  shows "\<exists>c'. hamdist_second_level n c = Some c' \<and> built c0 k (ham_second n # ham_square n # ls) c'"
proof -
  let ?body = "\<lambda>i. if odd i then gate MUL (i div 2) (i div 2) else gate ADD (i div 2) (n + 1)"
  have "(if odd i then wire i MUL (i div 2) (i div 2) c else Option.bind (lastGate c) (\<lambda>last. wire i ADD (i div 2) last c)) =
      wire i (gtype (?body i)) (in1 (?body i)) (in2 (?body i)) c" if "built c0 k (l' # ham_square n # ls) c" for i c l'
    using built_lastGate [OF that] by simp
  then have "\<forall>i < 2 * n. \<forall>c l'. built c0 k (l' # ham_square n # ls) c \<longrightarrow>
      (if odd i then wire i MUL (i div 2) (i div 2) c else Option.bind (lastGate c) (\<lambda>last. wire i ADD (i div 2) last c)) =
      wire i (gtype (?body i)) (in1 (?body i)) (in2 (?body i)) c" by blast
  from built_ham_layer [OF assms, of "- int n" "2 * n", OF _ _ this] show ?thesis
    by (simp add: hamdist_second_level_def ham_second_def makeFLTLvl2_def)
qed

lemma built_ham_flt:
  assumes "built c0 (Suc k) (l1 # ls) c" and l1: "layer_size l1 = 2 * n + 2"
  shows "\<exists>c'. hamdist_flt_level psub1 n j c = Some c' \<and> built c0 k (ham_flt n (bit_at (nat psub1) j) # l1 # ls) c'"
proof -
  let ?b = "bit_at (nat psub1) j"
  let ?body = "\<lambda>i. if odd i then gate MUL i i else if ?b then gate MUL i (i + 1) else gate ADD i (2 * n + 1)"
  have "(if odd i then wire i MUL i i c else if ?b then wire i MUL i (i + 1) c else Option.bind (lastGate c) (\<lambda>last. wire i ADD i last c)) =
      wire i (gtype (?body i)) (in1 (?body i)) (in2 (?body i)) c" if "built c0 k (l' # l1 # ls) c" for i c l'
    using built_lastGate [OF that] l1 by simp
  then have "\<forall>i < 2 * n. \<forall>c l'. built c0 k (l' # l1 # ls) c \<longrightarrow>
      (if odd i then wire i MUL i i c else if ?b then wire i MUL i (i + 1) c else Option.bind (lastGate c) (\<lambda>last. wire i ADD i last c)) =
      wire i (gtype (?body i)) (in1 (?body i)) (in2 (?body i)) c" by blast
  from built_ham_layer [OF assms(1), of 0 "2 * n", OF _ _ this] show ?thesis
    by (simp add: Let_def hamdist_flt_level_def ham_flt_def makeFLTGeneral_def l1)
qed

lemma built_ham_flts:
  assumes "built c0 (k + (e - 2)) (ham_second n # ls) c"
  shows "\<exists>c'. fold (\<lambda>i r. Option.bind r (hamdist_flt_level psub1 n i)) [2..<e] (Some c) = Some c' \<and>
    built c0 k (map (\<lambda>i. ham_flt n (bit_at (nat psub1) i)) (rev [2..<e]) @ ham_second n # ls) c'"
  using assms
proof (induction e arbitrary: k)
  case (Suc e)
  show ?case
  proof (cases "2 \<le> e")
    case True
    then have "built c0 (Suc k + (e - 2)) (ham_second n # ls) c" using Suc.prems by (metis Suc_diff_le add_Suc add_Suc_right)
    from Suc.IH [OF this] obtain c1 where c1: "fold (\<lambda>i r. Option.bind r (hamdist_flt_level psub1 n i)) [2..<e] (Some c) = Some c1"
      "built c0 (Suc k) (map (\<lambda>i. ham_flt n (bit_at (nat psub1) i)) (rev [2..<e]) @ ham_second n # ls) c1" by blast
    define fs where "fs = map (\<lambda>i. ham_flt n (bit_at (nat psub1) i)) (rev [2..<e]) @ ham_second n # ls"
    have "fs \<noteq> []" "layer_size (hd fs) = 2 * n + 2" using True by (auto simp: fs_def hd_append hd_map hd_rev)
    then obtain l1 ls' where fs: "fs = l1 # ls'" "layer_size l1 = 2 * n + 2" by (cases fs) auto
    from built_ham_flt [OF c1(2) [folded fs_def, unfolded fs(1)] fs(2), of psub1 e] c1(1) True show ?thesis
      by (simp add: fs(1) [symmetric] fs_def)
  qed (use Suc.prems in simp)
qed simp

lemma built_ham_last:
  assumes "built c0 (Suc k) (l1 # ls) c" and l1: "layer_size l1 = 2 * n + 2"
  shows "\<exists>c'. hamdist_last_level n c = Some c' \<and> built c0 k (ham_last n # l1 # ls) c'"
  using built_ham_layer [OF assms(1), of "int n" n "\<lambda>i. wire i MUL (2 * i) (2 * i + 1)" "\<lambda>i. gate MUL (2 * i) (2 * i + 1)"] l1
  by (simp add: hamdist_last_level_def ham_last_def makeFLTLast_def makeReduceLayer_def)

lemma built_ham_reduce:
  assumes "built c0 (Suc k) (l1 # ls) c" and l1: "layer_size l1 = 2 ^ Suc i + 2"
  shows "\<exists>c'. hamdist_reduce_level i c = Some c' \<and> built c0 k (ham_reduce (2 ^ i) # l1 # ls) c'"
  using built_ham_layer [OF assms(1), of "2 ^ i" "2 ^ i" "\<lambda>i. wire i ADD (2 * i) (2 * i + 1)" "\<lambda>i. gate ADD (2 * i) (2 * i + 1)"] l1
  by (simp add: hamdist_reduce_level_def ham_reduce_def makeReduceLayer_def)

lemma built_ham_reduces:
  assumes "built c0 (k + (d - 1)) (l1 # ls) c" and l1: "layer_size l1 = 2 ^ d + 2" and d: "0 < d"
  shows "\<exists>c'. fold (\<lambda>i r. Option.bind r (hamdist_reduce_level i)) (rev [1..<d]) (Some c) = Some c' \<and>
    built c0 k (map (\<lambda>i. ham_reduce (2 ^ i)) [1..<d] @ l1 # ls) c'"
  using assms
proof (induction d arbitrary: l1 ls c)
  case (Suc d)
  show ?case
  proof (cases "d = 0")
    case False
    then have "built c0 (Suc (k + (d - 1))) (l1 # ls) c" using Suc.prems(1) by (metis Suc_diff_1 add_Suc_right diff_Suc_1 neq0_conv)
    from built_ham_reduce [OF this Suc.prems(2)] obtain c1 where c1: "hamdist_reduce_level d c = Some c1"
      "built c0 (k + (d - 1)) (ham_reduce (2 ^ d) # l1 # ls) c1" by blast
    from Suc.IH [OF c1(2)] False c1(1) show ?thesis by simp
  qed (use Suc.prems in auto)
qed simp

lemma built_ham_top:
  assumes "built c0 (Suc k) ls c"
  shows "\<exists>c'. hamdist_top_level n c = Some c' \<and> built c0 k (ham_top n # ls) c'"
  using built_wire_loop [OF built_level [OF assms, of n "Some reduce" "Some zero"], of 0 n "\<lambda>i. wire i ADD (2 * i) (2 * i + 1)"]
  by (simp add: hamdist_top_level_def ham_top_def makeReduceLayer_def layer_size_def)

lemma hamdist_built:
  assumes d: "0 < d" and flt: "3 \<le> getFLTDepth psub1" and c: "inGates c = []" "outGates c = []"
  defines "inl \<equiv> getFLTDepth psub1 + d + 2"
  shows "\<exists>c'. hamdist_constructCircuit d psub1 c = Some c' \<and> layers (circ c') = ham_layers d psub1 \<and>
    inGates c' = map (\<lambda>i. Some (inl, i)) [0..<2 * 2 ^ d] \<and> outGates c' = [Some (inl, 2 * 2 ^ d)] \<and>
    magicGates c' = magicGates c \<and> cprime (circ c') = cprime (circ c) \<and> valid (circ c') = valid (circ c)"
proof -
  let ?n = "2 ^ d" and ?f = "getFLTDepth psub1"
  let ?s = "makeShell c (?f + d + 3)"
  let ?c0 = "?s\<lparr>inGates := map (\<lambda>i. Some (inl, i)) [0..<2 * ?n], outGates := [Some (inl, 2 * ?n)]\<rparr>"
  have "Suc inl = ?f + d + 3" by (simp add: inl_def)
  then have "built ?s (Suc inl) [] ?s" using built_shell [of c "?f + d + 3"] by metis
  from built_ham_inputs [OF this, of ?n] c obtain c1 where c1: "hamdist_inputs ?n ?s = Some c1" "built ?c0 inl [ham_in ?n] c1"
    by (auto simp: makeShell_def)
  have t: "inl = Suc (?f + d + 1)" "?f + d = Suc (?f + d - 1)" "?f + d - 1 = (d + 2) + (?f - 1 - 2)"
    "d + 2 = Suc (d + 1)" "d + 1 = 2 + (d - 1)" using flt d by (simp_all add: inl_def)
  obtain c2 where c2: "hamdist_sum_level ?n c1 = Some c2" "built ?c0 (Suc (?f + d)) [ham_sum ?n, ham_in ?n] c2"
    using built_ham_sum [of ?c0 "?f + d + 1" ?n c1] c1(2) t(1) by auto
  obtain c3 where c3: "hamdist_square_level ?n c2 = Some c3" "built ?c0 (?f + d) [ham_square ?n, ham_sum ?n, ham_in ?n] c3"
    using built_ham_square [OF c2(2)] by auto
  obtain c4 where c4: "hamdist_second_level ?n c3 = Some c4"
    "built ?c0 ((d + 2) + (?f - 1 - 2)) [ham_second ?n, ham_square ?n, ham_sum ?n, ham_in ?n] c4"
    using built_ham_second [of ?c0 "?f + d - 1" ?n _ c3] c3(2) t(2,3) by metis
  let ?lower = "map (\<lambda>i. ham_flt ?n (bit_at (nat psub1) i)) (rev [2..<?f - 1]) @ [ham_second ?n, ham_square ?n, ham_sum ?n, ham_in ?n]"
  obtain c5 where c5: "fold (\<lambda>i r. Option.bind r (hamdist_flt_level psub1 ?n i)) [2..<?f - 1] (Some c4) = Some c5"
    "built ?c0 (d + 2) ?lower c5"
    using built_ham_flts [OF c4(2)] by blast
  obtain l1 ls where l: "?lower = l1 # ls" "layer_size l1 = 2 * ?n + 2"
    by (cases "rev [2..<?f - 1]") auto
  obtain c6 where c6: "hamdist_last_level ?n c5 = Some c6" "built ?c0 (2 + (d - 1)) (ham_last ?n # ?lower) c6"
    using built_ham_last [OF _ l(2), of ?c0 "d + 1" ls c5] c5(2) t(4,5) unfolding l(1) by metis
  obtain c7 where c7: "fold (\<lambda>i r. Option.bind r (hamdist_reduce_level i)) (rev [1..<d]) (Some c6) = Some c7"
    "built ?c0 (Suc 1) (map (\<lambda>i. ham_reduce (2 ^ i)) [1..<d] @ ham_last ?n # ?lower) c7"
    using built_ham_reduces [OF c6(2) _ d] by (auto simp: numeral_2_eq_2)
  obtain c8 where c8: "hamdist_top_level 2 c7 = Some c8"
    "built ?c0 (Suc 0) (ham_top 2 # map (\<lambda>i. ham_reduce (2 ^ i)) [1..<d] @ ham_last ?n # ?lower) c8"
    using built_ham_top [OF c7(2)] by auto
  obtain c9 where c9: "hamdist_top_level 1 c8 = Some c9" "built ?c0 0 (ham_layers d psub1) c9"
    using built_ham_top [OF c8(2), of 1] by (auto simp: ham_layers_def ham_lower_def)
  have "hamdist_constructCircuit d psub1 c = Some c9"
    using c1 c2 c3 c4 c5 c6 c7 c8 c9 by (simp add: hamdist_constructCircuit_def)
  moreover have "layers (circ c9) = ham_layers d psub1" by (rule built_complete [OF c9(2)])
  moreover have "no_layers c9 = no_layers ?c0" using c9(2) by (simp add: built_def)
  then have "inGates c9 = inGates ?c0" "outGates c9 = outGates ?c0" "magicGates c9 = magicGates ?c0"
    "cprime (circ c9) = cprime (circ ?c0)" "valid (circ c9) = valid (circ ?c0)"
    by (simp_all add: no_layers_def)
  ultimately show ?thesis by (simp add: makeShell_def)
qed

end
