(* ===== verification/Wire_Predicates.thy ===== *)
theory Wire_Predicates
  imports Circuit
begin

text \<open>
  The wiring predicates at a point: \<^verbatim>\<open>CircuitLayer::computeWirePredicates\<close> returns the multilinear
  extensions of the two wiring relations, whether it calls the layer's own functions or sums over the gates.
\<close>

definition wire_weight :: "(nat \<Rightarrow> int) \<Rightarrow> nat \<Rightarrow> nat \<Rightarrow> GateWiring \<Rightarrow> nat \<Rightarrow> int" where
  "wire_weight c mi mip1 w g =
     lagr g c mi * lagr (in1 w) (\<lambda>x. c (mi + x)) mip1 * lagr (in2 w) (\<lambda>x. c (mi + mip1 + x)) mip1"

definition wire_mle :: "GateType \<Rightarrow> GateWiring list \<Rightarrow> (nat \<Rightarrow> int) \<Rightarrow> nat \<Rightarrow> nat \<Rightarrow> int" where
  "wire_mle ty ws c mi mip1 =
     (\<Sum>g < length ws. if shouldBeTreatedAs (ws ! g) ty then wire_weight c mi mip1 (ws ! g) g else 0)"

text \<open>A layer's own functions, if it has any, compute these sums.\<close>

definition wire_fns_ok :: "CircuitLayer \<Rightarrow> nat \<Rightarrow> mpz \<Rightarrow> bool" where
  "wire_fns_ok l nip1 p \<longleftrightarrow>
     (\<forall>f rnd. add_fn l = Some f \<longrightarrow> logSize l + 2 * log2i nip1 \<le> length rnd \<longrightarrow>
        f rnd (logSize l) (log2i nip1) (layer_size l) nip1 p mod p =
          wire_mle ADD (gates l) ((!) rnd) (logSize l) (log2i nip1) mod p) \<and>
     (\<forall>f rnd. mul_fn l = Some f \<longrightarrow> logSize l + 2 * log2i nip1 \<le> length rnd \<longrightarrow>
        f rnd (logSize l) (log2i nip1) (layer_size l) nip1 p mod p =
          wire_mle MUL (gates l) ((!) rnd) (logSize l) (log2i nip1) mod p)"

definition wires_in_range :: "CircuitLayer \<Rightarrow> nat \<Rightarrow> bool" where
  "wires_in_range l nip1 \<longleftrightarrow> list_all (\<lambda>w. in1 w < nip1 \<and> in2 w < nip1) (gates l)"

lemma fold_two_sums:
  "fold (\<lambda>i (a, m). (if A \<and> P i then a + t i else a, if M \<and> Q i then m + t i else m)) [0..<n] (a, m :: int) =
     (a + (if A then \<Sum>i < n. if P i then t i else 0 else 0), m + (if M then \<Sum>i < n. if Q i then t i else 0 else 0))"
  by (induction n) auto

lemma sum_if_mod_cong:
  assumes "\<And>i. i < n \<Longrightarrow> t i mod p = u i mod (p :: int)"
  shows "(\<Sum>i < n. if P i then t i else 0) mod p = (\<Sum>i < n. if P i then u i else 0) mod p"
  using assms by (intro sum_mod_cong) simp

lemma chi_all_nth:
  assumes "1 < p" and "k < n" and "n \<le> 2 ^ length r"
  shows "computeChiAll (replicate n 0) r p ! k mod p = lagr k ((!) r) (length r) mod p"
  using assms by (subst computeChiAll_lagr) auto

lemma brute_force_weight:
  assumes p: "1 < p" and n: "n \<le> 2 ^ mi" "nip1 \<le> 2 ^ mip1" and rnd: "mi + 2 * mip1 \<le> length rnd"
    and g: "g < n" "in1 w < nip1" "in2 w < nip1"
  shows "modmult (computeChiAll (replicate n 0) (take mi rnd) p ! g *
      computeChiAll (replicate nip1 0) (take mip1 (drop mi rnd)) p ! in1 w)
      (computeChiAll (replicate nip1 0) (take mip1 (drop (mi + mip1) rnd)) p ! in2 w) p mod p =
    wire_weight ((!) rnd) mi mip1 w g mod p"
proof -
  have len: "length (take mi rnd) = mi" "length (take mip1 (drop mi rnd)) = mip1"
    "length (take mip1 (drop (mi + mip1) rnd)) = mip1" using rnd by simp_all
  have "computeChiAll (replicate n 0) (take mi rnd) p ! g mod p = lagr g ((!) rnd) mi mod p"
    using chi_all_nth [of p g n "take mi rnd"] p n g len lagr_cong [of mi "(!) (take mi rnd)" "(!) rnd" g] by simp
  moreover have "computeChiAll (replicate nip1 0) (take mip1 (drop mi rnd)) p ! in1 w mod p =
      lagr (in1 w) (\<lambda>x. rnd ! (mi + x)) mip1 mod p"
    using chi_all_nth [of p "in1 w" nip1 "take mip1 (drop mi rnd)"] p n g len rnd
      lagr_cong [of mip1 "(!) (take mip1 (drop mi rnd))" "\<lambda>x. rnd ! (mi + x)" "in1 w"] by simp
  moreover have "computeChiAll (replicate nip1 0) (take mip1 (drop (mi + mip1) rnd)) p ! in2 w mod p =
      lagr (in2 w) (\<lambda>x. rnd ! (mi + mip1 + x)) mip1 mod p"
    using chi_all_nth [of p "in2 w" nip1 "take mip1 (drop (mi + mip1) rnd)"] p n g len rnd
      lagr_cong [of mip1 "(!) (take mip1 (drop (mi + mip1) rnd))" "\<lambda>x. rnd ! (mi + mip1 + x)" "in2 w"] by simp
  ultimately show ?thesis
    unfolding modmult_def wire_weight_def mod_mod_trivial by (intro mod_mult_cong)
qed

lemma computeWirePredicates_mle:
  assumes p: "1 < p" and ok: "wire_fns_ok l nip1 p" and rg: "wires_in_range l nip1"
    and rnd: "logSize l + 2 * log2i nip1 \<le> length rnd"
  shows "fst (computeWirePredicates l rnd nip1 p) mod p =
      wire_mle ADD (gates l) ((!) rnd) (logSize l) (log2i nip1) mod p \<and>
    snd (computeWirePredicates l rnd nip1 p) mod p =
      wire_mle MUL (gates l) ((!) rnd) (logSize l) (log2i nip1) mod p"
proof -
  let ?mi = "logSize l" and ?m = "log2i nip1" and ?n = "layer_size l"
  let ?t = "\<lambda>i. modmult (computeChiAll (replicate ?n 0) (take ?mi rnd) p ! i *
      computeChiAll (replicate nip1 0) (take ?m (drop ?mi rnd)) p ! in1 (gates l ! i))
      (computeChiAll (replicate nip1 0) (take ?m (drop (?mi + ?m) rnd)) p ! in2 (gates l ! i)) p"
  have t: "?t i mod p = wire_weight ((!) rnd) ?mi ?m (gates l ! i) i mod p" if "i < ?n" for i
    using that rg le_two_power_log2i [of ?n] le_two_power_log2i [of nip1]
    by (intro brute_force_weight [OF p _ _ rnd]) (auto simp: logSize_def wires_in_range_def list_all_length layer_size_def)
  have S: "(\<Sum>i < ?n. if shouldBeTreatedAs (gates l ! i) ty then ?t i else 0) mod p = wire_mle ty (gates l) ((!) rnd) ?mi ?m mod p" for ty
    unfolding wire_mle_def layer_size_def [symmetric] by (rule sum_if_mod_cong) (rule t)
  have F: "fold (\<lambda>i (a, m). (if add_fn l = None \<and> shouldBeTreatedAs (gates l ! i) ADD then a + ?t i else a,
        if mul_fn l = None \<and> shouldBeTreatedAs (gates l ! i) MUL then m + ?t i else m)) [0..<?n] (a0, m0) =
      (a0 + (if add_fn l = None then \<Sum>i < ?n. if shouldBeTreatedAs (gates l ! i) ADD then ?t i else 0 else 0),
       m0 + (if mul_fn l = None then \<Sum>i < ?n. if shouldBeTreatedAs (gates l ! i) MUL then ?t i else 0 else 0))" for a0 m0
    by (rule fold_two_sums)
  note ok' = ok [unfolded wire_fns_ok_def]
  show ?thesis
  proof (cases "add_fn l"; cases "mul_fn l")
    assume "add_fn l = None" "mul_fn l = None"
    then show ?thesis using F [of 0 0] S [of ADD] S [of MUL] by (simp add: computeWirePredicates_def Let_def cong: if_cong)
  next
    fix f assume "add_fn l = None" "mul_fn l = Some f"
    then show ?thesis using F [of 0 "f rnd ?mi ?m ?n nip1 p"] S [of ADD] ok' rnd
      by (simp add: computeWirePredicates_def Let_def cong: if_cong)
  next
    fix f assume "add_fn l = Some f" "mul_fn l = None"
    then show ?thesis using F [of "f rnd ?mi ?m ?n nip1 p" 0] S [of MUL] ok' rnd
      by (simp add: computeWirePredicates_def Let_def cong: if_cong)
  next
    fix f g assume "add_fn l = Some f" "mul_fn l = Some g"
    then show ?thesis using ok' rnd by (simp add: computeWirePredicates_def Let_def)
  qed
qed

end
