(* ===== verification/Wiring_Sums.thy ===== *)
theory Wiring_Sums
  imports Wiring_Apps Wire_Predicates
begin

text \<open>
  Sums over the gates of a regular layer: a sum over all labels of a product over the label's bits is a
  product over bit positions. The closed forms below turn the wiring predicates of the source into such
  products.
\<close>

named_theorems mle_closed \<open>closed forms of the source's products, modulo the prime\<close>

section \<open>Sums over labels\<close>

lemma sum_lessThan_double: "(\<Sum>v < 2 * n. F v) = (\<Sum>v < n. F (2 * v) + F (2 * v + 1 :: nat))" for F :: "nat \<Rightarrow> int"
  by (induction n) auto

lemma bit_at_double [simp]:
  "bit_at (2 * v) 0 = False" "bit_at (Suc (2 * v)) 0 = True"
  "bit_at (2 * v) (Suc i) = bit_at v i" "bit_at (Suc (2 * v)) (Suc i) = bit_at v i"
  by (simp_all add: bit_at_def div_mult2_eq)

lemma bit_at_small [simp]: "bit_at 0 i = False" "bit_at (Suc 0) 0 = True" "bit_at (Suc 0) (Suc i) = False"
  by (simp_all add: bit_at_def div_mult2_eq)

lemma sum_bits_prod:
  "(\<Sum>v < 2 ^ n. \<Prod>i < n. F i (bit_at v i)) = (\<Prod>i < n. F i False + F i True)" for F :: "nat \<Rightarrow> bool \<Rightarrow> int"
proof (induction n arbitrary: F)
  case (Suc n)
  have "(\<Sum>v < 2 ^ Suc n. \<Prod>i < Suc n. F i (bit_at v i)) =
      (\<Sum>v < 2 ^ n. (F 0 False + F 0 True) * (\<Prod>i < n. F (Suc i) (bit_at v i)))"
    by (simp add: sum_lessThan_double prod.lessThan_Suc_shift distrib_right del: prod.lessThan_Suc)
  also have "\<dots> = (F 0 False + F 0 True) * (\<Prod>i < n. F (Suc i) False + F (Suc i) True)"
    by (simp add: Suc.IH [of "\<lambda>i. F (Suc i)"] sum_distrib_left [symmetric])
  finally show ?case by (simp add: prod.lessThan_Suc_shift del: prod.lessThan_Suc)
qed simp

lemma lagr_double:
  "lagr (2 * v) f (Suc n) = (1 - f 0) * lagr v (\<lambda>i. f (Suc i)) n"
  "lagr (Suc (2 * v)) f (Suc n) = f 0 * lagr v (\<lambda>i. f (Suc i)) n"
  by (simp_all add: lagr_def prod.lessThan_Suc_shift sel_def del: prod.lessThan_Suc)

lemma lagr_high: "v < 2 ^ n \<Longrightarrow> lagr (v + 2 ^ n * w) f (n + k) = lagr v f n * lagr w (\<lambda>i. f (n + i)) k"
  by (simp add: lagr_split lagr_add_high)

lemma lagr_top0: "v < 2 ^ n \<Longrightarrow> lagr v f (Suc n) = lagr v f n * (1 - f n)"
  using lagr_high [of v n 0 f 1] by (simp add: lagr_def sel_def)

lemma lagr_top1: "v < 2 ^ n \<Longrightarrow> lagr (2 ^ n + v) f (Suc n) = lagr v f n * f n"
  using lagr_high [of v n 1 f 1] by (simp add: lagr_def sel_def add.commute)

lemma lagr_top00: "v < 2 ^ n \<Longrightarrow> lagr v f (Suc (Suc n)) = lagr v f n * (1 - f n) * (1 - f (Suc n))"
  by (simp add: lagr_top0 [of v "Suc n"] lagr_top0)

lemma lagr_top10: "v < 2 ^ n \<Longrightarrow> lagr (2 ^ n + v) f (Suc (Suc n)) = lagr v f n * f n * (1 - f (Suc n))"
  by (simp add: lagr_top0 [of "2 ^ n + v" "Suc n"] lagr_top1)

definition eq3 :: "int \<Rightarrow> int \<Rightarrow> int \<Rightarrow> int" where
  "eq3 a b c = a * b * c + (1 - a) * (1 - b) * (1 - c)"

lemma sum_lagr2: "(\<Sum>v < 2 ^ n. lagr v f n * lagr v g n) = (\<Prod>i < n. eq_ext (f i) (g i))"
  using sum_bits_prod [of "\<lambda>i b. sel b (f i) * sel b (g i)" n]
  by (simp add: lagr_def prod.distrib sel_def eq_ext_def)

lemma sum_lagr3: "(\<Sum>v < 2 ^ n. lagr v f n * lagr v g n * lagr v h n) = (\<Prod>i < n. eq3 (f i) (g i) (h i))"
  using sum_bits_prod [of "\<lambda>i b. sel b (f i) * sel b (g i) * sel b (h i)" n]
  by (simp add: lagr_def prod.distrib sel_def eq3_def algebra_simps)

section \<open>Closed forms\<close>

lemma fold_modmult [mle_closed]:
  "fold (\<lambda>i a. modmult a (f i) p) [s..<e] a mod p = a * (\<Prod>i \<in> {s..<e}. f i) mod p"
proof (induction e)
  case (Suc e)
  show ?case
  proof (cases "s \<le> e")
    case True
    then have "fold (\<lambda>i a. modmult a (f i) p) [s..<Suc e] a mod p =
        (fold (\<lambda>i a. modmult a (f i) p) [s..<e] a mod p) * f e mod p"
      by (simp add: modmult_def mod_simps)
    then show ?thesis using Suc True by (simp add: prod.atLeastLessThan_Suc mod_simps mult.assoc)
  qed simp
qed simp

lemma fold_modmult_range0: "fold (\<lambda>i a. modmult a (f i) p) [0..<e] a mod p = a * (\<Prod>i < e. f i) mod p"
  using fold_modmult [of f p 0 e a] by (simp add: atLeast0LessThan)

lemma fold_prods:
  "fold (\<lambda>it (a, b). (a * f it, b * g it)) rs (a0, b0 :: int) = (a0 * prod_list (map f rs), b0 * prod_list (map g rs))"
  by (induction rs arbitrary: a0 b0) (auto simp: mult.assoc)

lemma fold_prod1: "fold (\<lambda>it a. a * f it) rs a0 = a0 * prod_list (map f rs)" for a0 :: int
  by (induction rs arbitrary: a0) (auto simp: mult.assoc)

lemma check_equal_tmpl_closed:
  "check_equal_tmpl rop rs s e p =
     rop * (\<Prod>i \<in> {s..<e}. prod_list (map (\<lambda>it. it ! i) rs) + prod_list (map (\<lambda>it. 1 - it ! i) rs)) mod p"
  unfolding check_equal_tmpl_def fold_prods one_sub_def
  using mod_mult_cong [OF refl fold_modmult [of "\<lambda>i. prod_list (map (\<lambda>it. it ! i) rs) + prod_list (map (\<lambda>it. 1 - it ! i) rs)" p s e 1], of rop]
  by (simp add: Let_def modmult_def [of rop])

lemma check_equal3_closed [mle_closed]:
  "check_equal3 rop a b c s e p = rop * (\<Prod>i \<in> {s..<e}. eq3 (a ! i) (b ! i) (c ! i)) mod p"
  by (simp add: check_equal3_def check_equal_tmpl_closed eq3_def mult.assoc)

lemma check_equal2_closed [mle_closed]:
  "check_equal2 rop a b s e p = rop * (\<Prod>i \<in> {s..<e}. eq_ext (a ! i) (b ! i)) mod p"
  by (simp add: check_equal2_def check_equal_tmpl_closed eq_ext_def add.commute)

lemma check_zero_tmpl_closed:
  "check_zero_tmpl rop rs s e p = rop * (\<Prod>i \<in> {s..<e}. prod_list (map (\<lambda>it. 1 - it ! i) rs)) mod p"
  unfolding check_zero_tmpl_def fold_prod1 one_sub_def
  using mod_mult_cong [OF refl fold_modmult [of "\<lambda>i. prod_list (map (\<lambda>it. 1 - it ! i) rs)" p s e 1], of rop]
  by (simp add: Let_def modmult_def)

lemma check_zero3_closed [mle_closed]:
  "check_zero3 rop a b c s e p = rop * (\<Prod>i \<in> {s..<e}. (1 - a ! i) * (1 - b ! i) * (1 - c ! i)) mod p"
  by (simp add: check_zero3_def check_zero_tmpl_closed mult.assoc)

lemma check_zero2_closed [mle_closed]:
  "check_zero2 rop a b s e p = rop * (\<Prod>i \<in> {s..<e}. (1 - a ! i) * (1 - b ! i)) mod p"
  by (simp add: check_zero2_def check_zero_tmpl_closed)

lemma match3_eq3 [mle_closed]: "match3 a b c = eq3 c a b"
  by (simp add: match3_def eq3_def Let_def one_sub_def algebra_simps)

lemma match2_eq_ext [mle_closed]: "match2 a b = eq_ext a b"
  by (simp add: match2_def eq_ext_def Let_def one_sub_def)

lemma check_wiring_closed [mle_closed]:
  assumes "1 < p" and "mi + 2 * mip1 \<le> length r"
  shows "check_wiring rop r out i1 i2 mi mip1 p =
    (rop + lagr out ((!) r) mi * lagr i1 (\<lambda>x. r ! (mi + x)) mip1 * lagr i2 (\<lambda>x. r ! (mi + mip1 + x)) mip1) mod p"
proof -
  have d: "lagr v ((!) (drop k r)) mip1 = lagr v (\<lambda>x. r ! (k + x)) mip1" if "k + mip1 \<le> length r" for v k
    using that by (intro lagr_cong) simp
  let ?c = "lagr out ((!) r) mi" and ?a = "lagr i1 (\<lambda>x. r ! (mi + x)) mip1" and ?b = "lagr i2 (\<lambda>x. r ! (mi + mip1 + x)) mip1"
  have c: "chi out r mi p mod p = ?c mod p" using assms by (simp add: chi_lagr)
  have m: "mul_chi (chi out r mi p) i1 (drop mi r) mip1 p mod p = ?c * ?a mod p"
    unfolding mul_chi_mod by (rule mod_mult_cong [OF c]) (use assms d in simp)
  have "mul_chi (mul_chi (chi out r mi p) i1 (drop mi r) mip1 p) i2 (drop (mi + mip1) r) mip1 p mod p = ?c * ?a * ?b mod p"
    unfolding mul_chi_mod by (rule mod_mult_cong [OF m]) (use assms d in simp)
  then show ?thesis by (simp add: check_wiring_def modadd_def Let_def) (metis mod_add_right_eq)
qed

end
