(* ===== verification/Cmt_Comm.thy ===== *)
theory Cmt_Comm
  imports Cmt_Prelude
begin

text \<open>
  The messages of the protocol (\<^verbatim>\<open>cmt_comm_consts.cpp\<close>), how a batch is split among provers
  (\<^verbatim>\<open>cmt_protocol_config.h\<close>) and how the verifier talks to all of them (\<^verbatim>\<open>cmt_verifier.cpp\<close>). A prover
  is a state and a handler that maps a message to the new state and the data of its reply, \<open>None\<close> when it
  does not reply; a verifier that waits for such a reply waits for ever, which is \<open>None\<close> here.
\<close>

section \<open>Messages\<close>

datatype cmt_msg =
    BEGIN_CMT mpz
  | BEGIN_LAYER nat
  | END_CMT
  | END_LAYER
  | CONFIGURE nat nat
  | REQ_OUTPUTS "rat list"
  | REQ_SC_POLY mpz
  | REQ_VS
  | REQ_LPOLY
  | NOTIFY_Z0 mpz_vec
  | NOTIFY_LPOLY_EXTRAP_PT mpz

section \<open>Configurations\<close>

record CMTProverConfig =
  startInstance :: nat
  endInstance :: nat

definition pbatchSize :: "CMTProverConfig \<Rightarrow> nat" where
  "pbatchSize c = endInstance c - startInstance c"

record CMTProtocolConfig =
  vbatchSize :: nat
  pConfs :: "CMTProverConfig list"

definition numProvers :: "CMTProtocolConfig \<Rightarrow> nat" where
  "numProvers conf = length (pConfs conf)"

definition default_CMTProtocolConfig :: CMTProtocolConfig where
  "default_CMTProtocolConfig = \<lparr>vbatchSize = 1, pConfs = [\<lparr>startInstance = 0, endInstance = 1\<rparr>]\<rparr>"

definition new_CMTProtocolConfig :: "nat \<Rightarrow> nat \<Rightarrow> CMTProtocolConfig" where
  "new_CMTProtocolConfig nBatch nProvers =
     (let numResponsible = nBatch div nProvers;
          extra = nBatch - numResponsible * nProvers
      in \<lparr>vbatchSize = nBatch,
          pConfs = map (\<lambda>pid. let start = pid * numResponsible + min pid extra
                             in \<lparr>startInstance = start,
                                 endInstance = start + numResponsible + (if pid < extra then 1 else 0)\<rparr>)
                     [0..<nProvers]\<rparr>)"

section \<open>Talking to all provers\<close>

text \<open>\<^verbatim>\<open>getDataAsVector\<close>: at most \<open>len\<close> elements of the message are read; a short message leaves the rest
  of the target as it was.\<close>

definition getDataAsVector :: "'a list \<Rightarrow> nat \<Rightarrow> nat \<Rightarrow> 'a list \<Rightarrow> 'a list" where
  "getDataAsVector vec start len data =
     fold (\<lambda>i vec. vec[start + i := data ! i]) [0..<min len (length data)] vec"

definition broadcast :: "(cmt_msg \<Rightarrow> 's \<Rightarrow> 's \<times> 'r) \<Rightarrow> cmt_msg \<Rightarrow> 's list \<Rightarrow> 's list \<times> 'r list" where
  "broadcast handle msg nets = (let rs = map (handle msg) nets in (map fst rs, map snd rs))"

definition distribute :: "CMTProtocolConfig \<Rightarrow> 'a list \<Rightarrow> nat \<Rightarrow> 'a list list" where
  "distribute conf vec instanceSize =
     map (\<lambda>pid. let pConf = pConfs conf ! pid;
                    distroStart = startInstance pConf * instanceSize;
                    distroSize = pbatchSize pConf * instanceSize
                in take distroSize (drop distroStart vec)) [0..<numProvers conf]"

definition gather_from ::
  "CMTProtocolConfig \<Rightarrow> nat \<Rightarrow> 'a list option list \<Rightarrow> nat \<Rightarrow> 'a list option \<Rightarrow> 'a list option" where
  "gather_from conf instanceSize resps pid r =
     Option.bind r (\<lambda>vec.
       let pConf = pConfs conf ! pid;
           gatherStart = startInstance pConf * instanceSize;
           gatherSize = pbatchSize pConf * instanceSize
       in if gatherSize > 0
          then map_option (getDataAsVector vec gatherStart gatherSize) (resps ! pid)
          else Some vec)"

definition gather :: "CMTProtocolConfig \<Rightarrow> 'a list \<Rightarrow> nat \<Rightarrow> 'a list option list \<Rightarrow> 'a list option" where
  "gather conf vec instanceSize resps =
     (if instanceSize = 0 then Some vec
      else fold (gather_from conf instanceSize resps) [0..<numProvers conf] (Some vec))"

section \<open>The split is a partition\<close>

definition pstart :: "CMTProtocolConfig \<Rightarrow> nat \<Rightarrow> nat" where
  "pstart conf pid = startInstance (pConfs conf ! pid)"

definition psize :: "CMTProtocolConfig \<Rightarrow> nat \<Rightarrow> nat" where
  "psize conf pid = pbatchSize (pConfs conf ! pid)"

text \<open>The ranges follow one another from 0 to the size of the batch.\<close>

definition config_split :: "CMTProtocolConfig \<Rightarrow> bool" where
  "config_split conf \<longleftrightarrow>
     (\<forall>pid < numProvers conf. pstart conf pid = (\<Sum>i < pid. psize conf i)) \<and>
     (\<Sum>i < numProvers conf. psize conf i) = vbatchSize conf"

lemma new_config_nth:
  assumes "pid < nProvers"
  shows "pstart (new_CMTProtocolConfig nBatch nProvers) pid = pid * (nBatch div nProvers) + min pid (nBatch mod nProvers)"
    "psize (new_CMTProtocolConfig nBatch nProvers) pid = nBatch div nProvers + of_bool (pid < nBatch mod nProvers)"
  using assms by (simp_all add: new_CMTProtocolConfig_def pstart_def psize_def pbatchSize_def Let_def
      minus_div_mult_eq_mod)

lemma numProvers_new [simp]: "numProvers (new_CMTProtocolConfig nBatch nProvers) = nProvers"
  by (simp add: new_CMTProtocolConfig_def numProvers_def Let_def)

lemma vbatchSize_new [simp]: "vbatchSize (new_CMTProtocolConfig nBatch nProvers) = nBatch"
  by (simp add: new_CMTProtocolConfig_def Let_def)

lemma new_config_split:
  assumes "0 < nProvers" shows "config_split (new_CMTProtocolConfig nBatch nProvers)"
proof -
  let ?c = "new_CMTProtocolConfig nBatch nProvers"
  have sum: "(\<Sum>i < pid. psize ?c i) = pid * (nBatch div nProvers) + min pid (nBatch mod nProvers)"
    if "pid \<le> nProvers" for pid
    using that by (induction pid) (auto simp: new_config_nth)
  have "nProvers * (nBatch div nProvers) + min nProvers (nBatch mod nProvers) = nBatch"
    using assms by (simp add: min_absorb2 less_imp_le)
  with sum show ?thesis by (simp add: config_split_def new_config_nth)
qed

lemma config_covers:
  assumes "config_split conf" and "b < vbatchSize conf"
  obtains pid b' where "pid < numProvers conf" "b' < psize conf pid" "b = pstart conf pid + b'"
proof -
  have ex: "\<exists>pid < n. (\<Sum>i < pid. psize conf i) \<le> b \<and> b < (\<Sum>i < Suc pid. psize conf i)"
    if "b < (\<Sum>i < n. psize conf i)" for n
    using that
  proof (induction n)
    case (Suc n)
    then show ?case by (cases "b < (\<Sum>i < n. psize conf i)") (auto intro: less_SucI)
  qed simp
  have "b < (\<Sum>i < numProvers conf. psize conf i)" using assms by (simp add: config_split_def)
  from ex [OF this] obtain pid where pid: "pid < numProvers conf" "(\<Sum>i < pid. psize conf i) \<le> b"
    "b < (\<Sum>i < Suc pid. psize conf i)" by blast
  show ?thesis
    by (rule that [of pid "b - pstart conf pid"]) (use pid assms(1) in \<open>auto simp: config_split_def\<close>)
qed

lemma config_end:
  assumes "config_split conf" and "pid < numProvers conf"
  shows "pstart conf pid + psize conf pid \<le> vbatchSize conf"
proof -
  have "pstart conf pid + psize conf pid = (\<Sum>i < Suc pid. psize conf i)"
    using assms by (simp add: config_split_def)
  also have "\<dots> \<le> (\<Sum>i < numProvers conf. psize conf i)" using assms(2) by (intro sum_mono2) auto
  finally show ?thesis using assms(1) by (simp add: config_split_def)
qed

section \<open>Gathering\<close>

lemma getDataAsVector_nth:
  assumes "k < length vec" and "len \<le> length data"
  shows "getDataAsVector vec start len data ! k =
    (if start \<le> k \<and> k < start + len then data ! (k - start) else vec ! k)"
proof -
  have "fold (\<lambda>i vec. vec[start + i := data ! i]) [0..<n] vec ! k =
    (if start \<le> k \<and> k < start + n then data ! (k - start) else vec ! k)" for n
  proof (induction n)
    case (Suc n)
    then show ?case using assms(1) by (cases "k = start + n") auto
  qed auto
  with assms(2) show ?thesis by (simp add: getDataAsVector_def min_absorb1)
qed

lemma length_getDataAsVector [simp]: "length (getDataAsVector vec start len data) = length vec"
  by (simp add: getDataAsVector_def)

text \<open>When every prover replies with as much as it was asked for, slot \<open>i\<close> of its reply lands at its place.\<close>

lemma gather_nth:
  assumes split: "config_split conf" and sz: "0 < sz" and len: "length vec = vbatchSize conf * sz"
    and resps: "\<And>pid. pid < numProvers conf \<Longrightarrow> \<exists>d. resps ! pid = Some d \<and> length d = psize conf pid * sz"
  obtains out where "gather conf vec sz resps = Some out" "length out = length vec"
    "\<And>pid i. pid < numProvers conf \<Longrightarrow> i < psize conf pid * sz \<Longrightarrow>
       out ! (pstart conf pid * sz + i) = the (resps ! pid) ! i"
proof -
  define P where "P = (\<lambda>n r. \<exists>out. r = Some out \<and> length out = length vec \<and>
    (\<forall>pid i. pid < n \<longrightarrow> i < psize conf pid * sz \<longrightarrow> out ! (pstart conf pid * sz + i) = the (resps ! pid) ! i))"
  have "P (numProvers conf) (fold (gather_from conf sz resps) [0..<numProvers conf] (Some vec))"
  proof (rule fold_range_inv)
    show "P 0 (Some vec)" by (simp add: P_def)
  next
    fix n r assume n: "n < numProvers conf" and "P n r"
    then obtain out where r: "r = Some out" and lo: "length out = length vec"
      and out: "\<And>pid i. pid < n \<Longrightarrow> i < psize conf pid * sz \<Longrightarrow> out ! (pstart conf pid * sz + i) = the (resps ! pid) ! i"
      by (auto simp: P_def)
    obtain d where d: "resps ! n = Some d" "length d = psize conf n * sz" using resps [OF n] by blast
    let ?out = "getDataAsVector out (pstart conf n * sz) (psize conf n * sz) d"
    have step: "gather_from conf sz resps n r = Some (if psize conf n * sz > 0 then ?out else out)"
      using r d by (simp add: gather_from_def Let_def pstart_def psize_def)
    have end_le: "pstart conf pid * sz + psize conf pid * sz \<le> length vec" if "pid < numProvers conf" for pid
      using mult_le_mono1 [OF config_end [OF split that], of sz] len by (simp add: add_mult_distrib)
    have "?out ! (pstart conf pid * sz + i) = the (resps ! pid) ! i"
      if pid: "pid < Suc n" and i: "i < psize conf pid * sz" for pid i
    proof -
      have k: "pstart conf pid * sz + i < length out" using end_le [of pid] pid n i lo by auto
      show ?thesis
      proof (cases "pid = n")
        case True
        with getDataAsVector_nth [OF k, of "psize conf n * sz" d "pstart conf n * sz"] d i show ?thesis by simp
      next
        case False
        then have pid': "pid < n" using pid by simp
        have "pstart conf pid + psize conf pid = (\<Sum>i < Suc pid. psize conf i)"
          using split pid' n by (simp add: config_split_def)
        also have "\<dots> \<le> (\<Sum>i < n. psize conf i)" using pid' by (intro sum_mono2) auto
        also have "\<dots> = pstart conf n" using split n by (simp add: config_split_def)
        finally have "pstart conf pid * sz + i < pstart conf n * sz"
          using i mult_le_mono1 [of "pstart conf pid + psize conf pid" "pstart conf n" sz]
          by (simp add: add_mult_distrib)
        with getDataAsVector_nth [OF k, of "psize conf n * sz" d "pstart conf n * sz"] d out [OF pid' i]
        show ?thesis by simp
      qed
    qed
    moreover have "out ! (pstart conf pid * sz + i) = the (resps ! pid) ! i"
      if "pid < Suc n" "i < psize conf pid * sz" "psize conf n * sz = 0" for pid i
      using that out [of pid i] by (cases "pid = n") auto
    ultimately show "P (Suc n) (gather_from conf sz resps n r)"
      unfolding step P_def using lo by auto
  qed simp
  then show thesis using that sz by (auto simp: P_def gather_def)
qed

end
