(* ===== verification/Sumcheck_Prover.thy ===== *)
theory Sumcheck_Prover
  imports Circuit Cmt_Comm
begin

text \<open>
  The prover's side of one sum-check instance, \<^verbatim>\<open>cmtgkr/base/cmt_sumcheck_p.cpp\<close>. The record holds the
  object's fields; the layers it was given enter as the wiring of the output layer and, for every
  instance of the batch, the \<^verbatim>\<open>zValue()\<close>s of the input and output layers. \<^verbatim>\<open>tmp\<close>, \<^verbatim>\<open>gateBetar\<close> and
  \<^verbatim>\<open>gateAddormultr\<close> are scratch: every use is preceded by a write, so they are local here. Slot
  \<open>b * polySize + m\<close> of a round's vector is the polynomial of instance \<open>b\<close> at the point \<open>m\<close>.
\<close>

definition polySize :: nat where
  "polySize = 3"

record SumCheckProver =
  wires :: "GateWiring list"
  inVals :: "mpz list list"
  outVals :: "mpz list list"
  zvec :: mpz_vec
  scprime :: mpz
  expected :: mpz_vec
  V1s :: mpz_vec
  V2 :: mpz
  vals :: "mpz list list"
  betar :: mpz_vec
  addormultr :: mpz_vec
  partialBetar :: mpz

definition batchSize :: "SumCheckProver \<Rightarrow> nat" where
  "batchSize st = length (inVals st)"

definition out_size :: "SumCheckProver \<Rightarrow> nat" where
  "out_size st = length (wires st)"

definition out_logSize :: "SumCheckProver \<Rightarrow> nat" where
  "out_logSize st = log2i (length (wires st))"

definition in_size :: "SumCheckProver \<Rightarrow> nat" where
  "in_size st = length (inVals st ! 0)"

definition in_logSize :: "SumCheckProver \<Rightarrow> nat" where
  "in_logSize st = log2i (in_size st)"

definition new_SumCheckProver ::
  "GateWiring list \<Rightarrow> mpz list list \<Rightarrow> mpz list list \<Rightarrow> mpz_vec \<Rightarrow> mpz \<Rightarrow> SumCheckProver" where
  "new_SumCheckProver ws ins outs zi p =
     \<lparr>wires = ws, inVals = ins, outVals = outs, zvec = zi, scprime = p,
      expected = replicate (length ins) 0, V1s = replicate (length ins) 0, V2 = 0,
      vals = replicate (length ins) (replicate (2 ^ log2i (length (ins ! 0))) 0),
      betar = replicate (length ws) 0, addormultr = replicate (length ws) 0, partialBetar = 1\<rparr>"

definition numRounds :: "SumCheckProver \<Rightarrow> nat" where
  "numRounds st = out_logSize st + 2 * in_logSize st"

section \<open>Helpers\<close>

definition init_vals_array :: "mpz_vec \<Rightarrow> mpz_vec \<Rightarrow> mpz_vec" where
  "init_vals_array vs inLayer =
     (let num_effective = 2 ^ log2i (length inLayer)
      in fold (\<lambda>k vs. vs[k := (if k < length inLayer then inLayer ! k else 0)]) [0..<num_effective] vs)"

definition init_vec_si :: "mpz_vec \<Rightarrow> int \<Rightarrow> mpz_vec" where
  "init_vec_si vec val = fold (\<lambda>i vec. vec[i := val]) [0..<length vec] vec"

text \<open>The file's own \<^verbatim>\<open>computeChiAll\<close>, which starts at variable \<open>startAt\<close> of \<open>z\<close>.\<close>

definition computeChiAll_n :: "mpz_vec \<Rightarrow> mpz_vec \<Rightarrow> nat \<Rightarrow> mpz \<Rightarrow> nat \<Rightarrow> mpz_vec" where
  "computeChiAll_n bs z n prime startAt =
     fold (\<lambda>logi bs.
        let base = 2 ^ logi;
            bs = fold (\<lambda>i bs. bs[i := modmult (bs ! (i - base)) (z ! (logi + startAt)) prime])
                   [base..<min (2 * base) n] bs;
            one_sub_z = one_sub (z ! (logi + startAt))
        in fold (\<lambda>i bs. bs[i := modmult (bs ! i) one_sub_z prime]) [0..<base] bs)
      [0..<log2i n] (bs[0 := 1])"

definition computeBetaZAll :: "SumCheckProver \<Rightarrow> SumCheckProver" where
  "computeBetaZAll st = st\<lparr>betar := computeChiAll_n (betar st) (zvec st) (out_size st) (scprime st) 0\<rparr>"

definition mulmle2_si :: "mpz \<Rightarrow> int \<Rightarrow> bool \<Rightarrow> mpz \<Rightarrow> mpz" where
  "mulmle2_si op1 op2 bt prime = modmult_si op1 (if bt then op2 else 1 - op2) prime"

definition mulmle2 :: "mpz \<Rightarrow> mpz \<Rightarrow> bool \<Rightarrow> mpz \<Rightarrow> mpz" where
  "mulmle2 op1 op2 bt prime =
     (let tmp = (if bt then op2 else one_sub op2) in modmult op1 tmp prime)"

section \<open>A round over a variable of the output label\<close>

definition roundP_point1 :: "SumCheckProver \<Rightarrow> nat \<Rightarrow> mpz_vec \<Rightarrow> mpz_vec" where
  "roundP_point1 st bitPos roundPoly =
     fold (\<lambda>gateIdx roundPoly.
        let betarIdx = gateIdx div 2 ^ bitPos; bit = bit_at gateIdx bitPos
        in if \<not> bit then roundPoly
           else let tmp = addormultr st ! gateIdx * betar st ! betarIdx
             in fold (\<lambda>b roundPoly.
                  let out = outVals st ! b ! gateIdx; k = b * polySize + 1
                  in if out \<noteq> 0
                     then roundPoly[k := addmodmult (roundPoly ! k) out tmp (scprime st)]
                     else roundPoly) [0..<batchSize st] roundPoly)
       [0..<out_size st] roundPoly"

definition roundP_divide_betar ::
  "(mpz \<Rightarrow> mpz \<Rightarrow> mpz) \<Rightarrow> SumCheckProver \<Rightarrow> nat \<Rightarrow> mpz \<Rightarrow> SumCheckProver" where
  "roundP_divide_betar mpz_invert st bitPos z =
     (let p = scprime st;
          nEffectiveBetar = (out_size st - 1) div 2 ^ (bitPos + 1) + 1;
          tmp = one_sub z mod p
      in if tmp \<noteq> 0
         then let tmp = mpz_invert tmp p
              in st\<lparr>betar := fold (\<lambda>i bs. bs[i := modmult (bs ! (2 * i)) tmp p])
                               [0..<nEffectiveBetar] (betar st)\<rparr>
         else let bs = computeChiAll_n (betar st) (zvec st) nEffectiveBetar p (bitPos + 1)
              in st\<lparr>betar := fold (\<lambda>i bs. bs[i := modmult (bs ! i) (partialBetar st) p])
                               [0..<nEffectiveBetar] bs\<rparr>)"

definition roundP_point2_gate ::
  "nat \<Rightarrow> mpz \<Rightarrow> mpz \<Rightarrow> nat \<Rightarrow> SumCheckProver \<times> mpz_vec \<Rightarrow> SumCheckProver \<times> mpz_vec" where
  "roundP_point2_gate bitPos z r gateIdx s =
     (let (st, roundPoly) = s; p = scprime st;
          betarIdx = gateIdx div 2 ^ (bitPos + 1); bit = bit_at gateIdx bitPos;
          roundPoly = fold (\<lambda>m roundPoly.
             let tmp = one_sub z;
                 tmp = mle_si (int m) tmp z p;
                 gateBetar = modmult (betar st ! betarIdx) tmp p;
                 gateAddormultr = mulmle2_si (addormultr st ! gateIdx) (int m) bit p;
                 tmp = gateBetar * gateAddormultr
             in fold (\<lambda>b roundPoly.
                  let out = outVals st ! b ! gateIdx; k = b * polySize + m
                  in if out \<noteq> 0
                     then roundPoly[k := addmodmult (roundPoly ! k) tmp out p]
                     else roundPoly) [0..<batchSize st] roundPoly) [2..<polySize] roundPoly
      in (st\<lparr>addormultr := (addormultr st)[gateIdx := mulmle2 (addormultr st ! gateIdx) r bit p]\<rparr>,
          roundPoly))"

definition roundP_update_betar :: "SumCheckProver \<Rightarrow> nat \<Rightarrow> mpz \<Rightarrow> mpz \<Rightarrow> SumCheckProver" where
  "roundP_update_betar st bitPos z r =
     (let p = scprime st;
          nEffectiveBetar = (out_size st - 1) div 2 ^ (bitPos + 1) + 1;
          tmp = one_sub z;
          tmp = mle r tmp z p
      in st\<lparr>betar := fold (\<lambda>i bs. bs[i := modmult (bs ! i) tmp p]) [0..<nEffectiveBetar] (betar st),
            partialBetar := modmult (partialBetar st) tmp p\<rparr>)"

definition doRoundP ::
  "(mpz \<Rightarrow> mpz \<Rightarrow> mpz) \<Rightarrow> SumCheckProver \<Rightarrow> mpz_vec \<Rightarrow> nat \<Rightarrow> mpz \<Rightarrow> mpz \<Rightarrow> SumCheckProver \<times> mpz_vec" where
  "doRoundP mpz_invert st roundPoly bitPos z r =
     (let roundPoly = roundP_point1 st bitPos roundPoly;
          st = roundP_divide_betar mpz_invert st bitPos z;
          (st, roundPoly) = fold (roundP_point2_gate bitPos z r) [0..<out_size st] (st, roundPoly)
      in (roundP_update_betar st bitPos z r, roundPoly))"

section \<open>A round over a variable of an input label\<close>

text \<open>Instance \<open>b\<close> of the two inner loops of \<^verbatim>\<open>doRoundO\<close>: \<^verbatim>\<open>variableV\<close> is set to \<open>v\<close>, the gate is applied
  and its value, times \<open>coef\<close>, is added (unreduced) to the slot of the point \<open>m\<close>.\<close>

definition roundO_accum ::
  "bool \<Rightarrow> GateWiring \<Rightarrow> nat \<Rightarrow> (nat \<Rightarrow> mpz) \<Rightarrow> mpz \<Rightarrow> nat \<Rightarrow> SumCheckProver \<times> mpz_vec
     \<Rightarrow> SumCheckProver \<times> mpz_vec" where
  "roundO_accum onO1 reprGate m v coef b s =
     (let (st, roundPoly) = s;
          st = (if onO1 then st\<lparr>V1s := (V1s st)[b := v b]\<rparr> else st\<lparr>V2 := v b\<rparr>);
          op2V = (if onO1 then inVals st ! b ! in2 reprGate else V2 st);
          tmp = applyGateOperation reprGate (V1s st ! b) op2V (scprime st);
          k = b * polySize + m
      in (st, roundPoly[k := roundPoly ! k + tmp * coef]))"

definition roundO_gate ::
  "nat \<Rightarrow> mpz \<Rightarrow> bool \<Rightarrow> nat \<Rightarrow> SumCheckProver \<times> mpz_vec \<Rightarrow> SumCheckProver \<times> mpz_vec" where
  "roundO_gate bitPos r onO1 gateIdx s =
     (let (st, roundPoly) = s; p = scprime st;
          reprGate = wires st ! gateIdx;
          inputGateIdx = (if onO1 then in1 reprGate else in2 reprGate);
          base = 2 * (inputGateIdx div 2 ^ bitPos div 2);
          bit = bit_at inputGateIdx bitPos;
          vs = vals st;
          (st, roundPoly) =
            (if bit
             then fold (roundO_accum onO1 reprGate 1 (\<lambda>b. vs ! b ! (base + 1)) (addormultr st ! gateIdx))
                    [0..<batchSize st] (st, roundPoly)
             else (st, roundPoly));
          (st, roundPoly) =
            fold (\<lambda>m (st, roundPoly).
               let gateAddormultr = mulmle2_si (addormultr st ! gateIdx) (int m) bit p
               in fold (roundO_accum onO1 reprGate m
                         (\<lambda>b. mle_si (int m) (vs ! b ! base) (vs ! b ! (base + 1)) p) gateAddormultr)
                    [0..<batchSize st] (st, roundPoly)) [2..<polySize] (st, roundPoly)
      in (st\<lparr>addormultr := (addormultr st)[gateIdx := mulmle2 (addormultr st ! gateIdx) r bit p]\<rparr>,
          roundPoly))"

definition roundO_mult_betar :: "SumCheckProver \<Rightarrow> mpz_vec \<Rightarrow> mpz_vec" where
  "roundO_mult_betar st roundPoly =
     fold (\<lambda>b roundPoly. fold (\<lambda>m roundPoly.
         let k = b * polySize + m
         in roundPoly[k := modmult (roundPoly ! k) (betar st ! 0) (scprime st)]) [1..<3] roundPoly)
       [0..<batchSize st] roundPoly"

text \<open>\<^verbatim>\<open>vals[b][i] = vals[b][2i] * (1 - r) + vals[b][2i + 1] * r\<close>, in place.\<close>

definition vals_slot :: "mpz \<Rightarrow> mpz \<Rightarrow> nat \<Rightarrow> mpz_vec \<Rightarrow> mpz_vec" where
  "vals_slot p r i vs =
     (let tmp = one_sub r;
          vs = vs[i := modmult (vs ! (2 * i)) tmp p]
      in vs[i := addmodmult (vs ! i) (vs ! (2 * i + 1)) r p])"

definition roundO_update_vals :: "SumCheckProver \<Rightarrow> nat \<Rightarrow> mpz \<Rightarrow> SumCheckProver" where
  "roundO_update_vals st bitPos r =
     (let num_effective = 2 ^ (in_logSize st - bitPos)
      in st\<lparr>vals := fold (\<lambda>i vss. fold (\<lambda>b vss. vss[b := vals_slot (scprime st) r i (vss ! b)])
                               [0..<batchSize st] vss) [0..<num_effective div 2] (vals st)\<rparr>)"

definition doRoundO ::
  "SumCheckProver \<Rightarrow> mpz_vec \<Rightarrow> nat \<Rightarrow> mpz \<Rightarrow> bool \<Rightarrow> SumCheckProver \<times> mpz_vec" where
  "doRoundO st roundPoly bitPos r onO1 =
     (let st = (if bitPos = 0
                then st\<lparr>vals := map (\<lambda>b. init_vals_array (vals st ! b) (inVals st ! b)) [0..<batchSize st]\<rparr>
                else st);
          (st, roundPoly) = fold (roundO_gate bitPos r onO1) [0..<out_size st] (st, roundPoly);
          roundPoly = roundO_mult_betar st roundPoly
      in (roundO_update_vals st bitPos r, roundPoly))"

section \<open>One round and the answer to a request\<close>

definition infer_point0 :: "SumCheckProver \<Rightarrow> mpz_vec \<Rightarrow> mpz_vec" where
  "infer_point0 st roundPoly =
     fold (\<lambda>b roundPoly. roundPoly[b * polySize :=
              modsub (expected st ! b) (roundPoly ! (b * polySize + 1)) (scprime st)])
       [0..<batchSize st] roundPoly"

definition doRound ::
  "(mpz \<Rightarrow> mpz \<Rightarrow> mpz) \<Rightarrow> SumCheckProver \<Rightarrow> mpz_vec \<Rightarrow> nat \<Rightarrow> mpz \<Rightarrow> SumCheckProver \<times> mpz_vec" where
  "doRound mpz_invert st roundPoly rnd r =
     (let roundPoly = map (\<lambda>_. 0) roundPoly;
          mi = out_logSize st; mip1 = in_logSize st
      in if rnd > mi + 2 * mip1 then (st, roundPoly)
         else
           let st = (if rnd = 0 then (computeBetaZAll st)\<lparr>partialBetar := 1\<rparr> else st);
               st = (if rnd = mi + mip1 then st\<lparr>V1s := map (\<lambda>b. vals st ! b ! 0) [0..<batchSize st]\<rparr> else st);
               (st, roundPoly) =
                 (if rnd < mi then doRoundP mpz_invert st roundPoly rnd (zvec st ! rnd) r
                  else if rnd < mi + mip1 then doRoundO st roundPoly (rnd - mi) r True
                  else doRoundO st roundPoly (rnd - mi - mip1) r False)
           in (st, infer_point0 st roundPoly))"

text \<open>What \<^verbatim>\<open>run\<close> does with a \<^verbatim>\<open>REQ_SC_POLY\<close> within range: one round, then the expected values of the next.\<close>

definition answer_poly ::
  "(mpz \<Rightarrow> mpz \<Rightarrow> mpz) \<Rightarrow> SumCheckProver \<Rightarrow> mpz_vec \<Rightarrow> nat \<Rightarrow> mpz \<Rightarrow> SumCheckProver \<times> mpz_vec" where
  "answer_poly mpz_invert st poly rnd r =
     (let (st, poly) = doRound mpz_invert st poly rnd r
      in (st\<lparr>expected := map (\<lambda>b. extrap mpz_invert (drop (b * polySize) poly) polySize r (scprime st))
                           [0..<batchSize st]\<rparr>,
          poly))"

definition answer_Vs :: "SumCheckProver \<Rightarrow> mpz_vec" where
  "answer_Vs st = concat (map (\<lambda>b. [V1s st ! b, vals st ! b ! 0]) [0..<batchSize st])"

definition start_run :: "SumCheckProver \<Rightarrow> mpz_vec \<Rightarrow> SumCheckProver" where
  "start_run st trueSum = st\<lparr>expected := trueSum, addormultr := init_vec_si (addormultr st) 1\<rparr>"

section \<open>The message loop\<close>

text \<open>The loop of \<^verbatim>\<open>run\<close> between two messages: its locals and, once it has left the loop, what it returns.
  \<open>sc_handle\<close> is one pass through the loop's body.\<close>

record SCRun =
  run_st :: SumCheckProver
  run_poly :: mpz_vec
  run_round :: nat
  run_rand :: mpz_vec
  run_ret :: "bool option"

definition begin_run :: "SumCheckProver \<Rightarrow> mpz_vec \<Rightarrow> SCRun" where
  "begin_run st trueSum =
     \<lparr>run_st = start_run st trueSum, run_poly = replicate (polySize * batchSize st) 0, run_round = 0,
      run_rand = replicate (numRounds st) 0, run_ret = None\<rparr>"

definition sc_handle :: "(mpz \<Rightarrow> mpz \<Rightarrow> mpz) \<Rightarrow> cmt_msg \<Rightarrow> SCRun \<Rightarrow> SCRun \<times> mpz_vec option" where
  "sc_handle mpz_invert request run =
     (let rnd = run_round run; st = run_st run
      in if run_ret run \<noteq> None then (run, None)
         else case request of
           END_LAYER \<Rightarrow> (run\<lparr>run_ret := Some (rnd \<ge> numRounds st)\<rparr>, None)
         | REQ_SC_POLY r \<Rightarrow>
             if rnd \<ge> numRounds st then (run\<lparr>run_round := rnd + 1\<rparr>, None)
             else let (st, poly) = answer_poly mpz_invert st (run_poly run) rnd r
                  in (run\<lparr>run_st := st, run_poly := poly, run_rand := (run_rand run)[rnd := r], run_round := rnd + 1\<rparr>,
                      Some poly)
         | REQ_VS \<Rightarrow> (run\<lparr>run_ret := Some (rnd \<ge> numRounds st)\<rparr>, Some (answer_Vs st))
         | _ \<Rightarrow> (run, None))"

end
