(* ===== verification/Circuit_Prover.thy ===== *)
theory Circuit_Prover
  imports Cmt_Circuit Sumcheck_Prover
begin

text \<open>
  The prover of the whole protocol, \<^verbatim>\<open>base/cmt_circuit_prover.cpp\<close>. Its three nested message loops
  (\<^verbatim>\<open>run\<close>, \<^verbatim>\<open>CMTSumCheckProver::run\<close>, \<^verbatim>\<open>doMiniIP\<close>) become one handler whose mode says which loop is
  waiting. \<open>cls\<close> is the circuit's class and \<open>build\<close> what the builder returns. \<open>Aborted\<close> is a failed
  \<^verbatim>\<open>assert\<close> or a reference into an empty batch.
\<close>

section \<open>State\<close>

datatype pmode =
    AtTop
  | InSumCheck nat SCRun
  | InMiniIP nat mpz_vec mpz_vec
  | Exited
  | Aborted

record CircuitProver =
  pconf :: CMTProverConfig
  batch :: "CMTCircuit list"
  zi :: mpz_vec
  ri :: mpz_vec
  pmode :: pmode

datatype reply = NoReply | ZReply mpz_vec | QReplies "rat list" "rat list"

definition new_CircuitProver :: CircuitProver where
  "new_CircuitProver =
     \<lparr>pconf = \<lparr>startInstance = 0, endInstance = 1\<rparr>, batch = [], zi = [], ri = [], pmode = AtTop\<rparr>"

definition cp_batchSize :: "CircuitProver \<Rightarrow> nat" where
  "cp_batchSize s = pbatchSize (pconf s)"

definition level_zs :: "CMTCircuit \<Rightarrow> nat \<Rightarrow> mpz_vec" where
  "level_zs c lvl = zData (circ c) ! lvl"

definition level :: "CMTCircuit \<Rightarrow> nat \<Rightarrow> CircuitLayer" where
  "level c lvl = layers (circ c) ! lvl"

definition maxSumCheckRounds :: "CMTCircuit \<Rightarrow> nat" where
  "maxSumCheckRounds c =
     fold (\<lambda>i m. max m (logSize (level c i) + 2 * logSize (level c (i + 1)))) [0..<depth (circ c) - 1] 0"

section \<open>Handlers of the outer loop\<close>

definition initProtocol :: "CMTCircuit \<Rightarrow> mpz \<Rightarrow> CircuitProver \<Rightarrow> CircuitProver" where
  "initProtocol build prime s =
     (let n = cp_batchSize s;
          b = replicate n (build\<lparr>circ := (circ build)\<lparr>cprime := prime\<rparr>\<rparr>)
      in if n = 0 then s\<lparr>batch := b, pmode := Aborted\<rparr>
         else s\<lparr>batch := b, zi := new_vec (maxSumCheckRounds (b ! 0)), ri := new_vec n\<rparr>)"

definition init_batch ::
  "circuit_class \<Rightarrow> rat list \<Rightarrow> nat \<Rightarrow> CMTCircuit list \<Rightarrow> CMTCircuit list option" where
  "init_batch cls vec inSize b =
     map_option snd (fold (\<lambda>i r. Option.bind r (\<lambda>(inner, b).
        Option.bind (vec_copy inner vec (i * length inner) (length inner) 0) (\<lambda>inner.
          map_option (\<lambda>c. (inner, b[i := c])) (cls_initializeInputs cls (b ! i) inner []))))
       [0..<length b] (Some (new_qvec inSize, b)))"

definition eval_batch :: "circuit_class \<Rightarrow> CMTCircuit list \<Rightarrow> CMTCircuit list option" where
  "eval_batch cls b =
     fold (\<lambda>i r. Option.bind r (\<lambda>b. map_option (\<lambda>c. b[i := c]) (cls_evaluate cls (b ! i)))) [0..<length b] (Some b)"

text \<open>\<^verbatim>\<open>inner\<close> is shared by the instances: where a gate is null it keeps what the previous one left.\<close>

definition collect ::
  "(CMTCircuit \<Rightarrow> rat list \<Rightarrow> rat list option) \<Rightarrow> nat \<Rightarrow> CMTCircuit list \<Rightarrow> rat list option" where
  "collect get n b =
     map_option snd
       (fold (\<lambda>i r. Option.bind r (\<lambda>(inner, vec).
          Option.bind (get (b ! i) inner) (\<lambda>inner.
            map_option (\<lambda>vec. (inner, vec)) (vec_copy vec inner 0 (length inner) (i * length inner)))))
         [0..<length b] (Some (new_qvec n, new_qvec (n * length b))))"

definition answer_outputs :: "circuit_class \<Rightarrow> rat list \<Rightarrow> CircuitProver \<Rightarrow> CircuitProver \<times> reply" where
  "answer_outputs cls data s =
     (let abort = (s\<lparr>pmode := Aborted\<rparr>, NoReply); c = batch s ! 0; n = getInputSize c * cp_batchSize s
      in if batch s = [] then abort
         else let vec = getDataAsVector (new_qvec n) 0 n data
         in case Option.bind (init_batch cls vec (getInputSize c) (batch s)) (eval_batch cls) of None \<Rightarrow> abort
            | Some b \<Rightarrow>
                (case (collect getOutputs (getOutputSize c) b, collect getMagics (getMagicSize c) b) of
                   (Some outs, Some mags) \<Rightarrow> (s\<lparr>batch := b\<rparr>, QReplies outs mags)
                 | _ \<Rightarrow> abort))"

definition notify_z0 :: "mpz_vec \<Rightarrow> CircuitProver \<Rightarrow> CircuitProver" where
  "notify_z0 data s =
     (if batch s = [] then s\<lparr>pmode := Aborted\<rparr>
      else let z = getDataAsVector (zi s) 0 (logSize (level (batch s ! 0) 0)) data
           in s\<lparr>zi := z,
                ri := map (\<lambda>b. evaluate_V_i (level_zs (batch s ! b) 0) z (cprime (circ (batch s ! b))))
                        [0..<cp_batchSize s]\<rparr>)"

definition begin_layer :: "nat \<Rightarrow> CircuitProver \<Rightarrow> CircuitProver" where
  "begin_layer lvl s =
     (if batch s = [] then s\<lparr>pmode := Aborted\<rparr>
      else let c = batch s ! 0
           in if lvl + 1 \<ge> depth (circ c) then s
              else s\<lparr>pmode := InSumCheck lvl (begin_run
                     (new_SumCheckProver (gates (level c lvl)) (map (\<lambda>c. level_zs c (lvl + 1)) (batch s))
                        (map (\<lambda>c. level_zs c lvl) (batch s)) (zi s) (cprime (circ c)))
                     (ri s))\<rparr>)"

section \<open>The mini-IP\<close>

definition line_point :: "(mpz \<Rightarrow> mpz \<Rightarrow> mpz) \<Rightarrow> mpz_vec \<Rightarrow> nat \<Rightarrow> nat \<Rightarrow> mpz \<Rightarrow> nat \<Rightarrow> mpz_vec" where
  "line_point mpz_invert rnd mi mip1 prime i =
     map (\<lambda>j. extrap_ui mpz_invert [rnd ! (mi + j), rnd ! (mi + mip1 + j)] 2 i prime) [0..<mip1]"

definition compute_lpoly :: "(mpz \<Rightarrow> mpz \<Rightarrow> mpz) \<Rightarrow> nat \<Rightarrow> mpz_vec \<Rightarrow> mpz_vec \<Rightarrow> CircuitProver \<Rightarrow> mpz_vec" where
  "compute_lpoly mpz_invert lvl rnd lpoly s =
     (let c = batch s ! 0; mi = logSize (level c lvl); mip1 = logSize (level c (lvl + 1)); lpolySize = mip1 + 1
      in fold (\<lambda>i lpoly.
           let point = line_point mpz_invert rnd mi mip1 (cprime (circ c)) i
           in fold (\<lambda>b lpoly. lpoly[b * lpolySize + i :=
                  evaluate_V_i (level_zs (batch s ! b) (lvl + 1)) point (cprime (circ (batch s ! b)))])
                [0..<cp_batchSize s] lpoly) [0..<lpolySize] lpoly)"

definition notify_extrap :: "(mpz \<Rightarrow> mpz \<Rightarrow> mpz) \<Rightarrow> nat \<Rightarrow> mpz_vec \<Rightarrow> mpz_vec \<Rightarrow> mpz \<Rightarrow> CircuitProver \<Rightarrow> CircuitProver" where
  "notify_extrap mpz_invert lvl rnd lpoly r s =
     (let c = batch s ! 0; p = cprime (circ c);
          mi = logSize (level c lvl); mip1 = logSize (level c (lvl + 1)); lpolySize = mip1 + 1
      in s\<lparr>zi := fold (\<lambda>i z. z[i := extrap mpz_invert [rnd ! (mi + i), rnd ! (mi + mip1 + i)] 2 r p]) [0..<mip1] (zi s),
           ri := map (\<lambda>b. extrap mpz_invert (drop (b * lpolySize) lpoly) lpolySize r p) [0..<cp_batchSize s],
           pmode := AtTop\<rparr>)"

definition handle_miniIP ::
  "(mpz \<Rightarrow> mpz \<Rightarrow> mpz) \<Rightarrow> nat \<Rightarrow> mpz_vec \<Rightarrow> mpz_vec \<Rightarrow> cmt_msg \<Rightarrow> CircuitProver \<Rightarrow> CircuitProver \<times> reply" where
  "handle_miniIP mpz_invert lvl rnd lpoly msg s =
     (case msg of
        END_LAYER \<Rightarrow> (s\<lparr>pmode := Exited\<rparr>, NoReply)
      | REQ_LPOLY \<Rightarrow>
          let lpoly = compute_lpoly mpz_invert lvl rnd lpoly s
          in (s\<lparr>pmode := InMiniIP lvl rnd lpoly\<rparr>, ZReply lpoly)
      | NOTIFY_LPOLY_EXTRAP_PT r \<Rightarrow> (notify_extrap mpz_invert lvl rnd lpoly r s, NoReply)
      | _ \<Rightarrow> (s, NoReply))"

section \<open>The handler\<close>

definition handle_sumcheck ::
  "(mpz \<Rightarrow> mpz \<Rightarrow> mpz) \<Rightarrow> nat \<Rightarrow> SCRun \<Rightarrow> cmt_msg \<Rightarrow> CircuitProver \<Rightarrow> CircuitProver \<times> reply" where
  "handle_sumcheck mpz_invert lvl run msg s =
     (let (run, rep) = sc_handle mpz_invert msg run;
          r = (case rep of None \<Rightarrow> NoReply | Some v \<Rightarrow> ZReply v)
      in case run_ret run of
           None \<Rightarrow> (s\<lparr>pmode := InSumCheck lvl run\<rparr>, r)
         | Some False \<Rightarrow> (s\<lparr>pmode := Exited\<rparr>, r)
         | Some True \<Rightarrow>
             (s\<lparr>pmode := InMiniIP lvl (run_rand run)
                 (new_vec ((logSize (level (batch s ! 0) (lvl + 1)) + 1) * cp_batchSize s))\<rparr>, r))"

definition handle_top ::
  "circuit_class \<Rightarrow> CMTCircuit \<Rightarrow> cmt_msg \<Rightarrow> CircuitProver \<Rightarrow> CircuitProver \<times> reply" where
  "handle_top cls build msg s =
     (case msg of
        END_CMT \<Rightarrow> (s\<lparr>pmode := Exited\<rparr>, NoReply)
      | CONFIGURE a b \<Rightarrow> (s\<lparr>pconf := \<lparr>startInstance = a, endInstance = b\<rparr>\<rparr>, NoReply)
      | BEGIN_CMT prime \<Rightarrow> (initProtocol build prime s, NoReply)
      | REQ_OUTPUTS data \<Rightarrow> answer_outputs cls data s
      | NOTIFY_Z0 data \<Rightarrow> (notify_z0 data s, NoReply)
      | BEGIN_LAYER lvl \<Rightarrow> (begin_layer lvl s, NoReply)
      | _ \<Rightarrow> (s, NoReply))"

definition cp_handle ::
  "(mpz \<Rightarrow> mpz \<Rightarrow> mpz) \<Rightarrow> circuit_class \<Rightarrow> CMTCircuit \<Rightarrow> cmt_msg \<Rightarrow> CircuitProver \<Rightarrow> CircuitProver \<times> reply" where
  "cp_handle mpz_invert cls build msg s =
     (case pmode s of
        AtTop \<Rightarrow> handle_top cls build msg s
      | InSumCheck lvl run \<Rightarrow> handle_sumcheck mpz_invert lvl run msg s
      | InMiniIP lvl rnd lpoly \<Rightarrow> handle_miniIP mpz_invert lvl rnd lpoly msg s
      | Exited \<Rightarrow> (s, NoReply)
      | Aborted \<Rightarrow> (s, NoReply))"

end
