(* ===== verification/Sumcheck_Rounds.thy ===== *)
theory Sumcheck_Rounds
  imports Sumcheck_Prover
begin

text \<open>
  What one round of the prover computes. Every round polynomial has the shape
  \<open>\<Sum>g. A g * sel (bt g) t * (u g + w g * t)\<close>: \<open>A g\<close> is the weight gate \<open>g\<close> has gathered, \<open>bt g\<close> the bit
  of its label the round is about, and the last factor its value with that variable set to \<open>t\<close>.
\<close>

section \<open>Round polynomials\<close>

definition round_poly ::
  "nat \<Rightarrow> (nat \<Rightarrow> int) \<Rightarrow> (nat \<Rightarrow> bool) \<Rightarrow> (nat \<Rightarrow> int \<Rightarrow> int) \<Rightarrow> int \<Rightarrow> int" where
  "round_poly n A bt h t = (\<Sum>g < n. A g * sel (bt g) t * h g t)"

definition linear_fn :: "(int \<Rightarrow> int) \<Rightarrow> bool" where
  "linear_fn h \<longleftrightarrow> (\<exists>u w. \<forall>t. h t = u + w * t)"

lemma polyfn_round_poly:
  assumes "\<And>g. g < n \<Longrightarrow> linear_fn (h g)"
  shows "polyfn p 3 (round_poly n A bt h)"
proof -
  have "polyfn p 3 (\<lambda>t. A g * sel (bt g) t * h g t)" if g: "g < n" for g
  proof -
    obtain u w where h: "\<And>t. h g t = u + w * t" using assms [OF g] by (auto simp: linear_fn_def)
    define a b where "a = (if bt g then 0 else A g)" and "b = (if bt g then A g else - A g)"
    have "polyfn p (Suc (Suc 1)) (\<lambda>t. (a + b * t) * ((u + w * t) * 1))"
      by (intro polyfn_intros) simp
    moreover have "A g * sel (bt g) t * h g t = (a + b * t) * ((u + w * t) * 1)" for t
      by (simp add: h a_def b_def sel_def algebra_simps)
    ultimately show ?thesis by (simp add: numeral_3_eq_3)
  qed
  then show ?thesis unfolding round_poly_def by (intro polyfn_intros) auto
qed

lemma round_poly_01:
  "round_poly n A bt h 0 + round_poly n A bt h 1 = (\<Sum>g < n. A g * h g (of_bool (bt g)))"
  unfolding round_poly_def sum.distrib [symmetric] by (intro sum.cong) (auto simp: sel_def)

section \<open>Gate operations modulo the prime\<close>

definition gate_op :: "GateWiring \<Rightarrow> int \<Rightarrow> int \<Rightarrow> int" where
  "gate_op g a b = (if gtype g = ADD then a + b else a * b)"

lemma modIfNeeded_mod [simp]: "fst (modIfNeeded v p k) mod p = v mod p"
  by (simp add: modIfNeeded_def)

lemma applyGateOperation_mod: "applyGateOperation g a b p mod p = gate_op g a b mod p"
  by (simp add: applyGateOperation_def gate_op_def Let_def)

lemma gate_op_mod_cong:
  "a mod p = a' mod p \<Longrightarrow> b mod p = b' mod p \<Longrightarrow> gate_op g a b mod p = gate_op g a' b' mod p"
  by (auto simp: gate_op_def intro: mod_add_cong mod_mult_cong)

lemma linear_gate_op:
  assumes "linear_fn h"
  shows "linear_fn (\<lambda>t. gate_op g (h t) c)" "linear_fn (\<lambda>t. gate_op g c (h t))"
proof -
  obtain u w where h: "\<And>t. h t = u + w * t" using assms by (auto simp: linear_fn_def)
  let ?u = "gate_op g u c" and ?w = "if gtype g = ADD then w else w * c"
  show "linear_fn (\<lambda>t. gate_op g (h t) c)" "linear_fn (\<lambda>t. gate_op g c (h t))"
    unfolding linear_fn_def
    by (rule exI [of _ ?u], rule exI [of _ ?w], simp add: gate_op_def h algebra_simps)+
qed

lemma linear_fn_line: "linear_fn (\<lambda>t. (1 - t) * a + t * b)"
  unfolding linear_fn_def by (rule exI [of _ a], rule exI [of _ "b - a"]) (simp add: algebra_simps)

lemma linear_fn_scale: "linear_fn h \<Longrightarrow> linear_fn (\<lambda>t. c * h t)"
  unfolding linear_fn_def by (metis (no_types, opaque_lifting) distrib_left mult.assoc)

lemma mulmle2_si_eq: "mulmle2_si a m bt p = a * sel bt m mod p"
  by (simp add: mulmle2_si_def modmult_si_def sel_def)

lemma mulmle2_eq: "mulmle2 a r bt p = a * sel bt r mod p"
  by (simp add: mulmle2_def mod_ops sel_def)

section \<open>Rounds over input labels\<close>

text \<open>The value of gate \<open>g\<close> in instance \<open>b\<close> when the round's variable is \<open>t\<close>.\<close>

definition O_idx :: "bool \<Rightarrow> SumCheckProver \<Rightarrow> nat \<Rightarrow> nat" where
  "O_idx onO1 st g = (if onO1 then in1 (wires st ! g) else in2 (wires st ! g))"

definition O_line :: "bool \<Rightarrow> SumCheckProver \<Rightarrow> nat \<Rightarrow> nat \<Rightarrow> nat \<Rightarrow> int \<Rightarrow> int" where
  "O_line onO1 st bitPos b g t =
     (let base = 2 * (O_idx onO1 st g div 2 ^ bitPos div 2)
      in (1 - t) * vals st ! b ! base + t * vals st ! b ! (base + 1))"

definition O_term :: "bool \<Rightarrow> SumCheckProver \<Rightarrow> nat \<Rightarrow> nat \<Rightarrow> nat \<Rightarrow> int \<Rightarrow> int" where
  "O_term onO1 st bitPos b g t =
     (if onO1 then gate_op (wires st ! g) (O_line onO1 st bitPos b g t) (inVals st ! b ! in2 (wires st ! g))
      else gate_op (wires st ! g) (V1s st ! b) (O_line onO1 st bitPos b g t))"

lemma linear_O_term: "linear_fn (O_term onO1 st bitPos b g)"
proof -
  have "linear_fn (O_line onO1 st bitPos b g)"
    unfolding O_line_def [abs_def] Let_def by (rule linear_fn_line)
  then show ?thesis unfolding O_term_def [abs_def] by (cases onO1) (simp_all add: linear_gate_op)
qed

text \<open>What the scratch-writing loops keep of the state.\<close>

definition O_frame :: "bool \<Rightarrow> SumCheckProver \<Rightarrow> SumCheckProver \<Rightarrow> bool" where
  "O_frame onO1 st st' \<longleftrightarrow>
     wires st' = wires st \<and> inVals st' = inVals st \<and> outVals st' = outVals st \<and> zvec st' = zvec st \<and>
     scprime st' = scprime st \<and> expected st' = expected st \<and> vals st' = vals st \<and>
     betar st' = betar st \<and> partialBetar st' = partialBetar st \<and>
     length (V1s st') = length (V1s st) \<and> (\<not> onO1 \<longrightarrow> V1s st' = V1s st)"

lemma O_frame_refl [simp]: "O_frame onO1 st st"
  by (simp add: O_frame_def)

lemma O_frame_trans: "O_frame onO1 st st' \<Longrightarrow> O_frame onO1 st' st'' \<Longrightarrow> O_frame onO1 st st''"
  by (simp add: O_frame_def)

lemma O_frame_fields:
  assumes "O_frame onO1 st st'"
  shows "wires st' = wires st" "inVals st' = inVals st" "outVals st' = outVals st" "zvec st' = zvec st"
    "scprime st' = scprime st" "expected st' = expected st" "vals st' = vals st" "betar st' = betar st"
    "partialBetar st' = partialBetar st" "batchSize st' = batchSize st" "out_size st' = out_size st"
    "in_size st' = in_size st" "in_logSize st' = in_logSize st" "out_logSize st' = out_logSize st"
  using assms
  by (auto simp: O_frame_def batchSize_def out_size_def in_size_def in_logSize_def out_logSize_def)

lemma slot_neq: "m < 3 \<Longrightarrow> m' < 3 \<Longrightarrow> (b * 3 + m = b' * 3 + m') = (b = b' \<and> m = (m' :: nat))"
proof
  assume m: "m < 3" "m' < 3" and eq: "b * 3 + m = b' * 3 + m'"
  have "(b * 3 + m) mod 3 = (b' * 3 + m') mod 3" using eq by simp
  then have "m = m'" using m by simp
  with eq show "b = b' \<and> m = m'" by simp
qed auto

lemma slot_less: "b < B \<Longrightarrow> m < 3 \<Longrightarrow> b * 3 + m < B * (3 :: nat)"
  by linarith

section \<open>One gate of a round over input labels\<close>

text \<open>The operands of gate \<open>g\<close> in instance \<open>b\<close> when the round's variable carries the value \<open>x\<close>.\<close>

definition O_apply :: "bool \<Rightarrow> SumCheckProver \<Rightarrow> GateWiring \<Rightarrow> nat \<Rightarrow> int \<Rightarrow> int" where
  "O_apply onO1 st g b x =
     (if onO1 then gate_op g x (inVals st ! b ! in2 g) else gate_op g (V1s st ! b) x)"

lemma O_apply_mod_cong: "x mod p = y mod p \<Longrightarrow> O_apply onO1 st g b x mod p = O_apply onO1 st g b y mod p"
  unfolding O_apply_def by (auto intro: gate_op_mod_cong)

lemma O_frame_apply: "O_frame onO1 st st' \<Longrightarrow> O_apply onO1 st' g b x = O_apply onO1 st g b x"
  by (auto simp: O_frame_def O_apply_def)

lemma O_term_apply: "O_term onO1 st bitPos b g t = O_apply onO1 st (wires st ! g) b (O_line onO1 st bitPos b g t)"
  by (simp add: O_term_def O_apply_def)

lemma fold_accum:
  assumes V: "length (V1s st) = B" and len: "length poly = B * 3" and m: "m < 3" and p: "scprime st = p"
    and res: "fold (roundO_accum onO1 g m v c) [0..<B] (st, poly) = (st', poly')"
  shows "O_frame onO1 st st' \<and> addormultr st' = addormultr st \<and> length poly' = B * 3 \<and>
    (\<forall>b k. b < B \<longrightarrow> k < 3 \<longrightarrow> poly' ! (b * 3 + k) mod p =
       (poly ! (b * 3 + k) + (if k = m then O_apply onO1 st g b (v b) * c else 0)) mod p)"
proof -
  define P where "P = (\<lambda>i s. O_frame onO1 st (fst s) \<and> addormultr (fst s) = addormultr st \<and>
    length (snd s) = B * 3 \<and>
    (\<forall>b k. b < B \<longrightarrow> k < 3 \<longrightarrow> snd s ! (b * 3 + k) mod p =
       (poly ! (b * 3 + k) + (if k = m \<and> b < i then O_apply onO1 st g b (v b) * c else 0)) mod p))"
  have "P B (fold (roundO_accum onO1 g m v c) [0..<B] (st, poly))"
  proof (rule fold_range_inv)
    show "P 0 (st, poly)" using len by (simp add: P_def)
  next
    fix i s assume i: "i < B" and Ps: "P i s"
    obtain s1 q where s: "s = (s1, q)" by fastforce
    have fr: "O_frame onO1 st s1" and lq: "length q = B * 3" and ad: "addormultr s1 = addormultr st"
      and q: "\<And>b k. b < B \<Longrightarrow> k < 3 \<Longrightarrow> q ! (b * 3 + k) mod p =
       (poly ! (b * 3 + k) + (if k = m \<and> b < i then O_apply onO1 st g b (v b) * c else 0)) mod p"
      using Ps by (auto simp: P_def s)
    let ?s2 = "if onO1 then s1\<lparr>V1s := (V1s s1)[i := v i]\<rparr> else s1\<lparr>V2 := v i\<rparr>"
    let ?x = "applyGateOperation g (V1s ?s2 ! i) (if onO1 then inVals ?s2 ! i ! in2 g else V2 ?s2) p"
    have step: "roundO_accum onO1 g m v c i s = (?s2, q[i * 3 + m := q ! (i * 3 + m) + ?x * c])"
      using fr p by (auto simp: roundO_accum_def Let_def s polySize_def O_frame_def)
    have fr2: "O_frame onO1 st ?s2" using fr by (auto simp: O_frame_def)
    have x: "?x mod p = O_apply onO1 st g i (v i) mod p"
      using fr V i by (auto simp: applyGateOperation_mod O_apply_def O_frame_def)
    have "q[i * 3 + m := q ! (i * 3 + m) + ?x * c] ! (b * 3 + k) mod p =
       (poly ! (b * 3 + k) + (if k = m \<and> b < Suc i then O_apply onO1 st g b (v b) * c else 0)) mod p"
      if "b < B" "k < 3" for b k
    proof (cases "b = i \<and> k = m")
      case True
      have "(q ! (i * 3 + m) + ?x * c) mod p = (poly ! (i * 3 + m) + O_apply onO1 st g i (v i) * c) mod p"
        using q [of i m] i m x by (intro mod_add_cong mod_mult_cong) auto
      with True lq i m show ?thesis using slot_less [of i B m] by simp
    next
      case False
      then have "i * 3 + m \<noteq> b * 3 + k" using slot_neq [of m k i b] m that by auto
      with q [OF that] False show ?thesis by (auto simp: less_Suc_eq)
    qed
    then show "P (Suc i) (roundO_accum onO1 g m v c i s)"
      using fr2 lq ad unfolding step P_def by auto
  qed simp
  then show ?thesis unfolding res by (simp add: P_def)
qed

abbreviation O_bit :: "bool \<Rightarrow> SumCheckProver \<Rightarrow> nat \<Rightarrow> nat \<Rightarrow> bool" where
  "O_bit onO1 st bitPos g \<equiv> bit_at (O_idx onO1 st g) bitPos"

lemma mle_si_2_mod: "mle_si 2 a b p mod p = ((1 - 2) * a + 2 * b) mod p"
  by (simp add: mle_si_eq)

lemma O_line_1: "O_line onO1 st bitPos b g 1 = vals st ! b ! (2 * (O_idx onO1 st g div 2 ^ bitPos div 2) + 1)"
  by (simp add: O_line_def Let_def)

lemma upt_2_polySize: "[2..<polySize] = [2]"
  by (simp add: polySize_def upt_rec)

lemma upt_1_3: "[1..<3] = [1, 2 :: nat]"
  by (simp add: upt_rec)

definition O_slots :: "bool \<Rightarrow> SumCheckProver \<Rightarrow> nat \<Rightarrow> mpz_vec \<Rightarrow> nat \<Rightarrow> mpz_vec \<Rightarrow> bool" where
  "O_slots onO1 st bitPos poly i poly' \<longleftrightarrow>
     length poly' = batchSize st * 3 \<and>
     (\<forall>b k. b < batchSize st \<longrightarrow> 0 < k \<longrightarrow> k < 3 \<longrightarrow> poly' ! (b * 3 + k) mod scprime st =
        (poly ! (b * 3 + k) +
         round_poly i (\<lambda>g. addormultr st ! g) (O_bit onO1 st bitPos) (O_term onO1 st bitPos b) (int k))
          mod scprime st)"

lemma roundO_gate_step:
  fixes st :: SumCheckProver
  defines "B \<equiv> batchSize st" and "p \<equiv> scprime st"
  assumes V: "length (V1s st) = B" and len: "length poly = B * 3"
    and res: "roundO_gate bitPos r onO1 g (st, poly) = (st', poly')"
  shows "O_frame onO1 st st' \<and>
    addormultr st' = (addormultr st)[g := addormultr st ! g * sel (O_bit onO1 st bitPos g) r mod p] \<and>
    length poly' = B * 3 \<and>
    (\<forall>b k. b < B \<longrightarrow> 0 < k \<longrightarrow> k < 3 \<longrightarrow> poly' ! (b * 3 + k) mod p =
       (poly ! (b * 3 + k) + addormultr st ! g * sel (O_bit onO1 st bitPos g) (int k) *
          O_term onO1 st bitPos b g (int k)) mod p)"
proof -
  let ?w = "wires st ! g" and ?bt = "O_bit onO1 st bitPos g" and ?a = "addormultr st ! g"
  let ?base = "2 * (O_idx onO1 st g div 2 ^ bitPos div 2)"
  let ?v1 = "\<lambda>b. vals st ! b ! (?base + 1)" and ?v2 = "\<lambda>b. mle_si 2 (vals st ! b ! ?base) (vals st ! b ! (?base + 1)) p"
  obtain s1 q1 where s1: "(if ?bt then fold (roundO_accum onO1 ?w 1 ?v1 ?a) [0..<B] (st, poly) else (st, poly)) = (s1, q1)"
    by fastforce
  have F1: "O_frame onO1 st s1 \<and> addormultr s1 = addormultr st \<and> length q1 = B * 3 \<and>
    (\<forall>b k. b < B \<longrightarrow> k < 3 \<longrightarrow> q1 ! (b * 3 + k) mod p =
       (poly ! (b * 3 + k) + (if k = 1 then sel ?bt 1 * ?a * O_apply onO1 st ?w b (?v1 b) else 0)) mod p)"
  proof (cases ?bt)
    case True
    with fold_accum [OF V len, of 1 p onO1 ?w ?v1 ?a s1 q1] s1 show ?thesis
      by (simp add: p_def sel_def mult.commute cong: if_cong)
  next
    case False
    with s1 len show ?thesis by (auto simp: sel_def)
  qed
  have B1: "batchSize s1 = B" "scprime s1 = p" "length (V1s s1) = B"
    using F1 V by (auto simp: O_frame_def batchSize_def B_def p_def)
  let ?c = "mulmle2_si ?a 2 ?bt p"
  obtain s2 q2 where s2: "fold (roundO_accum onO1 ?w 2 ?v2 ?c) [0..<B] (s1, q1) = (s2, q2)" by fastforce
  have F2: "O_frame onO1 s1 s2 \<and> addormultr s2 = addormultr s1 \<and> length q2 = B * 3 \<and>
    (\<forall>b k. b < B \<longrightarrow> k < 3 \<longrightarrow> q2 ! (b * 3 + k) mod p =
       (q1 ! (b * 3 + k) + (if k = 2 then O_apply onO1 s1 ?w b (?v2 b) * ?c else 0)) mod p)"
    using fold_accum [OF B1(3) _ _ B1(2) s2] F1 by simp
  have out: "st' = s2\<lparr>addormultr := (addormultr s2)[g := mulmle2 (addormultr s2 ! g) r ?bt p]\<rparr>" "poly' = q2"
    using res s1 s2 F1 B1 unfolding roundO_gate_def upt_2_polySize Let_def
    by (simp_all add: O_idx_def B_def p_def cong: if_cong)
  have fr: "O_frame onO1 st s2" using F1 F2 O_frame_trans by blast
  have slot: "q2 ! (b * 3 + k) mod p = (poly ! (b * 3 + k) + ?a * sel ?bt (int k) * O_term onO1 st bitPos b g (int k)) mod p"
    if b: "b < B" and k: "0 < k" and k3: "k < 3" for b k
  proof -
    note q1 = F1 [THEN conjunct2, THEN conjunct2, THEN conjunct2, rule_format, OF b k3]
    note q2 = F2 [THEN conjunct2, THEN conjunct2, THEN conjunct2, rule_format, OF b k3]
    show ?thesis
    proof (cases "k = 1")
      case True
      with q1 q2 show ?thesis by (simp add: O_term_apply O_line_1 mult_ac)
    next
      case False
      with k k3 have k2: "k = 2" by simp
      have "O_apply onO1 s1 ?w b (?v2 b) mod p = O_term onO1 st bitPos b g 2 mod p"
        unfolding O_term_apply using F1 O_frame_apply O_apply_mod_cong
        by (metis (no_types, lifting) O_line_def mle_si_2_mod)
      then have "(q1 ! (b * 3 + 2) + O_apply onO1 s1 ?w b (?v2 b) * ?c) mod p =
          (poly ! (b * 3 + 2) + O_term onO1 st bitPos b g 2 * (?a * sel ?bt 2)) mod p"
        using q1 k2 by (intro mod_add_cong mod_mult_cong) (auto simp: mulmle2_si_eq)
      with q2 k2 show ?thesis by (simp add: mult_ac)
    qed
  qed
  have "addormultr st' = (addormultr st)[g := ?a * sel ?bt r mod p]"
    using out(1) F1 F2 by (simp add: mulmle2_eq)
  moreover have "O_frame onO1 st st'" using fr out(1) by (simp add: O_frame_def)
  ultimately show ?thesis using slot F2 out(2) by simp
qed

lemma O_frame_idx: "O_frame onO1 st st' \<Longrightarrow> O_idx onO1 st' g = O_idx onO1 st g"
  by (simp add: O_idx_def O_frame_def)

lemma O_frame_term: "O_frame onO1 st st' \<Longrightarrow> O_term onO1 st' bitPos b g t = O_term onO1 st bitPos b g t"
  by (auto simp: O_term_def O_line_def O_idx_def O_frame_def)

lemma round_poly_Suc:
  "round_poly (Suc n) A bt h t = round_poly n A bt h t + A n * sel (bt n) t * h n t"
  by (simp add: round_poly_def)

lemma roundO_gates:
  assumes V: "length (V1s st) = batchSize st" and len: "length poly = batchSize st * 3"
    and A: "length (addormultr st) = n"
    and res: "fold (roundO_gate bitPos r onO1) [0..<n] (st, poly) = (st', poly')"
  shows "O_frame onO1 st st' \<and> length (addormultr st') = n \<and>
    (\<forall>g < n. addormultr st' ! g = addormultr st ! g * sel (O_bit onO1 st bitPos g) r mod scprime st) \<and>
    O_slots onO1 st bitPos poly n poly'"
proof -
  let ?p = "scprime st" and ?B = "batchSize st"
  define P where "P = (\<lambda>i s. O_frame onO1 st (fst s) \<and> length (addormultr (fst s)) = n \<and>
    (\<forall>g < n. addormultr (fst s) ! g =
      (if g < i then addormultr st ! g * sel (O_bit onO1 st bitPos g) r mod ?p else addormultr st ! g)) \<and>
    O_slots onO1 st bitPos poly i (snd s))"
  have "P n (fold (roundO_gate bitPos r onO1) [0..<n] (st, poly))"
  proof (rule fold_range_inv)
    show "P 0 (st, poly)" using len A by (simp add: P_def O_slots_def round_poly_def)
  next
    fix i s assume i: "i < n" and Ps: "P i s"
    obtain s1 q where s: "s = (s1, q)" by fastforce
    obtain s2 q2 where s2: "roundO_gate bitPos r onO1 i (s1, q) = (s2, q2)" by fastforce
    have fr: "O_frame onO1 st s1" and l1: "length (addormultr s1) = n"
      and a1: "\<And>g. g < n \<Longrightarrow> addormultr s1 ! g =
        (if g < i then addormultr st ! g * sel (O_bit onO1 st bitPos g) r mod ?p else addormultr st ! g)"
      and q: "O_slots onO1 st bitPos poly i q" using Ps by (auto simp: P_def s)
    note F = O_frame_fields [OF fr]
    have V1: "length (V1s s1) = batchSize s1" and lq: "length q = batchSize s1 * 3"
      using fr V q F by (auto simp: O_frame_def O_slots_def)
    note step = roundO_gate_step [OF V1 lq s2, unfolded F O_frame_idx [OF fr] O_frame_term [OF fr]]
    have "O_slots onO1 st bitPos poly (Suc i) q2"
      unfolding O_slots_def
    proof (intro conjI allI impI)
      show "length q2 = ?B * 3" using step by simp
      fix b k :: nat assume b: "b < ?B" and k: "0 < k" "k < 3"
      let ?R = "\<lambda>j. round_poly j (\<lambda>g. addormultr st ! g) (O_bit onO1 st bitPos) (O_term onO1 st bitPos b) (int k)"
      let ?t = "addormultr st ! i * sel (O_bit onO1 st bitPos i) (int k) * O_term onO1 st bitPos b i (int k)"
      have "q2 ! (b * 3 + k) mod ?p = (q ! (b * 3 + k) + ?t) mod ?p"
        using step [THEN conjunct2, THEN conjunct2, THEN conjunct2, rule_format, OF b k] a1 [OF i]
        by (simp only: less_irrefl if_False)
      also have "\<dots> = (poly ! (b * 3 + k) + ?R i + ?t) mod ?p"
        using q b k by (intro mod_add_cong refl) (simp add: O_slots_def)
      finally show "q2 ! (b * 3 + k) mod ?p = (poly ! (b * 3 + k) + ?R (Suc i)) mod ?p"
        by (simp add: round_poly_Suc add.assoc)
    qed
    moreover have "addormultr s2 ! g =
      (if g < Suc i then addormultr st ! g * sel (O_bit onO1 st bitPos g) r mod ?p else addormultr st ! g)"
      if "g < n" for g
      using step that l1 a1 [OF that] i by (auto simp: nth_list_update less_Suc_eq)
    ultimately show "P (Suc i) (roundO_gate bitPos r onO1 i s)"
      using step l1 O_frame_trans [OF fr] by (simp add: P_def s s2)
  qed simp
  then show ?thesis unfolding res P_def by simp
qed

text \<open>Updates of slots of one kind.\<close>

lemma fold_slots:
  assumes "length poly = B * 3" and m: "m < 3"
    and h: "\<And>b q q'. b < B \<Longrightarrow> (\<And>k. k < 3 \<Longrightarrow> k \<noteq> m \<Longrightarrow> q ! (b * 3 + k) = q' ! (b * 3 + k)) \<Longrightarrow>
              q ! (b * 3 + m) = q' ! (b * 3 + m) \<Longrightarrow> h b q = h b q'"
  shows "length (fold (\<lambda>b q. q[b * 3 + m := h b q]) [0..<B] poly) = B * 3 \<and>
    (\<forall>b k. b < B \<longrightarrow> k < 3 \<longrightarrow> fold (\<lambda>b q. q[b * 3 + m := h b q]) [0..<B] poly ! (b * 3 + k) =
       (if k = m then h b poly else poly ! (b * 3 + k)))"
proof -
  let ?f = "\<lambda>b q. q[b * 3 + m := h b q]"
  define P where "P = (\<lambda>i q. length q = B * 3 \<and> (\<forall>b k. b < B \<longrightarrow> k < 3 \<longrightarrow>
     q ! (b * 3 + k) = (if k = m \<and> b < i then h b poly else poly ! (b * 3 + k))))"
  have "P B (fold ?f [0..<B] poly)"
  proof (rule fold_range_inv)
    show "P 0 poly" using assms(1) by (simp add: P_def)
  next
    fix i q assume i: "i < B" and Pq: "P i q"
    have hq: "h i q = h i poly" using Pq i m by (intro h) (auto simp: P_def)
    have "?f i q ! (b * 3 + k) = (if k = m \<and> b < Suc i then h b poly else poly ! (b * 3 + k))"
      if "b < B" "k < 3" for b k
      using Pq that i m hq slot_neq [of m k i b] slot_less [of i B m]
      by (auto simp: P_def nth_list_update less_Suc_eq)
    then show "P (Suc i) (?f i q)" using Pq by (simp add: P_def)
  qed simp
  then show ?thesis by (simp add: P_def)
qed

lemma roundO_mult_betar_slots:
  assumes len: "length poly = batchSize st * 3"
  shows "length (roundO_mult_betar st poly) = batchSize st * 3 \<and>
    (\<forall>b k. b < batchSize st \<longrightarrow> 0 < k \<longrightarrow> k < 3 \<longrightarrow>
       roundO_mult_betar st poly ! (b * 3 + k) = poly ! (b * 3 + k) * betar st ! 0 mod scprime st)"
proof -
  let ?B = "batchSize st"
  define P where "P = (\<lambda>i q. length q = ?B * 3 \<and> (\<forall>b k. b < ?B \<longrightarrow> k < 3 \<longrightarrow>
     q ! (b * 3 + k) = (if k \<noteq> 0 \<and> b < i then poly ! (b * 3 + k) * betar st ! 0 mod scprime st else poly ! (b * 3 + k))))"
  have "P ?B (roundO_mult_betar st poly)"
    unfolding roundO_mult_betar_def upt_1_3
  proof (rule fold_range_inv)
    show "P 0 poly" using len by (simp add: P_def)
  next
    fix i q assume i: "i < ?B" and Pq: "P i q"
    let ?c = "betar st ! 0" and ?p = "scprime st"
    let ?q1 = "q[i * 3 + 1 := q ! (i * 3 + 1) * ?c mod ?p]"
    let ?q2 = "?q1[i * 3 + 2 := ?q1 ! (i * 3 + 2) * ?c mod ?p]"
    have "?q2 ! (b * 3 + k) = (if k \<noteq> 0 \<and> b < Suc i then poly ! (b * 3 + k) * ?c mod ?p else poly ! (b * 3 + k))"
      if bk: "b < ?B" "k < 3" for b k
    proof (cases "b = i")
      case True
      have q: "q ! (i * 3 + j) = poly ! (i * 3 + j)" if "j < 3" for j using Pq i that by (simp add: P_def)
      have "k = 0 \<or> k = 1 \<or> k = 2" using bk by auto
      with True bk Pq show ?thesis
        using slot_less [of i ?B 1] slot_less [of i ?B 2] q [of 0] q [of 1] q [of 2] by (auto simp: P_def)
    next
      case False
      then have "b * 3 + k \<noteq> i * 3 + 1" "b * 3 + k \<noteq> i * 3 + 2"
        using slot_neq [of k 1 b i] slot_neq [of k 2 b i] bk by auto
      with False bk Pq show ?thesis by (auto simp: P_def less_Suc_eq)
    qed
    then show "P (Suc i) (fold (\<lambda>m roundPoly. let k = i * polySize + m
         in roundPoly[k := modmult (roundPoly ! k) (betar st ! 0) (scprime st)]) [1, 2] q)"
      using Pq by (simp add: P_def polySize_def modmult_def Let_def)
  qed simp
  then show ?thesis by (auto simp: P_def)
qed

section \<open>Folding the input values\<close>

definition fold_pair :: "int \<Rightarrow> int \<Rightarrow> mpz_vec \<Rightarrow> nat \<Rightarrow> int" where
  "fold_pair p r vs i = (vs ! (2 * i) * (1 - r) mod p + vs ! (2 * i + 1) * r) mod p"

lemma vals_slot_eq: "vals_slot p r i vs = vs[i := fold_pair p r vs i]"
  by (cases "i < length vs") (auto simp: vals_slot_def fold_pair_def mod_ops Let_def list_update_beyond)

lemma fold_vals_slot_nth:
  assumes "k < length vs" and "2 * half \<le> length vs"
  shows "fold (vals_slot p r) [0..<half] vs ! k = (if k < half then fold_pair p r vs k else vs ! k)"
proof -
  have "fold (\<lambda>i vs. vs[i := fold_pair p r vs i]) [0..<half] vs ! k =
        (if k < half then fold_pair p r vs k else vs ! k)"
    by (rule fold_upd_compact) (use assms in \<open>auto simp: fold_pair_def\<close>)
  then show ?thesis by (simp add: vals_slot_eq [abs_def])
qed

lemma length_fold_vals_slot [simp]: "length (fold (vals_slot p r) xs vs) = length vs"
  by (simp add: vals_slot_eq [abs_def])

lemma nested_fold_nth:
  assumes "b < B" and "length vss = B"
  shows "length (fold (\<lambda>i vss. fold (\<lambda>b vss. vss[b := f i (vss ! b)]) [0..<B] vss) xs vss) = B \<and>
    fold (\<lambda>i vss. fold (\<lambda>b vss. vss[b := f i (vss ! b)]) [0..<B] vss) xs vss ! b = fold f xs (vss ! b)"
  using assms
proof (induction xs arbitrary: vss)
  case (Cons x xs)
  let ?v = "fold (\<lambda>b vss. vss[b := f x (vss ! b)]) [0..<B] vss"
  have "length ?v = B" "?v ! b = f x (vss ! b)"
    using Cons.prems fold_upd_nth [of b vss "\<lambda>b v. f x v" 0 B] by auto
  with Cons.IH [of ?v] Cons.prems(1) show ?case by simp
qed simp

lemma update_vals_nth:
  assumes "b < batchSize st" and "length (vals st) = batchSize st"
    and "2 ^ (in_logSize st - bitPos) \<le> length (vals st ! b)" and "bitPos < in_logSize st"
  shows "length (vals (roundO_update_vals st bitPos r) ! b) = length (vals st ! b) \<and>
    (\<forall>i < 2 ^ (in_logSize st - Suc bitPos).
      vals (roundO_update_vals st bitPos r) ! b ! i = fold_pair (scprime st) r (vals st ! b) i)"
proof -
  define half where "half = (2 :: nat) ^ (in_logSize st - bitPos) div 2"
  have half: "half = 2 ^ (in_logSize st - Suc bitPos)" "2 * half = 2 ^ (in_logSize st - bitPos)"
    using assms(4) by (auto simp: half_def Suc_diff_Suc [symmetric])
  have v: "vals (roundO_update_vals st bitPos r) ! b = fold (vals_slot (scprime st) r) [0..<half] (vals st ! b)"
    using nested_fold_nth [OF assms(1,2), of "vals_slot (scprime st) r" "[0..<half]"]
    by (simp add: roundO_update_vals_def Let_def half_def)
  have "fold (vals_slot (scprime st) r) [0..<half] (vals st ! b) ! i = fold_pair (scprime st) r (vals st ! b) i"
    if "i < half" for i
    using fold_vals_slot_nth [of i "vals st ! b" half "scprime st" r] that assms(3) half(2) by simp
  then show ?thesis unfolding v half(1) [symmetric] by simp
qed

lemma length_update_vals [simp]: "length (vals (roundO_update_vals st bitPos r)) = length (vals st)"
proof -
  have "length (fold (\<lambda>b vss. vss[b := g b vss]) xs vss) = length vss" for g xs and vss :: "mpz list list"
    by (induction xs arbitrary: vss) auto
  then have "length (fold (\<lambda>i vss. fold (\<lambda>b vss. vss[b := vals_slot (scprime st) r i (vss ! b)]) [0..<batchSize st] vss) ys vss) = length vss"
    for ys vss by (induction ys arbitrary: vss) auto
  then show ?thesis by (simp add: roundO_update_vals_def Let_def)
qed

lemma update_vals_fields [simp]:
  "wires (roundO_update_vals st bitPos r) = wires st" "inVals (roundO_update_vals st bitPos r) = inVals st"
  "outVals (roundO_update_vals st bitPos r) = outVals st" "zvec (roundO_update_vals st bitPos r) = zvec st"
  "scprime (roundO_update_vals st bitPos r) = scprime st" "expected (roundO_update_vals st bitPos r) = expected st"
  "V1s (roundO_update_vals st bitPos r) = V1s st" "betar (roundO_update_vals st bitPos r) = betar st"
  "addormultr (roundO_update_vals st bitPos r) = addormultr st"
  "partialBetar (roundO_update_vals st bitPos r) = partialBetar st"
  "batchSize (roundO_update_vals st bitPos r) = batchSize st"
  "out_size (roundO_update_vals st bitPos r) = out_size st"
  "in_size (roundO_update_vals st bitPos r) = in_size st"
  "in_logSize (roundO_update_vals st bitPos r) = in_logSize st"
  "out_logSize (roundO_update_vals st bitPos r) = out_logSize st"
  by (simp_all add: roundO_update_vals_def Let_def batchSize_def out_size_def in_size_def in_logSize_def out_logSize_def)

lemma init_vals_array_nth:
  assumes "length vs = 2 ^ log2i (length xs)"
  shows "length (init_vals_array vs xs) = length vs \<and>
    (\<forall>k < length vs. init_vals_array vs xs ! k = (if k < length xs then xs ! k else 0))"
  using assms fold_upd_nth [where f = "\<lambda>k _. if k < length xs then xs ! k else 0" and a = 0 and b = "length vs" and xs = vs]
  by (auto simp: init_vals_array_def)

end
