(* ===== verification/Sumcheck_Complete.thy ===== *)
theory Sumcheck_Complete
  imports Sumcheck_Rounds
begin

text \<open>
  The honest prover's rounds, one after another: what the prover still has to show (its claim) after
  each round is the value of the round polynomial at the verifier's coin.
\<close>

section \<open>Shape of the prover's state\<close>

definition scp_shape :: "SumCheckProver \<Rightarrow> bool" where
  "scp_shape st \<longleftrightarrow>
     0 < batchSize st \<and> 0 < out_size st \<and> 0 < in_size st \<and>
     (\<forall>b < batchSize st. length (inVals st ! b) = in_size st) \<and>
     length (outVals st) = batchSize st \<and> (\<forall>b < batchSize st. length (outVals st ! b) = out_size st) \<and>
     (\<forall>g < out_size st. in1 (wires st ! g) < in_size st \<and> in2 (wires st ! g) < in_size st) \<and>
     length (V1s st) = batchSize st \<and> length (expected st) = batchSize st \<and> length (vals st) = batchSize st \<and>
     (\<forall>b < batchSize st. length (vals st ! b) = 2 ^ in_logSize st) \<and>
     length (betar st) = out_size st \<and> length (addormultr st) = out_size st"

definition keeps :: "SumCheckProver \<Rightarrow> SumCheckProver \<Rightarrow> bool" where
  "keeps st st' \<longleftrightarrow> wires st' = wires st \<and> inVals st' = inVals st \<and> outVals st' = outVals st \<and>
     zvec st' = zvec st \<and> scprime st' = scprime st"

lemma keeps_fields:
  assumes "keeps st st'"
  shows "wires st' = wires st" "inVals st' = inVals st" "outVals st' = outVals st" "zvec st' = zvec st"
    "scprime st' = scprime st" "batchSize st' = batchSize st" "out_size st' = out_size st"
    "in_size st' = in_size st" "in_logSize st' = in_logSize st" "out_logSize st' = out_logSize st"
  using assms by (auto simp: keeps_def batchSize_def out_size_def in_size_def in_logSize_def out_logSize_def)

lemma keeps_trans: "keeps st st' \<Longrightarrow> keeps st' st'' \<Longrightarrow> keeps st st''"
  by (simp add: keeps_def)

lemma shape_in_idx:
  assumes "scp_shape st" and "g < out_size st"
  shows "O_idx onO1 st g < 2 ^ in_logSize st"
  using assms le_two_power_log2i [of "in_size st"]
  by (auto simp: scp_shape_def O_idx_def in_logSize_def intro: less_le_trans)

section \<open>Rounds over input labels\<close>

definition load_vals :: "SumCheckProver \<Rightarrow> nat \<Rightarrow> SumCheckProver" where
  "load_vals st bitPos =
     (if bitPos = 0
      then st\<lparr>vals := map (\<lambda>b. init_vals_array (vals st ! b) (inVals st ! b)) [0..<batchSize st]\<rparr> else st)"

lemma load_vals_fields [simp]:
  "wires (load_vals st j) = wires st" "inVals (load_vals st j) = inVals st"
  "outVals (load_vals st j) = outVals st" "zvec (load_vals st j) = zvec st"
  "scprime (load_vals st j) = scprime st" "expected (load_vals st j) = expected st"
  "V1s (load_vals st j) = V1s st" "betar (load_vals st j) = betar st"
  "addormultr (load_vals st j) = addormultr st" "partialBetar (load_vals st j) = partialBetar st"
  "batchSize (load_vals st j) = batchSize st" "out_size (load_vals st j) = out_size st"
  "in_size (load_vals st j) = in_size st" "in_logSize (load_vals st j) = in_logSize st" "out_logSize (load_vals st j) = out_logSize st"
  by (simp_all add: load_vals_def batchSize_def out_size_def in_size_def in_logSize_def out_logSize_def)

lemma load_vals_0:
  assumes "scp_shape st" and "b < batchSize st" and "i < 2 ^ in_logSize st"
  shows "vals (load_vals st 0) ! b ! i = (if i < length (inVals st ! b) then inVals st ! b ! i else 0)"
proof -
  have "length (vals st ! b) = 2 ^ log2i (length (inVals st ! b))"
    using assms by (auto simp: scp_shape_def in_logSize_def)
  from init_vals_array_nth [OF this] assms show ?thesis
    by (auto simp: load_vals_def scp_shape_def)
qed

lemma load_vals_shape: "scp_shape st \<Longrightarrow> scp_shape (load_vals st j)"
proof -
  assume sh: "scp_shape st"
  have "length (init_vals_array (vals st ! b) (inVals st ! b)) = 2 ^ in_logSize st" if "b < batchSize st" for b
    using init_vals_array_nth [of "vals st ! b" "inVals st ! b"] sh that
    by (auto simp: scp_shape_def in_logSize_def)
  then show ?thesis using sh unfolding scp_shape_def load_vals_fields by (auto simp: load_vals_def)
qed

definition O_poly :: "bool \<Rightarrow> SumCheckProver \<Rightarrow> nat \<Rightarrow> nat \<Rightarrow> int \<Rightarrow> int" where
  "O_poly onO1 st j b t = betar st ! 0 *
     round_poly (out_size st) (\<lambda>g. addormultr st ! g) (O_bit onO1 st j) (O_term onO1 st j b) t"

definition claimO :: "bool \<Rightarrow> SumCheckProver \<Rightarrow> nat \<Rightarrow> nat \<Rightarrow> int" where
  "claimO onO1 st j b = betar st ! 0 *
     (\<Sum>g < out_size st. addormultr st ! g *
        O_apply onO1 st (wires st ! g) b (vals st ! b ! (O_idx onO1 st g div 2 ^ j)))"

lemma polyfn_O_poly: "polyfn p 3 (O_poly onO1 st j b)"
  unfolding O_poly_def [abs_def] by (intro polyfn_scale polyfn_round_poly linear_O_term)

lemma claimO_01: "O_poly onO1 st j b 0 + O_poly onO1 st j b 1 = claimO onO1 st j b"
proof -
  have "O_line onO1 st j b g (of_bool (O_bit onO1 st j g)) = vals st ! b ! (O_idx onO1 st g div 2 ^ j)" for g
  proof (cases "O_bit onO1 st j g")
    case True
    then have "2 * (O_idx onO1 st g div 2 ^ j div 2) + 1 = O_idx onO1 st g div 2 ^ j"
      by (simp add: bit_at_def)
    with True show ?thesis by (simp add: O_line_def Let_def)
  next
    case False
    then have "2 * (O_idx onO1 st g div 2 ^ j div 2) = O_idx onO1 st g div 2 ^ j"
      by (simp add: bit_at_def)
    with False show ?thesis by (simp add: O_line_def Let_def)
  qed
  then show ?thesis
    unfolding O_poly_def claimO_def distrib_left [symmetric] round_poly_01 O_term_apply by simp
qed

lemma doRoundO_round:
  assumes sh: "scp_shape st" and j: "j < in_logSize st"
    and len: "length poly = batchSize st * 3" and zero: "\<And>k. k < length poly \<Longrightarrow> poly ! k = 0"
    and res: "doRoundO st poly j r onO1 = (st', poly')"
  shows "keeps st st' \<and> scp_shape st' \<and> betar st' = betar st \<and> partialBetar st' = partialBetar st \<and>
    expected st' = expected st \<and> (\<not> onO1 \<longrightarrow> V1s st' = V1s st) \<and> length poly' = batchSize st * 3 \<and>
    (\<forall>g < out_size st. addormultr st' ! g = addormultr st ! g * sel (O_bit onO1 st j g) r mod scprime st) \<and>
    (\<forall>b < batchSize st. \<forall>i < 2 ^ (in_logSize st - Suc j).
       vals st' ! b ! i = fold_pair (scprime st) r (vals (load_vals st j) ! b) i) \<and>
    (\<forall>b k. b < batchSize st \<longrightarrow> 0 < k \<longrightarrow> k < 3 \<longrightarrow>
       poly' ! (b * 3 + k) = O_poly onO1 (load_vals st j) j b (int k) mod scprime st)"
proof -
  let ?s0 = "load_vals st j" and ?p = "scprime st" and ?B = "batchSize st" and ?n = "out_size st"
  note sh0 = load_vals_shape [OF sh, of j]
  obtain s1 q1 where s1: "fold (roundO_gate j r onO1) [0..<?n] (?s0, poly) = (s1, q1)" by fastforce
  have st': "st' = roundO_update_vals s1 j r" "poly' = roundO_mult_betar s1 q1"
    using res s1 unfolding doRoundO_def Let_def load_vals_def [symmetric] by simp_all
  have G: "O_frame onO1 ?s0 s1 \<and> length (addormultr s1) = ?n \<and>
    (\<forall>g < ?n. addormultr s1 ! g = addormultr ?s0 ! g * sel (O_bit onO1 ?s0 j g) r mod ?p) \<and>
    O_slots onO1 ?s0 j poly ?n q1"
    using roundO_gates [OF _ _ _ s1] sh0 len by (simp add: scp_shape_def)
  note F = O_frame_fields [OF G [THEN conjunct1]]
  have V: "length (V1s s1) = ?B" "\<not> onO1 \<longrightarrow> V1s s1 = V1s st"
    using G sh by (auto simp: O_frame_def scp_shape_def)
  have q1: "length q1 = batchSize s1 * 3" using G F by (simp add: O_slots_def)
  have vs: "length (vals st' ! b) = 2 ^ in_logSize st \<and>
      (\<forall>i < 2 ^ (in_logSize st - Suc j). vals st' ! b ! i = fold_pair ?p r (vals ?s0 ! b) i)" if "b < ?B" for b
    using update_vals_nth [of b s1 j r] that sh0 F j st'(1) by (simp add: scp_shape_def)
  have slots: "poly' ! (b * 3 + k) = O_poly onO1 ?s0 j b (int k) mod ?p" if bk: "b < ?B" "0 < k" "k < 3" for b k
  proof -
    have "poly' ! (b * 3 + k) = q1 ! (b * 3 + k) * betar st ! 0 mod ?p"
      using roundO_mult_betar_slots [OF q1] bk F st'(2) by simp
    also have "\<dots> = (poly ! (b * 3 + k) + round_poly ?n (\<lambda>g. addormultr ?s0 ! g) (O_bit onO1 ?s0 j)
        (O_term onO1 ?s0 j b) (int k)) * betar st ! 0 mod ?p"
      using G bk by (intro mod_mult_cong refl) (simp add: O_slots_def)
    finally show ?thesis using zero [of "b * 3 + k"] slot_less [OF bk(1,3)] len
      by (simp add: O_poly_def mult.commute)
  qed
  have "length (vals ?s0) = ?B" using sh0 by (simp add: scp_shape_def)
  then have "scp_shape st'" using sh vs V F G by (simp add: scp_shape_def st'(1))
  moreover have "keeps st st'" using F by (simp add: keeps_def st'(1))
  moreover have "O_bit onO1 ?s0 j g = O_bit onO1 st j g" for g by (simp add: O_idx_def)
  ultimately show ?thesis
    using G F V vs slots roundO_mult_betar_slots [OF q1] by (auto simp: st')
qed

lemma fold_pair_mod: "fold_pair p r vs i mod p = ((1 - r) * vs ! (2 * i) + r * vs ! (2 * i + 1)) mod p"
proof -
  have "fold_pair p r vs i mod p = (vs ! (2 * i) * (1 - r) mod p + vs ! (2 * i + 1) * r) mod p"
    by (simp add: fold_pair_def)
  also have "\<dots> = (vs ! (2 * i) * (1 - r) + vs ! (2 * i + 1) * r) mod p" by (rule mod_add_left_eq)
  finally show ?thesis by (simp add: mult.commute)
qed

lemma claimO_next:
  assumes sh: "scp_shape st" and j: "j < in_logSize st"
    and len: "length poly = batchSize st * 3" and zero: "\<And>k. k < length poly \<Longrightarrow> poly ! k = 0"
    and res: "doRoundO st poly j r onO1 = (st', poly')" and b: "b < batchSize st"
  shows "claimO onO1 st' (Suc j) b mod scprime st = O_poly onO1 (load_vals st j) j b r mod scprime st"
proof -
  let ?s0 = "load_vals st j" and ?p = "scprime st" and ?n = "out_size st"
  note R = doRoundO_round [OF sh j len zero res]
  note K = keeps_fields [OF R [THEN conjunct1]]
  have idx: "O_idx onO1 st' g = O_idx onO1 ?s0 g" for g using K by (simp add: O_idx_def)
  have "addormultr st' ! g * O_apply onO1 st' (wires st' ! g) b (vals st' ! b ! (O_idx onO1 st' g div 2 ^ Suc j)) mod ?p
      = addormultr ?s0 ! g * sel (O_bit onO1 ?s0 j g) r * O_term onO1 ?s0 j b g r mod ?p" if g: "g < ?n" for g
  proof (rule mod_mult_cong)
    show "addormultr st' ! g mod ?p = addormultr ?s0 ! g * sel (O_bit onO1 ?s0 j g) r mod ?p"
      using R g by (simp add: O_idx_def)
    let ?i = "O_idx onO1 ?s0 g div 2 ^ Suc j"
    have "O_idx onO1 ?s0 g < 2 ^ (in_logSize st - Suc j) * 2 ^ Suc j"
      using shape_in_idx [OF load_vals_shape [OF sh], of g j onO1] g j
      unfolding power_add [symmetric] by simp
    then have i: "?i < 2 ^ (in_logSize st - Suc j)" by (simp add: less_mult_imp_div_less)
    have "vals st' ! b ! ?i mod ?p = fold_pair ?p r (vals ?s0 ! b) ?i mod ?p" using R b i by simp
    also have "\<dots> = O_line onO1 ?s0 j b g r mod ?p"
      unfolding fold_pair_mod O_line_def Let_def
      by (simp add: div_mult2_eq [symmetric] mult.commute)
    finally have v: "vals st' ! b ! ?i mod ?p = O_line onO1 ?s0 j b g r mod ?p" .
    have "O_apply onO1 st' w b x = O_apply onO1 ?s0 w b x" for w x
      using K R by (auto simp: O_apply_def)
    then show "O_apply onO1 st' (wires st' ! g) b (vals st' ! b ! (O_idx onO1 st' g div 2 ^ Suc j)) mod ?p =
        O_term onO1 ?s0 j b g r mod ?p"
      unfolding O_term_apply idx using O_apply_mod_cong [OF v] K by simp
  qed
  then have "(\<Sum>g < ?n. addormultr st' ! g * O_apply onO1 st' (wires st' ! g) b (vals st' ! b ! (O_idx onO1 st' g div 2 ^ Suc j))) mod ?p
      = round_poly ?n (\<lambda>g. addormultr ?s0 ! g) (O_bit onO1 ?s0 j) (O_term onO1 ?s0 j b) r mod ?p"
    unfolding round_poly_def by (intro sum_mod_cong) simp
  then show ?thesis unfolding claimO_def O_poly_def using R K by (intro mod_mult_cong) auto
qed

end
