(* ===== verification/Sumcheck_Label_Rounds.thy ===== *)
theory Sumcheck_Label_Rounds
  imports Sumcheck_Complete
begin

text \<open>
  Rounds over the output label (\<^verbatim>\<open>doRoundP\<close>): the table \<open>betar\<close> of Lagrange weights, its division by
  \<open>1 - z\<close> and the fallback that recomputes it, and the round polynomial they give.
\<close>

section \<open>The table of weights\<close>

lemma ceil_pow_log2i: "0 < n \<Longrightarrow> logi < log2i n \<Longrightarrow> 2 ^ logi \<le> n"
proof (cases "n = 1")
  case True
  then show "logi < log2i n \<Longrightarrow> ?thesis" by (simp add: log2i_def)
next
  case False
  assume "0 < n" "logi < log2i n"
  then have "(2 :: nat) ^ logi \<le> 2 ^ (log2i n - 1)" by (intro power_increasing) auto
  also have "\<dots> < n" using False \<open>0 < n\<close> by (intro two_power_log2i_less) simp
  finally show ?thesis by simp
qed

lemma computeChiAll_n_chi_step:
  assumes "0 < n" and "startAt \<le> length z"
  shows "computeChiAll_n bs z n p startAt = fold (chi_step (drop startAt z) p n) [0..<log2i n] (bs[0 := 1])"
  unfolding computeChiAll_n_def
proof (intro fold_cong refl ext)
  fix logi bs assume "logi \<in> set [0..<log2i n]"
  then have "min (2 ^ logi) n = 2 ^ logi" using ceil_pow_log2i [OF assms(1)] by (simp add: min_absorb1)
  then show "(let base = 2 ^ logi;
            bs = fold (\<lambda>i bs. bs[i := modmult (bs ! (i - base)) (z ! (logi + startAt)) p]) [base..<min (2 * base) n] bs;
            one_sub_z = one_sub (z ! (logi + startAt))
        in fold (\<lambda>i bs. bs[i := modmult (bs ! i) one_sub_z p]) [0..<base] bs) =
      chi_step (drop startAt z) p n logi bs"
    using assms(2) by (simp add: chi_step_def Let_def add.commute)
qed

lemma computeChiAll_n_nth:
  assumes "1 < p" and "0 < n" and "startAt \<le> length z" and "n \<le> length bs" and "k < n"
  shows "computeChiAll_n bs z n p startAt ! k = lagr k (\<lambda>j. z ! (startAt + j)) (log2i n) mod p"
proof -
  have "k < 2 ^ log2i n" using assms(5) le_two_power_log2i [of n] by linarith
  then have "computeChiAll_n bs z n p startAt ! k = lagr k ((!) (drop startAt z)) (log2i n) mod p"
    using assms by (simp add: computeChiAll_n_chi_step fold_chi_step_lagr)
  also have "lagr k ((!) (drop startAt z)) (log2i n) = lagr k (\<lambda>j. z ! (startAt + j)) (log2i n)"
    using assms(3) by (intro lagr_cong) simp
  finally show ?thesis .
qed

lemma length_computeChiAll_n [simp]:
  "0 < n \<Longrightarrow> startAt \<le> length z \<Longrightarrow> length (computeChiAll_n bs z n p startAt) = length bs"
  by (simp add: computeChiAll_n_chi_step)

lemma log2i_effective:
  assumes "Suc k < log2i n"
  shows "log2i ((n - 1) div 2 ^ Suc k + 1) = log2i n - Suc k"
proof -
  define L where "L = log2i n - Suc k"
  have L: "0 < L" "log2i n = Suc k + L" using assms by (auto simp: L_def)
  have n1: "1 < n" using assms by (cases "n \<le> 1") (auto simp: log2i_def le_Suc_eq)
  have up: "n - 1 < 2 ^ L * 2 ^ Suc k"
    using le_two_power_log2i [of n] n1 unfolding L(2) power_add [symmetric] by (simp add: add.commute)
  then have hi: "(n - 1) div 2 ^ Suc k < 2 ^ L" by (rule less_mult_imp_div_less)
  have "2 ^ (log2i n - 1) \<le> n - 1" using two_power_log2i_less [OF n1] by simp
  moreover have "log2i n - 1 = Suc k + (L - 1)" using L by simp
  ultimately have "2 ^ (L - 1) * 2 ^ Suc k \<le> n - 1" by (simp add: power_add mult_ac)
  then have lo: "2 ^ (L - 1) \<le> (n - 1) div 2 ^ Suc k" by (simp add: less_eq_div_iff_mult_less_eq)
  have "ceillog2 ((n - 1) div 2 ^ Suc k + 1) = L"
  proof (rule ceillog2_eqI)
    have "(2 :: nat) ^ L = 2 * 2 ^ (L - 1)" using L(1) by (cases L) auto
    also have "\<dots> < 2 * ((n - 1) div 2 ^ Suc k + 1)" using lo by (intro mult_strict_left_mono) simp_all
    finally show "2 ^ L < 2 * ((n - 1) div 2 ^ Suc k + 1)" .
  qed (use hi in simp_all)
  moreover have "(n - 1) div 2 ^ Suc k + 1 \<noteq> 1" using lo by (metis add_cancel_left_left not_one_le_zero one_le_numeral one_le_power le_zero_eq)
  ultimately show ?thesis by (simp add: log2i_def L_def)
qed

lemma lagr_step: "lagr v f (Suc m) = sel (odd v) (f 0) * lagr (v div 2) (\<lambda>j. f (Suc j)) m"
  using lagr_split [of v f 1 m] by (simp add: lagr_Suc bit_at_def)

definition last_idx :: "SumCheckProver \<Rightarrow> nat \<Rightarrow> nat" where
  "last_idx st k = (out_size st - 1) div 2 ^ k"

text \<open>\<open>betar\<close> holds, for every prefix of labels still in play, what is left of the weight at \<open>z\<close>.\<close>

definition beta_inv :: "SumCheckProver \<Rightarrow> nat \<Rightarrow> bool" where
  "beta_inv st k \<longleftrightarrow> (\<forall>i \<le> last_idx st k. betar st ! i mod scprime st =
     partialBetar st * lagr i (\<lambda>j. zvec st ! (k + j)) (out_logSize st - k) mod scprime st)"

lemma last_idx_less: "scp_shape st \<Longrightarrow> last_idx st k < out_size st"
proof -
  assume "scp_shape st"
  then have "out_size st - 1 < out_size st" by (simp add: scp_shape_def)
  with div_le_dividend [of "out_size st - 1" "2 ^ k"] show ?thesis unfolding last_idx_def by linarith
qed

lemma idx_le_last: "g < out_size st \<Longrightarrow> g div 2 ^ k \<le> last_idx st k"
  by (auto simp: last_idx_def intro: div_le_mono)

lemma last_idx_double:
  assumes "i \<le> last_idx st (Suc k)" shows "2 * i \<le> last_idx st k"
proof -
  have "last_idx st (Suc k) = last_idx st k div 2" by (simp only: last_idx_def power_Suc2 div_mult2_eq)
  with assms show ?thesis by simp
qed

lemma beta_inv_start:
  assumes "1 < scprime st" and "scp_shape st" and "out_logSize st \<le> length (zvec st)"
  shows "beta_inv ((computeBetaZAll st)\<lparr>partialBetar := 1\<rparr>) 0"
proof -
  have n: "0 < length (wires st)" "length (wires st) = length (betar st)"
    using assms(2) by (auto simp: scp_shape_def out_size_def)
  have "computeChiAll_n (betar st) (zvec st) (length (wires st)) (scprime st) 0 ! i mod scprime st
      = lagr i ((!) (zvec st)) (log2i (length (wires st))) mod scprime st" if "i \<le> length (wires st) - 1" for i
  proof -
    have "i < length (wires st)" using that n by linarith
    with computeChiAll_n_nth [of "scprime st" "length (wires st)" 0 "zvec st" "betar st" i] assms(1) n
    show ?thesis by simp
  qed
  then show ?thesis
    by (simp add: beta_inv_def computeBetaZAll_def last_idx_def out_size_def out_logSize_def)
qed

text \<open>Only \<open>betar\<close> (and, in the update, \<open>partialBetar\<close>) changes.\<close>

lemma divide_betar_fields [simp]:
  "wires (roundP_divide_betar mpz_invert st k z) = wires st" "inVals (roundP_divide_betar mpz_invert st k z) = inVals st"
  "outVals (roundP_divide_betar mpz_invert st k z) = outVals st" "zvec (roundP_divide_betar mpz_invert st k z) = zvec st"
  "scprime (roundP_divide_betar mpz_invert st k z) = scprime st" "expected (roundP_divide_betar mpz_invert st k z) = expected st"
  "V1s (roundP_divide_betar mpz_invert st k z) = V1s st" "vals (roundP_divide_betar mpz_invert st k z) = vals st"
  "addormultr (roundP_divide_betar mpz_invert st k z) = addormultr st"
  "partialBetar (roundP_divide_betar mpz_invert st k z) = partialBetar st"
  by (simp_all add: roundP_divide_betar_def Let_def)

lemma update_betar_fields [simp]:
  "wires (roundP_update_betar st k z r) = wires st" "inVals (roundP_update_betar st k z r) = inVals st"
  "outVals (roundP_update_betar st k z r) = outVals st" "zvec (roundP_update_betar st k z r) = zvec st"
  "scprime (roundP_update_betar st k z r) = scprime st" "expected (roundP_update_betar st k z r) = expected st"
  "V1s (roundP_update_betar st k z r) = V1s st" "vals (roundP_update_betar st k z r) = vals st"
  "addormultr (roundP_update_betar st k z r) = addormultr st"
  by (simp_all add: roundP_update_betar_def Let_def)

lemma divide_betar_main:
  assumes inv: "gmp_invert mpz_invert" and p: "prime_modulus (scprime st)" and sh: "scp_shape st"
    and k: "k < out_logSize st" and bi: "beta_inv st k" and z: "z = zvec st ! k"
    and nz: "(1 - z) mod scprime st \<noteq> 0" and i: "i \<le> last_idx st (Suc k)"
  shows "betar (roundP_divide_betar mpz_invert st k z) ! i mod scprime st =
    partialBetar st * lagr i (\<lambda>j. zvec st ! (Suc k + j)) (out_logSize st - Suc k) mod scprime st"
proof -
  let ?p = "scprime st" and ?c = "mpz_invert ((1 - z) mod scprime st) (scprime st)"
  let ?L = "\<lambda>i. lagr i (\<lambda>j. zvec st ! (Suc k + j)) (out_logSize st - Suc k)"
  have len: "length (betar st) = out_size st" using sh by (simp add: scp_shape_def)
  have nE: "(out_size st - 1) div 2 ^ (k + 1) + 1 = Suc (last_idx st (Suc k))" by (simp add: last_idx_def)
  have i2: "2 * i \<le> last_idx st k" using i by (rule last_idx_double)
  have il: "i < length (betar st)" "2 * i < length (betar st)"
    using i2 last_idx_less [OF sh, of k] len by auto
  have "betar (roundP_divide_betar mpz_invert st k z) ! i = betar st ! (2 * i) * ?c mod ?p"
  proof -
    have "fold (\<lambda>i bs. bs[i := bs ! (2 * i) * ?c mod ?p]) [0..<Suc (last_idx st (Suc k))] (betar st) ! i =
        (if i < Suc (last_idx st (Suc k)) then betar st ! (2 * i) * ?c mod ?p else betar st ! i)"
    proof (rule fold_upd_compact [where F = "\<lambda>i bs. bs ! (2 * i) * ?c mod ?p", OF il(1)])
      fix j and ys :: mpz_vec
      assume ys: "\<And>l. j \<le> l \<Longrightarrow> l < length (betar st) \<Longrightarrow> ys ! l = betar st ! l"
        and j: "j < Suc (last_idx st (Suc k))"
      have "2 * j < length (betar st)"
        using last_idx_double [of j st k] j last_idx_less [OF sh, of k] len by simp
      with ys [of "2 * j"] show "ys ! (2 * j) * ?c mod ?p = betar st ! (2 * j) * ?c mod ?p" by simp
    qed
    with i nz show ?thesis
      unfolding roundP_divide_betar_def Let_def nE one_sub_def modmult_def by simp
  qed
  moreover have "betar st ! (2 * i) mod ?p = (1 - z) mod ?p * (partialBetar st * ?L i) mod ?p"
  proof -
    have "out_logSize st - k = Suc (out_logSize st - Suc k)" using k by simp
    then have "lagr (2 * i) (\<lambda>j. zvec st ! (k + j)) (out_logSize st - k) = (1 - z) * ?L i"
      using lagr_step [of "2 * i" "\<lambda>j. zvec st ! (k + j)" "out_logSize st - Suc k"] z by (simp add: sel_def)
    then have "betar st ! (2 * i) mod ?p = (1 - z) * (partialBetar st * ?L i) mod ?p"
      using bi i2 unfolding beta_inv_def by (simp add: mult_ac)
    then show ?thesis by (simp only: mod_mult_left_eq)
  qed
  ultimately have "betar (roundP_divide_betar mpz_invert st k z) ! i mod ?p =
      (1 - z) mod ?p * (partialBetar st * ?L i) * ?c mod ?p"
    by (simp only: mod_mod_trivial) (rule mod_mult_cong, auto)
  also have "\<dots> = partialBetar st * ?L i mod ?p"
    using nz by (intro gmp_invert.mpz_invert_cancel [OF inv p]) simp
  finally show ?thesis .
qed

lemma divide_betar_fallback:
  assumes p: "prime_modulus (scprime st)" and sh: "scp_shape st" and zl: "out_logSize st \<le> length (zvec st)"
    and k: "Suc k < out_logSize st" and ze: "(1 - z) mod scprime st = 0" and i: "i \<le> last_idx st (Suc k)"
  shows "betar (roundP_divide_betar mpz_invert st k z) ! i mod scprime st =
    partialBetar st * lagr i (\<lambda>j. zvec st ! (Suc k + j)) (out_logSize st - Suc k) mod scprime st"
proof -
  let ?p = "scprime st" and ?nE = "Suc (last_idx st (Suc k))"
  have nE: "(out_size st - 1) div 2 ^ (k + 1) + 1 = ?nE" by (simp add: last_idx_def)
  have le: "?nE \<le> length (betar st)" using last_idx_less [OF sh, of "Suc k"] sh by (simp add: scp_shape_def)
  let ?bs = "computeChiAll_n (betar st) (zvec st) ?nE ?p (k + 1)"
  have lg: "log2i ?nE = out_logSize st - Suc k"
    using log2i_effective [of k "out_size st"] k by (simp add: last_idx_def out_logSize_def out_size_def)
  have bs: "?bs ! i = lagr i (\<lambda>j. zvec st ! (Suc k + j)) (out_logSize st - Suc k) mod ?p"
    using computeChiAll_n_nth [of ?p ?nE "k + 1" "zvec st" "betar st" i] p zl k le i lg
    by (simp add: prime_modulus_def)
  have "length ?bs = length (betar st)" using zl k by simp
  then have "betar (roundP_divide_betar mpz_invert st k z) ! i = ?bs ! i * partialBetar st mod ?p"
    using ze i le fold_upd_nth [of i ?bs "\<lambda>i x. x * partialBetar st mod ?p" 0 ?nE]
    unfolding roundP_divide_betar_def Let_def nE one_sub_def modmult_def by simp
  then show ?thesis unfolding bs by (simp add: mod_mult_left_eq mod_mult_right_eq mult.commute)
qed

lemma divide_betar_inv:
  assumes inv: "gmp_invert mpz_invert" and p: "prime_modulus (scprime st)" and sh: "scp_shape st"
    and zl: "out_logSize st \<le> length (zvec st)"
    and k: "k < out_logSize st" and bi: "beta_inv st k" and z: "z = zvec st ! k"
    and ok: "Suc k = out_logSize st \<Longrightarrow> (1 - z) mod scprime st \<noteq> 0" and i: "i \<le> last_idx st (Suc k)"
  shows "betar (roundP_divide_betar mpz_invert st k z) ! i mod scprime st =
    partialBetar st * lagr i (\<lambda>j. zvec st ! (Suc k + j)) (out_logSize st - Suc k) mod scprime st"
proof (cases "(1 - z) mod scprime st = 0")
  case True
  with ok k have "Suc k < out_logSize st" by (cases "Suc k = out_logSize st") auto
  from divide_betar_fallback [OF p sh zl this True i] show ?thesis .
next
  case False
  from divide_betar_main [OF inv p sh k bi z False i] show ?thesis .
qed

end
