(* ===== verification/Sumcheck_Label_Poly.thy ===== *)
theory Sumcheck_Label_Poly
  imports Sumcheck_Label_Rounds
begin

text \<open>
  The round polynomial of \<^verbatim>\<open>doRoundP\<close>: the slots for the points 1 and 2 hold its values, and the claim of the
  next round is its value at the coin.
\<close>

section \<open>Weights and claims\<close>

definition P_weight :: "SumCheckProver \<Rightarrow> nat \<Rightarrow> nat \<Rightarrow> int" where
  "P_weight st k g = partialBetar st * lagr (g div 2 ^ k) (\<lambda>j. zvec st ! (k + j)) (out_logSize st - k)"

definition claimP :: "SumCheckProver \<Rightarrow> nat \<Rightarrow> nat \<Rightarrow> int" where
  "claimP st k b = (\<Sum>g < out_size st. addormultr st ! g * (P_weight st k g * outVals st ! b ! g))"

definition P_term :: "SumCheckProver \<Rightarrow> nat \<Rightarrow> nat \<Rightarrow> nat \<Rightarrow> int \<Rightarrow> int" where
  "P_term st k b g t = outVals st ! b ! g * P_weight st (Suc k) g * eq_ext (zvec st ! k) t"

definition P_poly :: "SumCheckProver \<Rightarrow> nat \<Rightarrow> nat \<Rightarrow> int \<Rightarrow> int" where
  "P_poly st k b = round_poly (out_size st) (\<lambda>g. addormultr st ! g) (\<lambda>g. bit_at g k) (P_term st k b)"

lemma P_weight_step:
  assumes "k < out_logSize st"
  shows "P_weight st k g = sel (bit_at g k) (zvec st ! k) * P_weight st (Suc k) g"
proof -
  have "out_logSize st - k = Suc (out_logSize st - Suc k)" using assms by simp
  then show ?thesis
    using lagr_step [of "g div 2 ^ k" "\<lambda>j. zvec st ! (k + j)" "out_logSize st - Suc k"]
    by (simp add: P_weight_def bit_at_def div_mult2_eq [symmetric] mult.commute)
qed

lemma eq_ext_bool: "eq_ext z (of_bool b) = sel b z"
  by (simp add: eq_ext_def sel_def)

lemma polyfn_P_poly: "polyfn p 3 (P_poly st k b)"
proof -
  have "linear_fn (P_term st k b g)" for g
    unfolding P_term_def [abs_def] eq_ext_def
    by (rule linear_fn_scale) (use linear_fn_line [of "1 - zvec st ! k" "zvec st ! k"] in \<open>simp add: mult.commute\<close>)
  then show ?thesis unfolding P_poly_def by (intro polyfn_round_poly)
qed

lemma claimP_01:
  assumes "k < out_logSize st"
  shows "P_poly st k b 0 + P_poly st k b 1 = claimP st k b"
  unfolding P_poly_def round_poly_01 claimP_def P_weight_step [OF assms] P_term_def eq_ext_bool
  by (simp add: mult_ac)

section \<open>Accumulating over the gates\<close>

text \<open>Every gate adds its output value, times a coefficient, to the slot of one point of every instance.\<close>

definition out_step ::
  "SumCheckProver \<Rightarrow> nat \<Rightarrow> nat \<Rightarrow> int \<Rightarrow> mpz_vec \<Rightarrow> mpz_vec" where
  "out_step st m g c q = fold (\<lambda>b q. let out = outVals st ! b ! g; k = b * polySize + m
       in if out \<noteq> 0 then q[k := addmodmult (q ! k) out c (scprime st)] else q) [0..<batchSize st] q"

lemma out_step_slots:
  assumes len: "length q = batchSize st * 3" and m: "m < 3"
    and red: "\<And>b. b < batchSize st \<Longrightarrow> q ! (b * 3 + m) mod scprime st = q ! (b * 3 + m)"
  shows "length (out_step st m g c q) = batchSize st * 3 \<and>
    (\<forall>b k. b < batchSize st \<longrightarrow> k < 3 \<longrightarrow> out_step st m g c q ! (b * 3 + k) =
       (if k = m then (q ! (b * 3 + m) + outVals st ! b ! g * c) mod scprime st else q ! (b * 3 + k)))"
proof -
  let ?h = "\<lambda>b q. if outVals st ! b ! g \<noteq> 0 then (q ! (b * 3 + m) + outVals st ! b ! g * c) mod scprime st
    else q ! (b * 3 + m)"
  have "out_step st m g c q = fold (\<lambda>b q. q[b * 3 + m := ?h b q]) [0..<batchSize st] q"
    unfolding out_step_def by (intro fold_cong) (auto simp: polySize_def addmodmult_def Let_def)
  with fold_slots [OF len m, of ?h] red show ?thesis by simp
qed

definition slots_of :: "SumCheckProver \<Rightarrow> nat \<Rightarrow> (nat \<Rightarrow> int) \<Rightarrow> mpz_vec \<Rightarrow> nat \<Rightarrow> mpz_vec \<Rightarrow> bool" where
  "slots_of st m c q i q' \<longleftrightarrow> length q' = batchSize st * 3 \<and>
     (\<forall>b k. b < batchSize st \<longrightarrow> k < 3 \<longrightarrow> q' ! (b * 3 + k) =
       (if k = m then (\<Sum>g < i. outVals st ! b ! g * c g) mod scprime st else q ! (b * 3 + k)))"

lemma slots_of_reduced:
  "slots_of st m c q i q' \<Longrightarrow> b < batchSize st \<Longrightarrow> m < 3 \<Longrightarrow> q' ! (b * 3 + m) mod scprime st = q' ! (b * 3 + m)"
  unfolding slots_of_def by simp

lemma slots_of_Suc:
  assumes S: "slots_of st m c q i q'" and m: "m < 3"
  shows "slots_of st m c q (Suc i) (out_step st m i (c i) q')"
proof -
  have "length q' = batchSize st * 3" using S by (simp add: slots_of_def)
  from out_step_slots [OF this m slots_of_reduced [OF S _ m], of i "c i"] S m
  show ?thesis by (simp add: slots_of_def mod_add_left_eq)
qed

lemma out_steps_slots:
  assumes len: "length q = batchSize st * 3" and m: "m < 3"
    and zero: "\<And>b. b < batchSize st \<Longrightarrow> q ! (b * 3 + m) = 0"
  shows "slots_of st m c q n (fold (\<lambda>g. out_step st m g (c g)) [0..<n] q)"
  by (rule fold_range_inv) (use len zero m in \<open>auto simp: slots_of_def [of _ _ _ _ 0] intro: slots_of_Suc\<close>)

section \<open>The two points\<close>

lemma roundP_point1_steps:
  assumes len: "length q = batchSize st * 3" and zero: "\<And>b. b < batchSize st \<Longrightarrow> q ! (b * 3 + 1) = 0"
  shows "slots_of st 1 (\<lambda>g. if bit_at g k then addormultr st ! g * betar st ! (g div 2 ^ k) else 0) q
     (out_size st) (roundP_point1 st k q)"
proof -
  let ?c = "\<lambda>g. if bit_at g k then addormultr st ! g * betar st ! (g div 2 ^ k) else 0"
  define P where "P = (\<lambda>i q'. slots_of st 1 ?c q i q')"
  have "P (out_size st) (roundP_point1 st k q)"
    unfolding roundP_point1_def
  proof (rule fold_range_inv)
    show "P 0 q" using len zero by (simp add: P_def slots_of_def)
  next
    fix i q' assume S: "P i q'"
    have "P (Suc i) (if \<not> bit_at i k then q' else out_step st 1 i (?c i) q')"
    proof (cases "bit_at i k")
      case True
      with slots_of_Suc [OF S [unfolded P_def]] show ?thesis by (simp add: P_def)
    qed (use S in \<open>simp add: P_def slots_of_def\<close>)
    then show "P (Suc i) (let betarIdx = i div 2 ^ k; bit = bit_at i k
        in if \<not> bit then q'
           else let tmp = addormultr st ! i * betar st ! betarIdx
             in fold (\<lambda>b roundPoly. let out = outVals st ! b ! i; k = b * polySize + 1
                  in if out \<noteq> 0 then roundPoly[k := addmodmult (roundPoly ! k) out tmp (scprime st)]
                     else roundPoly) [0..<batchSize st] q')"
      by (cases "bit_at i k") (simp_all add: out_step_def Let_def)
  qed simp
  then show ?thesis by (simp add: P_def)
qed

definition coef2 :: "SumCheckProver \<Rightarrow> nat \<Rightarrow> int \<Rightarrow> nat \<Rightarrow> int" where
  "coef2 st k z g = modmult (betar st ! (g div 2 ^ (k + 1))) (mle_si 2 (1 - z) z (scprime st)) (scprime st) *
     mulmle2_si (addormultr st ! g) 2 (bit_at g k) (scprime st)"

lemma roundP_point2_gate_eq:
  "roundP_point2_gate k z r g (st, q) =
    (st\<lparr>addormultr := (addormultr st)[g := addormultr st ! g * sel (bit_at g k) r mod scprime st]\<rparr>,
     out_step st 2 g (coef2 st k z g) q)"
  by (simp add: roundP_point2_gate_def out_step_def coef2_def upt_2_polySize mulmle2_eq one_sub_def
      addmodmult_def Let_def mult.commute cong: if_cong)

lemma roundP_point2_gates:
  assumes A: "length (addormultr st) = n"
  shows "fold (roundP_point2_gate k z r) [0..<n] (st, q) =
    (st\<lparr>addormultr := map (\<lambda>g. addormultr st ! g * sel (bit_at g k) r mod scprime st) [0..<n]\<rparr>,
     fold (\<lambda>g. out_step st 2 g (coef2 st k z g)) [0..<n] q)"
proof -
  let ?a = "\<lambda>i. map (\<lambda>g. if g < i then addormultr st ! g * sel (bit_at g k) r mod scprime st
      else addormultr st ! g) [0..<n]"
  define P where "P = (\<lambda>i s. s = (st\<lparr>addormultr := ?a i\<rparr>, fold (\<lambda>g. out_step st 2 g (coef2 st k z g)) [0..<i] q))"
  have "P n (fold (roundP_point2_gate k z r) [0..<n] (st, q))"
  proof (rule fold_range_inv)
    have "?a 0 = addormultr st" using A by (intro nth_equalityI) auto
    then show "P 0 (st, q)" by (simp add: P_def)
  next
    fix i s assume i: "i < n" and Ps: "P i s"
    have "(?a i)[i := addormultr st ! i * sel (bit_at i k) r mod scprime st] = ?a (Suc i)"
      using i by (intro nth_equalityI) (auto simp: nth_list_update less_Suc_eq)
    moreover have "?a i ! i = addormultr st ! i" using i by simp
    moreover have "out_step (st\<lparr>addormultr := a\<rparr>) m g c q = out_step st m g c q" for a m g c q
      by (simp add: out_step_def batchSize_def cong: if_cong)
    ultimately show "P (Suc i) (roundP_point2_gate k z r i s)"
      using Ps by (simp add: P_def roundP_point2_gate_eq coef2_def)
  qed simp
  moreover have "?a n = map (\<lambda>g. addormultr st ! g * sel (bit_at g k) r mod scprime st) [0..<n]" by simp
  ultimately show ?thesis by (simp add: P_def)
qed

section \<open>A whole round\<close>

lemma beta_weight:
  assumes "beta_inv st k" and "g < out_size st"
  shows "betar st ! (g div 2 ^ k) mod scprime st = P_weight st k g mod scprime st"
  using assms idx_le_last [of g st k] by (simp add: beta_inv_def P_weight_def)

lemma update_betar_nth:
  assumes "i \<le> last_idx st (Suc k)" and "scp_shape st"
  shows "betar (roundP_update_betar st k z r) ! i = betar st ! i * (eq_ext z r mod scprime st) mod scprime st"
proof -
  have nE: "(out_size st - 1) div 2 ^ (k + 1) + 1 = Suc (last_idx st (Suc k))" by (simp add: last_idx_def)
  have "i < length (betar st)" using assms last_idx_less [of st "Suc k"] by (simp add: scp_shape_def)
  moreover have "mle r (1 - z) z (scprime st) = eq_ext z r mod scprime st" by (simp add: mle_eq eq_ext_def mult.commute)
  ultimately show ?thesis using assms(1)
      fold_upd_nth [of i "betar st" "\<lambda>i x. x * (eq_ext z r mod scprime st) mod scprime st" 0 "Suc (last_idx st (Suc k))"]
    unfolding roundP_update_betar_def Let_def nE one_sub_def modmult_def by simp
qed

lemma update_betar_partial:
  "partialBetar (roundP_update_betar st k z r) = partialBetar st * eq_ext z r mod scprime st"
  by (simp add: roundP_update_betar_def Let_def modmult_def one_sub_def mle_eq eq_ext_def mult.commute mod_mult_right_eq)

lemma length_update_betar [simp]: "length (betar (roundP_update_betar st k z r)) = length (betar st)"
  by (simp add: roundP_update_betar_def Let_def)

lemma length_divide_betar [simp]:
  "scp_shape st \<Longrightarrow> k < out_logSize st \<Longrightarrow> out_logSize st \<le> length (zvec st) \<Longrightarrow>
     length (betar (roundP_divide_betar mpz_invert st k z)) = length (betar st)"
  by (simp add: roundP_divide_betar_def Let_def)

lemma slots_of_sum:
  assumes "slots_of st m c q n q'" and "b < batchSize st" and "m < 3"
    and "\<And>g. g < n \<Longrightarrow> outVals st ! b ! g * c g mod scprime st = f g mod scprime st"
  shows "q' ! (b * 3 + m) = (\<Sum>g < n. f g) mod scprime st"
proof -
  have "(\<Sum>g < n. outVals st ! b ! g * c g) mod scprime st = (\<Sum>g < n. f g) mod scprime st"
    using assms(4) by (intro sum_mod_cong) simp
  then show ?thesis using assms(1-3) by (simp add: slots_of_def)
qed

lemma keeps_shape:
  assumes "keeps st st'" and "scp_shape st" and "length (V1s st') = batchSize st"
    and "length (expected st') = batchSize st" and "length (vals st') = batchSize st"
    and "\<And>b. b < batchSize st \<Longrightarrow> length (vals st' ! b) = 2 ^ in_logSize st"
    and "length (betar st') = out_size st" and "length (addormultr st') = out_size st"
  shows "scp_shape st'"
  using assms(2-) unfolding scp_shape_def keeps_fields [OF assms(1)] by simp

lemma doRoundP_round:
  assumes inv: "gmp_invert mpz_invert" and p: "prime_modulus (scprime st)" and sh: "scp_shape st"
    and zl: "out_logSize st \<le> length (zvec st)" and k: "k < out_logSize st" and bi: "beta_inv st k"
    and ok: "Suc k = out_logSize st \<Longrightarrow> (1 - zvec st ! k) mod scprime st \<noteq> 0"
    and len: "length poly = batchSize st * 3" and zero: "\<And>k. k < length poly \<Longrightarrow> poly ! k = 0"
    and res: "doRoundP mpz_invert st poly k (zvec st ! k) r = (st', poly')"
  shows "keeps st st' \<and> scp_shape st' \<and> beta_inv st' (Suc k) \<and> expected st' = expected st \<and>
    length poly' = batchSize st * 3 \<and>
    partialBetar st' = partialBetar st * eq_ext (zvec st ! k) r mod scprime st \<and>
    (\<forall>g < out_size st. addormultr st' ! g = addormultr st ! g * sel (bit_at g k) r mod scprime st) \<and>
    (\<forall>b i. b < batchSize st \<longrightarrow> 0 < i \<longrightarrow> i < 3 \<longrightarrow>
       poly' ! (b * 3 + i) = P_poly st k b (int i) mod scprime st)"
proof -
  let ?p = "scprime st" and ?z = "zvec st ! k" and ?n = "out_size st" and ?B = "batchSize st"
  define s1 where "s1 = roundP_divide_betar mpz_invert st k ?z"
  have D: "betar s1 ! i mod ?p = partialBetar st * lagr i (\<lambda>j. zvec st ! (Suc k + j)) (out_logSize st - Suc k) mod ?p"
    if "i \<le> last_idx st (Suc k)" for i
    unfolding s1_def using divide_betar_inv [OF inv p sh zl k bi refl ok that] .
  have F: "scprime s1 = ?p" "wires s1 = wires st" "inVals s1 = inVals st" "outVals s1 = outVals st" "zvec s1 = zvec st"
    "addormultr s1 = addormultr st" "partialBetar s1 = partialBetar st" "expected s1 = expected st"
    "V1s s1 = V1s st" "vals s1 = vals st" "length (betar s1) = length (betar st)"
    using sh k zl by (simp_all add: s1_def)
  have F': "batchSize s1 = ?B" "out_size s1 = ?n" "out_logSize s1 = out_logSize st" "in_size s1 = in_size st"
     "in_logSize s1 = in_logSize st" "last_idx s1 j = last_idx st j" for j
    using F by (simp_all add: batchSize_def out_size_def out_logSize_def in_size_def in_logSize_def last_idx_def)
  define q1 where "q1 = roundP_point1 st k poly"
  define a2 where "a2 = map (\<lambda>g. addormultr st ! g * sel (bit_at g k) r mod ?p) [0..<?n]"
  define s2 where "s2 = s1\<lparr>addormultr := a2\<rparr>"
  have A: "length (addormultr s1) = ?n" using sh F by (simp add: scp_shape_def)
  have st': "st' = roundP_update_betar s2 k ?z r"
    and q2: "poly' = fold (\<lambda>g. out_step s1 2 g (coef2 s1 k ?z g)) [0..<?n] q1"
    using res roundP_point2_gates [OF A, of k ?z r q1] F F'
    unfolding doRoundP_def Let_def s1_def [symmetric] q1_def [symmetric] by (simp_all add: s2_def a2_def)
  have S1: "slots_of st 1 (\<lambda>g. if bit_at g k then addormultr st ! g * betar st ! (g div 2 ^ k) else 0) poly ?n q1"
    unfolding q1_def using slot_less [of _ ?B 1] by (intro roundP_point1_steps len zero) (simp add: len)
  have "q1 ! (b * 3 + 2) = 0" if "b < ?B" for b
    using S1 [unfolded slots_of_def, THEN conjunct2, rule_format, OF that, of 2] zero [of "b * 3 + 2"]
      slot_less [OF that, of 2] len by simp
  then have S2: "slots_of s1 2 (coef2 s1 k ?z) q1 ?n poly'"
    unfolding q2 using S1 F' by (intro out_steps_slots) (auto simp: slots_of_def)
  have pt1: "poly' ! (b * 3 + 1) = P_poly st k b 1 mod ?p" if b: "b < ?B" for b
  proof -
    have "poly' ! (b * 3 + 1) = q1 ! (b * 3 + 1)" using S2 [unfolded slots_of_def F', THEN conjunct2, rule_format, OF b, of 1] by simp
    also have "\<dots> = P_poly st k b 1 mod ?p"
      unfolding P_poly_def round_poly_def
    proof (rule slots_of_sum [OF S1 b])
      fix g assume g: "g < ?n"
      have "betar st ! (g div 2 ^ k) mod ?p = sel (bit_at g k) ?z * P_weight st (Suc k) g mod ?p"
        using beta_weight [OF bi g] P_weight_step [OF k] by simp
      then have "outVals st ! b ! g * (addormultr st ! g * betar st ! (g div 2 ^ k)) mod ?p =
         outVals st ! b ! g * (addormultr st ! g * (sel (bit_at g k) ?z * P_weight st (Suc k) g)) mod ?p"
        by (intro mod_mult_cong refl)
      then show "outVals st ! b ! g * (if bit_at g k then addormultr st ! g * betar st ! (g div 2 ^ k) else 0) mod ?p
          = addormultr st ! g * sel (bit_at g k) 1 * P_term st k b g 1 mod ?p"
        by (simp add: P_term_def sel_def eq_ext_def mult_ac)
    qed simp
    finally show ?thesis .
  qed
  have w1: "betar s1 ! (g div 2 ^ Suc k) mod ?p = P_weight st (Suc k) g mod ?p" if "g < ?n" for g
    using D [OF idx_le_last [OF that]] by (simp add: P_weight_def)
  have pt2: "poly' ! (b * 3 + 2) = P_poly st k b 2 mod ?p" if b: "b < ?B" for b
    unfolding P_poly_def round_poly_def F(1) [symmetric]
  proof (rule slots_of_sum [OF S2])
    fix g assume g: "g < ?n"
    have "outVals st ! b ! g * (betar s1 ! (g div 2 ^ Suc k) * (eq_ext ?z 2 mod ?p) mod ?p * (addormultr st ! g * sel (bit_at g k) 2 mod ?p)) mod ?p
      = outVals st ! b ! g * (P_weight st (Suc k) g * eq_ext ?z 2 * (addormultr st ! g * sel (bit_at g k) 2)) mod ?p"
    proof (intro mod_mult_cong refl)
      have "betar s1 ! (g div 2 ^ Suc k) * (eq_ext ?z 2 mod ?p) mod ?p = P_weight st (Suc k) g * eq_ext ?z 2 mod ?p"
        using w1 [OF g] by (intro mod_mult_cong) simp_all
      then show "betar s1 ! (g div 2 ^ Suc k) * (eq_ext ?z 2 mod ?p) mod ?p mod ?p = P_weight st (Suc k) g * eq_ext ?z 2 mod ?p"
        by simp
    qed simp
    moreover have "mle_si 2 (1 - ?z) ?z ?p = eq_ext ?z 2 mod ?p" by (simp add: mle_si_eq eq_ext_def mult.commute)
    ultimately show "outVals s1 ! b ! g * coef2 s1 k ?z g mod scprime s1 = addormultr st ! g * sel (bit_at g k) 2 * P_term st k b g 2 mod scprime s1"
      by (simp add: coef2_def F modmult_def mulmle2_si_eq P_term_def mult_ac)
  qed (use b F' in simp_all)
  have sh2: "scp_shape s2"
    by (rule keeps_shape [OF _ sh]) (use sh F in \<open>simp_all add: s2_def a2_def keeps_def scp_shape_def\<close>)
  have G: "out_size s2 = ?n" "out_logSize s2 = out_logSize st" "last_idx s2 j = last_idx st j" for j
    using F' by (simp_all add: s2_def out_size_def out_logSize_def last_idx_def)
  have H: "keeps st st'" using F by (simp add: keeps_def st' s2_def)
  note K = keeps_fields [OF H]
  have pb: "partialBetar st' = partialBetar st * eq_ext ?z r mod ?p"
    using F by (simp add: st' update_betar_partial s2_def)
  have "beta_inv st' (Suc k)" unfolding beta_inv_def K
  proof (intro allI impI)
    fix i assume "i \<le> last_idx st' (Suc k)"
    then have i: "i \<le> last_idx st (Suc k)" using K by (simp add: last_idx_def)
    let ?L = "lagr i (\<lambda>j. zvec st ! (Suc k + j)) (out_logSize st - Suc k)"
    have "betar st' ! i mod ?p = betar s1 ! i * eq_ext ?z r mod ?p"
      using update_betar_nth [of i s2 k ?z r] i sh2 G F by (simp add: st' s2_def mod_mult_right_eq)
    also have "\<dots> = partialBetar st * ?L * eq_ext ?z r mod ?p" using D [OF i] by (intro mod_mult_cong refl)
    also have "\<dots> = partialBetar st * eq_ext ?z r mod ?p * ?L mod ?p" by (simp add: mod_mult_left_eq mult_ac)
    finally show "betar st' ! i mod ?p = partialBetar st' * ?L mod ?p" by (simp only: pb)
  qed
  moreover have "scp_shape st'"
    by (rule keeps_shape [OF H sh]) (use sh F in \<open>simp_all add: st' s2_def a2_def scp_shape_def\<close>)
  moreover have "poly' ! (b * 3 + i) = P_poly st k b (int i) mod ?p" if "b < ?B" "0 < i" "i < 3" for b i
  proof -
    have "i = 1 \<or> i = 2" using that by auto
    then show ?thesis using pt1 [OF that(1)] pt2 [OF that(1)] by auto
  qed
  moreover have "length poly' = ?B * 3" using S2 F' by (simp add: slots_of_def)
  moreover have "addormultr st' ! g = addormultr st ! g * sel (bit_at g k) r mod ?p" if "g < ?n" for g
    using that by (simp add: st' s2_def a2_def)
  ultimately show ?thesis using H pb F by (auto simp: st' s2_def)
qed

lemma claimP_next:
  assumes K: "keeps st st'" and b: "b < batchSize st"
    and pb: "partialBetar st' = partialBetar st * eq_ext (zvec st ! k) r mod scprime st"
    and ad: "\<And>g. g < out_size st \<Longrightarrow> addormultr st' ! g = addormultr st ! g * sel (bit_at g k) r mod scprime st"
  shows "claimP st' (Suc k) b mod scprime st = P_poly st k b r mod scprime st"
  unfolding claimP_def P_poly_def round_poly_def keeps_fields [OF K]
proof (rule sum_mod_cong, rule mod_mult_cong)
  fix g assume g: "g \<in> {..<out_size st}"
  then show "addormultr st' ! g mod scprime st = addormultr st ! g * sel (bit_at g k) r mod scprime st"
    by (simp add: ad)
  have "P_weight st' (Suc k) g mod scprime st = P_weight st (Suc k) g * eq_ext (zvec st ! k) r mod scprime st"
    unfolding P_weight_def keeps_fields [OF K] pb by (simp add: mod_mult_left_eq mult_ac)
  then have "P_weight st' (Suc k) g * outVals st ! b ! g mod scprime st =
      P_weight st (Suc k) g * eq_ext (zvec st ! k) r * outVals st ! b ! g mod scprime st"
    by (intro mod_mult_cong refl)
  then show "P_weight st' (Suc k) g * outVals st ! b ! g mod scprime st = P_term st k b g r mod scprime st"
    by (simp add: P_term_def mult_ac)
qed

end
