(* ===== verification/Sumcheck_Run.thy ===== *)
theory Sumcheck_Run
  imports Sumcheck_Label_Poly
begin

text \<open>
  The honest prover's rounds in sequence: the claim before every round, the polynomial the round sends,
  and what the coins have made of the weights and of the folded input values.
\<close>

section \<open>The claim before a round\<close>

definition begin_betas :: "SumCheckProver \<Rightarrow> nat \<Rightarrow> SumCheckProver" where
  "begin_betas st k = (if k = 0 then (computeBetaZAll st)\<lparr>partialBetar := 1\<rparr> else st)"

definition take_V1s :: "SumCheckProver \<Rightarrow> nat \<Rightarrow> SumCheckProver" where
  "take_V1s st k = (if k = out_logSize st + in_logSize st
     then st\<lparr>V1s := map (\<lambda>b. vals st ! b ! 0) [0..<batchSize st]\<rparr> else st)"

definition enter_round :: "SumCheckProver \<Rightarrow> nat \<Rightarrow> SumCheckProver" where
  "enter_round st k =
     (let st = take_V1s (begin_betas st k) k
      in if k < out_logSize st then st
         else if k < out_logSize st + in_logSize st then load_vals st (k - out_logSize st)
         else load_vals st (k - out_logSize st - in_logSize st))"

lemma keeps_begin: "keeps st (begin_betas st k)" "keeps st (take_V1s st k)"
  by (simp_all add: keeps_def begin_betas_def take_V1s_def computeBetaZAll_def)

lemmas begin_fields [simp] = keeps_begin [THEN keeps_fields(1)] keeps_begin [THEN keeps_fields(2)]
  keeps_begin [THEN keeps_fields(3)] keeps_begin [THEN keeps_fields(4)] keeps_begin [THEN keeps_fields(5)]
  keeps_begin [THEN keeps_fields(6)] keeps_begin [THEN keeps_fields(7)] keeps_begin [THEN keeps_fields(8)]
  keeps_begin [THEN keeps_fields(9)] keeps_begin [THEN keeps_fields(10)]

lemma take_V1s_fields [simp]:
  "vals (take_V1s st k) = vals st" "betar (take_V1s st k) = betar st" "addormultr (take_V1s st k) = addormultr st"
  "partialBetar (take_V1s st k) = partialBetar st" "expected (take_V1s st k) = expected st"
  by (simp_all add: take_V1s_def)

lemma begin_betas_fields [simp]:
  "vals (begin_betas st k) = vals st" "V1s (begin_betas st k) = V1s st" "addormultr (begin_betas st k) = addormultr st"
  "expected (begin_betas st k) = expected st"
  by (simp_all add: begin_betas_def computeBetaZAll_def)

definition sc_claim :: "SumCheckProver \<Rightarrow> nat \<Rightarrow> nat \<Rightarrow> int" where
  "sc_claim st k b =
     (if k < out_logSize st then claimP (enter_round st k) k b
      else if k < out_logSize st + in_logSize st then claimO True (enter_round st k) (k - out_logSize st) b
      else claimO False (enter_round st k) (k - out_logSize st - in_logSize st) b)"

definition sc_poly :: "SumCheckProver \<Rightarrow> nat \<Rightarrow> nat \<Rightarrow> int \<Rightarrow> int" where
  "sc_poly st k b =
     (if k < out_logSize st then P_poly (enter_round st k) k b
      else if k < out_logSize st + in_logSize st then O_poly True (enter_round st k) (k - out_logSize st) b
      else O_poly False (enter_round st k) (k - out_logSize st - in_logSize st) b)"

lemma polyfn_sc_poly: "polyfn p 3 (sc_poly st k b)"
  by (simp add: sc_poly_def polyfn_P_poly polyfn_O_poly)

lemma enter_round_keeps: "keeps st (enter_round st k)"
  by (simp add: enter_round_def keeps_def Let_def)

lemmas enter_round_fields [simp] = keeps_fields [OF enter_round_keeps]

lemma sc_claim_01: "sc_poly st k b 0 + sc_poly st k b 1 = sc_claim st k b"
  by (simp add: sc_poly_def sc_claim_def claimO_01 claimP_01)

lemma scp_sizes:
  assumes "scp_shape st"
  shows "0 < out_logSize st" "0 < in_logSize st" "out_size st \<le> 2 ^ out_logSize st" "in_size st \<le> 2 ^ in_logSize st"
  using assms le_two_power_log2i [of "length (wires st)"] le_two_power_log2i [of "in_size st"]
  by (auto simp: scp_shape_def out_logSize_def in_logSize_def out_size_def intro: log2i_pos)

lemma enter_round_shape:
  assumes "scp_shape st" and "out_logSize st \<le> length (zvec st)"
  shows "scp_shape (enter_round st k)"
proof -
  have s1: "scp_shape (begin_betas st k)"
    by (rule keeps_shape [OF keeps_begin(1) assms(1)])
      (use assms(1) in \<open>simp_all add: scp_shape_def, simp add: begin_betas_def computeBetaZAll_def\<close>)
  have "scp_shape (take_V1s (begin_betas st k) k)"
    by (rule keeps_shape [OF keeps_begin(2) s1])
      (use s1 in \<open>simp_all add: scp_shape_def, simp add: take_V1s_def\<close>)
  then show ?thesis unfolding enter_round_def Let_def by (auto intro: load_vals_shape)
qed

section \<open>One answer of the prover\<close>

definition scp_ready :: "(mpz \<Rightarrow> mpz \<Rightarrow> mpz) \<Rightarrow> SumCheckProver \<Rightarrow> bool" where
  "scp_ready mpz_invert st \<longleftrightarrow> gmp_invert mpz_invert \<and> prime_modulus (scprime st) \<and> scp_shape st \<and>
     out_logSize st \<le> length (zvec st) \<and> zvec st ! (out_logSize st - 1) mod scprime st \<noteq> 1 \<and>
     (\<forall>b < batchSize st. \<forall>g < out_size st. outVals st ! b ! g mod scprime st =
        gate_op (wires st ! g) (inVals st ! b ! in1 (wires st ! g)) (inVals st ! b ! in2 (wires st ! g)) mod scprime st)"

lemma scp_ready_last:
  assumes "scp_ready mpz_invert st" and "Suc k = out_logSize st"
  shows "(1 - zvec st ! k) mod scprime st \<noteq> 0"
proof
  assume "(1 - zvec st ! k) mod scprime st = 0"
  then have "zvec st ! k mod scprime st = 1 mod scprime st" by (metis mod_eq_dvd_iff dvd_eq_mod_eq_0)
  moreover have "2 < scprime st" using assms(1) by (auto simp: scp_ready_def)
  moreover have "k = out_logSize st - 1" using assms(2) by simp
  ultimately show False using assms(1) by (auto simp: scp_ready_def)
qed

text \<open>What the rounds so far leave in \<open>betar\<close>.\<close>

definition weights_inv :: "SumCheckProver \<Rightarrow> nat \<Rightarrow> bool" where
  "weights_inv st k \<longleftrightarrow> (0 < k \<and> k \<le> out_logSize st \<longrightarrow> beta_inv st k) \<and>
     (out_logSize st \<le> k \<longrightarrow> betar st ! 0 mod scprime st = partialBetar st mod scprime st)"

lemma beta_inv_final:
  assumes "beta_inv st (out_logSize st)"
  shows "betar st ! 0 mod scprime st = partialBetar st mod scprime st"
  using assms by (simp add: beta_inv_def)

lemma weights_enter:
  assumes "scp_ready mpz_invert st" and "weights_inv st k"
  shows "k < out_logSize st \<Longrightarrow> beta_inv (enter_round st k) k"
    "out_logSize st \<le> k \<Longrightarrow> betar (enter_round st k) ! 0 mod scprime st = partialBetar (enter_round st k) mod scprime st"
proof -
  have pos: "0 < out_logSize st" "0 < in_logSize st" using scp_sizes assms(1) by (auto simp: scp_ready_def)
  have p: "1 < scprime st" using assms(1) by (auto simp: scp_ready_def)
  show "beta_inv (enter_round st k) k" if "k < out_logSize st"
  proof (cases "k = 0")
    case True
    have "enter_round st 0 = (computeBetaZAll st)\<lparr>partialBetar := 1\<rparr>"
      using pos by (simp add: enter_round_def Let_def take_V1s_def) (simp add: begin_betas_def)
    with True beta_inv_start [OF p] assms(1) show ?thesis by (auto simp: scp_ready_def)
  next
    case False
    then have "enter_round st k = st" using that by (simp add: enter_round_def begin_betas_def take_V1s_def)
    with False that assms(2) show ?thesis by (simp add: weights_inv_def)
  qed
  show "betar (enter_round st k) ! 0 mod scprime st = partialBetar (enter_round st k) mod scprime st" if "out_logSize st \<le> k"
    using that assms(2) pos by (simp add: enter_round_def Let_def weights_inv_def begin_betas_def)
qed

definition round_bit :: "SumCheckProver \<Rightarrow> nat \<Rightarrow> nat \<Rightarrow> bool" where
  "round_bit st k g =
     (if k < out_logSize st then bit_at g k
      else if k < out_logSize st + in_logSize st then bit_at (in1 (wires st ! g)) (k - out_logSize st)
      else bit_at (in2 (wires st ! g)) (k - out_logSize st - in_logSize st))"

text \<open>What a round does to the state, the polynomial's inferred slot aside.\<close>

definition round_facts :: "SumCheckProver \<Rightarrow> nat \<Rightarrow> mpz \<Rightarrow> SumCheckProver \<Rightarrow> mpz_vec \<Rightarrow> bool" where
  "round_facts st k r st' poly \<longleftrightarrow>
     keeps st st' \<and> scp_shape st' \<and> expected st' = expected st \<and> weights_inv st' (Suc k) \<and>
     length poly = batchSize st * 3 \<and>
     partialBetar st' mod scprime st =
       (if k < out_logSize st then partialBetar (enter_round st k) * eq_ext (zvec st ! k) r else partialBetar st) mod scprime st \<and>
     (\<forall>g < out_size st. addormultr st' ! g = addormultr st ! g * sel (round_bit st k g) r mod scprime st) \<and>
     (out_logSize st \<le> k \<longrightarrow> (\<forall>b < batchSize st. \<forall>i < 2 ^ (in_logSize st - Suc ((k - out_logSize st) mod in_logSize st)).
        vals st' ! b ! i = fold_pair (scprime st) r (vals (enter_round st k) ! b) i)) \<and>
     (out_logSize st + in_logSize st \<le> k \<longrightarrow> V1s st' = V1s (enter_round st k)) \<and>
     (\<forall>b i. b < batchSize st \<longrightarrow> 0 < i \<longrightarrow> i < 3 \<longrightarrow> poly ! (b * 3 + i) = sc_poly st k b (int i) mod scprime st)"

lemma enter_round_weights [simp]:
  "addormultr (enter_round st k) = addormultr st" "expected (enter_round st k) = expected st"
  by (simp_all add: enter_round_def Let_def)

lemma scp_ready_keeps: "scp_ready mpz_invert st \<Longrightarrow> keeps st st' \<Longrightarrow> scp_shape st' \<Longrightarrow> scp_ready mpz_invert st'"
  unfolding scp_ready_def by (simp add: keeps_fields)

text \<open>The claims agree where the rounds change from one kind of label to the next.\<close>

lemma claim_P_to_O:
  assumes R: "scp_ready mpz_invert st" and b: "b < batchSize st"
    and w: "betar st ! 0 mod scprime st = partialBetar st mod scprime st"
  shows "claimO True (load_vals st 0) 0 b mod scprime st = claimP st (out_logSize st) b mod scprime st"
proof -
  let ?p = "scprime st" and ?w = "\<lambda>g. wires st ! g"
  have sh: "scp_shape st" using R by (simp add: scp_ready_def)
  have "addormultr st ! g * (gate_op (?w g) (vals (load_vals st 0) ! b ! in1 (?w g)) (inVals st ! b ! in2 (?w g))) mod ?p
      = addormultr st ! g * outVals st ! b ! g mod ?p" if g: "g < out_size st" for g
  proof (rule mod_mult_cong [OF refl])
    have "vals (load_vals st 0) ! b ! in1 (?w g) = inVals st ! b ! in1 (?w g)"
      using load_vals_0 [OF sh b, of "in1 (?w g)"] shape_in_idx [OF sh g, of True] sh b g
      by (simp add: O_idx_def scp_shape_def)
    with R b g show "gate_op (?w g) (vals (load_vals st 0) ! b ! in1 (?w g)) (inVals st ! b ! in2 (?w g)) mod ?p
      = outVals st ! b ! g mod ?p" by (simp add: scp_ready_def)
  qed
  then have "(\<Sum>g < out_size st. addormultr st ! g * (gate_op (?w g) (vals (load_vals st 0) ! b ! in1 (?w g)) (inVals st ! b ! in2 (?w g)))) mod ?p
      = (\<Sum>g < out_size st. addormultr st ! g * outVals st ! b ! g) mod ?p" by (intro sum_mod_cong) simp
  then have "claimO True (load_vals st 0) 0 b mod ?p = partialBetar st * (\<Sum>g < out_size st. addormultr st ! g * outVals st ! b ! g) mod ?p"
    unfolding claimO_def load_vals_fields O_apply_def O_idx_def using w by (intro mod_mult_cong) simp_all
  also have "partialBetar st * (\<Sum>g < out_size st. addormultr st ! g * outVals st ! b ! g) = claimP st (out_logSize st) b"
    unfolding claimP_def P_weight_def sum_distrib_left by (intro sum.cong) (simp_all add: mult_ac)
  finally show ?thesis .
qed

lemma claim_O1_to_O2:
  assumes sh: "scp_shape st" and b: "b < batchSize st"
  shows "claimO False (load_vals (take_V1s st (out_logSize st + in_logSize st)) 0) 0 b = claimO True st (in_logSize st) b"
proof -
  let ?s = "take_V1s st (out_logSize st + in_logSize st)"
  have sh': "scp_shape ?s"
    by (rule keeps_shape [OF keeps_begin(2) sh]) (use sh in \<open>simp_all add: scp_shape_def, simp add: take_V1s_def\<close>)
  have "O_apply False (load_vals ?s 0) (wires st ! g) b (vals (load_vals ?s 0) ! b ! in2 (wires st ! g)) =
     O_apply True st (wires st ! g) b (vals st ! b ! (in1 (wires st ! g) div 2 ^ in_logSize st))" if g: "g < out_size st" for g
  proof -
    have "vals (load_vals ?s 0) ! b ! in2 (wires st ! g) = inVals st ! b ! in2 (wires st ! g)"
      using load_vals_0 [OF sh', of b "in2 (wires st ! g)"] shape_in_idx [OF sh g, of False] sh b g
      by (simp add: O_idx_def scp_shape_def)
    moreover have "in1 (wires st ! g) div 2 ^ in_logSize st = 0"
      using shape_in_idx [OF sh g, of True] by (simp add: O_idx_def)
    ultimately show ?thesis using b by (simp add: O_apply_def take_V1s_def)
  qed
  then show ?thesis by (simp add: claimO_def O_idx_def)
qed

lemma round_facts_P:
  assumes R: "scp_ready mpz_invert st" and W: "weights_inv st k" and k: "k < out_logSize st"
    and len: "length poly = batchSize st * 3" and zero: "\<And>k. k < length poly \<Longrightarrow> poly ! k = 0"
    and res: "doRoundP mpz_invert (enter_round st k) poly k (zvec st ! k) r = (st', poly')"
  shows "round_facts st k r st' poly' \<and>
    (\<forall>b < batchSize st. sc_claim st' (Suc k) b mod scprime st = sc_poly st k b r mod scprime st)"
proof -
  let ?s = "enter_round st k" and ?p = "scprime st"
  have sh: "scp_shape ?s" and zl: "out_logSize st \<le> length (zvec st)"
    using R enter_round_shape by (auto simp: scp_ready_def)
  have F: "keeps ?s st' \<and> scp_shape st' \<and> beta_inv st' (Suc k) \<and> expected st' = expected st \<and>
    length poly' = batchSize st * 3 \<and>
    partialBetar st' = partialBetar ?s * eq_ext (zvec st ! k) r mod ?p \<and>
    (\<forall>g < out_size st. addormultr st' ! g = addormultr st ! g * sel (bit_at g k) r mod ?p) \<and>
    (\<forall>b i. b < batchSize st \<longrightarrow> 0 < i \<longrightarrow> i < 3 \<longrightarrow> poly' ! (b * 3 + i) = P_poly ?s k b (int i) mod ?p)"
    using doRoundP_round [of mpz_invert ?s k poly r st' poly'] R sh zl k weights_enter(1) [OF R W k] len zero res
      scp_ready_last [OF R] by (simp add: scp_ready_def)
  have K: "keeps st st'" using F enter_round_keeps keeps_trans by blast
  note KF = keeps_fields [OF K]
  have B: "beta_inv st' (Suc k)" using F by simp
  have W': "weights_inv st' (Suc k)"
  proof (cases "Suc k = out_logSize st")
    case True
    then have "Suc k = out_logSize st'" using KF by simp
    with B beta_inv_final [of st'] show ?thesis by (simp add: weights_inv_def)
  next
    case False
    with B k KF show ?thesis by (simp add: weights_inv_def)
  qed
  have "sc_claim st' (Suc k) b mod ?p = sc_poly st k b r mod ?p" if b: "b < batchSize st" for b
  proof -
    have nx: "claimP st' (Suc k) b mod ?p = P_poly ?s k b r mod ?p"
      using claimP_next [of ?s st' b k r] F b by simp
    show ?thesis
    proof (cases "Suc k = out_logSize st")
      case True
      have pos: "0 < in_logSize st" using R scp_sizes by (auto simp: scp_ready_def)
      have "enter_round st' (Suc k) = load_vals st' 0"
        using True KF pos by (simp add: enter_round_def begin_betas_def take_V1s_def Let_def)
      then have "sc_claim st' (Suc k) b = claimO True (load_vals st' 0) 0 b"
        using True KF pos by (simp add: sc_claim_def)
      moreover have "claimO True (load_vals st' 0) 0 b mod ?p = claimP st' (Suc k) b mod ?p"
        using claim_P_to_O [OF scp_ready_keeps [OF R K]] F W' True KF b by (simp add: weights_inv_def)
      ultimately show ?thesis using nx k by (simp add: sc_poly_def)
    next
      case False
      then have "enter_round st' (Suc k) = st'" "Suc k < out_logSize st'"
        using k KF by (simp_all add: enter_round_def begin_betas_def take_V1s_def)
      with nx k KF show ?thesis by (simp add: sc_claim_def sc_poly_def)
    qed
  qed
  moreover have "round_facts st k r st' poly'"
    unfolding round_facts_def using F K W' k by (simp add: round_bit_def sc_poly_def)
  ultimately show ?thesis by simp
qed

text \<open>Rounds over the two input labels: \<open>(k - out_logSize st) mod in_logSize st\<close> is the variable.\<close>

lemma O_round_var:
  assumes "out_logSize st \<le> k" and "k < numRounds st" and "0 < in_logSize st"
  shows "(k - out_logSize st) mod in_logSize st =
     (if k < out_logSize st + in_logSize st then k - out_logSize st else k - out_logSize st - in_logSize st)"
proof (cases "k < out_logSize st + in_logSize st")
  case False
  then have "k - out_logSize st = k - out_logSize st - in_logSize st + in_logSize st" by simp
  moreover have "k - out_logSize st - in_logSize st < in_logSize st"
    using assms(2) False by (simp add: numRounds_def)
  ultimately show ?thesis using False by (metis mod_add_self2 mod_less)
qed (use assms in simp)

lemma enter_round_O:
  assumes "out_logSize st \<le> k" and "k < numRounds st" and "scp_shape st"
  shows "enter_round st k = load_vals (take_V1s st k) ((k - out_logSize st) mod in_logSize st)"
  using assms scp_sizes [OF assms(3)] O_round_var [OF assms(1,2)]
  by (simp add: enter_round_def begin_betas_def Let_def)

lemma sc_claim_after_O:
  assumes sh: "scp_shape st" and k: "out_logSize st \<le> k" "k < numRounds st" and b: "b < batchSize st"
  shows "sc_claim st (Suc k) b =
    claimO (k < out_logSize st + in_logSize st) st (Suc ((k - out_logSize st) mod in_logSize st)) b"
proof -
  note pos = scp_sizes [OF sh] and j = O_round_var [OF k scp_sizes(2) [OF sh]]
  consider "Suc k < out_logSize st + in_logSize st" | "Suc k = out_logSize st + in_logSize st"
    | "out_logSize st + in_logSize st \<le> k" by linarith
  then show ?thesis
  proof cases
    case 1
    then have "enter_round st (Suc k) = st" using k
      by (simp add: enter_round_def begin_betas_def take_V1s_def Let_def load_vals_def)
    with 1 k j show ?thesis by (simp add: sc_claim_def Suc_diff_le)
  next
    case 2
    then have "enter_round st (Suc k) = load_vals (take_V1s st (out_logSize st + in_logSize st)) 0"
      using k pos by (simp add: enter_round_def begin_betas_def Let_def)
    then have "sc_claim st (Suc k) b = claimO True st (in_logSize st) b"
      using 2 k pos claim_O1_to_O2 [OF sh b] by (simp add: sc_claim_def)
    moreover have "Suc (k - out_logSize st) = in_logSize st" using 2 k by simp
    ultimately show ?thesis using 2 k j by simp
  next
    case 3
    then have "enter_round st (Suc k) = st" using k
      by (simp add: enter_round_def begin_betas_def take_V1s_def Let_def load_vals_def)
    with 3 k j show ?thesis by (simp add: sc_claim_def Suc_diff_le)
  qed
qed

lemma take_V1s_shape: "scp_shape st \<Longrightarrow> scp_shape (take_V1s st k)"
  by (rule keeps_shape [OF keeps_begin(2)]) (simp_all add: scp_shape_def, simp add: take_V1s_def)

lemma round_facts_O:
  assumes R: "scp_ready mpz_invert st" and W: "weights_inv st k" and k: "out_logSize st \<le> k" "k < numRounds st"
    and len: "length poly = batchSize st * 3" and zero: "\<And>k. k < length poly \<Longrightarrow> poly ! k = 0"
    and res: "doRoundO (take_V1s st k) poly ((k - out_logSize st) mod in_logSize st) r
      (k < out_logSize st + in_logSize st) = (st', poly')"
  shows "round_facts st k r st' poly' \<and>
    (\<forall>b < batchSize st. sc_claim st' (Suc k) b mod scprime st = sc_poly st k b r mod scprime st)"
proof -
  let ?t = "take_V1s st k" and ?j = "(k - out_logSize st) mod in_logSize st" and ?p = "scprime st"
    and ?o = "k < out_logSize st + in_logSize st"
  have sh: "scp_shape st" using R by (simp add: scp_ready_def)
  note pos = scp_sizes [OF sh] and er = enter_round_O [OF k sh] and jv = O_round_var [OF k scp_sizes(2) [OF sh]]
  have j: "?j < in_logSize ?t" using pos by simp
  have len': "length poly = batchSize ?t * 3" using len by simp
  note D = doRoundO_round [OF take_V1s_shape [OF sh] j len' zero res]
  have K: "keeps st st'" using D keeps_begin(2) keeps_trans by blast
  note KF = keeps_fields [OF K]
  have poly: "sc_poly st k b = O_poly ?o (enter_round st k) ?j b" for b
    using k jv by (simp add: sc_poly_def)
  have bit: "O_bit ?o ?t ?j g = round_bit st k g" for g
    using k jv by (auto simp: O_idx_def round_bit_def)
  have "sc_claim st' (Suc k) b mod ?p = sc_poly st k b r mod ?p" if b: "b < batchSize st" for b
  proof -
    have "sc_claim st' (Suc k) b = claimO ?o st' (Suc ?j) b"
      using sc_claim_after_O [of st' k b] D k b KF by (simp add: numRounds_def)
    moreover have "claimO ?o st' (Suc ?j) b mod ?p = sc_poly st k b r mod ?p"
      using claimO_next [OF take_V1s_shape [OF sh] j len' zero res, of b] b unfolding poly er by simp
    ultimately show ?thesis by simp
  qed
  moreover have "round_facts st k r st' poly'"
    unfolding round_facts_def
  proof (intro conjI)
    show "keeps st st'" "scp_shape st'" "expected st' = expected st" "length poly' = batchSize st * 3"
      using K D by simp_all
    show "weights_inv st' (Suc k)" using D W k KF by (simp add: weights_inv_def)
    show "partialBetar st' mod ?p = (if k < out_logSize st then partialBetar (enter_round st k) * eq_ext (zvec st ! k) r
        else partialBetar st) mod ?p" using D k by simp
    show "\<forall>g < out_size st. addormultr st' ! g = addormultr st ! g * sel (round_bit st k g) r mod ?p"
      using D bit by simp
    show "out_logSize st \<le> k \<longrightarrow> (\<forall>b < batchSize st. \<forall>i < 2 ^ (in_logSize st - Suc ?j).
        vals st' ! b ! i = fold_pair ?p r (vals (enter_round st k) ! b) i)" unfolding er using D by simp
    show "out_logSize st + in_logSize st \<le> k \<longrightarrow> V1s st' = V1s (enter_round st k)" unfolding er using D by simp
    show "\<forall>b i. b < batchSize st \<longrightarrow> 0 < i \<longrightarrow> i < 3 \<longrightarrow> poly' ! (b * 3 + i) = sc_poly st k b (int i) mod ?p"
      unfolding poly er using D by simp
  qed
  ultimately show ?thesis by simp
qed

text \<open>\<^verbatim>\<open>doRound\<close>: the slot for 0 is inferred from the expected value.\<close>

lemma infer_point0_slots:
  assumes "length q = batchSize st * 3"
  shows "length (infer_point0 st q) = batchSize st * 3 \<and>
    (\<forall>b k. b < batchSize st \<longrightarrow> k < 3 \<longrightarrow> infer_point0 st q ! (b * 3 + k) =
       (if k = 0 then (expected st ! b - q ! (b * 3 + 1)) mod scprime st else q ! (b * 3 + k)))"
proof -
  let ?h = "\<lambda>b q. (expected st ! b - q ! (b * 3 + 1)) mod scprime st"
  have eq: "infer_point0 st q = fold (\<lambda>b q. q[b * 3 + 0 := ?h b q]) [0..<batchSize st] q"
    by (simp add: infer_point0_def polySize_def modsub_def)
  have h: "?h b q = ?h b q'"
    if "\<And>k. k < 3 \<Longrightarrow> k \<noteq> 0 \<Longrightarrow> q ! (b * 3 + k) = q' ! (b * 3 + k)" for b and q q' :: mpz_vec
    using that [of 1] by simp
  show ?thesis unfolding eq by (rule fold_slots [OF assms _ h]) simp_all
qed

lemma take_begin:
  "(if k = out_logSize st + in_logSize st then (begin_betas st k)\<lparr>V1s := map (\<lambda>b. vals (begin_betas st k) ! b ! 0)
      [0..<batchSize (begin_betas st k)]\<rparr> else begin_betas st k) = take_V1s (begin_betas st k) k"
  by (simp add: take_V1s_def)

lemma doRound_unfold:
  assumes "k < numRounds st"
  shows "doRound mpz_invert st poly k r =
    (let t = take_V1s (begin_betas st k) k; q0 = map (\<lambda>_. 0) poly;
         (s, q) = (if k < out_logSize st then doRoundP mpz_invert t q0 k (zvec st ! k) r
                   else if k < out_logSize st + in_logSize st then doRoundO t q0 (k - out_logSize st) r True
                   else doRoundO t q0 (k - out_logSize st - in_logSize st) r False)
     in (s, infer_point0 s q))"
  using assms unfolding doRound_def Let_def begin_betas_def [symmetric] take_begin by (simp add: numRounds_def)

lemma doRound_facts:
  assumes R: "scp_ready mpz_invert st" and W: "weights_inv st k" and k: "k < numRounds st"
    and len: "length poly = batchSize st * 3" and res: "doRound mpz_invert st poly k r = (st', poly')"
  shows "(\<exists>q. round_facts st k r st' q \<and> poly' = infer_point0 st' q) \<and>
    (\<forall>b < batchSize st. sc_claim st' (Suc k) b mod scprime st = sc_poly st k b r mod scprime st)"
proof -
  let ?q0 = "map (\<lambda>_. 0) poly :: mpz_vec" and ?t = "take_V1s (begin_betas st k) k"
  have sh: "scp_shape st" using R by (simp add: scp_ready_def)
  have len0: "length ?q0 = batchSize st * 3" and zero: "\<And>k. k < length ?q0 \<Longrightarrow> ?q0 ! k = 0" using len by simp_all
  show ?thesis
  proof (cases "k < out_logSize st")
    case True
    obtain s q where sq: "doRoundP mpz_invert (enter_round st k) ?q0 k (zvec st ! k) r = (s, q)" by fastforce
    have "enter_round st k = ?t" using True by (simp add: enter_round_def)
    then have "st' = s" "poly' = infer_point0 s q"
      using res True sq by (auto simp: doRound_unfold [OF k])
    with round_facts_P [OF R W True len0 zero sq] show ?thesis by blast
  next
    case False
    then have k': "out_logSize st \<le> k" by simp
    have "?t = take_V1s st k" using k' scp_sizes [OF sh] by (simp add: begin_betas_def)
    moreover obtain s q where sq: "doRoundO (take_V1s st k) ?q0 ((k - out_logSize st) mod in_logSize st) r
      (k < out_logSize st + in_logSize st) = (s, q)" by fastforce
    ultimately have "st' = s" "poly' = infer_point0 s q"
      using res False O_round_var [OF k' k scp_sizes(2) [OF sh]]
      by (auto simp: doRound_unfold [OF k] split: if_splits)
    with round_facts_O [OF R W k' k len0 zero sq] show ?thesis by blast
  qed
qed

end
