(* ===== verification/Sumcheck_Invariant.thy ===== *)
theory Sumcheck_Invariant
  imports Sumcheck_Run
begin

text \<open>
  The invariant of the honest prover across the rounds of a sum-check: the expected value is the claim,
  the weights are products of Lagrange factors at the coins, and the folded input values are partial
  evaluations of the multilinear extension of the input layer.
\<close>

section \<open>Partial evaluations\<close>

definition at0 :: "mpz_vec \<Rightarrow> nat \<Rightarrow> int" where
  "at0 xs i = (if i < length xs then xs ! i else 0)"

definition partial_mle :: "mpz_vec \<Rightarrow> (nat \<Rightarrow> int) \<Rightarrow> nat \<Rightarrow> nat \<Rightarrow> int" where
  "partial_mle xs f j i = (\<Sum>x < 2 ^ j. at0 xs (i * 2 ^ j + x) * lagr x f j)"

lemma partial_mle_0 [simp]: "partial_mle xs f 0 i = at0 xs i"
  by (simp add: partial_mle_def)

lemma sum_halves:
  fixes h :: "nat \<Rightarrow> int"
  shows "(\<Sum>x < 2 ^ Suc j. h x) = (\<Sum>x < 2 ^ j. h x) + (\<Sum>x < 2 ^ j. h (2 ^ j + x))"
proof -
  have "sum h {0..<2 ^ j} + sum h {2 ^ j..<2 ^ Suc j} = sum h {0..<2 ^ Suc j}"
    by (rule sum.atLeastLessThan_concat) simp_all
  moreover have "sum h {0 + 2 ^ j..<2 ^ j + 2 ^ j} = (\<Sum>x = 0..<2 ^ j. h (x + 2 ^ j))"
    by (rule sum.shift_bounds_nat_ivl)
  ultimately show ?thesis by (simp add: atLeast0LessThan add.commute mult_2)
qed

lemma partial_mle_Suc:
  "partial_mle xs f (Suc j) i = (1 - f j) * partial_mle xs f j (2 * i) + f j * partial_mle xs f j (2 * i + 1)"
proof -
  have lo: "at0 xs (i * 2 ^ Suc j + x) * lagr x f (Suc j) = (1 - f j) * (at0 xs (2 * i * 2 ^ j + x) * lagr x f j)"
    if "x < 2 ^ j" for x
    using bit_at_zero_high [OF that, of j] by (simp add: lagr_Suc sel_def mult_ac)
  have hi: "at0 xs (i * 2 ^ Suc j + (2 ^ j + x)) * lagr (2 ^ j + x) f (Suc j) =
      f j * (at0 xs ((2 * i + 1) * 2 ^ j + x) * lagr x f j)" if "x < 2 ^ j" for x
  proof -
    have "bit_at (x + 2 ^ j * 1) (j + 0) = bit_at 1 0" by (rule bit_at_high [OF that])
    then have b: "bit_at (2 ^ j + x) j" by (simp add: bit_at_0 add.commute)
    have l: "lagr (2 ^ j + x) f j = lagr x f j" using lagr_add_high [OF that, of 1 f] by (simp add: add.commute)
    have "i * 2 ^ Suc j + (2 ^ j + x) = (2 * i + 1) * 2 ^ j + x" by (simp add: algebra_simps)
    then show ?thesis unfolding lagr_Suc using b l by (simp only: sel_def if_True mult_ac)
  qed
  show ?thesis
    unfolding partial_mle_def sum_halves sum_distrib_left
    by (intro arg_cong2 [where f = "(+)"] sum.cong refl) (use lo hi in simp_all)
qed

lemma partial_mle_full:
  assumes "length xs \<le> 2 ^ m" shows "partial_mle xs f m 0 = mle_at xs f m"
proof -
  have "(\<Sum>x < 2 ^ m. at0 xs x * lagr x f m) = (\<Sum>x < length xs. at0 xs x * lagr x f m)"
    using assms by (intro sum.mono_neutral_right) (auto simp: at0_def)
  then show ?thesis by (simp add: partial_mle_def mle_at_def at0_def)
qed

lemma fold_pair_partial:
  assumes "\<And>i'. i' = 2 * i \<or> i' = 2 * i + 1 \<Longrightarrow> vs ! i' mod p = partial_mle xs f j i' mod p"
  shows "fold_pair p (f j) vs i = partial_mle xs f (Suc j) i mod p"
proof -
  have "fold_pair p (f j) vs i = fold_pair p (f j) vs i mod p" by (simp add: fold_pair_def)
  also have "\<dots> = ((1 - f j) * partial_mle xs f j (2 * i) + f j * partial_mle xs f j (2 * i + 1)) mod p"
    unfolding fold_pair_mod by (intro mod_add_cong mod_mult_cong refl assms) simp_all
  finally show ?thesis by (simp only: partial_mle_Suc)
qed

section \<open>The invariant\<close>

text \<open>\<open>c i\<close> is the coin of round \<open>i\<close>. \<open>vals_after\<close> describes \<open>vals\<close> after round \<open>k\<close>.\<close>

definition O_off :: "SumCheckProver \<Rightarrow> nat \<Rightarrow> nat" where
  "O_off st k = (if k < out_logSize st + in_logSize st then out_logSize st else out_logSize st + in_logSize st)"

definition vals_after :: "(nat \<Rightarrow> int) \<Rightarrow> nat \<Rightarrow> SumCheckProver \<Rightarrow> bool" where
  "vals_after c k st \<longleftrightarrow>
     (let j = Suc ((k - out_logSize st) mod in_logSize st)
      in \<forall>b < batchSize st. \<forall>i < 2 ^ (in_logSize st - j).
           vals st ! b ! i = partial_mle (inVals st ! b) (\<lambda>x. c (O_off st k + x)) j i mod scprime st)"

definition V1s_after :: "(nat \<Rightarrow> int) \<Rightarrow> SumCheckProver \<Rightarrow> bool" where
  "V1s_after c st \<longleftrightarrow> (\<forall>b < batchSize st.
     V1s st ! b = mle_at (inVals st ! b) (\<lambda>x. c (out_logSize st + x)) (in_logSize st) mod scprime st)"

definition sc_inv :: "(mpz \<Rightarrow> mpz \<Rightarrow> mpz) \<Rightarrow> (nat \<Rightarrow> int) \<Rightarrow> nat \<Rightarrow> SumCheckProver \<Rightarrow> bool" where
  "sc_inv mpz_invert c k st \<longleftrightarrow>
     scp_ready mpz_invert st \<and> weights_inv st k \<and>
     (\<forall>b < batchSize st. expected st ! b mod scprime st = sc_claim st k b mod scprime st) \<and>
     (\<forall>g < out_size st. addormultr st ! g mod scprime st = (\<Prod>i < k. sel (round_bit st i g) (c i)) mod scprime st) \<and>
     (0 < k \<longrightarrow> partialBetar st mod scprime st =
        (\<Prod>i < min k (out_logSize st). eq_ext (zvec st ! i) (c i)) mod scprime st) \<and>
     (out_logSize st < k \<longrightarrow> vals_after c (k - 1) st) \<and>
     (out_logSize st + in_logSize st < k \<longrightarrow> V1s_after c st)"

lemma O_round_arith:
  assumes "out_logSize st \<le> k" and "k < numRounds st" and "0 < in_logSize st"
    and j: "j = (k - out_logSize st) mod in_logSize st"
  shows "O_off st k + j = k" "j < in_logSize st"
    "0 < j \<Longrightarrow> out_logSize st < k \<and> O_off st (k - 1) = O_off st k \<and> Suc ((k - 1 - out_logSize st) mod in_logSize st) = j"
proof -
  have v: "j = k - O_off st k" "O_off st k \<le> k"
    using O_round_var [OF assms(1-3)] j assms(1) by (auto simp: O_off_def)
  then show "O_off st k + j = k" by simp
  show "j < in_logSize st" using j assms(3) by simp
  assume j0: "0 < j"
  have k: "out_logSize st < k" and off: "O_off st (k - 1) = O_off st k"
    using v j0 by (auto simp: O_off_def split: if_splits)
  have "(k - 1 - out_logSize st) mod in_logSize st = k - 1 - O_off st (k - 1)"
    using O_round_var [of st "k - 1"] k assms(2,3) by (auto simp: O_off_def)
  then have "Suc ((k - 1 - out_logSize st) mod in_logSize st) = j" unfolding off using v j0 by simp
  with k off show "out_logSize st < k \<and> O_off st (k - 1) = O_off st k \<and> Suc ((k - 1 - out_logSize st) mod in_logSize st) = j"
    by simp
qed

lemma O_off_keeps: "keeps st st' \<Longrightarrow> O_off st' k = O_off st k"
  by (simp add: O_off_def keeps_fields)

lemma vals_before:
  assumes sh: "scp_shape st" and k: "out_logSize st \<le> k" "k < numRounds st"
    and after: "out_logSize st < k \<Longrightarrow> vals_after c (k - 1) st" and b: "b < batchSize st"
    and j: "j = (k - out_logSize st) mod in_logSize st" and i: "i < 2 ^ (in_logSize st - j)"
  shows "vals (enter_round st k) ! b ! i mod scprime st =
    partial_mle (inVals st ! b) (\<lambda>x. c (O_off st k + x)) j i mod scprime st"
proof (cases "j = 0")
  case True
  then have "vals (enter_round st k) ! b ! i = at0 (inVals st ! b) i"
    using enter_round_O [OF k sh] load_vals_0 [OF take_V1s_shape [OF sh, of k], of b i] b i j by (simp add: at0_def)
  with True show ?thesis by simp
next
  case False
  note ar = O_round_arith [OF k scp_sizes(2) [OF sh] j]
  have V: "\<forall>b < batchSize st. \<forall>i < 2 ^ (in_logSize st - j).
      vals st ! b ! i = partial_mle (inVals st ! b) (\<lambda>x. c (O_off st k + x)) j i mod scprime st"
    using after ar(3) False unfolding vals_after_def Let_def by auto
  have "vals (enter_round st k) = vals st"
    using enter_round_O [OF k sh] False by (simp add: load_vals_def j)
  with V b i show ?thesis by simp
qed

lemma vals_step:
  assumes sh: "scp_shape st" and k: "out_logSize st \<le> k" "k < numRounds st"
    and after: "out_logSize st < k \<Longrightarrow> vals_after c (k - 1) st"
    and F: "round_facts st k (c k) st' q"
  shows "vals_after c k st'"
proof -
  define j where j: "j = (k - out_logSize st) mod in_logSize st"
  note ar = O_round_arith [OF k scp_sizes(2) [OF sh] j] and before = vals_before [OF sh k after _ j]
  have K: "keeps st st'" using F by (simp add: round_facts_def)
  have "vals st' ! b ! i = partial_mle (inVals st ! b) (\<lambda>x. c (O_off st k + x)) (Suc j) i mod scprime st"
    if b: "b < batchSize st" and i: "i < 2 ^ (in_logSize st - Suc j)" for b i
  proof -
    have lt: "2 * i + 1 < 2 ^ (in_logSize st - j)"
      using i ar(2) by (simp add: Suc_diff_Suc [symmetric])
    have "vals st' ! b ! i = fold_pair (scprime st) (c (O_off st k + j)) (vals (enter_round st k) ! b) i"
      using F b i k(1) ar(1) unfolding round_facts_def j [symmetric] by simp
    also have "\<dots> = partial_mle (inVals st ! b) (\<lambda>x. c (O_off st k + x)) (Suc j) i mod scprime st"
      by (rule fold_pair_partial) (use before [OF _ b] lt in auto)
    finally show ?thesis .
  qed
  then show ?thesis unfolding vals_after_def Let_def keeps_fields [OF K] O_off_keeps [OF K] j [symmetric] by simp
qed

lemma V1s_step:
  assumes sh: "scp_shape st" and k: "out_logSize st + in_logSize st \<le> k" "k < numRounds st"
    and after: "vals_after c (k - 1) st" and V: "out_logSize st + in_logSize st < k \<Longrightarrow> V1s_after c st"
    and F: "round_facts st k (c k) st' q"
  shows "V1s_after c st'"
proof -
  have K: "keeps st st'" using F by (simp add: round_facts_def)
  have V1: "V1s st' = V1s (take_V1s st k)"
    using F k(1) enter_round_O [OF _ k(2) sh] by (simp add: round_facts_def)
  have "V1s (take_V1s st k) ! b = mle_at (inVals st ! b) (\<lambda>x. c (out_logSize st + x)) (in_logSize st) mod scprime st"
    if b: "b < batchSize st" for b
  proof (cases "k = out_logSize st + in_logSize st")
    case True
    have "Suc ((k - 1 - out_logSize st) mod in_logSize st) = in_logSize st" "O_off st (k - 1) = out_logSize st"
      using scp_sizes(2) [OF sh] True by (simp_all add: O_off_def)
    then have "vals st ! b ! 0 = partial_mle (inVals st ! b) (\<lambda>x. c (out_logSize st + x)) (in_logSize st) 0 mod scprime st"
      using after b by (simp add: vals_after_def)
    moreover have "length (inVals st ! b) \<le> 2 ^ in_logSize st" using sh b scp_sizes(4) [OF sh] by (simp add: scp_shape_def)
    ultimately show ?thesis using True b by (simp add: take_V1s_def partial_mle_full)
  next
    case False
    with V k b show ?thesis by (simp add: take_V1s_def V1s_after_def)
  qed
  then show ?thesis unfolding V1s_after_def keeps_fields [OF K] V1 by simp
qed

section \<open>The invariant is kept\<close>

lemma prod_step_mod: "(a :: int) mod p = (\<Prod>i < k. f i) mod p \<Longrightarrow> a * f k mod p = (\<Prod>i < Suc k. f i) mod p"
  by (simp add: mod_mult_cong [of a p "\<Prod>i < k. f i"])

lemma partialBetar_step:
  assumes F: "round_facts st k r st' q" and pos: "0 < out_logSize st"
    and pb: "0 < k \<Longrightarrow> partialBetar st mod scprime st =
        (\<Prod>i < min k (out_logSize st). eq_ext (zvec st ! i) (c i)) mod scprime st" and r: "r = c k"
  shows "partialBetar st' mod scprime st =
        (\<Prod>i < min (Suc k) (out_logSize st). eq_ext (zvec st ! i) (c i)) mod scprime st"
proof (cases "k < out_logSize st")
  case True
  have "partialBetar (enter_round st k) mod scprime st = (\<Prod>i < k. eq_ext (zvec st ! i) (c i)) mod scprime st"
  proof (cases "k = 0")
    case False
    then have "partialBetar (enter_round st k) = partialBetar st"
      using True by (simp add: enter_round_def begin_betas_def)
    with False True pb show ?thesis by (simp add: min_def)
  next
    case True
    have "partialBetar (enter_round st 0) = 1"
      using pos by (simp add: enter_round_def Let_def) (simp add: begin_betas_def)
    with True show ?thesis by simp
  qed
  from prod_step_mod [OF this] True F r show ?thesis by (simp add: round_facts_def)
next
  case False
  with F pb pos show ?thesis by (simp add: round_facts_def)
qed

lemma round_bit_keeps: "keeps st st' \<Longrightarrow> round_bit st' k g = round_bit st k g"
  by (simp add: round_bit_def keeps_fields)

lemma vec3_nth: "length q = B * 3 \<Longrightarrow> b < B \<Longrightarrow> i < 3 \<Longrightarrow> drop (b * 3) q ! i = q ! (b * 3 + i)"
  by (subst nth_drop) auto

definition poly_slots :: "SumCheckProver \<Rightarrow> nat \<Rightarrow> mpz_vec \<Rightarrow> bool" where
  "poly_slots st k poly \<longleftrightarrow> length poly = batchSize st * 3 \<and>
     (\<forall>b i. b < batchSize st \<longrightarrow> i < 3 \<longrightarrow> poly ! (b * 3 + i) = sc_poly st k b (int i) mod scprime st)"

lemma answer_poly_state:
  assumes "doRound mpz_invert st poly k r = (s, q)"
  shows "answer_poly mpz_invert st poly k r =
    (s\<lparr>expected := map (\<lambda>b. extrap mpz_invert (drop (b * 3) q) 3 r (scprime s)) [0..<batchSize s]\<rparr>, q)"
  by (simp add: answer_poly_def assms polySize_def)

lemma expected_irrelevant [simp]:
  "sc_claim (st\<lparr>expected := e\<rparr>) k b = sc_claim st k b" "weights_inv (st\<lparr>expected := e\<rparr>) k = weights_inv st k"
  "round_bit (st\<lparr>expected := e\<rparr>) k g = round_bit st k g" "vals_after c k (st\<lparr>expected := e\<rparr>) = vals_after c k st"
  "V1s_after c (st\<lparr>expected := e\<rparr>) = V1s_after c st"
  "out_logSize (st\<lparr>expected := e\<rparr>) = out_logSize st" "in_logSize (st\<lparr>expected := e\<rparr>) = in_logSize st"
  "batchSize (st\<lparr>expected := e\<rparr>) = batchSize st" "out_size (st\<lparr>expected := e\<rparr>) = out_size st"
  "in_size (st\<lparr>expected := e\<rparr>) = in_size st"
  by (simp_all add: sc_claim_def enter_round_def begin_betas_def take_V1s_def load_vals_def computeBetaZAll_def
      claimP_def claimO_def P_weight_def O_apply_def O_idx_def weights_inv_def beta_inv_def last_idx_def round_bit_def
      vals_after_def V1s_after_def O_off_def out_logSize_def in_logSize_def in_size_def batchSize_def out_size_def Let_def)

lemma round_sends:
  assumes I: "sc_inv mpz_invert c k st" and F: "round_facts st k (c k) s q"
  shows "poly_slots st k (infer_point0 s q)"
proof -
  let ?p = "scprime st"
  have K: "keeps st s" and len: "length q = batchSize s * 3" using F keeps_fields by (auto simp: round_facts_def)
  note KF = keeps_fields [OF K] and S = infer_point0_slots [OF len]
  have "infer_point0 s q ! (b * 3 + i) = sc_poly st k b (int i) mod ?p" if bi: "b < batchSize st" "i < 3" for b i
  proof (cases "i = 0")
    case True
    have "infer_point0 s q ! (b * 3 + 0) = (expected st ! b - q ! (b * 3 + 1)) mod ?p"
      using S [THEN conjunct2, rule_format, of b 0] bi(1) F KF by (simp add: round_facts_def)
    also have "\<dots> = (sc_claim st k b - sc_poly st k b 1) mod ?p"
    proof (rule mod_diff_cong)
      show "expected st ! b mod ?p = sc_claim st k b mod ?p" using I bi by (simp add: sc_inv_def)
      have "q ! (b * 3 + 1) = sc_poly st k b (int 1) mod ?p"
        using F bi unfolding round_facts_def by (metis one_less_numeral_iff semiring_norm(77) zero_less_one)
      then show "q ! (b * 3 + 1) mod ?p = sc_poly st k b 1 mod ?p" by simp
    qed
    also have "sc_claim st k b - sc_poly st k b 1 = sc_poly st k b 0" using sc_claim_01 [of st k b] by simp
    finally show ?thesis using True by simp
  next
    case False
    with S [THEN conjunct2, rule_format, of b i] bi F KF show ?thesis by (simp add: round_facts_def)
  qed
  then show ?thesis using S KF by (simp add: poly_slots_def)
qed

lemma answer_poly_inv:
  assumes I: "sc_inv mpz_invert c k st" and k: "k < numRounds st" and len: "length poly = batchSize st * 3"
    and res: "answer_poly mpz_invert st poly k (c k) = (st', poly')"
  shows "sc_inv mpz_invert c (Suc k) st' \<and> keeps st st' \<and> poly_slots st k poly' \<and>
    (\<forall>b < batchSize st. expected st' ! b = sc_poly st k b (c k) mod scprime st)"
proof -
  let ?p = "scprime st"
  have R: "scp_ready mpz_invert st" and W: "weights_inv st k" using I by (simp_all add: sc_inv_def)
  have gi: "gmp_invert mpz_invert" and pp: "prime_modulus ?p" and sh: "scp_shape st" using R by (simp_all add: scp_ready_def)
  obtain s q where sq: "doRound mpz_invert st poly k (c k) = (s, q)" by fastforce
  obtain q1 where F: "round_facts st k (c k) s q1" and q: "q = infer_point0 s q1"
    and nx: "\<And>b. b < batchSize st \<Longrightarrow> sc_claim s (Suc k) b mod ?p = sc_poly st k b (c k) mod ?p"
    using doRound_facts [OF R W k len sq] by blast
  have K: "keeps st s" and shs: "scp_shape s" using F by (simp_all add: round_facts_def)
  note KF = keeps_fields [OF K]
  have sl: "poly_slots st k q" unfolding q by (rule round_sends [OF I F])
  have ex: "extrap mpz_invert (drop (b * 3) q) 3 (c k) ?p = sc_poly st k b (c k) mod ?p" if b: "b < batchSize st" for b
    using sl vec3_nth [of q "batchSize st" b] b pp
    by (intro gmp_invert.extrap_poly [OF gi pp]) (auto simp: poly_slots_def polyfn_sc_poly)
  define e where "e = map (\<lambda>b. extrap mpz_invert (drop (b * 3) q) 3 (c k) ?p) [0..<batchSize st]"
  have st': "st' = s\<lparr>expected := e\<rparr>" and p': "poly' = q"
    using res KF unfolding answer_poly_state [OF sq] by (auto simp: e_def)
  have K': "keeps st st'" using K by (simp add: keeps_def st')
  have sh': "scp_shape st'" using shs KF unfolding scp_shape_def st' by (simp add: e_def)
  have "sc_inv mpz_invert c (Suc k) st'"
    unfolding sc_inv_def
  proof (intro conjI allI impI)
    show "scp_ready mpz_invert st'" by (rule scp_ready_keeps [OF R K' sh'])
    show "weights_inv st' (Suc k)" using F by (simp add: st' round_facts_def)
    show "expected st' ! b mod scprime st' = sc_claim st' (Suc k) b mod scprime st'" if "b < batchSize st'" for b
      using nx [of b] ex [of b] that KF by (simp add: st' e_def)
    show "addormultr st' ! g mod scprime st' = (\<Prod>i < Suc k. sel (round_bit st' i g) (c i)) mod scprime st'"
      if "g < out_size st'" for g
      using prod_step_mod [of "addormultr st ! g" ?p "\<lambda>i. sel (round_bit st i g) (c i)" k] I F that KF
      by (simp add: st' sc_inv_def round_facts_def round_bit_keeps [OF K])
    show "partialBetar st' mod scprime st' = (\<Prod>i < min (Suc k) (out_logSize st'). eq_ext (zvec st' ! i) (c i)) mod scprime st'"
      using partialBetar_step [OF F scp_sizes(1) [OF sh], of c] I KF by (simp add: st' sc_inv_def)
    show "vals_after c (Suc k - 1) st'" if "out_logSize st' < Suc k"
      using vals_step [OF sh _ k, of c s q1] F I that KF by (simp add: st' sc_inv_def)
    show "V1s_after c st'" if "out_logSize st' + in_logSize st' < Suc k"
      using V1s_step [OF sh _ k, of c s q1] F I that KF scp_sizes(2) [OF sh] by (simp add: st' sc_inv_def)
  qed
  moreover have "expected st' ! b = sc_poly st k b (c k) mod ?p" if "b < batchSize st" for b
    using ex [OF that] that by (simp add: st' e_def)
  ultimately show ?thesis using K' sl by (simp add: p')
qed

end
