(* ===== verification/Sumcheck_Verifier.thy ===== *)
theory Sumcheck_Verifier
  imports Sumcheck_Invariant
begin

text \<open>
  The verifier's side of a sum-check instance, \<^verbatim>\<open>cmtgkr/base/cmt_sumcheck_v.cpp\<close>, over a list of
  provers with an arbitrary message handler, honest or not. \<open>coins i\<close> is what the object's generator
  returns for round \<open>i\<close>. \<open>None\<close> is a verifier that waits for a reply that never comes.
\<close>

section \<open>The code\<close>

record CMTSumCheckResults =
  success :: bool
  Vs :: mpz_vec
  rand :: mpz_vec

definition new_CMTSumCheckResults :: "nat \<Rightarrow> nat \<Rightarrow> CMTSumCheckResults" where
  "new_CMTSumCheckResults nRounds nBatch =
     \<lparr>success = False, Vs = replicate (2 * nBatch) 0, rand = replicate nRounds 0\<rparr>"

record SumCheckVerifier =
  vconf :: CMTProtocolConfig
  inSize :: nat
  outLayer :: CircuitLayer
  vz :: mpz_vec
  trueSums :: mpz_vec
  vprime :: mpz

definition v_numRounds :: "SumCheckVerifier \<Rightarrow> nat" where
  "v_numRounds v = logSize (outLayer v) + 2 * log2i (inSize v)"

definition requestPoly ::
  "(cmt_msg \<Rightarrow> 's \<Rightarrow> 's \<times> mpz_vec option) \<Rightarrow> SumCheckVerifier \<Rightarrow> mpz_vec \<Rightarrow> mpz \<Rightarrow> 's list
     \<Rightarrow> (mpz_vec \<times> 's list) option" where
  "requestPoly handle v poly r nets =
     (let (nets, resps) = broadcast handle (REQ_SC_POLY r) nets
      in map_option (\<lambda>poly. (poly, nets))
           (gather (vconf v) poly (length poly div vbatchSize (vconf v)) resps))"

definition requestVs ::
  "(cmt_msg \<Rightarrow> 's \<Rightarrow> 's \<times> mpz_vec option) \<Rightarrow> SumCheckVerifier \<Rightarrow> mpz_vec \<Rightarrow> 's list
     \<Rightarrow> (mpz_vec \<times> 's list) option" where
  "requestVs handle v vs nets =
     (let (nets, resps) = broadcast handle REQ_VS nets
      in map_option (\<lambda>vs. (vs, nets)) (gather (vconf v) vs (length vs div vbatchSize (vconf v)) resps))"

text \<open>The loop over the batch stops at the first instance whose check fails.\<close>

definition round_check :: "nat \<Rightarrow> mpz \<Rightarrow> mpz_vec \<Rightarrow> mpz_vec \<Rightarrow> bool" where
  "round_check nBatch prime ex roundPoly =
     list_all (\<lambda>b. ex ! b = modadd (roundPoly ! (b * polySize)) (roundPoly ! (b * polySize + 1)) prime)
       [0..<nBatch]"

definition v_doRound ::
  "(cmt_msg \<Rightarrow> 's \<Rightarrow> 's \<times> mpz_vec option) \<Rightarrow> SumCheckVerifier \<Rightarrow> (nat \<Rightarrow> mpz) \<Rightarrow> nat
     \<Rightarrow> mpz_vec \<times> mpz_vec \<times> CMTSumCheckResults \<times> 's list
     \<Rightarrow> (bool \<times> mpz_vec \<times> mpz_vec \<times> CMTSumCheckResults \<times> 's list) option" where
  "v_doRound handle v coins rnd s =
     (let (ex, roundPoly, results, nets) = s;
          newRand = coins rnd;
          results = results\<lparr>rand := (rand results)[rnd := newRand]\<rparr>
      in case requestPoly handle v roundPoly newRand nets of None \<Rightarrow> None
         | Some (roundPoly, nets) \<Rightarrow>
             if round_check (vbatchSize (vconf v)) (vprime v) ex roundPoly
             then let weights = bary_precompute_weights3 newRand (vprime v);
                      newExpected = bary_extrap (length ex) roundPoly weights (vprime v)
                  in Some (True, newExpected, roundPoly, results, nets)
             else Some (False, ex, roundPoly, results, nets))"

definition final_value :: "mpz \<Rightarrow> mpz \<Rightarrow> mpz \<Rightarrow> mpz \<Rightarrow> mpz \<Rightarrow> mpz \<Rightarrow> mpz" where
  "final_value prime add_predr mul_predr bet v1 v2 =
     (let fz = 0; tmp = v1 + v2; fz = fz + tmp * add_predr;
          tmp = v1 * v2; fz = fz + tmp * mul_predr
      in modmult fz bet prime)"

definition doFinalCheck ::
  "(cmt_msg \<Rightarrow> 's \<Rightarrow> 's \<times> mpz_vec option) \<Rightarrow> SumCheckVerifier \<Rightarrow> mpz_vec \<Rightarrow> CMTSumCheckResults \<Rightarrow> 's list
     \<Rightarrow> (bool \<times> CMTSumCheckResults \<times> 's list) option" where
  "doFinalCheck handle v ex results nets =
     (case requestVs handle v (Vs results) nets of None \<Rightarrow> None
      | Some (vs, nets) \<Rightarrow>
          let results = results\<lparr>Vs := vs\<rparr>;
              mi = logSize (outLayer v); p = vprime v;
              (add_predr, mul_predr) = computeWirePredicates (outLayer v) (rand results) (inSize v) p;
              bet = evaluate_beta (vz v) (rand results) mi p
          in Some (list_all (\<lambda>b. ex ! b = final_value p add_predr mul_predr bet (vs ! (2 * b)) (vs ! (2 * b + 1)))
                     [0..<vbatchSize (vconf v)],
                   results, nets))"

text \<open>\<^verbatim>\<open>results.success && doRound(...)\<close>: after a failure no further round is run.\<close>

definition v_run_round ::
  "(cmt_msg \<Rightarrow> 's \<Rightarrow> 's \<times> mpz_vec option) \<Rightarrow> SumCheckVerifier \<Rightarrow> (nat \<Rightarrow> mpz) \<Rightarrow> nat
     \<Rightarrow> (mpz_vec \<times> mpz_vec \<times> CMTSumCheckResults \<times> 's list) option
     \<Rightarrow> (mpz_vec \<times> mpz_vec \<times> CMTSumCheckResults \<times> 's list) option" where
  "v_run_round handle v coins rnd r =
     Option.bind r (\<lambda>(ex, poly, results, nets).
       if success results
       then map_option (\<lambda>(ok, ex, poly, results, nets). (ex, poly, results\<lparr>success := ok\<rparr>, nets))
              (v_doRound handle v coins rnd (ex, poly, results, nets))
       else Some (ex, poly, results, nets))"

definition v_run ::
  "(cmt_msg \<Rightarrow> 's \<Rightarrow> 's \<times> mpz_vec option) \<Rightarrow> SumCheckVerifier \<Rightarrow> (nat \<Rightarrow> mpz) \<Rightarrow> 's list
     \<Rightarrow> (CMTSumCheckResults \<times> 's list) option" where
  "v_run handle v coins nets =
     (let ex = trueSums v;
          poly = replicate (vbatchSize (vconf v) * polySize) 0;
          results = (new_CMTSumCheckResults (v_numRounds v) (vbatchSize (vconf v)))\<lparr>success := True\<rparr>
      in Option.bind (fold (v_run_round handle v coins) [0..<v_numRounds v] (Some (ex, poly, results, nets)))
           (\<lambda>(ex, poly, results, nets).
              if success results
              then map_option (\<lambda>(ok, results, nets). (results\<lparr>success := ok\<rparr>, nets))
                     (doFinalCheck handle v ex results nets)
              else Some (results, nets)))"

end
