(* ===== verification/Circuit_Verifier.thy ===== *)
theory Circuit_Verifier
  imports Circuit_Prover Sumcheck_Verifier
begin

text \<open>
  The verifier of the whole protocol, \<^verbatim>\<open>base/cmt_circuit_verifier.cpp\<close>, over a list of provers with an
  arbitrary handler. Its randomness is explicit: \<open>zcoins\<close> for the initial point, \<open>sccoins lvl\<close> for the
  sum-check of a level (every \<^verbatim>\<open>CMTSumCheckVerifier\<close> has a generator of its own) and \<open>lcoin lvl\<close> for the
  point of the mini-IP. \<open>None\<close> is a run that aborts or waits for ever. Timers and byte counts are left out.
\<close>

record Coins =
  zcoins :: "nat \<Rightarrow> mpz"
  sccoins :: "nat \<Rightarrow> nat \<Rightarrow> mpz"
  lcoin :: "nat \<Rightarrow> mpz"

type_synonym 's handler = "cmt_msg \<Rightarrow> 's \<Rightarrow> 's \<times> reply"

fun zreply :: "reply \<Rightarrow> mpz_vec option" where
  "zreply (ZReply v) = Some v"
| "zreply _ = None"

fun qreply1 :: "reply \<Rightarrow> rat list option" where
  "qreply1 (QReplies o1 _) = Some o1"
| "qreply1 _ = None"

fun qreply2 :: "reply \<Rightarrow> rat list option" where
  "qreply2 (QReplies _ o2) = Some o2"
| "qreply2 _ = None"

definition zhandle :: "'s handler \<Rightarrow> cmt_msg \<Rightarrow> 's \<Rightarrow> 's \<times> mpz_vec option" where
  "zhandle handle msg s = (let (s, r) = handle msg s in (s, zreply r))"

definition notify :: "'s handler \<Rightarrow> cmt_msg \<Rightarrow> 's list \<Rightarrow> 's list" where
  "notify handle msg nets = fst (broadcast handle msg nets)"

definition send_configs :: "'s handler \<Rightarrow> CMTProtocolConfig \<Rightarrow> 's list \<Rightarrow> 's list" where
  "send_configs handle conf nets =
     map (\<lambda>pid. let pc = pConfs conf ! pid
                in fst (handle (CONFIGURE (startInstance pc) (endInstance pc)) (nets ! pid))) [0..<length nets]"

definition requestOutputs ::
  "'s handler \<Rightarrow> CMTProtocolConfig \<Rightarrow> rat list \<Rightarrow> rat list \<Rightarrow> rat list \<Rightarrow> 's list
     \<Rightarrow> (rat list \<times> rat list \<times> 's list) option" where
  "requestOutputs handle conf outputs magics inputs nets =
     (let n = vbatchSize conf;
          parts = distribute conf inputs (length inputs div n);
          rs = map (\<lambda>pid. handle (REQ_OUTPUTS (parts ! pid)) (nets ! pid)) [0..<numProvers conf]
      in Option.bind (gather conf outputs (length outputs div n) (map (\<lambda>r. qreply1 (snd r)) rs)) (\<lambda>outputs.
         map_option (\<lambda>magics. (outputs, magics, map fst rs))
           (gather conf magics (length magics div n) (map (\<lambda>r. qreply2 (snd r)) rs))))"

definition initialize_instance ::
  "circuit_class \<Rightarrow> rat list \<Rightarrow> mpz_vec \<Rightarrow> nat \<Rightarrow> (rat list \<times> CMTCircuit \<times> mpz_vec) option
     \<Rightarrow> (rat list \<times> CMTCircuit \<times> mpz_vec) option" where
  "initialize_instance cls outputs chis b r =
     Option.bind r (\<lambda>(inner, c, r0).
       Option.bind (vec_copy inner outputs (b * length inner) (length inner) 0) (\<lambda>inner.
         map_option (\<lambda>c. (inner, c, r0[b := evaluate_V_chis (level_zs c 0) chis (cprime (circ c))]))
           (cls_initializeOutputs cls c inner)))"

definition initializeProtocol ::
  "circuit_class \<Rightarrow> (nat \<Rightarrow> mpz) \<Rightarrow> nat \<Rightarrow> CMTCircuit \<Rightarrow> mpz_vec \<Rightarrow> mpz_vec \<Rightarrow> rat list
     \<Rightarrow> (CMTCircuit \<times> mpz_vec \<times> mpz_vec) option" where
  "initializeProtocol cls zs nBatch c z0 r0 outputs =
     (let z = map zs [0..<logSize (level c 0)];
          chis = computeChiAll (new_vec (layer_size (level c 0))) z (cprime (circ c))
      in Option.bind (fold (initialize_instance cls outputs chis) [0..<nBatch]
                        (Some (new_qvec (getOutputSize c), c, r0))) (\<lambda>(_, c, r0).
         map_option (\<lambda>z0. (c, z0, r0)) (vec_copy_all z0 z)))"

text \<open>The checks of one level after its sum-check.\<close>

definition lpoly_check :: "nat \<Rightarrow> nat \<Rightarrow> mpz_vec \<Rightarrow> mpz_vec \<Rightarrow> bool" where
  "lpoly_check nBatch lpolySize vs lpoly =
     list_all (\<lambda>b. list_all (\<lambda>i. vs ! (2 * b + i) = lpoly ! (lpolySize * b + i)) [0..<2]) [0..<nBatch]"

definition checkLevel ::
  "(mpz \<Rightarrow> mpz \<Rightarrow> mpz) \<Rightarrow> 's handler \<Rightarrow> Coins \<Rightarrow> CMTProtocolConfig \<Rightarrow> CMTCircuit \<Rightarrow> nat
     \<Rightarrow> mpz_vec \<times> mpz_vec \<times> 's list \<Rightarrow> (bool \<times> mpz_vec \<times> mpz_vec \<times> 's list) option" where
  "checkLevel mpz_invert handle coins conf c lvl s =
     (let (z, r, nets) = s; p = cprime (circ c);
          nets = notify handle (BEGIN_LAYER lvl) nets;
          scv = \<lparr>vconf = conf, inSize = layer_size (level c (lvl + 1)), outLayer = level c lvl, vz = z,
                 trueSums = r, vprime = p\<rparr>
      in Option.bind (v_run (zhandle handle) scv (sccoins coins lvl) nets) (\<lambda>(results, nets).
         if \<not> success results then Some (False, z, r, notify handle END_LAYER nets)
         else
           let mi = logSize (level c lvl); mip1 = logSize (level c (lvl + 1)); lpolySize = mip1 + 1;
               (nets, resps) = broadcast (zhandle handle) REQ_LPOLY nets
           in Option.bind (gather conf (new_vec (lpolySize * vbatchSize conf)) lpolySize resps) (\<lambda>lpoly.
                if lpoly_check (vbatchSize conf) lpolySize (Vs results) lpoly
                then let rnd = lcoin coins lvl;
                         z = fold (\<lambda>i z. z[i := extrap mpz_invert
                               [rand results ! (mi + i), rand results ! (mi + mip1 + i)] 2 rnd p]) [0..<mip1] z;
                         weights = bary_precompute_weights mpz_invert lpolySize rnd p;
                         r = bary_extrap (length r) lpoly weights p
                     in Some (True, z, r, notify handle (NOTIFY_LPOLY_EXTRAP_PT rnd) nets)
                else Some (False, z, r, notify handle END_LAYER nets))))"

definition final_instance ::
  "circuit_class \<Rightarrow> rat list \<Rightarrow> rat list \<Rightarrow> mpz_vec \<Rightarrow> mpz_vec \<Rightarrow> nat
     \<Rightarrow> (bool \<times> rat list \<times> rat list \<times> CMTCircuit) option \<Rightarrow> (bool \<times> rat list \<times> rat list \<times> CMTCircuit) option" where
  "final_instance cls inputs magics r chis b s =
     Option.bind s (\<lambda>(ok, inner, mag, c).
       if \<not> ok then Some (ok, inner, mag, c)
       else Option.bind (vec_copy inner inputs (b * length inner) (length inner) 0) (\<lambda>inner.
            Option.bind (vec_copy mag magics (b * length mag) (length mag) 0) (\<lambda>mag.
            map_option (\<lambda>c. (r ! b = evaluate_V_chis (level_zs c (depth (circ c) - 1)) chis (cprime (circ c)),
                             inner, mag, c))
              (cls_initializeInputs cls c inner mag))))"

definition checkFinal ::
  "circuit_class \<Rightarrow> nat \<Rightarrow> CMTCircuit \<Rightarrow> mpz_vec \<Rightarrow> mpz_vec \<Rightarrow> rat list \<Rightarrow> rat list \<Rightarrow> (bool \<times> CMTCircuit) option" where
  "checkFinal cls nBatch c z r inputs magics =
     (let inputLayer = level c (depth (circ c) - 1)
      in Option.bind (vec_copy (new_vec (logSize inputLayer)) z 0 (logSize inputLayer) 0) (\<lambda>z.
         let chis = computeChiAll (new_vec (layer_size inputLayer)) z (cprime (circ c))
         in map_option (\<lambda>(ok, _, _, c). (ok, c))
              (fold (final_instance cls inputs magics r chis) [0..<nBatch]
                 (Some (True, new_qvec (getInputSize c), new_qvec (getMagicSize c), c)))))"

definition run_level ::
  "(mpz \<Rightarrow> mpz \<Rightarrow> mpz) \<Rightarrow> 's handler \<Rightarrow> Coins \<Rightarrow> CMTProtocolConfig \<Rightarrow> CMTCircuit \<Rightarrow> nat
     \<Rightarrow> (bool \<times> mpz_vec \<times> mpz_vec \<times> 's list) option \<Rightarrow> (bool \<times> mpz_vec \<times> mpz_vec \<times> 's list) option" where
  "run_level mpz_invert handle coins conf c lvl s =
     Option.bind s (\<lambda>(ok, z, r, nets).
       if ok then checkLevel mpz_invert handle coins conf c lvl (z, r, nets) else Some (ok, z, r, nets))"

definition compute ::
  "(mpz \<Rightarrow> mpz \<Rightarrow> mpz) \<Rightarrow> circuit_class \<Rightarrow> 's handler \<Rightarrow> Coins \<Rightarrow> CMTCircuit \<Rightarrow> rat list \<Rightarrow> rat list \<Rightarrow> nat \<Rightarrow> 's list
     \<Rightarrow> (bool \<times> rat list \<times> 's list) option" where
  "compute mpz_invert cls handle coins c outputs inputs nBatch nets =
     (if nBatch < 1 then Some (True, outputs, nets)
      else
        let conf = new_CMTProtocolConfig nBatch (length nets);
            pOutputs = new_qvec (getOutputSize c * nBatch);
            pMagics = new_qvec (getMagicSize c * nBatch);
            nets = send_configs handle conf nets;
            nets = notify handle (BEGIN_CMT (cprime (circ c))) nets
        in Option.bind (requestOutputs handle conf pOutputs pMagics inputs nets) (\<lambda>(pOutputs, pMagics, nets).
           Option.bind (initializeProtocol cls (zcoins coins) nBatch c (new_vec (maxSumCheckRounds c)) (new_vec nBatch) pOutputs)
             (\<lambda>(c, z, r).
             let nets = notify handle (NOTIFY_Z0 (take (logSize (level c 0)) z)) nets
             in Option.bind (fold (run_level mpz_invert handle coins conf c) [0..<depth (circ c) - 1] (Some (True, z, r, nets)))
                  (\<lambda>(ok, z, r, nets).
                  Option.bind (if ok then map_option fst (checkFinal cls nBatch c z r inputs pMagics) else Some False) (\<lambda>ok.
                  let nets = notify handle END_CMT nets
                  in if ok then Option.bind (vec_copy_all outputs pOutputs) (\<lambda>outputs. Some (True, outputs, nets))
                     else Some (False, outputs, nets))))))"

end
