(* ===== verification/Sumcheck_Accept.thy ===== *)
theory Sumcheck_Accept
  imports Sumcheck_Verifier
begin

text \<open>
  What the verifier relies on in a prover, as a locale, and that it accepts every batch of provers that
  keep to it. The honest prover of \<^verbatim>\<open>cmt_sumcheck_p.cpp\<close> is an interpretation.
\<close>

section \<open>The interface between the two sides\<close>

definition good_answer :: "mpz \<Rightarrow> nat \<Rightarrow> mpz \<Rightarrow> mpz_vec \<Rightarrow> (nat \<Rightarrow> mpz) \<Rightarrow> (nat \<Rightarrow> mpz) \<Rightarrow> bool" where
  "good_answer p n r q ex ex' \<longleftrightarrow> length q = n * 3 \<and>
     (\<forall>b < n. \<exists>f. polyfn p 3 f \<and> (\<forall>i < 3. q ! (b * 3 + i) = f (int i) mod p) \<and>
        (f 0 + f 1) mod p = ex b mod p \<and> ex' b mod p = f r mod p)"

locale sumcheck_prover =
  fixes handle :: "cmt_msg \<Rightarrow> 's \<Rightarrow> 's \<times> mpz_vec option"
    and inv :: "(nat \<Rightarrow> mpz) \<Rightarrow> nat \<Rightarrow> 's \<Rightarrow> bool"
    and nbatch :: "'s \<Rightarrow> nat" and rounds :: "'s \<Rightarrow> nat" and modulus :: "'s \<Rightarrow> mpz"
    and claim :: "'s \<Rightarrow> nat \<Rightarrow> mpz"
    and fin :: "(nat \<Rightarrow> mpz) \<Rightarrow> 's \<Rightarrow> mpz \<Rightarrow> mpz \<Rightarrow> mpz"
    and input :: "'s \<Rightarrow> 'i"
  assumes modulus_prime: "inv c k s \<Longrightarrow> prime_modulus (modulus s)"
    and answers: "inv c k s \<Longrightarrow> k < rounds s \<Longrightarrow> handle (REQ_SC_POLY (c k)) s = (s', r) \<Longrightarrow>
       inv c (Suc k) s' \<and> nbatch s' = nbatch s \<and> rounds s' = rounds s \<and> modulus s' = modulus s \<and>
       fin c s' = fin c s \<and> input s' = input s \<and> (\<exists>q. r = Some q \<and> good_answer (modulus s) (nbatch s) (c k) q (claim s) (claim s'))"
    and final: "inv c (rounds s) s \<Longrightarrow> handle REQ_VS s = (s', r) \<Longrightarrow>
       \<exists>vs. r = Some vs \<and> length vs = nbatch s * 2 \<and>
         (\<forall>b < nbatch s. claim s b mod modulus s = fin c s (vs ! (2 * b)) (vs ! (2 * b + 1)) mod modulus s)"
begin

text \<open>The verifier's state after \<open>k\<close> successful rounds.\<close>

definition v_inv :: "SumCheckVerifier \<Rightarrow> (nat \<Rightarrow> mpz) \<Rightarrow> (nat \<Rightarrow> mpz \<Rightarrow> mpz \<Rightarrow> mpz) \<Rightarrow> (nat \<Rightarrow> 'i) \<Rightarrow> nat \<Rightarrow>
    mpz_vec \<times> mpz_vec \<times> CMTSumCheckResults \<times> 's list \<Rightarrow> bool" where
  "v_inv v c F N k s \<longleftrightarrow>
     (let (ex, poly, results, nets) = s
      in success results \<and> length ex = vbatchSize (vconf v) \<and> length poly = vbatchSize (vconf v) * 3 \<and>
         length (rand results) = v_numRounds v \<and> (\<forall>i < k. rand results ! i = c i) \<and>
         length (Vs results) = 2 * vbatchSize (vconf v) \<and> length nets = numProvers (vconf v) \<and>
         (\<forall>pid < numProvers (vconf v). inv c k (nets ! pid) \<and> nbatch (nets ! pid) = psize (vconf v) pid \<and>
            rounds (nets ! pid) = v_numRounds v \<and> modulus (nets ! pid) = vprime v \<and> fin c (nets ! pid) = F pid \<and> input (nets ! pid) = N pid \<and>
            (\<forall>b < psize (vconf v) pid. ex ! (pstart (vconf v) pid + b) = claim (nets ! pid) b mod vprime v)))"

lemma v_round_accepts:
  assumes cs: "config_split (vconf v)" and B: "0 < vbatchSize (vconf v)" and k: "k < v_numRounds v"
    and I: "v_inv v c F N k s"
  shows "\<exists>s'. v_run_round handle v c k (Some s) = Some s' \<and> v_inv v c F N (Suc k) s'"
proof -
  obtain ex poly results nets where s: "s = (ex, poly, results, nets)" by (metis prod_cases4)
  let ?conf = "vconf v" and ?p = "vprime v"
  define nets' where "nets' = map (\<lambda>n. fst (handle (REQ_SC_POLY (c k)) n)) nets"
  define resps where "resps = map (\<lambda>n. snd (handle (REQ_SC_POLY (c k)) n)) nets"
  have I': "success results" "length ex = vbatchSize ?conf" "length poly = vbatchSize ?conf * 3"
    "length (rand results) = v_numRounds v" "\<And>i. i < k \<Longrightarrow> rand results ! i = c i"
    "length (Vs results) = 2 * vbatchSize ?conf" "length nets = numProvers ?conf"
    and NN: "\<And>pid. pid < numProvers ?conf \<Longrightarrow> inv c k (nets ! pid) \<and> nbatch (nets ! pid) = psize ?conf pid \<and>
            rounds (nets ! pid) = v_numRounds v \<and> modulus (nets ! pid) = ?p \<and> fin c (nets ! pid) = F pid \<and> input (nets ! pid) = N pid \<and>
            (\<forall>b < psize ?conf pid. ex ! (pstart ?conf pid + b) = claim (nets ! pid) b mod ?p)"
    using I by (auto simp: v_inv_def s)
  have A: "inv c (Suc k) (nets' ! pid) \<and> nbatch (nets' ! pid) = psize ?conf pid \<and>
      rounds (nets' ! pid) = v_numRounds v \<and> modulus (nets' ! pid) = ?p \<and> fin c (nets' ! pid) = F pid \<and> input (nets' ! pid) = N pid \<and>
      (\<exists>q. resps ! pid = Some q \<and> good_answer ?p (psize ?conf pid) (c k) q (claim (nets ! pid)) (claim (nets' ! pid)))"
    if pid: "pid < numProvers ?conf" for pid
    using answers [of c k "nets ! pid" "nets' ! pid" "resps ! pid"] NN [OF pid] k I'(7) pid
    by (simp add: nets'_def resps_def)
  have R: "\<exists>d. resps ! pid = Some d \<and> length d = psize ?conf pid * 3" if "pid < numProvers ?conf" for pid
    using A [OF that] by (auto simp: good_answer_def)
  obtain poly' where g: "gather ?conf poly 3 resps = Some poly'" and lp: "length poly' = length poly"
    and slot: "\<And>pid i. pid < numProvers ?conf \<Longrightarrow> i < psize ?conf pid * 3 \<Longrightarrow>
       poly' ! (pstart ?conf pid * 3 + i) = the (resps ! pid) ! i"
    using gather_nth [OF cs _ I'(3) R] by (metis zero_less_numeral)
  have req: "requestPoly handle v poly (c k) nets = Some (poly', nets')"
    using g B I'(3) by (simp add: requestPoly_def broadcast_def nets'_def resps_def o_def)
  have slots: "\<exists>f. polyfn ?p 3 f \<and> (\<forall>i < 3. poly' ! ((pstart ?conf pid + b) * 3 + i) = f (int i) mod ?p) \<and>
      (f 0 + f 1) mod ?p = ex ! (pstart ?conf pid + b) \<and> claim (nets' ! pid) b mod ?p = f (c k) mod ?p"
    if pid: "pid < numProvers ?conf" and b: "b < psize ?conf pid" for pid b
  proof -
    obtain q where q: "resps ! pid = Some q"
      and "good_answer ?p (psize ?conf pid) (c k) q (claim (nets ! pid)) (claim (nets' ! pid))" using A [OF pid] by blast
    then obtain f where f: "polyfn ?p 3 f" "\<And>i. i < 3 \<Longrightarrow> q ! (b * 3 + i) = f (int i) mod ?p"
      "(f 0 + f 1) mod ?p = claim (nets ! pid) b mod ?p" "claim (nets' ! pid) b mod ?p = f (c k) mod ?p"
      using b by (auto simp: good_answer_def)
    have "poly' ! ((pstart ?conf pid + b) * 3 + i) = f (int i) mod ?p" if "i < 3" for i
      using slot [OF pid, of "b * 3 + i"] slot_less [OF b that] f(2) [OF that] q by (simp add: algebra_simps)
    then show ?thesis using f NN [OF pid] b by auto
  qed
  have chk: "round_check (vbatchSize ?conf) ?p ex poly'"
    unfolding round_check_def list_all_iff
  proof
    fix b assume "b \<in> set [0..<vbatchSize ?conf]"
    then obtain pid b' where pb: "pid < numProvers ?conf" "b' < psize ?conf pid" "b = pstart ?conf pid + b'"
      using config_covers [OF cs] by auto
    obtain f where f: "\<And>i. i < 3 \<Longrightarrow> poly' ! (b * 3 + i) = f (int i) mod ?p" "(f 0 + f 1) mod ?p = ex ! b"
      using slots [OF pb(1,2)] pb(3) by auto
    show "ex ! b = modadd (poly' ! (b * polySize)) (poly' ! (b * polySize + 1)) ?p"
      using f(1) [of 0] f(1) [of 1] f(2) by (simp add: modadd_def polySize_def mod_add_eq)
  qed
  let ?ex = "bary_extrap (length ex) poly' (bary_precompute_weights3 (c k) ?p) ?p"
  let ?res = "results\<lparr>rand := (rand results)[k := c k], success := True\<rparr>"
  have nx: "?ex ! (pstart ?conf pid + b) = claim (nets' ! pid) b mod ?p"
    if pid: "pid < numProvers ?conf" and b: "b < psize ?conf pid" for pid b
  proof -
    obtain f where f: "polyfn ?p 3 f" "\<And>i. i < 3 \<Longrightarrow> poly' ! ((pstart ?conf pid + b) * 3 + i) = f (int i) mod ?p"
      "claim (nets' ! pid) b mod ?p = f (c k) mod ?p" using slots [OF pid b] by blast
    have lt: "pstart ?conf pid + b < vbatchSize ?conf" using config_end [OF cs pid] b by simp
    have "prime_modulus ?p" using modulus_prime [of c k "nets ! pid"] NN [OF pid] by simp
    then have "?ex ! (pstart ?conf pid + b) = f (c k) mod ?p"
      by (rule bary3_poly [OF _ f(1)])
        (use I'(2,3) lt lp f(2) vec3_nth [of poly' "vbatchSize ?conf"] in auto)
    with f(3) show ?thesis by simp
  qed
  have step: "v_run_round handle v c k (Some s) = Some (?ex, poly', ?res, nets')"
    using I'(1) req chk by (simp add: v_run_round_def v_doRound_def s Let_def)
  have "v_inv v c F N (Suc k) (?ex, poly', ?res, nets')"
    unfolding v_inv_def using I' A nx lp k by (auto simp: nets'_def nth_list_update less_Suc_eq)
  with step show ?thesis by blast
qed

lemma v_rounds_accept:
  assumes cs: "config_split (vconf v)" and B: "0 < vbatchSize (vconf v)" and I: "v_inv v c F N 0 s"
  shows "\<exists>s'. fold (v_run_round handle v c) [0..<v_numRounds v] (Some s) = Some s' \<and> v_inv v c F N (v_numRounds v) s'"
proof -
  define P where "P = (\<lambda>k r. \<exists>s'. r = Some s' \<and> v_inv v c F N k s')"
  have "P (v_numRounds v) (fold (v_run_round handle v c) [0..<v_numRounds v] (Some s))"
  proof (rule fold_range_inv)
    show "P 0 (Some s)" using I unfolding P_def by blast
  next
    fix k r assume k: "k < v_numRounds v" and "P k r"
    then show "P (Suc k) (v_run_round handle v c k r)"
      using v_round_accepts [OF cs B k] by (auto simp: P_def)
  qed simp
  then show ?thesis by (simp add: P_def)
qed

lemma v_final_accepts:
  assumes cs: "config_split (vconf v)" and B: "0 < vbatchSize (vconf v)"
    and I: "v_inv v c F N (v_numRounds v) (ex, poly, results, nets)"
    and W: "\<And>pid v1 v2. pid < numProvers (vconf v) \<Longrightarrow>
      final_value (vprime v) (fst (computeWirePredicates (outLayer v) (rand results) (inSize v) (vprime v)))
        (snd (computeWirePredicates (outLayer v) (rand results) (inSize v) (vprime v)))
        (evaluate_beta (vz v) (rand results) (logSize (outLayer v)) (vprime v)) v1 v2 = F pid v1 v2 mod vprime v"
  shows "\<exists>vs nets'. doFinalCheck handle v ex results nets = Some (True, results\<lparr>Vs := vs\<rparr>, nets') \<and>
    length nets' = numProvers (vconf v) \<and> length vs = 2 * vbatchSize (vconf v) \<and>
    (\<forall>pid < numProvers (vconf v). nets' ! pid = fst (handle REQ_VS (nets ! pid)) \<and>
      (\<forall>i < psize (vconf v) pid * 2. vs ! (pstart (vconf v) pid * 2 + i) = the (snd (handle REQ_VS (nets ! pid))) ! i))"
proof -
  let ?conf = "vconf v" and ?p = "vprime v"
  define resps where "resps = map (\<lambda>n. snd (handle REQ_VS n)) nets"
  have I': "length (Vs results) = vbatchSize ?conf * 2" "length nets = numProvers ?conf"
    and NN: "\<And>pid. pid < numProvers ?conf \<Longrightarrow> inv c (v_numRounds v) (nets ! pid) \<and> nbatch (nets ! pid) = psize ?conf pid \<and>
            rounds (nets ! pid) = v_numRounds v \<and> modulus (nets ! pid) = ?p \<and> fin c (nets ! pid) = F pid \<and> input (nets ! pid) = N pid \<and>
            (\<forall>b < psize ?conf pid. ex ! (pstart ?conf pid + b) = claim (nets ! pid) b mod ?p)"
    using I by (auto simp: v_inv_def)
  have A: "\<exists>vs. resps ! pid = Some vs \<and> length vs = psize ?conf pid * 2 \<and> (\<forall>b < psize ?conf pid.
      ex ! (pstart ?conf pid + b) = F pid (vs ! (2 * b)) (vs ! (2 * b + 1)) mod ?p)" if pid: "pid < numProvers ?conf" for pid
    using final [of c "nets ! pid" "fst (handle REQ_VS (nets ! pid))" "resps ! pid"] NN [OF pid] I'(2) pid
    by (auto simp: resps_def)
  have R: "\<exists>d. resps ! pid = Some d \<and> length d = psize ?conf pid * 2" if "pid < numProvers ?conf" for pid
    using A [OF that] by auto
  obtain vs where g: "gather ?conf (Vs results) 2 resps = Some vs" and lv: "length vs = length (Vs results)"
    and slot: "\<And>pid i. pid < numProvers ?conf \<Longrightarrow> i < psize ?conf pid * 2 \<Longrightarrow>
       vs ! (pstart ?conf pid * 2 + i) = the (resps ! pid) ! i"
    using gather_nth [OF cs _ I'(1) R] by (metis zero_less_numeral)
  define nets' where "nets' = map (\<lambda>n. fst (handle REQ_VS n)) nets"
  have req: "requestVs handle v (Vs results) nets = Some (vs, nets')"
    using g B I'(1) by (simp add: requestVs_def broadcast_def nets'_def resps_def o_def)
  have "ex ! b = final_value ?p (fst (computeWirePredicates (outLayer v) (rand results) (inSize v) ?p))
        (snd (computeWirePredicates (outLayer v) (rand results) (inSize v) ?p))
        (evaluate_beta (vz v) (rand results) (logSize (outLayer v)) ?p) (vs ! (2 * b)) (vs ! (2 * b + 1))"
    if b: "b < vbatchSize ?conf" for b
  proof -
    obtain pid b' where pb: "pid < numProvers ?conf" "b' < psize ?conf pid" "b = pstart ?conf pid + b'"
      using config_covers [OF cs b] .
    obtain d where d: "resps ! pid = Some d" "ex ! b = F pid (d ! (2 * b')) (d ! (2 * b' + 1)) mod ?p"
      using A [OF pb(1)] pb(2,3) by auto
    have "vs ! (2 * b) = d ! (2 * b')" "vs ! (2 * b + 1) = d ! (2 * b' + 1)"
      using slot [OF pb(1), of "2 * b'"] slot [OF pb(1), of "2 * b' + 1"] pb d(1) by (simp_all add: algebra_simps)
    then show ?thesis using W [OF pb(1)] d(2) by simp
  qed
  then have "doFinalCheck handle v ex results nets = Some (True, results\<lparr>Vs := vs\<rparr>, nets')"
    using req by (simp add: doFinalCheck_def Let_def list_all_iff case_prod_unfold)
  then show ?thesis using slot I' lv by (auto simp: nets'_def resps_def)
qed

lemma v_run_accepts:
  assumes cs: "config_split (vconf v)" and B: "0 < vbatchSize (vconf v)"
    and nets: "length nets = numProvers (vconf v)" and ts: "length (trueSums v) = vbatchSize (vconf v)"
    and start: "\<And>pid. pid < numProvers (vconf v) \<Longrightarrow> inv c 0 (nets ! pid) \<and> nbatch (nets ! pid) = psize (vconf v) pid \<and>
            rounds (nets ! pid) = v_numRounds v \<and> modulus (nets ! pid) = vprime v \<and>
            (\<forall>b < psize (vconf v) pid. trueSums v ! (pstart (vconf v) pid + b) = claim (nets ! pid) b mod vprime v)"
    and W: "\<And>pid v1 v2. pid < numProvers (vconf v) \<Longrightarrow>
      final_value (vprime v) (fst (computeWirePredicates (outLayer v) (map c [0..<v_numRounds v]) (inSize v) (vprime v)))
        (snd (computeWirePredicates (outLayer v) (map c [0..<v_numRounds v]) (inSize v) (vprime v)))
        (evaluate_beta (vz v) (map c [0..<v_numRounds v]) (logSize (outLayer v)) (vprime v)) v1 v2 =
      fin c (nets ! pid) v1 v2 mod vprime v"
  shows "\<exists>results nets1 nets'. v_run handle v c nets = Some (results, nets') \<and> success results \<and>
    rand results = map c [0..<v_numRounds v] \<and> length nets' = numProvers (vconf v) \<and>
    length (Vs results) = 2 * vbatchSize (vconf v) \<and>
    (\<forall>pid < numProvers (vconf v). inv c (v_numRounds v) (nets1 ! pid) \<and> nbatch (nets1 ! pid) = psize (vconf v) pid \<and>
       input (nets1 ! pid) = input (nets ! pid) \<and>
       nets' ! pid = fst (handle REQ_VS (nets1 ! pid)) \<and> (\<forall>i < psize (vconf v) pid * 2.
         Vs results ! (pstart (vconf v) pid * 2 + i) = the (snd (handle REQ_VS (nets1 ! pid))) ! i))"
proof -
  let ?s0 = "(trueSums v, replicate (vbatchSize (vconf v) * polySize) 0,
    (new_CMTSumCheckResults (v_numRounds v) (vbatchSize (vconf v)))\<lparr>success := True\<rparr>, nets)"
  have "v_inv v c (\<lambda>pid. fin c (nets ! pid)) (\<lambda>pid. input (nets ! pid)) 0 ?s0"
    using nets ts start by (auto simp: v_inv_def new_CMTSumCheckResults_def polySize_def)
  from v_rounds_accept [OF cs B this] obtain ex poly results nets' where
    f: "fold (v_run_round handle v c) [0..<v_numRounds v] (Some ?s0) = Some (ex, poly, results, nets')"
    and I: "v_inv v c (\<lambda>pid. fin c (nets ! pid)) (\<lambda>pid. input (nets ! pid)) (v_numRounds v) (ex, poly, results, nets')" by (metis prod_cases4)
  have r: "rand results = map c [0..<v_numRounds v]"
    using I by (intro nth_equalityI) (auto simp: v_inv_def)
  obtain vs nets'' where fc: "doFinalCheck handle v ex results nets' = Some (True, results\<lparr>Vs := vs\<rparr>, nets'')"
    and fin: "length nets'' = numProvers (vconf v)" "length vs = 2 * vbatchSize (vconf v)"
      "\<forall>pid < numProvers (vconf v). nets'' ! pid = fst (handle REQ_VS (nets' ! pid)) \<and>
      (\<forall>i < psize (vconf v) pid * 2. vs ! (pstart (vconf v) pid * 2 + i) = the (snd (handle REQ_VS (nets' ! pid))) ! i)"
    using v_final_accepts [OF cs B I] W unfolding r by blast
  have "v_run handle v c nets = Some (results\<lparr>Vs := vs, success := True\<rparr>, nets'')"
    using f I fc by (simp add: v_run_def v_inv_def)
  moreover have "inv c (v_numRounds v) (nets' ! pid) \<and> nbatch (nets' ! pid) = psize (vconf v) pid \<and>
      input (nets' ! pid) = input (nets ! pid)"
    if "pid < numProvers (vconf v)" for pid using I that by (simp add: v_inv_def)
  ultimately show ?thesis using r fin
    by (intro exI [of _ "results\<lparr>Vs := vs, success := True\<rparr>"] exI [of _ nets'] exI [of _ nets'']) simp
qed

end

end
