(* ===== verification/Sumcheck_Honest.thy ===== *)
theory Sumcheck_Honest
  imports Sumcheck_Accept Wire_Predicates
begin

text \<open>
  The prover of \<^verbatim>\<open>cmt_sumcheck_p.cpp\<close> meets the interface of \<open>sumcheck_prover\<close>, so the verifier
  accepts it.
\<close>

section \<open>The honest prover as an interpretation\<close>

definition run_inv :: "(mpz \<Rightarrow> mpz \<Rightarrow> mpz) \<Rightarrow> (nat \<Rightarrow> mpz) \<Rightarrow> nat \<Rightarrow> SCRun \<Rightarrow> bool" where
  "run_inv mpz_invert c k run \<longleftrightarrow>
     run_ret run = None \<and> run_round run = k \<and> sc_inv mpz_invert c k (run_st run) \<and>
     length (run_poly run) = batchSize (run_st run) * 3 \<and>
     length (run_rand run) = numRounds (run_st run) \<and> (\<forall>i < k. run_rand run ! i = c i)"

definition run_fin :: "(nat \<Rightarrow> mpz) \<Rightarrow> SCRun \<Rightarrow> mpz \<Rightarrow> mpz \<Rightarrow> mpz" where
  "run_fin c run v1 v2 =
     (let st = run_st run
      in (\<Prod>i < out_logSize st. eq_ext (zvec st ! i) (c i)) *
         (\<Sum>g < out_size st. (\<Prod>i < numRounds st. sel (round_bit st i g) (c i)) * gate_op (wires st ! g) v1 v2))"

text \<open>What the object was created with.\<close>

definition run_input :: "SCRun \<Rightarrow> GateWiring list \<times> mpz list list \<times> mpz list list \<times> mpz_vec \<times> mpz" where
  "run_input run = (let st = run_st run in (wires st, inVals st, outVals st, zvec st, scprime st))"

lemma keeps_input: "keeps (run_st run) (run_st run') \<Longrightarrow> run_input run' = run_input run"
  by (simp add: run_input_def keeps_def Let_def)

lemma keeps_rounds: "keeps st st' \<Longrightarrow> numRounds st' = numRounds st"
  by (simp add: numRounds_def keeps_fields)

lemma honest_answers:
  assumes I: "run_inv mpz_invert c k run" and k: "k < numRounds (run_st run)"
    and res: "sc_handle mpz_invert (REQ_SC_POLY (c k)) run = (run', r)"
  shows "run_inv mpz_invert c (Suc k) run' \<and> keeps (run_st run) (run_st run') \<and> run_fin c run' = run_fin c run \<and>
    (\<exists>q. r = Some q \<and> good_answer (scprime (run_st run)) (batchSize (run_st run)) (c k) q
       (\<lambda>b. expected (run_st run) ! b) (\<lambda>b. expected (run_st run') ! b))"
proof -
  let ?st = "run_st run"
  obtain st' q where a: "answer_poly mpz_invert ?st (run_poly run) k (c k) = (st', q)" by fastforce
  have run': "run' = run\<lparr>run_st := st', run_poly := q, run_rand := (run_rand run)[k := c k], run_round := k + 1\<rparr>" "r = Some q"
    using res I k a by (auto simp: sc_handle_def run_inv_def Let_def)
  have S: "sc_inv mpz_invert c k ?st" using I by (simp add: run_inv_def)
  have A: "sc_inv mpz_invert c (Suc k) st' \<and> keeps ?st st' \<and> poly_slots ?st k q \<and>
    (\<forall>b < batchSize ?st. expected st' ! b = sc_poly ?st k b (c k) mod scprime ?st)"
    using answer_poly_inv [OF S k _ a] I by (simp add: run_inv_def)
  then have K: "keeps ?st st'" by simp
  have "good_answer (scprime ?st) (batchSize ?st) (c k) q (\<lambda>b. expected ?st ! b) (\<lambda>b. expected st' ! b)"
    unfolding good_answer_def
  proof (intro conjI allI impI)
    show "length q = batchSize ?st * 3" using A by (simp add: poly_slots_def)
    fix b assume b: "b < batchSize ?st"
    have "(sc_poly ?st k b 0 + sc_poly ?st k b 1) mod scprime ?st = expected ?st ! b mod scprime ?st"
      using S b by (simp add: sc_claim_01 sc_inv_def)
    then show "\<exists>f. polyfn (scprime ?st) 3 f \<and> (\<forall>i < 3. q ! (b * 3 + i) = f (int i) mod scprime ?st) \<and>
        (f 0 + f 1) mod scprime ?st = expected ?st ! b mod scprime ?st \<and>
        expected st' ! b mod scprime ?st = f (c k) mod scprime ?st"
      using A b by (intro exI [of _ "sc_poly ?st k b"]) (simp add: polyfn_sc_poly poly_slots_def)
  qed
  moreover have "run_inv mpz_invert c (Suc k) run'"
    using A I run'(1) k by (auto simp: run_inv_def poly_slots_def keeps_fields [OF K] keeps_rounds [OF K] nth_list_update less_Suc_eq)
  moreover have "run_fin c run' = run_fin c run"
    by (intro ext) (simp add: run_fin_def Let_def run'(1) keeps_fields [OF K] keeps_rounds [OF K] round_bit_keeps [OF K])
  ultimately show ?thesis using K run' by simp
qed

lemma honest_final_claim:
  assumes I: "sc_inv mpz_invert c (numRounds st) st" and b: "b < batchSize st"
  shows "expected st ! b mod scprime st =
    (\<Prod>i < out_logSize st. eq_ext (zvec st ! i) (c i)) *
    (\<Sum>g < out_size st. (\<Prod>i < numRounds st. sel (round_bit st i g) (c i)) * gate_op (wires st ! g) (V1s st ! b) (vals st ! b ! 0))
      mod scprime st"
proof -
  have sh: "scp_shape st" using I by (simp add: sc_inv_def scp_ready_def)
  note pos = scp_sizes [OF sh]
  have er: "enter_round st (numRounds st) = st"
    using pos by (simp add: enter_round_def numRounds_def begin_betas_def take_V1s_def load_vals_def)
  have "expected st ! b mod scprime st = sc_claim st (numRounds st) b mod scprime st" using I b by (simp add: sc_inv_def)
  also have "sc_claim st (numRounds st) b = claimO False st (in_logSize st) b"
    unfolding sc_claim_def er by (simp add: numRounds_def)
  also have "\<dots> mod scprime st = (\<Prod>i < out_logSize st. eq_ext (zvec st ! i) (c i)) *
    (\<Sum>g < out_size st. (\<Prod>i < numRounds st. sel (round_bit st i g) (c i)) * gate_op (wires st ! g) (V1s st ! b) (vals st ! b ! 0))
      mod scprime st"
    unfolding claimO_def
  proof (intro mod_mult_cong sum_mod_cong)
    have "min (numRounds st) (out_logSize st) = out_logSize st" by (simp add: numRounds_def)
    moreover have "weights_inv st (numRounds st)" using I by (simp add: sc_inv_def)
    ultimately show "betar st ! 0 mod scprime st = (\<Prod>i < out_logSize st. eq_ext (zvec st ! i) (c i)) mod scprime st"
      using I pos by (simp add: sc_inv_def weights_inv_def numRounds_def)
    fix g assume g: "g \<in> {..<out_size st}"
    then show "addormultr st ! g mod scprime st = (\<Prod>i < numRounds st. sel (round_bit st i g) (c i)) mod scprime st"
      using I by (simp add: sc_inv_def)
    have "O_idx False st g div 2 ^ in_logSize st = 0" using shape_in_idx [OF sh, of g False] g by simp
    then show "O_apply False st (wires st ! g) b (vals st ! b ! (O_idx False st g div 2 ^ in_logSize st)) mod scprime st =
      gate_op (wires st ! g) (V1s st ! b) (vals st ! b ! 0) mod scprime st" by (simp add: O_apply_def)
  qed
  finally show ?thesis .
qed

lemma answer_Vs_nth:
  assumes "b < batchSize st"
  shows "answer_Vs st ! (2 * b) = V1s st ! b" "answer_Vs st ! (2 * b + 1) = vals st ! b ! 0"
    "length (answer_Vs st) = batchSize st * 2"
proof -
  have "length (concat (map (\<lambda>b. [f b, h b]) [0..<n])) = 2 * n \<and>
    (\<forall>b < n. concat (map (\<lambda>b. [f b, h b]) [0..<n]) ! (2 * b) = f b \<and>
       concat (map (\<lambda>b. [f b, h b]) [0..<n]) ! (2 * b + 1) = h b)" for f h :: "nat \<Rightarrow> int" and n
    by (induction n) (auto simp: nth_append less_Suc_eq)
  from this [of "\<lambda>b. V1s st ! b" "\<lambda>b. vals st ! b ! 0" "batchSize st"] assms
  show "answer_Vs st ! (2 * b) = V1s st ! b" "answer_Vs st ! (2 * b + 1) = vals st ! b ! 0"
    "length (answer_Vs st) = batchSize st * 2" by (simp_all add: answer_Vs_def)
qed

lemma sc_handle_Vs:
  "run_ret run = None \<Longrightarrow> sc_handle mpz_invert REQ_VS run =
     (run\<lparr>run_ret := Some (run_round run \<ge> numRounds (run_st run))\<rparr>, Some (answer_Vs (run_st run)))"
  by (simp add: sc_handle_def Let_def)

interpretation honest: sumcheck_prover "sc_handle mpz_invert" "run_inv mpz_invert" "\<lambda>run. batchSize (run_st run)"
  "\<lambda>run. numRounds (run_st run)" "\<lambda>run. scprime (run_st run)" "\<lambda>run b. expected (run_st run) ! b" run_fin run_input
  for mpz_invert
proof
  show "prime_modulus (scprime (run_st s))" if "run_inv mpz_invert c k s" for c k s
    using that by (simp add: run_inv_def sc_inv_def scp_ready_def)
next
  fix c k s s' r
  assume I: "run_inv mpz_invert c k s" "k < numRounds (run_st s)" "sc_handle mpz_invert (REQ_SC_POLY (c k)) s = (s', r)"
  have K: "keeps (run_st s) (run_st s')" using honest_answers [OF I] by simp
  show "run_inv mpz_invert c (Suc k) s' \<and> batchSize (run_st s') = batchSize (run_st s) \<and>
      numRounds (run_st s') = numRounds (run_st s) \<and> scprime (run_st s') = scprime (run_st s) \<and>
      run_fin c s' = run_fin c s \<and> run_input s' = run_input s \<and> (\<exists>q. r = Some q \<and> good_answer (scprime (run_st s)) (batchSize (run_st s)) (c k) q
        ((!) (expected (run_st s))) ((!) (expected (run_st s'))))"
    using honest_answers [OF I] by (simp add: keeps_fields [OF K] keeps_rounds [OF K] keeps_input [OF K])
next
  fix c s s' r
  assume I: "run_inv mpz_invert c (numRounds (run_st s)) s" and res: "sc_handle mpz_invert REQ_VS s = (s', r)"
  have S: "sc_inv mpz_invert c (numRounds (run_st s)) (run_st s)" using I by (simp add: run_inv_def)
  have "r = Some (answer_Vs (run_st s))" using res sc_handle_Vs [of s mpz_invert] I by (simp add: run_inv_def)
  moreover have "0 < batchSize (run_st s)" using S by (simp add: sc_inv_def scp_ready_def scp_shape_def)
  ultimately show "\<exists>vs. r = Some vs \<and> length vs = batchSize (run_st s) * 2 \<and>
      (\<forall>b < batchSize (run_st s). expected (run_st s) ! b mod scprime (run_st s) =
         run_fin c s (vs ! (2 * b)) (vs ! (2 * b + 1)) mod scprime (run_st s))"
    using honest_final_claim [OF S] by (auto simp: answer_Vs_nth answer_Vs_nth(2) [simplified] run_fin_def Let_def)
qed

section \<open>The final check\<close>

lemma prod_lessThan_add: "(\<Prod>i < a + b. f i) = (\<Prod>i < a. f i) * (\<Prod>i < (b :: nat). f (a + i) :: int)"
  by (induction b) (simp_all add: mult.assoc)

lemma round_bits_weight:
  "(\<Prod>i < numRounds st. sel (round_bit st i g) (c i)) = wire_weight c (out_logSize st) (in_logSize st) (wires st ! g) g"
proof -
  have n: "numRounds st = out_logSize st + (in_logSize st + in_logSize st)" by (simp add: numRounds_def)
  show ?thesis unfolding n prod_lessThan_add wire_weight_def lagr_def
    by (simp add: round_bit_def add.assoc)
qed

lemma treated_as_gate_op:
  "gate_op w v1 v2 = (if shouldBeTreatedAs w ADD then v1 + v2 else 0) + (if shouldBeTreatedAs w MUL then v1 * v2 else 0)"
  by (cases "gtype w") (auto simp: gate_op_def shouldBeTreatedAs_def)

lemma gate_sum_mle:
  "(\<Sum>g < length ws. wire_weight c mi mip1 (ws ! g) g * gate_op (ws ! g) v1 v2) =
     (v1 + v2) * wire_mle ADD ws c mi mip1 + v1 * v2 * wire_mle MUL ws c mi mip1"
  unfolding wire_mle_def sum_distrib_left sum.distrib [symmetric] treated_as_gate_op
  by (intro sum.cong) (auto simp: algebra_simps)

lemma final_value_fin:
  assumes p: "1 < p" and ok: "wire_fns_ok l nip1 p" and rg: "wires_in_range l nip1"
    and rnd: "length rnd = logSize l + 2 * log2i nip1" and c: "\<And>i. i < length rnd \<Longrightarrow> rnd ! i = c i"
    and st: "wires (run_st run) = gates l" "in_size (run_st run) = nip1" "zvec (run_st run) = z"
  shows "final_value p (fst (computeWirePredicates l rnd nip1 p)) (snd (computeWirePredicates l rnd nip1 p))
     (evaluate_beta z rnd (logSize l) p) v1 v2 = run_fin c run v1 v2 mod p"
proof -
  let ?mi = "logSize l" and ?m = "log2i nip1"
  let ?A = "wire_mle ADD (gates l) c ?mi ?m" and ?M = "wire_mle MUL (gates l) c ?mi ?m"
  have mi: "out_logSize (run_st run) = ?mi" "in_logSize (run_st run) = ?m" "out_size (run_st run) = length (gates l)"
    using st by (simp_all add: out_logSize_def logSize_def layer_size_def in_logSize_def out_size_def)
  have ww: "wire_weight ((!) rnd) ?mi ?m w g = wire_weight c ?mi ?m w g" for w g
    unfolding wire_weight_def using rnd c by (intro arg_cong2 [where f = "(*)"] lagr_cong) simp_all
  have W: "fst (computeWirePredicates l rnd nip1 p) mod p = ?A mod p" "snd (computeWirePredicates l rnd nip1 p) mod p = ?M mod p"
    using computeWirePredicates_mle [OF p ok rg, of rnd] rnd unfolding wire_mle_def ww by simp_all
  have B: "evaluate_beta z rnd ?mi p mod p = (\<Prod>i < ?mi. eq_ext (z ! i) (c i)) mod p"
    unfolding evaluate_beta_mod using rnd c by simp
  have "final_value p (fst (computeWirePredicates l rnd nip1 p)) (snd (computeWirePredicates l rnd nip1 p))
     (evaluate_beta z rnd ?mi p) v1 v2 = ((v1 + v2) * ?A + v1 * v2 * ?M) * (\<Prod>i < ?mi. eq_ext (z ! i) (c i)) mod p"
    unfolding final_value_def Let_def modmult_def add_0 by (intro mod_mult_cong mod_add_cong refl W B)
  also have "(v1 + v2) * ?A + v1 * v2 * ?M =
      (\<Sum>g < length (gates l). wire_weight c ?mi ?m (gates l ! g) g * gate_op (gates l ! g) v1 v2)"
    by (rule gate_sum_mle [symmetric])
  finally show ?thesis unfolding run_fin_def Let_def round_bits_weight mi st by (simp add: mult.commute)
qed

section \<open>The beginning\<close>

lemma init_vec_si_nth: "i < length vec \<Longrightarrow> init_vec_si vec v ! i = v"
  using fold_upd_nth [of i vec "\<lambda>_ _. v" 0 "length vec"] by (simp add: init_vec_si_def)

lemma length_init_vec_si [simp]: "length (init_vec_si vec v) = length vec"
  by (simp add: init_vec_si_def)

lemma begin_claim:
  assumes sh: "scp_shape st" and ad: "\<And>g. g < out_size st \<Longrightarrow> addormultr st ! g = 1" and b: "b < batchSize st"
  shows "sc_claim st 0 b = mle_at (outVals st ! b) ((!) (zvec st)) (out_logSize st)"
proof -
  note pos = scp_sizes [OF sh]
  have "sc_claim st 0 b = claimP (enter_round st 0) 0 b" using pos by (simp add: sc_claim_def)
  moreover have "partialBetar (enter_round st 0) = 1"
    using pos by (simp add: enter_round_def Let_def) (simp add: begin_betas_def)
  moreover have "length (outVals st ! b) = out_size st" using sh b by (simp add: scp_shape_def)
  ultimately show ?thesis
    by (simp add: claimP_def P_weight_def ad mle_at_def mult.commute cong: sum.cong_simp)
qed

text \<open>A prover's object as \<^verbatim>\<open>CMTCircuitProver::doRound\<close> creates it, with the layers' values reduced to lists.\<close>

definition layers_agree :: "CircuitLayer \<Rightarrow> nat \<Rightarrow> mpz \<Rightarrow> mpz list list \<Rightarrow> mpz list list \<Rightarrow> bool" where
  "layers_agree l nip1 p ins outs \<longleftrightarrow> length outs = length ins \<and>
     (\<forall>b < length ins. length (ins ! b) = nip1 \<and> length (outs ! b) = layer_size l \<and>
        (\<forall>g < layer_size l. outs ! b ! g mod p =
           gate_op (gates l ! g) (ins ! b ! in1 (gates l ! g)) (ins ! b ! in2 (gates l ! g)) mod p))"

lemma begin_run_inv:
  assumes inv: "gmp_invert mpz_invert" and p: "prime_modulus p" and n: "0 < layer_size l" "0 < nip1"
    and rg: "wires_in_range l nip1" and z: "logSize l \<le> length z" "z ! (logSize l - 1) mod p \<noteq> 1"
    and va: "layers_agree l nip1 p ins outs" and ne: "ins \<noteq> []" and ts: "length ts = length ins"
    and sum: "\<And>b. b < length ins \<Longrightarrow> ts ! b mod p = mle_at (outs ! b) ((!) z) (logSize l) mod p"
  shows "run_inv mpz_invert c 0 (begin_run (new_SumCheckProver (gates l) ins outs z p) ts)"
proof -
  define st where "st = start_run (new_SumCheckProver (gates l) ins outs z p) ts"
  have F: "wires st = gates l" "inVals st = ins" "outVals st = outs" "zvec st = z" "scprime st = p" "expected st = ts"
    "length (V1s st) = length ins" "vals st = replicate (length ins) (replicate (2 ^ log2i (length (ins ! 0))) 0)"
    "length (betar st) = length (gates l)" "length (addormultr st) = length (gates l)"
    by (simp_all add: st_def start_run_def new_SumCheckProver_def)
  have G: "batchSize st = length ins" "out_size st = layer_size l" "out_logSize st = logSize l" "in_size st = nip1"
    "in_logSize st = log2i nip1"
    using F ne va by (auto simp: batchSize_def out_size_def out_logSize_def in_size_def in_logSize_def logSize_def
        layer_size_def layers_agree_def)
  have i0: "length (ins ! 0) = nip1" using va ne by (simp add: layers_agree_def)
  have sh: "scp_shape st"
    unfolding scp_shape_def G F using n ne va ts rg i0
    by (auto simp: layers_agree_def wires_in_range_def list_all_length layer_size_def F)
  have ad: "addormultr st ! g = 1" if "g < out_size st" for g
    using that F(10) G(2) by (simp add: st_def start_run_def init_vec_si_nth new_SumCheckProver_def layer_size_def)
  have "scp_ready mpz_invert st"
    unfolding scp_ready_def F G using inv p sh z va by (simp add: layers_agree_def)
  moreover have "weights_inv st 0" using scp_sizes [OF sh] by (simp add: weights_inv_def)
  moreover have "expected st ! b mod scprime st = sc_claim st 0 b mod scprime st" if "b < batchSize st" for b
    using begin_claim [OF sh ad that] sum [of b] that by (simp add: F G)
  ultimately have "sc_inv mpz_invert c 0 st" using ad by (simp add: sc_inv_def)
  moreover have "batchSize (new_SumCheckProver (gates l) ins outs z p) = batchSize st"
    "numRounds (new_SumCheckProver (gates l) ins outs z p) = numRounds st"
    by (simp_all add: st_def start_run_def new_SumCheckProver_def batchSize_def numRounds_def out_logSize_def in_logSize_def in_size_def)
  ultimately show ?thesis by (simp add: run_inv_def begin_run_def st_def polySize_def mult.commute)
qed

section \<open>Acceptance\<close>

definition share :: "CMTProtocolConfig \<Rightarrow> 'a list \<Rightarrow> nat \<Rightarrow> 'a list" where
  "share conf xs pid = distribute conf xs 1 ! pid"

definition honest_nets ::
  "CMTProtocolConfig \<Rightarrow> CircuitLayer \<Rightarrow> mpz list list \<Rightarrow> mpz list list \<Rightarrow> mpz_vec \<Rightarrow> mpz \<Rightarrow> mpz_vec \<Rightarrow> SCRun list" where
  "honest_nets conf l ins outs z p ts =
     map (\<lambda>pid. begin_run (new_SumCheckProver (gates l) (share conf ins pid) (share conf outs pid) z p)
                 (share conf ts pid)) [0..<numProvers conf]"

lemma share_nth:
  assumes cs: "config_split conf" and pid: "pid < numProvers conf" and len: "length xs = vbatchSize conf"
  shows "length (share conf xs pid) = psize conf pid"
    "b < psize conf pid \<Longrightarrow> share conf xs pid ! b = xs ! (pstart conf pid + b)"
  using pid config_end [OF cs pid] len by (simp_all add: share_def distribute_def pstart_def psize_def Let_def)

lemma honest_run_accepts:
  assumes inv: "gmp_invert mpz_invert" and p: "prime_modulus p"
    and cs: "config_split conf" and ne: "0 < vbatchSize conf" "\<And>pid. pid < numProvers conf \<Longrightarrow> 0 < psize conf pid"
    and n: "0 < layer_size l" "0 < nip1" and rg: "wires_in_range l nip1" and ok: "wire_fns_ok l nip1 p"
    and z: "logSize l \<le> length z" "z ! (logSize l - 1) mod p \<noteq> 1"
    and ins: "length ins = vbatchSize conf" and va: "layers_agree l nip1 p ins outs"
    and ts: "length ts = vbatchSize conf" "\<And>b. b < vbatchSize conf \<Longrightarrow> ts ! b = mle_at (outs ! b) ((!) z) (logSize l) mod p"
    and v: "vconf v = conf" "inSize v = nip1" "outLayer v = l" "vz v = z" "trueSums v = ts" "vprime v = p"
  shows "\<exists>results nets1 nets'. v_run (sc_handle mpz_invert) v c (honest_nets conf l ins outs z p ts) = Some (results, nets') \<and>
    success results \<and> rand results = map c [0..<v_numRounds v] \<and> length nets' = numProvers conf \<and>
    length (Vs results) = 2 * vbatchSize conf \<and>
    (\<forall>pid < numProvers conf. run_inv mpz_invert c (v_numRounds v) (nets1 ! pid) \<and>
       batchSize (run_st (nets1 ! pid)) = psize conf pid \<and>
       run_input (nets1 ! pid) = (gates l, share conf ins pid, share conf outs pid, z, p) \<and>
       nets' ! pid = fst (sc_handle mpz_invert REQ_VS (nets1 ! pid)) \<and> (\<forall>i < psize conf pid * 2.
         Vs results ! (pstart conf pid * 2 + i) = the (snd (sc_handle mpz_invert REQ_VS (nets1 ! pid))) ! i))"
proof -
  let ?nets = "honest_nets conf l ins outs z p ts"
  have outs: "length outs = vbatchSize conf" using va ins by (simp add: layers_agree_def)
  have net: "run_inv mpz_invert c 0 (?nets ! pid) \<and> batchSize (run_st (?nets ! pid)) = psize conf pid \<and>
      numRounds (run_st (?nets ! pid)) = v_numRounds v \<and> scprime (run_st (?nets ! pid)) = p \<and>
      wires (run_st (?nets ! pid)) = gates l \<and> in_size (run_st (?nets ! pid)) = nip1 \<and> zvec (run_st (?nets ! pid)) = z \<and>
      (\<forall>b < psize conf pid. ts ! (pstart conf pid + b) = expected (run_st (?nets ! pid)) ! b mod p)"
    if pid: "pid < numProvers conf" for pid
  proof -
    let ?i = "share conf ins pid" and ?o = "share conf outs pid" and ?t = "share conf ts pid"
    note D = share_nth [OF cs pid ins] share_nth [OF cs pid outs] share_nth [OF cs pid ts(1)]
    have lt: "pstart conf pid + b < vbatchSize conf" if "b < psize conf pid" for b
      using config_end [OF cs pid] that by simp
    have va': "layers_agree l nip1 p ?i ?o"
      using va lt ins by (simp add: layers_agree_def D)
    have ne': "?i \<noteq> []" using ne(2) [OF pid] D(1) by auto
    have i0: "length (?i ! 0) = nip1" using va' ne' by (simp add: layers_agree_def)
    have "run_inv mpz_invert c 0 (begin_run (new_SumCheckProver (gates l) ?i ?o z p) ?t)"
      using ts lt by (intro begin_run_inv [OF inv p n rg z va' ne']) (simp_all add: D)
    then show ?thesis using pid i0 ts lt v
      by (simp add: honest_nets_def begin_run_def start_run_def new_SumCheckProver_def batchSize_def numRounds_def
          out_logSize_def in_logSize_def in_size_def v_numRounds_def logSize_def layer_size_def D)
  qed
  have W: "final_value p (fst (computeWirePredicates l (map c [0..<v_numRounds v]) nip1 p))
      (snd (computeWirePredicates l (map c [0..<v_numRounds v]) nip1 p))
      (evaluate_beta z (map c [0..<v_numRounds v]) (logSize l) p) v1 v2 = run_fin c (?nets ! pid) v1 v2 mod p"
    if "pid < numProvers conf" for pid v1 v2
    using net [OF that] p by (intro final_value_fin [OF _ ok rg]) (auto simp: v_numRounds_def v)
  have nets: "length ?nets = numProvers conf" by (simp add: honest_nets_def)
  have start: "run_inv mpz_invert c 0 (?nets ! pid) \<and> batchSize (run_st (?nets ! pid)) = psize conf pid \<and>
      numRounds (run_st (?nets ! pid)) = v_numRounds v \<and> scprime (run_st (?nets ! pid)) = p \<and>
      (\<forall>b < psize conf pid. ts ! (pstart conf pid + b) = expected (run_st (?nets ! pid)) ! b mod p)"
    if "pid < numProvers conf" for pid using net [OF that] by blast
  have "run_input (?nets ! pid) = (gates l, share conf ins pid, share conf outs pid, z, p)" if "pid < numProvers conf" for pid
    using that by (simp add: honest_nets_def run_input_def begin_run_def start_run_def new_SumCheckProver_def)
  then show ?thesis
    using honest.v_run_accepts [of v ?nets mpz_invert c, unfolded v, OF cs ne(1) nets ts(1) start W] by simp
qed

section \<open>Properties\<close>

text \<open>C2: completeness of the sum-check. If every prover runs the code of \<^verbatim>\<open>CMTSumCheckProver\<close> on its share of a
  batch whose layer values agree with the circuit, the verifier's run ends and accepts, for every outcome of
  its coins, every number of provers and every prime modulus; the one excluded point is \<open>z\<close> whose last
  coordinate is 1, where \<^verbatim>\<open>doRoundP\<close>'s fallback computes a wrong weight.\<close>

theorem sumcheck_completeness:
  assumes "gmp_invert mpz_invert" and "prime_modulus p" and "0 < nProvers" and "nProvers \<le> nBatch"
    and "0 < layer_size l" and "0 < nip1" and "wires_in_range l nip1" and "wire_fns_ok l nip1 p"
    and "logSize l \<le> length z" and "z ! (logSize l - 1) mod p \<noteq> 1"
    and "length ins = nBatch" and "layers_agree l nip1 p ins outs"
    and "ts = map (\<lambda>vs. evaluate_V_i vs z p) outs" and "conf = new_CMTProtocolConfig nBatch nProvers"
  shows "\<exists>results nets'. v_run (sc_handle mpz_invert)
      \<lparr>vconf = conf, inSize = nip1, outLayer = l, vz = z, trueSums = ts, vprime = p\<rparr> coins
      (honest_nets conf l ins outs z p ts) = Some (results, nets') \<and> success results"
proof -
  have cs: "config_split conf" "vbatchSize conf = nBatch" "numProvers conf = nProvers"
    using new_config_split [OF assms(3)] assms(14) by simp_all
  have ps: "0 < psize conf pid" if "pid < numProvers conf" for pid
    using that assms(3,4,14) by (simp add: new_config_nth div_greater_zero_iff)
  have ls: "length outs = nBatch" "\<And>b. b < nBatch \<Longrightarrow> length (outs ! b) = layer_size l"
    using assms(11,12) by (auto simp: layers_agree_def)
  have ts: "ts ! b = mle_at (outs ! b) ((!) z) (logSize l) mod p" if "b < vbatchSize conf" for b
    using that cs ls assms(2,13) evaluate_V_i_mle [of p "outs ! b" z] by (auto simp: logSize_def)
  show ?thesis
    using honest_run_accepts [OF assms(1,2) cs(1) _ ps assms(5-10) _ assms(12) _ ts,
        of "\<lparr>vconf = conf, inSize = nip1, outLayer = l, vz = z, trueSums = ts, vprime = p\<rparr>" coins]
      cs ls assms(3,4,11,13) by auto
qed

definition example_layer :: CircuitLayer where
  "example_layer = \<lparr>gates = [\<lparr>gtype = ADD, in1 = 0, in2 = 1\<rparr>, \<lparr>gtype = MUL, in1 = 0, in2 = 1\<rparr>],
     add_fn = None, mul_fn = None\<rparr>"

lemma example_layer_simps:
  "layer_size example_layer = 2" "logSize example_layer = 1" "wires_in_range example_layer 2" "wire_fns_ok example_layer 2 p"
  by (simp_all add: layer_size_def logSize_def example_layer_def wires_in_range_def wire_fns_ok_def log2i_def ceillog2_eqI)

theorem sumcheck_completeness_witness:
  "\<exists>results nets'. v_run (sc_handle mod_inverse)
      \<lparr>vconf = new_CMTProtocolConfig 2 2, inSize = 2, outLayer = example_layer, vz = [3],
       trueSums = map (\<lambda>vs. evaluate_V_i vs [3] 7) [[1, 1], [1, 5]], vprime = 7\<rparr> (\<lambda>i. int i + 2)
      (honest_nets (new_CMTProtocolConfig 2 2) example_layer [[3, 5], [2, 6]] [[1, 1], [1, 5]] [3] 7
        (map (\<lambda>vs. evaluate_V_i vs [3] 7) [[1, 1], [1, 5]])) = Some (results, nets') \<and> success results"
proof -
  have "layers_agree example_layer 2 7 [[3, 5], [2, 6]] [[1, 1], [1, 5]]"
    by code_simp
  then show ?thesis
    by (intro sumcheck_completeness [OF euclid.gmp_invert_axioms prime_modulus_7 _ _ _ _ example_layer_simps(3,4)])
      (simp_all add: example_layer_simps)
qed

end
