(* ===== verification/Circuit_Level.thy ===== *)
theory Circuit_Level
  imports Circuit_Verifier Sumcheck_Honest
begin

text \<open>
  One level of the protocol: the sum-check inside the circuit prover is the sum-check on its own, the
  polynomial of the mini-IP is the restriction of the next layer's extension to a line, and an honest level
  is accepted and leaves both sides with the same claim about the next one.
\<close>

section \<open>Embedding the sum-check loop\<close>

definition embed_nets :: "(nat \<Rightarrow> 's \<Rightarrow> 't) \<Rightarrow> 's list \<Rightarrow> 't list" where
  "embed_nets e nets = map (\<lambda>pid. e pid (nets ! pid)) [0..<length nets]"

definition simulates ::
  "(nat \<Rightarrow> 's \<Rightarrow> 't) \<Rightarrow> (cmt_msg \<Rightarrow> 's \<Rightarrow> 's \<times> 'r) \<Rightarrow> (cmt_msg \<Rightarrow> 't \<Rightarrow> 't \<times> 'r) \<Rightarrow> bool" where
  "simulates e h h' \<longleftrightarrow> (\<forall>msg \<in> insert REQ_VS (range REQ_SC_POLY). \<forall>pid s.
     h' msg (e pid s) = (e pid (fst (h msg s)), snd (h msg s)))"

lemma broadcast_embed:
  assumes "simulates e h h'" and "msg \<in> insert REQ_VS (range REQ_SC_POLY)"
  shows "broadcast h' msg (embed_nets e nets) = (embed_nets e (fst (broadcast h msg nets)), snd (broadcast h msg nets))"
  using assms unfolding simulates_def by (auto simp: broadcast_def embed_nets_def intro!: nth_equalityI)

lemma v_run_round_embed:
  assumes "simulates e h h'"
  shows "v_run_round h' v c k (map_option (\<lambda>(ex, q, res, nets). (ex, q, res, embed_nets e nets)) r) =
    map_option (\<lambda>(ex, q, res, nets). (ex, q, res, embed_nets e nets)) (v_run_round h v c k r)"
proof (cases r)
  case (Some s)
  obtain ex q res nets where s: "s = (ex, q, res, nets)" by (metis prod_cases4)
  have "requestPoly h' v q (c k) (embed_nets e nets) =
      map_option (\<lambda>(q, nets). (q, embed_nets e nets)) (requestPoly h v q (c k) nets)"
    unfolding requestPoly_def broadcast_embed [OF assms, of "REQ_SC_POLY (c k)", simplified]
    by (simp add: case_prod_unfold option.map_comp o_def Let_def)
  then show ?thesis unfolding Some s
    by (cases "requestPoly h v q (c k) nets") (auto simp: v_run_round_def v_doRound_def Let_def)
qed (simp add: v_run_round_def)

lemma v_run_embed:
  assumes S: "simulates e h h'"
  shows "v_run h' v c (embed_nets e nets) = map_option (\<lambda>(res, nets). (res, embed_nets e nets)) (v_run h v c nets)"
proof -
  let ?E = "map_option (\<lambda>(ex, q, res, nets). (ex, q, res, embed_nets e nets))"
  have F: "fold (v_run_round h' v c) [0..<n] (?E r) = ?E (fold (v_run_round h v c) [0..<n] r)" for n r
    by (induction n) (simp_all add: v_run_round_embed [OF S])
  have V: "requestVs h' v vs (embed_nets e nets) = map_option (\<lambda>(vs, nets). (vs, embed_nets e nets)) (requestVs h v vs nets)" for vs nets
    unfolding requestVs_def broadcast_embed [OF S, of REQ_VS, simplified]
    by (simp add: case_prod_unfold option.map_comp o_def Let_def)
  have D: "doFinalCheck h' v ex res (embed_nets e nets) =
      map_option (\<lambda>(ok, res, nets). (ok, res, embed_nets e nets)) (doFinalCheck h v ex res nets)" for ex res nets
    unfolding doFinalCheck_def V by (cases "requestVs h v (Vs res) nets") (auto simp: Let_def case_prod_unfold)
  define s0 where "s0 = (trueSums v, replicate (vbatchSize (vconf v) * polySize) (0 :: int),
    (new_CMTSumCheckResults (v_numRounds v) (vbatchSize (vconf v)))\<lparr>success := True\<rparr>, nets)"
  have "?E (Some s0) = Some (trueSums v, replicate (vbatchSize (vconf v) * polySize) (0 :: int),
    (new_CMTSumCheckResults (v_numRounds v) (vbatchSize (vconf v)))\<lparr>success := True\<rparr>, embed_nets e nets)" by (simp add: s0_def)
  with F [of "v_numRounds v" "Some s0"] show ?thesis
    unfolding v_run_def Let_def s0_def [symmetric]
    by (cases "fold (v_run_round h v c) [0..<v_numRounds v] (Some s0)") (auto simp: D option.map_comp o_def case_prod_unfold)
qed

text \<open>The circuit prover while its sum-check object runs.\<close>

definition emb :: "nat \<Rightarrow> CircuitProver \<Rightarrow> SCRun \<Rightarrow> CircuitProver" where
  "emb lvl s run =
     (case run_ret run of
        None \<Rightarrow> s\<lparr>pmode := InSumCheck lvl run\<rparr>
      | Some False \<Rightarrow> s\<lparr>pmode := Exited\<rparr>
      | Some True \<Rightarrow> s\<lparr>pmode := InMiniIP lvl (run_rand run)
          (new_vec ((logSize (level (batch s ! 0) (lvl + 1)) + 1) * cp_batchSize s))\<rparr>)"

lemma cp_simulates:
  "simulates (\<lambda>pid run. emb lvl (base pid) run) (sc_handle mpz_invert) (zhandle (cp_handle mpz_invert cls build))"
  unfolding simulates_def
proof (intro ballI allI)
  fix msg pid run assume msg: "msg \<in> insert REQ_VS (range REQ_SC_POLY)"
  show "zhandle (cp_handle mpz_invert cls build) msg (emb lvl (base pid) run) =
    (emb lvl (base pid) (fst (sc_handle mpz_invert msg run)), snd (sc_handle mpz_invert msg run))"
  proof (cases "run_ret run")
    case None
    then show ?thesis
      by (auto simp: zhandle_def cp_handle_def emb_def handle_sumcheck_def cp_batchSize_def Let_def
          split: option.splits bool.splits prod.splits)
  next
    case (Some ok)
    then have "sc_handle mpz_invert msg run = (run, None)" by (simp add: sc_handle_def)
    then show ?thesis using Some msg
      by (cases ok) (auto simp: zhandle_def cp_handle_def emb_def handle_miniIP_def)
  qed
qed

section \<open>The mini-IP\<close>

lemma sel_mod_cong: "x mod p = y mod p \<Longrightarrow> sel b x mod p = sel b y mod p"
  by (cases b) (auto simp: sel_def intro: mod_diff_cong)

lemma lagr_mod_cong: "(\<And>i. i < n \<Longrightarrow> f i mod p = g i mod p) \<Longrightarrow> lagr v f n mod p = lagr v g n mod p"
proof (induction n)
  case (Suc n)
  then show ?case unfolding lagr_Suc by (intro mod_mult_cong sel_mod_cong) simp_all
qed simp

lemma mle_at_mod_cong: "(\<And>i. i < m \<Longrightarrow> f i mod p = g i mod p) \<Longrightarrow> mle_at vs f m mod p = mle_at vs g m mod p"
  unfolding mle_at_def by (intro sum_mod_cong mod_mult_cong lagr_mod_cong refl) simp

definition line_at :: "(nat \<Rightarrow> int) \<Rightarrow> (nat \<Rightarrow> int) \<Rightarrow> int \<Rightarrow> nat \<Rightarrow> int" where
  "line_at a b t j = (1 - t) * a j + t * b j"

lemma polyfn_lagr_line: "polyfn p (Suc n) (\<lambda>t. lagr v (line_at a b t) n)"
proof (induction n)
  case 0
  then show ?case by (simp add: polyfn_const)
next
  case (Suc n)
  define u w where "u = (if bit_at v n then a n else 1 - a n)" and "w = (if bit_at v n then b n - a n else a n - b n)"
  have "lagr v (line_at a b t) (Suc n) = (u + w * t) * lagr v (line_at a b t) n" for t
    by (simp add: lagr_Suc sel_def line_at_def u_def w_def algebra_simps)
  then show ?case using polyfn_times_linear [OF Suc.IH, of u w] by simp
qed

lemma polyfn_mle_line: "polyfn p (Suc n) (\<lambda>t. mle_at vs (line_at a b t) n)"
  unfolding mle_at_def by (intro polyfn_sum polyfn_scale polyfn_lagr_line) simp_all

lemma extrap_line:
  assumes "gmp_invert mpz_invert" and p: "prime_modulus p"
  shows "extrap mpz_invert [x, y] 2 t p = ((1 - t) * x + t * y) mod p"
proof (rule gmp_invert.extrap_poly [OF assms])
  show "int 2 \<le> p" "0 < (2 :: nat)" using p by auto
  have "polyfn p (Suc 1) (\<lambda>t. (x + (y - x) * t) * 1)" by (intro polyfn_times_linear polyfn_const) simp
  moreover have "(\<lambda>t. (x + (y - x) * t) * 1) = (\<lambda>t. (1 - t) * x + t * y)" by (simp add: fun_eq_iff algebra_simps)
  ultimately show "polyfn p 2 (\<lambda>t. (1 - t) * x + t * y)" by (simp add: numeral_2_eq_2)
  show "[x, y] ! i mod p = ((1 - int i) * x + int i * y) mod p" if "i < 2" for i
    using that by (auto simp: less_Suc_eq numeral_2_eq_2)
qed

lemma line_point_value:
  assumes "gmp_invert mpz_invert" and "prime_modulus p" and "log2i (length vs) = mip1"
  shows "evaluate_V_i vs (line_point mpz_invert rnd mi mip1 p i) p =
    mle_at vs (line_at (\<lambda>j. rnd ! (mi + j)) (\<lambda>j. rnd ! (mi + mip1 + j)) (int i)) mip1 mod p"
proof -
  have "1 < p" using assms(2) by auto
  then have "evaluate_V_i vs (line_point mpz_invert rnd mi mip1 p i) p =
      mle_at vs ((!) (line_point mpz_invert rnd mi mip1 p i)) mip1 mod p"
    using evaluate_V_i_mle assms(3) by simp
  also have "\<dots> = mle_at vs (line_at (\<lambda>j. rnd ! (mi + j)) (\<lambda>j. rnd ! (mi + mip1 + j)) (int i)) mip1 mod p"
    by (intro mle_at_mod_cong) (simp add: line_point_def extrap_ui_def extrap_line [OF assms(1,2)] line_at_def)
  finally show ?thesis .
qed

lemma fold_grid_nth:
  fixes xs :: "'a list"
  assumes "length xs = B * n" and "b < B" and "i < n"
  shows "fold (\<lambda>i xs. fold (\<lambda>b xs. xs[b * n + i := f b i]) [0..<B] xs) [0..<n] xs ! (b * n + i) = f b i"
proof -
  have idx: "b' * n + i' = b * n + i \<longleftrightarrow> b' = b \<and> i' = i" if "i' < n" for b' i'
    using that assms(3) by (metis div_mult_self3 div_less add.right_neutral mod_less mod_mult_self3 not_less_zero)
  have "b * n + n \<le> B * n" using mult_le_mono1 [of "Suc b" B n] assms(2) by simp
  then have lt: "b * n + i < length xs" using assms(1,3) by simp
  have inner: "fold (\<lambda>b xs. xs[b * n + i' := f b i']) [0..<m] ys ! (b * n + i) =
      (if i' = i \<and> b < m then f b i else ys ! (b * n + i))" if "i' < n" "length ys = length xs" for i' m and ys :: "'a list"
  proof (induction m)
    case (Suc m)
    then show ?case using idx [OF that(1), of m] that lt by (auto simp: nth_list_update less_Suc_eq)
  qed simp
  define P where "P = (\<lambda>k ys. length ys = length xs \<and> (i < k \<longrightarrow> ys ! (b * n + i) = f b i))"
  have "P n (fold (\<lambda>i xs. fold (\<lambda>b xs. xs[b * n + i := f b i]) [0..<B] xs) [0..<n] xs)"
  proof (rule fold_range_inv)
    show "P 0 xs" by (simp add: P_def)
  next
    fix k ys assume k: "k < n" and "P k ys"
    then show "P (Suc k) (fold (\<lambda>b xs. xs[b * n + k := f b k]) [0..<B] ys)"
      using inner [OF k, of ys B] assms(2) by (auto simp: P_def less_Suc_eq)
  qed simp
  then show ?thesis using assms(3) by (simp add: P_def)
qed

section \<open>The end of an honest sum-check\<close>

lemma honest_end:
  assumes I: "run_inv mpz_invert c (numRounds (run_st run)) run" and b: "b < batchSize (run_st run)"
  shows "the (snd (sc_handle mpz_invert REQ_VS run)) ! (2 * b) =
      mle_at (inVals (run_st run) ! b) (\<lambda>x. c (out_logSize (run_st run) + x)) (in_logSize (run_st run)) mod scprime (run_st run)"
    "the (snd (sc_handle mpz_invert REQ_VS run)) ! (2 * b + 1) =
      mle_at (inVals (run_st run) ! b) (\<lambda>x. c (out_logSize (run_st run) + in_logSize (run_st run) + x)) (in_logSize (run_st run))
        mod scprime (run_st run)"
proof -
  let ?st = "run_st run"
  have S: "sc_inv mpz_invert c (numRounds ?st) ?st" and r: "run_ret run = None" using I by (simp_all add: run_inv_def)
  then have sh: "scp_shape ?st" by (simp add: sc_inv_def scp_ready_def)
  note pos = scp_sizes [OF sh]
  have V: "vals_after c (numRounds ?st - 1) ?st" "V1s_after c ?st"
    using S pos by (auto simp: sc_inv_def numRounds_def)
  have "numRounds ?st - 1 < numRounds ?st" using pos by (simp add: numRounds_def)
  then have k: "Suc ((numRounds ?st - 1 - out_logSize ?st) mod in_logSize ?st) = in_logSize ?st"
    "O_off ?st (numRounds ?st - 1) = out_logSize ?st + in_logSize ?st"
    using O_round_var [of ?st "numRounds ?st - 1"] pos by (auto simp: numRounds_def O_off_def)
  have "length (inVals ?st ! b) \<le> 2 ^ in_logSize ?st" using sh b pos by (simp add: scp_shape_def)
  then have "vals ?st ! b ! 0 = mle_at (inVals ?st ! b) (\<lambda>x. c (out_logSize ?st + in_logSize ?st + x)) (in_logSize ?st) mod scprime ?st"
    using V(1) b k by (simp add: vals_after_def partial_mle_full)
  moreover have "V1s ?st ! b = mle_at (inVals ?st ! b) (\<lambda>x. c (out_logSize ?st + x)) (in_logSize ?st) mod scprime ?st"
    using V(2) b by (simp add: V1s_after_def)
  ultimately show "the (snd (sc_handle mpz_invert REQ_VS run)) ! (2 * b) =
      mle_at (inVals (run_st run) ! b) (\<lambda>x. c (out_logSize (run_st run) + x)) (in_logSize (run_st run)) mod scprime (run_st run)"
    "the (snd (sc_handle mpz_invert REQ_VS run)) ! (2 * b + 1) =
      mle_at (inVals (run_st run) ! b) (\<lambda>x. c (out_logSize (run_st run) + in_logSize (run_st run) + x)) (in_logSize (run_st run))
        mod scprime (run_st run)"
    using answer_Vs_nth [OF b] sc_handle_Vs [OF r] by simp_all
qed

lemma honest_end_state:
  assumes I: "run_inv mpz_invert c (numRounds (run_st run)) run"
  shows "run_ret (fst (sc_handle mpz_invert REQ_VS run)) = Some True"
    "run_rand (fst (sc_handle mpz_invert REQ_VS run)) = map c [0..<numRounds (run_st run)]"
proof -
  have "run_ret run = None" "run_round run = numRounds (run_st run)" using I by (simp_all add: run_inv_def)
  then show "run_ret (fst (sc_handle mpz_invert REQ_VS run)) = Some True" by (simp add: sc_handle_Vs)
  have "run_rand run = map c [0..<numRounds (run_st run)]"
    using I by (intro nth_equalityI) (auto simp: run_inv_def)
  then show "run_rand (fst (sc_handle mpz_invert REQ_VS run)) = map c [0..<numRounds (run_st run)]"
    using I by (simp add: sc_handle_Vs run_inv_def)
qed

lemma share_concat:
  assumes cs: "config_split conf" and len: "length xss = numProvers conf"
    and parts: "\<And>pid. pid < numProvers conf \<Longrightarrow> length (xss ! pid) = psize conf pid"
  shows "length (concat xss) = vbatchSize conf" "pid < numProvers conf \<Longrightarrow> share conf (concat xss) pid = xss ! pid"
proof -
  have sums: "length (concat (take n xss)) = (\<Sum>i < n. psize conf i)" if "n \<le> numProvers conf" for n
    using that
  proof (induction n)
    case (Suc n)
    then show ?case using len parts [of n] by (simp add: take_Suc_conv_app_nth)
  qed simp
  from sums [of "numProvers conf"] show "length (concat xss) = vbatchSize conf"
    using cs len by (simp add: config_split_def)
  assume pid: "pid < numProvers conf"
  have "concat xss = concat (take pid xss) @ concat (drop pid xss)" by (simp add: concat_append [symmetric] del: concat_append)
  moreover have "drop pid xss = xss ! pid # drop (Suc pid) xss" using pid len by (simp add: Cons_nth_drop_Suc)
  moreover have "length (concat (take pid xss)) = pstart conf pid" using sums [of pid] pid cs by (simp add: config_split_def)
  ultimately show "share conf (concat xss) pid = xss ! pid"
    using pid parts [OF pid] by (simp add: share_def distribute_def Let_def pstart_def psize_def)
qed

section \<open>Both sides at the beginning of a level\<close>

definition level_ok :: "CMTCircuit \<Rightarrow> nat \<Rightarrow> bool" where
  "level_ok c lvl \<longleftrightarrow>
     (let l = level c lvl; nip1 = layer_size (level c (lvl + 1)); p = cprime (circ c)
      in 0 < layer_size l \<and> 0 < nip1 \<and> wires_in_range l nip1 \<and> wire_fns_ok l nip1 p \<and> int (log2i nip1 + 1) \<le> p)"

definition instance_ok :: "CMTCircuit \<Rightarrow> CMTCircuit \<Rightarrow> bool" where
  "instance_ok c x \<longleftrightarrow> layers (circ x) = layers (circ c) \<and> cprime (circ x) = cprime (circ c) \<and>
     (\<forall>lvl < depth (circ c). length (level_zs x lvl) = layer_size (level c lvl)) \<and>
     (\<forall>lvl. lvl + 1 < depth (circ c) \<longrightarrow> (\<forall>g < layer_size (level c lvl).
        level_zs x lvl ! g mod cprime (circ c) =
        gate_op (gates (level c lvl) ! g) (level_zs x (lvl + 1) ! in1 (gates (level c lvl) ! g))
          (level_zs x (lvl + 1) ! in2 (gates (level c lvl) ! g)) mod cprime (circ c)))"

definition cp_at :: "CMTProtocolConfig \<Rightarrow> CMTCircuit \<Rightarrow> nat \<Rightarrow> mpz_vec \<Rightarrow> mpz_vec \<Rightarrow> nat \<Rightarrow> CircuitProver \<Rightarrow> bool" where
  "cp_at conf c lvl z r pid s \<longleftrightarrow>
     pmode s = AtTop \<and> cp_batchSize s = psize conf pid \<and> length (batch s) = psize conf pid \<and>
     (\<forall>b < psize conf pid. instance_ok c (batch s ! b)) \<and> zi s = z \<and> ri s = share conf r pid \<and>
     (\<forall>b < psize conf pid. r ! (pstart conf pid + b) =
        mle_at (level_zs (batch s ! b) lvl) ((!) z) (logSize (level c lvl)) mod cprime (circ c))"

definition level_values :: "CMTProtocolConfig \<Rightarrow> nat \<Rightarrow> CircuitProver list \<Rightarrow> mpz list list" where
  "level_values conf lvl nets =
     concat (map (\<lambda>pid. map (\<lambda>x. level_zs x lvl) (batch (nets ! pid))) [0..<numProvers conf])"

lemma level_values_share:
  assumes "config_split conf" and "\<forall>pid < numProvers conf. length (batch (nets ! pid)) = psize conf pid"
  shows "length (level_values conf lvl nets) = vbatchSize conf"
    "pid < numProvers conf \<Longrightarrow> share conf (level_values conf lvl nets) pid = map (\<lambda>x. level_zs x lvl) (batch (nets ! pid))"
    "pid < numProvers conf \<Longrightarrow> b < psize conf pid \<Longrightarrow>
       level_values conf lvl nets ! (pstart conf pid + b) = level_zs (batch (nets ! pid) ! b) lvl"
proof -
  let ?xss = "map (\<lambda>pid. map (\<lambda>x. level_zs x lvl) (batch (nets ! pid))) [0..<numProvers conf]"
  note C = share_concat [OF assms(1), of ?xss]
  show l: "length (level_values conf lvl nets) = vbatchSize conf"
    unfolding level_values_def by (rule C(1)) (use assms(2) in simp_all)
  show s: "share conf (level_values conf lvl nets) pid = map (\<lambda>x. level_zs x lvl) (batch (nets ! pid))"
    if "pid < numProvers conf" for pid
    unfolding level_values_def using that by (subst C(2)) (use assms(2) in simp_all)
  show "level_values conf lvl nets ! (pstart conf pid + b) = level_zs (batch (nets ! pid) ! b) lvl"
    if "pid < numProvers conf" "b < psize conf pid"
    using share_nth(2) [OF assms(1) that(1) l that(2)] s [OF that(1)] assms(2) that by simp
qed

end
