(* ===== verification/Hamdist_Wiring.thy ===== *)
theory Hamdist_Wiring
  imports Hamdist_Build Wiring_Sums Circuit_Level
begin

text \<open>
  The wiring predicates of the Hamming-distance circuit are those of its layers: on every layer that
  \<^verbatim>\<open>HamdistCircuit\<close> builds, its closed-form functions are the multilinear extensions of the gates' wiring.
\<close>

section \<open>The shape of a layer\<close>

lemma log2i_eq: "2 ^ k < n \<Longrightarrow> n \<le> 2 ^ Suc k \<Longrightarrow> log2i n = Suc k"
proof -
  assume n: "2 ^ k < n" "n \<le> 2 ^ Suc k"
  have "1 < n" using n(1) one_le_power [of "2 :: nat" k] by linarith
  from two_power_log2i_less [OF this] have "(2 :: nat) ^ (log2i n - 1) < 2 ^ Suc k" using n(2) by linarith
  then have "log2i n - 1 < Suc k" by (rule power_less_imp_less_exp [rotated]) simp
  moreover have "(2 :: nat) ^ k < 2 ^ log2i n" using n(1) le_two_power_log2i [of n] by linarith
  then have "k < log2i n" by (rule power_less_imp_less_exp [rotated]) simp
  ultimately show ?thesis by simp
qed

lemma log2i_ham [simp]:
  assumes "0 < d"
  shows "log2i (Suc (Suc (2 ^ d))) = Suc d" "log2i (Suc (Suc (2 * 2 ^ d))) = Suc (Suc d)"
proof -
  have "2 ^ 1 \<le> (2 :: nat) ^ d" using assms by (intro power_increasing) auto
  then show "log2i (Suc (Suc (2 ^ d))) = Suc d" "log2i (Suc (Suc (2 * 2 ^ d))) = Suc (Suc d)"
    by (intro log2i_eq; simp)+
qed

lemma treated_gate [simp]:
  "shouldBeTreatedAs (gate ADD a b) ADD" "\<not> shouldBeTreatedAs (gate ADD a b) MUL"
  "\<not> shouldBeTreatedAs (gate MUL a b) ADD" "shouldBeTreatedAs (gate MUL a b) MUL"
  by (simp_all add: shouldBeTreatedAs_def)

abbreviation weight :: "mpz_vec \<Rightarrow> nat \<Rightarrow> nat \<Rightarrow> nat \<Rightarrow> nat \<Rightarrow> nat \<Rightarrow> int" where
  "weight r mi m g a b \<equiv> lagr g ((!) r) mi * lagr a (\<lambda>x. r ! (mi + x)) m * lagr b (\<lambda>x. r ! (mi + m + x)) m"

definition body_mle :: "GateType \<Rightarrow> (nat \<Rightarrow> GateWiring) \<Rightarrow> nat \<Rightarrow> mpz_vec \<Rightarrow> nat \<Rightarrow> nat \<Rightarrow> int" where
  "body_mle ty body n r mi m =
     (\<Sum>g < n. if shouldBeTreatedAs (body g) ty then weight r mi m g (in1 (body g)) (in2 (body g)) else 0)"

definition last_two_mle :: "mpz_vec \<Rightarrow> nat \<Rightarrow> nat \<Rightarrow> nat \<Rightarrow> nat \<Rightarrow> int" where
  "last_two_mle r mi m ni nip1 =
     weight r mi m (ni - 2) (nip1 - 2) (nip1 - 1) + weight r mi m (ni - 1) (nip1 - 1) (nip1 - 1)"

lemma ham_layer_mle:
  "wire_mle ADD (gates (ham_layer n body nip1 a f)) ((!) r) mi m = body_mle ADD body n r mi m + last_two_mle r mi m (n + 2) nip1"
  "wire_mle MUL (gates (ham_layer n body nip1 a f)) ((!) r) mi m = body_mle MUL body n r mi m"
  by (simp_all add: wire_mle_def ham_layer_def last_two_def body_mle_def last_two_mle_def wire_weight_def nth_append cong: if_cong)

lemma hamdist_add_last_two_mle:
  assumes "1 < p" and "mi + 2 * m \<le> length r"
  shows "hamdist_add_last_two r mi m ni nip1 p mod p = last_two_mle r mi m ni nip1 mod p"
proof -
  have d: "lagr v ((!) (drop k r)) m = lagr v (\<lambda>x. r ! (k + x)) m" if "k + m \<le> length r" for v k
    using that by (intro lagr_cong) simp
  let ?a = "\<lambda>v. lagr v (\<lambda>x. r ! (mi + x)) m" and ?b = "lagr (nip1 - 1) (\<lambda>x. r ! (mi + m + x)) m"
  have c: "mul_chi (chi g r mi p) v (drop mi r) m p mod p = lagr g ((!) r) mi * ?a v mod p" for g v
    unfolding mul_chi_mod by (rule mod_mult_cong) (use assms d in \<open>simp_all add: chi_lagr\<close>)
  have "hamdist_add_last_two r mi m ni nip1 p mod p =
      (mul_chi (chi (ni - 2) r mi p) (nip1 - 2) (drop mi r) m p + mul_chi (chi (ni - 1) r mi p) (nip1 - 1) (drop mi r) m p) * ?b mod p"
    unfolding hamdist_add_last_two_def Let_def mul_chi_mod using assms d by simp
  also have "\<dots> = (lagr (ni - 2) ((!) r) mi * ?a (nip1 - 2) + lagr (ni - 1) ((!) r) mi * ?a (nip1 - 1)) * ?b mod p"
    by (rule mod_mult_cong [OF mod_add_cong [OF c c] refl])
  finally show ?thesis by (simp add: last_two_mle_def algebra_simps)
qed

lemma ham_layer_ok:
  assumes p: "1 < p" and mi: "log2i (n + 2) = mi" and m: "log2i nip1 = m"
    and add: "\<And>r. mi + 2 * m \<le> length r \<Longrightarrow> a r mi m (n + 2) nip1 p mod p = body_mle ADD body n r mi m mod p"
    and mul: "\<And>r. mi + 2 * m \<le> length r \<Longrightarrow> f r mi m (n + 2) nip1 p mod p = body_mle MUL body n r mi m mod p"
  shows "wire_fns_ok (ham_layer n body nip1 (hamdist_add_wrap a) f) nip1 p"
proof -
  have l: "logSize (ham_layer n body nip1 (hamdist_add_wrap a) f) = mi" using mi by (simp add: logSize_def)
  have "hamdist_add_wrap a r mi m (n + 2) nip1 p mod p = (body_mle ADD body n r mi m + last_two_mle r mi m (n + 2) nip1) mod p"
    if "mi + 2 * m \<le> length r" for r
    using mod_add_cong [OF add [OF that] hamdist_add_last_two_mle [OF p that, of "n + 2" nip1]]
    by (simp add: hamdist_add_wrap_def modadd_def Let_def)
  then show ?thesis unfolding wire_fns_ok_def l m ham_layer_mle size_ham_layer using mul by (simp add: ham_layer_def)
qed

lemma ham_layer_ok_last_two:
  assumes p: "1 < p" and mi: "log2i (n + 2) = mi" and m: "log2i nip1 = m"
    and add: "\<And>r. body_mle ADD body n r mi m = 0"
    and mul: "\<And>r. mi + 2 * m \<le> length r \<Longrightarrow> f r mi m (n + 2) nip1 p mod p = body_mle MUL body n r mi m mod p"
  shows "wire_fns_ok (ham_layer n body nip1 hamdist_add_last_two f) nip1 p"
proof -
  have l: "logSize (ham_layer n body nip1 hamdist_add_last_two f) = mi" using mi by (simp add: logSize_def)
  show ?thesis unfolding wire_fns_ok_def l m ham_layer_mle size_ham_layer
    using mul add hamdist_add_last_two_mle [OF p] by (simp add: ham_layer_def)
qed

section \<open>The functions\<close>

text \<open>The sums over the bodies of the layers, for any three coordinate functions.\<close>

lemma sum_add_pattern:
  "(\<Sum>g < 2 ^ d. lagr g P (Suc d) * lagr g A (Suc (Suc d)) * lagr (2 ^ d + g) B (Suc (Suc d))) =
     (\<Prod>i < d. eq3 (P i) (A i) (B i)) * ((1 - P d) * (1 - A d) * (1 - A (Suc d)) * B d * (1 - B (Suc d)))"
  unfolding sum_lagr3 [symmetric] sum_distrib_right
  by (intro sum.cong refl) (simp add: lagr_top0 [of _ d P] lagr_top00 lagr_top10 mult_ac)

lemma sum_square_pattern:
  "(\<Sum>g < 2 ^ d. lagr g P (Suc d) * lagr g A (Suc d) * lagr g B (Suc d)) =
     (\<Prod>i < d. eq3 (P i) (A i) (B i)) * ((1 - P d) * (1 - A d) * (1 - B d))"
  unfolding sum_lagr3 [symmetric] sum_distrib_right
  by (intro sum.cong refl) (simp add: lagr_top0 mult_ac)

lemma sum_pair_pattern:
  "(\<Sum>g < 2 ^ d. lagr g P (Suc d) * lagr (2 * g) A (Suc (Suc d)) * lagr (Suc (2 * g)) B (Suc (Suc d))) =
     (\<Prod>i < d. eq3 (P i) (A (Suc i)) (B (Suc i))) * ((1 - P d) * (1 - A (Suc d)) * (1 - B (Suc d)) * (1 - A 0) * B 0)"
  unfolding sum_lagr3 [symmetric] sum_distrib_right
  by (intro sum.cong refl) (simp only: lessThan_iff lagr_double lagr_top0, simp only: mult_ac)

lemma sum_copy_pattern:
  "(\<Sum>g < 2 ^ d. lagr g P (Suc d) * lagr g A (Suc d) * c) =
     (\<Prod>i < d. eq_ext (P i) (A i)) * ((1 - P d) * (1 - A d) * c)"
  unfolding sum_lagr2 [symmetric] sum_distrib_right
  by (intro sum.cong refl) (simp add: lagr_top0 mult_ac)

lemma sum_reduce_pattern:
  "(\<Sum>g < 2 ^ d. lagr g P d * lagr (2 * g) A (Suc d) * lagr (Suc (2 * g)) B (Suc d)) =
     (\<Prod>i < d. eq3 (P i) (A (Suc i)) (B (Suc i))) * ((1 - A 0) * B 0)"
  unfolding sum_lagr3 [symmetric] sum_distrib_right
  by (intro sum.cong refl) (simp only: lessThan_iff lagr_double, simp only: mult_ac)

text \<open>Sums over the odd and over the even labels.\<close>

lemma sum_odd: "(\<Sum>g < 2 * n. if odd g then F g else 0) = (\<Sum>v < n. F (Suc (2 * v)))" for F :: "nat \<Rightarrow> int"
  by (simp add: sum_lessThan_double)

lemma sum_even: "(\<Sum>g < 2 * n. if odd g then 0 else F g) = (\<Sum>v < n. F (2 * v))" for F :: "nat \<Rightarrow> int"
  by (simp add: sum_lessThan_double)

lemma sum_flt_pattern:
  "(\<Sum>g < 2 * n. if odd g then lagr g P (Suc k) * lagr g A (Suc k) * lagr g B (Suc k)
       else if b then lagr g P (Suc k) * lagr g A (Suc k) * lagr (Suc g) B (Suc k) else 0) =
     (P 0 * A 0 * B 0 + (if b then (1 - P 0) * (1 - A 0) * B 0 else 0)) *
     (\<Sum>v < n. lagr v (\<lambda>i. P (Suc i)) k * lagr v (\<lambda>i. A (Suc i)) k * lagr v (\<lambda>i. B (Suc i)) k)"
  unfolding sum_lessThan_double sum_distrib_left
  by (intro sum.cong refl) (simp add: lagr_double, simp add: algebra_simps)

lemma sum_flt_copy_pattern:
  "(\<Sum>g < 2 * n. if odd g then 0 else lagr g P (Suc k) * lagr g A (Suc k) * c) =
     (1 - P 0) * (1 - A 0) * (\<Sum>v < n. lagr v (\<lambda>i. P (Suc i)) k * lagr v (\<lambda>i. A (Suc i)) k * c)"
  unfolding sum_even sum_distrib_left by (intro sum.cong refl) (simp add: lagr_double)

section \<open>The functions on their layers\<close>

lemma triple: "3 * n = n + n + (n :: nat)"
  by simp

lemma lagr_drop: "k + m \<le> length r \<Longrightarrow> lagr v ((!) (drop k r)) m = lagr v (\<lambda>x. r ! (k + x)) m"
  by (intro lagr_cong) simp

lemma mul_chi_drop:
  "k + m \<le> length r \<Longrightarrow> mul_chi rop v (drop k r) m p mod p = rop * lagr v (\<lambda>x. r ! (k + x)) m mod p"
  by (simp add: mul_chi_mod lagr_drop)

lemma chi_drop: "1 < p \<Longrightarrow> k + m \<le> length r \<Longrightarrow> chi v (drop k r) m p = lagr v (\<lambda>x. r ! (k + x)) m mod p"
  by (simp add: chi_lagr lagr_drop)

lemma mod_mult_mid_eq: "c * (a mod p * b) mod p = c * (a * b) mod (p :: int)"
  by (metis mod_mult_left_eq mod_mult_right_eq)

lemmas fn_simps = mod_mult_mid_eq Let_def mle_closed modmult_def one_sub_def atLeast0LessThan mult.assoc mod_mult_left_eq mod_mult_right_eq triple
  mul_chi_drop chi_drop prod.atLeast_Suc_lessThan_Suc_shift

lemma ham_sum_fn:
  assumes "Suc d + 2 * Suc (Suc d) \<le> length r"
  shows "hamdist_sum_vec r (Suc d) (Suc (Suc d)) ni nip1 p mod p =
    body_mle ADD (\<lambda>i. gate ADD i (2 ^ d + i)) (2 ^ d) r (Suc d) (Suc (Suc d)) mod p"
proof -
  have "body_mle ADD (\<lambda>i. gate ADD i (2 ^ d + i)) (2 ^ d) r (Suc d) (Suc (Suc d)) =
      (\<Sum>g < 2 ^ d. weight r (Suc d) (Suc (Suc d)) g g (2 ^ d + g))" by (simp add: body_mle_def)
  also note sum_add_pattern
  finally show ?thesis using assms by (simp add: hamdist_sum_vec_def fn_simps)
qed

lemma ham_square_fn:
  assumes "Suc d + 2 * Suc d \<le> length r"
  shows "hamdist_flt_mul_lvl1 r (Suc d) (Suc d) ni nip1 p mod p =
    body_mle MUL (\<lambda>i. gate MUL i i) (2 ^ d) r (Suc d) (Suc d) mod p"
proof -
  have "body_mle MUL (\<lambda>i. gate MUL i i) (2 ^ d) r (Suc d) (Suc d) =
      (\<Sum>g < 2 ^ d. weight r (Suc d) (Suc d) g g g)" by (simp add: body_mle_def)
  also note sum_square_pattern
  finally show ?thesis using assms by (simp add: hamdist_flt_mul_lvl1_def fn_simps)
qed

lemma ham_second_fns:
  fixes n :: nat and d r
  defines "body \<equiv> \<lambda>i. if odd i then gate MUL (i div 2) (i div 2) else gate ADD (i div 2) (n + 1)"
  assumes r: "Suc (Suc d) + 2 * Suc d \<le> length r" and n: "n = 2 ^ d" and p: "1 < p"
  shows "hamdist_flt_mul_lvl2 r (Suc (Suc d)) (Suc d) ni (n + 2) p mod p = body_mle MUL body (2 * n) r (Suc (Suc d)) (Suc d) mod p"
    "hamdist_flt_add_lvl2 r (Suc (Suc d)) (Suc d) ni (n + 2) p mod p = body_mle ADD body (2 * n) r (Suc (Suc d)) (Suc d) mod p"
proof -
  let ?P = "\<lambda>i. r ! Suc i" and ?A = "\<lambda>i. r ! (Suc (Suc d) + i)" and ?B = "\<lambda>i. r ! (Suc (Suc d) + Suc d + i)"
  have "body_mle MUL body (2 * n) r (Suc (Suc d)) (Suc d) =
      (\<Sum>g < 2 * n. if odd g then weight r (Suc (Suc d)) (Suc d) g (g div 2) (g div 2) else 0)"
    by (auto simp: body_mle_def body_def intro!: sum.cong)
  also have "\<dots> = r ! 0 * (\<Sum>v < 2 ^ d. lagr v ?P (Suc d) * lagr v ?A (Suc d) * lagr v ?B (Suc d))"
    by (simp add: sum_odd n lagr_double sum_distrib_left mult.assoc)
  also note sum_square_pattern
  finally show "hamdist_flt_mul_lvl2 r (Suc (Suc d)) (Suc d) ni (n + 2) p mod p = body_mle MUL body (2 * n) r (Suc (Suc d)) (Suc d) mod p"
    using r by (simp add: hamdist_flt_mul_lvl2_def fn_simps)
  let ?c = "lagr (Suc n) ?B (Suc d)"
  have "body_mle ADD body (2 * n) r (Suc (Suc d)) (Suc d) =
      (\<Sum>g < 2 * n. if odd g then 0 else weight r (Suc (Suc d)) (Suc d) g (g div 2) (Suc n))"
    by (auto simp: body_mle_def body_def intro!: sum.cong)
  also have "\<dots> = (1 - r ! 0) * (\<Sum>v < 2 ^ d. lagr v ?P (Suc d) * lagr v ?A (Suc d) * ?c)"
    by (simp add: sum_even n lagr_double sum_distrib_left mult.assoc)
  also note sum_copy_pattern
  finally show "hamdist_flt_add_lvl2 r (Suc (Suc d)) (Suc d) ni (n + 2) p mod p = body_mle ADD body (2 * n) r (Suc (Suc d)) (Suc d) mod p"
    using r p by (simp add: hamdist_flt_add_lvl2_def fn_simps) (simp add: mult_ac)
qed

lemma hamdist_flt_mul_closed:
  fixes r :: mpz_vec and d :: nat
  defines "k \<equiv> Suc (Suc d)"
  assumes "k + 2 * k \<le> length r"
  shows "hamdist_flt_mul b r k k ni nip1 p mod p =
    (\<Prod>i < d. eq3 (r ! Suc i) (r ! (k + Suc i)) (r ! (k + k + Suc i))) *
    ((1 - r ! Suc d) * (1 - r ! (k + Suc d)) * (1 - r ! (k + k + Suc d))) *
    (r ! 0 * r ! k * r ! (k + k) + (if b then (1 - r ! 0) * (1 - r ! k) * r ! (k + k) else 0)) mod p"
proof -
  let ?Q = "\<Prod>i < d. eq3 (r ! Suc i) (r ! (k + Suc i)) (r ! (k + k + Suc i))"
  let ?Z = "(1 - r ! Suc d) * (1 - r ! (k + Suc d)) * (1 - r ! (k + k + Suc d))"
  let ?x = "check_equal3 1 r (drop k r) (drop (k + k) r) 1 (k - 1) p"
  have "(\<Prod>i \<in> {Suc 0..<Suc d}. eq3 (r ! i) (drop k r ! i) (drop (k + k) r ! i)) = ?Q"
    using assms by (simp add: prod.atLeast_Suc_lessThan_Suc_shift atLeast0LessThan del: prod.op_ivl_Suc)
  then have "?x = ?Q mod p" by (simp add: check_equal3_closed k_def del: prod.op_ivl_Suc)
  then have x: "check_zero3 ?x r (drop k r) (drop (k + k) r) (k - 1) k p = ?Q * ?Z mod p"
    using assms by (simp add: check_zero3_closed k_def mod_mult_left_eq mult.assoc)
  have "(?Q * ?Z mod p * u + ?Q * ?Z mod p * w) mod p = ?Q * ?Z * (w + u) mod p" for u w
    by (simp add: distrib_left [symmetric] mod_mult_left_eq add.commute)
  then show ?thesis unfolding hamdist_flt_mul_def Let_def x by (simp add: one_sub_def mult.assoc mod_mult_left_eq)
qed

lemma ham_flt_fns:
  fixes n :: nat and d r b
  defines "body \<equiv> \<lambda>i. if odd i then gate MUL i i else if b then gate MUL i (i + 1) else gate ADD i (2 * n + 1)"
    and "k \<equiv> Suc (Suc d)"
  assumes r: "k + 2 * k \<le> length r" and n: "n = 2 ^ d" and p: "1 < p"
  shows "hamdist_flt_mul b r k k ni (2 * n + 2) p mod p = body_mle MUL body (2 * n) r k k mod p"
    "hamdist_flt_add b r k k ni (2 * n + 2) p mod p = body_mle ADD body (2 * n) r k k mod p"
proof -
  let ?P = "\<lambda>i. r ! Suc i" and ?A = "\<lambda>i. r ! (k + Suc i)" and ?B = "\<lambda>i. r ! (k + k + Suc i)"
  let ?S = "\<Sum>v < 2 ^ d. lagr v ?P (Suc d) * lagr v ?A (Suc d) * lagr v ?B (Suc d)"
  have "body_mle MUL body (2 * n) r k k = (\<Sum>g < 2 * n. if odd g then weight r k k g g g else if b then weight r k k g g (Suc g) else 0)"
    by (auto simp: body_mle_def body_def intro!: sum.cong)
  also have "\<dots> = (r ! 0 * r ! k * r ! (k + k) + (if b then (1 - r ! 0) * (1 - r ! k) * r ! (k + k) else 0)) * ?S"
    unfolding n k_def using sum_flt_pattern [where n = "2 ^ d" and P = "(!) r" and k = "Suc d" and A = "\<lambda>i. r ! (k + i)" and B = "\<lambda>i. r ! (k + k + i)" and b = b] by (simp add: k_def cong: if_cong)
  also note sum_square_pattern
  finally show "hamdist_flt_mul b r k k ni (2 * n + 2) p mod p = body_mle MUL body (2 * n) r k k mod p"
    using hamdist_flt_mul_closed [of d r b] r by (simp add: k_def mult_ac)
  show "hamdist_flt_add b r k k ni (2 * n + 2) p mod p = body_mle ADD body (2 * n) r k k mod p"
  proof (cases b)
    case True
    then have "body_mle ADD body (2 * n) r k k = 0"
      unfolding body_mle_def body_def by (intro sum.neutral) simp
    then show ?thesis using True by (simp add: hamdist_flt_add_def)
  next
    case False
    let ?c = "lagr (Suc (2 * n)) (\<lambda>i. r ! (k + k + i)) k"
    have "body_mle ADD body (2 * n) r k k = (\<Sum>g < 2 * n. if odd g then 0 else weight r k k g g (Suc (2 * n)))"
      using False by (auto simp: body_mle_def body_def intro!: sum.cong)
    also have "\<dots> = (1 - r ! 0) * (1 - r ! k) * (\<Sum>v < 2 ^ d. lagr v ?P (Suc d) * lagr v ?A (Suc d) * ?c)"
      unfolding n k_def using sum_flt_copy_pattern [where n = "2 ^ d" and P = "(!) r" and k = "Suc d" and A = "\<lambda>i. r ! (k + i)"] by (simp add: k_def cong: if_cong)
    also note sum_copy_pattern
    finally have body: "body_mle ADD body (2 * n) r k k = (1 - r ! 0) * (1 - r ! k) *
        ((\<Prod>i < d. eq_ext (?P i) (?A i)) * ((1 - ?P d) * (1 - ?A d) * ?c))" .
    have "(\<Prod>i \<in> {Suc 0..<Suc d}. eq_ext (r ! i) (drop k r ! i)) = (\<Prod>i < d. eq_ext (?P i) (?A i))"
      using r by (simp add: prod.atLeast_Suc_lessThan_Suc_shift atLeast0LessThan del: prod.op_ivl_Suc)
    then have eq: "check_equal2 x r (drop k r) 1 (k - 1) p = x * (\<Prod>i < d. eq_ext (?P i) (?A i)) mod p" for x
      by (simp add: check_equal2_closed k_def del: prod.op_ivl_Suc)
    show ?thesis using r False unfolding body hamdist_flt_add_def Let_def eq check_zero2_closed
      by (simp add: k_def mul_chi_drop mod_mult_left_eq mod_mult_mid_eq mult.assoc)
  qed
qed

lemma ham_pair_fn:
  assumes "Suc d + 2 * Suc (Suc d) \<le> length r" and t: "t = ADD \<or> t = MUL"
  shows "hamdist_reduce r (Suc d) (Suc (Suc d)) ni nip1 p mod p =
    body_mle t (\<lambda>i. gate t (2 * i) (2 * i + 1)) (2 ^ d) r (Suc d) (Suc (Suc d)) mod p"
proof -
  have "body_mle t (\<lambda>i. gate t (2 * i) (2 * i + 1)) (2 ^ d) r (Suc d) (Suc (Suc d)) =
      (\<Sum>g < 2 ^ d. weight r (Suc d) (Suc (Suc d)) g (2 * g) (Suc (2 * g)))" using t by (auto simp: body_mle_def)
  also note sum_pair_pattern
  finally show ?thesis using assms by (simp add: hamdist_reduce_def fn_simps)
qed

lemma reduce_fn:
  assumes "Suc d + 2 * Suc (Suc d) \<le> length r"
  shows "reduce r (Suc d) (Suc (Suc d)) (2 ^ Suc d) nip1 p mod p =
    body_mle ADD (\<lambda>i. gate ADD (2 * i) (2 * i + 1)) (2 ^ Suc d) r (Suc d) (Suc (Suc d)) mod p"
proof -
  have "body_mle ADD (\<lambda>i. gate ADD (2 * i) (2 * i + 1)) (2 ^ Suc d) r (Suc d) (Suc (Suc d)) =
      (\<Sum>g < 2 ^ Suc d. weight r (Suc d) (Suc (Suc d)) g (2 * g) (Suc (2 * g)))" by (auto simp: body_mle_def)
  also note sum_reduce_pattern
  finally show ?thesis using assms by (simp add: reduce_def fn_simps)
qed

lemma reduce_fn_root:
  assumes "3 \<le> length r"
  shows "reduce r 1 1 1 nip1 p mod p = body_mle ADD (\<lambda>i. gate ADD (2 * i) (2 * i + 1)) 1 r 1 1 mod p"
  using assms by (simp add: body_mle_def reduce_def fn_simps lagr_def sel_def)

lemma body_mle_none: "(\<And>g. \<not> shouldBeTreatedAs (body g) ty) \<Longrightarrow> body_mle ty body n r mi m = 0"
  by (simp add: body_mle_def)

section \<open>The layers\<close>

lemma ham_top_mle: "wire_mle ty (gates (ham_top n)) ((!) r) mi m = body_mle ty (\<lambda>i. gate ADD (2 * i) (2 * i + 1)) n r mi m"
  by (simp add: wire_mle_def ham_top_def body_mle_def wire_weight_def cong: if_cong)

lemma ham_fns_ok:
  assumes d: "0 < d" and p: "1 < p"
  shows "wire_fns_ok (ham_sum (2 ^ d)) (2 * 2 ^ d + 2) p"
    "wire_fns_ok (ham_square (2 ^ d)) (2 ^ d + 2) p"
    "wire_fns_ok (ham_second (2 ^ d)) (2 ^ d + 2) p"
    "wire_fns_ok (ham_flt (2 ^ d) b) (2 * 2 ^ d + 2) p"
    "wire_fns_ok (ham_last (2 ^ d)) (2 * 2 ^ d + 2) p"
    "wire_fns_ok (ham_reduce (2 ^ d)) (2 * 2 ^ d + 2) p"
  unfolding ham_sum_def ham_square_def ham_second_def ham_flt_def ham_last_def ham_reduce_def
proof -
  have L: "log2i (2 ^ d + 2) = Suc d" "log2i (2 * 2 ^ d + 2) = Suc (Suc d)" using log2i_ham [OF d] by simp_all
  note z = zero_def body_mle_none
  show "wire_fns_ok (ham_layer (2 ^ d) (\<lambda>i. gate ADD i (2 ^ d + i)) (2 * 2 ^ d + 2) (hamdist_add_wrap hamdist_sum_vec) zero) (2 * 2 ^ d + 2) p"
    by (rule ham_layer_ok [OF p L]) (rule ham_sum_fn, simp_all add: z)
  show "wire_fns_ok (ham_layer (2 ^ d) (\<lambda>i. gate MUL i i) (2 ^ d + 2) hamdist_add_last_two hamdist_flt_mul_lvl1) (2 ^ d + 2) p"
    by (rule ham_layer_ok_last_two [OF p L(1,1)]) (simp add: z, rule ham_square_fn)
  show "wire_fns_ok (ham_layer (2 * 2 ^ d) (\<lambda>i. if odd i then gate MUL (i div 2) (i div 2) else gate ADD (i div 2) (2 ^ d + 1)) (2 ^ d + 2)
      (hamdist_add_wrap hamdist_flt_add_lvl2) hamdist_flt_mul_lvl2) (2 ^ d + 2) p"
    by (rule ham_layer_ok [OF p L(2,1)]) (rule ham_second_fns [OF _ refl p], assumption)+
  show "wire_fns_ok (ham_layer (2 * 2 ^ d)
      (\<lambda>i. if odd i then gate MUL i i else if b then gate MUL i (i + 1) else gate ADD i (2 * 2 ^ d + 1)) (2 * 2 ^ d + 2)
      (hamdist_add_wrap (hamdist_flt_add b)) (hamdist_flt_mul b)) (2 * 2 ^ d + 2) p"
    by (rule ham_layer_ok [OF p L(2,2)]) (rule ham_flt_fns [OF _ refl p], assumption)+
  show "wire_fns_ok (ham_layer (2 ^ d) (\<lambda>i. gate MUL (2 * i) (2 * i + 1)) (2 * 2 ^ d + 2) hamdist_add_last_two hamdist_reduce) (2 * 2 ^ d + 2) p"
    by (rule ham_layer_ok_last_two [OF p L]) (simp add: z, rule ham_pair_fn, simp_all)
  show "wire_fns_ok (ham_layer (2 ^ d) (\<lambda>i. gate ADD (2 * i) (2 * i + 1)) (2 * 2 ^ d + 2) (hamdist_add_wrap hamdist_reduce) zero) (2 * 2 ^ d + 2) p"
    by (rule ham_layer_ok [OF p L]) (rule ham_pair_fn, simp_all add: z)
qed

lemma ham_top_ok: "wire_fns_ok (ham_top 2) 4 p" "wire_fns_ok (ham_top 1) 2 p"
proof -
  have l: "log2i 4 = 2" "log2i 2 = 1" "log2i 1 = 1"
    using log2i_eq [of 1 4] log2i_eq [of 0 2] by (simp_all add: log2i_def)
  show "wire_fns_ok (ham_top 2) 4 p"
    unfolding wire_fns_ok_def ham_top_mle logSize_def sizes l
    using reduce_fn [of 0 _ 4 p] by (simp add: ham_top_def numeral_2_eq_2 zero_def body_mle_none)
  show "wire_fns_ok (ham_top 1) 2 p"
    unfolding wire_fns_ok_def ham_top_mle logSize_def sizes l
    using reduce_fn_root [of _ 2 p] by (simp add: ham_top_def zero_def body_mle_none)
qed

end
