(* ===== verification/Circuit_Level_Accept.thy ===== *)
theory Circuit_Level_Accept
  imports Circuit_Level
begin

text \<open>
  An honest level is accepted: the steps of \<open>checkLevel\<close> against provers that run the code, from
  \<^verbatim>\<open>BEGIN_LAYER\<close> to \<^verbatim>\<open>NOTIFY_LPOLY_EXTRAP_PT\<close>.
\<close>

section \<open>The prover's half of the mini-IP\<close>

lemma instance_level: "instance_ok c x \<Longrightarrow> level x lvl = level c lvl"
  by (simp add: instance_ok_def level_def)

lemma compute_lpoly_nth:
  assumes inv: "gmp_invert mpz_invert" and p: "prime_modulus (cprime (circ c))"
    and n: "cp_batchSize s = n" "length (batch s) = n" "0 < n" and ok: "\<And>b. b < n \<Longrightarrow> instance_ok c (batch s ! b)"
    and lvl: "lvl + 1 < depth (circ c)" and m: "m = logSize (level c (lvl + 1))" and mi: "mi = logSize (level c lvl)"
    and len: "length lpoly = n * (m + 1)" and b: "b < n" and i: "i < m + 1"
  shows "compute_lpoly mpz_invert lvl rnd lpoly s ! (b * (m + 1) + i) =
    mle_at (level_zs (batch s ! b) (lvl + 1)) (line_at (\<lambda>j. rnd ! (mi + j)) (\<lambda>j. rnd ! (mi + m + j)) (int i)) m
      mod cprime (circ c)"
proof -
  let ?p = "cprime (circ c)"
  have lev: "level (batch s ! 0) k = level c k" "cprime (circ (batch s ! 0)) = ?p" for k
    using instance_level [OF ok [OF n(3)]] ok [OF n(3)] by (simp_all add: instance_ok_def)
  have "compute_lpoly mpz_invert lvl rnd lpoly s ! (b * (m + 1) + i) =
      evaluate_V_i (level_zs (batch s ! b) (lvl + 1)) (line_point mpz_invert rnd mi m ?p i) (cprime (circ (batch s ! b)))"
    unfolding compute_lpoly_def Let_def lev m [symmetric] mi [symmetric] n(1)
    by (rule fold_grid_nth [OF len b i])
  moreover have "log2i (length (level_zs (batch s ! b) (lvl + 1))) = m" "cprime (circ (batch s ! b)) = ?p"
    using ok [OF b] lvl by (auto simp: instance_ok_def m logSize_def)
  ultimately show ?thesis using line_point_value [OF inv p] by simp
qed

lemma length_fold_grid [simp]:
  "length (fold (\<lambda>i xs. fold (\<lambda>b xs. xs[h b i := f b i]) (ys i) xs) is xs) = length xs"
proof -
  have "length (fold (\<lambda>b xs. xs[h b i := f b i]) zs xs) = length xs" for zs i and xs :: "'a list"
    by (induction zs arbitrary: xs) auto
  then show ?thesis by (induction "is" arbitrary: xs) auto
qed

lemma length_compute_lpoly [simp]: "length (compute_lpoly mpz_invert lvl rnd lpoly s) = length lpoly"
  by (simp add: compute_lpoly_def Let_def)

lemma fold_zi_nth:
  assumes "k \<le> length z" and "i < length z"
  shows "fold (\<lambda>i z. z[i := f i]) [0..<k] z ! i = (if i < k then f i else z ! i)"
  using assms fold_upd_nth [of i z "\<lambda>i _. f i" 0 k] by simp

section \<open>The beginning of a level\<close>

lemma begin_level_nets:
  assumes cs: "config_split conf" and ne: "\<And>pid. pid < numProvers conf \<Longrightarrow> 0 < psize conf pid"
    and lvl: "lvl + 1 < depth (circ c)" and nets: "length nets = numProvers conf"
    and at: "\<And>pid. pid < numProvers conf \<Longrightarrow> cp_at conf c lvl z r pid (nets ! pid)"
  shows "notify (cp_handle mpz_invert cls build) (BEGIN_LAYER lvl) nets =
    embed_nets (\<lambda>pid run. emb lvl (nets ! pid) run)
      (honest_nets conf (level c lvl) (level_values conf (lvl + 1) nets) (level_values conf lvl nets) z (cprime (circ c)) r)"
proof (rule nth_equalityI)
  show "length (notify (cp_handle mpz_invert cls build) (BEGIN_LAYER lvl) nets) =
    length (embed_nets (\<lambda>pid run. emb lvl (nets ! pid) run)
      (honest_nets conf (level c lvl) (level_values conf (lvl + 1) nets) (level_values conf lvl nets) z (cprime (circ c)) r))"
    using nets by (simp add: notify_def broadcast_def embed_nets_def honest_nets_def)
  fix pid assume "pid < length (notify (cp_handle mpz_invert cls build) (BEGIN_LAYER lvl) nets)"
  then have pid: "pid < numProvers conf" using nets by (simp add: notify_def broadcast_def)
  let ?s = "nets ! pid"
  have S: "pmode ?s = AtTop" "length (batch ?s) = psize conf pid" "zi ?s = z" "ri ?s = share conf r pid"
    "\<And>b. b < psize conf pid \<Longrightarrow> instance_ok c (batch ?s ! b)"
    using at [OF pid] by (auto simp: cp_at_def)
  have i0: "instance_ok c (batch ?s ! 0)" "batch ?s \<noteq> []" using S ne [OF pid] by auto
  have lens: "\<forall>pid < numProvers conf. length (batch (nets ! pid)) = psize conf pid"
    using at by (simp add: cp_at_def)
  have "depth (circ (batch ?s ! 0)) = depth (circ c)" "cprime (circ (batch ?s ! 0)) = cprime (circ c)"
    using i0 by (simp_all add: instance_ok_def depth_def)
  then have "fst (cp_handle mpz_invert cls build (BEGIN_LAYER lvl) ?s) =
    ?s\<lparr>pmode := InSumCheck lvl (begin_run (new_SumCheckProver (gates (level c lvl))
      (map (\<lambda>x. level_zs x (lvl + 1)) (batch ?s)) (map (\<lambda>x. level_zs x lvl) (batch ?s)) z (cprime (circ c))) (share conf r pid))\<rparr>"
    using i0 S lvl by (simp add: cp_handle_def handle_top_def begin_layer_def Let_def instance_level)
  then show "notify (cp_handle mpz_invert cls build) (BEGIN_LAYER lvl) nets ! pid =
    embed_nets (\<lambda>pid run. emb lvl (nets ! pid) run)
      (honest_nets conf (level c lvl) (level_values conf (lvl + 1) nets) (level_values conf lvl nets) z (cprime (circ c)) r) ! pid"
    using nets pid level_values_share(2) [OF cs lens pid]
    by (simp add: notify_def broadcast_def embed_nets_def honest_nets_def emb_def begin_run_def)
qed

lemma level_values_agree:
  assumes cs: "config_split conf" and lvl: "lvl + 1 < depth (circ c)"
    and at: "\<And>pid. pid < numProvers conf \<Longrightarrow> cp_at conf c lvl z r pid (nets ! pid)"
  shows "layers_agree (level c lvl) (layer_size (level c (lvl + 1))) (cprime (circ c))
      (level_values conf (lvl + 1) nets) (level_values conf lvl nets)"
    "b < vbatchSize conf \<Longrightarrow>
      r ! b = mle_at (level_values conf lvl nets ! b) ((!) z) (logSize (level c lvl)) mod cprime (circ c)"
proof -
  have lens: "\<forall>pid < numProvers conf. length (batch (nets ! pid)) = psize conf pid"
    using at by (simp add: cp_at_def)
  note LV = level_values_share [OF cs lens]
  have ok: "instance_ok c (batch (nets ! pid) ! b')" if "pid < numProvers conf" "b' < psize conf pid" for pid b'
    using at [OF that(1)] that(2) by (simp add: cp_at_def)
  show "layers_agree (level c lvl) (layer_size (level c (lvl + 1))) (cprime (circ c))
      (level_values conf (lvl + 1) nets) (level_values conf lvl nets)"
    unfolding layers_agree_def LV(1)
  proof (intro conjI allI impI)
    fix b assume "b < vbatchSize conf"
    then obtain pid b' where pb: "pid < numProvers conf" "b' < psize conf pid" "b = pstart conf pid + b'"
      using config_covers [OF cs] by blast
    note I = ok [OF pb(1,2)] and V = LV(3) [OF pb(1,2), folded pb(3)]
    show "length (level_values conf (lvl + 1) nets ! b) = layer_size (level c (lvl + 1))"
      "length (level_values conf lvl nets ! b) = layer_size (level c lvl)"
      using I lvl V by (auto simp: instance_ok_def)
    fix g assume "g < layer_size (level c lvl)"
    then show "level_values conf lvl nets ! b ! g mod cprime (circ c) =
      gate_op (gates (level c lvl) ! g) (level_values conf (lvl + 1) nets ! b ! in1 (gates (level c lvl) ! g))
        (level_values conf (lvl + 1) nets ! b ! in2 (gates (level c lvl) ! g)) mod cprime (circ c)"
      using I lvl V unfolding instance_ok_def by simp
  qed simp
  assume "b < vbatchSize conf"
  then obtain pid b' where pb: "pid < numProvers conf" "b' < psize conf pid" "b = pstart conf pid + b'"
    using config_covers [OF cs] by blast
  then show "r ! b = mle_at (level_values conf lvl nets ! b) ((!) z) (logSize (level c lvl)) mod cprime (circ c)"
    using at [OF pb(1)] LV(3) [OF pb(1,2)] by (simp add: cp_at_def)
qed

section \<open>The sum-check of a level\<close>

lemma mle_at_cong: "(\<And>i. i < m \<Longrightarrow> f i = g i) \<Longrightarrow> mle_at vs f m = mle_at vs g m"
  unfolding mle_at_def by (intro sum.cong refl arg_cong2 [where f = "(*)"] lagr_cong) simp

lemma line_at_01: "line_at a b 0 = a" "line_at a b 1 = b"
  by (simp_all add: line_at_def fun_eq_iff)

lemma runs_end:
  assumes I: "run_inv mpz_invert cn n run" and inp: "run_input run = (gates (level c lvl), ins, outs, z, p)"
    and n: "n = mi + 2 * m" and mi: "mi = logSize (level c lvl)" and m: "m = log2i nip1"
    and ins: "ins \<noteq> []" "\<forall>x \<in> set ins. length x = nip1"
  shows "run_ret (fst (sc_handle mpz_invert REQ_VS run)) = Some True"
    "run_rand (fst (sc_handle mpz_invert REQ_VS run)) = map cn [0..<n]"
    "b < length ins \<Longrightarrow> i < 2 \<Longrightarrow> the (snd (sc_handle mpz_invert REQ_VS run)) ! (2 * b + i) =
      mle_at (ins ! b) (line_at (\<lambda>j. map cn [0..<n] ! (mi + j)) (\<lambda>j. map cn [0..<n] ! (mi + m + j)) (int i)) m mod p"
proof -
  have st: "wires (run_st run) = gates (level c lvl)" "inVals (run_st run) = ins" "scprime (run_st run) = p"
    using inp by (simp_all add: run_input_def Let_def)
  have "length (ins ! 0) = nip1" using ins by simp
  then have L: "out_logSize (run_st run) = mi" "in_logSize (run_st run) = m" "batchSize (run_st run) = length ins"
    using st mi m by (simp_all add: out_logSize_def in_logSize_def in_size_def batchSize_def logSize_def layer_size_def)
  then have N: "numRounds (run_st run) = n" using n by (simp add: numRounds_def)
  have I': "run_inv mpz_invert cn (numRounds (run_st run)) run" using I N by simp
  show "run_ret (fst (sc_handle mpz_invert REQ_VS run)) = Some True"
    "run_rand (fst (sc_handle mpz_invert REQ_VS run)) = map cn [0..<n]"
    using honest_end_state [OF I'] N by simp_all
  assume b: "b < length ins" and i: "i < 2"
  have A: "mle_at (ins ! b) (\<lambda>x. cn (mi + x)) m = mle_at (ins ! b) (\<lambda>j. map cn [0..<n] ! (mi + j)) m"
    "mle_at (ins ! b) (\<lambda>x. cn (mi + m + x)) m = mle_at (ins ! b) (\<lambda>j. map cn [0..<n] ! (mi + m + j)) m"
    using n by (auto intro!: mle_at_cong)
  have "b < batchSize (run_st run)" using b L by simp
  note E = honest_end [OF I' this, unfolded L st A]
  have "i = 0 \<or> i = 1" using i by auto
  then show "the (snd (sc_handle mpz_invert REQ_VS run)) ! (2 * b + i) =
      mle_at (ins ! b) (line_at (\<lambda>j. map cn [0..<n] ! (mi + j)) (\<lambda>j. map cn [0..<n] ! (mi + m + j)) (int i)) m mod p"
    using E by (auto simp: line_at_01)
qed

lemma level_sumcheck:
  fixes c nets conf lvl
  defines "mi \<equiv> logSize (level c lvl)" and "m \<equiv> logSize (level c (lvl + 1))" and "p \<equiv> cprime (circ c)"
    and "vals1 \<equiv> level_values conf (lvl + 1) nets"
  assumes inv: "gmp_invert mpz_invert" and p: "prime_modulus p"
    and cs: "config_split conf" and B: "0 < vbatchSize conf" and ne: "\<And>pid. pid < numProvers conf \<Longrightarrow> 0 < psize conf pid"
    and lvl: "lvl + 1 < depth (circ c)" and L: "level_ok c lvl"
    and z: "mi \<le> length z" "z ! (mi - 1) mod p \<noteq> 1" and r: "length r = vbatchSize conf"
    and nets: "length nets = numProvers conf"
    and at: "\<And>pid. pid < numProvers conf \<Longrightarrow> cp_at conf c lvl z r pid (nets ! pid)"
    and v: "v = \<lparr>vconf = conf, inSize = layer_size (level c (lvl + 1)), outLayer = level c lvl, vz = z, trueSums = r, vprime = p\<rparr>"
  shows "\<exists>results. v_run (zhandle (cp_handle mpz_invert cls build)) v cn
      (notify (cp_handle mpz_invert cls build) (BEGIN_LAYER lvl) nets) =
      Some (results, map (\<lambda>pid. (nets ! pid)\<lparr>pmode := InMiniIP lvl (map cn [0..<mi + 2 * m]) (new_vec (psize conf pid * (m + 1)))\<rparr>)
        [0..<numProvers conf]) \<and>
    success results \<and> rand results = map cn [0..<mi + 2 * m] \<and>
    (\<forall>b < vbatchSize conf. \<forall>i < 2. Vs results ! (2 * b + i) =
       mle_at (vals1 ! b) (line_at (\<lambda>j. rand results ! (mi + j)) (\<lambda>j. rand results ! (mi + m + j)) (int i)) m mod p)"
proof -
  let ?l = "level c lvl" and ?nip1 = "layer_size (level c (lvl + 1))"
  have L': "0 < layer_size ?l" "0 < ?nip1" "wires_in_range ?l ?nip1" "wire_fns_ok ?l ?nip1 p"
    using L by (simp_all add: level_ok_def Let_def p_def)
  have m: "m = log2i ?nip1" by (simp add: m_def logSize_def)
  note ag = level_values_agree [OF cs lvl at, folded vals1_def p_def mi_def]
  have lens: "\<forall>pid < numProvers conf. length (batch (nets ! pid)) = psize conf pid" using at by (simp add: cp_at_def)
  note LV = level_values_share [OF cs lens]
  have vr: "v_numRounds v = mi + 2 * m" by (simp add: v v_numRounds_def mi_def m)
  have vf: "vconf v = conf" "inSize v = ?nip1" "outLayer v = ?l" "vz v = z" "trueSums v = r" "vprime v = p"
    by (simp_all add: v)
  obtain results runs1 runs' where
    run: "v_run (sc_handle mpz_invert) v cn (honest_nets conf ?l vals1 (level_values conf lvl nets) z p r) = Some (results, runs')"
    and ok: "success results" and rd: "rand results = map cn [0..<mi + 2 * m]" and lr: "length runs' = numProvers conf"
    and R: "\<And>pid. pid < numProvers conf \<Longrightarrow> run_inv mpz_invert cn (mi + 2 * m) (runs1 ! pid) \<and>
       run_input (runs1 ! pid) = (gates ?l, share conf vals1 pid, share conf (level_values conf lvl nets) pid, z, p) \<and>
       runs' ! pid = fst (sc_handle mpz_invert REQ_VS (runs1 ! pid)) \<and> (\<forall>i < psize conf pid * 2.
         Vs results ! (pstart conf pid * 2 + i) = the (snd (sc_handle mpz_invert REQ_VS (runs1 ! pid))) ! i)"
    using honest_run_accepts [where v = v and c = cn, OF inv p cs B ne L' z [unfolded mi_def] _ ag(1) r ag(2) [unfolded mi_def]]
      LV(1) vf unfolding vr vals1_def by metis
  have E: "run_ret (runs' ! pid) = Some True \<and> run_rand (runs' ! pid) = map cn [0..<mi + 2 * m] \<and>
      (\<forall>b < psize conf pid. \<forall>i < 2. Vs results ! (2 * (pstart conf pid + b) + i) =
        mle_at (vals1 ! (pstart conf pid + b)) (line_at (\<lambda>j. rand results ! (mi + j)) (\<lambda>j. rand results ! (mi + m + j)) (int i)) m mod p)"
    if pid: "pid < numProvers conf" for pid
  proof -
    have sh: "share conf vals1 pid = map (\<lambda>x. level_zs x (lvl + 1)) (batch (nets ! pid))"
      using LV(2) [OF pid] by (simp add: vals1_def)
    have l1: "\<forall>x \<in> set (share conf vals1 pid). length x = ?nip1"
      using at [OF pid] lvl unfolding sh by (auto simp: cp_at_def instance_ok_def in_set_conv_nth)
    have ne': "share conf vals1 pid \<noteq> []" using ne [OF pid] lens pid unfolding sh by auto
    note rr = R [OF pid]
    note e = runs_end [where n = "mi + 2 * m" and run = "runs1 ! pid", OF rr [THEN conjunct1] rr [THEN conjunct2, THEN conjunct1]
      refl mi_def [THEN meta_eq_to_obj_eq] m ne' l1]
    have "Vs results ! (2 * (pstart conf pid + b) + i) =
        mle_at (vals1 ! (pstart conf pid + b)) (line_at (\<lambda>j. rand results ! (mi + j)) (\<lambda>j. rand results ! (mi + m + j)) (int i)) m mod p"
      if b: "b < psize conf pid" and i: "i < 2" for b i
    proof -
      have "Vs results ! (pstart conf pid * 2 + (2 * b + i)) = the (snd (sc_handle mpz_invert REQ_VS (runs1 ! pid))) ! (2 * b + i)"
        using rr b i by simp
      moreover have "share conf vals1 pid ! b = vals1 ! (pstart conf pid + b)"
        using share_nth(2) [OF cs pid LV(1) b] by (simp add: vals1_def)
      moreover have "pstart conf pid * 2 + (2 * b + i) = 2 * (pstart conf pid + b) + i" by simp
      ultimately show ?thesis using e(3) [where b = b and i = i] rr b i lens pid unfolding rd sh by simp
    qed
    then show ?thesis using e(1,2) rr by simp
  qed
  let ?e = "\<lambda>pid run. emb lvl (nets ! pid) run"
  have "embed_nets ?e runs' = map (\<lambda>pid. (nets ! pid)\<lparr>pmode := InMiniIP lvl (map cn [0..<mi + 2 * m])
      (new_vec (psize conf pid * (m + 1)))\<rparr>) [0..<numProvers conf]"
  proof (rule nth_equalityI)
    fix pid assume "pid < length (embed_nets ?e runs')"
    then have pid: "pid < numProvers conf" using lr by (simp add: embed_nets_def)
    have "cp_batchSize (nets ! pid) = psize conf pid" "level (batch (nets ! pid) ! 0) (lvl + 1) = level c (lvl + 1)"
      using at [OF pid] ne [OF pid] instance_level by (auto simp: cp_at_def)
    then show "embed_nets ?e runs' ! pid = map (\<lambda>pid. (nets ! pid)\<lparr>pmode := InMiniIP lvl (map cn [0..<mi + 2 * m])
      (new_vec (psize conf pid * (m + 1)))\<rparr>) [0..<numProvers conf] ! pid"
      using E [OF pid] lr pid by (simp add: embed_nets_def emb_def m_def mult.commute)
  qed (simp add: embed_nets_def lr)
  moreover have "v_run (zhandle (cp_handle mpz_invert cls build)) v cn (notify (cp_handle mpz_invert cls build) (BEGIN_LAYER lvl) nets) =
      Some (results, embed_nets ?e runs')"
    by (subst begin_level_nets [OF cs ne lvl nets at])
      (use run in \<open>simp_all add: vals1_def p_def v_run_embed [OF cp_simulates]\<close>)
  moreover have "Vs results ! (2 * b + i) = mle_at (vals1 ! b) (line_at (\<lambda>j. rand results ! (mi + j)) (\<lambda>j. rand results ! (mi + m + j)) (int i)) m mod p"
    if "b < vbatchSize conf" "i < 2" for b i
    using config_covers [OF cs that(1)] E that(2) by metis
  ultimately show ?thesis using ok rd by auto
qed

section \<open>The polynomial of the mini-IP\<close>

abbreviation line_mle :: "mpz_vec \<Rightarrow> mpz_vec \<Rightarrow> nat \<Rightarrow> nat \<Rightarrow> int \<Rightarrow> int" where
  "line_mle vs rnd mi m t \<equiv> mle_at vs (line_at (\<lambda>j. rnd ! (mi + j)) (\<lambda>j. rnd ! (mi + m + j)) t) m"

lemma level_lpoly:
  fixes c nets conf lvl rnd and mpz_invert :: "mpz \<Rightarrow> mpz \<Rightarrow> mpz" and m :: nat
  defines "mi \<equiv> logSize (level c lvl)" and "m \<equiv> logSize (level c (lvl + 1))" and "p \<equiv> cprime (circ c)"
    and "vals1 \<equiv> level_values conf (lvl + 1) nets"
    and "lp \<equiv> \<lambda>pid. compute_lpoly mpz_invert lvl rnd (new_vec (psize conf pid * (m + 1))) (nets ! pid)"
    and "mip \<equiv> \<lambda>lps. map (\<lambda>pid. (nets ! pid)\<lparr>pmode := InMiniIP lvl rnd (lps pid)\<rparr>) [0..<numProvers conf]"
  assumes inv: "gmp_invert mpz_invert" and p: "prime_modulus p"
    and cs: "config_split conf" and ne_all: "\<forall>pid < numProvers conf. 0 < psize conf pid"
    and lvl: "lvl + 1 < depth (circ c)"
    and at_all: "\<forall>pid < numProvers conf. cp_at conf c lvl z r pid (nets ! pid)"
  shows "pid < numProvers conf \<Longrightarrow> b < psize conf pid \<Longrightarrow> i < m + 1 \<Longrightarrow>
      lp pid ! (b * (m + 1) + i) = line_mle (vals1 ! (pstart conf pid + b)) rnd mi m (int i) mod p"
    and "\<exists>resps lpoly. broadcast (zhandle (cp_handle mpz_invert cls build)) REQ_LPOLY
        (mip (\<lambda>pid. new_vec (psize conf pid * (m + 1)))) = (mip lp, resps) \<and>
      gather conf (new_vec ((m + 1) * vbatchSize conf)) (m + 1) resps = Some lpoly \<and>
      length lpoly = (m + 1) * vbatchSize conf \<and> (\<forall>b < vbatchSize conf. \<forall>i < m + 1. lpoly ! ((m + 1) * b + i) = line_mle (vals1 ! b) rnd mi m (int i) mod p)"
proof -
  note ne = ne_all [rule_format] and at = at_all [rule_format]
  have lens: "\<forall>pid < numProvers conf. length (batch (nets ! pid)) = psize conf pid" using at by (simp add: cp_at_def)
  show lp: "lp pid ! (b * (m + 1) + i) = line_mle (vals1 ! (pstart conf pid + b)) rnd mi m (int i) mod p"
    if pid: "pid < numProvers conf" and b: "b < psize conf pid" and i: "i < m + 1" for pid b i
  proof -
    note S = at [OF pid, unfolded cp_at_def]
    have "lp pid ! (b * (m + 1) + i) = line_mle (level_zs (batch (nets ! pid) ! b) (lvl + 1)) rnd mi m (int i) mod p"
      unfolding lp_def p_def
      by (rule compute_lpoly_nth [OF inv p [unfolded p_def] _ _ ne [OF pid] _ lvl])
        (use S b i in \<open>simp_all add: m_def mi_def new_vec_def\<close>)
    then show ?thesis using level_values_share(3) [OF cs lens pid b] by (simp add: vals1_def)
  qed
  let ?resps = "map (\<lambda>pid. Some (lp pid)) [0..<numProvers conf]"
  have br: "broadcast (zhandle (cp_handle mpz_invert cls build)) REQ_LPOLY
      (mip (\<lambda>pid. new_vec (psize conf pid * (m + 1)))) = (mip lp, ?resps)"
    by (simp add: broadcast_def zhandle_def cp_handle_def handle_miniIP_def mip_def lp_def compute_lpoly_def cp_batchSize_def Let_def)
  obtain lpoly where g: "gather conf (new_vec ((m + 1) * vbatchSize conf)) (m + 1) ?resps = Some lpoly"
    and gl: "length lpoly = length (new_vec ((m + 1) * vbatchSize conf))"
    and gn: "\<And>pid i. pid < numProvers conf \<Longrightarrow> i < psize conf pid * (m + 1) \<Longrightarrow>
       lpoly ! (pstart conf pid * (m + 1) + i) = the (?resps ! pid) ! i"
    by (rule gather_nth [OF cs, of "m + 1" "new_vec ((m + 1) * vbatchSize conf)" ?resps])
      (simp_all add: lp_def new_vec_def mult.commute)
  have "lpoly ! ((m + 1) * b + i) = line_mle (vals1 ! b) rnd mi m (int i) mod p"
    if b: "b < vbatchSize conf" and i: "i < m + 1" for b i
  proof -
    obtain pid b' where pb: "pid < numProvers conf" "b' < psize conf pid" "b = pstart conf pid + b'"
      using config_covers [OF cs b] by blast
    have "b' * (m + 1) + i < psize conf pid * (m + 1)"
      using pb(2) i mult_le_mono1 [of "Suc b'" "psize conf pid" "m + 1"] by simp
    from gn [OF pb(1) this] lp [OF pb(1,2) i] pb show ?thesis by (simp add: algebra_simps)
  qed
  with br g gl [unfolded new_vec_def length_replicate] show "\<exists>resps lpoly. broadcast (zhandle (cp_handle mpz_invert cls build)) REQ_LPOLY
        (mip (\<lambda>pid. new_vec (psize conf pid * (m + 1)))) = (mip lp, resps) \<and>
      gather conf (new_vec ((m + 1) * vbatchSize conf)) (m + 1) resps = Some lpoly \<and>
      length lpoly = (m + 1) * vbatchSize conf \<and> (\<forall>b < vbatchSize conf. \<forall>i < m + 1. lpoly ! ((m + 1) * b + i) = line_mle (vals1 ! b) rnd mi m (int i) mod p)"
    by blast
qed

section \<open>An honest level is accepted\<close>

lemma level_accepts:
  fixes c nets conf lvl z r
  defines "mi \<equiv> logSize (level c lvl)" and "m \<equiv> logSize (level c (lvl + 1))" and "p \<equiv> cprime (circ c)"
  assumes inv: "gmp_invert mpz_invert" and p: "prime_modulus p"
    and cs: "config_split conf" and B: "0 < vbatchSize conf" and ne: "\<And>pid. pid < numProvers conf \<Longrightarrow> 0 < psize conf pid"
    and lvl: "lvl + 1 < depth (circ c)" and L: "level_ok c lvl"
    and z: "mi \<le> length z" "m \<le> length z" "z ! (mi - 1) mod p \<noteq> 1" and r: "length r = vbatchSize conf"
    and coin: "\<forall>j \<le> m. (lcoin coins lvl - int j) mod p \<noteq> 0"
    and nets: "length nets = numProvers conf"
    and at: "\<And>pid. pid < numProvers conf \<Longrightarrow> cp_at conf c lvl z r pid (nets ! pid)"
  shows "\<exists>z' r' nets'. checkLevel mpz_invert (cp_handle mpz_invert cls build) coins conf c lvl (z, r, nets) =
      Some (True, z', r', nets') \<and> length z' = length z \<and> length r' = length r \<and> length nets' = length nets \<and>
      (\<forall>i < m. z' ! i = line_at (\<lambda>j. sccoins coins lvl (mi + j)) (\<lambda>j. sccoins coins lvl (mi + m + j)) (lcoin coins lvl) i mod p) \<and>
      (\<forall>pid < numProvers conf. cp_at conf c (lvl + 1) z' r' pid (nets' ! pid) \<and> batch (nets' ! pid) = batch (nets ! pid))"
proof -
  let ?h = "cp_handle mpz_invert cls build" and ?t = "lcoin coins lvl"
  define rnd where "rnd = map (sccoins coins lvl) [0..<mi + 2 * m]"
  define vals1 where "vals1 = level_values conf (lvl + 1) nets"
  define lp where "lp = (\<lambda>pid. compute_lpoly mpz_invert lvl rnd (new_vec (psize conf pid * (m + 1))) (nets ! pid))"
  define mip where "mip = (\<lambda>lps. map (\<lambda>pid. (nets ! pid)\<lparr>pmode := InMiniIP lvl rnd (lps pid)\<rparr>) [0..<numProvers conf])"
  obtain results where run: "v_run (zhandle ?h) \<lparr>vconf = conf, inSize = layer_size (level c (lvl + 1)), outLayer = level c lvl,
        vz = z, trueSums = r, vprime = p\<rparr> (sccoins coins lvl) (notify ?h (BEGIN_LAYER lvl) nets) =
        Some (results, mip (\<lambda>pid. new_vec (psize conf pid * (m + 1))))"
    and ok: "success results" and rd: "rand results = rnd"
    and Vs: "\<And>b i. b < vbatchSize conf \<Longrightarrow> i < 2 \<Longrightarrow> Vs results ! (2 * b + i) = line_mle (vals1 ! b) rnd mi m (int i) mod p"
    using level_sumcheck [where cls = cls and build = build and cn = "sccoins coins lvl",
        OF inv p [unfolded p_def] cs B ne lvl L z(1,3) [unfolded mi_def p_def] r nets at refl]
    unfolding rnd_def mip_def vals1_def mi_def m_def p_def by auto
  have "\<forall>pid < numProvers conf. 0 < psize conf pid" "\<forall>pid < numProvers conf. cp_at conf c lvl z r pid (nets ! pid)"
    using ne at by blast+
  note LP = level_lpoly [where rnd = rnd, OF inv p [unfolded p_def] cs this(1) lvl this(2), folded mi_def m_def p_def vals1_def]
  obtain resps lpoly where br: "broadcast (zhandle ?h) REQ_LPOLY (mip (\<lambda>pid. new_vec (psize conf pid * (m + 1)))) = (mip lp, resps)"
    and g: "gather conf (new_vec ((m + 1) * vbatchSize conf)) (m + 1) resps = Some lpoly" and ll: "length lpoly = (m + 1) * vbatchSize conf"
    and lpoly: "\<And>b i. b < vbatchSize conf \<Longrightarrow> i < m + 1 \<Longrightarrow> lpoly ! ((m + 1) * b + i) = line_mle (vals1 ! b) rnd mi m (int i) mod p"
    using LP(2) [where cls = cls and build = build] unfolding lp_def mip_def by auto
  have m0: "0 < m" using L by (simp add: m_def logSize_def log2i_pos level_ok_def Let_def)
  have chk: "lpoly_check (vbatchSize conf) (m + 1) (Vs results) lpoly"
    unfolding lpoly_check_def list_all_iff using Vs lpoly m0 by simp
  define z' where "z' = fold (\<lambda>i z. z[i := extrap mpz_invert [rnd ! (mi + i), rnd ! (mi + m + i)] 2 ?t p]) [0..<m] z"
  define r' where "r' = bary_extrap (length r) lpoly (bary_precompute_weights mpz_invert (m + 1) ?t p) p"
  have zl: "length z' = length z" by (simp add: z'_def)
  have z': "z' ! i = line_at (\<lambda>j. rnd ! (mi + j)) (\<lambda>j. rnd ! (mi + m + j)) ?t i mod p" if "i < m" for i
    using that z(2) by (simp add: z'_def fold_zi_nth extrap_line [OF inv p] line_at_def)
  have P: "polyfn p (m + 1) (line_mle vs rnd mi m)" for vs using polyfn_mle_line [of p m] by simp
  have pm: "int (m + 1) \<le> p" using L by (simp add: level_ok_def Let_def m_def p_def logSize_def)
  have r': "r' ! b = line_mle (vals1 ! b) rnd mi m ?t mod p" if b: "b < vbatchSize conf" for b
  proof -
    have "b * (m + 1) + (m + 1) \<le> length lpoly"
      using mult_le_mono1 [of "Suc b" "vbatchSize conf" "m + 1"] b ll by (simp add: algebra_simps)
    then show ?thesis unfolding r'_def
      by (intro gmp_invert.bary_poly [OF inv p pm P])
        (use b r coin lpoly [OF b] in \<open>simp_all add: mult.commute [of b]\<close>)
  qed
  let ?n = "notify ?h (NOTIFY_LPOLY_EXTRAP_PT ?t) (mip lp)"
  have step: "checkLevel mpz_invert ?h coins conf c lvl (z, r, nets) = Some (True, z', r', ?n)"
    using run ok br g chk by (simp add: checkLevel_def Let_def rd z'_def r'_def mi_def m_def p_def)
  have at': "cp_at conf c (lvl + 1) z' r' pid (?n ! pid) \<and> batch (?n ! pid) = batch (nets ! pid)"
    if pid: "pid < numProvers conf" for pid
  proof -
    note S = at [OF pid, unfolded cp_at_def]
    have lens: "\<forall>pid < numProvers conf. length (batch (nets ! pid)) = psize conf pid" using at by (simp add: cp_at_def)
    have "instance_ok c (batch (nets ! pid) ! 0)" using S ne [OF pid] by blast
    then have lev: "level (batch (nets ! pid) ! 0) k = level c k" "cprime (circ (batch (nets ! pid) ! 0)) = p" for k
      unfolding instance_ok_def by (simp_all add: level_def p_def)
    have N: "?n ! pid = (nets ! pid)\<lparr>zi := z', ri := map (\<lambda>b. extrap mpz_invert (drop (b * (m + 1)) (lp pid)) (m + 1) ?t p) [0..<psize conf pid],
        pmode := AtTop\<rparr>"
      using pid S by (simp add: notify_def broadcast_def mip_def cp_handle_def handle_miniIP_def notify_extrap_def Let_def lev
          z'_def mi_def m_def cp_batchSize_def)
    have lt: "pstart conf pid + b < vbatchSize conf" if "b < psize conf pid" for b
      using config_end [OF cs pid] that by simp
    have ex: "extrap mpz_invert (drop (b * (m + 1)) (lp pid)) (m + 1) ?t p = r' ! (pstart conf pid + b)" if b: "b < psize conf pid" for b
    proof -
      have "b * (m + 1) + (m + 1) \<le> length (lp pid)"
        using mult_le_mono1 [of "Suc b" "psize conf pid" "m + 1"] b by (simp add: lp_def new_vec_def)
      then have "extrap mpz_invert (drop (b * (m + 1)) (lp pid)) (m + 1) ?t p =
          line_mle (vals1 ! (pstart conf pid + b)) rnd mi m ?t mod p"
        by (intro gmp_invert.extrap_poly [OF inv p pm _ P]) (use LP(1) [OF pid b] in \<open>simp_all add: lp_def\<close>)
      then show ?thesis using r' [OF lt [OF b]] by simp
    qed
    have lr: "length r' = vbatchSize conf" by (simp add: r'_def r)
    have "ri (?n ! pid) = share conf r' pid"
      by (rule nth_equalityI) (use share_nth [OF cs pid lr] ex in \<open>simp_all add: N\<close>)
    moreover have "r' ! (pstart conf pid + b) = mle_at (level_zs (batch (nets ! pid) ! b) (lvl + 1)) ((!) z') m mod p"
      if b: "b < psize conf pid" for b
    proof -
      have "vals1 ! (pstart conf pid + b) = level_zs (batch (nets ! pid) ! b) (lvl + 1)"
        using level_values_share(3) [OF cs lens pid b] by (simp add: vals1_def)
      then show ?thesis using r' [OF lt [OF b]] z' by (auto intro!: mle_at_mod_cong)
    qed
    ultimately show ?thesis using S unfolding cp_at_def by (simp add: N m_def p_def cp_batchSize_def)
  qed
  have "z' ! i = line_at (\<lambda>j. sccoins coins lvl (mi + j)) (\<lambda>j. sccoins coins lvl (mi + m + j)) ?t i mod p" if "i < m" for i
    using z' [OF that] that by (simp add: line_at_def rnd_def)
  moreover have "length r' = length r" by (simp add: r'_def)
  moreover have "length ?n = length nets" by (simp add: notify_def broadcast_def mip_def nets)
  ultimately show ?thesis using step zl at' by blast
qed

end
