(* ===== verification/Circuit_Protocol.thy ===== *)
theory Circuit_Protocol
  imports Circuit_Level_Accept
begin

text \<open>
  The levels of the protocol one after the other, against provers that run the code: every level is
  accepted, and after the last one the verifier holds the value of the input layer's extension.
\<close>

text \<open>The coins the protocol needs: no coin of a mini-IP is a node of its polynomial and no
  coordinate that the next sum-check reads last is 1.\<close>

definition level_coins_ok :: "Coins \<Rightarrow> CMTCircuit \<Rightarrow> nat \<Rightarrow> bool" where
  "level_coins_ok coins c lvl \<longleftrightarrow>
     (let mi = logSize (level c lvl); m = logSize (level c (lvl + 1)); p = cprime (circ c); t = lcoin coins lvl
      in (\<forall>j \<le> m. (t - int j) mod p \<noteq> 0) \<and>
         ((1 - t) * sccoins coins lvl (mi + (m - 1)) + t * sccoins coins lvl (mi + m + (m - 1))) mod p \<noteq> 1)"

definition levels_ok :: "CMTCircuit \<Rightarrow> bool" where
  "levels_ok c \<longleftrightarrow> (\<forall>lvl. lvl + 1 < depth (circ c) \<longrightarrow> level_ok c lvl)"

definition provers_at :: "CMTProtocolConfig \<Rightarrow> CMTCircuit \<Rightarrow> nat \<Rightarrow> mpz_vec \<Rightarrow> mpz_vec \<Rightarrow> CircuitProver list \<Rightarrow> bool" where
  "provers_at conf c lvl z r nets \<longleftrightarrow> length nets = numProvers conf \<and> length r = vbatchSize conf \<and>
     (\<forall>pid < numProvers conf. cp_at conf c lvl z r pid (nets ! pid))"

lemma level_values_cong:
  "(\<And>pid. pid < numProvers conf \<Longrightarrow> batch (nets' ! pid) = batch (nets ! pid)) \<Longrightarrow>
     level_values conf lvl nets' = level_values conf lvl nets"
  unfolding level_values_def by (intro arg_cong [where f = concat] map_cong refl) simp

lemma levels_accept:
  fixes c conf
  defines "p \<equiv> cprime (circ c)"
  assumes inv: "gmp_invert mpz_invert" and p: "prime_modulus p"
    and cs: "config_split conf" and B: "0 < vbatchSize conf" and ne: "\<And>pid. pid < numProvers conf \<Longrightarrow> 0 < psize conf pid"
    and L: "levels_ok c" and z: "\<forall>lvl < depth (circ c). logSize (level c lvl) \<le> length z0"
    and z1: "z0 ! (logSize (level c 0) - 1) mod p \<noteq> 1"
    and coins: "\<forall>lvl. lvl + 1 < depth (circ c) \<longrightarrow> level_coins_ok coins c lvl"
    and at: "provers_at conf c 0 z0 r0 nets0" and n: "n < depth (circ c)"
  shows "\<exists>z r nets. fold (run_level mpz_invert (cp_handle mpz_invert cls build) coins conf c) [0..<n] (Some (True, z0, r0, nets0)) =
      Some (True, z, r, nets) \<and> length z = length z0 \<and> provers_at conf c n z r nets \<and>
      z ! (logSize (level c n) - 1) mod p \<noteq> 1 \<and> (\<forall>pid < numProvers conf. batch (nets ! pid) = batch (nets0 ! pid))"
  using n
proof (induction n)
  case 0
  then show ?case using at z1 by simp
next
  case (Suc n)
  then obtain z r nets where IH: "fold (run_level mpz_invert (cp_handle mpz_invert cls build) coins conf c) [0..<n]
        (Some (True, z0, r0, nets0)) = Some (True, z, r, nets)" "length z = length z0" "provers_at conf c n z r nets"
      "z ! (logSize (level c n) - 1) mod p \<noteq> 1" "\<forall>pid < numProvers conf. batch (nets ! pid) = batch (nets0 ! pid)"
    by (auto dest: Suc_lessD)
  let ?m = "logSize (level c (n + 1))"
  have lvl: "n + 1 < depth (circ c)" "level_ok c n" "level_coins_ok coins c n" using Suc.prems L coins by (auto simp: levels_ok_def)
  then have m: "0 < ?m" by (simp add: level_ok_def Let_def logSize_def log2i_pos)
  have zs: "logSize (level c n) \<le> length z" "?m \<le> length z" using z lvl(1) IH(2) by simp_all
  have "\<forall>j \<le> ?m. (lcoin coins n - int j) mod p \<noteq> 0" using lvl(3) by (simp add: level_coins_ok_def Let_def p_def)
  then obtain z' r' nets' where st: "checkLevel mpz_invert (cp_handle mpz_invert cls build) coins conf c n (z, r, nets) =
      Some (True, z', r', nets')" "length z' = length z" "length r' = length r" "length nets' = length nets"
      "\<forall>i < ?m. z' ! i = line_at (\<lambda>j. sccoins coins n (logSize (level c n) + j))
         (\<lambda>j. sccoins coins n (logSize (level c n) + ?m + j)) (lcoin coins n) i mod p"
      "\<forall>pid < numProvers conf. cp_at conf c (n + 1) z' r' pid (nets' ! pid) \<and> batch (nets' ! pid) = batch (nets ! pid)"
    using level_accepts [where cls = cls and build = build and coins = coins, OF inv p [unfolded p_def] cs B ne lvl(1,2) zs
      IH(4) [unfolded p_def]] IH(3) unfolding provers_at_def p_def by blast
  have "z' ! (?m - 1) mod p \<noteq> 1"
    using st(5) m lvl(3) by (simp add: level_coins_ok_def Let_def line_at_def p_def)
  moreover have "provers_at conf c (Suc n) z' r' nets'" using st(3,4,6) IH(3) by (simp add: provers_at_def)
  moreover have "\<forall>pid < numProvers conf. batch (nets' ! pid) = batch (nets0 ! pid)" using st(6) IH(5) by simp
  moreover have "fold (run_level mpz_invert (cp_handle mpz_invert cls build) coins conf c) [0..<Suc n] (Some (True, z0, r0, nets0)) =
      Some (True, z', r', nets')" using IH(1) st(1) by (simp add: run_level_def)
  moreover have "length z' = length z0" using st(2) IH(2) by simp
  ultimately show ?case by (metis Suc_eq_plus1)
qed


definition two_layers :: CMTCircuit where
  "two_layers = \<lparr>circ = \<lparr>layers = [\<lparr>gates = [\<lparr>gtype = ADD, in1 = 0, in2 = 1\<rparr>], add_fn = None, mul_fn = None\<rparr>,
       \<lparr>gates = [GateWiring_default, GateWiring_default], add_fn = None, mul_fn = None\<rparr>],
     qData = [[3], [1, 2]], zData = [[3], [1, 2]], valid = True, cprime = 7\<rparr>,
     currentLevel = 0, inGates = [], outGates = [], magicGates = []\<rparr>"

definition two_layers_prover :: CircuitProver where
  "two_layers_prover = \<lparr>pconf = \<lparr>startInstance = 0, endInstance = 1\<rparr>, batch = [two_layers], zi = [3, 0, 0], ri = [1], pmode = AtTop\<rparr>"

definition some_coins :: Coins where
  "some_coins = \<lparr>zcoins = \<lambda>_. 3, sccoins = \<lambda>_ _. 2, lcoin = \<lambda>_. 3\<rparr>"

lemma two_layers_levels: "lvl + 1 < depth (circ two_layers) \<Longrightarrow> lvl = 0"
  by (simp add: two_layers_def depth_def)

lemma two_layers_ok: "levels_ok two_layers"
proof -
  have "0 < layer_size (level two_layers 0)" "0 < layer_size (level two_layers (0 + 1))"
    "wires_in_range (level two_layers 0) (layer_size (level two_layers (0 + 1)))"
    "int (log2i (layer_size (level two_layers (0 + 1))) + 1) \<le> cprime (circ two_layers)" by code_simp+
  then have "level_ok two_layers 0" by (simp add: level_ok_def wire_fns_ok_def two_layers_def level_def Let_def)
  then show ?thesis using two_layers_levels unfolding levels_ok_def by metis
qed

lemma two_layers_instance: "instance_ok two_layers two_layers"
  unfolding instance_ok_def
proof (intro conjI refl)
  show "\<forall>lvl < depth (circ two_layers). length (level_zs two_layers lvl) = layer_size (level two_layers lvl)" by code_simp
  have "\<forall>g < layer_size (level two_layers 0). level_zs two_layers 0 ! g mod cprime (circ two_layers) =
      gate_op (gates (level two_layers 0) ! g) (level_zs two_layers (0 + 1) ! in1 (gates (level two_layers 0) ! g))
        (level_zs two_layers (0 + 1) ! in2 (gates (level two_layers 0) ! g)) mod cprime (circ two_layers)" by code_simp
  then show "\<forall>lvl. lvl + 1 < depth (circ two_layers) \<longrightarrow> (\<forall>g < layer_size (level two_layers lvl).
      level_zs two_layers lvl ! g mod cprime (circ two_layers) =
      gate_op (gates (level two_layers lvl) ! g) (level_zs two_layers (lvl + 1) ! in1 (gates (level two_layers lvl) ! g))
        (level_zs two_layers (lvl + 1) ! in2 (gates (level two_layers lvl) ! g)) mod cprime (circ two_layers))"
    using two_layers_levels by metis
qed

lemma two_layers_provers: "provers_at (new_CMTProtocolConfig 1 1) two_layers 0 [3, 0, 0] [1] [two_layers_prover]"
proof -
  have "psize (new_CMTProtocolConfig 1 1) 0 = 1" "pstart (new_CMTProtocolConfig 1 1) 0 = 0" "share (new_CMTProtocolConfig 1 1) [1 :: int] 0 = [1]"
    "mle_at (level_zs two_layers 0) ((!) [3, 0, 0]) (logSize (level two_layers 0)) mod cprime (circ two_layers) = 1" by code_simp+
  then show ?thesis using two_layers_instance
    by (simp add: provers_at_def cp_at_def two_layers_prover_def cp_batchSize_def pbatchSize_def)
qed


end
