(* ===== verification/Hamdist_Levels.thy ===== *)
theory Hamdist_Levels
  imports Hamdist_Wiring Circuit_Protocol
begin

text \<open>
  Every level of the Hamming-distance circuit meets what the protocol needs of a level, so provers that run
  the code on this circuit are accepted.
\<close>

definition linked :: "mpz \<Rightarrow> CircuitLayer \<Rightarrow> CircuitLayer \<Rightarrow> bool" where
  "linked p l l1 \<longleftrightarrow> 0 < layer_size l \<and> 0 < layer_size l1 \<and> wires_in_range l (layer_size l1) \<and>
     wire_fns_ok l (layer_size l1) p \<and> int (logSize l1 + 1) \<le> p"

lemma nat_all_split: "(\<forall>i. Q i) \<longleftrightarrow> Q (0 :: nat) \<and> (\<forall>i. Q (Suc i))"
  by (metis not0_implies_Suc)

lemma successively_nth: "successively P xs \<longleftrightarrow> (\<forall>i. Suc i < length xs \<longrightarrow> P (xs ! i) (xs ! Suc i))"
proof (induction P xs rule: successively.induct)
  case (3 P x y xs)
  have "(\<forall>i. Suc i < length (x # y # xs) \<longrightarrow> P ((x # y # xs) ! i) ((x # y # xs) ! Suc i)) \<longleftrightarrow>
      P x y \<and> (\<forall>i. Suc i < length (y # xs) \<longrightarrow> P ((y # xs) ! i) ((y # xs) ! Suc i))"
    by (subst nat_all_split) simp
  then show ?case using 3 by simp
qed auto

lemma levels_ok_linked: "levels_ok c \<longleftrightarrow> successively (linked (cprime (circ c))) (layers (circ c))"
  by (auto simp: levels_ok_def level_ok_def linked_def successively_nth level_def depth_def Let_def logSize_def)

lemma ham_layer_range:
  assumes "\<And>i. i < n \<Longrightarrow> in1 (body i) < nip1 \<and> in2 (body i) < nip1" and "0 < nip1"
  shows "wires_in_range (ham_layer n body nip1 a m) nip1"
  using assms by (auto simp: wires_in_range_def ham_layer_def last_two_def list_all_iff)

lemma ham_ranges:
  "wires_in_range (ham_sum n) (2 * n + 2)" "wires_in_range (ham_square n) (n + 2)" "wires_in_range (ham_second n) (n + 2)"
  "wires_in_range (ham_flt n b) (2 * n + 2)" "wires_in_range (ham_last n) (2 * n + 2)" "wires_in_range (ham_reduce n) (2 * n + 2)"
  "wires_in_range (ham_top n) (2 * n)"
proof -
  have "i div 2 < n + 2" if "i < 2 * n" for i using that by linarith
  moreover have "i + 1 < 2 * n + 2" "i < 2 * n + 2" if "i < 2 * n" for i using that by simp_all
  ultimately show "wires_in_range (ham_second n) (n + 2)" "wires_in_range (ham_flt n b) (2 * n + 2)"
    unfolding ham_second_def ham_flt_def by (intro ham_layer_range; simp)+
  show "wires_in_range (ham_sum n) (2 * n + 2)" "wires_in_range (ham_square n) (n + 2)"
    "wires_in_range (ham_last n) (2 * n + 2)" "wires_in_range (ham_reduce n) (2 * n + 2)"
    unfolding ham_sum_def ham_square_def ham_last_def ham_reduce_def by (intro ham_layer_range; simp)+
qed (auto simp: ham_top_def wires_in_range_def list_all_iff)

lemma ham_linked:
  assumes d: "0 < d" and p: "1 < p" and pd: "int (d + 3) \<le> p"
  shows "layer_size l1 = 2 * 2 ^ d + 2 \<Longrightarrow> linked p (ham_last (2 ^ d)) l1"
    "layer_size l1 = 2 * 2 ^ d + 2 \<Longrightarrow> linked p (ham_flt (2 ^ d) b) l1"
    "layer_size l1 = 2 * 2 ^ d + 2 \<Longrightarrow> linked p (ham_sum (2 ^ d)) l1"
    "layer_size l1 = 2 * 2 ^ d + 2 \<Longrightarrow> linked p (ham_reduce (2 ^ d)) l1"
    "layer_size l1 = 2 ^ d + 2 \<Longrightarrow> linked p (ham_square (2 ^ d)) l1"
    "layer_size l1 = 2 ^ d + 2 \<Longrightarrow> linked p (ham_second (2 ^ d)) l1"
  using log2i_ham [OF d] pd ham_fns_ok [OF d p] ham_ranges [of "2 ^ d"]
  by (simp_all add: linked_def logSize_def)

lemma ham_top_linked:
  assumes "3 \<le> p"
  shows "linked p (ham_top 1) (ham_top 2)" "layer_size l1 = 4 \<Longrightarrow> linked p (ham_top 2) l1"
proof -
  have l: "log2i 4 = 2" "log2i 2 = 1" using log2i_eq [of 1 4] log2i_eq [of 0 2] by simp_all
  then show "linked p (ham_top 1) (ham_top 2)" "layer_size l1 = 4 \<Longrightarrow> linked p (ham_top 2) l1"
    using assms ham_top_ok ham_ranges(7) [of 1] ham_ranges(7) [of 2] by (simp_all add: linked_def logSize_def)
qed

lemma successively_chain:
  assumes "\<forall>x \<in> set xs. f x = k \<and> (\<forall>y. f y = k \<longrightarrow> P x y)" and "f z = k" and "successively P (z # zs)"
  shows "successively P (xs @ z # zs)" "f (hd (xs @ z # zs)) = k"
  using assms by (induction xs) (auto simp: successively_Cons)

lemma ham_lower_linked:
  assumes d: "0 < d" and p: "1 < p" "int (d + 3) \<le> p"
  shows "successively (linked p) (ham_lower (2 ^ d) psub1)"
proof -
  let ?n = "2 ^ d" and ?zs = "[ham_square (2 ^ d), ham_sum (2 ^ d), ham_in (2 ^ d)]"
  let ?xs = "map (\<lambda>i. ham_flt ?n (bit_at (nat psub1) i)) (rev [2..<getFLTDepth psub1 - 1])"
  note L = ham_linked [OF d p]
  have "successively (linked p) (ham_second ?n # ?zs)" by (simp add: L)
  with L successively_chain [of ?xs layer_size "2 * ?n + 2" "linked p" "ham_second ?n" ?zs]
  have "successively (linked p) (?xs @ ham_second ?n # ?zs)" "layer_size (hd (?xs @ ham_second ?n # ?zs)) = 2 * ?n + 2" by auto
  then show ?thesis unfolding ham_lower_def using L(1) by (simp add: successively_Cons)
qed

lemma ham_upper_linked:
  assumes j: "0 < j" "j \<le> d" and p: "1 < p" "int (d + 3) \<le> p"
  shows "successively (linked p) (map (\<lambda>i. ham_reduce (2 ^ i)) [j..<d] @ ham_lower (2 ^ d) psub1) \<and>
    layer_size (hd (map (\<lambda>i. ham_reduce (2 ^ i)) [j..<d] @ ham_lower (2 ^ d) psub1)) = 2 ^ j + 2"
  using j
proof (induction "d - j" arbitrary: j)
  case 0
  then show ?case using ham_lower_linked [OF _ p] by (simp add: ham_lower_def)
next
  case (Suc k)
  let ?rest = "map (\<lambda>i. ham_reduce (2 ^ i)) [Suc j..<d] @ ham_lower (2 ^ d) psub1"
  have IH: "successively (linked p) ?rest" "layer_size (hd ?rest) = 2 ^ Suc j + 2" using Suc.hyps(1) [of "Suc j"] Suc.hyps(2) Suc.prems by simp_all
  have "linked p (ham_reduce (2 ^ j)) (hd ?rest)" using ham_linked(4) [of j p "hd ?rest"] IH(2) Suc p by simp
  then show ?case using IH Suc.hyps(2) by (simp add: upt_conv_Cons [of j d] successively_Cons)
qed

lemma ham_levels_linked:
  assumes d: "0 < d" and p: "int (d + 3) \<le> p"
  shows "successively (linked p) (ham_layers d psub1)"
proof -
  have "1 < p" "3 \<le> p" using p by simp_all
  then show ?thesis unfolding ham_layers_def
    using ham_upper_linked [of 1 d p psub1] d p ham_top_linked by (simp add: successively_Cons)
qed

text \<open>C4: The Hamming-distance circuit is built without a failing assertion, and on every one of its levels the wires stay inside
  the layer below and the closed-form wiring predicates are the multilinear extensions of the wiring.\<close>

theorem hamdist_wiring_correct:
  assumes d: "0 < d" and flt: "3 \<le> getFLTDepth (p - 1)" and p: "int (d + 3) \<le> p"
  shows "\<exists>c. hamdist_buildCircuit d p = Some c \<and> levels_ok c"
proof -
  let ?c = "(new_CMTCircuit p)\<lparr>circ := (circ (new_CMTCircuit p))\<lparr>valid := False\<rparr>\<rparr>"
  obtain c' where c': "hamdist_constructCircuit d (p - 1) ?c = Some c'" "layers (circ c') = ham_layers d (p - 1)" "cprime (circ c') = p"
    using hamdist_built [OF d flt, of ?c] by (auto simp: new_CMTCircuit_def)
  have "layers (circ (finish c')) = layers (circ c')" "cprime (circ (finish c')) = p"
    using c'(3) by (simp_all add: finish_def finalizeConstruct_def Let_def)
  then have "levels_ok (finish c')" using c'(2) ham_levels_linked [OF d p] by (simp add: levels_ok_linked)
  then show ?thesis using c'(1) by (simp add: hamdist_buildCircuit_def Let_def)
qed

theorem hamdist_wiring_correct_witness: "\<exists>c. hamdist_buildCircuit 2 11 = Some c \<and> levels_ok c"
proof -
  have "3 \<le> getFLTDepth (11 - 1)" by code_simp
  from hamdist_wiring_correct [of 2, OF _ this] show ?thesis by simp
qed

end
