(* ===== verification/Circuit_Evaluate.thy ===== *)
theory Circuit_Evaluate
  imports Sumcheck_Honest
begin

text \<open>
  Evaluation of a circuit. Every gate keeps a rational and a residue; \<open>image\<close> says that the residue is the
  image of the rational in the field. \<^verbatim>\<open>setValue\<close> establishes it, \<^verbatim>\<open>computeGateValue\<close> keeps it, and after
  \<^verbatim>\<open>evaluate\<close> every gate holds, modulo the prime, the value of its operation.
\<close>

section \<open>Images of rationals\<close>

definition image :: "mpz \<Rightarrow> rat \<times> mpz \<Rightarrow> bool" where
  "image p v = (let (num, den) = quotient_of (fst v) in den mod p \<noteq> 0 \<and> snd v * den mod p = num mod p)"

lemma quotient_of_cross:
  assumes "quotient_of (Fract a b) = (n, d)" and "b \<noteq> 0"
  shows "n * b = a * d" "d \<noteq> 0"
proof -
  have d: "0 < d" using assms(1) by (rule quotient_of_denom_pos)
  then show "d \<noteq> 0" by simp
  have "Fract a b = Fract n d" using assms(1) quotient_of_div Fract_of_int_quotient by metis
  then show "n * b = a * d" using assms(2) d by (simp add: eq_rat)
qed

lemma image_Fract:
  assumes p: "prime_modulus p" and b: "b mod p \<noteq> 0" and z: "z * b mod p = a mod p"
  shows "image p (Fract a b, z)"
proof -
  obtain n d where q: "quotient_of (Fract a b) = (n, d)" by force
  have "b \<noteq> 0" using b by auto
  note x = quotient_of_cross [OF q this]
  have cop: "coprime n d" using q by (rule quotient_of_coprime)
  have d: "d mod p \<noteq> 0"
  proof
    assume d0: "d mod p = 0"
    then have "n * b mod p = 0" unfolding x(1) by (simp add: mod_mult_right_eq [symmetric])
    then have "n mod p = 0" using prime_modulus_mult_0 [OF p, of n b] b by simp
    then have "p dvd n" "p dvd d" using d0 by (simp_all add: dvd_eq_mod_eq_0)
    with cop have "is_unit p" using coprime_common_divisor by blast
    then show False using p by (auto simp: prime_modulus_def)
  qed
  have "z * d * b mod p = (z * b mod p) * d mod p" by (subst mod_mult_left_eq) (simp add: mult_ac)
  also have "\<dots> = n * b mod p" unfolding z x(1) by (rule mod_mult_left_eq)
  finally have "z * d mod p = n mod p" by (rule prime_modulus_cancel [OF p b])
  with q d show ?thesis by (simp add: image_def)
qed

lemma imageE:
  assumes "image p (q, z)"
  obtains n d where "q = Fract n d" "d mod p \<noteq> 0" "z * d mod p = n mod p" "quotient_of q = (n, d)" "0 < d"
proof -
  obtain n d where q: "quotient_of q = (n, d)" by force
  have "q = Fract n d" using quotient_of_div [OF q] Fract_of_int_quotient by metis
  with q assms quotient_of_denom_pos [OF q] show thesis by (intro that) (auto simp: image_def)
qed

lemma image_cong: "image p (q, z) \<Longrightarrow> z mod p = z' mod p \<Longrightarrow> image p (q, z')"
  by (auto simp: image_def split_beta) (metis mod_mult_left_eq)+

lemma image_zero: "prime_modulus p \<Longrightarrow> image p (0, z) \<longleftrightarrow> z mod p = 0"
  by (auto simp: image_def prime_modulus_def)

lemma image_add:
  assumes p: "prime_modulus p" and "image p (q0, z0)" "image p (q1, z1)"
  shows "image p (q0 + q1, z0 + z1)"
proof -
  obtain n0 d0 where a: "q0 = Fract n0 d0" "d0 mod p \<noteq> 0" "z0 * d0 mod p = n0 mod p" "0 < d0" using assms(2) by (elim imageE)
  obtain n1 d1 where b: "q1 = Fract n1 d1" "d1 mod p \<noteq> 0" "z1 * d1 mod p = n1 mod p" "0 < d1" using assms(3) by (elim imageE)
  have "(z0 * d0 * d1 + z1 * d1 * d0) mod p = (n0 * d1 + n1 * d0) mod p"
    by (intro mod_add_cong mod_mult_cong a b refl)
  then have "image p (Fract (n0 * d1 + n1 * d0) (d0 * d1), z0 + z1)"
    by (intro image_Fract [OF p prime_modulus_mult_nonzero [OF p a(2) b(2)]]) (simp add: algebra_simps)
  then show ?thesis using a b by simp
qed

lemma image_mult:
  assumes p: "prime_modulus p" and "image p (q0, z0)" "image p (q1, z1)"
  shows "image p (q0 * q1, z0 * z1)"
proof -
  obtain n0 d0 where a: "q0 = Fract n0 d0" "d0 mod p \<noteq> 0" "z0 * d0 mod p = n0 mod p" using assms(2) by (elim imageE)
  obtain n1 d1 where b: "q1 = Fract n1 d1" "d1 mod p \<noteq> 0" "z1 * d1 mod p = n1 mod p" using assms(3) by (elim imageE)
  have "z0 * d0 * (z1 * d1) mod p = n0 * n1 mod p" by (intro mod_mult_cong a b)
  then have "image p (Fract (n0 * n1) (d0 * d1), z0 * z1)"
    by (intro image_Fract [OF p prime_modulus_mult_nonzero [OF p a(2) b(2)]]) (simp add: mult_ac)
  then show ?thesis using a b by simp
qed

lemma image_div:
  assumes p: "prime_modulus p" and "image p (q0, z0)" and t: "t * z1 mod p = 1"
  shows "image p (q0 / of_int t, z0 * z1)"
proof -
  obtain n0 d0 where a: "q0 = Fract n0 d0" "d0 mod p \<noteq> 0" "z0 * d0 mod p = n0 mod p" using assms(2) by (elim imageE)
  have t0: "t mod p \<noteq> 0" using t by (metis mod_mult_left_eq mult_zero_left mod_0 zero_neq_one)
  have "z0 * d0 * (t * z1) mod p = (n0 * 1) mod p" by (rule mod_mult_cong [OF a(3)]) (use t p in \<open>auto simp: prime_modulus_def\<close>)
  then have "image p (Fract n0 (d0 * t), z0 * z1)"
    by (intro image_Fract [OF p prime_modulus_mult_nonzero [OF p a(2) t0]]) (simp add: mult_ac)
  then show ?thesis using a by (simp add: of_int_rat)
qed

section \<open>Reduction and assignment\<close>

lemma modIfNeeded_q_image:
  assumes p: "prime_modulus p" and I: "image p (q, z)"
  shows "\<exists>q' ch. modIfNeeded_q q p s = Some (q', ch) \<and> image p (q', z)"
proof -
  obtain n d where q: "d mod p \<noteq> 0" "z * d mod p = n mod p" "quotient_of q = (n, d)" using I by (elim imageE)
  obtain n' c1 where n: "modIfNeeded n p s = (n', c1)" by force
  obtain d' c2 where d: "modIfNeeded d p s = (d', c2)" by force
  have m: "n' mod p = n mod p" "d' mod p = d mod p" using modIfNeeded_mod [of n p s] modIfNeeded_mod [of d p s] n d by simp_all
  have "z * d' mod p = n' mod p" using q(2) m by (metis mod_mult_right_eq)
  then have "image p (Fract n' d', z)" using image_Fract [OF p] m q(1) by simp
  moreover have "d' \<noteq> 0" using m q(1) by auto
  ultimately show ?thesis using I q(3) n d by (auto simp: modIfNeeded_q_def Let_def)
qed

lemma canonicalize_image:
  assumes p: "prime_modulus p" and I: "image p (q, z)"
  shows "\<exists>q' z'. canonicalize p (q, z) = Some (q', z') \<and> image p (q', z') \<and> z' mod p = z mod p"
proof -
  obtain q' ch where q: "modIfNeeded_q q p 2 = Some (q', ch)" "image p (q', z)" using modIfNeeded_q_image [OF assms] by blast
  then show ?thesis using image_cong [OF q(2), of "fst (modIfNeeded z p 2)"] by (simp add: canonicalize_def)
qed

context gmp_invert
begin

lemma convert_to_z_image:
  assumes p: "prime_modulus p" and d: "snd (quotient_of q) mod p \<noteq> 0"
  shows "image p (q, convert_to_z mpz_invert q p)"
proof -
  obtain n d where q: "quotient_of q = (n, d)" by force
  have "mpz_invert d p * n mod p * d mod p = n * (d * mpz_invert d p) mod p" by (subst mod_mult_left_eq) (simp add: mult_ac)
  also have "\<dots> = n * (d * mpz_invert d p mod p) mod p" by (simp add: mod_mult_right_eq)
  also have "\<dots> = n mod p" using mpz_invert_prime [OF p] assms(2) q by simp
  finally show ?thesis using assms(2) q by (simp add: image_def convert_to_z_def)
qed

lemma setValue_q_image:
  assumes p: "prime_modulus p" and d: "snd (quotient_of q) mod p \<noteq> 0"
  shows "\<exists>v. setValue_q mpz_invert p q = Some v \<and> image p v"
  using canonicalize_image [OF p convert_to_z_image [OF p d]] by (auto simp: setValue_q_def)

lemma computeGateValue_image:
  assumes p: "prime_modulus p" and "image p v0" "image p v1" and div: "gtype w = DIV_INT \<Longrightarrow> snd v1 mod p \<noteq> 0"
  shows "\<exists>v. computeGateValue mpz_invert p w v0 v1 = Some v \<and> image p v \<and> snd v mod p = gate_op w (snd v0) (snd v1) mod p"
proof -
  obtain q0 z0 q1 z1 where v: "v0 = (q0, z0)" "v1 = (q1, z1)" by (metis surj_pair)
  note I = assms(2,3) [unfolded v]
  let ?z = "applyGateOperation w z0 z1 p"
  have z: "?z mod p = gate_op w z0 z1 mod p"
    by (rule applyGateOperation_mod)
  have fin: "\<exists>v. map_option (\<lambda>(q, _). (q, ?z)) (setValue_q mpz_invert p out) = Some v \<and> image p v \<and> snd v mod p = gate_op w z0 z1 mod p"
    if out: "image p (out, gate_op w z0 z1)" for out
  proof -
    have "snd (quotient_of out) mod p \<noteq> 0" using out by (auto simp: image_def split_beta)
    then obtain q' z' where q: "setValue_q mpz_invert p out = Some (q', z')" "image p (q', gate_op w z0 z1)"
      using canonicalize_image [OF p convert_to_z_image [OF p], of out] modIfNeeded_q_image [OF p out, of 2]
      unfolding setValue_q_def canonicalize_def by auto
    then show ?thesis using image_cong [OF q(2), of ?z] z by simp
  qed
  show ?thesis
  proof (cases "gtype w")
    case ADD
    have "image p (if q0 = 0 then q1 else if q1 = 0 then q0 else q0 + q1, gate_op w z0 z1)"
      using image_add [OF p I] ADD by (auto simp: gate_op_def split: if_splits)
    from fin [OF this] ADD v show ?thesis by (simp add: computeGateValue_def Let_def)
  next
    case MUL
    show ?thesis
    proof (cases "q0 = 0 \<or> q1 = 0")
      case True
      then have "z0 mod p = 0 \<or> z1 mod p = 0" using I image_zero [OF p] by auto
      then have "z0 * z1 mod p = 0" by auto
      then show ?thesis using True MUL v image_zero [OF p, of 0] by (auto simp: computeGateValue_def Let_def gate_op_def)
    next
      case False
      have "image p (q0 * q1, gate_op w z0 z1)" using image_mult [OF p I] MUL by (simp add: gate_op_def)
      from fin [OF this] MUL v False show ?thesis by (simp add: computeGateValue_def Let_def)
    qed
  next
    case DIV_INT
    let ?t = "toTrueNumber (mpz_invert z1 p) (p div 2) p"
    have "z1 * mpz_invert z1 p mod p = 1" using mpz_invert_prime [OF p] div DIV_INT v by simp
    moreover have "?t mod p = mpz_invert z1 p mod p" by (simp add: toTrueNumber_def)
    ultimately have t: "?t * z1 mod p = 1" by (metis mod_mult_left_eq mult.commute)
    then have "?t \<noteq> 0" by auto
    moreover have "image p (q0 / of_int ?t, gate_op w z0 z1)" using image_div [OF p I(1) t] DIV_INT by (simp add: gate_op_def)
    from fin [OF this] have "\<exists>v. map_option (\<lambda>(q, _). (q, ?z)) (setValue_q mpz_invert p (q0 / of_int ?t)) = Some v \<and> image p v \<and>
        snd v mod p = gate_op w z0 z1 mod p" .
    ultimately show ?thesis using DIV_INT v by (simp add: computeGateValue_def Let_def)
  qed
qed

end

section \<open>Layers\<close>

definition data_shape :: "Circuit \<Rightarrow> bool" where
  "data_shape c \<longleftrightarrow> length (qData c) = depth c \<and> length (zData c) = depth c \<and>
     (\<forall>l < depth c. length (qData c ! l) = layer_size (layers c ! l) \<and> length (zData c ! l) = layer_size (layers c ! l))"

definition layer_image :: "Circuit \<Rightarrow> nat \<Rightarrow> bool" where
  "layer_image c l \<longleftrightarrow> (\<forall>g < layer_size (layers c ! l). image (cprime c) (qData c ! l ! g, zData c ! l ! g))"

definition gate_holds :: "Circuit \<Rightarrow> nat \<Rightarrow> nat \<Rightarrow> bool" where
  "gate_holds c l g \<longleftrightarrow>
     (let w = gates (layers c ! l) ! g
      in zData c ! l ! g mod cprime c = gate_op w (zData c ! Suc l ! in1 w) (zData c ! Suc l ! in2 w) mod cprime c)"

definition no_div :: "CircuitLayer \<Rightarrow> bool" where
  "no_div l \<longleftrightarrow> list_all (\<lambda>w. gtype w \<noteq> DIV_INT) (gates l)"

text \<open>The data of other layers is left alone.\<close>

definition same_below :: "nat \<Rightarrow> Circuit \<Rightarrow> Circuit \<Rightarrow> bool" where
  "same_below l c c' \<longleftrightarrow> layers c' = layers c \<and> cprime c' = cprime c \<and> valid c' = valid c \<and> data_shape c' \<and>
     (\<forall>k > l. qData c' ! k = qData c ! k \<and> zData c' ! k = zData c ! k)"

lemma same_below_trans: "same_below l c c' \<Longrightarrow> same_below l' c' c'' \<Longrightarrow> l' \<le> l \<Longrightarrow> same_below l c c''"
  by (auto simp: same_below_def)

lemma data_shape_set: "data_shape c \<Longrightarrow> data_shape (set_gate c l g v)"
  by (cases "l < depth c") (auto simp: data_shape_def set_gate_def depth_def nth_list_update)

lemma same_below_set: "data_shape c \<Longrightarrow> same_below l c (set_gate c l g v)"
  using data_shape_set [of c l g v] by (auto simp: same_below_def set_gate_def nth_list_update)

context gmp_invert
begin

lemma eval_layer_image:
  assumes p: "prime_modulus (cprime c)" and sh: "data_shape c" and l: "Suc l < depth c"
    and rg: "wires_in_range (layers c ! l) (layer_size (layers c ! Suc l))" and nd: "no_div (layers c ! l)"
    and im: "layer_image c (Suc l)"
  shows "\<exists>c'. eval_layer mpz_invert l c = Some c' \<and> same_below l c c' \<and> layer_image c' l \<and>
    (\<forall>g < layer_size (layers c ! l). gate_holds c' l g)"
proof -
  let ?n = "layer_size (layers c ! l)"
  define P where "P = (\<lambda>n r. \<exists>c'. r = Some c' \<and> same_below l c c' \<and>
    (\<forall>g < n. image (cprime c) (qData c' ! l ! g, zData c' ! l ! g) \<and> gate_holds c' l g))"
  have "P ?n (fold (\<lambda>j r. Option.bind r (eval_gate mpz_invert l j)) [0..<?n] (Some c))"
  proof (rule fold_range_inv)
    show "P 0 (Some c)" using sh by (simp add: P_def same_below_def)
  next
    fix n r assume n: "n < ?n" and "P n r"
    then obtain c' where c': "r = Some c'" "same_below l c c'"
      "\<And>g. g < n \<Longrightarrow> image (cprime c) (qData c' ! l ! g, zData c' ! l ! g) \<and> gate_holds c' l g" by (auto simp: P_def)
    have S: "layers c' = layers c" "cprime c' = cprime c" "qData c' ! Suc l = qData c ! Suc l" "zData c' ! Suc l = zData c ! Suc l" "data_shape c'"
      using c'(2) by (simp_all add: same_below_def)
    let ?w = "gates (layers c ! l) ! n"
    have w: "in1 ?w < layer_size (layers c ! Suc l)" "in2 ?w < layer_size (layers c ! Suc l)" "gtype ?w \<noteq> DIV_INT"
      using rg nd n by (auto simp: wires_in_range_def no_div_def list_all_length layer_size_def)
    let ?a = "(qData c ! Suc l ! in1 ?w, zData c ! Suc l ! in1 ?w)" and ?b = "(qData c ! Suc l ! in2 ?w, zData c ! Suc l ! in2 ?w)"
    have "image (cprime c) ?a" "image (cprime c) ?b" using im w by (simp_all add: layer_image_def)
    then obtain v where v: "computeGateValue mpz_invert (cprime c) ?w ?a ?b = Some v" "image (cprime c) v"
      "snd v mod cprime c = gate_op ?w (snd ?a) (snd ?b) mod cprime c"
      using computeGateValue_image [OF p] w(3) by blast
    have ev: "eval_gate mpz_invert l n c' = Some (set_gate c' l n v)"
      using v(1) w l S by (simp add: eval_gate_def gate_value_def depth_def Let_def)
    have len: "n < length (qData c' ! l)" "n < length (zData c' ! l)" "l < length (qData c')" "l < length (zData c')"
      using S n l by (auto simp: data_shape_def depth_def)
    have "image (cprime c) (qData (set_gate c' l n v) ! l ! g, zData (set_gate c' l n v) ! l ! g) \<and> gate_holds (set_gate c' l n v) l g"
      if "g < Suc n" for g
      using that c'(3) [of g] v len S by (auto simp: set_gate_def gate_holds_def nth_list_update Let_def less_Suc_eq)
    moreover have "same_below l c (set_gate c' l n v)"
      by (rule same_below_trans [OF c'(2) same_below_set [OF S(5)]]) simp
    ultimately show "P (Suc n) (Option.bind r (eval_gate mpz_invert l n))" using ev c'(1) by (simp add: P_def)
  qed simp
  then show ?thesis by (auto simp: P_def eval_layer_def layer_image_def same_below_def)
qed

lemma evaluate_image:
  assumes p: "prime_modulus (cprime c)" and sh: "data_shape c" and im: "layer_image c (depth c - 1)"
    and wires: "\<forall>l. Suc l < depth c \<longrightarrow> wires_in_range (layers c ! l) (layer_size (layers c ! Suc l)) \<and> no_div (layers c ! l)"
    and d: "0 < depth c"
  shows "\<exists>c'. evaluate mpz_invert c = Some c' \<and> layers c' = layers c \<and> cprime c' = cprime c \<and> data_shape c' \<and>
    zData c' ! (depth c - 1) = zData c ! (depth c - 1) \<and>
    (\<forall>l < depth c. layer_image c' l) \<and> (\<forall>l g. Suc l < depth c \<longrightarrow> g < layer_size (layers c ! l) \<longrightarrow> gate_holds c' l g)"
proof -
  let ?D = "depth c - 1"
  have "\<exists>c'. fold (\<lambda>lvl r. Option.bind r (eval_layer mpz_invert lvl)) (rev [?D - k..<?D]) (Some c) = Some c' \<and>
      layers c' = layers c \<and> cprime c' = cprime c \<and> data_shape c' \<and> zData c' ! ?D = zData c ! ?D \<and>
      (\<forall>l. ?D - k \<le> l \<longrightarrow> l < depth c \<longrightarrow> layer_image c' l) \<and>
      (\<forall>l g. ?D - k \<le> l \<longrightarrow> Suc l < depth c \<longrightarrow> g < layer_size (layers c ! l) \<longrightarrow> gate_holds c' l g)" if "k \<le> ?D" for k
    using that
  proof (induction k)
    case 0
    have "l = ?D" if "?D \<le> l" "l < depth c" for l using that by simp
    then show ?case using sh im by (auto simp: not_less)
  next
    case (Suc k)
    then obtain c1 where c1: "fold (\<lambda>lvl r. Option.bind r (eval_layer mpz_invert lvl)) (rev [?D - k..<?D]) (Some c) = Some c1"
      "layers c1 = layers c" "cprime c1 = cprime c" "data_shape c1" "zData c1 ! ?D = zData c ! ?D"
      "\<And>l. ?D - k \<le> l \<Longrightarrow> l < depth c \<Longrightarrow> layer_image c1 l"
      "\<And>l g. ?D - k \<le> l \<Longrightarrow> Suc l < depth c \<Longrightarrow> g < layer_size (layers c ! l) \<Longrightarrow> gate_holds c1 l g" by auto
    let ?l = "?D - Suc k"
    have l: "Suc ?l = ?D - k" "Suc ?l < depth c" "depth c1 = depth c" using Suc.prems d c1(2) by (auto simp: depth_def)
    obtain c2 where c2: "eval_layer mpz_invert ?l c1 = Some c2" "same_below ?l c1 c2" "layer_image c2 ?l"
      "\<forall>g < layer_size (layers c1 ! ?l). gate_holds c2 ?l g"
      using eval_layer_image [of c1 ?l] c1 p l wires by auto
    have same: "zData c2 ! m = zData c1 ! m" "qData c2 ! m = qData c1 ! m" "layers c2 = layers c" "cprime c2 = cprime c" "data_shape c2"
      if "?l < m" for m using c2(2) c1(2,3) that by (simp_all add: same_below_def)
    have im2: "layer_image c2 m" if "?l \<le> m" "m < depth c" for m
    proof (cases "m = ?l")
      case False
      then have "?l < m" "?D - k \<le> m" using that l(1) by linarith+
      then show ?thesis using c1(6) [of m] that same [of m] c1(2,3) by (simp add: layer_image_def)
    qed (use c2 in simp)
    have h2: "gate_holds c2 m g" if "?l \<le> m" "Suc m < depth c" "g < layer_size (layers c ! m)" for m g
    proof (cases "m = ?l")
      case False
      then have "?l < m" "?l < Suc m" "?D - k \<le> m" using that l(1) by linarith+
      then show ?thesis using c1(7) [of m g] that same [of m] same [of "Suc m"] c1(2,3) by (simp add: gate_holds_def)
    qed (use c2 c1 that in simp)
    have "rev [?l..<?D] = rev [?D - k..<?D] @ [?l]" using l(1) Suc.prems by (simp add: upt_conv_Cons)
    then show ?case using c1(1,5) c2(1) im2 h2 same [of ?D] l Suc.prems by auto
  qed
  from this [of ?D] obtain c' where c': "fold (\<lambda>lvl r. Option.bind r (eval_layer mpz_invert lvl)) (rev [0..<?D]) (Some c) = Some c'"
      "layers c' = layers c" "cprime c' = cprime c" "data_shape c'" "zData c' ! ?D = zData c ! ?D"
      "\<forall>l < depth c. layer_image c' l" "\<forall>l g. Suc l < depth c \<longrightarrow> g < layer_size (layers c ! l) \<longrightarrow> gate_holds c' l g" by auto
  moreover have "evaluate mpz_invert c = Some c'" using c'(1) d by (cases "depth c < 2") (auto simp: evaluate_def less_2_cases_iff)
  ultimately show ?thesis by auto
qed

end

section \<open>Evaluation of a circuit\<close>

text \<open>C6: \<^verbatim>\<open>Circuit::evaluate\<close>. On a circuit of sums and products whose inputs are rationals with their images in the field,
  evaluation ends without an abort, leaves the inputs alone, keeps on every layer that each residue is the image of the rational
  beside it, and gives every gate, modulo the prime, the value of its operation on the layer below.\<close>

theorem evaluate_correct:
  assumes "gmp_invert mpz_invert" and "prime_modulus (cprime c)" and "data_shape c" and "layer_image c (depth c - 1)"
    and "\<forall>l. Suc l < depth c \<longrightarrow> wires_in_range (layers c ! l) (layer_size (layers c ! Suc l)) \<and> no_div (layers c ! l)"
    and "0 < depth c"
  shows "\<exists>c'. evaluate mpz_invert c = Some c' \<and> layers c' = layers c \<and> cprime c' = cprime c \<and> data_shape c' \<and>
    zData c' ! (depth c - 1) = zData c ! (depth c - 1) \<and>
    (\<forall>l < depth c. layer_image c' l) \<and> (\<forall>l g. Suc l < depth c \<longrightarrow> g < layer_size (layers c ! l) \<longrightarrow> gate_holds c' l g)"
  by (rule gmp_invert.evaluate_image [OF assms(1-4) assms(5,6)])

definition half_circuit :: Circuit where
  "half_circuit =
     \<lparr>layers = [\<lparr>gates = [\<lparr>gtype = ADD, in1 = 0, in2 = 1\<rparr>, \<lparr>gtype = MUL, in1 = 0, in2 = 1\<rparr>], add_fn = None, mul_fn = None\<rparr>,
                \<lparr>gates = [GateWiring_default, GateWiring_default], add_fn = None, mul_fn = None\<rparr>],
      qData = [[0, 0], [1 / 2, 3]], zData = [[0, 0], [4, 3]], valid = True, cprime = 7\<rparr>"

lemma half_circuit_ready:
  "data_shape half_circuit" "layer_image half_circuit 1" "depth half_circuit = 2" "cprime half_circuit = 7"
  "wires_in_range (layers half_circuit ! 0) (layer_size (layers half_circuit ! 1))" "no_div (layers half_circuit ! 0)"
  by code_simp+

theorem evaluate_correct_witness:
  "\<exists>c'. evaluate mod_inverse half_circuit = Some c' \<and> zData c' ! 0 ! 0 mod 7 = 0 \<and> zData c' ! 0 ! 1 mod 7 = 5"
proof -
  have "\<exists>c'. evaluate mod_inverse half_circuit = Some c' \<and> layers c' = layers half_circuit \<and> cprime c' = 7 \<and> data_shape c' \<and>
      zData c' ! 1 = zData half_circuit ! 1 \<and> (\<forall>l < 2. layer_image c' l) \<and>
      (\<forall>l g. Suc l < 2 \<longrightarrow> g < layer_size (layers half_circuit ! l) \<longrightarrow> gate_holds c' l g)"
    using evaluate_correct [OF euclid.gmp_invert_axioms, of half_circuit] half_circuit_ready prime_modulus_7 by simp
  then obtain c' where c': "evaluate mod_inverse half_circuit = Some c'" "layers c' = layers half_circuit" "cprime c' = 7"
    "zData c' ! 1 = zData half_circuit ! 1" "gate_holds c' 0 0" "gate_holds c' 0 1"
    by (auto simp: half_circuit_def layer_size_def)
  then show ?thesis by (simp add: gate_holds_def half_circuit_def gate_op_def Let_def)
qed

end
