(* ===== verification/Hamdist_Value.thy ===== *)
theory Hamdist_Value
  imports Hamdist_Levels Circuit_Evaluate
begin

text \<open>
  What the Hamming-distance circuit computes. Its Fermat layers raise every sum of two inputs to a fixed
  power, the layers above add the powers up, and the top gate adds the claimed result. The power is the one of
  Fermat's little theorem only if the prime is 3 modulo 4.
\<close>

section \<open>The exponent\<close>

definition flt_exponent :: "mpz \<Rightarrow> nat" where
  "flt_exponent psub1 =
     (let L = getFLTDepth psub1 in 2 + (\<Sum>j = 2..<L - 1. if bit_at (nat psub1) j then 2 ^ j else 0) + 2 ^ (L - 1))"

lemma sum_of_bits:
  assumes "a \<le> b" shows "(\<Sum>j = a..<b. if bit_at v j then 2 ^ j else 0) + v mod 2 ^ a = v mod 2 ^ b"
  using assms
proof (induction b)
  case (Suc b)
  have "v mod 2 ^ Suc b = 2 ^ b * (v div 2 ^ b mod 2) + v mod 2 ^ b" using mod_mult2_eq [of v "2 ^ b" 2] by (simp add: mult.commute)
  moreover have "v div 2 ^ b mod 2 = (if bit_at v b then 1 else 0)" by (simp add: bit_at_def odd_iff_mod_2_eq_one)
  ultimately show ?case using Suc by (cases "a \<le> b") (auto simp: not_less_eq_eq le_Suc_eq)
qed simp

lemma flt_exponent_eq:
  assumes "0 < psub1" and L: "3 \<le> getFLTDepth psub1"
  shows "flt_exponent psub1 + nat psub1 mod 4 = nat psub1 + 2"
proof -
  let ?v = "nat psub1" and ?L = "getFLTDepth psub1"
  have l: "?L = floorlog 2 ?v" using assms(1) by (simp add: getFLTDepth_def mpz_sizeinbase2_def)
  have v: "0 < ?v" using assms(1) by simp
  have b: "2 ^ (?L - 1) \<le> ?v" "?v < 2 ^ ?L" using floorlog_bounds [of ?v 2] v by (simp_all add: l)
  have "(2 :: nat) ^ ?L = 2 * 2 ^ (?L - 1)" using L by (metis Suc_diff_1 gr_zeroI not_numeral_le_zero power_Suc)
  then have "?v mod 2 ^ (?L - 1) = ?v - 2 ^ (?L - 1)" using b by (simp add: le_mod_geq)
  moreover have "(\<Sum>j = 2..<?L - 1. if bit_at ?v j then 2 ^ j else 0) + ?v mod 2 ^ 2 = ?v mod 2 ^ (?L - 1)"
    using L by (intro sum_of_bits) simp
  ultimately have "(\<Sum>j = 2..<?L - 1. if bit_at ?v j then 2 ^ j else 0) + ?v mod 4 + 2 ^ (?L - 1) = ?v" using b(1) by simp
  then show ?thesis unfolding flt_exponent_def Let_def by (metis (no_types, lifting) add.assoc add.commute)
qed

section \<open>Values on a layer\<close>

text \<open>\<open>carries p n f c vs\<close>: modulo the prime the first \<open>n\<close> gates have the values \<open>f\<close>, the next one the claimed
  result and the last one 0.\<close>

definition carries :: "mpz \<Rightarrow> nat \<Rightarrow> (nat \<Rightarrow> int) \<Rightarrow> int \<Rightarrow> (nat \<Rightarrow> int) \<Rightarrow> bool" where
  "carries p n f c vs \<longleftrightarrow> (\<forall>i < n. vs i mod p = f i mod p) \<and> vs n mod p = c mod p \<and> vs (n + 1) mod p = 0"

definition computes :: "mpz \<Rightarrow> CircuitLayer \<Rightarrow> (nat \<Rightarrow> int) \<Rightarrow> (nat \<Rightarrow> int) \<Rightarrow> bool" where
  "computes p l vs vs1 \<longleftrightarrow> (\<forall>g < layer_size l. vs g mod p = gate_op (gates l ! g) (vs1 (in1 (gates l ! g))) (vs1 (in2 (gates l ! g))) mod p)"

lemma gate_op_gate [simp]: "gate_op (gate ADD a b) x y = x + y" "gate_op (gate MUL a b) x y = x * y"
  by (simp_all add: gate_op_def)

lemma add_zero_mod: "b mod p = 0 \<Longrightarrow> (a + b) mod p = a mod (p :: int)"
  by (metis add.right_neutral mod_add_right_eq)

lemma ham_layer_carries:
  assumes C: "computes p (ham_layer n body (m + 2) a f) vs vs1" and v1: "carries p m g c vs1"
    and body: "\<And>i. i < n \<Longrightarrow> gate_op (body i) (vs1 (in1 (body i))) (vs1 (in2 (body i))) mod p = h i mod p"
  shows "carries p n h c vs"
proof -
  have G: "vs i mod p = gate_op (gates (ham_layer n body (m + 2) a f) ! i) (vs1 (in1 (gates (ham_layer n body (m + 2) a f) ! i)))
      (vs1 (in2 (gates (ham_layer n body (m + 2) a f) ! i))) mod p" if "i < n + 2" for i
    using C that by (simp add: computes_def)
  have "vs1 m mod p = c mod p" "vs1 (m + 1) mod p = 0" using v1 by (simp_all add: carries_def)
  moreover from this have "2 * vs1 (m + 1) mod p = 0" by (metis mod_mult_right_eq mult_zero_right mod_0)
  ultimately have "vs n mod p = c mod p" "vs (n + 1) mod p = 0"
    using G [of n] G [of "n + 1"] add_zero_mod [of "vs1 (m + 1)" p]
    by (simp_all add: ham_layer_def last_two_def nth_append)
  moreover have "vs i mod p = h i mod p" if "i < n" for i
    using G [of i] that body by (simp add: ham_layer_def nth_append)
  ultimately show ?thesis by (simp add: carries_def)
qed

section \<open>The layers\<close>

lemma carriesD: "carries p n f c vs \<Longrightarrow> i < n \<Longrightarrow> vs i mod p = f i mod p" "carries p n f c vs \<Longrightarrow> vs (n + 1) mod p = 0"
  by (simp_all add: carries_def)

lemma sum_carries:
  assumes "computes p (ham_sum n) vs vs1" and "carries p (2 * n) x c vs1"
  shows "carries p n (\<lambda>i. x i + x (n + i)) c vs"
  by (rule ham_layer_carries [OF assms(1) [unfolded ham_sum_def] assms(2)])
    (use carriesD(1) [OF assms(2)] in \<open>auto intro!: mod_add_cong\<close>)

lemma square_carries:
  assumes "computes p (ham_square n) vs vs1" and "carries p n x c vs1"
  shows "carries p n (\<lambda>i. x i ^ 2) c vs"
  by (rule ham_layer_carries [OF assms(1) [unfolded ham_square_def] assms(2)])
    (use carriesD(1) [OF assms(2)] in \<open>auto simp: power2_eq_square intro!: mod_mult_cong\<close>)

text \<open>In the Fermat layers gate \<open>2 i\<close> holds the product so far and gate \<open>2 i + 1\<close> the running square.\<close>

definition flt_pair :: "(nat \<Rightarrow> int) \<Rightarrow> nat \<Rightarrow> nat \<Rightarrow> nat \<Rightarrow> int" where
  "flt_pair x e j i = (if odd i then x (i div 2) ^ 2 ^ j else x (i div 2) ^ e)"

lemma second_carries:
  assumes "computes p (ham_second n) vs vs1" and v1: "carries p n (\<lambda>i. x i ^ 2) c vs1"
  shows "carries p (2 * n) (flt_pair x 2 2) c vs"
proof (rule ham_layer_carries [OF assms(1) [unfolded ham_second_def] v1])
  fix i assume "i < 2 * n"
  then have i: "vs1 (i div 2) mod p = x (i div 2) ^ 2 mod p" using carriesD(1) [OF v1, of "i div 2"] by simp
  have "vs1 (i div 2) * vs1 (i div 2) mod p = x (i div 2) ^ 2 * x (i div 2) ^ 2 mod p" by (intro mod_mult_cong i)
  moreover have "(vs1 (i div 2) + vs1 (n + 1)) mod p = x (i div 2) ^ 2 mod p" using add_zero_mod carriesD(2) [OF v1] i by metis
  ultimately show "gate_op (if odd i then gate MUL (i div 2) (i div 2) else gate ADD (i div 2) (n + 1))
      (vs1 (in1 (if odd i then gate MUL (i div 2) (i div 2) else gate ADD (i div 2) (n + 1))))
      (vs1 (in2 (if odd i then gate MUL (i div 2) (i div 2) else gate ADD (i div 2) (n + 1)))) mod p = flt_pair x 2 2 i mod p"
    by (simp add: flt_pair_def power_add [symmetric])
qed

lemma flt_carries:
  assumes "computes p (ham_flt n b) vs vs1" and v1: "carries p (2 * n) (flt_pair x e j) c vs1"
  shows "carries p (2 * n) (flt_pair x (e + (if b then 2 ^ j else 0)) (Suc j)) c vs"
proof (rule ham_layer_carries [OF assms(1) [unfolded ham_flt_def] v1])
  let ?body = "\<lambda>i. if odd i then gate MUL i i else if b then gate MUL i (i + 1) else gate ADD i (2 * n + 1)"
  fix i assume i: "i < 2 * n"
  note vi = carriesD(1) [OF v1 i]
  show "gate_op (?body i) (vs1 (in1 (?body i))) (vs1 (in2 (?body i))) mod p = flt_pair x (e + (if b then 2 ^ j else 0)) (Suc j) i mod p"
  proof (cases "odd i")
    case True
    have "vs1 i * vs1 i mod p = flt_pair x e j i * flt_pair x e j i mod p" by (intro mod_mult_cong vi)
    then show ?thesis using True by (simp add: flt_pair_def power_add [symmetric] mult_2)
  next
    case False
    then have "i + 1 < 2 * n" using i by presburger
    note vs = carriesD(1) [OF v1 this]
    have "(vs1 i + vs1 (2 * n + 1)) mod p = flt_pair x e j i mod p" using add_zero_mod carriesD(2) [OF v1] vi by metis
    moreover have "vs1 i * vs1 (i + 1) mod p = flt_pair x e j i * flt_pair x e j (i + 1) mod p" by (intro mod_mult_cong vi vs)
    ultimately show ?thesis using False by (simp add: flt_pair_def power_add)
  qed
qed

lemma last_carries:
  assumes "computes p (ham_last n) vs vs1" and v1: "carries p (2 * n) (flt_pair x e j) c vs1"
  shows "carries p n (\<lambda>i. x i ^ (e + 2 ^ j)) c vs"
proof (rule ham_layer_carries [OF assms(1) [unfolded ham_last_def] v1])
  fix i assume i: "i < n"
  have "vs1 (2 * i) * vs1 (2 * i + 1) mod p = flt_pair x e j (2 * i) * flt_pair x e j (2 * i + 1) mod p"
    using i by (intro mod_mult_cong carriesD(1) [OF v1]) simp_all
  then show "gate_op (gate MUL (2 * i) (2 * i + 1)) (vs1 (in1 (gate MUL (2 * i) (2 * i + 1)))) (vs1 (in2 (gate MUL (2 * i) (2 * i + 1)))) mod p =
      x i ^ (e + 2 ^ j) mod p" by (simp add: flt_pair_def power_add)
qed

lemma reduce_carries:
  assumes "computes p (ham_reduce n) vs vs1" and v1: "carries p (2 * n) x c vs1"
  shows "carries p n (\<lambda>i. x (2 * i) + x (2 * i + 1)) c vs"
  by (rule ham_layer_carries [OF assms(1) [unfolded ham_reduce_def] v1])
    (use carriesD(1) [OF v1] in \<open>auto intro!: mod_add_cong\<close>)

section \<open>The whole circuit\<close>

text \<open>\<open>stack p ls vss\<close>: the lists of values belong to the layers, from the top down.\<close>

definition stack :: "mpz \<Rightarrow> CircuitLayer list \<Rightarrow> (nat \<Rightarrow> nat \<Rightarrow> int) \<Rightarrow> bool" where
  "stack p ls vss \<longleftrightarrow> (\<forall>i. Suc i < length ls \<longrightarrow> computes p (ls ! i) (vss i) (vss (Suc i)))"

lemma stack_Cons: "stack p (l # l1 # ls) vss \<longleftrightarrow> computes p l (vss 0) (vss 1) \<and> stack p (l1 # ls) (\<lambda>i. vss (Suc i))"
  unfolding stack_def using nat_all_split [of "\<lambda>i. Suc i < length (l # l1 # ls) \<longrightarrow> computes p ((l # l1 # ls) ! i) (vss i) (vss (Suc i))"]
  by simp

lemma flts_carry:
  assumes "stack p (map (\<lambda>i. ham_flt n (bit_at v i)) (rev [2..<e]) @ ls) vss"
    and "ls \<noteq> []" and "carries p (2 * n) (flt_pair x 2 2) c (vss (e - 2))" and "2 \<le> e"
  shows "carries p (2 * n) (flt_pair x (2 + (\<Sum>j = 2..<e. if bit_at v j then 2 ^ j else 0)) e) c (vss 0)"
  using assms(4,1,3)
proof (induction e arbitrary: vss rule: dec_induct)
  case base
  then show ?case by simp
next
  case (step e)
  let ?fs = "\<lambda>e. map (\<lambda>i. ham_flt n (bit_at v i)) (rev [2..<e]) @ ls"
  have fs: "?fs (Suc e) = ham_flt n (bit_at v e) # ?fs e" using step.hyps by simp
  obtain l1 ls' where f: "?fs e = l1 # ls'" using assms(2) by (cases "?fs e") auto
  have st: "computes p (ham_flt n (bit_at v e)) (vss 0) (vss 1)" "stack p (?fs e) (\<lambda>i. vss (Suc i))"
    using step.prems(1) unfolding fs f stack_Cons by simp_all
  have "Suc e - 2 = Suc (e - 2)" using step.hyps by simp
  then have "carries p (2 * n) (flt_pair x 2 2) c (vss (Suc (e - 2)))" using step.prems(2) by simp
  then have "carries p (2 * n) (flt_pair x (2 + (\<Sum>j = 2..<e. if bit_at v j then 2 ^ j else 0)) e) c (vss 1)"
    using step.IH [OF st(2)] by simp
  from flt_carries [OF st(1) this] step.hyps show ?case by (simp add: add.assoc)
qed

lemma reduces_carry:
  assumes "stack p (map (\<lambda>i. ham_reduce (2 ^ i)) [k..<d] @ ls) vss" and "ls \<noteq> []" and "k \<le> d" "0 < k"
    and "carries p (2 ^ d) x c (vss (d - k))"
  shows "\<exists>y. carries p (2 ^ k) y c (vss 0) \<and> (\<Sum>i < 2 ^ k. y i) = (\<Sum>i < 2 ^ d. x i)"
  using assms
proof (induction "d - k" arbitrary: k vss)
  case 0
  then show ?case by auto
next
  case (Suc m)
  let ?rest = "map (\<lambda>i. ham_reduce (2 ^ i)) [Suc k..<d] @ ls"
  have u: "map (\<lambda>i. ham_reduce (2 ^ i)) [k..<d] @ ls = ham_reduce (2 ^ k) # ?rest" using Suc.hyps(2) by (simp add: upt_conv_Cons)
  obtain l1 ls' where f: "?rest = l1 # ls'" using Suc.prems(2) by (cases ?rest) auto
  have st: "computes p (ham_reduce (2 ^ k)) (vss 0) (vss 1)" "stack p ?rest (\<lambda>i. vss (Suc i))"
    using Suc.prems(1) unfolding u f stack_Cons by simp_all
  have dk: "d - k = Suc (d - Suc k)" "m = d - Suc k" "Suc k \<le> d" using Suc.hyps(2) by simp_all
  then have "carries p (2 ^ d) x c (vss (Suc (d - Suc k)))" using Suc.prems(5) by simp
  then obtain y where y: "carries p (2 ^ Suc k) y c (vss 1)" "(\<Sum>i < 2 ^ Suc k. y i) = (\<Sum>i < 2 ^ d. x i)"
    using Suc.hyps(1) [of "Suc k" "\<lambda>i. vss (Suc i)"] st(2) Suc.prems(2) dk(2,3) by auto
  have "carries p (2 ^ k) (\<lambda>i. y (2 * i) + y (2 * i + 1)) c (vss 0)" using reduce_carries [OF st(1)] y(1) by simp
  moreover have "(\<Sum>i < 2 ^ k. y (2 * i) + y (2 * i + 1)) = (\<Sum>i < 2 ^ d. x i)"
    using y(2) sum_lessThan_double [of y "2 ^ k"] by simp
  ultimately show ?case by blast
qed

lemma lower_carries:
  assumes L: "3 \<le> getFLTDepth psub1" and st: "stack p (ham_lower n psub1) vss"
    and v: "carries p (2 * n) x c (vss (getFLTDepth psub1 + 1))"
  shows "carries p n (\<lambda>i. (x i + x (n + i)) ^ flt_exponent psub1) c (vss 0)"
proof -
  let ?e = "getFLTDepth psub1 - 1" and ?s = "\<lambda>i. x i + x (n + i)"
  let ?fs = "map (\<lambda>i. ham_flt n (bit_at (nat psub1) i)) (rev [2..<?e])" and ?tail = "[ham_second n, ham_square n, ham_sum n, ham_in n]"
  have len: "length ?fs = ?e - 2" by simp
  have N: "computes p (ham_lower n psub1 ! i) (vss i) (vss (Suc i))" if "Suc i < length (ham_lower n psub1)" for i
    using st that by (simp add: stack_def)
  have T: "computes p (?tail ! i) (vss (?e - 1 + i)) (vss (Suc (?e - 1 + i)))" if "i < 3" for i
  proof -
    have "?e - 1 + i = Suc (length ?fs + i)" using L len by simp
    then have "ham_lower n psub1 ! (?e - 1 + i) = ?tail ! i"
      unfolding ham_lower_def by (simp only: nth_Cons_Suc nth_append_length_plus)
    then show ?thesis using N [of "?e - 1 + i"] that L by (simp add: ham_lower_def)
  qed
  have idx: "Suc (?e - 1 + 2) = getFLTDepth psub1 + 1" "?e - 1 = Suc (?e - 2)" using L by simp_all
  have c3: "carries p n ?s c (vss (?e - 1 + 2))" by (rule sum_carries [OF _ v [folded idx(1)]]) (use T [of 2] in simp)
  have c2: "carries p n (\<lambda>i. ?s i ^ 2) c (vss (?e - 1 + 1))" by (rule square_carries) (use T [of 1] c3 in simp_all)
  have c1: "carries p (2 * n) (flt_pair ?s 2 2) c (vss (Suc (?e - 2)))"
    unfolding idx(2) [symmetric] by (rule second_carries) (use T [of 0] c2 in simp_all)
  obtain l1 ls' where f: "?fs @ ?tail = l1 # ls'" by (cases "?fs @ ?tail") auto
  have st': "computes p (ham_last n) (vss 0) (vss 1)" "stack p (?fs @ ?tail) (\<lambda>i. vss (Suc i))"
    using st unfolding ham_lower_def f stack_Cons by simp_all
  have "carries p (2 * n) (flt_pair ?s (2 + (\<Sum>j = 2..<?e. if bit_at (nat psub1) j then 2 ^ j else 0)) ?e) c (vss 1)"
    using flts_carry [OF st'(2) _ c1] L by simp
  from last_carries [OF st'(1) this] show ?thesis by (simp add: flt_exponent_def Let_def)
qed

lemma computes_top: "computes p (ham_top n) vs vs1 \<Longrightarrow> g < n \<Longrightarrow> vs g mod p = (vs1 (2 * g) + vs1 (2 * g + 1)) mod p"
  by (simp add: computes_def) (simp add: ham_top_def)

lemma layers_carry:
  assumes d: "0 < d" and L: "3 \<le> getFLTDepth psub1" and st: "stack p (ham_layers d psub1) vss"
    and v: "carries p (2 * 2 ^ d) x c (vss (getFLTDepth psub1 + d + 2))"
  shows "vss 0 0 mod p = ((\<Sum>i < 2 ^ d. (x i + x (2 ^ d + i)) ^ flt_exponent psub1) + c) mod p"
proof -
  let ?n = "2 ^ d" and ?s = "\<lambda>i. (x i + x (2 ^ d + i)) ^ flt_exponent psub1"
  let ?red = "map (\<lambda>i. ham_reduce (2 ^ i)) [1..<d]" and ?low = "ham_lower ?n psub1"
  obtain l1 ls1 where f: "?red @ ?low = l1 # ls1" by (cases "?red @ ?low") (auto simp: ham_lower_def)
  have st': "computes p (ham_top 1) (vss 0) (vss 1)" "computes p (ham_top 2) (vss 1) (vss 2)"
      "stack p (?red @ ?low) (\<lambda>i. vss (Suc (Suc i)))"
    using st unfolding ham_layers_def f stack_Cons by (simp_all add: numeral_2_eq_2)
  have low: "stack p ?low (\<lambda>i. vss (d + 1 + i))" unfolding stack_def
  proof (intro allI impI)
    fix i assume i: "Suc i < length ?low"
    have "(?red @ ?low) ! (length ?red + i) = ?low ! i" by (rule nth_append_length_plus)
    moreover have "Suc (length ?red + i) < length (?red @ ?low)" using i by simp
    ultimately have "computes p (?low ! i) (vss (Suc (Suc (length ?red + i)))) (vss (Suc (Suc (Suc (length ?red + i)))))"
      using st'(3) unfolding stack_def by metis
    then show "computes p (?low ! i) (vss (d + 1 + i)) (vss (d + 1 + Suc i))" using d by simp
  qed
  have "carries p ?n ?s c (vss (d + 1))"
    using lower_carries [OF L low, of x c] v by (simp add: add.commute add.left_commute)
  then have "carries p ?n ?s c (vss (Suc (Suc (d - 1))))" using d by simp
  then obtain y where y: "carries p (2 ^ 1) y c (vss (Suc (Suc 0)))" "(\<Sum>i < 2 ^ 1. y i) = (\<Sum>i < ?n. ?s i)"
    using reduces_carry [OF st'(3), of ?s c] d by (auto simp: ham_lower_def)
  have t: "vss 0 0 mod p = (vss 1 0 + vss 1 1) mod p" using computes_top [OF st'(1), of 0] by simp
  have t2: "vss 1 0 mod p = (vss 2 0 + vss 2 1) mod p" "vss 1 1 mod p = (vss 2 2 + vss 2 3) mod p"
    using computes_top [OF st'(2), of 0] computes_top [OF st'(2), of 1] by (simp_all add: numeral_3_eq_3)
  have Y: "vss 2 0 mod p = y 0 mod p" "vss 2 1 mod p = y 1 mod p" "vss 2 2 mod p = c mod p" "vss 2 3 mod p = 0"
    using y(1) by (simp_all add: carries_def numeral_2_eq_2 numeral_3_eq_3)
  have "vss 1 0 mod p = (y 0 + y 1) mod p" unfolding t2 by (intro mod_add_cong Y)
  moreover have "vss 1 1 mod p = c mod p" unfolding t2 using Y(3,4) by (simp add: add_zero_mod)
  ultimately have "vss 0 0 mod p = (y 0 + y 1 + c) mod p" unfolding t by (intro mod_add_cong)
  then show ?thesis using y(2) by (simp add: lessThan_nat_numeral numeral_2_eq_2 add.commute)
qed

section \<open>Fermat's little theorem\<close>

lemma fermat_little:
  assumes p: "prime_modulus p" and a: "a mod p \<noteq> 0"
  shows "a ^ nat (p - 1) mod p = 1"
proof -
  let ?S = "{1..<p}" and ?f = "\<lambda>k. a * k mod p"
  have p2: "2 < p" using p by auto
  have nz: "k mod p \<noteq> 0" if "k \<in> ?S" for k using that by simp
  have "inj_on ?f ?S"
  proof (rule inj_onI)
    fix k m assume km: "k \<in> ?S" "m \<in> ?S" "?f k = ?f m"
    then have "k * a mod p = m * a mod p" by (simp add: mult.commute)
    then have "k mod p = m mod p" by (rule prime_modulus_cancel [OF p a])
    then show "k = m" using km by simp
  qed
  moreover have "?f ` ?S \<subseteq> ?S"
  proof
    fix m assume "m \<in> ?f ` ?S"
    then obtain k where k: "k \<in> ?S" "m = ?f k" by blast
    then have "m \<noteq> 0" using prime_modulus_mult_nonzero [OF p a nz] by simp
    moreover have "0 \<le> m" "m < p" using k p2 by simp_all
    ultimately show "m \<in> ?S" by simp
  qed
  ultimately have "bij_betw ?f ?S ?S" by (simp add: bij_betw_def endo_inj_surj)
  then have "(\<Prod>k \<in> ?S. ?f k) = \<Prod>?S" by (rule prod.reindex_bij_betw)
  moreover have "(\<Prod>k \<in> ?S. ?f k) mod p = (\<Prod>k \<in> ?S. a * k) mod p" by (rule mod_prod_eq)
  moreover have "(\<Prod>k \<in> ?S. a * k) = a ^ nat (p - 1) * \<Prod>?S" using p2 by (simp add: prod.distrib)
  ultimately have "a ^ nat (p - 1) * \<Prod>?S mod p = 1 * \<Prod>?S mod p" by simp
  moreover have "\<Prod>?S mod p \<noteq> 0" using prod_mod_nonzero [OF _ p, of ?S "\<lambda>k. k"] nz by simp
  ultimately have "a ^ nat (p - 1) mod p = 1 mod p" using prime_modulus_cancel [OF p] by blast
  then show ?thesis using p2 by simp
qed

section \<open>The value of the output gate\<close>

lemma stack_evaluated:
  assumes "\<forall>l g. Suc l < depth c \<longrightarrow> g < layer_size (layers c ! l) \<longrightarrow> gate_holds c l g"
  shows "stack (cprime c) (layers c) (\<lambda>l g. zData c ! l ! g)"
  using assms by (simp add: stack_def computes_def gate_holds_def depth_def Let_def)

lemma no_div_ham:
  assumes "l \<in> set (ham_layers d psub1)" shows "no_div l"
proof -
  have "no_div (ham_layer n body m a f)" if "\<And>i. i < n \<Longrightarrow> gtype (body i) \<noteq> DIV_INT" for n body m a f
    using that by (auto simp: ham_layer_def last_two_def no_div_def list_all_iff)
  then show ?thesis using assms
    by (auto simp: ham_layers_def ham_lower_def ham_last_def ham_flt_def ham_second_def ham_square_def ham_sum_def ham_reduce_def)
      (auto simp: ham_top_def ham_in_def no_div_def list_all_iff GateWiring_default_def)
qed

lemma hamdist_build_layers:
  assumes "0 < d" and "3 \<le> getFLTDepth (p - 1)"
  shows "\<exists>c. hamdist_buildCircuit d p = Some c \<and> layers (circ c) = ham_layers d (p - 1) \<and> cprime (circ c) = p"
proof -
  let ?c = "(new_CMTCircuit p)\<lparr>circ := (circ (new_CMTCircuit p))\<lparr>valid := False\<rparr>\<rparr>"
  obtain c' where "hamdist_constructCircuit d (p - 1) ?c = Some c'" "layers (circ c') = ham_layers d (p - 1)" "cprime (circ c') = p"
    using hamdist_built [OF assms, of ?c] by (auto simp: new_CMTCircuit_def)
  then show ?thesis by (simp add: hamdist_buildCircuit_def finish_def finalizeConstruct_def Let_def)
qed

lemma ham_depth: "3 \<le> getFLTDepth psub1 \<Longrightarrow> 0 < d \<Longrightarrow> length (ham_layers d psub1) = getFLTDepth psub1 + d + 3"
  by (simp add: ham_layers_def ham_lower_def)

text \<open>What the inputs of the circuit are: \<open>2 ^ (d + 1)\<close> numbers, the claimed distance and the constant 0.\<close>

definition inputs_ready :: "Circuit \<Rightarrow> nat \<Rightarrow> bool" where
  "inputs_ready c d \<longleftrightarrow> data_shape c \<and> layer_image c (depth c - 1) \<and> zData c ! (depth c - 1) ! (2 * 2 ^ d + 1) mod cprime c = 0"

definition hamdist_input :: "Circuit \<Rightarrow> nat \<Rightarrow> int" where
  "hamdist_input c i = zData c ! (depth c - 1) ! i"

lemma hamdist_top_value:
  assumes inv: "gmp_invert mpz_invert" and p: "prime_modulus p" and d: "0 < d" and L: "3 \<le> getFLTDepth (p - 1)" and pd: "int (d + 3) \<le> p"
    and b: "hamdist_buildCircuit d p = Some c" and c: "layers c1 = layers (circ c)" "cprime c1 = p" and I: "inputs_ready c1 d"
  shows "\<exists>c2. evaluate mpz_invert c1 = Some c2 \<and> zData c2 ! 0 ! 0 mod p =
    ((\<Sum>i < 2 ^ d. (hamdist_input c1 i + hamdist_input c1 (2 ^ d + i)) ^ flt_exponent (p - 1)) + hamdist_input c1 (2 * 2 ^ d)) mod p"
proof -
  have ls: "layers c1 = ham_layers d (p - 1)" using hamdist_build_layers [OF d L] b c by auto
  have D: "depth c1 = getFLTDepth (p - 1) + d + 3" unfolding depth_def ls by (rule ham_depth [OF L d])
  then have d0: "0 < depth c1" "layers c1 \<noteq> []" by (auto simp: depth_def)
  have "wires_in_range (layers c1 ! l) (layer_size (layers c1 ! Suc l)) \<and> no_div (layers c1 ! l)" if "Suc l < depth c1" for l
    using ham_levels_linked [OF d pd, of "p - 1"] that no_div_ham [of "layers c1 ! l" d "p - 1"]
    unfolding ls depth_def successively_nth linked_def by simp
  then obtain c2 where c2: "evaluate mpz_invert c1 = Some c2" "layers c2 = layers c1" "cprime c2 = p" "zData c2 ! (depth c1 - 1) = zData c1 ! (depth c1 - 1)"
      "\<forall>l g. Suc l < depth c2 \<longrightarrow> g < layer_size (layers c2 ! l) \<longrightarrow> gate_holds c2 l g"
    using gmp_invert.evaluate_image [OF inv, of c1] p c(2) I D d0 by (auto simp: inputs_ready_def depth_def)
  have st: "stack p (ham_layers d (p - 1)) (\<lambda>l g. zData c2 ! l ! g)"
    using stack_evaluated [OF c2(5)] c2(2,3) ls by simp
  have "carries p (2 * 2 ^ d) (hamdist_input c1) (hamdist_input c1 (2 * 2 ^ d)) ((!) (zData c2 ! (getFLTDepth (p - 1) + d + 2)))"
    using c2(4) I c(2) D by (simp add: carries_def hamdist_input_def inputs_ready_def)
  from layers_carry [OF d L st this] c2(1) show ?thesis by blast
qed

lemma flt_power:
  assumes p: "prime_modulus p" and L: "3 \<le> getFLTDepth (p - 1)"
  shows "p mod 4 = 3 \<Longrightarrow> x ^ flt_exponent (p - 1) mod p = (if x mod p = 0 then 0 else 1)"
    and "p mod 4 = 1 \<Longrightarrow> x ^ flt_exponent (p - 1) mod p = x ^ 2 mod p"
proof -
  have p2: "2 < p" using p by auto
  have e: "flt_exponent (p - 1) + nat (p - 1) mod 4 = nat (p - 1) + 2" using flt_exponent_eq [OF _ L] p2 by simp
  have n4: "int (nat (p - 1) mod 4) = (p - 1) mod 4" using p2 by (simp add: zmod_int)
  have z: "x ^ Suc k mod p = 0" if "x mod p = 0" for k using that by (simp add: mod_0_imp_dvd dvd_imp_mod_0)
  show "x ^ flt_exponent (p - 1) mod p = (if x mod p = 0 then 0 else 1)" if "p mod 4 = 3"
  proof -
    have "(p - 1) mod 4 = 2" using that by presburger
    then have "nat (p - 1) mod 4 = 2" using n4 by linarith
    then have f: "flt_exponent (p - 1) = nat (p - 1)" using e by simp
    moreover have "nat (p - 1) = Suc (nat (p - 2))" using p2 by simp
    ultimately show ?thesis using z fermat_little [OF p] by auto
  qed
  show "x ^ flt_exponent (p - 1) mod p = x ^ 2 mod p" if "p mod 4 = 1"
  proof -
    have "(p - 1) mod 4 = 0" using that by presburger
    then have "nat (p - 1) mod 4 = 0" using n4 by linarith
    then have f: "flt_exponent (p - 1) = nat (p - 1) + 2" using e by simp
    show ?thesis
    proof (cases "x mod p = 0")
      case True
      then show ?thesis using z [of "nat (p - 1) + 1"] z [of 1] f by (simp add: numeral_2_eq_2)
    next
      case False
      have "x ^ (nat (p - 1) + 2) mod p = (x ^ nat (p - 1) mod p) * x ^ 2 mod p" by (simp only: power_add mod_mult_left_eq)
      then show ?thesis using fermat_little [OF p False] f by simp
    qed
  qed
qed

text \<open>C5: the output gate of the Hamming-distance circuit, when the prime is 3 modulo 4: evaluation ends, and the value of
  the output gate is the number of positions where the sum of the two inputs is not 0 plus the claimed result, modulo the prime.\<close>

theorem hamdist_counts:
  assumes "gmp_invert mpz_invert" and "prime_modulus p" and "0 < d" and "3 \<le> getFLTDepth (p - 1)" and "int (d + 3) \<le> p"
    and "hamdist_buildCircuit d p = Some c" and "layers c1 = layers (circ c)" and "cprime c1 = p" and "inputs_ready c1 d"
    and p4: "p mod 4 = 3"
  shows "\<exists>c2. evaluate mpz_invert c1 = Some c2 \<and> zData c2 ! 0 ! 0 mod p =
    (int (card {i. i < 2 ^ d \<and> (hamdist_input c1 i + hamdist_input c1 (2 ^ d + i)) mod p \<noteq> 0}) + hamdist_input c1 (2 * 2 ^ d)) mod p"
proof -
  let ?x = "\<lambda>i. hamdist_input c1 i + hamdist_input c1 (2 ^ d + i)"
  have "(\<Sum>i < 2 ^ d. ?x i ^ flt_exponent (p - 1)) mod p = (\<Sum>i < 2 ^ d. if ?x i mod p \<noteq> 0 then 1 else 0) mod p"
    by (rule sum_mod_cong) (use flt_power(1) [OF assms(2,4) p4] prime_modulus_gt2 [OF assms(2)] in auto)
  moreover have "(\<Sum>i < 2 ^ d. if ?x i mod p \<noteq> 0 then 1 else 0 :: int) = int (card {i. i < 2 ^ d \<and> ?x i mod p \<noteq> 0})"
    by (simp add: sum.If_cases Int_def lessThan_def)
  ultimately have "(\<Sum>i < 2 ^ d. ?x i ^ flt_exponent (p - 1)) mod p = int (card {i. i < 2 ^ d \<and> ?x i mod p \<noteq> 0}) mod p" by simp
  from mod_add_cong [OF this refl] hamdist_top_value [OF assms(1-9)] show ?thesis by auto
qed

text \<open>C28: the same circuit when the prime is 1 modulo 4, as the 128-bit prime of \<^verbatim>\<open>static_state/prime_128.txt\<close> is: the second
  Fermat layer multiplies the square in although bit 1 of \<open>p - 1\<close> is 0, the exponent is \<open>p + 1\<close>, and the output gate
  holds the sum of the squares of the sums instead of the number of nonzero sums.\<close>

theorem hamdist_squares:
  assumes "gmp_invert mpz_invert" and "prime_modulus p" and "0 < d" and "3 \<le> getFLTDepth (p - 1)" and "int (d + 3) \<le> p"
    and "hamdist_buildCircuit d p = Some c" and "layers c1 = layers (circ c)" and "cprime c1 = p" and "inputs_ready c1 d"
    and p4: "p mod 4 = 1"
  shows "\<exists>c2. evaluate mpz_invert c1 = Some c2 \<and> zData c2 ! 0 ! 0 mod p =
    ((\<Sum>i < 2 ^ d. (hamdist_input c1 i + hamdist_input c1 (2 ^ d + i)) ^ 2) + hamdist_input c1 (2 * 2 ^ d)) mod p"
proof -
  let ?x = "\<lambda>i. hamdist_input c1 i + hamdist_input c1 (2 ^ d + i)"
  have "(\<Sum>i < 2 ^ d. ?x i ^ flt_exponent (p - 1)) mod p = (\<Sum>i < 2 ^ d. ?x i ^ 2) mod p"
    by (rule sum_mod_cong) (rule flt_power(2) [OF assms(2,4) p4])
  from mod_add_cong [OF this refl] hamdist_top_value [OF assms(1-9)] show ?thesis by auto
qed

definition hamdist_example :: "mpz \<Rightarrow> Circuit" where
  "hamdist_example p = (let ls = ham_layers 1 (p - 1); zs = [1, 2, - 1, 3, - 1, 0]
     in \<lparr>layers = ls, qData = map (\<lambda>l. map of_int (take (layer_size l) zs)) ls,
         zData = map (\<lambda>l. take (layer_size l) zs) ls, valid = True, cprime = p\<rparr>)"

lemma hamdist_example_ready:
  assumes "2 < p" and L: "3 \<le> getFLTDepth (p - 1)"
  shows "inputs_ready (hamdist_example p) 1"
    and "hamdist_input (hamdist_example p) 0 = 1" "hamdist_input (hamdist_example p) 1 = 2" "hamdist_input (hamdist_example p) 2 = - 1"
    "hamdist_input (hamdist_example p) 3 = 3" "hamdist_input (hamdist_example p) 4 = - 1"
proof -
  let ?ls = "ham_layers 1 (p - 1)"
  have sz: "layer_size l \<le> 6" if "l \<in> set ?ls" for l
    using that by (auto simp: ham_layers_def ham_lower_def)
  then have sz': "layer_size (?ls ! i) \<le> 6" if "i < length ?ls" for i using that by simp
  have D: "length ?ls = getFLTDepth (p - 1) + 4" using ham_depth [OF L, of 1] by simp
  have last: "?ls ! (getFLTDepth (p - 1) + 3) = ham_in 2"
  proof -
    have "last ?ls = ham_in 2" "?ls \<noteq> []" by (simp_all add: ham_layers_def ham_lower_def)
    then show ?thesis using last_conv_nth [of ?ls] D by (simp add: add.commute)
  qed
  have ds: "data_shape (hamdist_example p)"
    using sz' by (simp add: data_shape_def hamdist_example_def Let_def depth_def min_absorb2 eval_nat_numeral)
  have z: "zData (hamdist_example p) ! (getFLTDepth (p - 1) + 3) = [1, 2, - 1, 3, - 1, 0]"
    "qData (hamdist_example p) ! (getFLTDepth (p - 1) + 3) = map of_int [1, 2, - 1, 3, - 1, 0]"
    "depth (hamdist_example p) - 1 = getFLTDepth (p - 1) + 3" "layers (hamdist_example p) ! (getFLTDepth (p - 1) + 3) = ham_in 2"
    "cprime (hamdist_example p) = p"
    using last D by (simp_all add: hamdist_example_def Let_def depth_def)
  have q: "image p (of_int k, k)" for k using assms(1) by (simp add: image_def)
  have "layer_image (hamdist_example p) (getFLTDepth (p - 1) + 3)"
    unfolding layer_image_def z by (simp add: q del: list.map) 
  then show "inputs_ready (hamdist_example p) 1" using ds unfolding inputs_ready_def z by simp
  show "hamdist_input (hamdist_example p) 0 = 1" "hamdist_input (hamdist_example p) 1 = 2" "hamdist_input (hamdist_example p) 2 = - 1"
    "hamdist_input (hamdist_example p) 3 = 3" "hamdist_input (hamdist_example p) 4 = - 1"
    unfolding hamdist_input_def z by simp_all
qed


lemma prime_modulus_11: "prime_modulus 11" and prime_modulus_13: "prime_modulus 13"
  by code_simp+

lemma hamdist_example_built:
  assumes "3 \<le> getFLTDepth (p - 1)"
  shows "\<exists>c. hamdist_buildCircuit 1 p = Some c \<and> layers (hamdist_example p) = layers (circ c)" and "cprime (hamdist_example p) = p"
  using hamdist_build_layers [of 1 p] assms by (auto simp: hamdist_example_def Let_def)

theorem hamdist_counts_witness:
  "\<exists>c2. evaluate mod_inverse (hamdist_example 11) = Some c2 \<and> zData c2 ! 0 ! 0 mod 11 = 0"
proof -
  have L: "3 \<le> getFLTDepth (11 - 1)" by code_simp
  note E = hamdist_example_ready [OF _ L] hamdist_example_built [OF L]
  obtain c where c: "hamdist_buildCircuit 1 11 = Some c" "layers (hamdist_example 11) = layers (circ c)" using E(7) by blast
  have "{i :: nat. i < 2 ^ 1 \<and> (hamdist_input (hamdist_example 11) i + hamdist_input (hamdist_example 11) (2 ^ 1 + i)) mod 11 \<noteq> 0} = {1}"
    using E by (auto simp: less_Suc_eq numeral_2_eq_2 numeral_3_eq_3)
  then show ?thesis
    using hamdist_counts [OF euclid.gmp_invert_axioms prime_modulus_11 _ L _ c E(8)] E by simp
qed

theorem hamdist_squares_witness:
  "\<exists>c2. evaluate mod_inverse (hamdist_example 13) = Some c2 \<and> zData c2 ! 0 ! 0 mod 13 = 11"
proof -
  have L: "3 \<le> getFLTDepth (13 - 1)" by code_simp
  note E = hamdist_example_ready [OF _ L] hamdist_example_built [OF L]
  obtain c where c: "hamdist_buildCircuit 1 13 = Some c" "layers (hamdist_example 13) = layers (circ c)" using E(7) by blast
  have "(\<Sum>i < 2 ^ 1. (hamdist_input (hamdist_example 13) i + hamdist_input (hamdist_example 13) (2 ^ 1 + i)) ^ 2) = 25"
    using E by (simp add: numeral_2_eq_2 numeral_3_eq_3)
  then show ?thesis
    using hamdist_squares [OF euclid.gmp_invert_axioms prime_modulus_13 _ L _ c E(8)] E by simp
qed

end
