(* ===== verification/Prover_Machine.thy ===== *)
theory Prover_Machine
  imports Circuit_Protocol Circuit_Evaluate App_Circuits
begin

text \<open>
  The circuit prover as a state machine. Whatever messages arrive and in whatever order, a prover that has not
  aborted keeps the shape of its circuits and of the vectors of the loop it is in; and what becomes of it when the verifier
  rejects. What the prover relies on in the class of its circuits is the locale \<open>shape_keeping_class\<close>; the three classes
  of the source interpret it.
\<close>

section \<open>Circuit classes keep the shape of a circuit\<close>

definition same_shape :: "CMTCircuit \<Rightarrow> CMTCircuit \<Rightarrow> bool" where
  "same_shape c c' \<longleftrightarrow> layers (circ c') = layers (circ c) \<and> (data_shape (circ c) \<longrightarrow> data_shape (circ c'))"

lemma same_shape_refl [simp]: "same_shape c c"
  by (simp add: same_shape_def)

lemma same_shape_trans: "same_shape c c' \<Longrightarrow> same_shape c' c'' \<Longrightarrow> same_shape c c''"
  by (simp add: same_shape_def)

locale shape_keeping_class =
  fixes cls :: circuit_class
  assumes inputs_shape: "cls_initializeInputs cls c xs ms = Some c' \<Longrightarrow> same_shape c c'"
    and evaluate_shape: "cls_evaluate cls c = Some c' \<Longrightarrow> same_shape c c'"

text \<open>A loop over options keeps what its body keeps.\<close>

lemma fold_option_keeps:
  assumes "\<And>i a b. f i a = Some b \<Longrightarrow> P a b" and "\<And>a. P a a" and "\<And>a b c. P a b \<Longrightarrow> P b c \<Longrightarrow> P a c"
    and "fold (\<lambda>i r. Option.bind r (f i)) is (Some a) = Some b"
  shows "P a b"
  using assms(4)
proof (induction "is" arbitrary: a)
  case Nil
  then show ?case using assms(2) by simp
next
  case (Cons i "is")
  show ?case
  proof (cases "f i a")
    case None
    have "fold (\<lambda>i r. Option.bind r (f i)) is None = None" by (induction "is") auto
    then show ?thesis using Cons.prems None by simp
  next
    case (Some a')
    then show ?thesis using Cons.IH [of a'] Cons.prems assms(3) [OF assms(1) [OF Some]] by simp
  qed
qed

definition circ_shape :: "Circuit \<Rightarrow> Circuit \<Rightarrow> bool" where
  "circ_shape c c' \<longleftrightarrow> layers c' = layers c \<and> (data_shape c \<longrightarrow> data_shape c')"

lemma circ_shape_simps:
  "circ_shape c c" "circ_shape c c' \<Longrightarrow> circ_shape c' c'' \<Longrightarrow> circ_shape c c''" "circ_shape c (set_gate c l g v)"
  by (auto simp: circ_shape_def data_shape_set) (simp add: set_gate_def)

lemma same_shape_circ: "circ_shape (circ c) x \<Longrightarrow> same_shape c (c\<lparr>circ := x\<rparr>)"
  by (simp add: same_shape_def circ_shape_def)

lemma setGates_shape: "setGates mpz_invert gs vec c = Some c' \<Longrightarrow> circ_shape c c'"
  unfolding setGates_def
  by (rule fold_option_keeps [where P = circ_shape, rotated 3, where f = "\<lambda>i c. case gs ! i of
        Some g \<Rightarrow> if i < length vec then setGate_q mpz_invert g (vec ! i) c else Some c | None \<Rightarrow> Some c"])
    (auto simp: setGate_q_def circ_shape_simps intro: circ_shape_simps split: option.splits if_splits)

lemma evaluate_circ_shape: "evaluate mpz_invert c = Some c' \<Longrightarrow> circ_shape c c'"
proof -
  assume e: "evaluate mpz_invert c = Some c'"
  have g: "eval_gate mpz_invert l j c = Some c' \<Longrightarrow> circ_shape c c'" for l j c c'
    by (auto simp: eval_gate_def Let_def circ_shape_simps split: option.splits)
  have l: "eval_layer mpz_invert l c = Some c' \<Longrightarrow> circ_shape c c'" for l c c'
    unfolding eval_layer_def by (rule fold_option_keeps [of "eval_gate mpz_invert l" circ_shape]) (auto intro: g circ_shape_simps)
  show ?thesis
  proof (cases "depth c < 2")
    case False
    then show ?thesis using e unfolding evaluate_def
      by (auto intro: fold_option_keeps [of "eval_layer mpz_invert" circ_shape, OF l] circ_shape_simps)
  qed (use e in \<open>simp add: evaluate_def circ_shape_simps\<close>)
qed

lemma initializeInputs_shape: "initializeInputs mpz_invert c xs ms = Some c' \<Longrightarrow> same_shape c c'"
  by (auto simp: initializeInputs_def bind_eq_Some_conv intro!: same_shape_circ circ_shape_simps(2) [OF setGates_shape setGates_shape])

lemma cmt_evaluate_shape: "cmt_evaluate mpz_invert c = Some c' \<Longrightarrow> same_shape c c'"
  by (auto simp: cmt_evaluate_def intro!: same_shape_circ evaluate_circ_shape)

lemma setGate_at_shape: "setGate_at l g v c = Some c' \<Longrightarrow> same_shape c c'"
  by (auto simp: setGate_at_def circ_shape_simps intro!: same_shape_circ split: if_splits)

lemma hamdist_initializeInputs_shape: "hamdist_initializeInputs mpz_invert c xs ms = Some c' \<Longrightarrow> same_shape c c'"
  by (auto simp: hamdist_initializeInputs_def bind_eq_Some_conv Let_def
      intro: same_shape_trans [OF initializeInputs_shape setGate_at_shape])

lemma matmul_evaluate_shape:
  assumes "matmul_evaluate mpz_invert d pp c = Some c'" shows "same_shape c c'"
proof -
  have m: "matmul_claim mpz_invert n ij c = Some c' \<Longrightarrow> same_shape c c'" for n ij c c'
    by (simp add: matmul_claim_def Let_def setGate_at_shape)
  have f: "same_shape c c'" if "fold (\<lambda>ij r. Option.bind r (matmul_claim mpz_invert n ij)) is (Some c) = Some c'" for n "is" c c'
    using that by (rule fold_option_keeps [of "matmul_claim mpz_invert n" same_shape, rotated 3]) (auto intro: m same_shape_trans)
  show ?thesis using assms
    by (auto simp: matmul_evaluate_def bind_eq_Some_conv cmt_evaluate_shape split: if_splits intro: same_shape_trans [OF f cmt_evaluate_shape])
qed

interpretation base: shape_keeping_class "base_class mpz_invert"
  by unfold_locales (simp_all add: base_class_def initializeInputs_shape cmt_evaluate_shape)

interpretation hamdist: shape_keeping_class "hamdist_class mpz_invert"
  by unfold_locales (auto simp: hamdist_class_def hamdist_initializeInputs_shape hamdist_evaluate_def Let_def bind_eq_Some_conv
      intro: same_shape_trans [OF setGate_at_shape cmt_evaluate_shape])

interpretation matmul: shape_keeping_class "matmul_class mpz_invert d pp"
  by unfold_locales (auto simp: matmul_class_def matmul_initializeInputs_def initializeInputs_shape hamdist_initializeInputs_shape
      matmul_evaluate_shape split: if_splits)

section \<open>The sum-check object keeps its layers\<close>

lemma keeps_refl [simp]: "keeps st st"
  by (simp add: keeps_def)

lemma keeps_fold:
  assumes "\<And>i s. keeps (fst s) (fst (f i s))"
  shows "keeps (fst s) (fst (fold f is s))"
proof (induction "is" arbitrary: s)
  case (Cons i "is")
  show ?case using keeps_trans [OF assms Cons.IH, of s i] by simp
qed simp

lemma keeps_roundO_gate: "keeps (fst s) (fst (roundO_gate bitPos r onO1 g s))"
proof -
  have acc: "keeps (fst s) (fst (roundO_accum onO1 w m v cf b s))" for w m v cf b s
    by (cases s) (simp add: roundO_accum_def keeps_def Let_def)
  have accs: "keeps a (fst (fold (roundO_accum onO1 w m v cf) is (a, b)))" for w m v cf "is" a b
    using keeps_fold [OF acc, of "(a, b)"] by simp
  obtain st q where s: "s = (st, q)" by fastforce
  let ?w = "wires st ! g"
  let ?idx = "if onO1 then in1 ?w else in2 ?w"
  let ?base = "2 * (?idx div 2 ^ bitPos div 2)"
  let ?s1 = "if bit_at ?idx bitPos then fold (roundO_accum onO1 ?w 1 (\<lambda>b. vals st ! b ! (?base + 1)) (addormultr st ! g))
                    [0..<batchSize st] (st, q) else (st, q)"
  let ?f = "\<lambda>m (st', q). fold (roundO_accum onO1 ?w m (\<lambda>b. mle_si (int m) (vals st ! b ! ?base) (vals st ! b ! (?base + 1)) (scprime st))
       (mulmle2_si (addormultr st' ! g) (int m) (bit_at ?idx bitPos) (scprime st))) [0..<batchSize st'] (st', q)"
  have "keeps st (fst ?s1)" by (simp add: accs)
  moreover have "keeps (fst ?s1) (fst (fold ?f [2..<polySize] ?s1))"
    by (rule keeps_fold) (simp only: split_beta prod.collapse keeps_fold [OF acc])
  ultimately have "keeps st (fst (fold ?f [2..<polySize] ?s1))" by (rule keeps_trans)
  then show ?thesis unfolding s roundO_gate_def Let_def by (simp add: split_beta keeps_def cong: if_cong)
qed

lemma keeps_doRoundO: "keeps st (fst (doRoundO st q bitPos r onO1))"
proof -
  define s1 where "s1 = (if bitPos = 0 then st\<lparr>vals := map (\<lambda>b. init_vals_array (vals st ! b) (inVals st ! b)) [0..<batchSize st]\<rparr> else st)"
  have "keeps st s1" by (simp add: s1_def keeps_def)
  moreover have "keeps s1 (fst (fold (roundO_gate bitPos r onO1) [0..<out_size s1] (s1, q)))"
    using keeps_fold [OF keeps_roundO_gate, of "(s1, q)"] by simp
  ultimately have "keeps st (fst (fold (roundO_gate bitPos r onO1) [0..<out_size s1] (s1, q)))" by (rule keeps_trans)
  then show ?thesis unfolding doRoundO_def s1_def [symmetric] Let_def by (simp add: split_beta keeps_def roundO_update_vals_def)
qed

lemma keeps_doRoundP: "keeps st (fst (doRoundP mpz_invert st q bitPos z r))"
proof -
  have gt: "keeps (fst s) (fst (roundP_point2_gate bitPos z r g s))" for g s
    by (cases s) (simp add: roundP_point2_gate_def keeps_def Let_def)
  have "keeps st (roundP_divide_betar mpz_invert st bitPos z)" by (simp add: roundP_divide_betar_def keeps_def Let_def)
  moreover have "keeps s1 (fst (fold (roundP_point2_gate bitPos z r) is (s1, q')))" for s1 "is" q'
    using keeps_fold [of "roundP_point2_gate bitPos z r" "(s1, q')", OF gt] by simp
  ultimately have "keeps st (fst (fold (roundP_point2_gate bitPos z r) [0..<out_size (roundP_divide_betar mpz_invert st bitPos z)]
      (roundP_divide_betar mpz_invert st bitPos z, roundP_point1 st bitPos q)))" by (rule keeps_trans)
  moreover have "keeps s1 (roundP_update_betar s1 bitPos z r)" for s1 by (simp add: roundP_update_betar_def keeps_def Let_def)
  ultimately show ?thesis unfolding doRoundP_def Let_def by (auto simp: split_beta intro: keeps_trans)
qed

lemma keeps_answer_poly: "keeps st (fst (answer_poly mpz_invert st q rnd r))"
proof -
  have c: "keeps st (computeBetaZAll st\<lparr>partialBetar := 1\<rparr>)" by (simp add: computeBetaZAll_def keeps_def)
  have v: "keeps st (st\<lparr>V1s := vs\<rparr>)" for st vs by (simp add: keeps_def)
  have "keeps st (fst (doRound mpz_invert st q rnd r))"
    unfolding doRound_def Let_def
    by (auto simp: split_beta intro!: keeps_doRoundO keeps_doRoundP c v intro: keeps_trans [OF c keeps_doRoundP] keeps_trans [OF c keeps_doRoundO]
        keeps_trans [OF v keeps_doRoundO] keeps_trans [OF keeps_trans [OF c v] keeps_doRoundO])
  then show ?thesis by (simp add: answer_poly_def split_beta keeps_def)
qed

lemma sc_handle_keeps:
  "keeps (run_st run) (run_st (fst (sc_handle mpz_invert msg run))) \<and> length (run_rand (fst (sc_handle mpz_invert msg run))) = length (run_rand run)"
  using keeps_answer_poly by (auto simp: sc_handle_def Let_def split_beta split: cmt_msg.split)

section \<open>The invariant of the prover\<close>

definition rounds_of :: "CMTCircuit \<Rightarrow> nat \<Rightarrow> nat" where
  "rounds_of c lvl = logSize (level c lvl) + 2 * logSize (level c (lvl + 1))"

definition cp_wf :: "CMTCircuit \<Rightarrow> CircuitProver \<Rightarrow> bool" where
  "cp_wf build s \<longleftrightarrow> (\<forall>c \<in> set (batch s). same_shape build c) \<and>
     (case pmode s of
        InSumCheck lvl run \<Rightarrow> batch s \<noteq> [] \<and> lvl + 1 < depth (circ build) \<and> run_ret run = None \<and>
          wires (run_st run) = gates (level build lvl) \<and> batchSize (run_st run) = length (batch s) \<and>
          numRounds (run_st run) = rounds_of build lvl \<and> length (run_rand run) = rounds_of build lvl
      | InMiniIP lvl rnd lpoly \<Rightarrow> batch s \<noteq> [] \<and> lvl + 1 < depth (circ build) \<and> length rnd = rounds_of build lvl \<and>
          length lpoly = (logSize (level build (lvl + 1)) + 1) * cp_batchSize s
      | _ \<Rightarrow> True)"

inductive cp_reachable :: "(mpz \<Rightarrow> mpz \<Rightarrow> mpz) \<Rightarrow> circuit_class \<Rightarrow> CMTCircuit \<Rightarrow> CircuitProver \<Rightarrow> bool"
  for mpz_invert cls build where
  cp_start: "cp_reachable mpz_invert cls build new_CircuitProver"
| cp_step: "cp_reachable mpz_invert cls build s \<Longrightarrow> cp_reachable mpz_invert cls build (fst (cp_handle mpz_invert cls build msg s))"

lemma same_shape_level: "same_shape build c \<Longrightarrow> level c = level build" "same_shape build c \<Longrightarrow> depth (circ c) = depth (circ build)"
  by (auto simp: same_shape_def level_def depth_def fun_eq_iff)

lemma set_fold_update:
  assumes "\<And>i a b. f i a = Some b \<Longrightarrow> (\<forall>c \<in> set a. P c) \<Longrightarrow> (\<forall>c \<in> set b. P c)" and "\<forall>c \<in> set a. P c"
    and "fold (\<lambda>i r. Option.bind r (f i)) is (Some a) = Some b"
  shows "\<forall>c \<in> set b. P c"
  using fold_option_keeps [of f "\<lambda>a b. (\<forall>c \<in> set a. P c) \<longrightarrow> (\<forall>c \<in> set b. P c)"] assms by blast

lemma update_all: "\<forall>c \<in> set xs. P c \<Longrightarrow> (i < length xs \<Longrightarrow> P x) \<Longrightarrow> \<forall>c \<in> set (xs[i := x]). P c"
  using set_update_subset_insert [of xs i x] by (cases "i < length xs") (auto simp: list_update_beyond)

context shape_keeping_class
begin

lemma init_batch_shape:
  assumes "init_batch cls vec n b = Some b'" and "\<forall>c \<in> set b. same_shape build c" shows "\<forall>c \<in> set b'. same_shape build c"
proof -
  let ?f = "\<lambda>i (inner, b). Option.bind (vec_copy inner vec (i * length inner) (length inner) 0) (\<lambda>inner.
     map_option (\<lambda>c. (inner, b[i := c])) (cls_initializeInputs cls (b ! i) inner []))"
  let ?P = "\<lambda>x y :: rat list \<times> CMTCircuit list. (\<forall>c \<in> set (snd x). same_shape build c) \<longrightarrow> (\<forall>c \<in> set (snd y). same_shape build c)"
  have st: "?P x y" if "?f i x = Some y" for i x y
  proof
    assume sx: "\<forall>c \<in> set (snd x). same_shape build c"
    obtain inner c where y: "snd y = (snd x)[i := c]" "cls_initializeInputs cls (snd x ! i) inner [] = Some c"
      using \<open>?f i x = Some y\<close> by (auto simp: bind_eq_Some_conv split_beta)
    show "\<forall>c \<in> set (snd y). same_shape build c" unfolding y(1)
      by (rule update_all [OF sx]) (use same_shape_trans [OF _ inputs_shape [OF y(2)]] sx in simp)
  qed
  obtain inner where F: "fold (\<lambda>i r. Option.bind r (?f i)) [0..<length b] (Some (new_qvec n, b)) = Some (inner, b')"
    using assms(1) by (auto simp: init_batch_def)
  have "?P (new_qvec n, b) (inner, b')" by (rule fold_option_keeps [OF st _ _ F]) auto
  then show ?thesis using assms(2) by simp
qed

lemma eval_batch_shape:
  assumes "eval_batch cls b = Some b'" and "\<forall>c \<in> set b. same_shape build c" shows "\<forall>c \<in> set b'. same_shape build c"
proof (rule set_fold_update [OF _ assms(2) assms(1) [unfolded eval_batch_def]])
  fix i a b assume "map_option (\<lambda>c. a[i := c]) (cls_evaluate cls (a ! i)) = Some b" and sa: "\<forall>c \<in> set a. same_shape build c"
  then obtain c where c: "cls_evaluate cls (a ! i) = Some c" "b = a[i := c]" by auto
  show "\<forall>c \<in> set b. same_shape build c" unfolding c(2)
    by (rule update_all [OF sa]) (use same_shape_trans [OF _ evaluate_shape [OF c(1)]] sa in simp)
qed

lemma handle_top_wf:
  assumes W: "cp_wf build s" and "pmode s = AtTop" and ds: "data_shape (circ build)" and m: "cp_handle mpz_invert cls build msg s = (s', rep)"
  shows "cp_wf build s'"
proof -
  have B: "\<forall>c \<in> set (batch s). same_shape build c" using W by (simp add: cp_wf_def)
  have top: "handle_top cls build msg s = (s', rep)" using m assms(2) by (simp add: cp_handle_def)
  have prime: "same_shape build (build\<lparr>circ := (circ build)\<lparr>cprime := p\<rparr>\<rparr>)" for p
    by (simp add: same_shape_def data_shape_def depth_def)
  have outs: "cp_wf build (fst (answer_outputs cls data s))" for data
  proof -
    have "\<forall>c \<in> set b'. same_shape build c" if "Option.bind (init_batch cls vec n (batch s)) (eval_batch cls) = Some b'" for vec n b'
      using that eval_batch_shape init_batch_shape [OF _ B] by (auto simp: bind_eq_Some_conv)
    then show ?thesis unfolding answer_outputs_def Let_def
      by (auto simp: cp_wf_def assms(2) B split: option.split)
  qed
  have layer: "cp_wf build (begin_layer lvl s)" for lvl
  proof (cases "batch s = [] \<or> depth (circ (batch s ! 0)) \<le> lvl + 1")
    case False
    then have c: "same_shape build (batch s ! 0)" using B by simp
    note L = same_shape_level [OF c]
    have "length (zData (circ (batch s ! 0)) ! (lvl + 1)) = layer_size (level build (lvl + 1))"
      using c ds False L by (auto simp: same_shape_def data_shape_def level_def)
    then show ?thesis using B False L
      by (simp add: begin_layer_def cp_wf_def Let_def begin_run_def start_run_def new_SumCheckProver_def batchSize_def numRounds_def
          out_logSize_def in_logSize_def in_size_def rounds_of_def logSize_def layer_size_def level_zs_def hd_map nth_map)
  qed (use B assms(2) in \<open>auto simp: begin_layer_def cp_wf_def\<close>)
  have "cp_wf build (initProtocol build p s)" "cp_wf build (notify_z0 zs s)" for p zs
    using B assms(2) prime by (auto simp: initProtocol_def notify_z0_def cp_wf_def Let_def)
  moreover have "cp_wf build (s\<lparr>pmode := Exited\<rparr>)" "cp_wf build (s\<lparr>pconf := cf\<rparr>)" for cf
    using B assms(2) by (simp_all add: cp_wf_def)
  moreover have "answer_outputs cls data s = (s', rep) \<Longrightarrow> cp_wf build s'" for data using outs by (metis fst_conv)
  ultimately show ?thesis using top W layer by (cases msg) (auto simp: handle_top_def)
qed

lemma cp_handle_wf:
  assumes W: "cp_wf build s" and ds: "data_shape (circ build)"
  shows "cp_wf build (fst (cp_handle mpz_invert cls build msg s))"
proof (cases "pmode s")
  case AtTop
  then show ?thesis using handle_top_wf [OF W _ ds] by (metis prod.collapse)
next
  case (InSumCheck lvl run)
  let ?run = "fst (sc_handle mpz_invert msg run)"
  have I: "\<forall>c \<in> set (batch s). same_shape build c" "batch s \<noteq> []" "lvl + 1 < depth (circ build)" "wires (run_st run) = gates (level build lvl)"
    "batchSize (run_st run) = length (batch s)" "numRounds (run_st run) = rounds_of build lvl" "length (run_rand run) = rounds_of build lvl"
    using W InSumCheck by (simp_all add: cp_wf_def)
  have K: "keeps (run_st run) (run_st ?run)" "length (run_rand ?run) = length (run_rand run)" using sc_handle_keeps by simp_all
  have L: "level (batch s ! 0) = level build" using same_shape_level(1) I(1,2) by simp
  show ?thesis using I K(2) keeps_fields [OF K(1)] keeps_rounds [OF K(1)] InSumCheck L
    by (auto simp: cp_handle_def handle_sumcheck_def cp_wf_def Let_def split_beta cp_batchSize_def new_vec_def split: option.split bool.split)
next
  case (InMiniIP lvl rnd lpoly)
  have l: "length (compute_lpoly mpz_invert lvl rnd lpoly s) = length lpoly"
    unfolding compute_lpoly_def Let_def by simp
  show ?thesis using W InMiniIP l
    by (cases msg) (auto simp: cp_handle_def handle_miniIP_def cp_wf_def Let_def cp_batchSize_def notify_extrap_def)
qed (use W in \<open>simp_all add: cp_handle_def\<close>)

lemma reachable_wf:
  assumes "cp_reachable mpz_invert cls build s" and "data_shape (circ build)"
  shows "cp_wf build s"
  using assms
proof induction
  case cp_start
  then show ?case by (simp add: cp_wf_def new_CircuitProver_def)
qed (simp add: cp_handle_wf)

end

section \<open>Properties\<close>


definition prover_in_sumcheck :: CircuitProver where
  "prover_in_sumcheck = fst (cp_handle mod_inverse (base_class mod_inverse) two_layers (BEGIN_LAYER 0)
     (fst (cp_handle mod_inverse (base_class mod_inverse) two_layers (BEGIN_CMT 7) new_CircuitProver)))"

lemma two_layers_data: "data_shape (circ two_layers)"
  by code_simp



definition rejected :: "(mpz \<Rightarrow> mpz \<Rightarrow> mpz) \<Rightarrow> circuit_class \<Rightarrow> CMTCircuit \<Rightarrow> CircuitProver \<Rightarrow> CircuitProver" where
  "rejected mpz_invert cls build s =
     fst (cp_handle mpz_invert cls build END_CMT (fst (cp_handle mpz_invert cls build END_LAYER s)))"

text \<open>C18: A verifier that rejects during a sum-check sends \<^verbatim>\<open>END_LAYER\<close> and then \<^verbatim>\<open>END_CMT\<close>. The prover stops if and only if rounds
  were left. After the last round it takes \<^verbatim>\<open>END_LAYER\<close> for the end of a successful sum-check, waits in the mini-IP and
  ignores \<^verbatim>\<open>END_CMT\<close>, however often it comes.\<close>

theorem rejected_prover_stops:
  assumes "pmode s = InSumCheck lvl run" and "run_ret run = None"
  shows "(pmode (rejected mpz_invert cls build s) = Exited \<longleftrightarrow> run_round run < numRounds (run_st run)) \<and>
    (run_round run < numRounds (run_st run) \<or>
     fst (cp_handle mpz_invert cls build END_CMT (rejected mpz_invert cls build s)) = rejected mpz_invert cls build s)"
proof (cases "run_round run < numRounds (run_st run)")
  case True
  then have "pmode (fst (cp_handle mpz_invert cls build END_LAYER s)) = Exited"
    using assms by (simp add: cp_handle_def handle_sumcheck_def sc_handle_def Let_def)
  then show ?thesis using True by (simp add: rejected_def cp_handle_def)
next
  case False
  then obtain lpoly where m: "pmode (fst (cp_handle mpz_invert cls build END_LAYER s)) = InMiniIP lvl (run_rand run) lpoly"
    using assms by (simp add: cp_handle_def handle_sumcheck_def sc_handle_def Let_def)
  have stay: "fst (cp_handle mpz_invert cls build END_CMT s') = s'" if "pmode s' = InMiniIP lvl (run_rand run) lpoly" for s'
    using that by (simp add: cp_handle_def handle_miniIP_def)
  show ?thesis using False m stay by (simp add: rejected_def)
qed

definition prover_after_rounds :: CircuitProver where
  "prover_after_rounds = fold (\<lambda>r s. fst (cp_handle mod_inverse (base_class mod_inverse) two_layers (REQ_SC_POLY r) s)) [2, 5, 4] prover_in_sumcheck"

theorem rejected_prover_stops_witness: "pmode (rejected mod_inverse (base_class mod_inverse) two_layers prover_after_rounds) \<noteq> Exited"
proof -
  have "case pmode prover_after_rounds of InSumCheck lvl run \<Rightarrow> run_ret run = None \<and> run_round run = 3 \<and> numRounds (run_st run) = 3 | _ \<Rightarrow> False"
    by code_simp
  then obtain lvl run where r: "pmode prover_after_rounds = InSumCheck lvl run" "run_ret run = None" "run_round run = 3" "numRounds (run_st run) = 3"
    by (auto split: pmode.splits)
  from rejected_prover_stops [OF r(1,2), of mod_inverse "base_class mod_inverse" two_layers] r(3,4) show ?thesis by simp
qed

end
