(* ===== verification/Arithmetic_Facts.thy ===== *)
theory Arithmetic_Facts
  imports Sumcheck_Invariant Wiring_Mle Mpn_Vector
begin

text \<open>
  What the arithmetic of \<^verbatim>\<open>cmtgkr_env.cpp\<close> promises the protocol: the Lagrange basis computed all at once, the
  two ways to evaluate a layer's extension, the check of a first level, and where a negative factor goes wrong.
\<close>

text \<open>C26: \<^verbatim>\<open>computeChiAll\<close>, which fills the whole table by doubling, has at every index what \<^verbatim>\<open>chi\<close> computes there.\<close>

theorem computeChiAll_is_chi:
  assumes "1 < p" and "k < length rop" and "length rop \<le> 2 ^ length r"
  shows "computeChiAll rop r p ! k = chi k r (length r) p"
  using assms by (simp add: computeChiAll_lagr chi_lagr)

theorem computeChiAll_is_chi_witness: "computeChiAll [0, 0, 0] [3, 5] 7 ! 2 = chi 2 [3, 5] 2 7 \<and> chi 2 [3, 5] 2 7 = (4 :: int)"
proof
  show "computeChiAll [0, 0, 0] [3, 5] 7 ! 2 = chi 2 [3, 5] 2 7"
    using computeChiAll_is_chi [of 7 2 "[0, 0, 0]" "[3, 5]"] by (simp add: numeral_2_eq_2)
  show "chi 2 [3, 5] 2 7 = (4 :: int)" by code_simp
qed

text \<open>C27: The verifier's evaluation of a layer with a precomputed table and the prover's evaluation gate by gate give the
  same number, so both sides start a level from the same claim.\<close>

theorem evaluate_V_agree:
  assumes p: "1 < p" and r: "length r = log2i (length vs)"
  shows "evaluate_V_chis vs (computeChiAll (new_vec (length vs)) r p) p = evaluate_V_i vs r p"
proof -
  have "evaluate_V_chis vs (computeChiAll (new_vec (length vs)) r p) p = mle_at vs ((!) r) (length r) mod p"
    using le_two_power_log2i [of "length vs"] r
    by (intro evaluate_V_chis_mle [OF p]) (simp_all add: computeChiAll_lagr p new_vec_def)
  then show ?thesis by (simp add: evaluate_V_i_mle p r)
qed

theorem evaluate_V_agree_witness:
  "evaluate_V_chis [4, 0, 6] (computeChiAll (new_vec 3) [3, 5] 7) 7 = evaluate_V_i [4, 0, 6] [3, 5] 7"
proof -
  have "length [3, 5 :: int] = log2i (length [4, 0, 6 :: int])" by code_simp
  from evaluate_V_agree [of 7, OF _ this] show ?thesis by (simp add: numeral_3_eq_3)
qed

text \<open>The extension of a layer interpolates it: at the bits of a gate's index it is that gate's value.\<close>

theorem evaluate_V_i_boolean:
  assumes p: "1 < p" and k: "k < length vs"
  shows "evaluate_V_i vs (map (\<lambda>i. of_bool (bit_at k i)) [0..<log2i (length vs)]) p = vs ! k mod p"
proof -
  let ?m = "log2i (length vs)"
  have "lagr j ((!) (map (\<lambda>i. of_bool (bit_at k i)) [0..<?m])) ?m = of_bool (j = k)" if "j < length vs" for j
  proof -
    have "lagr j ((!) (map (\<lambda>i. of_bool (bit_at k i)) [0..<?m])) ?m = lagr j (\<lambda>i. of_bool (bit_at k i)) ?m"
      by (intro lagr_cong) simp
    then show ?thesis using lagr_boolean [of j ?m k] that k le_two_power_log2i [of "length vs"] by simp
  qed
  then have "mle_at vs ((!) (map (\<lambda>i. of_bool (bit_at k i)) [0..<?m])) ?m = (\<Sum>j < length vs. if j = k then vs ! j else 0)"
    unfolding mle_at_def by (intro sum.cong) auto
  then show ?thesis using k by (simp add: evaluate_V_i_mle p)
qed

theorem evaluate_V_i_boolean_witness: "evaluate_V_i [4, 0, 13] [0, 1] 7 = (6 :: int)"
proof -
  have "map (\<lambda>i. of_bool (bit_at 2 i)) [0..<log2i (length [4, 0, 13 :: int])] = [0, 1 :: int]" by code_simp
  then show ?thesis using evaluate_V_i_boolean [of 7 2 "[4, 0, 13]"] by simp
qed

section \<open>The first level\<close>

lemma update_a_fast_nth:
  assumes n: "even n" "n \<le> length a" and j: "j < n div 2"
  shows "update_a_fast n r a p ! j = ((1 - r) * a ! (2 * j) + r * a ! (2 * j + 1)) mod p \<and> length (update_a_fast n r a p) = length a"
proof -
  let ?f = "\<lambda>k vals. let index = k div 2
            in if odd k then vals[index := addmodmult (vals ! index) (vals ! k) r p]
               else let vals = vals[index := vals ! k]
                    in vals[index := addmodmult (vals ! index) (vals ! k) (- r) p]"
  define P where "P = (\<lambda>k v. length v = length a \<and> (\<forall>i < length a. v ! i =
    (if i < k div 2 then ((1 - r) * a ! (2 * i) + r * a ! (2 * i + 1)) mod p
     else if odd k \<and> i = k div 2 then (1 - r) * a ! (2 * i) mod p else a ! i)))"
  have "P n (fold ?f [0..<n] a)"
  proof (rule fold_range_inv)
    show "P 0 a" by (simp add: P_def)
  next
    fix k v assume k: "k < n" and Pv: "P k v"
    have len: "length v = length a" "k < length a" "k div 2 < length a" using Pv k n by (simp_all add: P_def)
    have v: "v ! i = (if i < k div 2 then ((1 - r) * a ! (2 * i) + r * a ! (2 * i + 1)) mod p
        else if odd k \<and> i = k div 2 then (1 - r) * a ! (2 * i) mod p else a ! i)" if "i < length a" for i
      using Pv that by (simp add: P_def)
    show "P (Suc k) (?f k v)"
    proof (cases "odd k")
      case True
      then have kk: "k = 2 * (k div 2) + 1" "Suc k div 2 = Suc (k div 2)" by presburger+
      have "v ! k = a ! k" "v ! (k div 2) = (1 - r) * a ! (2 * (k div 2)) mod p"
        using v [OF len(2)] v [OF len(3)] True kk by auto
      then have "addmodmult (v ! (k div 2)) (v ! k) r p = ((1 - r) * a ! (2 * (k div 2)) + r * a ! (2 * (k div 2) + 1)) mod p"
        using kk(1) by (simp add: addmodmult_def mod_add_left_eq mult.commute)
      then show ?thesis using True len kk(2) v
        by (simp add: P_def Let_def nth_list_update less_Suc_eq)
    next
      case False
      then have kk: "k = 2 * (k div 2)" "Suc k div 2 = k div 2" by presburger+
      have "v ! k = a ! k" using v [OF len(2)] False by auto
      then have "addmodmult (v[k div 2 := v ! k] ! (k div 2)) (v[k div 2 := v ! k] ! k) (- r) p = (1 - r) * a ! (2 * (k div 2)) mod p"
        using kk(1) len by (auto simp: addmodmult_def nth_list_update algebra_simps)
      then show ?thesis using False len kk(2) v
        by (auto simp: P_def Let_def nth_list_update)
    qed
  qed simp
  then show ?thesis using assms by (simp add: P_def update_a_fast_def)
qed

lemma first_level_state:
  fixes r :: mpz_vec and p :: mpz
  assumes "length zs \<le> 2 ^ logn" and "j \<le> logn"
  defines "s \<equiv> fold (first_level_round r p) [0..<j] ([], zs @ replicate (2 ^ logn - length zs) 0, 2 ^ logn)"
  shows "length (fst s) = j \<and> length (fst (snd s)) = 2 ^ logn \<and> snd (snd s) = 2 ^ (logn - j) \<and>
    (\<forall>i < 2 ^ (logn - j). fst (snd s) ! i mod p = partial_mle zs ((!) r) j i mod p) \<and>
    (j = logn \<longrightarrow> 0 < logn \<longrightarrow> fst (fst s ! (logn - 1)) = partial_mle zs ((!) r) (logn - 1) 0 mod p \<and>
       snd (fst s ! (logn - 1)) = partial_mle zs ((!) r) (logn - 1) 1 mod p)"
  using assms(2) unfolding s_def
proof (induction j)
  case 0
  have "(zs @ replicate (2 ^ logn - length zs) 0) ! i = at0 zs i" if "i < 2 ^ logn" for i
    using that assms(1) by (auto simp: at0_def nth_append)
  then show ?case using assms(1) by simp
next
  case (Suc j)
  obtain y a n where st: "fold (first_level_round r p) [0..<j] ([], zs @ replicate (2 ^ logn - length zs) 0, 2 ^ logn) = (y, a, n)"
    by (metis surj_pair)
  have IH: "length y = j" "length a = 2 ^ logn" "n = 2 ^ (logn - j)" "\<And>i. i < n \<Longrightarrow> a ! i mod p = partial_mle zs ((!) r) j i mod p"
    using Suc.IH Suc.prems by (simp_all add: st)
  have n: "n = 2 * 2 ^ (logn - Suc j)" using IH(3) Suc.prems by (metis Suc_diff_Suc Suc_le_lessD power_Suc)
  have nl: "even n" "n \<le> length a" "n div 2 = 2 ^ (logn - Suc j)" using n IH(2,3) power_increasing [of "logn - j" logn "2 :: nat"] by simp_all
  have ys: "fold (\<lambda>k (y0, y1). (y0 + a ! (2 * k), y1 + a ! (2 * k + 1))) [0..<m] (0, 0) =
      ((\<Sum>k < m. a ! (2 * k)), (\<Sum>k < m. a ! (2 * k + 1)))" for m by (induction m) auto
  have step: "fold (first_level_round r p) [0..<Suc j] ([], zs @ replicate (2 ^ logn - length zs) 0, 2 ^ logn) =
      (y @ [((\<Sum>k < n div 2. a ! (2 * k)) mod p, (\<Sum>k < n div 2. a ! (2 * k + 1)) mod p)], update_a_fast n (r ! j) a p, n div 2)"
    using ys [of "n div 2"] by (simp add: st first_level_round_def)
  have upd: "update_a_fast n (r ! j) a p ! i mod p = partial_mle zs ((!) r) (Suc j) i mod p" if "i < n div 2" for i
  proof -
    have "update_a_fast n (r ! j) a p ! i mod p = ((1 - r ! j) * a ! (2 * i) + r ! j * a ! (2 * i + 1)) mod p"
      using update_a_fast_nth [OF nl(1,2) that] by simp
    also have "\<dots> = ((1 - r ! j) * partial_mle zs ((!) r) j (2 * i) + r ! j * partial_mle zs ((!) r) j (2 * i + 1)) mod p"
      by (intro mod_add_cong mod_mult_cong refl IH(4)) (use that n in linarith)+
    finally show ?thesis by (simp only: partial_mle_Suc)
  qed
  have "length (update_a_fast n (r ! j) a p) = length a" using update_a_fast_nth [OF nl(1,2), of 0] nl(3) by simp
  moreover have "(\<Sum>k < n div 2. a ! (2 * k)) mod p = partial_mle zs ((!) r) j 0 mod p"
    "(\<Sum>k < n div 2. a ! (2 * k + 1)) mod p = partial_mle zs ((!) r) j 1 mod p" if "Suc j = logn"
    using IH(4) [of 0] IH(4) [of 1] n that by simp_all
  ultimately show ?case unfolding step using upd IH(1,2) nl(3) by (auto simp: nth_append)
qed

text \<open>C25: The value that \<^verbatim>\<open>check_first_level\<close> hands to the first sum-check is the layer's extension at the point it drew.\<close>

theorem check_first_level_extension:
  assumes p: "1 < p" and zs: "zs \<noteq> []"
  shows "fst (check_first_level zs (log2i (length zs)) r zi p) = evaluate_V_i zs r p"
proof -
  let ?m = "log2i (length zs)"
  have len: "length zs \<le> 2 ^ ?m" by (rule le_two_power_log2i)
  have m: "0 < ?m" using zs by (simp add: log2i_pos)
  then obtain k where k: "?m = Suc k" by (cases ?m) auto
  obtain y a n where st: "fold (first_level_round r p) [0..<?m] ([], zs @ replicate (2 ^ ?m - length zs) 0, 2 ^ ?m) = (y, a, n)"
    by (metis surj_pair)
  have y: "fst (y ! k) = partial_mle zs ((!) r) k 0 mod p" "snd (y ! k) = partial_mle zs ((!) r) k 1 mod p"
    using first_level_state [OF len order.refl, of r p] m unfolding st by (simp_all add: k)
  have "fst (check_first_level zs ?m r zi p) = addmodmult (snd (y ! k) * r ! k) (fst (y ! k)) (1 - r ! k) p"
    by (simp add: check_first_level_def st one_sub_def Let_def) (simp add: k Let_def)
  also have "\<dots> = (r ! k * snd (y ! k) + (1 - r ! k) * fst (y ! k)) mod p" by (simp add: addmodmult_def mult.commute)
  also have "\<dots> = (r ! k * partial_mle zs ((!) r) k 1 + (1 - r ! k) * partial_mle zs ((!) r) k 0) mod p"
    unfolding y by (intro mod_add_cong mod_mult_cong) simp_all
  also have "\<dots> = partial_mle zs ((!) r) ?m 0 mod p" unfolding k partial_mle_Suc by (simp add: add.commute)
  finally show ?thesis using partial_mle_full [OF len, of "(!) r"] by (simp add: evaluate_V_i_mle p)
qed

theorem check_first_level_extension_witness:
  "fst (check_first_level [4, 0, 6] 2 [3, 5] [0, 0] 7) = evaluate_V_i [4, 0, 6] [3, 5] 7"
proof -
  have "log2i (length [4, 0, 6 :: int]) = 2" by code_simp
  then show ?thesis using check_first_level_extension [of 7 "[4, 0, 6]" "[3, 5]" "[0, 0]"] by simp
qed

text \<open>With a negative second factor \<^verbatim>\<open>addmodmult_si\<close> negates the accumulator too, so a one-variable extension at a
  negative point has the sign of its first term wrong.\<close>

theorem mle_si_negative:
  assumes "pt < 0"
  shows "mle_si pt v0 v1 p = (pt * v1 - (1 - pt) * v0) mod p"
  using assms by (simp add: mle_si_def mulmle_si_def addmodmult_si_def mod_ops Let_def algebra_simps)

theorem mle_si_negative_witness: "mle_si (-1) 1 0 7 = 5 \<and> ((1 - (-1)) * 1 + (-1) * 0) mod 7 = (2 :: int)"
proof
  show "mle_si (-1) 1 0 7 = 5" using mle_si_negative [of "-1" 1 0 7] by simp
  show "((1 - (-1)) * 1 + (-1) * 0) mod 7 = (2 :: int)" by simp
qed

end
