(* ===== verification/Batch_Facts.thy ===== *)
theory Batch_Facts
  imports Circuit_Verifier
begin

text \<open>
  The batch and its distribution: the split over the provers is a partition, what is distributed comes back
  when gathered, copies stay in range, and a prover that gets no instance does not survive the start.
\<close>

lemma pstart_mono:
  assumes cs: "config_split conf" and "i < j" "j < numProvers conf"
  shows "pstart conf i + psize conf i \<le> pstart conf j"
proof -
  have "(\<Sum>k < Suc i. psize conf k) \<le> (\<Sum>k < j. psize conf k)" using assms(2) by (intro sum_mono2) auto
  then show ?thesis using assms by (simp add: config_split_def)
qed

text \<open>C22: Every instance of a batch is given to exactly one prover, and no prover gets more than one instance more than another.\<close>

theorem config_partition:
  assumes "0 < nProvers"
  shows "(\<forall>b < nBatch. \<exists>!pid. pid < nProvers \<and> pstart (new_CMTProtocolConfig nBatch nProvers) pid \<le> b \<and>
      b < pstart (new_CMTProtocolConfig nBatch nProvers) pid + psize (new_CMTProtocolConfig nBatch nProvers) pid) \<and>
    (\<forall>pid < nProvers. psize (new_CMTProtocolConfig nBatch nProvers) pid \<in> {nBatch div nProvers, nBatch div nProvers + 1})"
proof (intro conjI allI impI)
  let ?c = "new_CMTProtocolConfig nBatch nProvers"
  have cs: "config_split ?c" by (rule new_config_split [OF assms])
  fix b assume "b < nBatch"
  then obtain pid b' where pb: "pid < nProvers" "b' < psize ?c pid" "b = pstart ?c pid + b'"
    using config_covers [OF cs] by (metis numProvers_new vbatchSize_new)
  have "pid' = pid" if "pid' < nProvers" "pstart ?c pid' \<le> b" "b < pstart ?c pid' + psize ?c pid'" for pid'
    using pstart_mono [OF cs, of pid pid'] pstart_mono [OF cs, of pid' pid] pb that by (cases pid pid' rule: linorder_cases) auto
  then show "\<exists>!pid. pid < nProvers \<and> pstart ?c pid \<le> b \<and> b < pstart ?c pid + psize ?c pid"
    using pb by (intro ex1I [of _ pid]) auto
qed (auto simp: new_config_nth)

theorem config_partition_witness:
  "map (\<lambda>pid. (pstart (new_CMTProtocolConfig 7 3) pid, psize (new_CMTProtocolConfig 7 3) pid)) [0, 1, 2] = [(0, 3), (3, 2), (5, 2)] \<and>
   (\<exists>!pid. pid < 3 \<and> pstart (new_CMTProtocolConfig 7 3) pid \<le> 4 \<and> 4 < pstart (new_CMTProtocolConfig 7 3) pid + psize (new_CMTProtocolConfig 7 3) pid)"
proof
  show "map (\<lambda>pid. (pstart (new_CMTProtocolConfig 7 3) pid, psize (new_CMTProtocolConfig 7 3) pid)) [0, 1, 2] = [(0, 3), (3, 2), (5, 2)]"
    by code_simp
  show "\<exists>!pid. pid < 3 \<and> pstart (new_CMTProtocolConfig 7 3) pid \<le> 4 \<and> 4 < pstart (new_CMTProtocolConfig 7 3) pid + psize (new_CMTProtocolConfig 7 3) pid"
    using config_partition [of 3 7] by simp
qed

text \<open>C21: What the verifier distributes to the provers and gathers back unchanged is the vector it started from.\<close>

theorem gather_distribute:
  assumes cs: "config_split conf" and sz: "0 < sz" and len: "length xs = vbatchSize conf * sz" "length vec = vbatchSize conf * sz"
  shows "gather conf vec sz (map Some (distribute conf xs sz)) = Some xs"
proof -
  have parts: "length (distribute conf xs sz) = numProvers conf" by (simp add: distribute_def)
  have part: "distribute conf xs sz ! pid = take (psize conf pid * sz) (drop (pstart conf pid * sz) xs)"
    and pl: "length (distribute conf xs sz ! pid) = psize conf pid * sz" if pid: "pid < numProvers conf" for pid
  proof -
    show d: "distribute conf xs sz ! pid = take (psize conf pid * sz) (drop (pstart conf pid * sz) xs)"
      using pid by (simp add: distribute_def pstart_def psize_def Let_def)
    have "(pstart conf pid + psize conf pid) * sz \<le> length xs" unfolding len by (intro mult_le_mono1 config_end cs pid)
    then show "length (distribute conf xs sz ! pid) = psize conf pid * sz" by (simp add: d add_mult_distrib)
  qed
  from pl parts obtain out where out: "gather conf vec sz (map Some (distribute conf xs sz)) = Some out" "length out = length vec"
    "\<And>pid i. pid < numProvers conf \<Longrightarrow> i < psize conf pid * sz \<Longrightarrow>
       out ! (pstart conf pid * sz + i) = the (map Some (distribute conf xs sz) ! pid) ! i"
    by (elim gather_nth [OF cs sz len(2), rotated]) auto
  have "out ! k = xs ! k" if "k < length xs" for k
  proof -
    have "k div sz < vbatchSize conf" using that sz by (simp add: len(1) less_mult_imp_div_less)
    then obtain pid b where pb: "pid < numProvers conf" "b < psize conf pid" "k div sz = pstart conf pid + b"
      using config_covers [OF cs] by blast
    let ?i = "b * sz + k mod sz"
    have "k = k div sz * sz + k mod sz" by simp
    then have k: "k = pstart conf pid * sz + ?i" unfolding pb(3) by (simp add: add_mult_distrib)
    have i: "?i < psize conf pid * sz"
      using pb(2) sz mult_le_mono1 [of "Suc b" "psize conf pid" sz] mod_less_divisor [OF sz, of k] by simp
    show ?thesis using out(3) [OF pb(1) i] part [OF pb(1)] pb(1) i parts k that by simp
  qed
  then have "out = xs" using out(2) len by (intro nth_equalityI) auto
  with out(1) show ?thesis by simp
qed

theorem gather_distribute_witness:
  "gather (new_CMTProtocolConfig 3 2) [0, 0, 0, 0, 0, 0] 2 (map Some (distribute (new_CMTProtocolConfig 3 2) [1, 2, 3, 4, 5, 6 :: int] 2)) =
     Some [1, 2, 3, 4, 5, 6]"
  using gather_distribute [OF new_config_split, of 2 2 "[1, 2, 3, 4, 5, 6 :: int]" 3 "[0, 0, 0, 0, 0, 0]"] by simp

text \<open>A copy between vectors whose ranges exist replaces exactly the target range and keeps the length.\<close>

theorem vec_copy_range:
  assumes "startThis + n \<le> length this" and "startOther + n \<le> length other"
  shows "\<exists>v. vec_copy this other startOther n startThis = Some v \<and> length v = length this \<and>
    (\<forall>i < length this. v ! i = (if startThis \<le> i \<and> i < startThis + n then other ! (startOther + (i - startThis)) else this ! i))"
  using vec_copy_in_range [OF assms] assms by (auto simp: nth_append)

theorem vec_copy_range_witness:
  "\<exists>v. vec_copy [0, 0, 0, 0] [7, 8, 9 :: int] 1 2 1 = Some v \<and> length v = 4 \<and> v ! 2 = 9 \<and> v ! 3 = 0"
proof -
  obtain v where v: "vec_copy [0, 0, 0, 0] [7, 8, 9 :: int] 1 2 1 = Some v" "length v = 4"
    "\<And>i. i < 4 \<Longrightarrow> v ! i = (if 1 \<le> i \<and> i < 1 + 2 then [7, 8, 9] ! (1 + (i - 1)) else [0, 0, 0, 0 :: int] ! i)"
    using vec_copy_range [of 1 2 "[0, 0, 0, 0 :: int]" 1 "[7, 8, 9]"] by auto
  show ?thesis using v(1,2) v(3) [of 2] v(3) [of 3] by simp
qed

text \<open>A copy whose target start lies behind the end of the vector is not cut to length 0: the unsigned difference wraps
  around and the copy writes outside the array.\<close>

theorem vec_copy_underflow:
  assumes "length this < startThis" and "startThis \<le> 2 ^ 32" and "0 < n" "n < 2 ^ 32" and "startOther + n \<le> length other"
  shows "vec_copy this other startOther n startThis = None"
proof -
  have "n \<le> size_sub (length this) startThis" using assms by (simp add: size_sub_def)
  then have "min n (min (size_sub (length this) startThis) (size_sub (length other) startOther)) = n" using assms by simp
  then show ?thesis using assms by (simp add: vec_copy_def Let_def)
qed

theorem vec_copy_underflow_witness: "vec_copy [0 :: int] [7, 8] 0 2 2 = None"
  using vec_copy_underflow [of "[0 :: int]" 2 2 0 "[7, 8]"] by simp

text \<open>C30: With more provers than instances the provers left without one are configured with an empty batch and abort at the
  beginning of the protocol, where the code dereferences their first circuit.\<close>

theorem spare_prover_aborts:
  assumes "nBatch \<le> pid" and "pid < nProvers"
  defines "pc \<equiv> pConfs (new_CMTProtocolConfig nBatch nProvers) ! pid"
  shows "pmode (fst (cp_handle mpz_invert cls build (BEGIN_CMT p)
      (fst (cp_handle mpz_invert cls build (CONFIGURE (startInstance pc) (endInstance pc)) new_CircuitProver)))) = Aborted"
proof -
  have "nBatch div nProvers = 0" "\<not> pid < nBatch mod nProvers" using assms(1,2) by simp_all
  then have "psize (new_CMTProtocolConfig nBatch nProvers) pid = 0" using new_config_nth [OF assms(2)] by simp
  then have "endInstance pc \<le> startInstance pc" by (simp add: psize_def pbatchSize_def pc_def)
  then show ?thesis
    by (simp add: cp_handle_def handle_top_def new_CircuitProver_def initProtocol_def cp_batchSize_def pbatchSize_def Let_def)
qed

theorem spare_prover_aborts_witness:
  "pmode (fst (cp_handle mod_inverse (base_class mod_inverse) \<lparr>circ = \<lparr>layers = [], qData = [], zData = [], valid = True, cprime = 7\<rparr>,
      currentLevel = 0, inGates = [], outGates = [], magicGates = []\<rparr> (BEGIN_CMT 7)
      (fst (cp_handle mod_inverse (base_class mod_inverse) \<lparr>circ = \<lparr>layers = [], qData = [], zData = [], valid = True, cprime = 7\<rparr>,
      currentLevel = 0, inGates = [], outGates = [], magicGates = []\<rparr> (CONFIGURE 1 1) new_CircuitProver)))) = Aborted"
proof -
  have "pConfs (new_CMTProtocolConfig 1 2) ! 1 = \<lparr>startInstance = 1, endInstance = 1\<rparr>" by code_simp
  then show ?thesis using spare_prover_aborts [of 1 1 2] by simp
qed

end
