(* ===== verification/Sumcheck_Soundness.thy ===== *)
theory Sumcheck_Soundness
  imports Sumcheck_Honest
begin

text \<open>
  Soundness of the sum-check. A round catches a false claim for all but two coins of the field, when the
  polynomial is fixed before the coin is known. The protocol as written sends the coin with the request for
  the polynomial, and then a prover that reads it first is accepted with any claim.
\<close>

section \<open>One round\<close>

lemma polyfn_quadratic: "polyfn p 3 (\<lambda>x. (a + b * x) * ((c + d * x) * e))"
proof -
  have "polyfn p (Suc (Suc 1)) (\<lambda>x. (a + b * x) * ((c + d * x) * e))" by (intro polyfn_times_linear polyfn_const) simp
  then show ?thesis by (simp add: numeral_3_eq_3)
qed

text \<open>The quadratic through three values.\<close>

definition through3 :: "mpz \<Rightarrow> mpz \<Rightarrow> mpz \<Rightarrow> mpz \<Rightarrow> mpz \<Rightarrow> mpz" where
  "through3 p q0 q1 q2 x =
     (- 1 + 1 * x) * ((- 2 + 1 * x) * (q0 * ((p + 1) div 2))) + ((0 + 1 * x) * ((- 2 + 1 * x) * (- 2 * q1 * ((p + 1) div 2))) +
     (0 + 1 * x) * ((- 1 + 1 * x) * (q2 * ((p + 1) div 2))))"

lemma polyfn_through3: "polyfn p 3 (through3 p q0 q1 q2)"
  unfolding through3_def by (intro polyfn_add polyfn_quadratic)

lemma through3_nodes:
  assumes "prime_modulus p"
  shows "through3 p q0 q1 q2 0 mod p = q0 mod p" "through3 p q0 q1 q2 1 mod p = q1 mod p" "through3 p q0 q1 q2 2 mod p = q2 mod p"
proof -
  let ?h = "(p + 1) div 2"
  have h: "x * (2 * ?h) mod p = x mod p" for x using mod_mult_right_eq [of x "2 * ?h" p] inv2_mult [OF assms] by simp
  have "through3 p q0 q1 q2 0 = q0 * (2 * ?h)" "through3 p q0 q1 q2 1 = q1 * (2 * ?h)" "through3 p q0 q1 q2 2 = q2 * (2 * ?h)"
    by (simp_all add: through3_def)
  then show "through3 p q0 q1 q2 0 mod p = q0 mod p" "through3 p q0 q1 q2 1 mod p = q1 mod p" "through3 p q0 q1 q2 2 mod p = q2 mod p"
    using h by simp_all
qed

text \<open>C7: A round of the sum-check is sound when the coin comes last: if the claim about an instance is not the sum of the
  true polynomial and the prover's polynomial passes the check, at most two coins of the field lead to a true next claim.\<close>

theorem round_soundness:
  assumes p: "prime_modulus p" and b: "b < nBatch" and len: "length roundPoly = nBatch * 3"
    and chk: "round_check nBatch p ex roundPoly" and f: "polyfn p 3 f" and lie: "(f 0 + f 1) mod p \<noteq> ex ! b"
  shows "card {r \<in> {0..<p}. bary_extrap nBatch roundPoly (bary_precompute_weights3 r p) p ! b = f r mod p} \<le> 2"
proof (rule ccontr)
  let ?q = "\<lambda>i. roundPoly ! (b * 3 + i)"
  let ?g = "through3 p (?q 0) (?q 1) (?q 2)"
  let ?R = "{r \<in> {0..<p}. bary_extrap nBatch roundPoly (bary_precompute_weights3 r p) p ! b = f r mod p}"
  assume "\<not> card ?R \<le> 2"
  then have card: "3 \<le> card ?R" by simp
  have "drop (b * 3) roundPoly ! i mod p = ?g (int i) mod p" if "i < 3" for i
    using that through3_nodes [OF p] len slot_less [OF b that] by (auto simp: less_Suc_eq numeral_3_eq_3)
  then have ext: "bary_extrap nBatch roundPoly (bary_precompute_weights3 r p) p ! b = ?g r mod p" for r
    by (intro bary3_poly [OF p polyfn_through3 b])
  have "?g x mod p = f x mod p" for x
    by (rule polyfn_unique [OF p polyfn_through3 f, of ?R]) (use card ext in auto)
  then have "(f 0 + f 1) mod p = (?q 0 + ?q 1) mod p"
    using through3_nodes(1,2) [OF p, of "?q 0" "?q 1" "?q 2"] by (metis mod_add_cong)
  moreover have "ex ! b = (?q 0 + ?q 1) mod p"
    using chk b by (simp add: round_check_def list_all_iff modadd_def polySize_def)
  ultimately show False using lie by simp
qed

theorem round_soundness_witness:
  "card {r \<in> {0..<7}. bary_extrap 1 [3, 0, 4] (bary_precompute_weights3 r 7) 7 ! 0 = r * r mod 7} \<le> 2"
proof -
  have "round_check 1 7 [3] [3, 0, 4]" by code_simp
  from round_soundness [OF prime_modulus_7 _ _ this polyfn_square, of 0] show ?thesis by simp
qed

section \<open>A prover that reads the coin first\<close>

text \<open>The coin of a round arrives in the message that asks for its polynomial. The values below are those of a quadratic with
  the claimed sum that vanishes at the coin.\<close>

definition cheat_poly :: "(mpz \<Rightarrow> mpz \<Rightarrow> mpz) \<Rightarrow> mpz \<Rightarrow> mpz \<Rightarrow> mpz \<Rightarrow> mpz_vec" where
  "cheat_poly mpz_invert p r e =
     (if (r - 1) mod p = 0 then [e mod p, 0, (- e) mod p]
      else let c = - e * mpz_invert (r - 1) p in [0, e mod p, (2 * e + 2 * c) mod p])"

definition cheat_handle ::
  "(mpz \<Rightarrow> mpz \<Rightarrow> mpz) \<Rightarrow> cmt_msg \<Rightarrow> SumCheckVerifier \<times> mpz_vec \<Rightarrow> (SumCheckVerifier \<times> mpz_vec) \<times> mpz_vec option" where
  "cheat_handle mpz_invert msg s =
     (let (v, claims) = s
      in case msg of
           REQ_SC_POLY r \<Rightarrow> ((v, replicate (length claims) 0), Some (concat (map (cheat_poly mpz_invert (vprime v) r) claims)))
         | REQ_VS \<Rightarrow> (s, Some (replicate (length claims * 2) 0))
         | _ \<Rightarrow> (s, None))"

definition cheat_fin :: "(nat \<Rightarrow> mpz) \<Rightarrow> SumCheckVerifier \<times> mpz_vec \<Rightarrow> mpz \<Rightarrow> mpz \<Rightarrow> mpz" where
  "cheat_fin c s =
     (let v = fst s; rnd = map c [0..<v_numRounds v]; p = vprime v; w = computeWirePredicates (outLayer v) rnd (inSize v) p
      in final_value p (fst w) (snd w) (evaluate_beta (vz v) rnd (logSize (outLayer v)) p))"

definition cheat_inv :: "(nat \<Rightarrow> mpz) \<Rightarrow> nat \<Rightarrow> SumCheckVerifier \<times> mpz_vec \<Rightarrow> bool" where
  "cheat_inv c k s \<longleftrightarrow> prime_modulus (vprime (fst s)) \<and> 0 < v_numRounds (fst s) \<and>
     (0 < k \<longrightarrow> (\<forall>e \<in> set (snd s). e = 0))"

lemma length_cheat_poly [simp]: "length (cheat_poly mpz_invert p r e) = 3"
  by (simp add: cheat_poly_def Let_def)

lemma concat_blocks_nth:
  assumes "\<And>x. length (f x) = 3" and "b < length xs" and "i < 3"
  shows "concat (map f xs) ! (b * 3 + i) = f (xs ! b) ! i"
  using assms(2)
proof (induction xs arbitrary: b)
  case (Cons x xs)
  then show ?case using assms(1,3) by (cases b) (auto simp: nth_append)
qed simp

lemma cheat_poly_good:
  assumes inv: "gmp_invert mpz_invert" and p: "prime_modulus p"
  shows "\<exists>f. polyfn p 3 f \<and> (\<forall>i < 3. cheat_poly mpz_invert p r e ! i = f (int i) mod p) \<and> (f 0 + f 1) mod p = e mod p \<and> f r mod p = 0"
proof (cases "(r - 1) mod p = 0")
  case True
  let ?f = "\<lambda>x. (1 + (- 1) * x) * ((1 + 0 * x) * e)"
  have "?f r = - e * (r - 1)" by (simp add: algebra_simps)
  then have "?f r mod p = 0" using True by (metis mod_mult_right_eq mult_zero_right mod_0)
  moreover have "polyfn p 3 ?f" by (rule polyfn_quadratic)
  moreover have "\<forall>i < 3. cheat_poly mpz_invert p r e ! i = ?f (int i) mod p" using True by (auto simp: cheat_poly_def less_Suc_eq numeral_3_eq_3)
  ultimately show ?thesis by (intro exI [of _ ?f]) simp
next
  case False
  let ?c = "- e * mpz_invert (r - 1) p"
  let ?f = "\<lambda>x. (0 + 1 * x) * (((e - ?c) + ?c * x) * 1)"
  have "?f r = r * (e - e * ((r - 1) * mpz_invert (r - 1) p))" by (simp add: algebra_simps)
  moreover have "e * ((r - 1) * mpz_invert (r - 1) p) mod p = e mod p"
    using gmp_invert.mpz_invert_prime [OF inv p False] mod_mult_right_eq [of e "(r - 1) * mpz_invert (r - 1) p" p] by simp
  then have "(e - e * ((r - 1) * mpz_invert (r - 1) p)) mod p = 0" using mod_diff_cong [OF refl] by force
  ultimately have "?f r mod p = 0" by (metis mod_mult_right_eq mult_zero_right mod_0)
  moreover have "polyfn p 3 ?f" by (rule polyfn_quadratic)
  moreover have "\<forall>i < 3. cheat_poly mpz_invert p r e ! i = ?f (int i) mod p"
    using False by (auto simp: cheat_poly_def Let_def less_Suc_eq numeral_3_eq_3 algebra_simps)
  ultimately show ?thesis by (intro exI [of _ ?f]) simp
qed

locale coin_reader = gmp_invert
begin

sublocale sumcheck_prover "cheat_handle mpz_invert" cheat_inv "\<lambda>s. length (snd s)" "\<lambda>s. v_numRounds (fst s)" "\<lambda>s. vprime (fst s)"
  "\<lambda>s b. snd s ! b" cheat_fin fst
proof
  show "prime_modulus (vprime (fst s))" if "cheat_inv c k s" for c k s using that by (simp add: cheat_inv_def)
next
  fix c k s s' r
  assume I: "cheat_inv c k s" "k < v_numRounds (fst s)" "cheat_handle mpz_invert (REQ_SC_POLY (c k)) s = (s', r)"
  obtain v claims where s: "s = (v, claims)" by force
  have s': "s' = (v, replicate (length claims) 0)" "r = Some (concat (map (cheat_poly mpz_invert (vprime v) (c k)) claims))"
    using I(3) by (simp_all add: cheat_handle_def s)
  have p: "prime_modulus (vprime v)" using I(1) by (simp add: cheat_inv_def s)
  have len: "length (concat (map (cheat_poly mpz_invert (vprime v) (c k)) cs)) = length cs * 3" for cs by (induction cs) auto
  have "good_answer (vprime v) (length claims) (c k) (concat (map (cheat_poly mpz_invert (vprime v) (c k)) claims))
      ((!) claims) ((!) (replicate (length claims) 0))"
    unfolding good_answer_def
  proof (intro conjI allI impI)
    fix b assume b: "b < length claims"
    show "\<exists>f. polyfn (vprime v) 3 f \<and> (\<forall>i < 3. concat (map (cheat_poly mpz_invert (vprime v) (c k)) claims) ! (b * 3 + i) = f (int i) mod vprime v) \<and>
        (f 0 + f 1) mod vprime v = claims ! b mod vprime v \<and> replicate (length claims) 0 ! b mod vprime v = f (c k) mod vprime v"
      using cheat_poly_good [OF gmp_invert_axioms p, of "c k" "claims ! b"] b by (simp add: concat_blocks_nth)
  qed (rule len)
  then show "cheat_inv c (Suc k) s' \<and> length (snd s') = length (snd s) \<and> v_numRounds (fst s') = v_numRounds (fst s) \<and>
      vprime (fst s') = vprime (fst s) \<and> cheat_fin c s' = cheat_fin c s \<and> fst s' = fst s \<and>
      (\<exists>q. r = Some q \<and> good_answer (vprime (fst s)) (length (snd s)) (c k) q ((!) (snd s)) ((!) (snd s')))"
    using I(1) s s' by (simp add: cheat_inv_def cheat_fin_def)
next
  fix c s s' r
  assume I: "cheat_inv c (v_numRounds (fst s)) s" and h: "cheat_handle mpz_invert REQ_VS s = (s', r)"
  have "\<forall>b < length (snd s). snd s ! b = 0" using I by (simp add: cheat_inv_def)
  then show "\<exists>vs. r = Some vs \<and> length vs = length (snd s) * 2 \<and>
      (\<forall>b < length (snd s). snd s ! b mod vprime (fst s) = cheat_fin c s (vs ! (2 * b)) (vs ! (2 * b + 1)) mod vprime (fst s))"
    using h by (cases s) (auto simp: cheat_handle_def cheat_fin_def final_value_def modmult_def Let_def)
qed

lemmas reader_accepts = v_run_accepts

end

interpretation euclid_cheater: coin_reader mod_inverse
  by (rule coin_reader.intro) (rule euclid.gmp_invert_axioms)

text \<open>C8: The verifier sends a round's coin before it has the round's polynomial, and provers that use this are accepted for
  every claimed sum, whatever the circuit.\<close>

theorem coin_first_unsound:
  assumes inv: "gmp_invert mpz_invert" and p: "prime_modulus (vprime v)" and cs: "config_split (vconf v)"
    and B: "0 < vbatchSize (vconf v)" and R: "0 < v_numRounds v" and ts: "length (trueSums v) = vbatchSize (vconf v)"
    and range: "\<forall>b < vbatchSize (vconf v). trueSums v ! b \<in> {0..<vprime v}"
  shows "\<exists>results nets'. v_run (cheat_handle mpz_invert) v c
      (map (\<lambda>pid. (v, share (vconf v) (trueSums v) pid)) [0..<numProvers (vconf v)]) = Some (results, nets') \<and> success results"
proof -
  let ?conf = "vconf v"
  let ?nets = "map (\<lambda>pid. (v, share ?conf (trueSums v) pid)) [0..<numProvers ?conf]"
  have start: "cheat_inv c 0 (?nets ! pid) \<and> length (snd (?nets ! pid)) = psize ?conf pid \<and>
      v_numRounds (fst (?nets ! pid)) = v_numRounds v \<and> vprime (fst (?nets ! pid)) = vprime v \<and>
      (\<forall>b < psize ?conf pid. trueSums v ! (pstart ?conf pid + b) = snd (?nets ! pid) ! b mod vprime v)"
    if pid: "pid < numProvers ?conf" for pid
    using pid p R range config_end [OF cs pid] share_nth [OF cs pid ts] by (simp add: cheat_inv_def)
  have W: "final_value (vprime v) (fst (computeWirePredicates (outLayer v) (map c [0..<v_numRounds v]) (inSize v) (vprime v)))
        (snd (computeWirePredicates (outLayer v) (map c [0..<v_numRounds v]) (inSize v) (vprime v)))
        (evaluate_beta (vz v) (map c [0..<v_numRounds v]) (logSize (outLayer v)) (vprime v)) v1 v2 =
      cheat_fin c (?nets ! pid) v1 v2 mod vprime v" if "pid < numProvers ?conf" for pid v1 v2
    using that by (simp add: cheat_fin_def Let_def final_value_def modmult_def)
  from coin_reader.reader_accepts [OF coin_reader.intro [OF inv] cs B _ ts start W] show ?thesis by auto
qed

definition lying_verifier :: SumCheckVerifier where
  "lying_verifier = \<lparr>vconf = new_CMTProtocolConfig 1 1, inSize = 2,
     outLayer = \<lparr>gates = [\<lparr>gtype = ADD, in1 = 0, in2 = 1\<rparr>], add_fn = None, mul_fn = None\<rparr>, vz = [3], trueSums = [5], vprime = 7\<rparr>"

theorem coin_first_unsound_witness:
  "\<exists>results nets'. v_run (cheat_handle mod_inverse) lying_verifier (\<lambda>i. 4 + int i) [(lying_verifier, [5])] = Some (results, nets') \<and> success results"
proof -
  have "share (vconf lying_verifier) (trueSums lying_verifier) 0 = [5]" "numProvers (vconf lying_verifier) = 1" by code_simp+
  moreover have "config_split (vconf lying_verifier)" by (simp add: lying_verifier_def new_config_split)
  moreover have "0 < v_numRounds lying_verifier" by code_simp
  ultimately show ?thesis
    using coin_first_unsound [of mod_inverse lying_verifier "\<lambda>i. 4 + int i", OF euclid.gmp_invert_axioms] prime_modulus_7
    by (simp add: lying_verifier_def)
qed

end
