(* ===== verification/Circuit_Data.thy ===== *)
theory Circuit_Data
  imports Circuit Mpn_Vector
begin

text \<open>
  The store behind the gate values, \<^verbatim>\<open>circuit/circuit_data.cpp\<close>: a queue of layers in memory, older ones moved to files when
  the memory exceeds a budget. The size of a layer is estimated from four random gates, of which only the last counts. The
  environment has the draws, the size of a value and which files can be opened for writing; \<open>files\<close> maps the
  number in a file's name to the numbers it holds. A read or a write that fails half way is not modelled. \<open>None\<close>
  is a failed \<^verbatim>\<open>assert\<close>.
\<close>

section \<open>Layers\<close>

record 'a LayerData =
  ld_index :: nat
  ld_gates :: "'a list"
  isDirty :: bool

type_synonym 'a files = "nat \<Rightarrow> 'a list option"

record 'a paging_env =
  value_size :: "'a \<Rightarrow> nat"
  rng :: "nat \<Rightarrow> nat"
  can_write :: "nat \<Rightarrow> bool"

definition new_LayerData :: "nat \<Rightarrow> 'a LayerData" where
  "new_LayerData layerIdx = \<lparr>ld_index = layerIdx, ld_gates = [], isDirty = False\<rparr>"

text \<open>\<^verbatim>\<open>sizeOf\<close> of an \<^verbatim>\<open>mpz_t\<close>, and of an \<^verbatim>\<open>mpq_t\<close>: \<^verbatim>\<open>mpq_numref\<close> and \<^verbatim>\<open>mpq_denref\<close> are pointers, so the overload for
  them is the generic one and each counts 8 bytes.\<close>

definition sizeOf_z :: "mpz \<Rightarrow> nat" where
  "sizeOf_z val = mpz_sizeinbase2 val div 8 + 16"

definition sizeOf_q :: "rat \<Rightarrow> nat" where
  "sizeOf_q val = 8 + 8"

definition ld_save :: "'a paging_env \<Rightarrow> 'a LayerData \<Rightarrow> 'a files \<Rightarrow> 'a files \<times> bool" where
  "ld_save env ld fs =
     (if isDirty ld
      then if can_write env (ld_index ld) then (fs(ld_index ld := Some (ld_gates ld)), True) else (fs, False)
      else (fs, True))"

definition ld_load :: "'a files \<Rightarrow> 'a LayerData \<Rightarrow> 'a LayerData \<times> bool" where
  "ld_load fs ld =
     (case fs (ld_index ld) of
        None \<Rightarrow> (ld, False)
      | Some xs \<Rightarrow> (ld\<lparr>ld_gates := xs, isDirty := False\<rparr>, True))"

definition tryLoad :: "'a :: zero files \<Rightarrow> nat \<Rightarrow> 'a LayerData \<Rightarrow> 'a LayerData" where
  "tryLoad fs sz ld = (let (ld, ok) = ld_load fs ld in if ok then ld else ld\<lparr>ld_gates := replicate sz 0\<rparr>)"

definition dataSize :: "'a paging_env \<Rightarrow> nat \<Rightarrow> 'a LayerData \<Rightarrow> nat" where
  "dataSize env k ld =
     (let n = length (ld_gates ld); numSamples = 4;
          avg = (if n > 0
                 then fold (\<lambda>i avg. of_nat (value_size env (ld_gates ld ! (rng env (k + i) mod n)))) [0..<numSamples] 0 / of_nat numSamples
                 else 0 :: rat)
      in nat \<lfloor>avg * of_nat n\<rfloor> + 8)"

definition draws_used :: "'a LayerData \<Rightarrow> nat" where
  "draws_used ld = (if length (ld_gates ld) > 0 then 4 else 0)"

section \<open>The queue\<close>

record 'a CircuitData =
  cd_layers :: "'a LayerData list"
  layerSizes :: "nat list"
  budget :: nat
  usage :: nat
  draws :: nat
  files :: "'a files"

definition new_CircuitData :: "nat \<Rightarrow> nat list \<Rightarrow> 'a CircuitData" where
  "new_CircuitData memBudget sizes =
     \<lparr>cd_layers = [], layerSizes = sizes, budget = memBudget, usage = 0, draws = 0, files = (\<lambda>_. None)\<rparr>"

definition setBudget :: "nat \<Rightarrow> 'a CircuitData \<Rightarrow> 'a CircuitData" where
  "setBudget newBudget c = c\<lparr>budget := newBudget\<rparr>"

definition setSizes :: "nat list \<Rightarrow> 'a CircuitData \<Rightarrow> 'a CircuitData" where
  "setSizes newSizes c = c\<lparr>layerSizes := newSizes\<rparr>"

definition cd_save :: "'a paging_env \<Rightarrow> 'a CircuitData \<Rightarrow> 'a CircuitData \<times> bool" where
  "cd_save env c =
     (let (fs, success) = fold (\<lambda>ld (fs, success). let (fs, ok) = ld_save env ld fs in (fs, ok \<and> success)) (cd_layers c) (files c, True)
      in (c\<lparr>files := fs\<rparr>, success))"

definition updateUsage :: "'a paging_env \<Rightarrow> 'a CircuitData \<Rightarrow> 'a CircuitData" where
  "updateUsage env c =
     fold (\<lambda>ld c. c\<lparr>usage := usage c + dataSize env (draws c) ld, draws := draws c + draws_used ld\<rparr>) (cd_layers c) (c\<lparr>usage := 0\<rparr>)"

definition shouldEvict :: "bool \<Rightarrow> 'a CircuitData \<Rightarrow> bool" where
  "shouldEvict evictToAdd c =
     (let minNumLayers = (if evictToAdd then 1 else 2) in minNumLayers < length (cd_layers c) \<and> usage c > budget c)"

text \<open>One pass of the eviction loop; the estimate is drawn anew for the assertion and for the subtraction.\<close>

definition evict_front :: "'a paging_env \<Rightarrow> 'a CircuitData \<Rightarrow> 'a CircuitData option" where
  "evict_front env c =
     (let ld = hd (cd_layers c); k = draws c; k' = k + draws_used ld
      in if usage c < dataSize env k ld then None
         else Some (c\<lparr>files := fst (ld_save env ld (files c)), usage := size_sub (usage c) (dataSize env k' ld),
                      draws := k' + draws_used ld, cd_layers := tl (cd_layers c)\<rparr>))"

lemma evict_front_length: "evict_front env c = Some c' \<Longrightarrow> cd_layers c' = tl (cd_layers c)"
  by (auto simp: evict_front_def Let_def split: if_splits)

function evict :: "'a paging_env \<Rightarrow> 'a CircuitData \<Rightarrow> 'a CircuitData option" where
  "evict env c = (if shouldEvict True c then case evict_front env c of None \<Rightarrow> None | Some c' \<Rightarrow> evict env c' else Some c)"
  by pat_completeness auto
termination
  by (relation "measure (\<lambda>(env, c). length (cd_layers c))") (auto simp: shouldEvict_def Let_def dest: evict_front_length)

declare evict.simps [simp del]

definition cd_load :: "'a :: zero paging_env \<Rightarrow> nat \<Rightarrow> 'a CircuitData \<Rightarrow> 'a CircuitData option" where
  "cd_load env layerIdx c =
     (if layerIdx < length (layerSizes c)
      then map_option (\<lambda>c.
             let newLayer = tryLoad (files c) (layerSizes c ! layerIdx) (new_LayerData layerIdx)
             in c\<lparr>cd_layers := cd_layers c @ [newLayer], usage := usage c + dataSize env (draws c) newLayer,
                  draws := draws c + draws_used newLayer\<rparr>)
           (evict env (updateUsage env c))
      else None)"

definition cd_access :: "'a :: zero paging_env \<Rightarrow> nat \<Rightarrow> 'a CircuitData \<Rightarrow> 'a CircuitData option" where
  "cd_access env layerIdx c =
     (if layerIdx < length (layerSizes c)
      then if list_ex (\<lambda>ld. ld_index ld = layerIdx) (cd_layers c) then Some c else cd_load env layerIdx c
      else None)"

text \<open>\<^verbatim>\<open>data[layerIdx][gateIdx]\<close> as a value and as the target of an assignment; both go through the operator that marks
  the layer dirty.\<close>

definition in_layer :: "nat \<Rightarrow> ('a LayerData \<Rightarrow> 'a LayerData) \<Rightarrow> 'a CircuitData \<Rightarrow> 'a CircuitData" where
  "in_layer i f c = c\<lparr>cd_layers := map (\<lambda>ld. if ld_index ld = i then f ld else ld) (cd_layers c)\<rparr>"

definition cd_get :: "'a :: zero paging_env \<Rightarrow> nat \<Rightarrow> nat \<Rightarrow> 'a CircuitData \<Rightarrow> ('a \<times> 'a CircuitData) option" where
  "cd_get env i g c =
     Option.bind (cd_access env i c) (\<lambda>c.
       case find (\<lambda>ld. ld_index ld = i) (cd_layers c) of None \<Rightarrow> None
       | Some ld \<Rightarrow> if g < length (ld_gates ld) then Some (ld_gates ld ! g, in_layer i (\<lambda>ld. ld\<lparr>isDirty := True\<rparr>) c) else None)"

definition cd_put :: "'a :: zero paging_env \<Rightarrow> nat \<Rightarrow> nat \<Rightarrow> 'a \<Rightarrow> 'a CircuitData \<Rightarrow> 'a CircuitData option" where
  "cd_put env i g v c =
     map_option (\<lambda>(_, c). in_layer i (\<lambda>ld. ld\<lparr>ld_gates := (ld_gates ld)[g := v]\<rparr>) c) (cd_get env i g c)"

end
