(* ===== verification/Paging.thy ===== *)
theory Paging
  imports Circuit_Data
begin

text \<open>
  The paged store is transparent. \<open>view\<close> forgets where a layer lives; \<open>layer_store\<close> is what a client of a store of
  layers relies on, and both the paged store and the plain lists of the circuit model meet it.
\<close>

section \<open>What the store holds\<close>

definition on_disk :: "'a :: zero CircuitData \<Rightarrow> nat \<Rightarrow> 'a list" where
  "on_disk c i = (case files c i of Some xs \<Rightarrow> xs | None \<Rightarrow> replicate (layerSizes c ! i) 0)"

definition view :: "'a :: zero CircuitData \<Rightarrow> nat \<Rightarrow> 'a list" where
  "view c i = (case find (\<lambda>ld. ld_index ld = i) (cd_layers c) of Some ld \<Rightarrow> ld_gates ld | None \<Rightarrow> on_disk c i)"

definition cd_inv :: "'a :: zero CircuitData \<Rightarrow> bool" where
  "cd_inv c \<longleftrightarrow> distinct (map ld_index (cd_layers c)) \<and>
     (\<forall>ld \<in> set (cd_layers c). isDirty ld \<or> ld_gates ld = on_disk c (ld_index ld))"

definition holds_same :: "'a :: zero CircuitData \<Rightarrow> 'a CircuitData \<Rightarrow> bool" where
  "holds_same c c' \<longleftrightarrow> cd_inv c' \<and> view c' = view c \<and> layerSizes c' = layerSizes c"

lemma holds_same_trans: "holds_same c c' \<Longrightarrow> holds_same c' c'' \<Longrightarrow> holds_same c c''"
  by (simp add: holds_same_def)

lemma find_index_None: "find (\<lambda>ld. ld_index ld = i) xs = None \<longleftrightarrow> i \<notin> ld_index ` set xs"
  by (auto simp: find_None_iff)

lemma find_append: "find P (xs @ ys) = (case find P xs of None \<Rightarrow> find P ys | Some x \<Rightarrow> Some x)"
  by (induction xs) auto

lemma on_disk_cong: "files c' = files c \<Longrightarrow> layerSizes c' = layerSizes c \<Longrightarrow> on_disk c' = on_disk c"
  by (intro ext) (simp add: on_disk_def split: option.split)

text \<open>Fields the view does not read.\<close>

lemma view_cong:
  assumes "cd_layers c' = cd_layers c" "files c' = files c" "layerSizes c' = layerSizes c"
  shows "view c' = view c \<and> cd_inv c' = cd_inv c"
proof -
  have "on_disk c' = on_disk c" using assms(2,3) by (rule on_disk_cong)
  then show ?thesis using assms by (intro conjI ext) (simp_all add: view_def cd_inv_def split: option.split)
qed

definition add_usage :: "'a paging_env \<Rightarrow> 'a LayerData \<Rightarrow> 'a CircuitData \<Rightarrow> 'a CircuitData" where
  "add_usage env ld c = c\<lparr>usage := usage c + dataSize env (draws c) ld, draws := draws c + draws_used ld\<rparr>"

lemma updateUsage_fold: "updateUsage env c = fold (add_usage env) (cd_layers c) (c\<lparr>usage := 0\<rparr>)"
  by (simp add: updateUsage_def add_usage_def [abs_def])

lemma updateUsage_fields:
  "cd_layers (updateUsage env c) = cd_layers c" "files (updateUsage env c) = files c" "layerSizes (updateUsage env c) = layerSizes c"
  "budget (updateUsage env c) = budget c"
proof -
  have "cd_layers (fold (add_usage env) xs c) = cd_layers c \<and> files (fold (add_usage env) xs c) = files c \<and>
    layerSizes (fold (add_usage env) xs c) = layerSizes c \<and> budget (fold (add_usage env) xs c) = budget c" for xs c
    by (induction xs arbitrary: c) (auto simp: add_usage_def)
  then show "cd_layers (updateUsage env c) = cd_layers c" "files (updateUsage env c) = files c" "layerSizes (updateUsage env c) = layerSizes c"
    "budget (updateUsage env c) = budget c" by (simp_all add: updateUsage_fold)
qed

section \<open>Eviction and loading\<close>

lemma evict_front_same:
  assumes "evict_front env c = Some c'" and "cd_layers c \<noteq> []" and I: "cd_inv c" and W: "\<forall>i. can_write env i"
  shows "holds_same c c'"
proof -
  obtain ld rest where l: "cd_layers c = ld # rest" using assms(2) by (cases "cd_layers c") auto
  have c': "cd_layers c' = rest" "layerSizes c' = layerSizes c" "files c' = (if isDirty ld then (files c)(ld_index ld := Some (ld_gates ld)) else files c)"
    using assms(1) W l by (auto simp: evict_front_def Let_def ld_save_def split: if_splits)
  have D: "on_disk c' i = (if i = ld_index ld then ld_gates ld else on_disk c i)" for i
    using c' I l by (auto simp: on_disk_def cd_inv_def split: option.splits)
  have new: "ld_index ld \<notin> ld_index ` set rest" "distinct (map ld_index rest)" using I l by (auto simp: cd_inv_def)
  have "view c' i = view c i" for i
  proof (cases "i = ld_index ld")
    case True
    then have "find (\<lambda>ld. ld_index ld = i) rest = None" using new(1) by (simp add: find_index_None)
    then show ?thesis using True by (simp add: view_def c'(1) l D)
  qed (auto simp: view_def c'(1) l D split: option.split)
  moreover have "isDirty x \<or> ld_gates x = on_disk c' (ld_index x)" if "x \<in> set rest" for x
  proof -
    have "ld_index x \<noteq> ld_index ld" using new(1) that by (metis imageI)
    then show ?thesis using I l that unfolding D by (simp add: cd_inv_def)
  qed
  then have "cd_inv c'" using new c'(1) by (simp add: cd_inv_def)
  ultimately show ?thesis using c'(2) by (auto simp: holds_same_def)
qed

lemma evict_same:
  assumes "evict env c = Some c'" and "cd_inv c" and W: "\<forall>i. can_write env i"
  shows "holds_same c c' \<and> (\<exists>xs. cd_layers c = xs @ cd_layers c')"
  using assms
proof (induction env c rule: evict.induct)
  case (1 env c)
  show ?case
  proof (cases "shouldEvict True c")
    case True
    then obtain c1 where c1: "evict_front env c = Some c1" "evict env c1 = Some c'"
      using "1.prems"(1) by (auto simp: evict.simps [of env c] split: option.splits)
    have ne: "cd_layers c \<noteq> []" using True by (auto simp: shouldEvict_def Let_def)
    have S: "holds_same c c1" by (rule evict_front_same [OF c1(1) ne "1.prems"(2,3)])
    then have "holds_same c1 c' \<and> (\<exists>xs. cd_layers c1 = xs @ cd_layers c')" using "1.IH" [OF True c1] "1.prems"(3) by (simp add: holds_same_def)
    moreover have "cd_layers c = [hd (cd_layers c)] @ cd_layers c1" using ne evict_front_length [OF c1(1)] by simp
    ultimately show ?thesis using S holds_same_trans by (metis append.assoc)
  qed (use 1 in \<open>auto simp: evict.simps [of env c] holds_same_def\<close>)
qed

lemma tryLoad_simps:
  "ld_gates (tryLoad (files c) (layerSizes c ! i) (new_LayerData i)) = on_disk c i"
  "ld_index (tryLoad (files c) (layerSizes c ! i) (new_LayerData i)) = i"
  "\<not> isDirty (tryLoad (files c) (layerSizes c ! i) (new_LayerData i))"
  by (simp_all add: tryLoad_def ld_load_def new_LayerData_def on_disk_def split: option.split)

lemma cd_access_same:
  assumes A: "cd_access env i c = Some c'" and I: "cd_inv c" and W: "\<forall>i. can_write env i"
  shows "holds_same c c' \<and> (\<exists>ld. find (\<lambda>ld. ld_index ld = i) (cd_layers c') = Some ld \<and> ld_gates ld = view c i)"
proof (cases "list_ex (\<lambda>ld. ld_index ld = i) (cd_layers c)")
  case True
  then have "c' = c" using A by (auto simp: cd_access_def split: if_splits)
  moreover have "find (\<lambda>ld. ld_index ld = i) (cd_layers c) \<noteq> None" using True unfolding find_index_None by (auto simp: list_ex_iff)
  ultimately show ?thesis using I by (auto simp: holds_same_def view_def)
next
  case False
  let ?u = "updateUsage env c" and ?new = "\<lambda>c. tryLoad (files c) (layerSizes c ! i) (new_LayerData i)"
  obtain c1 where c1: "evict env ?u = Some c1" "cd_layers c' = cd_layers c1 @ [?new c1]" "files c' = files c1" "layerSizes c' = layerSizes c1"
    using A False by (auto simp: cd_access_def cd_load_def Let_def split: if_splits)
  have U: "view ?u = view c \<and> cd_inv ?u = cd_inv c" by (rule view_cong) (simp_all add: updateUsage_fields)
  have E: "holds_same ?u c1" "\<exists>xs. cd_layers ?u = xs @ cd_layers c1" using evict_same [OF c1(1) _ W] U I by auto
  then have fresh: "i \<notin> ld_index ` set (cd_layers c1)" using False by (auto simp: list_ex_iff updateUsage_fields)
  then have f: "find (\<lambda>ld. ld_index ld = i) (cd_layers c1) = None" by (simp add: find_index_None)
  have D: "on_disk c' = on_disk c1" using c1(3,4) by (rule on_disk_cong)
  define n where "n = ?new c1"
  have n: "ld_gates n = on_disk c1 i" "ld_index n = i" "\<not> isDirty n" unfolding n_def by (rule tryLoad_simps)+
  note c2 = c1(2) [folded n_def]
  have "view c' k = view c1 k" for k using f by (auto simp: view_def c2 find_append D n split: option.split)
  moreover have "cd_inv c1" using E(1) by (simp add: holds_same_def)
  then have "cd_inv c'" using fresh by (auto simp: cd_inv_def c2 D n)
  moreover have "find (\<lambda>ld. ld_index ld = i) (cd_layers c') = Some n" "ld_gates n = view c1 i"
    using f by (simp_all add: c2 find_append n view_def)
  ultimately show ?thesis using E(1) U c1(4) by (auto simp: holds_same_def updateUsage_fields)
qed

section \<open>Reading and writing\<close>

lemma find_in_layer:
  assumes "\<And>ld. ld_index (f ld) = ld_index ld"
  shows "find (\<lambda>ld. ld_index ld = k) (cd_layers (in_layer i f c)) =
    map_option (\<lambda>ld. if k = i then f ld else ld) (find (\<lambda>ld. ld_index ld = k) (cd_layers c))"
proof -
  have "find (\<lambda>ld. ld_index ld = k) (map (\<lambda>ld. if ld_index ld = i then f ld else ld) xs) =
      map_option (\<lambda>ld. if k = i then f ld else ld) (find (\<lambda>ld. ld_index ld = k) xs)" for xs
    by (induction xs) (auto simp: assms)
  then show ?thesis by (simp add: in_layer_def)
qed

lemma in_layer_inv:
  assumes "cd_inv c" and "\<And>ld. ld_index (f ld) = ld_index ld" and "\<And>ld. ld \<in> set (cd_layers c) \<Longrightarrow> ld_index ld = i \<Longrightarrow> isDirty (f ld)"
  shows "cd_inv (in_layer i f c)"
proof -
  have M: "map ld_index (cd_layers (in_layer i f c)) = map ld_index (cd_layers c)" by (simp add: in_layer_def assms(2))
  have D: "on_disk (in_layer i f c) = on_disk c" by (rule on_disk_cong) (simp_all add: in_layer_def)
  show ?thesis using assms(1,3) unfolding cd_inv_def M D by (simp add: in_layer_def ball_Un)
qed

lemma view_in_layer:
  assumes "\<And>ld. ld_index (f ld) = ld_index ld" and "find (\<lambda>ld. ld_index ld = i) (cd_layers c) = Some ld"
  shows "view (in_layer i f c) = (view c)(i := ld_gates (f ld))"
proof -
  have "on_disk (in_layer i f c) = on_disk c" by (rule on_disk_cong) (simp_all add: in_layer_def)
  then show ?thesis using assms(2) by (intro ext) (auto simp: view_def find_in_layer [OF assms(1)] split: option.split)
qed

lemma cd_get_law:
  assumes "cd_inv c" and "\<forall>i. can_write env i" and G: "cd_get env i g c = Some (v, c')"
  shows "cd_inv c' \<and> view c' = view c \<and> layerSizes c' = layerSizes c \<and> g < length (view c i) \<and> v = view c i ! g \<and>
    (\<exists>ld. find (\<lambda>ld. ld_index ld = i) (cd_layers c') = Some ld \<and> ld_gates ld = view c i) \<and>
    (\<forall>ld \<in> set (cd_layers c'). ld_index ld = i \<longrightarrow> isDirty ld)"
proof -
  let ?f = "\<lambda>ld. ld\<lparr>isDirty := True\<rparr>"
  obtain c1 ld where c1: "cd_access env i c = Some c1" "find (\<lambda>ld. ld_index ld = i) (cd_layers c1) = Some ld"
      "g < length (ld_gates ld)" "v = ld_gates ld ! g" "c' = in_layer i ?f c1"
    using G by (auto simp: cd_get_def bind_eq_Some_conv split: option.splits if_splits)
  have A: "holds_same c c1" "ld_gates ld = view c i" using cd_access_same [OF c1(1) assms(1,2)] c1(2) by auto
  have "view c' = (view c1)(i := ld_gates ld)" unfolding c1(5) using view_in_layer [OF _ c1(2), of ?f] by simp
  moreover have "cd_inv c'" unfolding c1(5) by (rule in_layer_inv) (use A(1) in \<open>simp_all add: holds_same_def\<close>)
  moreover have "find (\<lambda>ld. ld_index ld = i) (cd_layers c') = Some (?f ld)" unfolding c1(5) using c1(2) by (simp add: find_in_layer)
  moreover have "\<forall>ld \<in> set (cd_layers c'). ld_index ld = i \<longrightarrow> isDirty ld" unfolding c1(5) by (simp add: in_layer_def ball_Un)
  ultimately show ?thesis using A c1 by (simp add: holds_same_def) (simp add: in_layer_def)
qed

lemma cd_put_law:
  assumes "cd_inv c" and "\<forall>i. can_write env i" and P: "cd_put env i g v c = Some c'"
  shows "cd_inv c' \<and> view c' = (view c)(i := (view c i)[g := v]) \<and> layerSizes c' = layerSizes c \<and> g < length (view c i)"
proof -
  let ?f = "\<lambda>ld. ld\<lparr>ld_gates := (ld_gates ld)[g := v]\<rparr>"
  obtain w c1 where c1: "cd_get env i g c = Some (w, c1)" "c' = in_layer i ?f c1" using P by (auto simp: cd_put_def)
  note G = cd_get_law [OF assms(1,2) c1(1)]
  then obtain ld where ld: "find (\<lambda>ld. ld_index ld = i) (cd_layers c1) = Some ld" "ld_gates ld = view c i" by blast
  have "view c' = (view c1)(i := (view c i)[g := v])" unfolding c1(2) using view_in_layer [OF _ ld(1), of ?f] ld(2) by simp
  moreover have "cd_inv c'" unfolding c1(2) by (rule in_layer_inv) (use G in simp_all)
  moreover have "layerSizes c' = layerSizes c" unfolding c1(2) using G by (simp add: in_layer_def)
  ultimately show ?thesis using G by simp
qed

section \<open>Clients of a store\<close>

datatype 'a store_op = Get nat nat | Put nat nat 'a

fun run_ops :: "(nat \<Rightarrow> nat \<Rightarrow> 's \<Rightarrow> ('a \<times> 's) option) \<Rightarrow> (nat \<Rightarrow> nat \<Rightarrow> 'a \<Rightarrow> 's \<Rightarrow> 's option) \<Rightarrow> 'a store_op list \<Rightarrow> 's \<Rightarrow> ('a list \<times> 's) option" where
  "run_ops get put [] s = Some ([], s)"
| "run_ops get put (Get i g # ops) s =
     Option.bind (get i g s) (\<lambda>(v, s). map_option (\<lambda>(vs, s). (v # vs, s)) (run_ops get put ops s))"
| "run_ops get put (Put i g v # ops) s = Option.bind (put i g v s) (run_ops get put ops)"

text \<open>The same operations on plain arrays.\<close>

fun run_plain :: "'a store_op list \<Rightarrow> (nat \<Rightarrow> 'a list) \<Rightarrow> 'a list \<times> (nat \<Rightarrow> 'a list)" where
  "run_plain [] m = ([], m)"
| "run_plain (Get i g # ops) m = (let (vs, m') = run_plain ops m in (m i ! g # vs, m'))"
| "run_plain (Put i g v # ops) m = run_plain ops (m(i := (m i)[g := v]))"

locale layer_store =
  fixes ok :: "'s \<Rightarrow> bool" and content :: "'s \<Rightarrow> nat \<Rightarrow> 'a list"
    and get :: "nat \<Rightarrow> nat \<Rightarrow> 's \<Rightarrow> ('a \<times> 's) option" and put :: "nat \<Rightarrow> nat \<Rightarrow> 'a \<Rightarrow> 's \<Rightarrow> 's option"
  assumes get_law: "ok s \<Longrightarrow> get i g s = Some (v, s') \<Longrightarrow> ok s' \<and> content s' = content s \<and> v = content s i ! g"
    and put_law: "ok s \<Longrightarrow> put i g v s = Some s' \<Longrightarrow> ok s' \<and> content s' = (content s)(i := (content s i)[g := v])"
begin

lemma run_ops_plain:
  "ok s \<Longrightarrow> run_ops get put ops s = Some (vs, s') \<Longrightarrow> ok s' \<and> run_plain ops (content s) = (vs, content s')"
proof (induction ops arbitrary: s vs)
  case (Cons a ops)
  show ?case
  proof (cases a)
    case (Get i g)
    then obtain v s1 vs1 where r: "get i g s = Some (v, s1)" "run_ops get put ops s1 = Some (vs1, s')" "vs = v # vs1"
      using Cons.prems(2) by (auto simp: bind_eq_Some_conv)
    then show ?thesis using Cons.IH [of s1 vs1] get_law [OF Cons.prems(1) r(1)] Get by simp
  next
    case (Put i g v)
    then obtain s1 where r: "put i g v s = Some s1" "run_ops get put ops s1 = Some (vs, s')"
      using Cons.prems(2) by (auto simp: bind_eq_Some_conv)
    then show ?thesis using Cons.IH [of s1 vs] put_law [OF Cons.prems(1) r(1)] Put by (simp add: fun_upd_def)
  qed
qed simp

end

interpretation paged: layer_store "\<lambda>c. cd_inv c \<and> (\<forall>i. can_write env i)" view "cd_get env" "cd_put env"
  by unfold_locales (use cd_get_law cd_put_law in blast)+

lemma new_CircuitData_view: "cd_inv (new_CircuitData b sizes)" "view (new_CircuitData b sizes) = (\<lambda>i. replicate (sizes ! i) 0)"
  by (simp_all add: cd_inv_def new_CircuitData_def view_def on_disk_def fun_eq_iff)

section \<open>When the assertion of the eviction loop holds\<close>

definition uniform :: "'a paging_env \<Rightarrow> bool" where
  "uniform env \<longleftrightarrow> (\<forall>x y. value_size env x = value_size env y)"

lemma dataSize_last:
  "dataSize env k ld = (let n = length (ld_gates ld)
     in if n > 0 then nat \<lfloor>of_nat (value_size env (ld_gates ld ! (rng env (k + 3) mod n))) / 4 * (of_nat n :: rat)\<rfloor> + 8 else 8)"
proof -
  have "[0..<4] = [0, 1, 2, 3 :: nat]" by (simp add: upt_rec)
  then show ?thesis by (simp add: dataSize_def Let_def)
qed

definition layer_bytes :: "'a paging_env \<Rightarrow> 'a LayerData \<Rightarrow> nat" where
  "layer_bytes env ld = dataSize env 0 ld"

lemma dataSize_uniform:
  assumes "uniform env" shows "dataSize env k ld = layer_bytes env ld"
proof -
  let ?v = "\<lambda>k. value_size env (ld_gates ld ! (rng env (k + 3) mod length (ld_gates ld)))"
  have "?v k = ?v 0" using assms by (simp only: uniform_def)
  then show ?thesis unfolding layer_bytes_def dataSize_last Let_def by (simp only:)
qed

lemma updateUsage_uniform:
  assumes "uniform env"
  shows "usage (updateUsage env c) = (\<Sum>ld \<leftarrow> cd_layers c. layer_bytes env ld)"
proof -
  have "usage (fold (add_usage env) xs c) = usage c + (\<Sum>ld \<leftarrow> xs. layer_bytes env ld)" for xs c
    by (induction xs arbitrary: c) (simp_all add: add_usage_def dataSize_uniform [OF assms])
  then show ?thesis by (simp add: updateUsage_fold)
qed

lemma evict_uniform:
  assumes "uniform env" and "usage c = (\<Sum>ld \<leftarrow> cd_layers c. layer_bytes env ld)"
  shows "\<exists>c'. evict env c = Some c'"
  using assms
proof (induction env c rule: evict.induct)
  case (1 env c)
  show ?case
  proof (cases "shouldEvict True c")
    case True
    then obtain ld rest where l: "cd_layers c = ld # rest" by (cases "cd_layers c") (auto simp: shouldEvict_def Let_def)
    note U = "1.prems"(2) [unfolded l]
    have "\<not> usage c < dataSize env k ld" for k using U dataSize_uniform [OF "1.prems"(1), of k ld] by simp
    then obtain c1 where c1: "evict_front env c = Some c1"
        "usage c1 = size_sub (usage c) (dataSize env (draws c + draws_used ld) ld)" "cd_layers c1 = rest"
      by (simp add: evict_front_def Let_def l)
    have "usage c1 = (\<Sum>ld \<leftarrow> cd_layers c1. layer_bytes env ld)"
      using U c1(2,3) dataSize_uniform [OF "1.prems"(1), of "draws c + draws_used ld" ld] by (simp add: size_sub_def)
    from "1.IH" [OF True c1(1) "1.prems"(1) this] show ?thesis using True c1(1) by (simp add: evict.simps [of env c])
  qed (simp add: evict.simps [of env c])
qed

lemma cd_access_uniform:
  assumes "uniform env" and "i < length (layerSizes c)"
  shows "\<exists>c'. cd_access env i c = Some c'"
  using evict_uniform [OF assms(1), of "updateUsage env c"] updateUsage_uniform [OF assms(1)] assms(2)
  by (auto simp: cd_access_def cd_load_def updateUsage_fields)

lemma cd_get_uniform:
  assumes "uniform env" and W: "\<forall>i. can_write env i" and I: "cd_inv c" and "i < length (layerSizes c)" and "g < length (view c i)"
  shows "\<exists>v c'. cd_get env i g c = Some (v, c')"
proof -
  obtain c1 where c1: "cd_access env i c = Some c1" using cd_access_uniform [OF assms(1,4)] by blast
  then obtain ld where "find (\<lambda>ld. ld_index ld = i) (cd_layers c1) = Some ld" "ld_gates ld = view c i"
    using cd_access_same [OF _ I W] by blast
  then show ?thesis using c1 assms(5) by (simp add: cd_get_def)
qed

definition op_in_range :: "nat list \<Rightarrow> 'a store_op \<Rightarrow> bool" where
  "op_in_range sizes oper = (case oper of Get i g \<Rightarrow> i < length sizes \<and> g < sizes ! i | Put i g v \<Rightarrow> i < length sizes \<and> g < sizes ! i)"

lemma run_ops_uniform:
  assumes "uniform env" and W: "\<forall>i. can_write env i" and "list_all (op_in_range (layerSizes c)) ops" and "cd_inv c"
    and "\<forall>i < length (layerSizes c). length (view c i) = layerSizes c ! i"
  shows "\<exists>vs c'. run_ops (cd_get env) (cd_put env) ops c = Some (vs, c')"
  using assms(3-5)
proof (induction ops arbitrary: c)
  case (Cons a ops)
  obtain i g where r: "i < length (layerSizes c)" "g < layerSizes c ! i" "a = Get i g \<or> (\<exists>v. a = Put i g v)"
    using Cons.prems(1) by (cases a) (auto simp: op_in_range_def)
  then obtain w c1 where g1: "cd_get env i g c = Some (w, c1)"
    using cd_get_uniform [OF assms(1) W Cons.prems(2), of i g] Cons.prems(3) by auto
  have rest: "list_all (op_in_range (layerSizes c)) ops" using Cons.prems(1) by simp
  consider "a = Get i g" | v where "a = Put i g v" using r(3) by blast
  then show ?case
  proof cases
    case 1
    have "\<exists>vs c'. run_ops (cd_get env) (cd_put env) ops c1 = Some (vs, c')"
      using cd_get_law [OF Cons.prems(2) W g1] Cons.prems(3) rest by (intro Cons.IH) auto
    then show ?thesis using 1 g1 by auto
  next
    case 2
    obtain c2 where p: "cd_put env i g v c = Some c2" using g1 by (simp add: cd_put_def)
    have "\<exists>vs c'. run_ops (cd_get env) (cd_put env) ops c2 = Some (vs, c')"
      using cd_put_law [OF Cons.prems(2) W p] Cons.prems(3) rest by (intro Cons.IH) auto
    then show ?thesis using 2 p by auto
  qed
qed simp

section \<open>Properties\<close>

text \<open>C19: As long as files can be written, whatever sequence of reads and writes of gates is run on the paged store returns what it
  returns on plain arrays filled with zeros, and leaves the same contents, for every budget and all random draws.\<close>

theorem paging_transparent:
  assumes "\<forall>i. can_write env i" and "run_ops (cd_get env) (cd_put env) ops (new_CircuitData memBudget sizes) = Some (vs, c')"
  shows "run_plain ops (\<lambda>i. replicate (sizes ! i) 0) = (vs, view c')"
  using paged.run_ops_plain [OF _ assms(2)] assms(1) by (simp add: new_CircuitData_view)


definition rational_env :: "(nat \<Rightarrow> bool) \<Rightarrow> rat paging_env" where
  "rational_env w = \<lparr>value_size = sizeOf_q, rng = (\<lambda>k. k), can_write = w\<rparr>"

definition example_ops :: "rat store_op list" where
  "example_ops = [Put 0 1 5, Put 1 0 7, Get 2 0, Get 0 1]"

theorem paging_transparent_witness:
  "\<exists>c'. run_ops (cd_get (rational_env (\<lambda>_. True))) (cd_put (rational_env (\<lambda>_. True))) example_ops (new_CircuitData 0 [2, 2, 2]) = Some ([0, 5], c') \<and>
     view c' 1 = [7, 0]"
proof -
  let ?env = "rational_env (\<lambda>_. True)"
  have "map_option fst (run_ops (cd_get ?env) (cd_put ?env) example_ops (new_CircuitData 0 [2, 2, 2])) = Some [0, 5]" by code_simp
  then obtain c' where c': "run_ops (cd_get ?env) (cd_put ?env) example_ops (new_CircuitData 0 [2, 2, 2]) = Some ([0, 5], c')" by auto
  have "run_plain example_ops (\<lambda>i. replicate ([2, 2, 2] ! i) 0) = ([0, 5], view c')"
    by (rule paging_transparent [OF _ c']) (simp add: rational_env_def)
  then have "view c' = snd (run_plain example_ops (\<lambda>i. replicate ([2, 2, 2] ! i) 0))" by simp
  then show ?thesis using c' by (simp add: example_ops_def numeral_2_eq_2)
qed


text \<open>C39: The store of integers can fail its assertion: the memory in use and the size of the evicted layer are estimated from different
  draws, and with numbers of different length in a layer the second estimate can exceed the first.\<close>

theorem integer_store_can_abort:
  "\<exists>draw. let env = \<lparr>value_size = sizeOf_z, rng = draw, can_write = (\<lambda>_. True)\<rparr>
     in run_ops (cd_get env) (cd_put env) [Put 0 1 128, Put 1 0 1, Get 2 0] (new_CircuitData 0 [52, 1, 1]) = None"
proof -
  define env where "env = \<lparr>value_size = sizeOf_z, rng = (\<lambda>k. if k = 23 then 1 else 0 :: nat), can_write = (\<lambda>_ :: nat. True)\<rparr>"
  have "Option.is_none (run_ops (cd_get env) (cd_put env) [Put 0 1 128, Put 1 0 1, Get 2 0] (new_CircuitData 0 [52, 1, 1]))"
    unfolding env_def by code_simp
  then have "run_ops (cd_get env) (cd_put env) [Put 0 1 128, Put 1 0 1, Get 2 0] (new_CircuitData 0 [52, 1, 1]) = None"
    by (simp only: Option.is_none_def)
  then show ?thesis unfolding env_def Let_def by (rule exI [where x = "\<lambda>k. if k = 23 then 1 else 0"])
qed


end
