(* ===== verification/Pws_Circuit.thy ===== *)
theory Pws_Circuit
  imports Cmt_Circuit "HOL-Library.Monad_Syntax"
begin

text \<open>
  Circuits described by the compiler (\<^verbatim>\<open>circuit/pws_circuit.cpp\<close>) and the operations that compute the values of their magic
  gates (\<^verbatim>\<open>circuit/magic_var_operation.cpp\<close>), over the data types of \<^verbatim>\<open>circuit/pws_primitives.h\<close>. \<open>PWSParse\<close> has the public
  results of the parser. A gate position counts layers from the inputs; the circuit counts them from the outputs. Gate
  values are read again after every assignment, as the references of the source do. \<open>None\<close> is a failed \<^verbatim>\<open>assert\<close>.
\<close>

section \<open>Descriptions\<close>

record GatePosition =
  gp_layer :: nat
  gp_name :: nat

datatype Primitive = CONSTANT nat | INTERMEDIATE nat | INPUT_OUTPUT nat

datatype OpType = OpADD | OpMUL | OpDIV_INT | OpCONSTANT

record GateDescription =
  gd_op :: OpType
  gd_pos :: GatePosition
  gd_in1 :: nat
  gd_in2 :: nat
  boundPrimitive :: "Primitive option"

definition makeGate_op :: "OpType \<Rightarrow> GateType" where
  "makeGate_op op = (case op of OpADD \<Rightarrow> ADD | OpMUL \<Rightarrow> MUL | OpDIV_INT \<Rightarrow> DIV_INT | OpCONSTANT \<Rightarrow> ADD)"

datatype MagicVarOperation =
    NotEqualOperation GatePosition GatePosition GatePosition
  | LessThanIntOperation "GatePosition list" "GatePosition list" GatePosition GatePosition
  | LessThanFloatOperation "GatePosition list" "GatePosition list" "GatePosition list" GatePosition GatePosition

record PWSParse =
  circuitDesc :: "GateDescription list list"
  magicOps :: "(nat list \<times> MagicVarOperation) list"
  outConstants :: "(string \<times> nat list) list"
  inConstants :: "(string \<times> nat) list"
  outputGateBegin :: nat
  pwsInGates :: "(nat \<times> nat) list"
  pwsOutGates :: "(nat \<times> nat) list"
  pwsMagicGates :: "nat list"

section \<open>Gates by position\<close>

definition pos_ref :: "Circuit \<Rightarrow> GatePosition \<Rightarrow> gate_ref option" where
  "pos_ref c pos =
     (let lvl = depth c - 1 - gp_layer pos
      in if gp_layer pos < depth c \<and> gp_name pos < layer_size (layers c ! lvl) then Some (lvl, gp_name pos) else None)"

definition getZ :: "Circuit \<Rightarrow> GatePosition \<Rightarrow> mpz option" where
  "getZ c pos = map_option (\<lambda>(lvl, idx). zData c ! lvl ! idx) (pos_ref c pos)"

definition getQ :: "Circuit \<Rightarrow> GatePosition \<Rightarrow> rat option" where
  "getQ c pos = map_option (\<lambda>(lvl, idx). qData c ! lvl ! idx) (pos_ref c pos)"

definition setVal :: "GatePosition \<Rightarrow> mpz \<Rightarrow> Circuit \<Rightarrow> Circuit option" where
  "setVal pos val c = map_option (\<lambda>(lvl, idx). set_gate c lvl idx (of_int val, val)) (pos_ref c pos)"

definition setZ :: "GatePosition \<Rightarrow> mpz \<Rightarrow> Circuit \<Rightarrow> Circuit option" where
  "setZ pos val c =
     map_option (\<lambda>(lvl, idx). c\<lparr>zData := (zData c)[lvl := (zData c ! lvl)[idx := val]]\<rparr>) (pos_ref c pos)"

definition setQ :: "GatePosition \<Rightarrow> rat \<Rightarrow> Circuit \<Rightarrow> Circuit option" where
  "setQ pos val c =
     map_option (\<lambda>(lvl, idx). c\<lparr>qData := (qData c)[lvl := (qData c ! lvl)[idx := val]]\<rparr>) (pos_ref c pos)"

section \<open>Magic operations\<close>

definition toTrueNumber_q :: "rat \<Rightarrow> mpz \<Rightarrow> mpz \<Rightarrow> rat" where
  "toTrueNumber_q a halfPrime prime =
     (let (num, den) = quotient_of a in if halfPrime < num then Fract (num - prime) den else a)"

definition computeNotEqual ::
  "(mpz \<Rightarrow> mpz \<Rightarrow> mpz) \<Rightarrow> GatePosition \<Rightarrow> GatePosition \<Rightarrow> GatePosition \<Rightarrow> Circuit \<Rightarrow> Circuit option" where
  "computeNotEqual mpz_invert M X1 X2 c = do {
     x1Val \<leftarrow> getZ c X1;
     x2Val \<leftarrow> getZ c X2;
     if x1Val = x2Val then setVal M 0 c
     else setVal M (mpz_invert (x1Val - x2Val) (cprime c)) c
   }"

definition computeMs :: "GatePosition list \<Rightarrow> int \<Rightarrow> Circuit \<Rightarrow> Circuit option" where
  "computeMs Ms sgn' c = do {
     c \<leftarrow> setVal (Ms ! 0) (if sgn' < 0 then 1 else 0) c;
     c \<leftarrow> setVal (Ms ! 1) (if sgn' = 0 then 1 else 0) c;
     setVal (Ms ! 2) (if sgn' > 0 then 1 else 0) c
   }"

text \<open>\<^verbatim>\<open>mpz_tstbit\<close> reads negative numbers in two's complement.\<close>

definition tstbit :: "mpz \<Rightarrow> nat \<Rightarrow> bool" where
  "tstbit v i \<longleftrightarrow> odd (v div 2 ^ i)"

definition computeBits :: "GatePosition list \<Rightarrow> mpz \<Rightarrow> bool \<Rightarrow> Circuit \<Rightarrow> Circuit option" where
  "computeBits bits sumv trueBits c =
     (let tmp = (if trueBits then sumv else sumv + 2 ^ length bits)
      in fold (\<lambda>i r. Option.bind r (\<lambda>c.
           let Bi = (if tstbit tmp i then if trueBits then 1 else 2 ^ i else 0)
           in setVal (bits ! i) Bi c)) [0..<length bits] (Some c))"

definition computeLessThanInt ::
  "GatePosition list \<Rightarrow> GatePosition list \<Rightarrow> GatePosition \<Rightarrow> GatePosition \<Rightarrow> Circuit \<Rightarrow> Circuit option" where
  "computeLessThanInt Ms Ns X1 X2 c = do {
     let half = cprime c div 2;
     x1 \<leftarrow> getZ c X1;
     c \<leftarrow> setZ X1 (toTrueNumber x1 half (cprime c)) c;
     x2 \<leftarrow> getZ c X2;
     c \<leftarrow> setZ X2 (toTrueNumber x2 half (cprime c)) c;
     x1 \<leftarrow> getZ c X1;
     x2 \<leftarrow> getZ c X2;
     let sgn' = x1 - x2;
     c \<leftarrow> computeMs Ms sgn' c;
     x1 \<leftarrow> getZ c X1;
     x2 \<leftarrow> getZ c X2;
     computeBits Ns (if sgn' < 0 then x1 - x2 else x2 - x1) False c
   }"

definition computeLessThanFloat ::
  "GatePosition list \<Rightarrow> GatePosition list \<Rightarrow> GatePosition list \<Rightarrow> GatePosition \<Rightarrow> GatePosition \<Rightarrow> Circuit \<Rightarrow> Circuit option" where
  "computeLessThanFloat Ms Ns Ds X1 X2 c = do {
     let half = cprime c div 2;
     x1 \<leftarrow> getQ c X1;
     c \<leftarrow> setQ X1 (toTrueNumber_q x1 half (cprime c)) c;
     x2 \<leftarrow> getQ c X2;
     c \<leftarrow> setQ X2 (toTrueNumber_q x2 half (cprime c)) c;
     x1 \<leftarrow> getQ c X1;
     x2 \<leftarrow> getQ c X2;
     let sgn' = (if x1 < x2 then - 1 else if x1 = x2 then 0 else 1);
     c \<leftarrow> computeMs Ms sgn' c;
     x1 \<leftarrow> getQ c X1;
     x2 \<leftarrow> getQ c X2;
     let diff = quotient_of (if sgn' < 0 then x1 - x2 else x2 - x1);
     c \<leftarrow> computeBits Ns (fst diff) False c;
     computeBits Ds (snd diff) True c
   }"

definition computeMagicGates :: "(mpz \<Rightarrow> mpz \<Rightarrow> mpz) \<Rightarrow> MagicVarOperation \<Rightarrow> Circuit \<Rightarrow> Circuit option" where
  "computeMagicGates mpz_invert op c =
     (case op of
        NotEqualOperation m x1 x2 \<Rightarrow> computeNotEqual mpz_invert m x1 x2 c
      | LessThanIntOperation ms ns x1 x2 \<Rightarrow> computeLessThanInt ms ns x1 x2 c
      | LessThanFloatOperation ms ns ds x1 x2 \<Rightarrow> computeLessThanFloat ms ns ds x1 x2 c)"

section \<open>Evaluation\<close>

definition evalGate_at :: "(mpz \<Rightarrow> mpz \<Rightarrow> mpz) \<Rightarrow> nat \<Rightarrow> nat \<Rightarrow> Circuit \<Rightarrow> Circuit option" where
  "evalGate_at mpz_invert lNum gNum c =
     (case pos_ref c \<lparr>gp_layer = lNum, gp_name = gNum\<rparr> of None \<Rightarrow> None
      | Some (lvl, idx) \<Rightarrow> eval_gate mpz_invert lvl idx c)"

definition guard_at :: "nat list \<Rightarrow> nat \<Rightarrow> nat" where
  "guard_at start lNum = (if length start > lNum then start ! lNum else 0)"

definition evalGates :: "(mpz \<Rightarrow> mpz \<Rightarrow> mpz) \<Rightarrow> nat list \<Rightarrow> Circuit \<Rightarrow> Circuit option" where
  "evalGates mpz_invert start c =
     fold (\<lambda>lNum r. Option.bind r (\<lambda>c.
        fold (\<lambda>gNum r. Option.bind r (evalGate_at mpz_invert lNum gNum))
          [guard_at start lNum..<layer_size (layers c ! (depth c - 1 - lNum))] (Some c))) [1..<depth c] (Some c)"

definition evalGates_until :: "(mpz \<Rightarrow> mpz \<Rightarrow> mpz) \<Rightarrow> nat list \<Rightarrow> nat list \<Rightarrow> Circuit \<Rightarrow> Circuit option" where
  "evalGates_until mpz_invert start end' c =
     fold (\<lambda>lNum r. Option.bind r (\<lambda>c.
        fold (\<lambda>gNum r. Option.bind r (evalGate_at mpz_invert lNum gNum)) [guard_at start lNum..<end' ! lNum] (Some c)))
       [1..<length end'] (Some c)"

definition pws_evaluate :: "(mpz \<Rightarrow> mpz \<Rightarrow> mpz) \<Rightarrow> PWSParse \<Rightarrow> Circuit \<Rightarrow> Circuit option" where
  "pws_evaluate mpz_invert parser c = do {
     (lastGuard, c) \<leftarrow> fold (\<lambda>(guard, op) r. Option.bind r (\<lambda>(lastGuard, c). do {
        c \<leftarrow> evalGates_until mpz_invert lastGuard guard c;
        c \<leftarrow> computeMagicGates mpz_invert op c;
        Some (guard, c)
      })) (magicOps parser) (Some ([], c));
     evalGates mpz_invert lastGuard c
   }"

section \<open>Construction\<close>

definition makeGateMapping_list :: "Circuit \<Rightarrow> nat \<Rightarrow> nat list \<Rightarrow> gate_ref option list option" where
  "makeGateMapping_list c lvl mapping =
     (case layer_at c lvl of None \<Rightarrow> if mapping = [] then Some [] else None
      | Some l \<Rightarrow> if list_all (\<lambda>i. i < layer_size l) mapping then Some (map (\<lambda>i. Some (lvl, i)) mapping) else None)"

text \<open>The map is ordered by its keys; \<open>offset\<close> is what is taken off them.\<close>

definition makeGateMapping :: "Circuit \<Rightarrow> nat \<Rightarrow> (nat \<times> nat) list \<Rightarrow> nat \<Rightarrow> gate_ref option list option" where
  "makeGateMapping c lvl mapping offset =
     (if mapping = [] then Some []
      else case layer_at c lvl of None \<Rightarrow> None
      | Some l \<Rightarrow>
          if list_all (\<lambda>(k, i). i < layer_size l \<and> offset \<le> k) mapping
          then Some (fold (\<lambda>(k, i) gs. gs[k - offset := Some (lvl, i)]) mapping (replicate (fst (last mapping) - offset + 1) None))
          else None)"

definition pws_makeLevel :: "GateDescription list \<Rightarrow> CMTCircuit \<Rightarrow> CMTCircuit option" where
  "pws_makeLevel layer c =
     wire_loop [0..<length layer] (\<lambda>i. wire i (makeGate_op (gd_op (layer ! i))) (gd_in1 (layer ! i)) (gd_in2 (layer ! i)))
       (makeLevel c (length layer) None None)"

definition pws_constructCircuit :: "PWSParse \<Rightarrow> CMTCircuit \<Rightarrow> CMTCircuit option" where
  "pws_constructCircuit parser c = do {
     let desc = circuitDesc parser;
     let c = makeShell c (length desc);
     c \<leftarrow> fold (\<lambda>layer r. Option.bind r (pws_makeLevel layer)) desc (Some c);
     ins \<leftarrow> makeGateMapping (circ c) (depth (circ c) - 1) (pwsInGates parser) 0;
     outs \<leftarrow> makeGateMapping (circ c) 0 (pwsOutGates parser) (outputGateBegin parser);
     mags \<leftarrow> makeGateMapping_list (circ c) (depth (circ c) - 1) (pwsMagicGates parser);
     Some (c\<lparr>inGates := ins, outGates := outs, magicGates := mags\<rparr>)
   }"

text \<open>Constants are kept as strings. \<open>mpz_set_str\<close> of GMP reads a decimal numeral; where it fails, the variable keeps the number it
  had, which starts at 0.\<close>

definition set_constants ::
  "(string \<Rightarrow> mpz option) \<Rightarrow> nat \<Rightarrow> (string \<times> nat) list \<Rightarrow> Circuit \<Rightarrow> Circuit option" where
  "set_constants mpz_set_str lvl cs c =
     map_option snd (fold (\<lambda>(str, idx) r. Option.bind r (\<lambda>(num, c).
        let num = (case mpz_set_str str of None \<Rightarrow> num | Some n \<Rightarrow> n)
        in if lvl < depth c \<and> idx < layer_size (layers c ! lvl)
           then map_option (\<lambda>v. (num, set_gate c lvl idx v)) (setValue_z (cprime c) num) else None)) cs (Some (0, c)))"

definition pws_initializeInputs ::
  "(mpz \<Rightarrow> mpz \<Rightarrow> mpz) \<Rightarrow> (string \<Rightarrow> mpz option) \<Rightarrow> PWSParse \<Rightarrow> CMTCircuit \<Rightarrow> rat list \<Rightarrow> rat list \<Rightarrow> CMTCircuit option" where
  "pws_initializeInputs mpz_invert mpz_set_str parser c inputs magic = do {
     c \<leftarrow> initializeInputs mpz_invert c inputs magic;
     map_option (\<lambda>x. c\<lparr>circ := x\<rparr>) (set_constants mpz_set_str (depth (circ c) - 1) (inConstants parser) (circ c))
   }"

definition pws_initializeOutputs ::
  "(mpz \<Rightarrow> mpz \<Rightarrow> mpz) \<Rightarrow> (string \<Rightarrow> mpz option) \<Rightarrow> PWSParse \<Rightarrow> CMTCircuit \<Rightarrow> rat list \<Rightarrow> CMTCircuit option" where
  "pws_initializeOutputs mpz_invert mpz_set_str parser c op = do {
     c \<leftarrow> initializeOutputs mpz_invert c op;
     map_option (\<lambda>x. c\<lparr>circ := x\<rparr>)
       (set_constants mpz_set_str 0 (concat (map (\<lambda>(str, idxs). map (Pair str) idxs) (outConstants parser))) (circ c))
   }"

definition pws_class :: "(mpz \<Rightarrow> mpz \<Rightarrow> mpz) \<Rightarrow> (string \<Rightarrow> mpz option) \<Rightarrow> PWSParse \<Rightarrow> circuit_class" where
  "pws_class mpz_invert mpz_set_str parser =
     \<lparr>cls_initializeInputs = pws_initializeInputs mpz_invert mpz_set_str parser,
      cls_initializeOutputs = pws_initializeOutputs mpz_invert mpz_set_str parser,
      cls_evaluate = (\<lambda>c. map_option (\<lambda>x. c\<lparr>circ := x\<rparr>) (pws_evaluate mpz_invert parser (circ c)))\<rparr>"

definition pws_buildCircuit :: "PWSParse \<Rightarrow> CMTCircuit \<Rightarrow> CMTCircuit option" where
  "pws_buildCircuit parser c =
     map_option (\<lambda>c. c\<lparr>circ := finalizeConstruct (circ c)\<rparr>)
       (pws_constructCircuit parser (c\<lparr>circ := (circ c)\<lparr>valid := False\<rparr>\<rparr>))"

end
