(* ===== verification/Pws_Facts.thy ===== *)
theory Pws_Facts
  imports Pws_Circuit Circuit_Evaluate Circuit_Builder
begin

text \<open>
  What the magic operations of compiled circuits compute: the values they store satisfy the constraints that the compiler
  puts on the magic gates. And what a compiled circuit is built and evaluated to.
\<close>

section \<open>Assignments to gates\<close>

text \<open>\<open>zstate c0 c f\<close>: \<open>c\<close> has the shape of \<open>c0\<close>, and its residues are those of \<open>f\<close>.\<close>

definition zstate :: "Circuit \<Rightarrow> Circuit \<Rightarrow> (GatePosition \<Rightarrow> mpz) \<Rightarrow> bool" where
  "zstate c0 c f \<longleftrightarrow> data_shape c \<and> layers c = layers c0 \<and> cprime c = cprime c0 \<and> (\<forall>q. pos_ref c0 q \<noteq> None \<longrightarrow> getZ c q = Some (f q))"

definition zval :: "Circuit \<Rightarrow> GatePosition \<Rightarrow> mpz" where
  "zval c q = the (getZ c q)"

lemma zstate_self: "data_shape c \<Longrightarrow> zstate c c (zval c)"
  by (auto simp: zstate_def zval_def getZ_def)

lemma zstate_get: "zstate c0 c f \<Longrightarrow> pos_ref c0 q \<noteq> None \<Longrightarrow> getZ c q = Some (f q)" "zstate c0 c f \<Longrightarrow> pos_ref c0 q \<noteq> None \<Longrightarrow> zval c q = f q"
  by (auto simp: zstate_def zval_def)

lemma pos_ref_layers: "layers c = layers c0 \<Longrightarrow> pos_ref c = pos_ref c0"
  by (simp add: pos_ref_def depth_def fun_eq_iff)

lemma pos_ref_inj: "pos_ref c q = Some r \<Longrightarrow> pos_ref c q' = Some r \<Longrightarrow> q = q'"
  by (cases q; cases q') (auto simp: pos_ref_def Let_def split: if_splits)

lemma pos_ref_Some: "pos_ref c q = Some (l, g) \<Longrightarrow> l < depth c \<and> g < layer_size (layers c ! l)"
  by (auto simp: pos_ref_def Let_def split: if_splits)

lemma zstate_update:
  assumes Z: "zstate c0 c f" and q: "pos_ref c0 q = Some (l, g)" and sh: "data_shape c'"
    and c': "layers c' = layers c" "cprime c' = cprime c" "zData c' = (zData c)[l := (zData c ! l)[g := v]]"
  shows "zstate c0 c' (f(q := v))"
proof -
  have L: "layers c = layers c0" "data_shape c" using Z by (simp_all add: zstate_def)
  have R: "pos_ref c' = pos_ref c0" "pos_ref c = pos_ref c0" using c'(1) L(1) by (intro pos_ref_layers, simp)+
  have lg: "l < length (zData c)" "g < length (zData c ! l)" using pos_ref_Some [OF q] L by (auto simp: data_shape_def depth_def)
  have "getZ c' q' = Some ((f(q := v)) q')" if nz: "pos_ref c0 q' \<noteq> None" for q'
  proof -
    obtain l' g' where r: "pos_ref c0 q' = Some (l', g')" using nz by auto
    have "zData c ! l' ! g' = f q'" using zstate_get(1) [OF Z nz] r R by (simp add: getZ_def)
    moreover have "q' = q \<longleftrightarrow> l' = l \<and> g' = g" using r q pos_ref_inj by auto
    ultimately show ?thesis using r R lg by (auto simp: getZ_def c'(3) nth_list_update)
  qed
  then show ?thesis using sh c' Z by (simp add: zstate_def)
qed

lemma setVal_zstate:
  assumes Z: "zstate c0 c f" and q: "pos_ref c0 q \<noteq> None"
  shows "\<exists>c'. setVal q v c = Some c' \<and> zstate c0 c' (f(q := v))"
proof -
  obtain l g where r: "pos_ref c0 q = Some (l, g)" using q by auto
  have "pos_ref c = pos_ref c0" "data_shape c" using Z pos_ref_layers [of c c0] by (simp_all only: zstate_def)
  moreover have "zstate c0 (set_gate c l g (of_int v, v)) (f(q := v))"
    by (rule zstate_update [OF Z r]) (use \<open>data_shape c\<close> in \<open>simp_all add: data_shape_set\<close>, simp_all add: set_gate_def)
  ultimately show ?thesis using r by (simp add: setVal_def)
qed

lemma setZ_zstate:
  assumes Z: "zstate c0 c f" and q: "pos_ref c0 q \<noteq> None"
  shows "\<exists>c'. setZ q v c = Some c' \<and> zstate c0 c' (f(q := v))"
proof -
  obtain l g where r: "pos_ref c0 q = Some (l, g)" using q by auto
  have R: "pos_ref c = pos_ref c0" "data_shape c" using Z pos_ref_layers [of c c0] by (simp_all only: zstate_def)
  have "data_shape (c\<lparr>zData := (zData c)[l := (zData c ! l)[g := v]]\<rparr>)"
    using R(2) by (cases "l < depth c") (auto simp: data_shape_def depth_def nth_list_update)
  from zstate_update [OF Z r this] R r show ?thesis by (simp add: setZ_def)
qed

lemma computeMs_zstate:
  assumes Z: "zstate c0 c f" and "length Ms = 3" and "\<forall>q \<in> set Ms. pos_ref c0 q \<noteq> None"
  shows "\<exists>c'. computeMs Ms s c = Some c' \<and>
    zstate c0 c' (f(Ms ! 0 := if s < 0 then 1 else 0, Ms ! 1 := if s = 0 then 1 else 0, Ms ! 2 := if s > 0 then 1 else 0))"
proof -
  have r: "pos_ref c0 (Ms ! i) \<noteq> None" if "i < 3" for i using assms(2,3) that by simp
  obtain c1 where c1: "setVal (Ms ! 0) (if s < 0 then 1 else 0) c = Some c1" "zstate c0 c1 (f(Ms ! 0 := if s < 0 then 1 else 0))"
    using setVal_zstate [OF Z r] by (metis zero_less_numeral)
  obtain c2 where c2: "setVal (Ms ! 1) (if s = 0 then 1 else 0) c1 = Some c2"
      "zstate c0 c2 (f(Ms ! 0 := if s < 0 then 1 else 0, Ms ! 1 := if s = 0 then 1 else 0))"
    using setVal_zstate [OF c1(2) r] by (metis one_less_numeral_iff semiring_norm(77))
  show ?thesis using setVal_zstate [OF c2(2) r, of 2 "if s > 0 then 1 else 0"] c1(1) c2(1) by (auto simp: computeMs_def)
qed

section \<open>Bits\<close>

lemma sum_tstbit: "(\<Sum>i < n. if tstbit t i then 2 ^ i else 0) = t mod 2 ^ n"
proof (induction n)
  case (Suc n)
  have "t mod 2 ^ Suc n = 2 ^ n * (t div 2 ^ n mod 2) + t mod 2 ^ n" using zmod_zmult2_eq [of 2 t "2 ^ n"] by (simp add: mult.commute)
  moreover have "t div 2 ^ n mod 2 = (if tstbit t n then 1 else 0)" by (simp add: tstbit_def odd_iff_mod_2_eq_one)
  ultimately show ?case using Suc by simp
qed simp

definition bit_value :: "mpz \<Rightarrow> bool \<Rightarrow> nat \<Rightarrow> mpz" where
  "bit_value t trueBits i = (if tstbit t i then if trueBits then 1 else 2 ^ i else 0)"

lemma computeBits_zstate:
  fixes v :: mpz and tb :: bool
  assumes Z: "zstate c0 c f" and "\<forall>q \<in> set bits. pos_ref c0 q \<noteq> None" and D: "distinct bits"
  defines "t \<equiv> if tb then v else v + 2 ^ length bits"
  shows "\<exists>c' f'. computeBits bits v tb c = Some c' \<and> zstate c0 c' f' \<and> (\<forall>q. q \<notin> set bits \<longrightarrow> f' q = f q) \<and>
    (\<forall>i < length bits. f' (bits ! i) = bit_value t tb i)"
proof -
  define P where "P = (\<lambda>n r. \<exists>c' f'. r = Some c' \<and> zstate c0 c' f' \<and> (\<forall>q. q \<notin> set bits \<longrightarrow> f' q = f q) \<and>
    (\<forall>i < n. f' (bits ! i) = bit_value t tb i))"
  have "P (length bits) (fold (\<lambda>i r. Option.bind r (\<lambda>c. setVal (bits ! i) (bit_value t tb i) c)) [0..<length bits] (Some c))"
  proof (rule fold_range_inv)
    show "P 0 (Some c)" using Z by (auto simp: P_def)
  next
    fix i r assume i: "i < length bits" and "P i r"
    then obtain c1 f1 where c1: "r = Some c1" "zstate c0 c1 f1" "\<forall>q. q \<notin> set bits \<longrightarrow> f1 q = f q" "\<forall>k < i. f1 (bits ! k) = bit_value t tb k"
      by (auto simp: P_def)
    obtain c2 where c2: "setVal (bits ! i) (bit_value t tb i) c1 = Some c2" "zstate c0 c2 (f1(bits ! i := bit_value t tb i))"
      using setVal_zstate [OF c1(2)] assms(2) i by (metis nth_mem)
    have "\<forall>k < Suc i. (f1(bits ! i := bit_value t tb i)) (bits ! k) = bit_value t tb k"
      using c1(4) D i by (auto simp: less_Suc_eq nth_eq_iff_index_eq)
    moreover have "\<forall>q. q \<notin> set bits \<longrightarrow> (f1(bits ! i := bit_value t tb i)) q = f q" using c1(3) i by auto
    ultimately show "P (Suc i) (Option.bind r (\<lambda>c. setVal (bits ! i) (bit_value t tb i) c))"
      unfolding P_def using c1(1) c2 by (metis bind.bind_lunit)
  qed simp
  then show ?thesis by (simp add: P_def computeBits_def bit_value_def t_def Let_def)
qed

section \<open>Comparison of integers\<close>

lemma one_hot:
  fixes x1 x2 S N :: int
  assumes "S = (- \<bar>x1 - x2\<bar> + N) mod N" and "\<bar>x1 - x2\<bar> \<le> N" and "0 < N"
  shows "x1 < x2 \<Longrightarrow> x2 - x1 + S - N = 0" "x2 < x1 \<Longrightarrow> x1 - x2 + S - N = 0"
proof -
  have "S = - \<bar>x1 - x2\<bar> + N" if "x1 \<noteq> x2" by (subst assms(1), rule mod_pos_pos_trivial) (use assms(2,3) that in auto)
  then show "x1 < x2 \<Longrightarrow> x2 - x1 + S - N = 0" "x2 < x1 \<Longrightarrow> x1 - x2 + S - N = 0" by auto
qed

text \<open>C31: The values that \<^verbatim>\<open>LessThanIntOperation\<close> gives the magic gates satisfy the constraints the compiler puts on them: exactly one
  of less, equal and greater is 1 and it is the right one, the \<open>i\<close>-th number is 0 or \<open>2 ^ i\<close>, and with their sum the products with
  the differences of the operands are 0, if the difference of the operands fits into the numbers.\<close>

theorem less_than_int_constraints:
  assumes sh: "data_shape c" and pos: "\<forall>q \<in> set (X1 # X2 # Ms @ Ns). pos_ref c q \<noteq> None"
    and D: "distinct (X1 # X2 # Ms @ Ns)" and "length Ms = 3"
    and x: "x1 = toTrueNumber (zval c X1) (cprime c div 2) (cprime c)" "x2 = toTrueNumber (zval c X2) (cprime c div 2) (cprime c)"
    and fits: "\<bar>x1 - x2\<bar> \<le> 2 ^ length Ns"
  shows "\<exists>c'. computeLessThanInt Ms Ns X1 X2 c = Some c' \<and>
    (let Mlt = zval c' (Ms ! 0); Meq = zval c' (Ms ! 1); Mgt = zval c' (Ms ! 2); S = \<Sum>i < length Ns. zval c' (Ns ! i)
     in zval c' X1 = x1 \<and> zval c' X2 = x2 \<and>
        Mlt = (if x1 < x2 then 1 else 0) \<and> Meq = (if x1 = x2 then 1 else 0) \<and> Mgt = (if x2 < x1 then 1 else 0) \<and>
        (\<forall>i < length Ns. zval c' (Ns ! i) * (zval c' (Ns ! i) - 2 ^ i) = 0) \<and>
        Mlt * (x2 - x1 + S - 2 ^ length Ns) = 0 \<and> Mgt * (x1 - x2 + S - 2 ^ length Ns) = 0 \<and> Meq * (x1 - x2) = 0)"
proof -
  have P: "pos_ref c X1 \<noteq> None" "pos_ref c X2 \<noteq> None" "\<forall>q \<in> set Ms. pos_ref c q \<noteq> None" "\<forall>q \<in> set Ns. pos_ref c q \<noteq> None" using pos by simp_all
  let ?n = "length Ns" and ?f1 = "(zval c)(X1 := x1)"
  let ?f2 = "?f1(X2 := x2)"
  define d where "d = x1 - x2"
  let ?f3 = "?f2(Ms ! 0 := if d < 0 then 1 else 0, Ms ! 1 := if d = 0 then 1 else 0, Ms ! 2 := if d > 0 then 1 else 0)"
  have Z0: "zstate c c (zval c)" by (rule zstate_self [OF sh])
  obtain c1 where c1: "setZ X1 x1 c = Some c1" "zstate c c1 ?f1" using setZ_zstate [OF Z0 P(1)] by blast
  obtain c2 where c2: "setZ X2 x2 c1 = Some c2" "zstate c c2 ?f2" using setZ_zstate [OF c1(2) P(2)] by blast
  obtain c3 where c3: "computeMs Ms d c2 = Some c3" "zstate c c3 ?f3" using computeMs_zstate [OF c2(2) assms(4) P(3), of d] by blast
  have M: "Ms ! i \<noteq> X1" "Ms ! i \<noteq> X2" "Ms ! i \<notin> set Ns" if "i < 3" for i
  proof -
    have "Ms ! i \<in> set Ms" using assms(4) that by simp
    then show "Ms ! i \<noteq> X1" "Ms ! i \<noteq> X2" "Ms ! i \<notin> set Ns" using D by auto
  qed
  have MM: "Ms ! 0 \<noteq> Ms ! 1" "Ms ! 0 \<noteq> Ms ! 2" "Ms ! 1 \<noteq> Ms ! 2" using D assms(4) by (simp_all add: nth_eq_iff_index_eq)
  have X: "X1 \<noteq> X2" "X1 \<notin> set Ns" "X2 \<notin> set Ns" "distinct Ns" using D by auto
  have f3: "?f3 X1 = x1" "?f3 X2 = x2" using M [of 0] M [of 1] M [of 2] X(1) by auto
  define v where "v = (if d < 0 then x1 - x2 else x2 - x1)"
  obtain c4 f4 where c4: "computeBits Ns v False c3 = Some c4" "zstate c c4 f4"
      "\<And>q. q \<notin> set Ns \<Longrightarrow> f4 q = ?f3 q" "\<And>i. i < ?n \<Longrightarrow> f4 (Ns ! i) = bit_value (v + 2 ^ ?n) False i"
    using computeBits_zstate [OF c3(2) P(4) X(4), of v False] by auto
  have run: "computeLessThanInt Ms Ns X1 X2 c = Some c4"
  proof -
    have v': "v = (if x1 < x2 then d else x2 - x1)" by (simp add: v_def d_def)
    have "cprime c1 = cprime c" using c1(2) by (simp add: zstate_def)
    moreover have "getZ c1 X2 = Some (zval c X2)" using zstate_get(1) [OF c1(2) P(2)] X(1) by simp
    moreover have "getZ c2 X1 = Some x1" "getZ c2 X2 = Some x2" using zstate_get(1) [OF c2(2)] P X(1) by auto
    moreover have "getZ c3 X1 = Some x1" "getZ c3 X2 = Some x2" using zstate_get(1) [OF c3(2)] P f3 by auto
    ultimately show ?thesis
      using zstate_get(1) [OF Z0 P(1)] c1(1) c2(1) c3(1) c4(1) v'
      by (cases "x1 < x2") (simp_all add: computeLessThanInt_def Let_def x [symmetric] d_def [symmetric])
  qed
  have z: "zval c4 q = f4 q" if "pos_ref c q \<noteq> None" for q using zstate_get(2) [OF c4(2)] that by blast
  have zM: "zval c4 (Ms ! i) = ?f3 (Ms ! i)" if "i < 3" for i using z c4(3) M(3) P(3) assms(4) that by simp
  have zX: "zval c4 X1 = x1" "zval c4 X2 = x2" using z c4(3) X P f3 by simp_all
  have zN: "zval c4 (Ns ! i) = (if tstbit (v + 2 ^ ?n) i then 2 ^ i else 0)" if "i < ?n" for i
    using z c4(4) P(4) that by (simp add: bit_value_def)
  then have "(\<Sum>i < ?n. zval c4 (Ns ! i)) = (v + 2 ^ ?n) mod 2 ^ ?n" using sum_tstbit [of "v + 2 ^ ?n" ?n] by simp
  moreover have "v = - \<bar>x1 - x2\<bar>" by (simp add: v_def d_def)
  ultimately have S: "(\<Sum>i < ?n. zval c4 (Ns ! i)) = (- \<bar>x1 - x2\<bar> + 2 ^ ?n) mod 2 ^ ?n" by simp
  note oh = one_hot [OF S fits]
  have Ms: "zval c4 (Ms ! 0) = (if x1 < x2 then 1 else 0)" "zval c4 (Ms ! 1) = (if x1 = x2 then 1 else 0)" "zval c4 (Ms ! 2) = (if x2 < x1 then 1 else 0)"
    using zM [of 0] zM [of 1] zM [of 2] MM by (auto simp: d_def)
  show ?thesis using run zX Ms zN oh by (simp add: Let_def)
qed

section \<open>Inequality\<close>

text \<open>C32: The value that \<^verbatim>\<open>NotEqualOperation\<close> gives its magic gate makes the product with the difference of the operands 1 when they
  differ and 0 when they are equal, provided that equal field elements are stored as equal numbers.\<close>

theorem not_equal_magic:
  assumes inv: "gmp_invert mpz_invert" and p: "prime_modulus (cprime c)" and sh: "data_shape c"
    and pos: "pos_ref c M \<noteq> None" "pos_ref c X1 \<noteq> None" "pos_ref c X2 \<noteq> None" and "M \<noteq> X1" "M \<noteq> X2"
    and reduced: "zval c X1 mod cprime c = zval c X2 mod cprime c \<longrightarrow> zval c X1 = zval c X2"
  shows "\<exists>c'. computeNotEqual mpz_invert M X1 X2 c = Some c' \<and>
    zval c' M * (zval c' X1 - zval c' X2) mod cprime c = (if zval c X1 mod cprime c = zval c X2 mod cprime c then 0 else 1)"
proof -
  let ?x1 = "zval c X1" and ?x2 = "zval c X2"
  let ?m = "if ?x1 = ?x2 then 0 else mpz_invert (?x1 - ?x2) (cprime c)"
  have Z0: "zstate c c (zval c)" by (rule zstate_self [OF sh])
  obtain c' where c': "setVal M ?m c = Some c'" "zstate c c' ((zval c)(M := ?m))" using setVal_zstate [OF Z0 pos(1)] by blast
  have run: "computeNotEqual mpz_invert M X1 X2 c = Some c'"
    using zstate_get(1) [OF Z0] pos c'(1) by (simp add: computeNotEqual_def split: if_splits)
  have z: "zval c' M = ?m" "zval c' X1 = ?x1" "zval c' X2 = ?x2" using zstate_get(2) [OF c'(2)] pos assms(7,8) by auto
  have "(?x1 - ?x2) * mpz_invert (?x1 - ?x2) (cprime c) mod cprime c = 1" if "?x1 mod cprime c \<noteq> ?x2 mod cprime c"
    by (rule gmp_invert.mpz_invert_prime [OF inv p]) (use that in \<open>simp add: mod_eq_dvd_iff dvd_eq_mod_eq_0\<close>)
  then show ?thesis using run z reduced by (auto simp: mult.commute)
qed

section \<open>Evaluation and construction\<close>

lemma fold_bind_None: "fold (\<lambda>x r. Option.bind r (h x)) xs None = None"
  by (induction xs) auto

lemma fold_option_cong:
  assumes "\<And>x a. x \<in> set xs \<Longrightarrow> I a \<Longrightarrow> f x a = g x a" and "\<And>x a b. x \<in> set xs \<Longrightarrow> I a \<Longrightarrow> g x a = Some b \<Longrightarrow> I b" and "I a"
  shows "fold (\<lambda>x r. Option.bind r (f x)) xs (Some a) = fold (\<lambda>x r. Option.bind r (g x)) xs (Some a) \<and>
    (\<forall>b. fold (\<lambda>x r. Option.bind r (g x)) xs (Some a) = Some b \<longrightarrow> I b)"
  using assms
proof (induction xs arbitrary: a)
  case (Cons x xs)
  have fg: "f x a = g x a" using Cons.prems(1,3) by simp
  show ?case
  proof (cases "g x a")
    case None
    then show ?thesis using fg by (simp add: fold_bind_None)
  next
    case (Some b)
    have "I b" using Cons.prems(2) [OF _ Cons.prems(3) Some] by simp
    have "fold (\<lambda>x r. Option.bind r (f x)) xs (Some b) = fold (\<lambda>x r. Option.bind r (g x)) xs (Some b) \<and>
        (\<forall>b'. fold (\<lambda>x r. Option.bind r (g x)) xs (Some b) = Some b' \<longrightarrow> I b')"
    proof (rule Cons.IH)
      show "f y b = g y b" if "y \<in> set xs" "I b" for y b using Cons.prems(1) that by simp
      show "I b'" if "y \<in> set xs" "I b" "g y b = Some b'" for y b b' using Cons.prems(2) [OF _ that(2,3)] that(1) by simp
    qed fact
    then show ?thesis by (simp only: fold_simps fg Some bind.bind_lunit) simp
  qed
qed simp

lemma rev_upt_map: "rev [0..<n] = map (\<lambda>l. n - l) [1..<Suc n]"
  by (rule nth_equalityI) (auto simp: rev_nth simp del: upt_Suc)

lemma evaluate_plain:
  assumes "magicOps parser = []"
  shows "pws_evaluate mpz_invert parser c = evaluate mpz_invert c"
proof -
  let ?D = "depth c - 1" and ?I = "\<lambda>c'. layers c' = layers c"
  let ?f = "\<lambda>l c'. fold (\<lambda>g r. Option.bind r (evalGate_at mpz_invert l g)) [0..<layer_size (layers c' ! (depth c' - 1 - l))] (Some c')"
  have keep: "layers c2 = layers c1" if "eval_gate mpz_invert l g c1 = Some c2" for l g c1 c2
    using that by (auto simp: eval_gate_def set_gate_def Let_def split: option.splits)
  have layer: "?f l c' = eval_layer mpz_invert (?D - l) c' \<and> (\<forall>b. eval_layer mpz_invert (?D - l) c' = Some b \<longrightarrow> ?I b)"
    if "?I c'" "l < depth c" for l c'
  proof -
    have d: "depth c' = depth c" using that(1) by (simp add: depth_def)
    have "evalGate_at mpz_invert l g a = eval_gate mpz_invert (?D - l) g a" if "?I a" "g < layer_size (layers c ! (?D - l))" for g a
      using that \<open>l < depth c\<close> by (simp add: evalGate_at_def pos_ref_def depth_def Let_def)
    then show ?thesis unfolding eval_layer_def d
      by (intro fold_option_cong [where I = ?I]) (use keep that(1) in auto)
  qed
  have outer: "fold (\<lambda>l r. Option.bind r (?f l)) [1..<depth c] (Some c) =
      fold (\<lambda>l r. Option.bind r (eval_layer mpz_invert (?D - l))) [1..<depth c] (Some c)"
  proof (rule fold_option_cong [where I = ?I, THEN conjunct1])
    fix l and a b :: Circuit assume l: "l \<in> set [1..<depth c]" and a: "layers a = layers c"
    then have "l < depth c" by simp
    note L = layer [OF a this]
    from L show "?f l a = eval_layer mpz_invert (?D - l) a" by (rule conjunct1)
    assume "eval_layer mpz_invert (?D - l) a = Some b"
    with L show "layers b = layers c" by blast
  qed (rule refl)
  have "pws_evaluate mpz_invert parser c = fold (\<lambda>l r. Option.bind r (?f l)) [1..<depth c] (Some c)"
    by (simp add: pws_evaluate_def assms evalGates_def guard_at_def)
  also note outer
  also have "fold (\<lambda>l r. Option.bind r (eval_layer mpz_invert (?D - l))) [1..<depth c] (Some c) = evaluate mpz_invert c"
  proof (cases "depth c < 2")
    case False
    then have "rev [0..<?D] = map (\<lambda>l. ?D - l) [1..<depth c]" using rev_upt_map [of ?D] by simp
    then show ?thesis using False by (simp add: evaluate_def fold_map o_def)
  qed (simp add: evaluate_def)
  finally show ?thesis .
qed

text \<open>C33: A compiled circuit without magic operations is evaluated like any other circuit.\<close>

theorem pws_evaluate_plain:
  assumes "magicOps parser = []"
  shows "pws_evaluate mpz_invert parser c = evaluate mpz_invert c"
  by (rule evaluate_plain [OF assms])

definition pws_layer :: "GateDescription list \<Rightarrow> CircuitLayer" where
  "pws_layer ds = \<lparr>gates = map (\<lambda>d. gate (makeGate_op (gd_op d)) (gd_in1 d) (gd_in2 d)) ds, add_fn = None, mul_fn = None\<rparr>"

lemma built_pws_level:
  assumes "built c0 (Suc k) ls c"
  shows "\<exists>c'. pws_makeLevel ds c = Some c' \<and> built c0 k (pws_layer ds # ls) c'"
proof -
  let ?w = "\<lambda>i. wire i (makeGate_op (gd_op (ds ! i))) (gd_in1 (ds ! i)) (gd_in2 (ds ! i))"
  have "map (\<lambda>i. gate (makeGate_op (gd_op (ds ! i))) (gd_in1 (ds ! i)) (gd_in2 (ds ! i))) [0..<length ds] = gates (pws_layer ds)"
    by (rule nth_equalityI) (simp_all add: pws_layer_def)
  then show ?thesis using built_wire_loop [OF built_level [OF assms, of "length ds" None None], of 0 "length ds" ?w
      "\<lambda>i. makeGate_op (gd_op (ds ! i))" "\<lambda>i. gd_in1 (ds ! i)" "\<lambda>i. gd_in2 (ds ! i)"]
    by (simp add: pws_makeLevel_def layer_size_def pws_layer_def)
qed

lemma built_pws_levels:
  assumes "built c0 (length desc) ls c"
  shows "\<exists>c'. fold (\<lambda>ds r. Option.bind r (pws_makeLevel ds)) desc (Some c) = Some c' \<and> built c0 0 (rev (map pws_layer desc) @ ls) c'"
  using assms
proof (induction desc arbitrary: c ls)
  case (Cons ds desc)
  obtain c1 where "pws_makeLevel ds c = Some c1" "built c0 (length desc) (pws_layer ds # ls) c1"
    using built_pws_level Cons.prems by (metis length_Cons)
  then show ?case using Cons.IH [of "pws_layer ds # ls" c1] by simp
qed auto

lemma construct_layers:
  assumes "pws_constructCircuit parser c = Some c'"
  shows "layers (circ c') = rev (map pws_layer (circuitDesc parser))"
proof -
  obtain c1 where c1: "fold (\<lambda>ds r. Option.bind r (pws_makeLevel ds)) (circuitDesc parser) (Some (makeShell c (length (circuitDesc parser)))) = Some c1"
      "built (makeShell c (length (circuitDesc parser))) 0 (rev (map pws_layer (circuitDesc parser))) c1"
    using built_pws_levels [OF built_shell, of "circuitDesc parser" c] by auto
  then have "circ c' = circ c1" using assms by (auto simp: pws_constructCircuit_def bind_eq_Some_conv Let_def)
  then show ?thesis using built_complete [OF c1(2)] by simp
qed

text \<open>C34: A compiled circuit has, from the outputs down, the layers of its description in reverse order, every gate with the operation
  and the inputs of its description.\<close>

theorem pws_construct_layers:
  assumes "pws_constructCircuit parser c = Some c'"
  shows "layers (circ c') = rev (map pws_layer (circuitDesc parser))"
  by (rule construct_layers [OF assms])

section \<open>Examples\<close>

definition some_parse :: PWSParse where
  "some_parse = \<lparr>circuitDesc = [[\<lparr>gd_op = OpCONSTANT, gd_pos = \<lparr>gp_layer = 0, gp_name = 0\<rparr>, gd_in1 = 0, gd_in2 = 0, boundPrimitive = None\<rparr>,
       \<lparr>gd_op = OpCONSTANT, gd_pos = \<lparr>gp_layer = 0, gp_name = 1\<rparr>, gd_in1 = 0, gd_in2 = 0, boundPrimitive = None\<rparr>],
      [\<lparr>gd_op = OpMUL, gd_pos = \<lparr>gp_layer = 1, gp_name = 0\<rparr>, gd_in1 = 0, gd_in2 = 1, boundPrimitive = None\<rparr>]],
     magicOps = [], outConstants = [], inConstants = [], outputGateBegin = 2, pwsInGates = [(0, 0), (1, 1)], pwsOutGates = [(2, 0)],
     pwsMagicGates = []\<rparr>"

definition blank_circuit :: CMTCircuit where
  "blank_circuit = \<lparr>circ = \<lparr>layers = [], qData = [], zData = [], valid = True, cprime = 7\<rparr>, currentLevel = 0,
     inGates = [], outGates = [], magicGates = []\<rparr>"

theorem pws_construct_layers_witness:
  "\<exists>c'. pws_constructCircuit some_parse blank_circuit = Some c' \<and> gates (layers (circ c') ! 0) = [gate MUL 0 1]"
proof -
  have "\<not> Option.is_none (pws_constructCircuit some_parse blank_circuit)" by code_simp
  then obtain c' where c': "pws_constructCircuit some_parse blank_circuit = Some c'" by (auto simp: Option.is_none_def)
  have "layers (circ c') = rev (map pws_layer (circuitDesc some_parse))" by (rule pws_construct_layers [OF c'])
  then show ?thesis using c' by (simp add: some_parse_def pws_layer_def makeGate_op_def)
qed

theorem pws_evaluate_plain_witness:
  "pws_evaluate mod_inverse some_parse half_circuit = evaluate mod_inverse half_circuit"
  by (rule pws_evaluate_plain) (simp add: some_parse_def)

text \<open>Eight gates of one layer.\<close>

definition eight_gates :: Circuit where
  "eight_gates = \<lparr>layers = [\<lparr>gates = replicate 8 GateWiring_default, add_fn = None, mul_fn = None\<rparr>],
     qData = [replicate 8 0], zData = [[3, 10, 0, 0, 0, 0, 0, 0]], valid = True, cprime = 11\<rparr>"

definition pos0 :: "nat \<Rightarrow> GatePosition" where
  "pos0 i = \<lparr>gp_layer = 0, gp_name = i\<rparr>"

theorem less_than_int_constraints_witness:
  "\<exists>c'. computeLessThanInt [pos0 2, pos0 3, pos0 4] [pos0 5, pos0 6, pos0 7] (pos0 0) (pos0 1) eight_gates = Some c' \<and>
     zval c' (pos0 2) = 0 \<and> zval c' (pos0 4) = 1 \<and> zval c' (pos0 5) + zval c' (pos0 6) + zval c' (pos0 7) = 4"
proof -
  have f: "data_shape eight_gates" "\<forall>q \<in> set (pos0 0 # pos0 1 # [pos0 2, pos0 3, pos0 4] @ [pos0 5, pos0 6, pos0 7]). pos_ref eight_gates q \<noteq> None"
    "distinct (pos0 0 # pos0 1 # [pos0 2, pos0 3, pos0 4] @ [pos0 5, pos0 6, pos0 7])" "length [pos0 2, pos0 3, pos0 4] = 3"
    "3 = toTrueNumber (zval eight_gates (pos0 0)) (cprime eight_gates div 2) (cprime eight_gates)"
    "- 1 = toTrueNumber (zval eight_gates (pos0 1)) (cprime eight_gates div 2) (cprime eight_gates)"
    by code_simp+
  have "\<bar>3 - (- 1)\<bar> \<le> (2 :: int) ^ length [pos0 5, pos0 6, pos0 7]" by simp
  from less_than_int_constraints [OF f this] show ?thesis by (auto simp: Let_def lessThan_Suc numeral_3_eq_3 numeral_2_eq_2 algebra_simps)
qed

theorem not_equal_magic_witness:
  "\<exists>c'. computeNotEqual mod_inverse (pos0 2) (pos0 0) (pos0 1) eight_gates = Some c' \<and> zval c' (pos0 2) * (zval c' (pos0 0) - zval c' (pos0 1)) mod 11 = 1"
proof -
  have "prime_modulus (cprime eight_gates)" "data_shape eight_gates" "pos_ref eight_gates (pos0 2) \<noteq> None" "pos_ref eight_gates (pos0 0) \<noteq> None"
    "pos_ref eight_gates (pos0 1) \<noteq> None" "pos0 2 \<noteq> pos0 0" "pos0 2 \<noteq> pos0 1"
    "zval eight_gates (pos0 0) mod cprime eight_gates = zval eight_gates (pos0 1) mod cprime eight_gates \<longrightarrow> zval eight_gates (pos0 0) = zval eight_gates (pos0 1)"
    by code_simp+
  note h = not_equal_magic [OF euclid.gmp_invert_axioms this]
  have "cprime eight_gates = 11" "zval eight_gates (pos0 0) mod cprime eight_gates \<noteq> zval eight_gates (pos0 1) mod cprime eight_gates" by code_simp+
  with h show ?thesis by simp
qed

end
