(* ===== verification/Pws_Builder.thy ===== *)
theory Pws_Builder
  imports Pws_Circuit "HOL-Library.List_Lexorder" "HOL-Library.Char_ord"
begin

text \<open>
  The part of the parser that builds the description of a circuit (\<^verbatim>\<open>circuit/pws_circuit_parser.cpp\<close>, lines 76 to 650, over
  \<^verbatim>\<open>circuit/pws_primitives.h\<close>): its state, the constants and variables it knows, the gates it adds and the promotion of a
  gate to a higher layer. A reference to a constant or a variable is the \<open>Primitive\<close> that locates it in the tables; the primitive
  an object names itself by (\<open>toPrimitive\<close>) is computed from the object, since \<^verbatim>\<open>makeMagic\<close> can change it.
  \<open>None\<close> is an access outside a vector or through a null pointer.
\<close>

section \<open>Ordered maps and numerals\<close>

text \<open>A \<^verbatim>\<open>std::map\<close> is the list of its entries in the order of their keys.\<close>

fun map_set :: "'k::linorder \<Rightarrow> 'v \<Rightarrow> ('k \<times> 'v) list \<Rightarrow> ('k \<times> 'v) list" where
  "map_set k v [] = [(k, v)]"
| "map_set k v ((k', v') # m) =
     (if k < k' then (k, v) # (k', v') # m else if k = k' then (k, v) # m else (k', v') # map_set k v m)"

lemma map_of_map_set [simp]: "map_of (map_set k v m) = (map_of m)(k \<mapsto> v)"
  by (induction k v m rule: map_set.induct) auto

definition digit_char :: "nat \<Rightarrow> char" where
  "digit_char d = ''0123456789'' ! d"

fun nat_str :: "nat \<Rightarrow> string" where
  "nat_str n = (if n < 10 then [digit_char n] else nat_str (n div 10) @ [digit_char (n mod 10)])"

declare nat_str.simps [simp del]

definition int_str :: "int \<Rightarrow> string" where
  "int_str v = (if v < 0 then CHR ''-'' # nat_str (nat (- v)) else nat_str (nat v))"

lemma int_str_small [simp]: "int_str 0 = ''0''" "int_str 1 = ''1''" "int_str (- 1) = ''-1''"
  by (simp_all add: int_str_def nat_str.simps digit_char_def)

text \<open>For evaluation: the branches of a sequence of steps are evaluated once they are reached.\<close>

lemma bind_as_case [code_unfold]: "Option.bind m f = (case m of None \<Rightarrow> None | Some x \<Rightarrow> f x)"
  by (cases m) auto

section \<open>State\<close>

text \<open>A primitive that is not bound has no gates, and -1 for its layers.\<close>

record CPrimitive =
  minLayer :: int
  maxLayer :: int
  gateIndex :: "nat list"

definition CPrimitive_new :: CPrimitive where
  "CPrimitive_new = \<lparr>minLayer = - 1, maxLayer = - 1, gateIndex = []\<rparr>"

definition isBound :: "CPrimitive \<Rightarrow> bool" where
  "isBound q \<longleftrightarrow> gateIndex q \<noteq> []"

definition minMatchingLayer :: "CPrimitive \<Rightarrow> CPrimitive \<Rightarrow> int" where
  "minMatchingLayer q q' = max (minLayer q) (minLayer q')"

definition bindPos :: "GatePosition \<Rightarrow> CPrimitive \<Rightarrow> CPrimitive" where
  "bindPos g q = \<lparr>minLayer = int (gp_layer g), maxLayer = int (gp_layer g), gateIndex = [gp_name g]\<rparr>"

record CConst =
  cc_base :: CPrimitive
  cc_value :: string
  cc_name :: nat

datatype VarType = INPUT | OUTPUT | MAGIC | TEMP

record CVar =
  cv_base :: CPrimitive
  varType :: VarType
  cv_name :: nat

definition isIO :: "CVar \<Rightarrow> bool" where
  "isIO v \<longleftrightarrow> varType v = INPUT \<or> varType v = OUTPUT"

definition CVar_toPrimitive :: "CVar \<Rightarrow> Primitive" where
  "CVar_toPrimitive v = (if isIO v then INPUT_OUTPUT (cv_name v) else INTERMEDIATE (cv_name v))"

record PWSOpCount =
  numMults :: nat
  numAdds :: nat
  numIntDivs :: nat
  numIneqs :: nat
  numCmps :: nat

definition PWSOpCount_clear :: PWSOpCount where
  "PWSOpCount_clear = \<lparr>numMults = 0, numAdds = 0, numIntDivs = 0, numIneqs = 0, numCmps = 0\<rparr>"

definition numOps :: "PWSOpCount \<Rightarrow> nat" where
  "numOps c = numMults c + numAdds c + numIntDivs c + numIneqs c + numCmps c"

text \<open>The public results are those of \<open>PWSParse\<close>.\<close>

record PWSCircuitParser = PWSParse +
  varMap :: "(nat \<times> CVar) list"
  inOutVarsMap :: "(nat \<times> CVar) list"
  outConstantDesc :: "(GatePosition \<times> string) list"
  constants :: "CConst list"
  constMap :: "(string \<times> nat) list"
  opCount :: PWSOpCount
  token :: string

definition isVariable :: "Primitive \<Rightarrow> bool" where
  "isVariable p = (case p of CONSTANT _ \<Rightarrow> False | _ \<Rightarrow> True)"

definition prim_idx :: "Primitive \<Rightarrow> nat" where
  "prim_idx p = (case p of CONSTANT i \<Rightarrow> i | INTERMEDIATE i \<Rightarrow> i | INPUT_OUTPUT i \<Rightarrow> i)"

section \<open>Primitives\<close>

fun getCircuitPrimitive :: "PWSCircuitParser \<Rightarrow> Primitive \<Rightarrow> CPrimitive option" where
  "getCircuitPrimitive s (CONSTANT i) = (if i < length (constants s) then Some (cc_base (constants s ! i)) else None)"
| "getCircuitPrimitive s (INTERMEDIATE n) = map_option cv_base (map_of (varMap s) n)"
| "getCircuitPrimitive s (INPUT_OUTPUT n) = map_option cv_base (map_of (inOutVarsMap s) n)"

fun upd_prim :: "Primitive \<Rightarrow> (CPrimitive \<Rightarrow> CPrimitive) \<Rightarrow> PWSCircuitParser \<Rightarrow> PWSCircuitParser option" where
  "upd_prim (CONSTANT i) f s =
     (if i < length (constants s)
      then Some (s\<lparr>constants := (constants s)[i := (constants s ! i)\<lparr>cc_base := f (cc_base (constants s ! i))\<rparr>]\<rparr>) else None)"
| "upd_prim (INTERMEDIATE n) f s =
     map_option (\<lambda>v. s\<lparr>varMap := map_set n (v\<lparr>cv_base := f (cv_base v)\<rparr>) (varMap s)\<rparr>) (map_of (varMap s) n)"
| "upd_prim (INPUT_OUTPUT n) f s =
     map_option (\<lambda>v. s\<lparr>inOutVarsMap := map_set n (v\<lparr>cv_base := f (cv_base v)\<rparr>) (inOutVarsMap s)\<rparr>) (map_of (inOutVarsMap s) n)"

fun toPrimitive :: "PWSCircuitParser \<Rightarrow> Primitive \<Rightarrow> Primitive option" where
  "toPrimitive s (CONSTANT i) = (if i < length (constants s) then Some (CONSTANT (cc_name (constants s ! i))) else None)"
| "toPrimitive s (INTERMEDIATE n) = map_option CVar_toPrimitive (map_of (varMap s) n)"
| "toPrimitive s (INPUT_OUTPUT n) = map_option CVar_toPrimitive (map_of (inOutVarsMap s) n)"

definition addVariable :: "VarType \<Rightarrow> nat \<Rightarrow> PWSCircuitParser \<Rightarrow> Primitive \<times> PWSCircuitParser" where
  "addVariable type name s =
     (let testVar = \<lparr>cv_base = CPrimitive_new, varType = type, cv_name = name\<rparr>
      in if isIO testVar
         then (INPUT_OUTPUT name,
               if map_of (inOutVarsMap s) name = None then s\<lparr>inOutVarsMap := map_set name testVar (inOutVarsMap s)\<rparr> else s)
         else (INTERMEDIATE name,
               if map_of (varMap s) name = None then s\<lparr>varMap := map_set name testVar (varMap s)\<rparr> else s))"

definition addConstant :: "string \<Rightarrow> PWSCircuitParser \<Rightarrow> Primitive \<times> PWSCircuitParser" where
  "addConstant constant s =
     (case map_of (constMap s) constant of
        Some i \<Rightarrow> (CONSTANT i, s)
      | None \<Rightarrow> (let n = length (constants s)
          in (CONSTANT n, s\<lparr>constants := constants s @ [\<lparr>cc_base = CPrimitive_new, cc_value = constant, cc_name = n\<rparr>],
                            constMap := map_set constant n (constMap s)\<rparr>)))"

definition makeMagic :: "Primitive \<Rightarrow> PWSCircuitParser \<Rightarrow> PWSCircuitParser option" where
  "makeMagic var s =
     (case var of CONSTANT _ \<Rightarrow> Some s
      | INTERMEDIATE n \<Rightarrow> map_option (\<lambda>v. s\<lparr>varMap := map_set n (v\<lparr>varType := MAGIC\<rparr>) (varMap s)\<rparr>) (map_of (varMap s) n)
      | INPUT_OUTPUT n \<Rightarrow>
          map_option (\<lambda>v. s\<lparr>inOutVarsMap := map_set n (v\<lparr>varType := MAGIC\<rparr>) (inOutVarsMap s)\<rparr>) (map_of (inOutVarsMap s) n))"

section \<open>Gates\<close>

definition getLayer :: "nat \<Rightarrow> 'g list list \<Rightarrow> 'g list list" where
  "getLayer layerNum desc = desc @ replicate (Suc layerNum - length desc) []"

definition gate_at :: "PWSCircuitParser \<Rightarrow> GatePosition \<Rightarrow> GateDescription option" where
  "gate_at s pos =
     (if gp_layer pos < length (circuitDesc s) \<and> gp_name pos < length (circuitDesc s ! gp_layer pos)
      then Some (circuitDesc s ! gp_layer pos ! gp_name pos) else None)"

definition upd_gate :: "GatePosition \<Rightarrow> (GateDescription \<Rightarrow> GateDescription) \<Rightarrow> PWSCircuitParser \<Rightarrow> PWSCircuitParser option" where
  "upd_gate pos f s =
     map_option (\<lambda>d. s\<lparr>circuitDesc := (circuitDesc s)[gp_layer pos := (circuitDesc s ! gp_layer pos)[gp_name pos := f d]]\<rparr>) (gate_at s pos)"

definition gate_bind :: "Primitive \<Rightarrow> GateDescription \<Rightarrow> GateDescription" where
  "gate_bind p d = d\<lparr>boundPrimitive := Some p\<rparr>"

text \<open>\<^verbatim>\<open>Maybe::invalidate\<close> acts on a value that is already invalid.\<close>

definition maybe_invalidate :: "'a option \<Rightarrow> 'a option" where
  "maybe_invalidate m = (if m = None then None else m)"

definition gate_unbind :: "GateDescription \<Rightarrow> GateDescription" where
  "gate_unbind d = d\<lparr>boundPrimitive := maybe_invalidate (boundPrimitive d)\<rparr>"

definition getOpGuard :: "PWSCircuitParser \<Rightarrow> nat list" where
  "getOpGuard s = map length (circuitDesc s)"

definition addGate :: "OpType \<Rightarrow> nat \<Rightarrow> nat \<Rightarrow> nat \<Rightarrow> PWSCircuitParser \<Rightarrow> GatePosition \<times> PWSCircuitParser" where
  "addGate op i1 i2 outLayerNum s =
     (let desc = getLayer outLayerNum (circuitDesc s);
          outLayer = desc ! outLayerNum;
          pos = \<lparr>gp_layer = outLayerNum, gp_name = length outLayer\<rparr>;
          gOut = \<lparr>gd_op = op, gd_pos = pos, gd_in1 = i1, gd_in2 = i2, boundPrimitive = None\<rparr>
      in (pos, s\<lparr>circuitDesc := desc[outLayerNum := outLayer @ [gOut]]\<rparr>))"

text \<open>The loop that unbinds the gates of a variable reads all of them in the variable's lowest layer.\<close>

definition bindVariable :: "Primitive \<Rightarrow> GatePosition \<Rightarrow> PWSCircuitParser \<Rightarrow> PWSCircuitParser option" where
  "bindVariable var gate' s = do {
     v \<leftarrow> getCircuitPrimitive s var;
     s \<leftarrow> fold (\<lambda>it r. Option.bind r (upd_gate \<lparr>gp_layer = nat (minLayer v), gp_name = it\<rparr> gate_unbind)) (gateIndex v) (Some s);
     s \<leftarrow> upd_prim var (bindPos gate') s;
     upd_gate gate' (gate_bind var) s
   }"

definition addToCircuit :: "Primitive \<Rightarrow> PWSCircuitParser \<Rightarrow> PWSCircuitParser option" where
  "addToCircuit p s = do {
     q \<leftarrow> getCircuitPrimitive s p;
     if isBound q then Some s
     else do {
       prim \<leftarrow> toPrimitive s p;
       (case addGate OpCONSTANT 0 0 0 s of (pos, s) \<Rightarrow> bindVariable prim pos s)
     }
   }"

definition addMagicOp :: "MagicVarOperation \<Rightarrow> nat list \<Rightarrow> PWSCircuitParser \<Rightarrow> PWSCircuitParser" where
  "addMagicOp op guard s = s\<lparr>magicOps := magicOps s @ [(guard, op)]\<rparr>"

definition bindOutputConstant_int :: "GatePosition \<Rightarrow> int \<Rightarrow> PWSCircuitParser \<Rightarrow> PWSCircuitParser" where
  "bindOutputConstant_int outGate val s = s\<lparr>outConstantDesc := outConstantDesc s @ [(outGate, int_str val)]\<rparr>"

definition bindOutputConstant :: "Primitive \<Rightarrow> GatePosition \<Rightarrow> PWSCircuitParser \<Rightarrow> PWSCircuitParser option" where
  "bindOutputConstant val outGate s =
     (case val of
        CONSTANT i \<Rightarrow> if i < length (constants s)
          then Some (s\<lparr>outConstantDesc := outConstantDesc s @ [(outGate, cc_value (constants s ! i))]\<rparr>) else None
      | _ \<Rightarrow> Some s)"

section \<open>Promotion\<close>

definition gate_index_at :: "CPrimitive \<Rightarrow> nat \<Rightarrow> GatePosition option" where
  "gate_index_at q layer =
     (if minLayer q \<le> int layer \<and> nat (int layer - minLayer q) < length (gateIndex q)
      then Some \<lparr>gp_layer = layer, gp_name = gateIndex q ! nat (int layer - minLayer q)\<rparr> else None)"

definition push_index :: "GatePosition \<Rightarrow> CPrimitive \<Rightarrow> CPrimitive" where
  "push_index g q = q\<lparr>gateIndex := gateIndex q @ [gp_name g], maxLayer := maxLayer q + 1\<rparr>"

text \<open>The calls of \<^verbatim>\<open>makeGate\<close> and \<^verbatim>\<open>getGate\<close> that \<^verbatim>\<open>promotePrimitive\<close> makes are written out, since they call it in turn; \<open>getGate\<close> and
  \<open>makeGate_prim\<close> below are those functions. An unbound primitive leads to a read of its empty vector of gates.\<close>

partial_function (option) promotePrimitive :: "Primitive \<Rightarrow> nat \<Rightarrow> PWSCircuitParser \<Rightarrow> (GatePosition \<times> PWSCircuitParser) option" where
  [code]: "promotePrimitive p layer s = do {
     q \<leftarrow> getCircuitPrimitive s p;
     if int layer > maxLayer q then
       if maxLayer q < 0 then None
       else do {
         let inLayer = nat (maxLayer q);
         let (zero, s) = addConstant (int_str 0) s;
         s \<leftarrow> addToCircuit p s;
         p' \<leftarrow> getCircuitPrimitive s p;
         (g1, s) \<leftarrow> promotePrimitive p (if inLayer = 0 then nat (minLayer p') else inLayer) s;
         s \<leftarrow> addToCircuit zero s;
         z' \<leftarrow> getCircuitPrimitive s zero;
         (g2, s) \<leftarrow> promotePrimitive zero (if inLayer = 0 then nat (minLayer z') else inLayer) s;
         let (g, s) = addGate OpADD (gp_name g1) (gp_name g2) (inLayer + 1) s;
         prim \<leftarrow> toPrimitive s p;
         s \<leftarrow> upd_gate g (gate_bind prim) s;
         s \<leftarrow> upd_prim p (push_index g) s;
         promotePrimitive p layer s
       }
     else map_option (\<lambda>g. (g, s)) (gate_index_at q layer)
   }"

text \<open>A layer of 0 stands for the lowest layer the primitive has a gate in.\<close>

definition getGate :: "Primitive \<Rightarrow> nat \<Rightarrow> PWSCircuitParser \<Rightarrow> (GatePosition \<times> PWSCircuitParser) option" where
  "getGate p layer s = do {
     s \<leftarrow> addToCircuit p s;
     q \<leftarrow> getCircuitPrimitive s p;
     promotePrimitive p (if layer = 0 then nat (minLayer q) else layer) s
   }"

definition makeGate_prim :: "OpType \<Rightarrow> Primitive \<Rightarrow> Primitive \<Rightarrow> nat \<Rightarrow> PWSCircuitParser \<Rightarrow> (GatePosition \<times> PWSCircuitParser) option" where
  "makeGate_prim op i1 i2 inLayerNum s = do {
     (g1, s) \<leftarrow> getGate i1 inLayerNum s;
     (g2, s) \<leftarrow> getGate i2 inLayerNum s;
     Some (addGate op (gp_name g1) (gp_name g2) (inLayerNum + 1) s)
   }"

text \<open>Where neither primitive is bound the layer is -1, and the gates are read outside their vector.\<close>

definition makeGate_matching :: "OpType \<Rightarrow> Primitive \<Rightarrow> Primitive \<Rightarrow> PWSCircuitParser \<Rightarrow> (GatePosition \<times> PWSCircuitParser) option" where
  "makeGate_matching op p1 p2 s = do {
     i1 \<leftarrow> getCircuitPrimitive s p1;
     i2 \<leftarrow> getCircuitPrimitive s p2;
     if minMatchingLayer i1 i2 < 0 then None
     else makeGate_prim op p1 p2 (nat (minMatchingLayer i1 i2)) s
   }"

partial_function (option) promoteGate_loop :: "GatePosition \<Rightarrow> nat \<Rightarrow> PWSCircuitParser \<Rightarrow> (GatePosition \<times> PWSCircuitParser) option" where
  [code]: "promoteGate_loop gatePos layer s =
     (if layer > gp_layer gatePos then do {
        let (zero, s) = addConstant (int_str 0) s;
        (zeroGate, s) \<leftarrow> getGate zero (gp_layer gatePos) s;
        let (gatePos, s) = addGate OpADD (gp_name gatePos) (gp_name zeroGate) (gp_layer gatePos + 1) s;
        promoteGate_loop gatePos layer s
      }
      else Some (gatePos, s))"

definition promoteGate :: "GatePosition \<Rightarrow> nat \<Rightarrow> PWSCircuitParser \<Rightarrow> (GatePosition \<times> PWSCircuitParser) option" where
  "promoteGate g layer s = do {
     d \<leftarrow> gate_at s g;
     case boundPrimitive d of
       Some p \<Rightarrow> promotePrimitive p layer s
     | None \<Rightarrow> promoteGate_loop g layer s
   }"

section \<open>Gates made of gates\<close>

definition makeGate :: "OpType \<Rightarrow> GatePosition \<Rightarrow> GatePosition \<Rightarrow> PWSCircuitParser \<Rightarrow> (GatePosition \<times> PWSCircuitParser) option" where
  "makeGate op i1 i2 s =
     (if gp_layer i1 \<noteq> gp_layer i2 then do {
        let layer = max (gp_layer i1) (gp_layer i2);
        (gate1, s) \<leftarrow> promoteGate i1 layer s;
        (gate2, s) \<leftarrow> promoteGate i2 layer s;
        Some (addGate op (gp_name gate1) (gp_name gate2) (layer + 1) s)
      }
      else Some (addGate op (gp_name i1) (gp_name i2) (gp_layer i1 + 1) s))"

definition negateGate :: "GatePosition \<Rightarrow> PWSCircuitParser \<Rightarrow> (GatePosition \<times> PWSCircuitParser) option" where
  "negateGate g s = do {
     let (neg1, s) = addConstant (int_str (- 1)) s;
     (neg1Gate, s) \<leftarrow> getGate neg1 (gp_layer g) s;
     Some (addGate OpMUL (gp_name g) (gp_name neg1Gate) (gp_layer g + 1) s)
   }"

definition negatePrimitive :: "Primitive \<Rightarrow> PWSCircuitParser \<Rightarrow> (GatePosition \<times> PWSCircuitParser) option" where
  "negatePrimitive p s =
     (case p of
        CONSTANT i \<Rightarrow>
          if i < length (constants s) then do {
            let constant = cc_value (constants s ! i);
            let negConstant = (if constant \<noteq> [] \<and> hd constant = CHR ''-'' then tl constant else CHR ''-'' # constant);
            let (c, s) = addConstant negConstant s;
            getGate c 0 s
          }
          else None
      | _ \<Rightarrow> do {
          let (neg1, s) = addConstant (int_str (- 1)) s;
          (g, s) \<leftarrow> getGate neg1 0 s;
          negateGate g s
        })"

definition makeSubGate :: "GatePosition \<Rightarrow> GatePosition \<Rightarrow> PWSCircuitParser \<Rightarrow> (GatePosition \<times> PWSCircuitParser) option" where
  "makeSubGate i1 i2 s = do {
     (neg, s) \<leftarrow> negateGate i2 s;
     makeGate OpADD i1 neg s
   }"

definition makeZeroOrOtherGate :: "Primitive \<Rightarrow> mpz \<Rightarrow> PWSCircuitParser \<Rightarrow> (GatePosition \<times> PWSCircuitParser) option" where
  "makeZeroOrOtherGate var other s = do {
     let (otherConst, s) = addConstant (int_str (- other)) s;
     (otherConstGate, s) \<leftarrow> getGate otherConst 0 s;
     (varGate, s) \<leftarrow> getGate var 0 s;
     (nzTerm, s) \<leftarrow> makeGate OpADD otherConstGate varGate s;
     (zOrOtherGate, s) \<leftarrow> makeGate OpMUL varGate nzTerm s;
     Some (zOrOtherGate, bindOutputConstant_int zOrOtherGate 0 s)
   }"

text \<open>The gates of a layer in pairs, from the left.\<close>

fun pair_gates :: "OpType \<Rightarrow> nat \<Rightarrow> GatePosition list \<Rightarrow> PWSCircuitParser \<Rightarrow> GatePosition list \<times> PWSCircuitParser" where
  "pair_gates op outLayer (g1 # g2 # gs) s =
     (let (g, s) = addGate op (gp_name g1) (gp_name g2) outLayer s;
          (out, s) = pair_gates op outLayer gs s
      in (g # out, s))"
| "pair_gates op outLayer gs s = ([], s)"

fun promote_all :: "GatePosition list \<Rightarrow> nat \<Rightarrow> PWSCircuitParser \<Rightarrow> (GatePosition list \<times> PWSCircuitParser) option" where
  "promote_all [] layer s = Some ([], s)"
| "promote_all (g # gs) layer s = do {
     (g', s) \<leftarrow> promoteGate g layer s;
     (gs', s) \<leftarrow> promote_all gs layer s;
     Some (g' # gs', s)
   }"

definition reduce_layer :: "OpType \<Rightarrow> nat \<Rightarrow> GatePosition list \<Rightarrow> PWSCircuitParser \<Rightarrow> (GatePosition list \<times> PWSCircuitParser) option" where
  "reduce_layer op inLayer ins s =
     (if odd (length ins) then do {
        (g, s) \<leftarrow> promoteGate (hd ins) (inLayer + 1) s;
        let (out, s) = pair_gates op (inLayer + 1) (tl ins) s;
        Some (g # out, s)
      }
      else Some (pair_gates op (inLayer + 1) ins s))"

partial_function (option) reduce_loop ::
  "OpType \<Rightarrow> nat \<Rightarrow> GatePosition list \<Rightarrow> PWSCircuitParser \<Rightarrow> (GatePosition list \<times> PWSCircuitParser) option" where
  [code]: "reduce_loop op inLayer ins s =
     (if length ins > 1 then do {
        (out, s) \<leftarrow> reduce_layer op inLayer ins s;
        reduce_loop op (inLayer + 1) out s
      }
      else Some (ins, s))"

definition reduce :: "OpType \<Rightarrow> GatePosition list \<Rightarrow> PWSCircuitParser \<Rightarrow> (GatePosition \<times> PWSCircuitParser) option" where
  "reduce op terms s =
     (if terms = [] then (case addConstant (int_str 0) s of (c, s) \<Rightarrow> getGate c 0 s)
      else if length terms = 1 then Some (hd terms, s)
      else do {
        let inLayer = fold (\<lambda>g m. max m (gp_layer g)) terms 0;
        (ins, s) \<leftarrow> promote_all terms inLayer s;
        (out, s) \<leftarrow> reduce_loop op inLayer ins s;
        Some (hd out, s)
      })"

end
