(* ===== verification/Pws_Constraints.thy ===== *)
theory Pws_Constraints
  imports Pws_Builder Cmt_Env
begin

text \<open>
  The gates that the constraints of a program stand for: comparisons, inequality tests and divisions
  (\<^verbatim>\<open>circuit/pws_circuit_parser.cpp\<close>, the parts of \<^verbatim>\<open>parseLessThanInt\<close>, \<^verbatim>\<open>parseLessThanFloat\<close>, \<^verbatim>\<open>parseNotEqual\<close> and \<^verbatim>\<open>parseDivide\<close>
  after the text has been read), the output layer and the indexes. C++ leaves the order in which two arguments of a
  call are evaluated to the compiler; \<open>rtl\<close> says that it is from right to left.
\<close>

section \<open>Shared steps\<close>

definition gates_of ::
  "bool \<Rightarrow> Primitive \<Rightarrow> Primitive \<Rightarrow> PWSCircuitParser \<Rightarrow> ((GatePosition \<times> GatePosition) \<times> PWSCircuitParser) option" where
  "gates_of rtl p1 p2 s =
     (if rtl then do {
        (g2, s) \<leftarrow> getGate p2 0 s;
        (g1, s) \<leftarrow> getGate p1 0 s;
        Some ((g1, g2), s)
      }
      else do {
        (g1, s) \<leftarrow> getGate p1 0 s;
        (g2, s) \<leftarrow> getGate p2 0 s;
        Some ((g1, g2), s)
      })"

definition makeSub_of :: "bool \<Rightarrow> Primitive \<Rightarrow> Primitive \<Rightarrow> PWSCircuitParser \<Rightarrow> (GatePosition \<times> PWSCircuitParser) option" where
  "makeSub_of rtl p1 p2 s = do {
     ((g1, g2), s) \<leftarrow> gates_of rtl p1 p2 s;
     makeSubGate g1 g2 s
   }"

text \<open>The bits \<open>n0 .. n0 + k - 1\<close> of a difference, each 0 or its power of 2. The first number is the power of the first bit.\<close>

fun bit_gates :: "nat \<Rightarrow> nat \<Rightarrow> mpz \<Rightarrow> PWSCircuitParser \<Rightarrow> ((GatePosition list \<times> mpz) \<times> PWSCircuitParser) option" where
  "bit_gates n0 0 num s = Some (([], num), s)"
| "bit_gates n0 (Suc k) num s = do {
     let (ni, s) = addVariable MAGIC n0 s;
     s \<leftarrow> makeMagic ni s;
     (_, s) \<leftarrow> makeZeroOrOtherGate ni num s;
     (g, s) \<leftarrow> getGate ni 0 s;
     ((gs, num'), s) \<leftarrow> bit_gates (Suc n0) k (2 * num) s;
     Some ((g # gs, num'), s)
   }"

text \<open>The bits and the gate of the number that is taken off their sum.\<close>

definition difference_gates :: "nat \<Rightarrow> nat \<Rightarrow> PWSCircuitParser \<Rightarrow> ((GatePosition list \<times> GatePosition) \<times> PWSCircuitParser) option" where
  "difference_gates n0 k s = do {
     ((nis, num), s) \<leftarrow> bit_gates n0 k 1 s;
     let (c, s) = addConstant (int_str (- num)) s;
     (cg, s) \<leftarrow> getGate c 0 s;
     Some ((nis, cg), s)
   }"

definition flag_gates ::
  "Primitive \<Rightarrow> Primitive \<Rightarrow> Primitive \<Rightarrow> PWSCircuitParser \<Rightarrow> (GatePosition list \<times> PWSCircuitParser) option" where
  "flag_gates mlt meq mgt s = do {
     s \<leftarrow> makeMagic mlt s;
     s \<leftarrow> makeMagic meq s;
     s \<leftarrow> makeMagic mgt s;
     (_, s) \<leftarrow> makeZeroOrOtherGate mlt 1 s;
     (_, s) \<leftarrow> makeZeroOrOtherGate meq 1 s;
     (_, s) \<leftarrow> makeZeroOrOtherGate mgt 1 s;
     (m0, s) \<leftarrow> getGate mlt 0 s;
     (m1, s) \<leftarrow> getGate meq 0 s;
     (m2, s) \<leftarrow> getGate mgt 0 s;
     (total, s) \<leftarrow> reduce OpADD [m0, m1, m2] s;
     Some ([m0, m1, m2], bindOutputConstant_int total 1 s)
   }"

text \<open>What the flags say of the difference, whose gate is \<open>diff\<close>.\<close>

definition compare_gates ::
  "GatePosition list \<Rightarrow> GatePosition \<Rightarrow> GatePosition \<Rightarrow> GatePosition \<Rightarrow> PWSCircuitParser \<Rightarrow> (unit \<times> PWSCircuitParser) option" where
  "compare_gates ms diff x1Subx2 x2Subx1 s = do {
     (a, s) \<leftarrow> makeGate OpADD diff x2Subx1 s;
     (lt, s) \<leftarrow> makeGate OpMUL (ms ! 0) a s;
     let s = bindOutputConstant_int lt 0 s;
     (b, s) \<leftarrow> makeGate OpADD diff x1Subx2 s;
     (gt, s) \<leftarrow> makeGate OpMUL (ms ! 2) b s;
     let s = bindOutputConstant_int gt 0 s;
     (eq, s) \<leftarrow> makeGate OpMUL (ms ! 1) x1Subx2 s;
     Some ((), bindOutputConstant_int eq 0 s)
   }"

definition count_cmp :: "PWSCircuitParser \<Rightarrow> PWSCircuitParser" where
  "count_cmp s = s\<lparr>opCount := (opCount s)\<lparr>numCmps := numCmps (opCount s) + 1\<rparr>\<rparr>"

section \<open>Comparisons\<close>

definition lessThanInt_gates ::
  "bool \<Rightarrow> nat list \<Rightarrow> nat \<Rightarrow> nat \<Rightarrow> Primitive \<Rightarrow> Primitive \<Rightarrow> Primitive \<Rightarrow> Primitive \<Rightarrow> Primitive \<Rightarrow> Primitive \<Rightarrow>
   PWSCircuitParser \<Rightarrow> (unit \<times> PWSCircuitParser) option" where
  "lessThanInt_gates rtl opGuard n0 nVars mlt meq mgt x1 x2 y s = do {
     ((nis, cg), s) \<leftarrow> difference_gates n0 nVars s;
     (ms, s) \<leftarrow> flag_gates mlt meq mgt s;
     (sumNis, s) \<leftarrow> reduce OpADD (nis @ [cg]) s;
     (x1Subx2, s) \<leftarrow> makeSub_of rtl x1 x2 s;
     (x2Subx1, s) \<leftarrow> makeSub_of rtl x2 x1 s;
     (_, s) \<leftarrow> compare_gates ms sumNis x1Subx2 x2Subx1 s;
     s \<leftarrow> bindVariable y (ms ! 0) s;
     ((g1, g2), s) \<leftarrow> gates_of rtl x1 x2 s;
     Some ((), count_cmp (addMagicOp (LessThanIntOperation ms nis g1 g2) opGuard s))
   }"

text \<open>The denominator of a difference of rationals: one bit for each power of 1/2, with the gates of the bits and of their products with
  the powers.\<close>

fun den_gates ::
  "mpz \<Rightarrow> mpz \<Rightarrow> nat \<Rightarrow> nat \<Rightarrow> mpz \<Rightarrow> PWSCircuitParser \<Rightarrow> ((GatePosition list \<times> GatePosition list) \<times> PWSCircuitParser) option" where
  "den_gates prime' half' d0 0 num2 s = Some (([], []), s)"
| "den_gates prime' half' d0 (Suc k) num2 s = do {
     let (di, s) = addVariable MAGIC d0 s;
     s \<leftarrow> makeMagic di s;
     (_, s) \<leftarrow> makeZeroOrOtherGate di 1 s;
     let (c, s) = addConstant (int_str num2) s;
     (constGate, s) \<leftarrow> getGate c 0 s;
     (diGate, s) \<leftarrow> getGate di 0 s;
     (prod', s) \<leftarrow> makeGate OpMUL constGate diGate s;
     ((bits, prods), s) \<leftarrow> den_gates prime' half' (Suc d0) k (modmult num2 half' prime') s;
     Some ((diGate # bits, prod' # prods), s)
   }"

definition lessThanFloat_gates ::
  "bool \<Rightarrow> (mpz \<Rightarrow> mpz \<Rightarrow> mpz) \<Rightarrow> mpz \<Rightarrow> nat list \<Rightarrow> nat \<Rightarrow> nat \<Rightarrow> Primitive \<Rightarrow> nat \<Rightarrow> nat \<Rightarrow> Primitive \<Rightarrow> Primitive \<Rightarrow>
   Primitive \<Rightarrow> Primitive \<Rightarrow> Primitive \<Rightarrow> Primitive \<Rightarrow> Primitive \<Rightarrow> Primitive \<Rightarrow>
   PWSCircuitParser \<Rightarrow> (unit \<times> PWSCircuitParser) option" where
  "lessThanFloat_gates rtl mpz_invert prime' opGuard n0 nAVars n d0 nDVars d nd mlt meq mgt x1 x2 y s = do {
     ((nis, cg), s) \<leftarrow> difference_gates n0 nAVars s;
     (nGate, s) \<leftarrow> reduce OpADD (nis @ [cg]) s;
     s \<leftarrow> bindVariable n nGate s;
     ((bitDis, dis), s) \<leftarrow> den_gates prime' (mpz_invert 2 prime') d0 nDVars 1 s;
     (diUniqueGate, s) \<leftarrow> reduce OpADD bitDis s;
     let s = bindOutputConstant_int diUniqueGate 1 s;
     (dGate, s) \<leftarrow> reduce OpADD dis s;
     s \<leftarrow> bindVariable d dGate s;
     (ndGate, s) \<leftarrow> makeGate OpMUL nGate dGate s;
     s \<leftarrow> bindVariable nd ndGate s;
     (ms, s) \<leftarrow> flag_gates mlt meq mgt s;
     (x1Subx2, s) \<leftarrow> makeSub_of rtl x1 x2 s;
     (x2Subx1, s) \<leftarrow> makeSub_of rtl x2 x1 s;
     (_, s) \<leftarrow> compare_gates ms ndGate x1Subx2 x2Subx1 s;
     s \<leftarrow> bindVariable y (ms ! 0) s;
     ((g1, g2), s) \<leftarrow> gates_of rtl x1 x2 s;
     Some ((), count_cmp (addMagicOp (LessThanFloatOperation ms nis bitDis g1 g2) opGuard s))
   }"

section \<open>Inequality and division\<close>

definition notEqual_gates ::
  "bool \<Rightarrow> nat list \<Rightarrow> Primitive \<Rightarrow> Primitive \<Rightarrow> Primitive \<Rightarrow> Primitive \<Rightarrow> PWSCircuitParser \<Rightarrow> (unit \<times> PWSCircuitParser) option" where
  "notEqual_gates rtl opGuard m x1 x2 y s = do {
     s \<leftarrow> makeMagic m s;
     (mGate, s) \<leftarrow> getGate m 0 s;
     (x1Subx2, s) \<leftarrow> makeSub_of rtl x1 x2 s;
     (x2Subx1, s) \<leftarrow> makeSub_of rtl x2 x1 s;
     (mTimesDiff, s) \<leftarrow> makeGate OpMUL mGate x1Subx2 s;
     (negMTimesDiff, s) \<leftarrow> makeGate OpMUL mTimesDiff x2Subx1 s;
     (check, s) \<leftarrow> makeGate OpADD negMTimesDiff x1Subx2 s;
     s \<leftarrow> bindVariable y mTimesDiff s;
     let s = bindOutputConstant_int check 0 s;
     ((g1, g2), s) \<leftarrow> gates_of rtl x1 x2 s;
     let s = addMagicOp (NotEqualOperation mGate g1 g2) opGuard s;
     Some ((), s\<lparr>opCount := (opCount s)\<lparr>numIneqs := numIneqs (opCount s) + 1\<rparr>\<rparr>)
   }"

definition count_div :: "PWSCircuitParser \<Rightarrow> PWSCircuitParser" where
  "count_div s = s\<lparr>opCount := (opCount s)\<lparr>numIntDivs := numIntDivs (opCount s) + 1\<rparr>\<rparr>"

definition divide_gates ::
  "(mpz \<Rightarrow> mpz \<Rightarrow> mpz) \<Rightarrow> mpz \<Rightarrow> Primitive \<Rightarrow> Primitive \<Rightarrow> mpz \<Rightarrow> PWSCircuitParser \<Rightarrow> (unit \<times> PWSCircuitParser) option" where
  "divide_gates mpz_invert prime' p dividend divisor s = do {
     let (c, s) = addConstant (int_str (mpz_invert divisor prime')) s;
     (divisorGate, s) \<leftarrow> getGate c 0 s;
     (dividendGate, s) \<leftarrow> getGate dividend 0 s;
     (quotientGate, s) \<leftarrow> makeGate OpDIV_INT dividendGate divisorGate s;
     s \<leftarrow> bindVariable p quotientGate s;
     Some ((), count_div s)
   }"

section \<open>Outputs and indexes\<close>

definition bound_outputs :: "PWSCircuitParser \<Rightarrow> (nat \<times> CVar) list" where
  "bound_outputs s = filter (\<lambda>(_, v). varType v = OUTPUT \<and> isBound (cv_base v)) (inOutVarsMap s)"

definition push_outConstant :: "string \<Rightarrow> nat \<Rightarrow> PWSCircuitParser \<Rightarrow> PWSCircuitParser" where
  "push_outConstant v n s =
     s\<lparr>outConstants := map_set v ((case map_of (outConstants s) v of None \<Rightarrow> [] | Some ns \<Rightarrow> ns) @ [n]) (outConstants s)\<rparr>"

definition output_layer :: "PWSCircuitParser \<Rightarrow> nat" where
  "output_layer s =
     fold (\<lambda>(_, v) m. max (nat (minLayer (cv_base v))) m) (bound_outputs s)
       (fold (\<lambda>(g, _) m. max (gp_layer g) m) (outConstantDesc s) 0)"

text \<open>\<^verbatim>\<open>outputGateBegin\<close> starts at the largest \<^verbatim>\<open>int\<close>.\<close>

definition makeOutputLayer :: "PWSCircuitParser \<Rightarrow> PWSCircuitParser option" where
  "makeOutputLayer s = do {
     let begin' = fold (\<lambda>(_, v) m. min m (int (cv_name v))) (bound_outputs s) (2 ^ 31 - 1);
     let outputLayer = output_layer s;
     let s = s\<lparr>outputGateBegin := nat begin'\<rparr>;
     s \<leftarrow> fold (\<lambda>(g, v) r. Option.bind r (\<lambda>s. do {
            (newPos, s) \<leftarrow> promoteGate g outputLayer s;
            Some (push_outConstant v (gp_name newPos) s)
          })) (outConstantDesc s) (Some s);
     fold (\<lambda>(n, _) r. Option.bind r (\<lambda>s. map_option snd (promotePrimitive (INPUT_OUTPUT n) outputLayer s)))
       (bound_outputs s) (Some s)
   }"

definition constructInvertedIndexes :: "PWSCircuitParser \<Rightarrow> PWSCircuitParser" where
  "constructInvertedIndexes s =
     (let io = filter (\<lambda>(_, v). isBound (cv_base v)) (inOutVarsMap s);
          vs = filter (\<lambda>(_, v). isBound (cv_base v) \<and> varType v = MAGIC) (varMap s);
          cs = filter (\<lambda>c. isBound (cc_base c)) (constants s)
      in s\<lparr>pwsOutGates := fold (\<lambda>(_, v). map_set (cv_name v) (last (gateIndex (cv_base v)))) (filter (\<lambda>(_, v). varType v = OUTPUT) io) (pwsOutGates s),
           pwsInGates := fold (\<lambda>(_, v). map_set (cv_name v) (hd (gateIndex (cv_base v)))) (filter (\<lambda>(_, v). varType v = INPUT) io) (pwsInGates s),
           pwsMagicGates := pwsMagicGates s @ map (\<lambda>(_, v). hd (gateIndex (cv_base v))) vs,
           inConstants := inConstants s @ map (\<lambda>c. (cc_value c, hd (gateIndex (cc_base c)))) cs\<rparr>)"

definition clearPrivate :: "PWSCircuitParser \<Rightarrow> PWSCircuitParser" where
  "clearPrivate s =
     s\<lparr>varMap := [], inOutVarsMap := [], outConstantDesc := [], constants := [], constMap := [],
       circuitDesc := map (map gate_unbind) (circuitDesc s)\<rparr>"

definition clearIndexes :: "PWSCircuitParser \<Rightarrow> PWSCircuitParser" where
  "clearIndexes s = s\<lparr>outConstants := [], inConstants := [], pwsInGates := [], pwsOutGates := [], pwsMagicGates := []\<rparr>"

definition parser_clear :: "PWSCircuitParser \<Rightarrow> PWSCircuitParser" where
  "parser_clear s = (clearIndexes (clearPrivate s))\<lparr>circuitDesc := [], magicOps := [], opCount := PWSOpCount_clear\<rparr>"

text \<open>The constructor leaves \<^verbatim>\<open>outputGateBegin\<close> without a value; \<open>makeOutputLayer\<close> gives it one before it is read.\<close>

definition parser_new :: "nat \<Rightarrow> PWSCircuitParser" where
  "parser_new any = \<lparr>circuitDesc = [], magicOps = [], outConstants = [], inConstants = [], outputGateBegin = any, pwsInGates = [],
     pwsOutGates = [], pwsMagicGates = [], varMap = [], inOutVarsMap = [], outConstantDesc = [], constants = [], constMap = [],
     opCount = PWSOpCount_clear, token = []\<rparr>"

end
