(* ===== verification/Pws_Wf.thy ===== *)
theory Pws_Wf
  imports Pws_Constraints
begin

text \<open>
  The invariant of the description that the parser builds: every gate above the inputs has its inputs in the layer below, a gate
  knows its position, and every constant and variable refers to gates that exist, one in each layer from its lowest to its
  highest. Every operation of the builder that returns keeps it, on whatever it is applied to.
\<close>

section \<open>The invariant\<close>

definition valid_pos :: "GateDescription list list \<Rightarrow> GatePosition \<Rightarrow> bool" where
  "valid_pos desc g \<longleftrightarrow> gp_layer g < length desc \<and> gp_name g < length (desc ! gp_layer g)"

definition gate_wf :: "GateDescription list list \<Rightarrow> nat \<Rightarrow> nat \<Rightarrow> bool" where
  "gate_wf desc l j \<longleftrightarrow>
     (let d = desc ! l ! j
      in gd_pos d = \<lparr>gp_layer = l, gp_name = j\<rparr> \<and>
         (if l = 0 then gd_op d = OpCONSTANT
          else gd_op d \<noteq> OpCONSTANT \<and> gd_in1 d < length (desc ! (l - 1)) \<and> gd_in2 d < length (desc ! (l - 1))))"

definition desc_wf :: "GateDescription list list \<Rightarrow> bool" where
  "desc_wf desc \<longleftrightarrow> (\<forall>l < length desc. \<forall>j < length (desc ! l). gate_wf desc l j)"

definition prim_wf :: "GateDescription list list \<Rightarrow> CPrimitive \<Rightarrow> bool" where
  "prim_wf desc q \<longleftrightarrow>
     (if isBound q
      then 0 \<le> minLayer q \<and> maxLayer q = minLayer q + int (length (gateIndex q)) - 1 \<and>
           (\<forall>k < length (gateIndex q). valid_pos desc \<lparr>gp_layer = nat (minLayer q) + k, gp_name = gateIndex q ! k\<rparr>)
      else minLayer q = - 1 \<and> maxLayer q = - 1)"

definition tables_wf :: "PWSCircuitParser \<Rightarrow> bool" where
  "tables_wf s \<longleftrightarrow>
     (\<forall>i < length (constants s). cc_name (constants s ! i) = i) \<and>
     (\<forall>c i. map_of (constMap s) c = Some i \<longrightarrow> i < length (constants s) \<and> cc_value (constants s ! i) = c)"

fun op_positions :: "MagicVarOperation \<Rightarrow> GatePosition list" where
  "op_positions (NotEqualOperation m x1 x2) = [m, x1, x2]"
| "op_positions (LessThanIntOperation ms ns x1 x2) = ms @ ns @ [x1, x2]"
| "op_positions (LessThanFloatOperation ms ns ds x1 x2) = ms @ ns @ ds @ [x1, x2]"

definition guard_wf :: "GateDescription list list \<Rightarrow> nat list \<Rightarrow> bool" where
  "guard_wf desc guard \<longleftrightarrow> length guard \<le> length desc \<and> (\<forall>l < length guard. guard ! l \<le> length (desc ! l))"

definition refs_wf :: "PWSCircuitParser \<Rightarrow> bool" where
  "refs_wf s \<longleftrightarrow>
     (\<forall>(g, v) \<in> set (outConstantDesc s). valid_pos (circuitDesc s) g) \<and>
     (\<forall>(guard, op) \<in> set (magicOps s). guard_wf (circuitDesc s) guard \<and> list_all (valid_pos (circuitDesc s)) (op_positions op))"

text \<open>Constants are in the input layer.\<close>

definition const_wf :: "Primitive \<Rightarrow> CPrimitive \<Rightarrow> bool" where
  "const_wf p q \<longleftrightarrow> isVariable p \<or> \<not> isBound q \<or> minLayer q = 0"

definition prims_wf :: "PWSCircuitParser \<Rightarrow> bool" where
  "prims_wf s \<longleftrightarrow> (\<forall>p q. getCircuitPrimitive s p = Some q \<longrightarrow> prim_wf (circuitDesc s) q \<and> const_wf p q)"

definition pwf :: "PWSCircuitParser \<Rightarrow> bool" where
  "pwf s \<longleftrightarrow> desc_wf (circuitDesc s) \<and> prims_wf s \<and> tables_wf s \<and> refs_wf s"

definition desc_grows :: "GateDescription list list \<Rightarrow> GateDescription list list \<Rightarrow> bool" where
  "desc_grows d d' \<longleftrightarrow> length d \<le> length d' \<and> (\<forall>l < length d. length (d ! l) \<le> length (d' ! l))"

abbreviation grows :: "PWSCircuitParser \<Rightarrow> PWSCircuitParser \<Rightarrow> bool" where
  "grows s s' \<equiv> desc_grows (circuitDesc s) (circuitDesc s')"

abbreviation pos_in :: "PWSCircuitParser \<Rightarrow> GatePosition \<Rightarrow> bool" where
  "pos_in s \<equiv> valid_pos (circuitDesc s)"

section \<open>Growth\<close>

lemma desc_grows_refl [simp]: "desc_grows d d"
  by (simp add: desc_grows_def)

lemma desc_grows_trans: "desc_grows d d' \<Longrightarrow> desc_grows d' d'' \<Longrightarrow> desc_grows d d''"
  unfolding desc_grows_def by (meson le_trans order_less_le_trans)

lemma valid_pos_grows: "valid_pos d g \<Longrightarrow> desc_grows d d' \<Longrightarrow> valid_pos d' g"
  unfolding valid_pos_def desc_grows_def by (meson order_less_le_trans)

lemma prim_wf_grows: "prim_wf d q \<Longrightarrow> desc_grows d d' \<Longrightarrow> prim_wf d' q"
  unfolding prim_wf_def using valid_pos_grows by (metis (no_types, lifting))

lemma guard_wf_grows: "guard_wf d q \<Longrightarrow> desc_grows d d' \<Longrightarrow> guard_wf d' q"
  unfolding guard_wf_def desc_grows_def by (meson le_trans order_less_le_trans)

lemma getOpGuard_wf: "guard_wf (circuitDesc s) (getOpGuard s)"
  by (simp add: guard_wf_def getOpGuard_def)

text \<open>A change of the description that keeps the tables.\<close>

lemma refs_wf_grows:
  assumes "refs_wf s" "grows s s'" "outConstantDesc s' = outConstantDesc s" "magicOps s' = magicOps s"
  shows "refs_wf s'"
  using assms(1) unfolding refs_wf_def assms(3,4) list_all_iff
  using valid_pos_grows [OF _ assms(2)] guard_wf_grows [OF _ assms(2)] by fast

lemma prims_wf_grows:
  assumes "prims_wf s" "grows s s'" "\<And>p. getCircuitPrimitive s' p = getCircuitPrimitive s p"
  shows "prims_wf s'"
  using assms prim_wf_grows unfolding prims_wf_def by metis

lemma getCircuitPrimitive_cong:
  "constants s' = constants s \<Longrightarrow> varMap s' = varMap s \<Longrightarrow> inOutVarsMap s' = inOutVarsMap s \<Longrightarrow>
   getCircuitPrimitive s' p = getCircuitPrimitive s p"
  by (cases p) auto

lemma toPrimitive_cong:
  "constants s' = constants s \<Longrightarrow> varMap s' = varMap s \<Longrightarrow> inOutVarsMap s' = inOutVarsMap s \<Longrightarrow> toPrimitive s' p = toPrimitive s p"
  by (cases p) auto

section \<open>Elementary operations\<close>

lemma map_update_same: "f x = f (xs ! i) \<Longrightarrow> map f (xs[i := x]) = map f xs"
  by (cases "i < length xs") (auto intro!: nth_equalityI simp: nth_list_update)

lemma upd_prim_fields:
  assumes "upd_prim p f s = Some s'"
  shows "circuitDesc s' = circuitDesc s \<and> outConstantDesc s' = outConstantDesc s \<and> magicOps s' = magicOps s \<and> constMap s' = constMap s \<and>
    map cc_name (constants s') = map cc_name (constants s) \<and> map cc_value (constants s') = map cc_value (constants s) \<and> token s' = token s"
proof (cases p)
  case (CONSTANT i)
  then have "s' = s\<lparr>constants := (constants s)[i := (constants s ! i)\<lparr>cc_base := f (cc_base (constants s ! i))\<rparr>]\<rparr>"
    using assms by (simp split: if_splits)
  then show ?thesis by (simp add: map_update_same)
qed (use assms in auto)

lemma upd_prim_get:
  assumes "upd_prim p f s = Some s'"
  shows "getCircuitPrimitive s' p' = (if p' = p then map_option f (getCircuitPrimitive s p) else getCircuitPrimitive s p')"
proof (cases p)
  case (CONSTANT i)
  then show ?thesis using assms by (cases p') (auto split: if_splits simp: nth_list_update)
next
  case (INTERMEDIATE n)
  then show ?thesis using assms by (cases p') auto
next
  case (INPUT_OUTPUT n)
  then show ?thesis using assms by (cases p') auto
qed

lemma upd_prim_Some: "getCircuitPrimitive s p = Some q \<Longrightarrow> \<exists>s'. upd_prim p f s = Some s'"
  by (cases p) (auto split: if_splits)

lemma tables_wf_map:
  assumes "tables_wf s" "constMap s' = constMap s" "map cc_name (constants s') = map cc_name (constants s)"
    "map cc_value (constants s') = map cc_value (constants s)"
  shows "tables_wf s'"
proof -
  have l: "length (constants s') = length (constants s)" by (metis assms(3) length_map)
  have "\<And>i. i < length (constants s) \<Longrightarrow> cc_name (constants s' ! i) = cc_name (constants s ! i) \<and> cc_value (constants s' ! i) = cc_value (constants s ! i)"
    by (metis assms(3,4) l nth_map)
  then show ?thesis using assms(1,2) l by (auto simp: tables_wf_def)
qed

lemma pwf_upd_prim:
  assumes "pwf s" "upd_prim p f s = Some s'" "\<And>q. getCircuitPrimitive s p = Some q \<Longrightarrow> prim_wf (circuitDesc s) (f q) \<and> const_wf p (f q)"
  shows "pwf s'"
proof -
  note F = upd_prim_fields [OF assms(2)]
  have "prims_wf s'" using assms(1,3) by (auto simp: pwf_def prims_wf_def F upd_prim_get [OF assms(2)])
  moreover have "refs_wf s'" by (rule refs_wf_grows [of s]) (use assms(1) F in \<open>auto simp: pwf_def\<close>)
  moreover have "tables_wf s'" by (rule tables_wf_map [of s]) (use assms(1) F in \<open>auto simp: pwf_def\<close>)
  ultimately show ?thesis using assms(1) F by (simp add: pwf_def)
qed

lemma gate_unbind_id [simp]: "gate_unbind d = d"
  by (simp add: gate_unbind_def maybe_invalidate_def)

lemma gate_at_Some: "gate_at s g = (if pos_in s g then Some (circuitDesc s ! gp_layer g ! gp_name g) else None)"
  by (simp add: gate_at_def valid_pos_def)

lemma unbind_loop:
  "fold (\<lambda>it r. Option.bind r (upd_gate \<lparr>gp_layer = l, gp_name = it\<rparr> gate_unbind)) is (Some s) =
     (if list_all (\<lambda>i. pos_in s \<lparr>gp_layer = l, gp_name = i\<rparr>) is then Some s else None)"
proof (induction "is")
  case (Cons i "is")
  have u: "upd_gate \<lparr>gp_layer = l, gp_name = i\<rparr> gate_unbind s = (if pos_in s \<lparr>gp_layer = l, gp_name = i\<rparr> then Some s else None)"
    by (auto simp: upd_gate_def gate_at_Some)
  have n: "fold (\<lambda>it r. Option.bind r (upd_gate \<lparr>gp_layer = l, gp_name = it\<rparr> gate_unbind)) is None = None" for "is"
    by (induction "is") auto
  show ?case using Cons by (simp add: u n del: gate_unbind_id)
qed simp

lemma upd_gate_bind:
  assumes "upd_gate g (gate_bind p) s = Some s'"
  shows "pos_in s g" "s' = s\<lparr>circuitDesc := (circuitDesc s)[gp_layer g := (circuitDesc s ! gp_layer g)
      [gp_name g := gate_bind p (circuitDesc s ! gp_layer g ! gp_name g)]]\<rparr>"
  using assms by (auto simp: upd_gate_def gate_at_Some split: if_splits)

lemma shape_upd: "length (ds[l := (ds ! l)[n := d]] ! l') = length (ds ! l')" "length (ds[l := (ds ! l)[n := d]]) = length ds"
  by (cases "l < length ds") (simp_all add: nth_list_update list_update_beyond)

lemma valid_pos_shape:
  "length d' = length d \<Longrightarrow> (\<And>l. length (d' ! l) = length (d ! l)) \<Longrightarrow> valid_pos d' = valid_pos d"
  by (auto simp: valid_pos_def fun_eq_iff)

lemma desc_grows_upd [simp]: "desc_grows ds (ds[l := (ds ! l)[n := d]])"
  by (simp add: desc_grows_def shape_upd)

lemma valid_pos_upd [simp]: "valid_pos (ds[l := (ds ! l)[n := d]]) = valid_pos ds"
  by (rule valid_pos_shape) (simp_all add: shape_upd)

lemma desc_wf_bind:
  assumes "desc_wf ds"
  shows "desc_wf (ds[l := (ds ! l)[n := gate_bind p (ds ! l ! n)]])"
proof -
  let ?d = "ds[l := (ds ! l)[n := gate_bind p (ds ! l ! n)]]"
  have g: "gd_pos (?d ! l' ! j) = gd_pos (ds ! l' ! j) \<and> gd_op (?d ! l' ! j) = gd_op (ds ! l' ! j) \<and>
      gd_in1 (?d ! l' ! j) = gd_in1 (ds ! l' ! j) \<and> gd_in2 (?d ! l' ! j) = gd_in2 (ds ! l' ! j)"
    if "l' < length ds" "j < length (ds ! l')" for l' j
    using that by (cases "l' = l"; cases "j = n") (auto simp: gate_bind_def)
  show ?thesis using assms g unfolding desc_wf_def gate_wf_def shape_upd Let_def by auto
qed

lemma pwf_upd_gate:
  assumes "pwf s" "upd_gate g (gate_bind p) s = Some s'"
  shows "pwf s' \<and> grows s s'"
proof -
  note s' = upd_gate_bind [OF assms(2)]
  have gr: "grows s s'" unfolding s'(2) by simp
  have "prims_wf s'" by (rule prims_wf_grows [OF _ gr]) (use assms(1) in \<open>auto simp: pwf_def s'(2) intro: getCircuitPrimitive_cong\<close>)
  moreover have "refs_wf s'" by (rule refs_wf_grows [OF _ gr]) (use assms(1) in \<open>auto simp: pwf_def s'(2)\<close>)
  moreover have "tables_wf s'" by (rule tables_wf_map [of s]) (use assms(1) in \<open>auto simp: pwf_def s'(2)\<close>)
  ultimately show ?thesis using assms(1) gr desc_wf_bind by (simp add: pwf_def s'(2))
qed

section \<open>Adding gates, constants and variables\<close>

lemma getLayer_nth: "getLayer l desc ! i = (if i < length desc then desc ! i else [])" if "i < length (getLayer l desc)"
  using that by (auto simp: getLayer_def nth_append)

lemma length_getLayer: "length (getLayer l desc) = max (Suc l) (length desc)"
  by (simp add: getLayer_def)

text \<open>What \<open>addGate\<close> does to the description.\<close>

lemma addGate_desc:
  assumes "addGate op a b l s = (g, s')"
  shows "length (circuitDesc s') = max (Suc l) (length (circuitDesc s))"
    "\<And>i. i < length (circuitDesc s') \<Longrightarrow> circuitDesc s' ! i = (if i < length (circuitDesc s) then circuitDesc s ! i else []) @
       (if i = l then [\<lparr>gd_op = op, gd_pos = g, gd_in1 = a, gd_in2 = b, boundPrimitive = None\<rparr>] else [])"
    "gp_layer g = l" "gp_name g = (if l < length (circuitDesc s) then length (circuitDesc s ! l) else 0)"
  using assms by (auto simp: addGate_def Let_def length_getLayer getLayer_nth nth_list_update)

lemma addGate_fields:
  assumes "addGate op a b l s = (g, s')"
  shows "constants s' = constants s" "constMap s' = constMap s" "varMap s' = varMap s" "inOutVarsMap s' = inOutVarsMap s"
    "outConstantDesc s' = outConstantDesc s" "magicOps s' = magicOps s"
    "getCircuitPrimitive s' p = getCircuitPrimitive s p" "toPrimitive s' p = toPrimitive s p" "token s' = token s"
  using assms by (auto simp: addGate_def Let_def intro: getCircuitPrimitive_cong toPrimitive_cong)

lemma addGate_grows:
  assumes "addGate op a b l s = (g, s')"
  shows "grows s s'" "pos_in s' g"
proof -
  note A = addGate_desc [OF assms]
  show "grows s s'" using A(1,2) by (simp add: desc_grows_def)
  show "pos_in s' g" using A(1,3,4) A(2) [of l] by (simp add: valid_pos_def)
qed

lemma pwf_addGate:
  assumes "pwf s" "addGate op a b l s = (g, s')"
    and "if l = 0 then op = OpCONSTANT
         else op \<noteq> OpCONSTANT \<and> pos_in s \<lparr>gp_layer = l - 1, gp_name = a\<rparr> \<and> pos_in s \<lparr>gp_layer = l - 1, gp_name = b\<rparr>"
  shows "pwf s'"
proof -
  note A = addGate_desc [OF assms(2)] and F = addGate_fields [OF assms(2)] and gr = addGate_grows(1) [OF assms(2)]
  have len: "length (circuitDesc s) \<le> length (circuitDesc s')" using A(1) by simp
  have "gate_wf (circuitDesc s') i j" if i: "i < length (circuitDesc s')" and j: "j < length (circuitDesc s' ! i)" for i j
  proof (cases "i < length (circuitDesc s) \<and> j < length (circuitDesc s ! i)")
    case True
    then have "gate_wf (circuitDesc s) i j" using assms(1) by (simp add: pwf_def desc_wf_def)
    moreover have "circuitDesc s' ! i ! j = circuitDesc s ! i ! j" using A(2) [OF i] True by (simp add: nth_append)
    moreover have "length (circuitDesc s ! (i - 1)) \<le> length (circuitDesc s' ! (i - 1))" using gr True less_imp_diff_less by (simp add: desc_grows_def)
    ultimately show ?thesis by (auto simp: gate_wf_def Let_def split: if_splits)
  next
    case False
    then have ij: "i = l" "j = gp_name g" using A(2) [OF i] j A(4) by (auto split: if_splits)
    then have d: "circuitDesc s' ! i ! j = \<lparr>gd_op = op, gd_pos = g, gd_in1 = a, gd_in2 = b, boundPrimitive = None\<rparr>"
      using A(2) [OF i] A(4) by (simp add: nth_append)
    have "g = \<lparr>gp_layer = l, gp_name = j\<rparr>" using ij(2) A(3) by simp
    moreover have "a < length (circuitDesc s' ! (l - 1)) \<and> b < length (circuitDesc s' ! (l - 1))" if "l \<noteq> 0"
      using assms(3) that gr len unfolding desc_grows_def valid_pos_def by (auto intro: order_less_le_trans)
    ultimately show ?thesis using assms(3) d ij(1) by (auto simp: gate_wf_def Let_def split: if_splits)
  qed
  then have "desc_wf (circuitDesc s')" by (simp add: desc_wf_def)
  moreover have "prims_wf s'" by (rule prims_wf_grows [OF _ gr]) (use assms(1) F in \<open>auto simp: pwf_def\<close>)
  moreover have "refs_wf s'" by (rule refs_wf_grows [OF _ gr]) (use assms(1) F in \<open>auto simp: pwf_def\<close>)
  moreover have "tables_wf s'" by (rule tables_wf_map [of s]) (use assms(1) F in \<open>auto simp: pwf_def\<close>)
  ultimately show ?thesis by (simp add: pwf_def)
qed

text \<open>A step of the builder: the invariant holds after it, and gates and names of constants stay.\<close>

definition pstep :: "PWSCircuitParser \<Rightarrow> PWSCircuitParser \<Rightarrow> bool" where
  "pstep s s' \<longleftrightarrow> pwf s' \<and> grows s s' \<and> map_of (constMap s) \<subseteq>\<^sub>m map_of (constMap s') \<and> token s' = token s"

lemma pstep_refl [simp]: "pstep s s \<longleftrightarrow> pwf s"
  by (simp add: pstep_def)

lemma pstep_trans: "pstep s s' \<Longrightarrow> pstep s' s'' \<Longrightarrow> pstep s s''"
  unfolding pstep_def using desc_grows_trans map_le_trans by metis

lemma pstep_pwf: "pstep s s' \<Longrightarrow> pwf s'"
  by (simp add: pstep_def)

lemma pstep_pos: "pstep s s' \<Longrightarrow> pos_in s g \<Longrightarrow> pos_in s' g"
  by (auto simp: pstep_def intro: valid_pos_grows)

lemma pstep_addGate:
  assumes "pwf s" "addGate op a b l s = (g, s')"
    and "if l = 0 then op = OpCONSTANT
         else op \<noteq> OpCONSTANT \<and> pos_in s \<lparr>gp_layer = l - 1, gp_name = a\<rparr> \<and> pos_in s \<lparr>gp_layer = l - 1, gp_name = b\<rparr>"
  shows "pstep s s'" "pos_in s' g" "gp_layer g = l"
  using pwf_addGate [OF assms] addGate_grows [OF assms(2)] addGate_fields [OF assms(2)] addGate_desc(3) [OF assms(2)]
  by (simp_all add: pstep_def)

lemma prim_wf_new: "prim_wf desc CPrimitive_new \<and> const_wf p CPrimitive_new"
  by (simp add: prim_wf_def CPrimitive_new_def isBound_def const_wf_def)

lemma addConstant_fields:
  assumes "addConstant c s = (p, s')"
  shows "circuitDesc s' = circuitDesc s" "outConstantDesc s' = outConstantDesc s" "magicOps s' = magicOps s"
    "map_of (constMap s') = (map_of (constMap s))(c \<mapsto> prim_idx p)" "p = CONSTANT (prim_idx p)" "token s' = token s"
  using assms by (auto simp: addConstant_def Let_def prim_idx_def split: option.splits)

lemma addConstant_get:
  assumes "tables_wf s" "addConstant c s = (p, s')"
  shows "getCircuitPrimitive s' p' = (if p' = p \<and> getCircuitPrimitive s p = None then Some CPrimitive_new else getCircuitPrimitive s p')"
  using assms by (cases p') (auto simp: addConstant_def Let_def nth_append tables_wf_def split: option.splits)

lemma tables_wf_addConstant:
  assumes "tables_wf s" "addConstant c s = (p, s')"
  shows "tables_wf s'"
proof (cases "map_of (constMap s) c")
  case None
  then have s': "constants s' = constants s @ [\<lparr>cc_base = CPrimitive_new, cc_value = c, cc_name = length (constants s)\<rparr>]"
      "constMap s' = map_set c (length (constants s)) (constMap s)"
    using assms(2) by (auto simp: addConstant_def Let_def)
  show ?thesis using assms(1) unfolding tables_wf_def s' by (auto simp: nth_append less_Suc_eq)
qed (use assms in \<open>auto simp: addConstant_def\<close>)

lemma pstep_addConstant:
  assumes "pwf s" "addConstant c s = (p, s')"
  shows "pstep s s'" "\<exists>q. getCircuitPrimitive s' p = Some q"
proof -
  note F = addConstant_fields [OF assms(2)]
  have t: "tables_wf s" using assms(1) by (simp add: pwf_def)
  note G = addConstant_get [OF t assms(2)]
  have "prims_wf s'" using assms(1) prim_wf_new by (auto simp: pwf_def prims_wf_def G F(1))
  moreover have "refs_wf s'" by (rule refs_wf_grows [of s]) (use assms(1) F in \<open>auto simp: pwf_def\<close>)
  moreover have "map_of (constMap s) \<subseteq>\<^sub>m map_of (constMap s')"
    using assms(2) by (auto simp: addConstant_def Let_def map_le_def split: option.splits)
  ultimately show "pstep s s'" using assms(1) F tables_wf_addConstant [OF t assms(2)] by (simp add: pstep_def pwf_def)
  show "\<exists>q. getCircuitPrimitive s' p = Some q" by (auto simp: G)
qed

text \<open>A change of the variables that keeps what they are bound to, or adds one that is not bound.\<close>

lemma pstep_vars:
  assumes "pwf s" "circuitDesc s' = circuitDesc s" "constants s' = constants s" "constMap s' = constMap s"
    "outConstantDesc s' = outConstantDesc s" "magicOps s' = magicOps s" "token s' = token s"
    and "\<And>p q. getCircuitPrimitive s' p = Some q \<Longrightarrow> getCircuitPrimitive s p = Some q \<or> q = CPrimitive_new"
  shows "pstep s s'"
proof -
  have "refs_wf s'" by (rule refs_wf_grows [of s]) (use assms in \<open>auto simp: pwf_def\<close>)
  moreover have "prims_wf s'" using assms(1,2,8) prim_wf_new unfolding pwf_def prims_wf_def by metis
  moreover have "tables_wf s'" by (rule tables_wf_map [of s]) (use assms in \<open>auto simp: pwf_def\<close>)
  ultimately show ?thesis using assms(1,2,4,7) by (simp add: pstep_def pwf_def)
qed

lemma addVariable_get:
  assumes "addVariable ty n s = (p, s')"
  shows "getCircuitPrimitive s' p' = (if p' = p \<and> getCircuitPrimitive s p = None then Some CPrimitive_new else getCircuitPrimitive s p')"
    "isVariable p"
  using assms by (cases p'; auto simp: addVariable_def Let_def isVariable_def split: if_splits)+

lemma pstep_addVariable:
  assumes "pwf s" "addVariable ty n s = (p, s')"
  shows "pstep s s'" "\<exists>q. getCircuitPrimitive s' p = Some q"
proof -
  note G = addVariable_get(1) [OF assms(2)]
  have "circuitDesc s' = circuitDesc s" "constants s' = constants s" "constMap s' = constMap s"
      "outConstantDesc s' = outConstantDesc s" "magicOps s' = magicOps s" "token s' = token s"
    using assms(2) by (auto simp: addVariable_def Let_def split: if_splits)
  then show "pstep s s'" by (rule pstep_vars [OF assms(1)]) (auto simp: G split: if_splits)
  show "\<exists>q. getCircuitPrimitive s' p = Some q" by (auto simp: G)
qed

lemma pstep_makeMagic:
  assumes "pwf s" "makeMagic p s = Some s'"
  shows "pstep s s'"
proof (rule pstep_vars [OF assms(1)])
  show "getCircuitPrimitive s p' = Some q \<or> q = CPrimitive_new" if "getCircuitPrimitive s' p' = Some q" for p' q
    using assms(2) that by (cases p; cases p') (auto simp: makeMagic_def split: if_splits)
qed (use assms(2) in \<open>auto simp: makeMagic_def split: Primitive.splits\<close>)

section \<open>Binding\<close>

lemma prim_wf_bindPos: "valid_pos desc g \<Longrightarrow> prim_wf desc (bindPos g q)"
  by (simp add: prim_wf_def bindPos_def isBound_def valid_pos_def)

lemma bindVariable_cases:
  assumes "bindVariable p g s = Some s'"
  obtains q s1 where "getCircuitPrimitive s p = Some q" "upd_prim p (bindPos g) s = Some s1" "upd_gate g (gate_bind p) s1 = Some s'"
  using assms by (auto simp: bindVariable_def unbind_loop bind_eq_Some_conv split: if_splits)

lemma bindVariable_get:
  assumes "bindVariable p g s = Some s'"
  shows "getCircuitPrimitive s' p' = (if p' = p then map_option (bindPos g) (getCircuitPrimitive s p) else getCircuitPrimitive s p')"
    "constMap s' = constMap s" "pos_in s g" "token s' = token s"
proof -
  obtain q s1 where s1: "upd_prim p (bindPos g) s = Some s1" "upd_gate g (gate_bind p) s1 = Some s'" by (rule bindVariable_cases [OF assms])
  note U = upd_gate_bind [OF s1(2)] and F = upd_prim_fields [OF s1(1)]
  have "getCircuitPrimitive s' p' = getCircuitPrimitive s1 p'" by (rule getCircuitPrimitive_cong) (simp_all add: U(2))
  then show "getCircuitPrimitive s' p' = (if p' = p then map_option (bindPos g) (getCircuitPrimitive s p) else getCircuitPrimitive s p')"
    using upd_prim_get [OF s1(1)] by simp
  show "constMap s' = constMap s" "token s' = token s" using F by (simp_all add: U(2))
  show "pos_in s g" using U(1) F by simp
qed

lemma pstep_bindVariable:
  assumes "pwf s" "bindVariable p g s = Some s'" "isVariable p \<or> gp_layer g = 0"
  shows "pstep s s'"
proof -
  obtain q s1 where s1: "upd_prim p (bindPos g) s = Some s1" "upd_gate g (gate_bind p) s1 = Some s'" by (rule bindVariable_cases [OF assms(2)])
  note F = upd_prim_fields [OF s1(1)]
  have "pwf s1" by (rule pwf_upd_prim [OF assms(1) s1(1)]) (use assms(3) prim_wf_bindPos [OF bindVariable_get(3) [OF assms(2)]] in \<open>auto simp: const_wf_def bindPos_def\<close>)
  from pwf_upd_gate [OF this s1(2)] show ?thesis using F bindVariable_get(2,4) [OF assms(2)] by (simp add: pstep_def)
qed

lemma addToCircuit_cases:
  assumes "addToCircuit p s = Some s'"
  obtains q where "getCircuitPrimitive s p = Some q" "isBound q" "s' = s"
  | q prim g s1 where "getCircuitPrimitive s p = Some q" "\<not> isBound q" "toPrimitive s p = Some prim" "addGate OpCONSTANT 0 0 0 s = (g, s1)"
      "bindVariable prim g s1 = Some s'"
  using assms
  by (cases "addGate OpCONSTANT 0 0 0 s") (force simp: addToCircuit_def bind_eq_Some_conv split: if_splits)

lemma pstep_addToCircuit:
  assumes "pwf s" "addToCircuit p s = Some s'"
  shows "pstep s s'"
  using assms(2)
proof (cases rule: addToCircuit_cases)
  case (2 q prim g s1)
  have "pstep s s1" by (rule pstep_addGate(1) [OF assms(1) 2(4)]) simp
  moreover have "pstep s1 s'" by (rule pstep_bindVariable [OF pstep_pwf [OF calculation] 2(5)]) (simp add: addGate_desc(3) [OF 2(4)])
  ultimately show ?thesis by (rule pstep_trans)
qed (use assms in simp)

lemma addToCircuit_get:
  assumes "addToCircuit p s = Some s'" "toPrimitive s p = Some p" "p' \<noteq> p"
  shows "getCircuitPrimitive s' p' = getCircuitPrimitive s p'"
  using assms(1)
proof (cases rule: addToCircuit_cases)
  case (2 q prim g s1)
  then show ?thesis using assms(2,3) bindVariable_get(1) [OF 2(5)] addGate_fields [OF 2(4)] by simp
qed simp

lemma upd_gate_length: "upd_gate g f s = Some s' \<Longrightarrow> length (circuitDesc s') = length (circuitDesc s)"
  by (auto simp: upd_gate_def)

lemma bindVariable_length:
  assumes "bindVariable p g s = Some s'"
  shows "length (circuitDesc s') = length (circuitDesc s)"
proof -
  obtain q s1 where s1: "upd_prim p (bindPos g) s = Some s1" "upd_gate g (gate_bind p) s1 = Some s'" by (rule bindVariable_cases [OF assms])
  then show ?thesis using upd_gate_length [OF s1(2)] upd_prim_fields [OF s1(1)] by simp
qed

lemma length_addToCircuit:
  assumes "addToCircuit p s = Some s'"
  shows "length (circuitDesc s') \<le> max (length (circuitDesc s)) 1"
  using assms
proof (cases rule: addToCircuit_cases)
  case (2 q prim g s1)
  have "length (circuitDesc s') = length (circuitDesc s1)" by (rule bindVariable_length [OF 2(5)])
  then show ?thesis using addGate_desc(1) [OF 2(4)] by simp
qed simp

section \<open>Promotion\<close>

text \<open>One round of the loop of \<open>promotePrimitive\<close>, from the gate of the layer reached to the state with a gate in the next one.\<close>

lemma prim_wf_push:
  assumes "prim_wf desc q" "isBound q" "valid_pos desc g" "int (gp_layer g) = maxLayer q + 1"
  shows "prim_wf desc (push_index g q)"
proof -
  have "gp_layer g = nat (minLayer q) + length (gateIndex q)" using assms(1,2,4) by (auto simp: prim_wf_def)
  then have g: "g = \<lparr>gp_layer = nat (minLayer q) + length (gateIndex q), gp_name = gp_name g\<rparr>" by simp
  have v: "valid_pos desc \<lparr>gp_layer = nat (minLayer q) + length (gateIndex q), gp_name = gp_name g\<rparr>" using assms(3) g by simp
  then show ?thesis using assms(1,2) by (auto simp: prim_wf_def isBound_def push_index_def nth_append less_Suc_eq)
qed

lemma gate_index_at_pos:
  assumes "prim_wf desc q" "gate_index_at q layer = Some g"
  shows "valid_pos desc g" "gp_layer g = layer"
proof -
  have q: "isBound q" using assms(2) by (auto simp: gate_index_at_def isBound_def split: if_splits)
  let ?k = "nat (int layer - minLayer q)"
  have k: "?k < length (gateIndex q)" "minLayer q \<le> int layer" and g: "g = \<lparr>gp_layer = layer, gp_name = gateIndex q ! ?k\<rparr>"
    using assms(2) by (auto simp: gate_index_at_def split: if_splits)
  have "nat (minLayer q) + ?k = layer" using k(2) assms(1) q by (auto simp: prim_wf_def)
  then show "valid_pos desc g" using assms(1) q k(1) g by (metis prim_wf_def)
  show "gp_layer g = layer" by (simp add: g)
qed

definition promote_post :: "Primitive \<Rightarrow> nat \<Rightarrow> PWSCircuitParser \<Rightarrow> GatePosition \<Rightarrow> PWSCircuitParser \<Rightarrow> bool" where
  "promote_post p layer s g s' \<longleftrightarrow>
     (pwf s \<longrightarrow> pstep s s' \<and> pos_in s' g \<and> gp_layer g = layer \<and> length (circuitDesc s') \<le> max (length (circuitDesc s)) (Suc layer) \<and>
       (\<forall>q. getCircuitPrimitive s p = Some q \<longrightarrow> int layer \<le> maxLayer q \<longrightarrow> s' = s) \<and>
       (\<forall>p'. p' \<noteq> p \<longrightarrow> (\<forall>i. map_of (constMap s') ''0'' = Some i \<longrightarrow> p' \<noteq> CONSTANT i) \<longrightarrow>
             getCircuitPrimitive s' p' = getCircuitPrimitive s p'))"

lemma toPrimitive_const: "tables_wf s \<Longrightarrow> i < length (constants s) \<Longrightarrow> toPrimitive s (CONSTANT i) = Some (CONSTANT i)"
  by (simp add: tables_wf_def)

lemma pwf_get: "pwf s \<Longrightarrow> getCircuitPrimitive s p = Some q \<Longrightarrow> prim_wf (circuitDesc s) q \<and> const_wf p q"
  by (simp add: pwf_def prims_wf_def)

lemma prim_wf_bound: "prim_wf desc q \<Longrightarrow> 0 \<le> maxLayer q \<Longrightarrow> isBound q \<and> 0 \<le> minLayer q \<and> minLayer q \<le> maxLayer q"
  by (auto simp: prim_wf_def isBound_def Suc_leI split: if_splits)

text \<open>The gate that a round adds: its inputs are the gate of the primitive and the gate of 0 in the layer reached.\<close>

lemma promote_round:
  assumes pwf: "pwf s" and q: "getCircuitPrimitive s p = Some q" "0 \<le> maxLayer q"
    and zero: "addConstant (int_str 0) s = (zero, s1)"
    and p': "addToCircuit p s1 = Some s2" "getCircuitPrimitive s2 p = Some p'"
    and g1: "promote_post p (if nat (maxLayer q) = 0 then nat (minLayer p') else nat (maxLayer q)) s2 g1 s3"
    and z': "addToCircuit zero s3 = Some s4" "getCircuitPrimitive s4 zero = Some z'"
    and g2: "promote_post zero (if nat (maxLayer q) = 0 then nat (minLayer z') else nat (maxLayer q)) s4 g2 s5"
    and g: "addGate OpADD (gp_name g1) (gp_name g2) (nat (maxLayer q) + 1) s5 = (g, s6)"
    and b: "upd_gate g (gate_bind prim) s6 = Some s7" "upd_prim p (push_index g) s7 = Some s8"
  shows "pstep s s8" "\<And>p'. p' \<noteq> p \<Longrightarrow> p' \<noteq> zero \<Longrightarrow> getCircuitPrimitive s8 p' = getCircuitPrimitive s p'"
    "map_of (constMap s8) ''0'' = Some (prim_idx zero)" "length (circuitDesc s8) \<le> max (length (circuitDesc s)) (nat (maxLayer q) + 2)"
proof -
  let ?l = "nat (maxLayer q)"
  have qb: "isBound q" "0 \<le> minLayer q" "minLayer q \<le> maxLayer q" using prim_wf_bound pwf_get [OF pwf q(1)] q(2) by auto
  have st1: "pstep s s1" and pw1: "pwf s1" using pstep_addConstant [OF pwf zero] by (auto intro: pstep_pwf)
  have t: "tables_wf s" using pwf by (simp add: pwf_def)
  have q1: "getCircuitPrimitive s1 p = Some q" using addConstant_get [OF t zero] q(1) by auto
  have s2: "s2 = s1" "p' = q" using p' q1 qb(1) by (auto simp: addToCircuit_def)
  have l1: "(if ?l = 0 then nat (minLayer p') else ?l) = ?l" using s2(2) qb by auto
  have g1': "s3 = s1" "pos_in s1 g1" "gp_layer g1 = ?l"
    using g1 [unfolded l1 s2(1)] pw1 q1 qb unfolding promote_post_def by auto
  have st4: "pstep s1 s4" using pstep_addToCircuit [OF pw1] z'(1) g1'(1) by simp
  then have pw4: "pwf s4" by (rule pstep_pwf)
  have zc: "zero = CONSTANT (prim_idx zero)" by (rule addConstant_fields(5) [OF zero])
  obtain zq where zq: "getCircuitPrimitive s1 zero = Some zq" using pstep_addConstant(2) [OF pwf zero] by blast
  have zt: "toPrimitive s1 zero = Some zero" using zq zc pw1 toPrimitive_const [of s1 "prim_idx zero"]
    by (metis getCircuitPrimitive.simps(1) option.distinct(1) pwf_def)
  have zb: "isBound z'" using z' unfolding g1'(1)
  proof (cases rule: addToCircuit_cases)
    case (2 q0 prim0 g0 s0)
    then show ?thesis using z'(2) zt bindVariable_get(1) [OF 2(5)] by (auto simp: bindPos_def isBound_def)
  qed auto
  have z0: "minLayer z' = 0" using pwf_get [OF pw4 z'(2)] zb zc by (metis Primitive.simps(10) const_wf_def isVariable_def)
  have l2: "(if ?l = 0 then nat (minLayer z') else ?l) = ?l" using z0 by auto
  have g2': "pstep s4 s5" "pos_in s5 g2" "gp_layer g2 = ?l" "length (circuitDesc s5) \<le> max (length (circuitDesc s4)) (Suc ?l)"
    "getCircuitPrimitive s4 zero = Some zz \<Longrightarrow> int ?l \<le> maxLayer zz \<Longrightarrow> s5 = s4" for zz
    using g2 pw4 unfolding l2 promote_post_def by auto
  have fr5: "getCircuitPrimitive s5 p0 = getCircuitPrimitive s4 p0" if "p0 \<noteq> zero" for p0
  proof -
    have "map_of (constMap s1) ''0'' = Some (prim_idx zero)" using addConstant_fields(4) [OF zero] by simp
    then have "map_of (constMap s5) ''0'' = Some (prim_idx zero)" using pstep_trans [OF st4 g2'(1)]
      by (metis domI map_le_def pstep_def)
    then show ?thesis using g2 pw4 that zc unfolding l2 promote_post_def by (metis option.inject)
  qed
  have pw5: "pwf s5" and pos1: "pos_in s5 g1" using g2'(1) st4 g1'(2) by (auto intro: pstep_pwf pstep_pos)
  have pe: "\<lparr>gp_layer = ?l, gp_name = gp_name g1\<rparr> = g1" "\<lparr>gp_layer = ?l, gp_name = gp_name g2\<rparr> = g2" using g1'(3) g2'(3) by simp_all
  have A: "pstep s5 s6" "pos_in s6 g" "gp_layer g = ?l + 1"
    using pstep_addGate [OF pw5 g] pos1 g2'(2) pe by simp_all
  have B: "pwf s7" "grows s6 s7" using pwf_upd_gate [OF pstep_pwf [OF A(1)] b(1)] by auto
  have s7: "constMap s7 = constMap s6" "getCircuitPrimitive s7 p0 = getCircuitPrimitive s6 p0" "circuitDesc s8 = circuitDesc s7" "token s8 = token s6" for p0
    using upd_gate_bind [OF b(1)] upd_prim_fields [OF b(2)] by (auto intro: getCircuitPrimitive_cong)
  have q7: "getCircuitPrimitive s7 p = Some q"
  proof (cases "p = zero")
    case True
    then have "s4 = s1" using z'(1) q1 qb(1) g1'(1) by (auto simp: addToCircuit_def)
    then show ?thesis using True g2'(5) q1 q(2) s7(2) addGate_fields(7) [OF g] by auto
  next
    case False
    then show ?thesis using fr5 addToCircuit_get [OF z'(1) _ False] zt g1'(1) q1 s7(2) addGate_fields(7) [OF g] by simp
  qed
  have "pwf s8"
  proof (rule pwf_upd_prim [OF B(1) b(2)])
    fix q' assume "getCircuitPrimitive s7 p = Some q'"
    then have q': "q' = q" using q7 by simp
    have "pos_in s7 g" using A(2) B(2) by (rule valid_pos_grows)
    then have "prim_wf (circuitDesc s7) (push_index g q)" using prim_wf_push pwf_get [OF B(1) q7] qb(1) A(3) q(2) by auto
    moreover have "const_wf p (push_index g q)" using pwf_get [OF B(1) q7] by (auto simp: const_wf_def push_index_def isBound_def qb(1) [unfolded isBound_def])
    ultimately show "prim_wf (circuitDesc s7) (push_index g q') \<and> const_wf p (push_index g q')" using q' by simp
  qed
  moreover have "grows s6 s8" "constMap s8 = constMap s6" using B(2) s7 upd_prim_fields [OF b(2)] by auto
  ultimately have "pstep s6 s8" using s7(4) by (simp add: pstep_def)
  with A(1) g2'(1) st4 have "pstep s1 s8" by (blast intro: pstep_trans)
  with st1 show "pstep s s8" by (rule pstep_trans)
  have "map_of (constMap s1) ''0'' = Some (prim_idx zero)" using addConstant_fields(4) [OF zero] by simp
  then show "map_of (constMap s8) ''0'' = Some (prim_idx zero)" using \<open>pstep s1 s8\<close> by (metis domI map_le_def pstep_def)
  have "length (circuitDesc s4) \<le> max (length (circuitDesc s)) 1"
    using length_addToCircuit [OF z'(1)] addConstant_fields(1) [OF zero] g1'(1) by simp
  then show "length (circuitDesc s8) \<le> max (length (circuitDesc s)) (?l + 2)"
    using g2'(4) addGate_desc(1) [OF g] upd_gate_length [OF b(1)] s7(3) by simp
  show "getCircuitPrimitive s8 p0 = getCircuitPrimitive s p0" if "p0 \<noteq> p" "p0 \<noteq> zero" for p0
    using that upd_prim_get [OF b(2)] s7(2) addGate_fields(7) [OF g] fr5 addToCircuit_get [OF z'(1)] zt g1'(1) addConstant_get [OF t zero] by simp
qed

lemma bind_SomeE: "Option.bind m f = Some y \<Longrightarrow> (\<And>x. m = Some x \<Longrightarrow> f x = Some y \<Longrightarrow> P) \<Longrightarrow> P"
  by (cases m) auto

lemma bind_pairE: "Option.bind m (\<lambda>(a, b). f a b) = Some y \<Longrightarrow> (\<And>a b. m = Some (a, b) \<Longrightarrow> f a b = Some y \<Longrightarrow> P) \<Longrightarrow> P"
  by (cases m) auto

lemma let_pairE: "(case m of (a, b) \<Rightarrow> f a b) = Some y \<Longrightarrow> (\<And>a b. m = (a, b) \<Longrightarrow> f a b = Some y \<Longrightarrow> P) \<Longrightarrow> P"
  by (cases m) auto

lemma if_SomeE: "(if c then m else m') = Some y \<Longrightarrow> (c \<Longrightarrow> m = Some y \<Longrightarrow> P) \<Longrightarrow> (\<not> c \<Longrightarrow> m' = Some y \<Longrightarrow> P) \<Longrightarrow> P"
  by (cases c) auto

lemmas do_elims = bind_pairE bind_SomeE let_pairE if_SomeE

lemma promotePrimitive_inv:
  assumes "promotePrimitive p layer s = Some (g, s')"
  shows "promote_post p layer s g s'"
proof -
  have "promote_post p layer s (fst (g, s')) (snd (g, s'))"
  proof (rule promotePrimitive.raw_induct [OF _ assms], goal_cases)
    case (1 pr p layer s y)
    from 1(2) consider q g where "getCircuitPrimitive s p = Some q" "\<not> int layer > maxLayer q" "gate_index_at q layer = Some g" "y = (g, s)"
      | q zero s1 s2 p' g1 s3 s4 z' g2 s5 g0 s6 prim s7 s8 where "getCircuitPrimitive s p = Some q" "int layer > maxLayer q" "\<not> maxLayer q < 0"
        "addConstant (int_str 0) s = (zero, s1)" "addToCircuit p s1 = Some s2" "getCircuitPrimitive s2 p = Some p'"
        "pr p (if nat (maxLayer q) = 0 then nat (minLayer p') else nat (maxLayer q)) s2 = Some (g1, s3)"
        "addToCircuit zero s3 = Some s4" "getCircuitPrimitive s4 zero = Some z'"
        "pr zero (if nat (maxLayer q) = 0 then nat (minLayer z') else nat (maxLayer q)) s4 = Some (g2, s5)"
        "addGate OpADD (gp_name g1) (gp_name g2) (nat (maxLayer q) + 1) s5 = (g0, s6)" "upd_gate g0 (gate_bind prim) s6 = Some s7"
        "upd_prim p (push_index g0) s7 = Some s8" "pr p layer s8 = Some y"
      unfolding Let_def by (elim do_elims) auto
    then show ?case
    proof cases
      case (1 q g)
      have "pos_in s g \<and> gp_layer g = layer" if "pwf s" using gate_index_at_pos pwf_get [OF that 1(1)] 1(3) by blast
      then show ?thesis using 1 by (auto simp: promote_post_def)
    next
      case 2
      note r = 1(1) [OF 2(7), unfolded fst_conv snd_conv] 1(1) [OF 2(10), unfolded fst_conv snd_conv] 1(1) [OF 2(14)]
      have m: "0 \<le> maxLayer q" using 2(3) by simp
      show ?thesis unfolding promote_post_def
      proof (intro impI conjI)
        assume pwf: "pwf s"
        note R = promote_round [OF pwf 2(1) m 2(4,5,6) r(1) 2(8,9) r(2) 2(11,12,13)]
        have p8: "pwf s8" using R(1) by (rule pstep_pwf)
        have post: "pstep s8 (snd y)" "pos_in (snd y) (fst y)" "gp_layer (fst y) = layer" using r(3) p8 by (auto simp: promote_post_def)
        show "pstep s (snd y)" using R(1) post(1) by (rule pstep_trans)
        show "pos_in (snd y) (fst y)" "gp_layer (fst y) = layer" by fact+
        have "length (circuitDesc (snd y)) \<le> max (length (circuitDesc s8)) (Suc layer)" using r(3) p8 by (auto simp: promote_post_def)
        then show "length (circuitDesc (snd y)) \<le> max (length (circuitDesc s)) (Suc layer)" using R(4) 2(2) m by linarith
        have z: "map_of (constMap (snd y)) ''0'' = Some (prim_idx zero)" using R(3) post(1) by (metis domI map_le_def pstep_def)
        have zc: "zero = CONSTANT (prim_idx zero)" by (rule addConstant_fields(5) [OF 2(4)])
        show "\<forall>p'. p' \<noteq> p \<longrightarrow> (\<forall>i. map_of (constMap (snd y)) ''0'' = Some i \<longrightarrow> p' \<noteq> CONSTANT i) \<longrightarrow>
            getCircuitPrimitive (snd y) p' = getCircuitPrimitive s p'"
          using r(3) p8 R(2) z zc unfolding promote_post_def by metis
        show "\<forall>q. getCircuitPrimitive s p = Some q \<longrightarrow> int layer \<le> maxLayer q \<longrightarrow> snd y = s" using 2(1,2) by simp
      qed
    qed
  qed
  then show ?thesis by simp
qed

section \<open>Sequences of steps\<close>

text \<open>What holds of a step if it returns. The rules follow the structure of a definition.\<close>

definition pkeep :: "('a \<times> PWSCircuitParser) option \<Rightarrow> PWSCircuitParser \<Rightarrow> ('a \<Rightarrow> PWSCircuitParser \<Rightarrow> bool) \<Rightarrow> bool" where
  "pkeep r s Q \<longleftrightarrow> (\<forall>x s'. r = Some (x, s') \<longrightarrow> pstep s s' \<and> Q x s')"

definition ukeep :: "PWSCircuitParser option \<Rightarrow> PWSCircuitParser \<Rightarrow> bool" where
  "ukeep r s \<longleftrightarrow> (\<forall>s'. r = Some s' \<longrightarrow> pstep s s')"

lemma pkeep_bind:
  assumes "pkeep m s Q" "\<And>x s'. pwf s' \<Longrightarrow> pstep s s' \<Longrightarrow> Q x s' \<Longrightarrow> pkeep (f x s') s' R"
  shows "pkeep (Option.bind m (\<lambda>(x, s). f x s)) s R"
  unfolding pkeep_def
proof (intro allI impI, elim bind_pairE)
  fix y s'' x s' assume "m = Some (x, s')" "f x s' = Some (y, s'')"
  then show "pstep s s'' \<and> R y s''" using assms pstep_pwf pstep_trans unfolding pkeep_def by blast
qed

lemma ukeep_bind:
  assumes "ukeep m s" "\<And>s'. pwf s' \<Longrightarrow> pstep s s' \<Longrightarrow> pkeep (f s') s' R"
  shows "pkeep (Option.bind m f) s R"
  unfolding pkeep_def
proof (intro allI impI, elim bind_SomeE)
  fix y s'' s' assume "m = Some s'" "f s' = Some (y, s'')"
  then show "pstep s s'' \<and> R y s''" using assms pstep_pwf pstep_trans unfolding pkeep_def ukeep_def by blast
qed

lemma pkeep_let:
  assumes "pstep s (snd m)" "pwf (snd m) \<Longrightarrow> pstep s (snd m) \<Longrightarrow> pkeep (f (fst m) (snd m)) (snd m) R"
  shows "pkeep (let (x, s) = m in f x s) s R"
  using assms unfolding pkeep_def by (auto simp: case_prod_beta dest: pstep_pwf intro: pstep_trans)

lemma pkeep_Some: "pstep s s' \<Longrightarrow> Q x s' \<Longrightarrow> pkeep (Some (x, s')) s Q"
  by (simp add: pkeep_def)

lemma pkeep_weaken: "pkeep m s Q \<Longrightarrow> (\<And>x s'. pstep s s' \<Longrightarrow> Q x s' \<Longrightarrow> R x s') \<Longrightarrow> pkeep m s R"
  by (auto simp: pkeep_def)

lemma pkeep_promotePrimitive: "pwf s \<Longrightarrow> pkeep (promotePrimitive p layer s) s (\<lambda>g s'. pos_in s' g \<and> gp_layer g = layer)"
  unfolding pkeep_def using promotePrimitive_inv unfolding promote_post_def by blast

lemma ukeep_addToCircuit: "pwf s \<Longrightarrow> ukeep (addToCircuit p s) s"
  by (simp add: ukeep_def pstep_addToCircuit)

lemma ukeep_makeMagic: "pwf s \<Longrightarrow> ukeep (makeMagic p s) s"
  by (simp add: ukeep_def pstep_makeMagic)

lemma ukeep_bindVariable: "pwf s \<Longrightarrow> isVariable p \<Longrightarrow> ukeep (bindVariable p g s) s"
  by (simp add: ukeep_def pstep_bindVariable)

lemma addConstant_step: "pwf s \<Longrightarrow> pstep s (snd (addConstant c s))"
  using pstep_addConstant(1) by (metis prod.collapse)

lemma addVariable_step: "pwf s \<Longrightarrow> pstep s (snd (addVariable ty n s))"
  using pstep_addVariable(1) by (metis prod.collapse)

text \<open>A gate of a constant that is asked for in some layer is in that layer.\<close>

definition is_const :: "Primitive \<Rightarrow> bool" where
  "is_const p \<longleftrightarrow> \<not> isVariable p"

lemma addConstant_is_const: "is_const (fst (addConstant c s))"
  using addConstant_fields(5) by (metis Primitive.simps(10) is_const_def isVariable_def prod.collapse)

lemma addToCircuit_const:
  assumes "pwf s" "is_const p" "addToCircuit p s = Some s'" "getCircuitPrimitive s' p = Some q"
  shows "isBound q \<and> minLayer q = 0"
proof -
  have "pwf s'" using pstep_addToCircuit [OF assms(1,3)] by (rule pstep_pwf)
  moreover have "isBound q" using assms(3)
  proof (cases rule: addToCircuit_cases)
    case (2 q0 prim g s1)
    have "prim = p" using 2(1,3) assms(1,2) toPrimitive_const
      by (cases p) (auto simp: is_const_def isVariable_def pwf_def split: if_splits)
    then show ?thesis using assms(4) bindVariable_get(1) [OF 2(5)] by (auto simp: bindPos_def isBound_def)
  qed (use assms(4) in auto)
  ultimately show ?thesis using pwf_get assms(2,4) by (auto simp: const_wf_def is_const_def)
qed

lemma pkeep_getGate:
  assumes "pwf s"
  shows "pkeep (getGate p layer s) s (\<lambda>g s'. pos_in s' g \<and> (layer \<noteq> 0 \<or> is_const p \<longrightarrow> gp_layer g = layer))"
  unfolding pkeep_def
proof (intro allI impI)
  fix g s' assume "getGate p layer s = Some (g, s')"
  then obtain s1 q where s1: "addToCircuit p s = Some s1" "getCircuitPrimitive s1 p = Some q"
      and pr: "promotePrimitive p (if layer = 0 then nat (minLayer q) else layer) s1 = Some (g, s')"
    unfolding getGate_def by (elim do_elims)
  have st: "pstep s s1" by (rule pstep_addToCircuit [OF assms s1(1)])
  then have P: "pstep s1 s' \<and> pos_in s' g \<and> gp_layer g = (if layer = 0 then nat (minLayer q) else layer)"
    using pkeep_promotePrimitive [OF pstep_pwf [OF st]] pr unfolding pkeep_def by blast
  then show "pstep s s' \<and> pos_in s' g \<and> (layer \<noteq> 0 \<or> is_const p \<longrightarrow> gp_layer g = layer)"
    using st addToCircuit_const [OF assms _ s1] pstep_trans by auto
qed

end
