(* ===== verification/Pws_Keep.thy ===== *)
theory Pws_Keep
  imports Pws_Wf
begin

text \<open>
  The operations of the builder that are made of others, and the gates of the constraints, keep the invariant of \<open>Pws_Wf\<close>. Every
  proof follows the definition with the rules for sequences of steps.
\<close>

section \<open>Gates made of gates\<close>

definition all_at :: "PWSCircuitParser \<Rightarrow> nat \<Rightarrow> GatePosition list \<Rightarrow> bool" where
  "all_at s l gs \<longleftrightarrow> (\<forall>g \<in> set gs. pos_in s g \<and> gp_layer g = l)"

abbreviation at_layer :: "nat \<Rightarrow> GatePosition \<Rightarrow> PWSCircuitParser \<Rightarrow> bool" where
  "at_layer l g s \<equiv> pos_in s g \<and> gp_layer g = l"

lemma all_at_step: "all_at s l gs \<Longrightarrow> pstep s s' \<Longrightarrow> all_at s' l gs"
  by (auto simp: all_at_def intro: pstep_pos)

lemma addGate_at:
  assumes "pwf s" "op \<noteq> OpCONSTANT" "at_layer l g1 s" "at_layer l g2 s"
  shows "pstep s (snd (addGate op (gp_name g1) (gp_name g2) (l + 1) s))"
    "at_layer (l + 1) (fst (addGate op (gp_name g1) (gp_name g2) (l + 1) s)) (snd (addGate op (gp_name g1) (gp_name g2) (l + 1) s))"
proof -
  obtain g s' where a: "addGate op (gp_name g1) (gp_name g2) (l + 1) s = (g, s')" by fastforce
  have "pos_in s \<lparr>gp_layer = l, gp_name = gp_name g1\<rparr>" "pos_in s \<lparr>gp_layer = l, gp_name = gp_name g2\<rparr>"
    using assms(3,4) by (auto simp: valid_pos_def)
  then show "pstep s (snd (addGate op (gp_name g1) (gp_name g2) (l + 1) s))"
    "at_layer (l + 1) (fst (addGate op (gp_name g1) (gp_name g2) (l + 1) s)) (snd (addGate op (gp_name g1) (gp_name g2) (l + 1) s))"
    using pstep_addGate [OF assms(1) a] assms(2-4) unfolding a by simp_all
qed

lemma pkeep_addGate:
  assumes "pwf s" "op \<noteq> OpCONSTANT" "at_layer l g1 s" "at_layer l g2 s"
  shows "pkeep (Some (addGate op (gp_name g1) (gp_name g2) (l + 1) s)) s (at_layer (l + 1))"
  using addGate_at [OF assms] by (cases "addGate op (gp_name g1) (gp_name g2) (l + 1) s") (simp add: pkeep_def)

lemma pkeep_promoteGate_loop:
  assumes "pwf s" "pos_in s g" "gp_layer g \<le> layer"
  shows "pkeep (promoteGate_loop g layer s) s (at_layer layer)"
  using assms
proof (induction "layer - gp_layer g" arbitrary: g s)
  case 0
  then show ?case by (subst promoteGate_loop.simps) (simp add: pkeep_def)
next
  case (Suc n)
  let ?z = "addConstant (int_str 0) s"
  have lt: "gp_layer g < layer" using Suc.hyps(2) by simp
  show ?case
  proof (subst promoteGate_loop.simps, unfold if_P [OF lt], rule pkeep_let [OF addConstant_step], fact, rule pkeep_bind [OF pkeep_getGate], assumption)
    fix zg s' assume z: "pstep s (snd ?z)"
      and s': "pwf s'" "pstep (snd ?z) s'" "pos_in s' zg \<and> (gp_layer g \<noteq> 0 \<or> is_const (fst ?z) \<longrightarrow> gp_layer zg = gp_layer g)"
    have g: "at_layer (gp_layer g) g s'" "at_layer (gp_layer g) zg s'"
      using s' z Suc.prems addConstant_is_const pstep_pos by blast+
    note A = addGate_at [OF s'(1) _ g, of OpADD, simplified]
    show "pkeep (let (gatePos, s) = addGate OpADD (gp_name g) (gp_name zg) (gp_layer g + 1) s' in promoteGate_loop gatePos layer s) s' (at_layer layer)"
      by (rule pkeep_let) (use A Suc lt in auto)
  qed
qed

lemma pkeep_promoteGate:
  assumes "pwf s" "pos_in s g" "gp_layer g \<le> layer"
  shows "pkeep (promoteGate g layer s) s (at_layer layer)"
  using assms pkeep_promotePrimitive pkeep_promoteGate_loop by (auto simp: promoteGate_def gate_at_Some split: option.split)

lemma pkeep_makeGate:
  assumes "pwf s" "op \<noteq> OpCONSTANT" "pos_in s a" "pos_in s b"
  shows "pkeep (makeGate op a b s) s (at_layer (max (gp_layer a) (gp_layer b) + 1))"
proof (cases "gp_layer a = gp_layer b")
  case True
  then show ?thesis using pkeep_addGate [OF assms(1,2) conjI [OF assms(3) refl] conjI [OF assms(4) True [symmetric]]] by (simp add: makeGate_def)
next
  case False
  define l where "l = max (gp_layer a) (gp_layer b)"
  have l: "gp_layer a \<le> l" "gp_layer b \<le> l" by (simp_all add: l_def)
  have "pkeep (do {
        (gate1, s) \<leftarrow> promoteGate a l s;
        (gate2, s) \<leftarrow> promoteGate b l s;
        Some (addGate op (gp_name gate1) (gp_name gate2) (l + 1) s)
      }) s (at_layer (l + 1))"
    by (intro pkeep_bind [OF pkeep_promoteGate] pkeep_addGate) (use assms l in \<open>auto dest: pstep_pos\<close>)
  then show ?thesis unfolding makeGate_def if_P [OF False] Let_def l_def .
qed

lemma pkeep_negateGate:
  assumes "pwf s" "pos_in s g"
  shows "pkeep (negateGate g s) s (at_layer (gp_layer g + 1))"
  unfolding negateGate_def
  by (intro pkeep_let [OF addConstant_step] pkeep_bind [OF pkeep_getGate] pkeep_addGate)
    (use assms addConstant_is_const in \<open>auto dest: pstep_pos\<close>)

lemma pkeep_makeSubGate:
  assumes "pwf s" "pos_in s a" "pos_in s b"
  shows "pkeep (makeSubGate a b s) s (\<lambda>g s'. pos_in s' g)"
  unfolding makeSubGate_def
  by (intro pkeep_bind [OF pkeep_negateGate] pkeep_weaken [OF pkeep_makeGate]) (use assms in \<open>auto dest: pstep_pos\<close>)

section \<open>Outputs, magic operations and counters\<close>

lemma pstep_refs:
  assumes "pwf s" "circuitDesc s' = circuitDesc s" "constants s' = constants s" "constMap s' = constMap s"
    "varMap s' = varMap s" "inOutVarsMap s' = inOutVarsMap s" "token s' = token s" "refs_wf s'"
  shows "pstep s s'"
proof -
  have "prims_wf s'" using assms(1,2) getCircuitPrimitive_cong [OF assms(3,5,6)] by (simp add: pwf_def prims_wf_def)
  moreover have "tables_wf s'" using assms(1,3,4) by (simp add: pwf_def tables_wf_def)
  ultimately show ?thesis using assms(1,2,4,7,8) by (simp add: pstep_def pwf_def)
qed

lemma pstep_bindOutputConstant_int: "pwf s \<Longrightarrow> pos_in s g \<Longrightarrow> pstep s (bindOutputConstant_int g v s)"
  by (rule pstep_refs) (auto simp: bindOutputConstant_int_def refs_wf_def pwf_def)

lemma ukeep_bindOutputConstant: "pwf s \<Longrightarrow> pos_in s g \<Longrightarrow> ukeep (bindOutputConstant p g s) s"
  unfolding ukeep_def bindOutputConstant_def
  by (cases p) (auto intro!: pstep_refs simp: refs_wf_def pwf_def split: if_splits)

lemma pstep_addMagicOp:
  "pwf s \<Longrightarrow> guard_wf (circuitDesc s) guard \<Longrightarrow> list_all (pos_in s) (op_positions op) \<Longrightarrow> pstep s (addMagicOp op guard s)"
  by (rule pstep_refs) (auto simp: addMagicOp_def refs_wf_def pwf_def)

lemma pstep_opCount: "pwf s \<Longrightarrow> pstep s (s\<lparr>opCount := c\<rparr>)"
  by (rule pstep_refs) (auto simp: refs_wf_def pwf_def)

lemma guard_wf_step: "pstep s s' \<Longrightarrow> guard_wf (circuitDesc s) guard \<Longrightarrow> guard_wf (circuitDesc s') guard"
  by (auto simp: pstep_def intro: guard_wf_grows)

lemma pkeep_makeZeroOrOtherGate:
  assumes "pwf s"
  shows "pkeep (makeZeroOrOtherGate var c s) s (\<lambda>g s'. pos_in s' g)"
  unfolding makeZeroOrOtherGate_def
  by (intro pkeep_let [OF addConstant_step] pkeep_bind [OF pkeep_getGate] pkeep_bind [OF pkeep_makeGate] pkeep_Some pstep_bindOutputConstant_int)
    (use assms in \<open>auto simp: bindOutputConstant_int_def dest: pstep_pos\<close>)

section \<open>Sums and products\<close>

lemma pair_gates_step:
  assumes "pwf s" "op \<noteq> OpCONSTANT" "all_at s l gs" "even (length gs)"
  shows "pstep s (snd (pair_gates op (l + 1) gs s)) \<and> all_at (snd (pair_gates op (l + 1) gs s)) (l + 1) (fst (pair_gates op (l + 1) gs s)) \<and>
    length (fst (pair_gates op (l + 1) gs s)) = length gs div 2"
  using assms
proof (induction op "l + 1" gs s rule: pair_gates.induct)
  case (1 op g1 g2 gs s)
  obtain g s1 where a: "addGate op (gp_name g1) (gp_name g2) (l + 1) s = (g, s1)" by fastforce
  have A: "pstep s s1" "at_layer (l + 1) g s1" using addGate_at [OF 1(2,3), where l = l] 1(4) a by (metis all_at_def fst_conv list.set_intros(1) list.set_intros(2) snd_conv)+
  obtain out s2 where b: "pair_gates op (l + 1) gs s1 = (out, s2)" by fastforce
  have "all_at s l gs" using 1(4) by (simp add: all_at_def)
  then have "all_at s1 l gs" by (rule all_at_step [OF _ A(1)])
  then have B: "pstep s1 s2" "all_at s2 (l + 1) out" "length out = length gs div 2"
    using 1(1) [OF a [symmetric] refl pstep_pwf [OF A(1)] 1(3)] 1(5) b by auto
  show ?case using pstep_trans [OF A(1) B(1)] B A(2) pstep_pos [OF B(1)] by (simp add: a [simplified] b [simplified] all_at_def)
qed (auto simp: all_at_def)

lemma pkeep_promote_all:
  assumes "pwf s" "\<forall>g \<in> set gs. pos_in s g \<and> gp_layer g \<le> l"
  shows "pkeep (promote_all gs l s) s (\<lambda>gs' s'. all_at s' l gs' \<and> length gs' = length gs)"
  using assms
proof (induction gs arbitrary: s)
  case (Cons g gs)
  show ?case unfolding promote_all.simps
    by (intro pkeep_bind [OF pkeep_promoteGate] pkeep_bind [OF Cons.IH] pkeep_Some)
      (use Cons.prems in \<open>auto simp: all_at_def dest: pstep_pos\<close>)
qed (simp add: pkeep_def all_at_def)

lemma pkeep_reduce_layer:
  assumes "pwf s" "op \<noteq> OpCONSTANT" "all_at s l gs"
  shows "pkeep (reduce_layer op l gs s) s (\<lambda>out s'. all_at s' (l + 1) out \<and> length out = (length gs + 1) div 2)"
proof (cases "odd (length gs)")
  case True
  then obtain g gs' where gs: "gs = g # gs'" by (cases gs) auto
  have g: "pos_in s g" "gp_layer g \<le> l + 1" using assms(3) gs by (auto simp: all_at_def)
  have "pkeep (let (out, s) = pair_gates op (l + 1) gs' s' in Some (g' # out, s)) s' (\<lambda>out s'. all_at s' (l + 1) out \<and> length out = (length gs + 1) div 2)"
    if s': "pwf s'" "pstep s s'" "at_layer (l + 1) g' s'" for g' s'
  proof -
    have "all_at s' l gs'" using all_at_step [OF assms(3) s'(2)] gs by (simp add: all_at_def)
    note P = pair_gates_step [OF s'(1) assms(2) this]
    show ?thesis using P True s'(3) gs pstep_pos by (intro pkeep_let pkeep_Some) (auto simp: all_at_def)
  qed
  note rest' = this
  have "reduce_layer op l gs s = do {
      (g, s) \<leftarrow> promoteGate g (l + 1) s;
      let (out, s) = pair_gates op (l + 1) gs' s;
      Some (g # out, s)
    }" using True gs by (simp add: reduce_layer_def Let_def)
  then show ?thesis by (simp only:) (rule pkeep_bind [OF pkeep_promoteGate [OF assms(1) g] rest'])
next
  case False
  then show ?thesis using pair_gates_step [OF assms] unfolding reduce_layer_def pkeep_def by auto
qed

lemma pkeep_reduce_loop:
  assumes "pwf s" "op \<noteq> OpCONSTANT" "all_at s l gs" "gs \<noteq> []"
  shows "pkeep (reduce_loop op l gs s) s (\<lambda>out s'. out \<noteq> [] \<and> (\<forall>g \<in> set out. pos_in s' g))"
  using assms
proof (induction "length gs" arbitrary: l gs s rule: less_induct)
  case less
  show ?case
  proof (cases "length gs > 1")
    case True
    have l: "Suc (length gs) div 2 < length gs" using True by auto
    show ?thesis
      by (subst reduce_loop.simps, unfold if_P [OF True], intro pkeep_bind [OF pkeep_reduce_layer] less.hyps)
        (use less.prems l in \<open>auto simp: div_eq_0_iff\<close>)
  qed (use less.prems in \<open>subst reduce_loop.simps, auto simp: pkeep_def all_at_def\<close>)
qed

lemma fold_max_ge: "x \<in> set xs \<Longrightarrow> f x \<le> fold (\<lambda>g m. max m (f g)) xs (n :: nat)" "n \<le> fold (\<lambda>g m. max m (f g)) xs n"
proof (induction xs arbitrary: n)
  case (Cons y ys)
  { case 1 then show ?case using Cons(1,2) [of "max n (f y)"] by (auto intro: order_trans) }
  { case 2 then show ?case using Cons(2) [of "max n (f y)"] by simp }
qed auto

lemma pkeep_reduce:
  assumes "pwf s" "op \<noteq> OpCONSTANT" "\<forall>g \<in> set terms. pos_in s g"
  shows "pkeep (reduce op terms s) s (\<lambda>g s'. pos_in s' g)"
proof -
  consider "terms = []" | g where "terms = [g]" | "length terms > 1" by (cases terms; cases "tl terms") auto
  then show ?thesis
  proof cases
    case 1
    then show ?thesis using pkeep_let [OF addConstant_step [OF assms(1)]] pkeep_getGate
      by (simp add: reduce_def Let_def) (intro pkeep_let [OF addConstant_step, unfolded Let_def] pkeep_weaken [OF pkeep_getGate], use assms in auto)
  next
    case 2
    then show ?thesis using assms by (simp add: reduce_def pkeep_def)
  next
    case 3
    then have ne: "terms \<noteq> []" "length terms \<noteq> 1" by auto
    show ?thesis unfolding reduce_def if_not_P [OF ne(1)] if_not_P [OF ne(2)] Let_def
      by (intro pkeep_bind [OF pkeep_promote_all] pkeep_bind [OF pkeep_reduce_loop] pkeep_Some)
        (use assms ne fold_max_ge(1) in \<open>auto simp: all_at_def\<close>)
  qed
qed

end
