(* ===== verification/Pws_Tokens.thy ===== *)
theory Pws_Tokens
  imports Pws_Builder
begin

text \<open>
  The token reader of the circuit parser (\<^verbatim>\<open>circuit/tokenizer.h\<close>) over the C++ input stream it wraps. A stream is the text that is
  left and the flags \<^verbatim>\<open>eofbit\<close> and \<^verbatim>\<open>failbit\<close>; a position is the text left at it, and \<open>None\<close> is the position -1.
  Extraction starts with the stream's sentry, which sets \<^verbatim>\<open>failbit\<close> on a stream that is not good and skips blanks; where it fails, the
  variable keeps its value. \<^verbatim>\<open>seekg\<close> clears \<^verbatim>\<open>eofbit\<close>. The boolean results of \<open>next\<close>, which no caller reads, are left out.
\<close>

record Tokenizer =
  is_rest :: string
  is_eof :: bool
  is_fail :: bool
  lastPos :: "string option"

definition is_good :: "Tokenizer \<Rightarrow> bool" where
  "is_good t \<longleftrightarrow> \<not> is_eof t \<and> \<not> is_fail t"

definition isspace :: "char \<Rightarrow> bool" where
  "isspace c \<longleftrightarrow> c \<in> set [CHR '' '', CHR 0x09, CHR 0x0A, CHR 0x0B, CHR 0x0C, CHR 0x0D]"

definition tellg :: "Tokenizer \<Rightarrow> Tokenizer" where
  "tellg t = (if is_good t then t\<lparr>lastPos := Some (is_rest t)\<rparr> else t\<lparr>is_fail := True, lastPos := None\<rparr>)"

definition Tokenizer_new :: "string \<Rightarrow> Tokenizer" where
  "Tokenizer_new text' = tellg \<lparr>is_rest = text', is_eof = False, is_fail = False, lastPos = None\<rparr>"

definition hasNext :: "Tokenizer \<Rightarrow> bool" where
  "hasNext t \<longleftrightarrow> \<not> is_eof t"

definition sentry :: "Tokenizer \<Rightarrow> bool \<times> Tokenizer" where
  "sentry t =
     (if is_good t then
        let r = dropWhile isspace (is_rest t)
        in if r = [] then (False, t\<lparr>is_rest := [], is_eof := True, is_fail := True\<rparr>) else (True, t\<lparr>is_rest := r\<rparr>)
      else (False, t\<lparr>is_fail := True\<rparr>))"

definition next_string :: "string \<Rightarrow> Tokenizer \<Rightarrow> string \<times> Tokenizer" where
  "next_string var t =
     (let t = tellg t
      in if hasNext t then
           case sentry t of (ok, t) \<Rightarrow>
             if ok then
               let rest' = dropWhile (\<lambda>c. \<not> isspace c) (is_rest t)
               in (takeWhile (\<lambda>c. \<not> isspace c) (is_rest t), t\<lparr>is_rest := rest', is_eof := (rest' = [])\<rparr>)
             else (var, t)
         else (var, t))"

section \<open>Numbers\<close>

definition is_digit :: "char \<Rightarrow> bool" where
  "is_digit c \<longleftrightarrow> c \<in> set ''0123456789''"

definition digit_val :: "char \<Rightarrow> int" where
  "digit_val c = int (length (takeWhile (\<lambda>d. d \<noteq> c) ''0123456789''))"

definition digits_val :: "string \<Rightarrow> int" where
  "digits_val ds = fold (\<lambda>c n. 10 * n + digit_val c) ds 0"

definition signed_val :: "string \<Rightarrow> string \<Rightarrow> int" where
  "signed_val sign ds = (if sign = ''-'' then - digits_val ds else digits_val ds)"

definition split_sign :: "string \<Rightarrow> string \<times> string" where
  "split_sign cs = (if cs \<noteq> [] \<and> (hd cs = CHR ''-'' \<or> hd cs = CHR ''+'') then ([hd cs], tl cs) else ([], cs))"

text \<open>A number outside the range of \<^verbatim>\<open>int\<close> is a failure, like a text that has no digits.\<close>

definition next_int :: "int \<Rightarrow> Tokenizer \<Rightarrow> int \<times> Tokenizer" where
  "next_int var t =
     (let t = tellg t
      in if hasNext t then
           case sentry t of (ok, t) \<Rightarrow>
             if ok then
               let (sign, cs) = split_sign (is_rest t);
                   ds = takeWhile is_digit cs;
                   rest' = dropWhile is_digit cs;
                   v = signed_val sign ds;
                   good = (ds \<noteq> [] \<and> - (2 ^ 31) \<le> v \<and> v < 2 ^ 31)
               in (if good then v else if ds = [] then 0 else if v < 0 then - (2 ^ 31) else 2 ^ 31 - 1,
                   t\<lparr>is_rest := rest', is_eof := (rest' = []), is_fail := \<not> good\<rparr>)
             else (var, t)
         else (var, t))"

text \<open>\<^verbatim>\<open>atoi\<close> of the C library, on a text without blanks. A number that does not fit has no defined result in C; here it is kept.\<close>

definition atoi :: "string \<Rightarrow> int" where
  "atoi cs = (case split_sign cs of (sign, ds) \<Rightarrow> signed_val sign (takeWhile is_digit ds))"

section \<open>Positions\<close>

definition rewind :: "Tokenizer \<Rightarrow> Tokenizer" where
  "rewind t =
     (case lastPos t of None \<Rightarrow> t
      | Some pos \<Rightarrow> if is_fail t then t\<lparr>is_eof := False\<rparr> else t\<lparr>is_eof := False, is_rest := pos\<rparr>)"

definition ignoreLine :: "Tokenizer \<Rightarrow> Tokenizer" where
  "ignoreLine t =
     (let t = tellg t
      in if is_good t then
           let line = takeWhile (\<lambda>c. c \<noteq> CHR 0x0A) (is_rest t);
               rest' = dropWhile (\<lambda>c. c \<noteq> CHR 0x0A) (is_rest t)
           in if rest' = [] then t\<lparr>is_rest := [], is_eof := True, is_fail := (line = [])\<rparr>
              else t\<lparr>is_rest := tl rest'\<rparr>
         else t\<lparr>is_fail := True\<rparr>)"

section \<open>Facts\<close>

text \<open>Text that is read token by token: a token has characters, none of them blank.\<close>

definition is_token :: "string \<Rightarrow> bool" where
  "is_token w \<longleftrightarrow> w \<noteq> [] \<and> list_all (\<lambda>c. \<not> isspace c) w"

definition tok_text :: "string list \<Rightarrow> string" where
  "tok_text ws = concat (map (\<lambda>w. CHR '' '' # w) ws)"

lemma tok_text_Cons: "tok_text (w # ws) = CHR '' '' # w @ tok_text ws"
  by (simp add: tok_text_def)

lemma isspace_blank [simp]: "isspace CHR '' ''"
  by (simp add: isspace_def)

definition at_text :: "Tokenizer \<Rightarrow> string \<Rightarrow> bool" where
  "at_text t cs \<longleftrightarrow> is_good t \<and> is_rest t = cs"

text \<open>A text in which a token can end.\<close>

definition blank_start :: "string \<Rightarrow> bool" where
  "blank_start cs \<longleftrightarrow> cs \<noteq> [] \<and> isspace (hd cs)"

lemma blank_start_toks: "blank_start cs \<Longrightarrow> blank_start (tok_text ws @ cs)"
  by (cases ws) (simp_all add: blank_start_def tok_text_def)

text \<open>The next token of a text, and the way back.\<close>

lemma next_string_token:
  assumes "at_text t (tok_text (w # ws) @ cs)" "is_token w" "blank_start cs"
  shows "\<exists>t'. next_string var t = (w, t') \<and> at_text t' (tok_text ws @ cs) \<and> at_text (rewind t') (tok_text (w # ws) @ cs)"
proof -
  let ?r = "tok_text ws @ cs"
  have b: "?r \<noteq> []" "isspace (hd ?r)" using blank_start_toks [OF assms(3), of ws] by (simp_all add: blank_start_def)
  then obtain c cs' where r: "?r = c # cs'" "isspace c" by (cases ?r) auto
  have w: "w \<noteq> []" "\<not> isspace (hd w)" "\<And>c. c \<in> set w \<Longrightarrow> \<not> isspace c"
    using assms(2) by (cases w; auto simp: is_token_def list_all_iff)+
  have d: "dropWhile isspace (w @ c # cs') = w @ c # cs'" using w by (cases w) auto
  have t: "takeWhile (\<lambda>c. \<not> isspace c) (w @ c # cs') = w" "dropWhile (\<lambda>c. \<not> isspace c) (w @ c # cs') = c # cs'"
    using w(3) r(2) by (simp_all add: takeWhile_append dropWhile_append)
  show ?thesis using assms(1) w(1) r
    by (simp add: tok_text_Cons next_string_def tellg_def at_text_def is_good_def hasNext_def sentry_def d t rewind_def Let_def)
qed

section \<open>Numerals\<close>

lemma digit_val_char: "d < 10 \<Longrightarrow> digit_val (digit_char d) = int d \<and> is_digit (digit_char d)"
proof -
  have "\<forall>d < 10. digit_val (digit_char d) = int d \<and> is_digit (digit_char d)" by code_simp
  then show "d < 10 \<Longrightarrow> ?thesis" by blast
qed

lemma digits_val_snoc: "digits_val (ds @ [c]) = 10 * digits_val ds + digit_val c"
  by (simp add: digits_val_def)

lemma nat_str_digits: "digits_val (nat_str n) = int n \<and> list_all is_digit (nat_str n) \<and> nat_str n \<noteq> []"
proof (induction n rule: nat_str.induct)
  case (1 n)
  show ?case
  proof (cases "n < 10")
    case True
    then show ?thesis using digit_val_char [OF True] by (subst (1 2 3) nat_str.simps) (simp add: digits_val_def)
  next
    case False
    have "n mod 10 < 10" by simp
    with 1 [OF False] digit_val_char [OF this] False show ?thesis
      by (subst (1 2 3) nat_str.simps) (simp add: digits_val_snoc zmod_int zdiv_int)
  qed
qed

text \<open>What \<open>int_str\<close> writes, \<^verbatim>\<open>atoi\<close> reads.\<close>

lemma atoi_int_str: "atoi (int_str v) = v"
proof -
  have sign: "\<not> is_digit CHR ''-''" "\<not> is_digit CHR ''+''" by (simp_all add: is_digit_def)
  have N: "digits_val (nat_str n) = int n" "nat_str n \<noteq> []" "takeWhile is_digit (nat_str n) = nat_str n" "is_digit (hd (nat_str n))" for n
    using nat_str_digits [of n] by (auto simp: list_all_iff takeWhile_eq_all_conv)
  have S: "split_sign (nat_str n) = ([], nat_str n)" for n using N(4) [of n] sign by (auto simp: split_sign_def)
  show ?thesis
  proof (cases "v < 0")
    case True
    then show ?thesis by (simp add: int_str_def atoi_def split_sign_def signed_val_def N)
  next
    case False
    then show ?thesis by (simp add: int_str_def atoi_def S signed_val_def N)
  qed
qed

end
