(* ===== verification/Pws_Values.thy ===== *)
theory Pws_Values
  imports Pws_Keep Pws_Tokens "HOL-Library.Sublist"
begin

text \<open>
  The values of the gates of a description, in any commutative ring, as a function of the values of its lowest layer, and the
  invariant under which the builder computes what it means to: a gate that is bound is the gate of what it is bound to, and all
  gates of a constant or a variable have one value. It holds of programs that bind every variable once and make
  magic only what is not an input or an output.
\<close>

section \<open>Values\<close>

definition opval :: "OpType \<Rightarrow> 'a::comm_ring_1 \<Rightarrow> 'a \<Rightarrow> 'a" where
  "opval op x y = (case makeGate_op op of ADD \<Rightarrow> x + y | MUL \<Rightarrow> x * y | DIV_INT \<Rightarrow> x * y)"

lemma opval_simps [simp]: "opval OpADD x y = x + y" "opval OpMUL x y = x * y" "opval OpDIV_INT x y = x * y"
  by (simp_all add: opval_def makeGate_op_def)

fun gval :: "(nat \<Rightarrow> 'a::comm_ring_1) \<Rightarrow> GateDescription list list \<Rightarrow> nat \<Rightarrow> nat \<Rightarrow> 'a" where
  "gval f desc 0 j = f j"
| "gval f desc (Suc l) j =
     (let d = desc ! Suc l ! j in opval (gd_op d) (gval f desc l (gd_in1 d)) (gval f desc l (gd_in2 d)))"

definition gate_core :: "GateDescription \<Rightarrow> OpType \<times> nat \<times> nat" where
  "gate_core d = (gd_op d, gd_in1 d, gd_in2 d)"

definition desc_ext :: "GateDescription list list \<Rightarrow> GateDescription list list \<Rightarrow> bool" where
  "desc_ext d d' \<longleftrightarrow> desc_grows d d' \<and> (\<forall>l j. l < length d \<longrightarrow> j < length (d ! l) \<longrightarrow> gate_core (d' ! l ! j) = gate_core (d ! l ! j))"

lemma gval_ext:
  assumes "desc_wf d" "desc_ext d d'" "l < length d" "j < length (d ! l)"
  shows "gval f d' l j = gval f d l j"
  using assms(3,4)
proof (induction l arbitrary: j)
  case (Suc l)
  have c: "gate_core (d' ! Suc l ! j) = gate_core (d ! Suc l ! j)" using assms(2) Suc.prems by (simp add: desc_ext_def)
  have w: "gd_in1 (d ! Suc l ! j) < length (d ! l)" "gd_in2 (d ! Suc l ! j) < length (d ! l)"
    using assms(1) Suc.prems by (auto simp: desc_wf_def gate_wf_def Let_def)
  have "l < length d" using Suc.prems(1) by simp
  with c w Suc.IH show ?case by (simp add: gate_core_def Let_def)
qed simp

lemma desc_ext_refl [simp]: "desc_ext d d"
  by (simp add: desc_ext_def)

lemma desc_ext_trans:
  assumes "desc_ext d d'" "desc_ext d' d''"
  shows "desc_ext d d''"
proof -
  have g: "desc_grows d d''" using assms desc_grows_trans by (auto simp: desc_ext_def)
  have "gate_core (d'' ! l ! j) = gate_core (d ! l ! j)" if "l < length d" "j < length (d ! l)" for l j
  proof -
    have "l < length d'" "j < length (d' ! l)" using assms(1) that by (auto simp: desc_ext_def desc_grows_def intro: order_less_le_trans)
    then show ?thesis using assms that by (simp add: desc_ext_def)
  qed
  with g show ?thesis by (simp add: desc_ext_def)
qed

definition gv :: "(nat \<Rightarrow> 'a::comm_ring_1) \<Rightarrow> PWSCircuitParser \<Rightarrow> GatePosition \<Rightarrow> 'a" where
  "gv f s g = gval f (circuitDesc s) (gp_layer g) (gp_name g)"

section \<open>Live bindings\<close>

definition bound_ok :: "PWSCircuitParser \<Rightarrow> bool" where
  "bound_ok s \<longleftrightarrow> (\<forall>g p. pos_in s g \<longrightarrow> boundPrimitive (circuitDesc s ! gp_layer g ! gp_name g) = Some p \<longrightarrow>
     (\<exists>q. getCircuitPrimitive s p = Some q \<and> gate_index_at q (gp_layer g) = Some g))"

definition typed_ok :: "PWSCircuitParser \<Rightarrow> bool" where
  "typed_ok s \<longleftrightarrow> (\<forall>p q. getCircuitPrimitive s p = Some q \<longrightarrow> toPrimitive s p = Some p)"

definition swf :: "PWSCircuitParser \<Rightarrow> bool" where
  "swf s \<longleftrightarrow> pwf s \<and> bound_ok s \<and> typed_ok s"

definition live :: "PWSCircuitParser \<Rightarrow> Primitive \<Rightarrow> bool" where
  "live s p \<longleftrightarrow> (\<exists>q. getCircuitPrimitive s p = Some q \<and> isBound q)"

definition first_gate :: "PWSCircuitParser \<Rightarrow> Primitive \<Rightarrow> GatePosition" where
  "first_gate s p = (case getCircuitPrimitive s p of
     None \<Rightarrow> \<lparr>gp_layer = 0, gp_name = 0\<rparr> | Some q \<Rightarrow> \<lparr>gp_layer = nat (minLayer q), gp_name = hd (gateIndex q)\<rparr>)"

fun ptype :: "PWSCircuitParser \<Rightarrow> Primitive \<Rightarrow> VarType option" where
  "ptype s (CONSTANT i) = None"
| "ptype s (INTERMEDIATE n) = map_option varType (map_of (varMap s) n)"
| "ptype s (INPUT_OUTPUT n) = map_option varType (map_of (inOutVarsMap s) n)"

lemma ptype_cong: "varMap s' = varMap s \<Longrightarrow> inOutVarsMap s' = inOutVarsMap s \<Longrightarrow> ptype s' p = ptype s p"
  by (cases p) auto

text \<open>No output constant, magic operation or division is added, and the inputs and outputs stay in the order of their numbers.\<close>

definition no_divisions :: "PWSCircuitParser \<Rightarrow> bool" where
  "no_divisions s \<longleftrightarrow> (\<forall>layer \<in> set (circuitDesc s). \<forall>d \<in> set layer. gd_op d \<noteq> OpDIV_INT)"

definition sorted_io :: "PWSCircuitParser \<Rightarrow> bool" where
  "sorted_io s \<longleftrightarrow> sorted_wrt (<) (map fst (inOutVarsMap s))"

definition kept :: "PWSCircuitParser \<Rightarrow> PWSCircuitParser \<Rightarrow> bool" where
  "kept s s' \<longleftrightarrow> outConstantDesc s' = outConstantDesc s \<and> magicOps s' = magicOps s \<and> (sorted_io s \<longrightarrow> sorted_io s') \<and>
     (no_divisions s \<longrightarrow> no_divisions s')"

lemma kept_refl [simp]: "kept s s"
  by (simp add: kept_def)

lemma kept_trans: "kept s s' \<Longrightarrow> kept s' s'' \<Longrightarrow> kept s s''"
  by (simp add: kept_def)

lemma kept_cong: "outConstantDesc s' = outConstantDesc s \<Longrightarrow> magicOps s' = magicOps s \<Longrightarrow> inOutVarsMap s' = inOutVarsMap s \<Longrightarrow>
    (no_divisions s \<Longrightarrow> no_divisions s') \<Longrightarrow> kept s s'"
  by (simp add: kept_def sorted_io_def)

lemma no_divisions_cong: "circuitDesc s' = circuitDesc s \<Longrightarrow> no_divisions s' = no_divisions s"
  by (simp add: no_divisions_def)

lemma no_divisions_addGate:
  assumes "addGate op a b l s = (g, s')" "op \<noteq> OpDIV_INT" "no_divisions s"
  shows "no_divisions s'"
proof -
  let ?d = "getLayer l (circuitDesc s)"
  have d: "\<forall>layer \<in> set ?d. \<forall>d \<in> set layer. gd_op d \<noteq> OpDIV_INT" using assms(3) by (auto simp: no_divisions_def getLayer_def split: if_splits)
  have "l < length ?d" by (simp add: getLayer_def)
  then have "\<forall>d \<in> set (?d ! l). gd_op d \<noteq> OpDIV_INT" using d nth_mem by blast
  then show ?thesis using assms(1,2) d by (auto simp: addGate_def Let_def no_divisions_def dest!: set_update_subset_insert [THEN subsetD])
qed

lemma set_map_set: "set (map fst (map_set k v m)) = insert k (set (map fst m))"
  by (induction k v m rule: map_set.induct) auto

lemma sorted_map_set: "sorted_wrt (<) (map fst m) \<Longrightarrow> sorted_wrt (<) (map fst (map_set k v m))"
proof (induction k v m rule: map_set.induct)
  case (2 k v k' v' m)
  then show ?case using set_map_set [of k v m] by auto
qed simp

datatype allowed = Allowed (a_types: "(Primitive \<times> VarType) set") (a_layers: "(Primitive \<times> nat) set")

text \<open>What the later state of the builder keeps of the earlier one when no variable is bound again, and the variables it may have
  added since, with their types, and bound, with their layers.\<close>

definition prim_ext :: "CPrimitive \<Rightarrow> CPrimitive \<Rightarrow> bool" where
  "prim_ext q q' \<longleftrightarrow> (isBound q \<longrightarrow> minLayer q' = minLayer q \<and> prefix (gateIndex q) (gateIndex q'))"

definition ext :: "allowed \<Rightarrow> PWSCircuitParser \<Rightarrow> PWSCircuitParser \<Rightarrow> bool" where
  "ext A s s' \<longleftrightarrow> kept s s' \<and> desc_ext (circuitDesc s) (circuitDesc s') \<and>
     (\<forall>p q. getCircuitPrimitive s p = Some q \<longrightarrow> (\<exists>q'. getCircuitPrimitive s' p = Some q' \<and> prim_ext q q')) \<and>
     prefix (map cc_value (constants s)) (map cc_value (constants s')) \<and> map_of (constMap s) \<subseteq>\<^sub>m map_of (constMap s') \<and>
     (\<forall>p ty. ptype s' p = Some ty \<longrightarrow> ptype s p = Some ty \<or> ptype s p = None \<and> (p, ty) \<in> a_types A) \<and>
     (\<forall>p. isVariable p \<longrightarrow> live s' p \<longrightarrow> live s p \<or> (p, gp_layer (first_gate s' p)) \<in> a_layers A)"

lemma prim_ext_refl [simp]: "prim_ext q q"
  by (simp add: prim_ext_def)

lemma prim_ext_trans: "prim_ext q q' \<Longrightarrow> prim_ext q' q'' \<Longrightarrow> prim_ext q q''"
  by (auto simp: prim_ext_def isBound_def intro: prefix_order.trans)

lemma prefix_hd: "prefix xs ys \<Longrightarrow> xs \<noteq> [] \<Longrightarrow> hd ys = hd xs"
  by (auto simp: prefix_def)

lemma live_ext:
  assumes "ext A s s'" "live s p"
  shows "live s' p" "first_gate s' p = first_gate s p"
proof -
  obtain q where q: "getCircuitPrimitive s p = Some q" "isBound q" using assms(2) by (auto simp: live_def)
  then obtain q' where q': "getCircuitPrimitive s' p = Some q'" "prim_ext q q'" using assms(1) unfolding ext_def by blast
  show "live s' p" "first_gate s' p = first_gate s p"
    using q q' by (auto simp: live_def prim_ext_def isBound_def first_gate_def prefix_hd)
qed

lemma ptype_None: "ptype s p = None \<longleftrightarrow> \<not> isVariable p \<or> getCircuitPrimitive s p = None"
  by (cases p) (auto simp: isVariable_def)

lemma ptype_ext: "ext A s s' \<Longrightarrow> ptype s' p = Some ty \<Longrightarrow> ptype s p = Some ty \<or> ptype s p = None \<and> (p, ty) \<in> a_types A"
  by (simp add: ext_def)

lemma ptype_None_ext: "ext A s s' \<Longrightarrow> ptype s' p = None \<Longrightarrow> ptype s p = None"
  unfolding ext_def ptype_None by (metis not_None_eq)

lemma ext_refl [simp]: "ext A s s"
  by (simp add: ext_def)

lemma ext_trans:
  assumes "ext A s s'" "ext A s' s''"
  shows "ext A s s''"
  unfolding ext_def
proof (intro conjI allI impI)
  show "kept s s''" using assms kept_trans by (auto simp: ext_def)
  show "desc_ext (circuitDesc s) (circuitDesc s'')" using assms desc_ext_trans by (auto simp: ext_def)
  show "prefix (map cc_value (constants s)) (map cc_value (constants s''))" using assms by (auto simp: ext_def intro: prefix_order.trans)
  show "map_of (constMap s) \<subseteq>\<^sub>m map_of (constMap s'')" using assms by (auto simp: ext_def intro: map_le_trans)
  show "\<exists>q'. getCircuitPrimitive s'' p = Some q' \<and> prim_ext q q'" if "getCircuitPrimitive s p = Some q" for p q
    using assms that prim_ext_trans unfolding ext_def by metis
  show "ptype s p = Some ty \<or> ptype s p = None \<and> (p, ty) \<in> a_types A" if "ptype s'' p = Some ty" for p ty
  proof (cases "ptype s' p")
    case None
    then have "(p, ty) \<in> a_types A" using ptype_ext [OF assms(2) that] by simp
    moreover have "ptype s p = None" using None ptype_None_ext [OF assms(1)] by blast
    ultimately show ?thesis by simp
  next
    case (Some ty')
    then have "ty' = ty" using ptype_ext [OF assms(2) that] by simp
    then show ?thesis using ptype_ext [OF assms(1)] Some by simp
  qed
  show "live s p \<or> (p, gp_layer (first_gate s'' p)) \<in> a_layers A" if "isVariable p" "live s'' p" for p
  proof (cases "live s' p")
    case True
    then show ?thesis using assms(1) live_ext(2) [OF assms(2) True] that(1) by (auto simp: ext_def)
  next
    case False
    then show ?thesis using assms(2) that by (auto simp: ext_def)
  qed
qed

lemma ext_pos: "ext A s s' \<Longrightarrow> pos_in s g \<Longrightarrow> pos_in s' g"
  by (auto simp: ext_def desc_ext_def intro: valid_pos_grows)

lemma ext_gv: "pwf s \<Longrightarrow> ext A s s' \<Longrightarrow> pos_in s g \<Longrightarrow> gv f s' g = gv f s g"
  by (simp add: gv_def gval_ext pwf_def ext_def valid_pos_def)

section \<open>Constants\<close>

text \<open>The value of a constant is read off its text; \<open>int_str\<close> writes what is read.\<close>

locale numeral_reader =
  fixes cn :: "string \<Rightarrow> 'a::comm_ring_1"
  assumes cn_int: "cn (int_str v) = of_int v"

interpretation decimal: numeral_reader "\<lambda>c. of_int (atoi c)"
  by unfold_locales (simp add: atoi_int_str)

definition consts_ok :: "(string \<Rightarrow> 'a) \<Rightarrow> (nat \<Rightarrow> 'a::comm_ring_1) \<Rightarrow> PWSCircuitParser \<Rightarrow> bool" where
  "consts_ok cn f s \<longleftrightarrow>
     (\<forall>i < length (constants s). isBound (cc_base (constants s ! i)) \<longrightarrow> f (hd (gateIndex (cc_base (constants s ! i)))) = cn (cc_value (constants s ! i)))"

text \<open>All gates of a primitive have the value of its first gate.\<close>

definition one_value :: "(nat \<Rightarrow> 'a::comm_ring_1) \<Rightarrow> PWSCircuitParser \<Rightarrow> bool" where
  "one_value f s \<longleftrightarrow> (\<forall>p q l g. getCircuitPrimitive s p = Some q \<longrightarrow> gate_index_at q l = Some g \<longrightarrow>
     gv f s g = gval f (circuitDesc s) (nat (minLayer q)) (hd (gateIndex q)))"

definition vinv :: "(string \<Rightarrow> 'a) \<Rightarrow> (nat \<Rightarrow> 'a::comm_ring_1) \<Rightarrow> PWSCircuitParser \<Rightarrow> bool" where
  "vinv cn f s \<longleftrightarrow> swf s \<and> (consts_ok cn f s \<longrightarrow> one_value f s)"

text \<open>The gate has the value, once the inputs are known to be right on the constants.\<close>

definition has_val :: "(string \<Rightarrow> 'a) \<Rightarrow> (nat \<Rightarrow> 'a::comm_ring_1) \<Rightarrow> PWSCircuitParser \<Rightarrow> GatePosition \<Rightarrow> 'a \<Rightarrow> bool" where
  "has_val cn f s g v \<longleftrightarrow> pos_in s g \<and> (consts_ok cn f s \<longrightarrow> gv f s g = v)"

lemma consts_ok_ext:
  assumes "ext A s s'" "consts_ok cn f s'"
  shows "consts_ok cn f s"
  unfolding consts_ok_def
proof (intro allI impI)
  fix i assume i: "i < length (constants s)" and b: "isBound (cc_base (constants s ! i))"
  have p: "prefix (map cc_value (constants s)) (map cc_value (constants s'))" using assms(1) by (simp add: ext_def)
  then obtain zs where zs: "map cc_value (constants s') = map cc_value (constants s) @ zs" by (auto simp: prefix_def)
  then have i': "i < length (constants s')" using i by (metis length_append length_map trans_less_add1)
  then have v: "cc_value (constants s' ! i) = cc_value (constants s ! i)" using zs i by (metis length_map nth_append nth_map)
  have "getCircuitPrimitive s (CONSTANT i) = Some (cc_base (constants s ! i))" using i by simp
  then have "prim_ext (cc_base (constants s ! i)) (cc_base (constants s' ! i))"
    using assms(1) i' unfolding ext_def by (metis getCircuitPrimitive.simps(1) option.inject)
  then have "hd (gateIndex (cc_base (constants s' ! i))) = hd (gateIndex (cc_base (constants s ! i)))" "isBound (cc_base (constants s' ! i))"
    using b by (auto simp: prim_ext_def isBound_def prefix_hd)
  then show "f (hd (gateIndex (cc_base (constants s ! i)))) = cn (cc_value (constants s ! i))"
    using assms(2) i' v by (auto simp: consts_ok_def)
qed

lemma has_val_ext: "pwf s \<Longrightarrow> ext A s s' \<Longrightarrow> has_val cn f s g v \<Longrightarrow> has_val cn f s' g v"
  using consts_ok_ext ext_gv ext_pos unfolding has_val_def by metis

section \<open>Total steps\<close>

definition tot :: "allowed \<Rightarrow> (string \<Rightarrow> 'a) \<Rightarrow> (nat \<Rightarrow> 'a::comm_ring_1) \<Rightarrow> ('b \<times> PWSCircuitParser) option \<Rightarrow> PWSCircuitParser \<Rightarrow> ('b \<Rightarrow> PWSCircuitParser \<Rightarrow> bool) \<Rightarrow> bool" where
  "tot A cn f r s Q \<longleftrightarrow> (\<exists>x s'. r = Some (x, s') \<and> vinv cn f s' \<and> ext A s s' \<and> Q x s')"

lemma tot_bind:
  assumes "tot A cn f m s Q" "\<And>x s'. vinv cn f s' \<Longrightarrow> ext A s s' \<Longrightarrow> Q x s' \<Longrightarrow> tot A cn f (k x s') s' R"
  shows "tot A cn f (Option.bind m (\<lambda>(x, s). k x s)) s R"
proof -
  obtain x s' where m: "m = Some (x, s')" "vinv cn f s'" "ext A s s'" "Q x s'" using assms(1) by (auto simp: tot_def)
  then obtain y s'' where "k x s' = Some (y, s'')" "vinv cn f s''" "ext A s' s''" "R y s''" using assms(2) [of s' x] by (auto simp: tot_def)
  then show ?thesis using m(1,3) ext_trans by (auto simp: tot_def)
qed

lemma tot_let:
  assumes "tot A cn f (Some m) s Q" "\<And>x s'. vinv cn f s' \<Longrightarrow> ext A s s' \<Longrightarrow> Q x s' \<Longrightarrow> tot A cn f (k x s') s' R"
  shows "tot A cn f (let (x, s) = m in k x s) s R"
  using tot_bind [OF assms] by (cases m) simp

lemma tot_Some: "vinv cn f s' \<Longrightarrow> ext A s s' \<Longrightarrow> Q x s' \<Longrightarrow> tot A cn f (Some (x, s')) s Q"
  by (simp add: tot_def)

lemma tot_weaken: "tot A cn f m s Q \<Longrightarrow> (\<And>x s'. vinv cn f s' \<Longrightarrow> ext A s s' \<Longrightarrow> Q x s' \<Longrightarrow> R x s') \<Longrightarrow> tot A cn f m s R"
  by (auto simp: tot_def)

lemma vinv_pwf: "vinv cn f s \<Longrightarrow> pwf s"
  by (simp add: vinv_def swf_def)

end
