(* ===== verification/Pws_Values_Steps.thy ===== *)
theory Pws_Values_Steps
  imports Pws_Values
begin

text \<open>
  The elementary operations of the builder return and keep the values of \<open>Pws_Values\<close>: adding a gate, a constant or a variable,
  and binding a variable that is not bound.
\<close>

section \<open>A change of gates only\<close>

lemma swf_pwf: "swf s \<Longrightarrow> pwf s"
  by (simp add: swf_def)

text \<open>The gates of what is bound are gates of the description.\<close>

lemma gate_index_at_in:
  assumes "pwf s" "getCircuitPrimitive s p = Some q" "gate_index_at q l = Some g"
  shows "pos_in s g" "gp_layer g = l" "isBound q" "pos_in s \<lparr>gp_layer = nat (minLayer q), gp_name = hd (gateIndex q)\<rparr>"
proof -
  have w: "prim_wf (circuitDesc s) q" using pwf_get [OF assms(1,2)] by simp
  show "pos_in s g" "gp_layer g = l" using gate_index_at_pos [OF w assms(3)] by simp_all
  show b: "isBound q" using assms(3) by (auto simp: gate_index_at_def isBound_def split: if_splits)
  have "pos_in s \<lparr>gp_layer = nat (minLayer q) + 0, gp_name = gateIndex q ! 0\<rparr>" using w b by (auto simp: prim_wf_def isBound_def)
  then show "pos_in s \<lparr>gp_layer = nat (minLayer q), gp_name = hd (gateIndex q)\<rparr>" using b by (simp add: isBound_def hd_conv_nth)
qed

lemma vinv_desc:
  assumes v: "vinv cn f s" and st: "pstep s s'" and d: "desc_ext (circuitDesc s) (circuitDesc s')"
    and same: "constants s' = constants s" "varMap s' = varMap s" "inOutVarsMap s' = inOutVarsMap s" and k: "kept s s'"
    and b: "\<And>g p. pos_in s' g \<Longrightarrow> boundPrimitive (circuitDesc s' ! gp_layer g ! gp_name g) = Some p \<Longrightarrow>
      pos_in s g \<and> boundPrimitive (circuitDesc s ! gp_layer g ! gp_name g) = Some p"
  shows "vinv cn f s'" "ext A s s'"
proof -
  note G = getCircuitPrimitive_cong [OF same] and T = toPrimitive_cong [OF same]
  have p: "pwf s" "swf s" using v by (auto simp: vinv_def swf_def)
  show e: "ext A s s'" using d st k same(1) ptype_cong [OF same(2,3)] by (simp add: ext_def live_def G pstep_def)
  have "bound_ok s'" unfolding bound_ok_def
  proof (intro allI impI)
    fix g p assume "pos_in s' g" "boundPrimitive (circuitDesc s' ! gp_layer g ! gp_name g) = Some p"
    from b [OF this] show "\<exists>q. getCircuitPrimitive s' p = Some q \<and> gate_index_at q (gp_layer g) = Some g"
      using p(2) by (auto simp: swf_def bound_ok_def G)
  qed
  then have "swf s'" using p(2) st by (auto simp: swf_def typed_ok_def G T pstep_def)
  moreover have "one_value f s'" if "one_value f s"
    unfolding one_value_def G
  proof (intro allI impI)
    fix p0 q l g assume q: "getCircuitPrimitive s p0 = Some q" "gate_index_at q l = Some g"
    note I = gate_index_at_in [OF p(1) q]
    show "gv f s' g = gval f (circuitDesc s') (nat (minLayer q)) (hd (gateIndex q))"
      using that q ext_gv [OF p(1) e I(1), of f] ext_gv [OF p(1) e I(4), of f] by (auto simp: one_value_def gv_def)
  qed
  ultimately show "vinv cn f s'" using v consts_ok_ext [OF e] by (auto simp: vinv_def)
qed

section \<open>Gates\<close>

lemma addGate_desc_ext:
  assumes "addGate op a b l s = (g, s')"
  shows "desc_ext (circuitDesc s) (circuitDesc s')"
    "circuitDesc s' ! gp_layer g ! gp_name g = \<lparr>gd_op = op, gd_pos = g, gd_in1 = a, gd_in2 = b, boundPrimitive = None\<rparr>"
    "\<And>g'. pos_in s' g' \<Longrightarrow> g' \<noteq> g \<Longrightarrow> pos_in s g' \<and> circuitDesc s' ! gp_layer g' ! gp_name g' = circuitDesc s ! gp_layer g' ! gp_name g'"
proof -
  note A = addGate_desc [OF assms] and gr = addGate_grows(1) [OF assms]
  have l: "l < length (circuitDesc s')" using A(1) by simp
  show "desc_ext (circuitDesc s) (circuitDesc s')" using A(1,2) gr by (simp add: desc_ext_def nth_append)
  show "circuitDesc s' ! gp_layer g ! gp_name g = \<lparr>gd_op = op, gd_pos = g, gd_in1 = a, gd_in2 = b, boundPrimitive = None\<rparr>"
    using A(2) [OF l] A(3,4) by (simp add: nth_append)
  fix g' assume g': "pos_in s' g'" "g' \<noteq> g"
  then have "gp_layer g' \<noteq> l \<or> gp_name g' \<noteq> gp_name g" using A(3) by auto
  then show "pos_in s g' \<and> circuitDesc s' ! gp_layer g' ! gp_name g' = circuitDesc s ! gp_layer g' ! gp_name g'"
    using g'(1) A(2) [of "gp_layer g'"] A(4) by (auto simp: valid_pos_def nth_append split: if_splits)
qed

lemma vinv_addGate:
  assumes "vinv cn f s" "addGate op a b l s = (g, s')" "pstep s s'" and op: "op \<noteq> OpDIV_INT"
  shows "vinv cn f s'" "ext A s s'"
proof -
  note A = addGate_desc_ext [OF assms(2)] and F = addGate_fields [OF assms(2)]
  have b: "pos_in s g' \<and> boundPrimitive (circuitDesc s ! gp_layer g' ! gp_name g') = Some p"
    if "pos_in s' g'" "boundPrimitive (circuitDesc s' ! gp_layer g' ! gp_name g') = Some p" for g' p
    using A(2) A(3) [OF that(1)] that(2) by (cases "g' = g") auto
  have k: "kept s s'" using assms(2) no_divisions_addGate [OF assms(2) op] by (intro kept_cong) (auto simp: addGate_def Let_def)
  show "vinv cn f s'" "ext A s s'" using vinv_desc [OF assms(1,3) A(1) F(1,3,4) k b] by simp_all
qed

lemma gval_addGate:
  assumes "gp_layer g = l + 1" "circuitDesc s' ! gp_layer g ! gp_name g = \<lparr>gd_op = op, gd_pos = g', gd_in1 = a, gd_in2 = b, boundPrimitive = r\<rparr>"
  shows "gv f s' g = opval op (gval f (circuitDesc s') l a) (gval f (circuitDesc s') l b)"
  using assms by (simp add: gv_def)

lemma tot_addGate:
  assumes v: "vinv cn f s" and op: "op = OpADD \<or> op = OpMUL"
    and a: "has_val cn f s g1 x" "gp_layer g1 = l" and b: "has_val cn f s g2 y" "gp_layer g2 = l"
  shows "tot A cn f (Some (addGate op (gp_name g1) (gp_name g2) (l + 1) s)) s (\<lambda>g s'. has_val cn f s' g (opval op x y) \<and> gp_layer g = l + 1)"
proof -
  have o: "op \<noteq> OpCONSTANT" "op \<noteq> OpDIV_INT" using op by auto
  obtain g s' where g: "addGate op (gp_name g1) (gp_name g2) (l + 1) s = (g, s')" by fastforce
  have P: "pstep s s'" "at_layer (l + 1) g s'" using addGate_at [OF vinv_pwf [OF v] o(1), where l = l and ?g1.0 = g1 and ?g2.0 = g2] a b g
    by (auto simp: has_val_def)
  note V = vinv_addGate [OF v g P(1) o(2)]
  have e: "gv f s' g1 = gval f (circuitDesc s') l (gp_name g1)" "gv f s' g2 = gval f (circuitDesc s') l (gp_name g2)"
    by (simp_all add: gv_def a(2) b(2))
  have "gv f s' g = opval op (gv f s' g1) (gv f s' g2)"
    unfolding e by (rule gval_addGate [OF _ addGate_desc_ext(2) [OF g]]) (use P(2) in simp)
  moreover have "has_val cn f s' g1 x" "has_val cn f s' g2 y" using has_val_ext [OF vinv_pwf [OF v] V(2)] a(1) b(1) by blast+
  ultimately have "has_val cn f s' g (opval op x y)" using P(2) by (simp add: has_val_def)
  then show ?thesis using g V P(2) by (simp add: tot_def)
qed

section \<open>Constants and variables\<close>

text \<open>A change of the tables that adds an unbound entry or none.\<close>

lemma vinv_tables:
  assumes v: "vinv cn f s" and st: "pstep s s'" and d: "circuitDesc s' = circuitDesc s"
    and G: "\<And>p'. getCircuitPrimitive s' p' = (if p' = p \<and> getCircuitPrimitive s p = None then Some CPrimitive_new else getCircuitPrimitive s p')"
    and T: "\<And>p' q. getCircuitPrimitive s' p' = Some q \<Longrightarrow> toPrimitive s' p' = Some p'"
    and Y: "\<And>p ty. ptype s' p = Some ty \<Longrightarrow> ptype s p = Some ty \<or> ptype s p = None \<and> (p, ty) \<in> a_types A"
    and K: "kept s s'"
    and C: "prefix (map cc_value (constants s)) (map cc_value (constants s'))"
  shows "vinv cn f s'" "ext A s s'"
proof -
  show e: "ext A s s'" using st C Y K by (auto simp: ext_def live_def d G pstep_def isBound_def CPrimitive_new_def)
  have n: "gate_index_at CPrimitive_new l = None" for l by (simp add: gate_index_at_def CPrimitive_new_def)
  have g: "getCircuitPrimitive s p' = Some q" if "getCircuitPrimitive s' p' = Some q" "gate_index_at q l = Some g" for p' q l g
    using that n [of l] by (auto simp: G split: if_splits)
  have keep: "getCircuitPrimitive s' p' = Some q" if "getCircuitPrimitive s p' = Some q" for p' q using that by (auto simp: G)
  have "bound_ok s" using v by (simp add: vinv_def swf_def)
  then have "bound_ok s'" unfolding bound_ok_def d using keep by blast
  then have "swf s'" using st T by (auto simp: swf_def typed_ok_def pstep_def)
  moreover have "one_value f s'" if "one_value f s" using that g unfolding one_value_def gv_def d by metis
  ultimately show "vinv cn f s'" using v consts_ok_ext [OF e] by (auto simp: vinv_def)
qed

definition const_of :: "PWSCircuitParser \<Rightarrow> Primitive \<Rightarrow> string \<Rightarrow> bool" where
  "const_of s p c \<longleftrightarrow> p = CONSTANT (prim_idx p) \<and> map_of (constMap s) c = Some (prim_idx p)"

lemma const_of_not_var: "const_of s p c \<Longrightarrow> \<not> isVariable p"
  by (metis Primitive.simps(10) const_of_def isVariable_def)

lemma const_of_ext: "ext A s s' \<Longrightarrow> const_of s p c \<Longrightarrow> const_of s' p c"
  unfolding ext_def const_of_def map_le_def by (metis domI)

lemma const_of_get: "pwf s \<Longrightarrow> const_of s p c \<Longrightarrow> \<exists>q. getCircuitPrimitive s p = Some q"
  unfolding pwf_def tables_wf_def const_of_def by (metis getCircuitPrimitive.simps(1))

lemma toPrimitive_addConstant:
  assumes "addConstant c s = (p, s')" "tables_wf s" "typed_ok s" "getCircuitPrimitive s' p' = Some q"
  shows "toPrimitive s' p' = Some p'"
proof (cases p')
  case (CONSTANT i)
  have "tables_wf s'" by (rule tables_wf_addConstant [OF assms(2,1)])
  then show ?thesis using assms(4) CONSTANT toPrimitive_const by (auto split: if_splits)
next
  case (INTERMEDIATE n)
  then have "toPrimitive s' p' = toPrimitive s p'" "getCircuitPrimitive s p' = Some q"
    using assms(1,4) by (auto simp: addConstant_def Let_def split: option.splits)
  then show ?thesis using assms(3) by (auto simp: typed_ok_def)
next
  case (INPUT_OUTPUT n)
  then have "toPrimitive s' p' = toPrimitive s p'" "getCircuitPrimitive s p' = Some q"
    using assms(1,4) by (auto simp: addConstant_def Let_def split: option.splits)
  then show ?thesis using assms(3) by (auto simp: typed_ok_def)
qed

lemma tot_addConstant:
  assumes v: "vinv cn f s"
  shows "tot A cn f (Some (addConstant c s)) s (\<lambda>p s'. const_of s' p c)"
proof -
  obtain p s' where a: "addConstant c s = (p, s')" by fastforce
  have w: "pwf s" "tables_wf s" "typed_ok s" using v by (auto simp: vinv_def swf_def pwf_def)
  have C: "prefix (map cc_value (constants s)) (map cc_value (constants s'))"
    using a by (auto simp: addConstant_def Let_def split: option.splits)
  have K: "kept s s'" using a no_divisions_cong [OF addConstant_fields(1) [OF a]] by (intro kept_cong) (auto simp: addConstant_def Let_def split: option.splits)
  have Y: "ptype s' p = ptype s p" for p using a by (intro ptype_cong) (auto simp: addConstant_def Let_def split: option.splits)
  note V = vinv_tables [where A = A, OF v pstep_addConstant(1) [OF w(1) a] addConstant_fields(1) [OF a] addConstant_get [OF w(2) a]
      toPrimitive_addConstant [OF a w(2,3)] _ K C] Y
  have "const_of s' p c" using addConstant_fields(4,5) [OF a] by (simp add: const_of_def)
  then show ?thesis using a V by (simp add: tot_def)
qed

lemma tot_addVariable:
  assumes v: "vinv cn f s" and A: "(if ty = INPUT \<or> ty = OUTPUT then INPUT_OUTPUT n else INTERMEDIATE n, ty) \<in> a_types A"
  shows "tot A cn f (Some (addVariable ty n s)) s (\<lambda>p s'. (\<exists>q. getCircuitPrimitive s' p = Some q) \<and> isVariable p \<and>
    (ptype s p = None \<longrightarrow> ptype s' p = Some ty) \<and> p = (if ty = INPUT \<or> ty = OUTPUT then INPUT_OUTPUT n else INTERMEDIATE n))"
proof -
  obtain p s' where a: "addVariable ty n s = (p, s')" by fastforce
  have w: "pwf s" "typed_ok s" using v by (auto simp: vinv_def swf_def)
  note G = addVariable_get [OF a]
  have T: "toPrimitive s' p' = Some p'" if "getCircuitPrimitive s' p' = Some q" for p' q
  proof (cases "p' = p \<and> getCircuitPrimitive s p = None")
    case True
    then show ?thesis using a by (auto simp: addVariable_def Let_def CVar_toPrimitive_def isIO_def split: if_splits)
  next
    case False
    then have "getCircuitPrimitive s p' = Some q" using that by (auto simp: G)
    then have "toPrimitive s p' = Some p'" using w(2) by (auto simp: typed_ok_def)
    then show ?thesis using a \<open>getCircuitPrimitive s p' = Some q\<close> by (cases p') (auto simp: addVariable_def Let_def split: if_splits)
  qed
  have d: "circuitDesc s' = circuitDesc s" "prefix (map cc_value (constants s)) (map cc_value (constants s'))"
    using a by (auto simp: addVariable_def Let_def split: if_splits)
  have Y: "ptype s p' = Some ty' \<or> ptype s p' = None \<and> (p', ty') \<in> a_types A" if "ptype s' p' = Some ty'" for p' ty'
    using a that A by (cases p') (auto simp: addVariable_def Let_def isIO_def split: if_splits)
  have K: "kept s s'" using a sorted_map_set by (auto simp: addVariable_def Let_def kept_def sorted_io_def no_divisions_def split: if_splits)
  note V = vinv_tables [where A = A, OF v pstep_addVariable(1) [OF w(1) a] d(1) G(1) T Y K d(2)]
  have "ptype s' p = Some ty" if "ptype s p = None"
    using a that by (auto simp: addVariable_def Let_def isIO_def split: if_splits)
  moreover have "p = (if ty = INPUT \<or> ty = OUTPUT then INPUT_OUTPUT n else INTERMEDIATE n)"
    using a by (auto simp: addVariable_def Let_def isIO_def split: if_splits)
  ultimately show ?thesis using a V pstep_addVariable(2) [OF w(1) a] G(2) by (simp add: tot_def)
qed

section \<open>Binding\<close>

text \<open>The value of a primitive is that of its first gate.\<close>

definition pval :: "(nat \<Rightarrow> 'a::comm_ring_1) \<Rightarrow> PWSCircuitParser \<Rightarrow> Primitive \<Rightarrow> 'a" where
  "pval f s p = gv f s (first_gate s p)"

lemma first_gate_in: "pwf s \<Longrightarrow> live s p \<Longrightarrow> pos_in s (first_gate s p)"
proof -
  assume "pwf s" "live s p"
  then obtain q where q: "getCircuitPrimitive s p = Some q" "isBound q" "prim_wf (circuitDesc s) q" using pwf_get by (auto simp: live_def)
  then have "pos_in s \<lparr>gp_layer = nat (minLayer q) + 0, gp_name = gateIndex q ! 0\<rparr>" by (auto simp: prim_wf_def isBound_def)
  then show ?thesis using q by (simp add: first_gate_def isBound_def hd_conv_nth)
qed

lemma pval_ext: "pwf s \<Longrightarrow> ext A s s' \<Longrightarrow> live s p \<Longrightarrow> pval f s' p = pval f s p"
  by (metis ext_gv first_gate_in live_ext(2) pval_def)

text \<open>Binding a primitive that is not bound.\<close>

lemma gate_index_at_bindPos: "gate_index_at (bindPos g q) l = (if l = gp_layer g then Some g else None)"
  by (auto simp: gate_index_at_def bindPos_def)

lemma toPrimitive_upd:
  assumes "upd_prim p f s = Some s'"
  shows "toPrimitive s' p' = toPrimitive s p'"
proof (cases p)
  case (CONSTANT i)
  then have s': "s' = s\<lparr>constants := (constants s)[i := (constants s ! i)\<lparr>cc_base := f (cc_base (constants s ! i))\<rparr>]\<rparr>" "i < length (constants s)"
    using assms by (simp_all split: if_splits)
  show ?thesis by (cases p') (use s' in \<open>simp_all add: nth_list_update\<close>)
next
  case (INTERMEDIATE n)
  then obtain v where s': "map_of (varMap s) n = Some v" "s' = s\<lparr>varMap := map_set n (v\<lparr>cv_base := f (cv_base v)\<rparr>) (varMap s)\<rparr>"
    using assms by auto
  show ?thesis by (cases p') (use s' in \<open>simp_all add: CVar_toPrimitive_def isIO_def\<close>)
next
  case (INPUT_OUTPUT n)
  then obtain v where s': "map_of (inOutVarsMap s) n = Some v" "s' = s\<lparr>inOutVarsMap := map_set n (v\<lparr>cv_base := f (cv_base v)\<rparr>) (inOutVarsMap s)\<rparr>"
    using assms by auto
  show ?thesis by (cases p') (use s' in \<open>simp_all add: CVar_toPrimitive_def isIO_def\<close>)
qed

lemma ptype_upd:
  assumes "upd_prim p f s = Some s'"
  shows "ptype s' p' = ptype s p'"
  by (cases p; cases p') (use assms in \<open>auto split: if_splits\<close>)

lemma kept_upd: "upd_prim p f s = Some s' \<Longrightarrow> kept s s'"
  by (cases p) (auto simp: kept_def sorted_io_def sorted_map_set no_divisions_def split: if_splits)

lemma kept_upd_gate:
  assumes "upd_gate g (gate_bind p) s = Some s'"
  shows "kept s s'"
proof (rule kept_cong)
  have pos: "pos_in s g" and s': "s' = s\<lparr>circuitDesc := (circuitDesc s)[gp_layer g := (circuitDesc s ! gp_layer g)[gp_name g := gate_bind p (circuitDesc s ! gp_layer g ! gp_name g)]]\<rparr>"
    using assms by (auto simp: upd_gate_def gate_at_def valid_pos_def split: if_splits)
  show "outConstantDesc s' = outConstantDesc s" "magicOps s' = magicOps s" "inOutVarsMap s' = inOutVarsMap s" by (simp_all add: s')
  have "circuitDesc s ! gp_layer g \<in> set (circuitDesc s)" "circuitDesc s ! gp_layer g ! gp_name g \<in> set (circuitDesc s ! gp_layer g)"
    using pos by (simp_all add: valid_pos_def)
  then show "no_divisions s'" if "no_divisions s"
    using that by (auto simp: no_divisions_def s' gate_bind_def dest!: set_update_subset_insert [THEN subsetD])
qed

lemma desc_ext_upd: "gate_core d = gate_core (ds ! l ! n) \<Longrightarrow> desc_ext ds (ds[l := (ds ! l)[n := d]])"
  unfolding desc_ext_def
  by (cases "l < length ds"; cases "n < length (ds ! l)") (auto simp: nth_list_update list_update_beyond)

lemma typed_upd:
  assumes "typed_ok s" "upd_prim p f s = Some s1" "constants s' = constants s1" "varMap s' = varMap s1" "inOutVarsMap s' = inOutVarsMap s1"
    and "\<And>p' q'. getCircuitPrimitive s' p' = Some q' \<Longrightarrow> \<exists>q. getCircuitPrimitive s p' = Some q"
  shows "typed_ok s'"
  unfolding typed_ok_def
proof (intro allI impI)
  fix p' q' assume "getCircuitPrimitive s' p' = Some q'"
  then obtain q where "getCircuitPrimitive s p' = Some q" using assms(6) by blast
  then have "toPrimitive s p' = Some p'" using assms(1) by (auto simp: typed_ok_def)
  then show "toPrimitive s' p' = Some p'" using toPrimitive_upd [OF assms(2)] toPrimitive_cong [OF assms(3-5)] by simp
qed

lemma bindVariable_fresh:
  assumes v: "vinv cn f s" and q: "getCircuitPrimitive s p = Some q" "\<not> isBound q" and g: "pos_in s g" and k: "isVariable p \<or> gp_layer g = 0" "isVariable p \<longrightarrow> (p, gp_layer g) \<in> a_layers A"
  shows "\<exists>s'. bindVariable p g s = Some s' \<and> vinv cn f s' \<and> ext A s s' \<and> live s' p \<and> first_gate s' p = g"
proof -
  have w: "pwf s" "bound_ok s" "typed_ok s" using v by (auto simp: vinv_def swf_def)
  obtain s1 where s1: "upd_prim p (bindPos g) s = Some s1" using upd_prim_Some [OF q(1)] by blast
  note F = upd_prim_fields [OF s1]
  obtain s' where s': "upd_gate g (gate_bind p) s1 = Some s'" using g F by (auto simp: upd_gate_def gate_at_Some)
  have b: "bindVariable p g s = Some s'" using q s1 s' by (simp add: bindVariable_def isBound_def)
  note G = bindVariable_get [OF b] and U = upd_gate_bind [OF s']
  have st: "pstep s s'" by (rule pstep_bindVariable [OF w(1) b k(1)])
  let ?D = "circuitDesc s"
  have D: "circuitDesc s' = ?D[gp_layer g := (?D ! gp_layer g)[gp_name g := gate_bind p (?D ! gp_layer g ! gp_name g)]]"
    using U(2) F by simp
  have cell: "circuitDesc s' ! gp_layer g' ! gp_name g' = (if g' = g then gate_bind p (?D ! gp_layer g ! gp_name g) else ?D ! gp_layer g' ! gp_name g')"
    if "pos_in s g'" for g' using g that unfolding D valid_pos_def by (auto simp: nth_list_update)
  have pos: "pos_in s' = pos_in s" unfolding D by simp
  have gx: "getCircuitPrimitive s' p' = (if p' = p then Some (bindPos g q) else getCircuitPrimitive s p')" for p' using G(1) q(1) by simp
  have cv: "map cc_value (constants s') = map cc_value (constants s)" "map cc_name (constants s') = map cc_name (constants s)" using U(2) F by simp_all
  have dx: "desc_ext ?D (circuitDesc s')" unfolding D by (rule desc_ext_upd) (simp add: gate_core_def gate_bind_def)
  have pt: "ptype s' p' = ptype s p'" for p' using ptype_upd [OF s1] ptype_cong [of s' s1] U(2) by simp
  have e: "ext A s s'" using dx q st cv k(2) pt kept_trans [OF kept_upd [OF s1] kept_upd_gate [OF s']] by (auto simp: ext_def live_def gx prim_ext_def pstep_def first_gate_def bindPos_def)
  have bo: "bound_ok s'" unfolding bound_ok_def pos
  proof (intro allI impI)
    fix g' p' assume g': "pos_in s g'" and p': "boundPrimitive (circuitDesc s' ! gp_layer g' ! gp_name g') = Some p'"
    show "\<exists>q. getCircuitPrimitive s' p' = Some q \<and> gate_index_at q (gp_layer g') = Some g'"
    proof (cases "g' = g")
      case True
      then have "p' = p" using p' cell [OF g'] by (simp add: gate_bind_def)
      then show ?thesis using True by (simp add: gx gate_index_at_bindPos)
    next
      case False
      then obtain q0 where q0: "getCircuitPrimitive s p' = Some q0" "gate_index_at q0 (gp_layer g') = Some g'"
        using p' cell [OF g'] w(2) g' by (auto simp: bound_ok_def)
      then have "p' \<noteq> p" using q gate_index_at_in(3) [OF w(1) q0] by auto
      then show ?thesis using q0 by (simp add: gx)
    qed
  qed
  have ty: "typed_ok s'" by (rule typed_upd [OF w(3) s1]) (use U(2) gx q(1) in \<open>auto split: if_splits\<close>)
  have ov: "one_value f s'" if "one_value f s" unfolding one_value_def
  proof (intro allI impI)
    fix p' q' l g' assume a: "getCircuitPrimitive s' p' = Some q'" "gate_index_at q' l = Some g'"
    show "gv f s' g' = gval f (circuitDesc s') (nat (minLayer q')) (hd (gateIndex q'))"
    proof (cases "p' = p")
      case True
      then have "q' = bindPos g q" using a(1) gx by simp
      moreover from this have "g' = g" using a(2) by (simp add: gate_index_at_bindPos split: if_splits)
      ultimately show ?thesis by (simp add: gv_def bindPos_def)
    next
      case False
      then have q': "getCircuitPrimitive s p' = Some q'" using a(1) gx by simp
      note I = gate_index_at_in [OF w(1) q' a(2)]
      show ?thesis using that q' a(2) ext_gv [OF w(1) e I(1), of f] ext_gv [OF w(1) e I(4), of f] by (auto simp: one_value_def gv_def)
    qed
  qed
  have "vinv cn f s'" using v consts_ok_ext [OF e] ov bo ty st by (auto simp: vinv_def swf_def pstep_def)
  moreover have "live s' p \<and> first_gate s' p = g" using gx by (simp add: live_def first_gate_def bindPos_def isBound_def)
  ultimately show ?thesis using b e by blast
qed

section \<open>Primitives in the circuit\<close>

lemma addToCircuit_total:
  assumes v: "vinv cn f s" and q: "getCircuitPrimitive s p = Some q" and k: "isVariable p \<longrightarrow> (p, 0) \<in> a_layers A"
  shows "\<exists>s'. addToCircuit p s = Some s' \<and> vinv cn f s' \<and> ext A s s' \<and> live s' p \<and> (\<not> isBound q \<longrightarrow> gp_layer (first_gate s' p) = 0)"
proof (cases "isBound q")
  case True
  then show ?thesis using v q by (auto simp: addToCircuit_def live_def)
next
  case False
  have w: "pwf s" "typed_ok s" using v by (auto simp: vinv_def swf_def)
  have t: "toPrimitive s p = Some p" using w(2) q by (auto simp: typed_ok_def)
  obtain g s1 where a: "addGate OpCONSTANT 0 0 0 s = (g, s1)" by fastforce
  have P: "pstep s s1" "pos_in s1 g" "gp_layer g = 0" using pstep_addGate [OF w(1) a] by simp_all
  have oc: "OpCONSTANT \<noteq> OpDIV_INT" by simp
  note V = vinv_addGate [OF v a P(1) oc]
  have "getCircuitPrimitive s1 p = Some q" using addGate_fields(7) [OF a] q by simp
  from bindVariable_fresh [OF V(1) this False P(2) disjI2 [OF P(3)] k [folded P(3)]]
  obtain s' where s': "bindVariable p g s1 = Some s'" "vinv cn f s'" "ext A s1 s'" "live s' p" "first_gate s' p = g" by blast
  have "addToCircuit p s = Some s'" using q False t a s'(1) by (simp add: addToCircuit_def)
  then show ?thesis using s'(2-5) P(3) ext_trans [OF V(2)] by blast
qed

text \<open>Every gate of a primitive has its value.\<close>

lemma has_val_index:
  assumes v: "vinv cn f s" and q: "getCircuitPrimitive s p = Some q" "gate_index_at q l = Some g"
  shows "has_val cn f s g (pval f s p)"
  using v gate_index_at_in(1) [OF vinv_pwf [OF v] q] q unfolding has_val_def vinv_def one_value_def
  by (auto simp: pval_def first_gate_def gv_def)

text \<open>A constant has the value of its text.\<close>

lemma pval_const:
  assumes v: "vinv cn f s" and c: "const_of s p c" "live s p" and k: "consts_ok cn f s"
  shows "pval f s p = cn c"
proof -
  obtain i where p: "p = CONSTANT i" "map_of (constMap s) c = Some i" using c(1) by (auto simp: const_of_def)
  have "i < length (constants s)" "cc_value (constants s ! i) = c" using p(2) vinv_pwf [OF v] by (auto simp: pwf_def tables_wf_def)
  moreover obtain q where q: "getCircuitPrimitive s p = Some q" "isBound q" using c(2) by (auto simp: live_def)
  moreover have "minLayer q = 0" using pwf_get [OF vinv_pwf [OF v] q(1)] q(2) p(1) by (simp add: const_wf_def isVariable_def)
  ultimately show ?thesis using k p(1) by (auto simp: pval_def gv_def first_gate_def consts_ok_def)
qed

end
