(* ===== verification/Pws_Values_Ops.thy ===== *)
theory Pws_Values_Ops
  imports Pws_Values_Steps
begin

text \<open>
  Promotion, sums and products of gates: the operations that are made of others return and compute what they stand for.
\<close>

section \<open>Promotion of a primitive\<close>

text \<open>The layers of a primitive that is bound.\<close>

lemma bound_index:
  assumes "pwf s" "getCircuitPrimitive s p = Some q" "isBound q"
  shows "0 \<le> minLayer q" "minLayer q \<le> maxLayer q" "\<And>l. minLayer q \<le> int l \<Longrightarrow> int l \<le> maxLayer q \<Longrightarrow> \<exists>g. gate_index_at q l = Some g"
proof -
  have w: "0 \<le> minLayer q" "maxLayer q = minLayer q + int (length (gateIndex q)) - 1" "gateIndex q \<noteq> []"
    using pwf_get [OF assms(1,2)] assms(3) by (auto simp: prim_wf_def isBound_def)
  show "0 \<le> minLayer q" by (rule w(1))
  show "minLayer q \<le> maxLayer q" using w(2,3) by (cases "gateIndex q") auto
  show "\<exists>g. gate_index_at q l = Some g" if "minLayer q \<le> int l" "int l \<le> maxLayer q" for l
    using that w by (auto simp: gate_index_at_def)
qed

lemma promote_done:
  assumes "getCircuitPrimitive s p = Some q" "int layer \<le> maxLayer q" "gate_index_at q layer = Some g"
  shows "promotePrimitive p layer s = Some (g, s)"
  using assms by (subst promotePrimitive.simps) simp

text \<open>A gate more for a primitive, in the layer above its highest.\<close>

lemma push_gate:
  assumes v: "vinv cn f s" and q: "getCircuitPrimitive s p = Some q" "isBound q"
    and g: "has_val cn f s g (pval f s p)" "int (gp_layer g) = maxLayer q + 1" "boundPrimitive (circuitDesc s ! gp_layer g ! gp_name g) = None"
  shows "\<exists>s1 s2. upd_gate g (gate_bind p) s = Some s1 \<and> upd_prim p (push_index g) s1 = Some s2 \<and> vinv cn f s2 \<and> ext A s s2 \<and>
    getCircuitPrimitive s2 p = Some (push_index g q)"
proof -
  have w: "pwf s" "bound_ok s" "typed_ok s" using v by (auto simp: vinv_def swf_def)
  have gp: "pos_in s g" using g(1) by (simp add: has_val_def)
  obtain s1 where s1: "upd_gate g (gate_bind p) s = Some s1" using gp by (auto simp: upd_gate_def gate_at_Some)
  note U = upd_gate_bind [OF s1]
  have P1: "pwf s1" "grows s s1" using pwf_upd_gate [OF w(1) s1] by auto
  have G1: "getCircuitPrimitive s1 p' = getCircuitPrimitive s p'" for p' by (rule getCircuitPrimitive_cong) (simp_all add: U(2))
  obtain s2 where s2: "upd_prim p (push_index g) s1 = Some s2" using upd_prim_Some G1 q(1) by metis
  note F = upd_prim_fields [OF s2]
  have G2: "getCircuitPrimitive s2 p' = (if p' = p then Some (push_index g q) else getCircuitPrimitive s p')" for p'
    using upd_prim_get [OF s2] G1 q(1) by simp
  let ?D = "circuitDesc s"
  have D: "circuitDesc s2 = ?D[gp_layer g := (?D ! gp_layer g)[gp_name g := gate_bind p (?D ! gp_layer g ! gp_name g)]]" using U(2) F by simp
  have pos: "pos_in s2 = pos_in s" unfolding D by simp
  have cell: "circuitDesc s2 ! gp_layer g' ! gp_name g' = (if g' = g then gate_bind p (?D ! gp_layer g ! gp_name g) else ?D ! gp_layer g' ! gp_name g')"
    if "pos_in s g'" for g' using gp that unfolding D valid_pos_def by (auto simp: nth_list_update)
  have dx: "desc_ext ?D (circuitDesc s2)" unfolding D by (rule desc_ext_upd) (simp add: gate_core_def gate_bind_def)
  have qw: "prim_wf (circuitDesc s) q" "const_wf p q" using pwf_get [OF w(1) q(1)] by auto
  have ix: "gate_index_at (push_index g q) l = (if l = gp_layer g then Some g else gate_index_at q l)" for l
    using qw(1) q(2) g(2) by (auto simp: gate_index_at_def push_index_def prim_wf_def nth_append)
  have wp: "prim_wf (circuitDesc s1) (push_index g q) \<and> const_wf p (push_index g q)"
    using prim_wf_push [OF prim_wf_grows [OF qw(1) P1(2)] q(2) valid_pos_grows [OF gp P1(2)] g(2)] qw(2) q(2)
    by (auto simp: const_wf_def push_index_def isBound_def)
  have "pwf s2" by (rule pwf_upd_prim [OF P1(1) s2]) (use wp G1 q(1) in simp)
  moreover have "ptype s2 p' = ptype s p'" for p' using ptype_upd [OF s2] ptype_cong [of s1 s] U(2) by simp
  moreover have "kept s s2" by (rule kept_trans [OF kept_upd_gate [OF s1] kept_upd [OF s2]])
  moreover have "constMap s2 = constMap s" "token s2 = token s" "map cc_value (constants s2) = map cc_value (constants s)" using U(2) F by simp_all
  ultimately have e: "ext A s s2" using dx q by (auto simp: ext_def live_def G2 prim_ext_def push_index_def)
  have bo: "bound_ok s2" unfolding bound_ok_def pos
  proof (intro allI impI)
    fix g' p' assume g': "pos_in s g'" and p': "boundPrimitive (circuitDesc s2 ! gp_layer g' ! gp_name g') = Some p'"
    show "\<exists>q. getCircuitPrimitive s2 p' = Some q \<and> gate_index_at q (gp_layer g') = Some g'"
    proof (cases "g' = g")
      case True
      then show ?thesis using p' cell [OF g'] by (simp add: gate_bind_def G2 ix)
    next
      case False
      then obtain q0 where q0: "getCircuitPrimitive s p' = Some q0" "gate_index_at q0 (gp_layer g') = Some g'"
        using p' cell [OF g'] w(2) g' by (auto simp: bound_ok_def)
      have "gp_layer g' \<noteq> gp_layer g" if "p' = p"
        using that q0 q(1) g(2) qw(1) q(2) by (auto simp: gate_index_at_def prim_wf_def split: if_splits)
      then show ?thesis using q0 q(1) by (auto simp: G2 ix)
    qed
  qed
  have ty: "typed_ok s2"
  proof (rule typed_upd [OF _ s2])
    show "typed_ok s1" unfolding typed_ok_def
      using w(3) G1 toPrimitive_cong [of s1 s] by (simp add: typed_ok_def U(2))
  qed (use G1 G2 q(1) in \<open>auto split: if_splits\<close>)
  have ov: "one_value f s2" if "consts_ok cn f s" "one_value f s" unfolding one_value_def
  proof (intro allI impI)
    fix p' q' l g' assume a: "getCircuitPrimitive s2 p' = Some q'" "gate_index_at q' l = Some g'"
    obtain q0 where q0: "getCircuitPrimitive s p' = Some q0" "minLayer q' = minLayer q0" "hd (gateIndex q') = hd (gateIndex q0)"
        "gate_index_at q0 l = Some g' \<or> p' = p \<and> g' = g"
    proof (cases "p' = p")
      case True
      then have "q' = push_index g q" using a(1) G2 by simp
      moreover from this have "gate_index_at q l = Some g' \<or> g' = g" using a(2) ix by (auto split: if_splits)
      ultimately show ?thesis using that [of q] True q by (simp add: push_index_def isBound_def)
    qed (use that a G2 in auto)
    show "gv f s2 g' = gval f (circuitDesc s2) (nat (minLayer q')) (hd (gateIndex q'))" using q0(4)
    proof
      assume i: "gate_index_at q0 l = Some g'"
      note I = gate_index_at_in [OF w(1) q0(1) i]
      show ?thesis using that(2) q0 i ext_gv [OF w(1) e I(1), of f] ext_gv [OF w(1) e I(4), of f] by (auto simp: one_value_def gv_def)
    next
      assume pg: "p' = p \<and> g' = g"
      have "live s p" using q by (auto simp: live_def)
      note fg = ext_gv [OF w(1) e first_gate_in [OF w(1) this], of f]
      have "gv f s g = pval f s p" using g(1) that(1) by (simp add: has_val_def)
      then show ?thesis using pg q0 q(1) fg ext_gv [OF w(1) e gp, of f] by (simp add: pval_def gv_def first_gate_def)
    qed
  qed
  have "vinv cn f s2" using v consts_ok_ext [OF e] ov bo ty \<open>pwf s2\<close> by (auto simp: vinv_def swf_def)
  then show ?thesis using s1 s2 e G2 by auto
qed

context numeral_reader
begin

lemma cn_zero [simp]: "cn ''0'' = 0" "cn (int_str 0) = 0"
  using cn_int [of 0] by simp_all

text \<open>One round of the loop, given that the constant 0 can be promoted to the layer reached.\<close>

lemma promote_round_total:
  assumes v: "vinv cn f s" and q: "getCircuitPrimitive s p = Some q" "isBound q"
    and Z: "\<And>zero s1. vinv cn f s1 \<Longrightarrow> ext A s s1 \<Longrightarrow> const_of s1 zero ''0'' \<Longrightarrow> live s1 zero \<Longrightarrow> getCircuitPrimitive s1 p = Some q \<Longrightarrow>
      tot A cn f (promotePrimitive zero (nat (maxLayer q)) s1) s1
        (\<lambda>g s'. has_val cn f s' g 0 \<and> gp_layer g = nat (maxLayer q) \<and> getCircuitPrimitive s' p = Some q)"
    and lt: "int layer > maxLayer q"
  shows "\<exists>s' q'. promotePrimitive p layer s = promotePrimitive p layer s' \<and> vinv cn f s' \<and> ext A s s' \<and>
    getCircuitPrimitive s' p = Some q' \<and> isBound q' \<and> minLayer q' = minLayer q \<and> maxLayer q' = maxLayer q + 1"
proof -
  let ?l = "nat (maxLayer q)"
  have w: "pwf s" "tables_wf s" using v by (auto simp: vinv_def swf_def pwf_def)
  note B = bound_index [OF w(1) q]
  have m: "0 \<le> maxLayer q" using B by linarith
  obtain zero s1 where z: "addConstant (int_str 0) s = (zero, s1)" by fastforce
  have Z1: "vinv cn f s1" "ext A s s1" "const_of s1 zero ''0''" using tot_addConstant [where A = A, OF v, of "int_str 0"] z by (auto simp: tot_def)
  have q1: "getCircuitPrimitive s1 p = Some q" using addConstant_get [OF w(2) z] q(1) by auto
  have a1: "addToCircuit p s1 = Some s1" using q1 q(2) by (simp add: addToCircuit_def)
  have l1: "(if ?l = 0 then nat (minLayer q) else ?l) = ?l" using B by auto
  obtain g1 where g1: "gate_index_at q ?l = Some g1" using B m by (metis int_nat_eq order_refl)
  have p1: "promotePrimitive p ?l s1 = Some (g1, s1)" by (rule promote_done [OF q1 _ g1]) (use m in simp)
  obtain qz where qz: "getCircuitPrimitive s1 zero = Some qz" using const_of_get [OF vinv_pwf [OF Z1(1)] Z1(3)] by blast
  obtain s4 where s4: "addToCircuit zero s1 = Some s4" "vinv cn f s4" "ext A s1 s4" "live s4 zero" using addToCircuit_total [where A = A, OF Z1(1) qz] const_of_not_var [OF Z1(3)] by blast
  obtain z' where z': "getCircuitPrimitive s4 zero = Some z'" "isBound z'" using s4(4) by (auto simp: live_def)
  have c4: "const_of s4 zero ''0''" by (rule const_of_ext [OF s4(3) Z1(3)])
  have "minLayer z' = 0" using pwf_get [OF vinv_pwf [OF s4(2)] z'(1)] z'(2) c4 by (metis Primitive.simps(10) const_of_def const_wf_def isVariable_def)
  then have l2: "(if ?l = 0 then nat (minLayer z') else ?l) = ?l" by auto
  have q4: "getCircuitPrimitive s4 p = Some q"
  proof (cases "p = zero")
    case True
    then show ?thesis using s4(1) q1 q(2) by (simp add: addToCircuit_def)
  next
    case False
    have "toPrimitive s1 zero = Some zero" using Z1(1) qz by (auto simp: vinv_def swf_def typed_ok_def)
    then show ?thesis using addToCircuit_get [OF s4(1) _ False] q1 by simp
  qed
  obtain g2 s5 where s5: "promotePrimitive zero ?l s4 = Some (g2, s5)" "vinv cn f s5" "ext A s4 s5" "has_val cn f s5 g2 0" "gp_layer g2 = ?l"
      "getCircuitPrimitive s5 p = Some q"
    using Z [OF s4(2) ext_trans [OF Z1(2) s4(3)] c4 s4(4) q4] by (auto simp: tot_def)
  have e5: "ext A s1 s5" using s4(3) s5(3) by (rule ext_trans)
  have v1: "has_val cn f s5 g1 (pval f s1 p)" using has_val_ext [OF vinv_pwf [OF Z1(1)] e5 has_val_index [OF Z1(1) q1 g1]] .
  have lv: "live s1 p" using q1 q(2) by (auto simp: live_def)
  have pe: "pval f s1 p = pval f s5 p" by (rule pval_ext [OF vinv_pwf [OF Z1(1)] e5 lv, symmetric])
  have gl: "gp_layer g1 = ?l" using gate_index_at_in(2) [OF vinv_pwf [OF Z1(1)] q1 g1] .
  obtain g s6 where g: "addGate OpADD (gp_name g1) (gp_name g2) (?l + 1) s5 = (g, s6)" by fastforce
  from tot_addGate [where A = A, OF s5(2) _ v1 gl s5(4,5), of OpADD] g
  have s6: "vinv cn f s6" "ext A s5 s6" "has_val cn f s6 g (pval f s5 p)" "gp_layer g = ?l + 1" by (auto simp: tot_def pe)
  have q6: "getCircuitPrimitive s6 p = Some q" using addGate_fields(7) [OF g] s5(6) by simp
  have "live s5 p" using s5(6) q(2) by (auto simp: live_def)
  then have pe6: "pval f s5 p = pval f s6 p" by (rule pval_ext [OF vinv_pwf [OF s5(2)] s6(2), symmetric])
  have t6: "toPrimitive s6 p = Some p" using s6(1) q6 by (auto simp: vinv_def swf_def typed_ok_def)
  obtain s7 s8 where s8: "upd_gate g (gate_bind p) s6 = Some s7" "upd_prim p (push_index g) s7 = Some s8" "vinv cn f s8" "ext A s6 s8"
      "getCircuitPrimitive s8 p = Some (push_index g q)"
    using push_gate [where A = A, OF s6(1) q6 q(2) s6(3) [unfolded pe6]] s6(4) m addGate_desc_ext(2) [OF g] by auto
  have "promotePrimitive p layer s = promotePrimitive p layer s8"
    by (subst promotePrimitive.simps)
      (use q(1) lt m z a1 q1 p1 l1 s4(1) z'(1) s5(1) l2 g t6 s8(1,2) in \<open>simp add: Let_def del: One_nat_def\<close>)
  moreover have "ext A s s8" using Z1(2) e5 s6(2) s8(4) ext_trans by blast
  ultimately show ?thesis using s8(3,5) by (auto simp: push_index_def isBound_def)
qed

lemma promote_loop_total:
  assumes Z: "\<And>s q zero. vinv cn f s \<Longrightarrow> ext A s0 s \<Longrightarrow> getCircuitPrimitive s p = Some q \<Longrightarrow> isBound q \<Longrightarrow> const_of s zero ''0'' \<Longrightarrow> live s zero \<Longrightarrow>
      tot A cn f (promotePrimitive zero (nat (maxLayer q)) s) s
        (\<lambda>g s'. has_val cn f s' g 0 \<and> gp_layer g = nat (maxLayer q) \<and> getCircuitPrimitive s' p = Some q)"
    and "vinv cn f s" "getCircuitPrimitive s p = Some q" "isBound q" "minLayer q \<le> int layer" "ext A s0 s"
  shows "tot A cn f (promotePrimitive p layer s) s (\<lambda>g s'. has_val cn f s' g (pval f s p) \<and> gp_layer g = layer)"
  using assms(2-6)
proof (induction "nat (int layer - maxLayer q)" arbitrary: s q)
  case 0
  then have le: "int layer \<le> maxLayer q" by simp
  obtain g where g: "gate_index_at q layer = Some g" using bound_index(3) [OF vinv_pwf [OF 0(2)] 0(3,4,5) le] by blast
  then show ?case using promote_done [OF 0(3) le g] has_val_index [OF 0(2,3) g] gate_index_at_in(2) [OF vinv_pwf [OF 0(2)] 0(3) g] 0(2)
    by (simp add: tot_def)
next
  case (Suc n)
  have lt: "int layer > maxLayer q" using Suc(2) by simp
  obtain s' q' where s': "promotePrimitive p layer s = promotePrimitive p layer s'" "vinv cn f s'" "ext A s s'"
      "getCircuitPrimitive s' p = Some q'" "isBound q'" "minLayer q' = minLayer q" "maxLayer q' = maxLayer q + 1"
    using promote_round_total [where A = A, OF Suc(3,4,5) _ lt] Z Suc(5) ext_trans [OF Suc(7)] by blast
  have "n = nat (int layer - maxLayer q')" using Suc(2) s'(7) by simp
  from Suc(1) [OF this s'(2,4,5)] have T: "tot A cn f (promotePrimitive p layer s') s' (\<lambda>g s''. has_val cn f s'' g (pval f s' p) \<and> gp_layer g = layer)"
    using s'(6) Suc(6) ext_trans [OF Suc(7) s'(3)] by simp
  have "live s p" using Suc(4,5) by (auto simp: live_def)
  then have "pval f s' p = pval f s p" by (rule pval_ext [OF vinv_pwf [OF Suc(3)] s'(3)])
  then show ?case using T s'(1,3) ext_trans by (fastforce simp: tot_def)
qed

lemma const_of_unique: "const_of s p c \<Longrightarrow> const_of s p' c \<Longrightarrow> p = p'"
  by (metis const_of_def option.inject)

text \<open>The highest gate of a constant 0.\<close>

lemma zero_there:
  assumes v: "vinv cn f s" and c: "const_of s zero ''0''" and q: "getCircuitPrimitive s zero = Some q" "isBound q"
  shows "tot A cn f (promotePrimitive zero (nat (maxLayer q)) s) s
    (\<lambda>g s'. has_val cn f s' g 0 \<and> gp_layer g = nat (maxLayer q) \<and> getCircuitPrimitive s' zero = Some q)"
proof -
  note B = bound_index [OF vinv_pwf [OF v] q]
  obtain g where g: "gate_index_at q (nat (maxLayer q)) = Some g" using B(1,2) B(3) [of "nat (maxLayer q)"] by auto
  have "promotePrimitive zero (nat (maxLayer q)) s = Some (g, s)" by (rule promote_done [OF q(1) _ g]) (use B in simp)
  moreover have "has_val cn f s g 0"
    using has_val_index [OF v q(1) g] pval_const [OF v c] q by (auto simp: has_val_def live_def)
  ultimately show ?thesis using v q(1) gate_index_at_in(2) [OF vinv_pwf [OF v] q(1) g] by (simp add: tot_def)
qed

lemma promote_zero_total:
  assumes v: "vinv cn f s" and c: "const_of s zero ''0''" "live s zero"
  shows "tot A cn f (promotePrimitive zero layer s) s (\<lambda>g s'. has_val cn f s' g 0 \<and> gp_layer g = layer)"
proof -
  obtain q where q: "getCircuitPrimitive s zero = Some q" "isBound q" using c(2) by (auto simp: live_def)
  have "\<not> isVariable zero" by (rule const_of_not_var [OF c(1)])
  then have m: "minLayer q \<le> int layer" using pwf_get [OF vinv_pwf [OF v] q(1)] q(2) by (auto simp: const_wf_def)
  have "tot A cn f (promotePrimitive zero layer s) s (\<lambda>g s'. has_val cn f s' g (pval f s zero) \<and> gp_layer g = layer)"
  proof (rule promote_loop_total [where A = A, OF _ v q m ext_refl])
    fix s1 q1 zero1
    assume a: "vinv cn f s1" "ext A s s1" "getCircuitPrimitive s1 zero = Some q1" "isBound q1" "const_of s1 zero1 ''0''"
    have "zero1 = zero" using const_of_unique a(5) const_of_ext [OF a(2) c(1)] by blast
    then show "tot A cn f (promotePrimitive zero1 (nat (maxLayer q1)) s1) s1
        (\<lambda>g s'. has_val cn f s' g 0 \<and> gp_layer g = nat (maxLayer q1) \<and> getCircuitPrimitive s' zero = Some q1)"
      using zero_there [where A = A, OF a(1) _ a(3,4)] a(5) by simp
  qed
  then show ?thesis using pval_const [OF v c] consts_ok_ext by (fastforce simp: tot_def has_val_def)
qed

lemma promote_total:
  assumes v: "vinv cn f s" and q: "getCircuitPrimitive s p = Some q" "isBound q" "minLayer q \<le> int layer"
  shows "tot A cn f (promotePrimitive p layer s) s (\<lambda>g s'. has_val cn f s' g (pval f s p) \<and> gp_layer g = layer)"
proof (rule promote_loop_total [where A = A, OF _ v q ext_refl])
  fix s1 q1 zero
  assume a: "vinv cn f s1" "ext A s s1" "getCircuitPrimitive s1 p = Some q1" "isBound q1" "const_of s1 zero ''0''" "live s1 zero"
  show "tot A cn f (promotePrimitive zero (nat (maxLayer q1)) s1) s1
      (\<lambda>g s'. has_val cn f s' g 0 \<and> gp_layer g = nat (maxLayer q1) \<and> getCircuitPrimitive s' p = Some q1)"
  proof (cases "p = zero")
    case True
    then show ?thesis using zero_there [where A = A, OF a(1) a(5)] a(3,4) by simp
  next
    case False
    obtain g s' where s': "promotePrimitive zero (nat (maxLayer q1)) s1 = Some (g, s')" "vinv cn f s'" "ext A s1 s'" "has_val cn f s' g 0"
        "gp_layer g = nat (maxLayer q1)"
      using promote_zero_total [where A = A, OF a(1) a(5,6), of "nat (maxLayer q1)"] by (auto simp: tot_def)
    have "const_of s' zero ''0''" by (rule const_of_ext [OF s'(3) a(5)])
    then have "getCircuitPrimitive s' p = getCircuitPrimitive s1 p"
      using promotePrimitive_inv [OF s'(1)] vinv_pwf [OF a(1)] False unfolding promote_post_def const_of_def by (metis option.inject)
    then show ?thesis using s' a(3) by (simp add: tot_def)
  qed
qed

section \<open>Gates of primitives and constants\<close>

lemma getGate_total:
  assumes v: "vinv cn f s" and q: "getCircuitPrimitive s p = Some q" and l: "layer = 0 \<or> minLayer q \<le> int layer"
    and k: "isVariable p \<longrightarrow> (p, 0) \<in> a_layers A"
  shows "tot A cn f (getGate p layer s) s (\<lambda>g s'. has_val cn f s' g (pval f s' p) \<and> live s' p \<and> (layer \<noteq> 0 \<longrightarrow> gp_layer g = layer))"
proof -
  obtain s1 where s1: "addToCircuit p s = Some s1" "vinv cn f s1" "ext A s s1" "live s1 p" "\<not> isBound q \<longrightarrow> gp_layer (first_gate s1 p) = 0"
    using addToCircuit_total [where A = A, OF v q k] by blast
  obtain q1 where q1: "getCircuitPrimitive s1 p = Some q1" "isBound q1" using s1(4) by (auto simp: live_def)
  let ?l = "if layer = 0 then nat (minLayer q1) else layer"
  have m: "minLayer q1 \<le> int ?l"
  proof (cases "isBound q")
    case True
    then have "s1 = s" using s1(1) q by (simp add: addToCircuit_def)
    then show ?thesis using q q1 l bound_index(1) [OF vinv_pwf [OF s1(2)] q1] by auto
  next
    case False
    then have "minLayer q1 = 0" using s1(5) q1 bound_index(1) [OF vinv_pwf [OF s1(2)] q1] by (simp add: first_gate_def)
    then show ?thesis by simp
  qed
  obtain g s' where s': "promotePrimitive p ?l s1 = Some (g, s')" "vinv cn f s'" "ext A s1 s'" "has_val cn f s' g (pval f s1 p)" "gp_layer g = ?l"
    using promote_total [where A = A, OF s1(2) q1 m] by (auto simp: tot_def)
  have "getGate p layer s = Some (g, s')" using s1(1) q1(1) s'(1) by (simp add: getGate_def)
  moreover have "pval f s1 p = pval f s' p" by (rule pval_ext [OF vinv_pwf [OF s1(2)] s'(3) s1(4), symmetric])
  ultimately show ?thesis using s' s1(3,4) ext_trans live_ext(1) [OF s'(3)] by (simp add: tot_def)
qed

text \<open>A gate of a constant, in any layer.\<close>

lemma const_gate_total:
  assumes v: "vinv cn f s" and c: "const_of s p c"
  shows "tot A cn f (getGate p layer s) s (\<lambda>g s'. has_val cn f s' g (cn c) \<and> gp_layer g = layer)"
proof -
  obtain q where q: "getCircuitPrimitive s p = Some q" using const_of_get [OF vinv_pwf [OF v] c] by blast
  have k: "\<not> isVariable p" by (rule const_of_not_var [OF c])
  then have "isBound q \<longrightarrow> minLayer q = 0" using pwf_get [OF vinv_pwf [OF v] q] by (simp add: const_wf_def)
  moreover have "\<not> isBound q \<longrightarrow> minLayer q = - 1" using pwf_get [OF vinv_pwf [OF v] q] by (simp add: prim_wf_def)
  ultimately have "layer = 0 \<or> minLayer q \<le> int layer" by auto
  from getGate_total [where A = A, OF v q this] k obtain g s' where s': "getGate p layer s = Some (g, s')" "vinv cn f s'" "ext A s s'"
      "has_val cn f s' g (pval f s' p)" "live s' p" by (auto simp: tot_def)
  have "gp_layer g = layer" using pkeep_getGate [OF vinv_pwf [OF v], of p layer] s'(1) k unfolding pkeep_def is_const_def by blast
  moreover have "has_val cn f s' g (cn c)" using s'(4) pval_const [OF s'(2) const_of_ext [OF s'(3) c] s'(5)] by (auto simp: has_val_def)
  ultimately show ?thesis using s' by (simp add: tot_def)
qed

section \<open>Promotion of a gate\<close>

lemma promoteGate_loop_total:
  assumes "vinv cn f s" "has_val cn f s g v" "gp_layer g \<le> layer"
  shows "tot A cn f (promoteGate_loop g layer s) s (\<lambda>g' s'. has_val cn f s' g' v \<and> gp_layer g' = layer)"
  using assms
proof (induction "layer - gp_layer g" arbitrary: g s)
  case 0
  then show ?case by (subst promoteGate_loop.simps) (simp add: tot_def)
next
  case (Suc n)
  have lt: "gp_layer g < layer" using Suc(2) by simp
  obtain zero s1 where s1: "addConstant (int_str 0) s = (zero, s1)" "vinv cn f s1" "ext A s s1" "const_of s1 zero (int_str 0)"
    using tot_addConstant [where A = A, OF Suc(3), of "int_str 0"] unfolding tot_def by auto
  obtain zg s2 where s2: "getGate zero (gp_layer g) s1 = Some (zg, s2)" "vinv cn f s2" "ext A s1 s2" "has_val cn f s2 zg 0" "gp_layer zg = gp_layer g"
    using const_gate_total [where A = A, OF s1(2,4), of "gp_layer g"] unfolding tot_def by auto
  have g: "has_val cn f s2 g v" using has_val_ext [OF vinv_pwf [OF Suc(3)] ext_trans [OF s1(3) s2(3)] Suc(4)] .
  obtain g' s3 where s3: "addGate OpADD (gp_name g) (gp_name zg) (gp_layer g + 1) s2 = (g', s3)" "vinv cn f s3" "ext A s2 s3" "has_val cn f s3 g' v"
      "gp_layer g' = gp_layer g + 1"
    using tot_addGate [where A = A, OF s2(2) _ g refl s2(4,5), of OpADD] unfolding tot_def by auto
  have "tot A cn f (promoteGate_loop g' layer s3) s3 (\<lambda>g' s'. has_val cn f s' g' v \<and> gp_layer g' = layer)"
    by (rule Suc(1)) (use s3 Suc(2) lt in auto)
  moreover have "promoteGate_loop g layer s = promoteGate_loop g' layer s3"
    by (subst promoteGate_loop.simps) (use lt s1(1) s2(1) s3(1) in simp)
  ultimately show ?case using ext_trans [OF ext_trans [OF s1(3) s2(3)] s3(3)] ext_trans unfolding tot_def by metis
qed

lemma promoteGate_total:
  assumes v: "vinv cn f s" and g: "has_val cn f s g x" "gp_layer g \<le> layer"
  shows "tot A cn f (promoteGate g layer s) s (\<lambda>g' s'. has_val cn f s' g' x \<and> gp_layer g' = layer)"
proof (cases "boundPrimitive (circuitDesc s ! gp_layer g ! gp_name g)")
  case None
  then show ?thesis using promoteGate_loop_total [where A = A, OF v g] g(1) by (simp add: promoteGate_def gate_at_Some has_val_def)
next
  case (Some p)
  have pos: "pos_in s g" using g(1) by (simp add: has_val_def)
  then obtain q where q: "getCircuitPrimitive s p = Some q" "gate_index_at q (gp_layer g) = Some g"
    using v Some by (auto simp: vinv_def swf_def bound_ok_def)
  have b: "isBound q" "minLayer q \<le> int layer"
    using gate_index_at_in(3) [OF vinv_pwf [OF v] q] q(2) g(2) by (auto simp: gate_index_at_def split: if_splits)
  obtain g' s' where s': "promotePrimitive p layer s = Some (g', s')" "vinv cn f s'" "ext A s s'" "has_val cn f s' g' (pval f s p)" "gp_layer g' = layer"
    using promote_total [where A = A, OF v q(1) b] by (auto simp: tot_def)
  have "pval f s p = x" if "consts_ok cn f s" using has_val_index [OF v q] g(1) that by (simp add: has_val_def)
  then have "has_val cn f s' g' x" using s'(4) consts_ok_ext [OF s'(3)] by (auto simp: has_val_def)
  then show ?thesis using s' Some pos by (simp add: promoteGate_def gate_at_Some tot_def)
qed

end

end
