(* ===== verification/Pws_Values_Reduce.thy ===== *)
theory Pws_Values_Reduce
  imports Pws_Values_Ops
begin

text \<open>Gates made of gates: sums and products of any number of gates, differences and negations, in any layers.\<close>

definition total' :: "OpType \<Rightarrow> 'a::comm_ring_1 list \<Rightarrow> 'a" where
  "total' op vs = (if op = OpADD then sum_list vs else prod_list vs)"

fun pair_vals :: "OpType \<Rightarrow> 'a::comm_ring_1 list \<Rightarrow> 'a list" where
  "pair_vals op (x # y # vs) = opval op x y # pair_vals op vs"
| "pair_vals op vs = []"

lemma total_Cons: "op = OpADD \<or> op = OpMUL \<Longrightarrow> total' op (x # vs) = opval op x (total' op vs)"
  by (auto simp: total'_def)

lemma total_pairs:
  assumes "op = OpADD \<or> op = OpMUL" "even (length vs)"
  shows "total' op (pair_vals op vs) = total' op vs"
  using assms by (induction op vs rule: pair_vals.induct) (auto simp: total'_def ac_simps)

lemma length_pair_vals: "even (length vs) \<Longrightarrow> length (pair_vals op vs) = length vs div 2"
  by (induction op vs rule: pair_vals.induct) auto

definition vals_at ::
  "(string \<Rightarrow> 'a) \<Rightarrow> (nat \<Rightarrow> 'a::comm_ring_1) \<Rightarrow> PWSCircuitParser \<Rightarrow> nat \<Rightarrow> GatePosition list \<Rightarrow> 'a list \<Rightarrow> bool" where
  "vals_at cn f s l gs vs \<longleftrightarrow> list_all2 (\<lambda>g v. has_val cn f s g v \<and> gp_layer g = l) gs vs"

context numeral_reader
begin

lemma vals_at_ext: "vinv cn f s \<Longrightarrow> ext A s s' \<Longrightarrow> vals_at cn f s l gs vs \<Longrightarrow> vals_at cn f s' l gs vs"
  unfolding vals_at_def by (erule list_all2_mono) (use has_val_ext vinv_pwf in blast)

lemma has_val_step: "ext A s s' \<Longrightarrow> has_val cn f s g v \<Longrightarrow> vinv cn f s \<Longrightarrow> has_val cn f s' g v"
  using has_val_ext vinv_pwf by blast

section \<open>Two gates\<close>

lemma makeGate_total:
  assumes v: "vinv cn f s" and op: "op = OpADD \<or> op = OpMUL" and a: "has_val cn f s a x" and b: "has_val cn f s b y"
  shows "tot A cn f (makeGate op a b s) s (\<lambda>g s'. has_val cn f s' g (opval op x y))"
proof (cases "gp_layer a = gp_layer b")
  case True
  then show ?thesis using tot_addGate [where A = A, OF v op a refl b] by (auto simp: makeGate_def tot_def)
next
  case False
  define l where "l = max (gp_layer a) (gp_layer b)"
  obtain g1 s1 where s1: "promoteGate a l s = Some (g1, s1)" "vinv cn f s1" "ext A s s1" "has_val cn f s1 g1 x" "gp_layer g1 = l"
    using promoteGate_total [where A = A, OF v a, of l] by (auto simp: tot_def l_def)
  obtain g2 s2 where s2: "promoteGate b l s1 = Some (g2, s2)" "vinv cn f s2" "ext A s1 s2" "has_val cn f s2 g2 y" "gp_layer g2 = l"
    using promoteGate_total [where A = A, OF s1(2) has_val_step [OF s1(3) b v], of l] by (auto simp: tot_def l_def)
  obtain g s' where s': "addGate op (gp_name g1) (gp_name g2) (l + 1) s2 = (g, s')" "vinv cn f s'" "ext A s2 s'" "has_val cn f s' g (opval op x y)"
    using tot_addGate [where A = A, OF s2(2) op has_val_step [OF s2(3) s1(4,2)] s1(5) s2(4,5)] unfolding tot_def by auto
  have "makeGate op a b s = Some (g, s')" using False s1(1) s2(1) s'(1) by (simp add: makeGate_def l_def Let_def)
  then show ?thesis using s' ext_trans [OF ext_trans [OF s1(3) s2(3)] s'(3)] by (simp add: tot_def)
qed

lemma negateGate_total:
  assumes v: "vinv cn f s" and g: "has_val cn f s g x"
  shows "tot A cn f (negateGate g s) s (\<lambda>g' s'. has_val cn f s' g' (- x) \<and> gp_layer g' = gp_layer g + 1)"
proof -
  obtain m s1 where s1: "addConstant (int_str (- 1)) s = (m, s1)" "vinv cn f s1" "ext A s s1" "const_of s1 m (int_str (- 1))"
    using tot_addConstant [where A = A, OF v, of "int_str (- 1)"] unfolding tot_def by auto
  obtain mg s2 where s2: "getGate m (gp_layer g) s1 = Some (mg, s2)" "vinv cn f s2" "ext A s1 s2" "has_val cn f s2 mg (- 1)" "gp_layer mg = gp_layer g"
    using const_gate_total [where A = A, OF s1(2,4), of "gp_layer g"] unfolding tot_def cn_int by auto
  obtain g' s' where s': "addGate OpMUL (gp_name g) (gp_name mg) (gp_layer g + 1) s2 = (g', s')" "vinv cn f s'" "ext A s2 s'" "has_val cn f s' g' (- x)"
      "gp_layer g' = gp_layer g + 1"
    using tot_addGate [where A = A, OF s2(2) _ has_val_step [OF ext_trans [OF s1(3) s2(3)] g v] refl s2(4,5), of OpMUL] unfolding tot_def by auto
  have "negateGate g s = Some (g', s')" using s1(1) s2(1) s'(1) by (simp add: negateGate_def)
  then show ?thesis using s' ext_trans [OF ext_trans [OF s1(3) s2(3)] s'(3)] by (simp add: tot_def)
qed

lemma makeSubGate_total:
  assumes v: "vinv cn f s" and a: "has_val cn f s a x" and b: "has_val cn f s b y"
  shows "tot A cn f (makeSubGate a b s) s (\<lambda>g s'. has_val cn f s' g (x - y))"
  unfolding makeSubGate_def
  by (rule tot_bind [OF negateGate_total [where A = A, OF v b]], rule tot_weaken [OF makeGate_total])
    (use a v has_val_step in auto)

section \<open>Any number of gates\<close>

lemma pair_gates_total:
  assumes "vinv cn f s" "op = OpADD \<or> op = OpMUL" "vals_at cn f s l gs vs" "even (length gs)"
  shows "tot A cn f (Some (pair_gates op (l + 1) gs s)) s (\<lambda>out s'. vals_at cn f s' (l + 1) out (pair_vals op vs))"
  using assms
proof (induction op "l + 1" gs s arbitrary: vs rule: pair_gates.induct)
  case (1 op g1 g2 gs s)
  obtain x y ws where vs: "vs = x # y # ws" "has_val cn f s g1 x" "gp_layer g1 = l" "has_val cn f s g2 y" "gp_layer g2 = l" "vals_at cn f s l gs ws"
    using 1(4) by (auto simp: vals_at_def list_all2_Cons1)
  obtain g s1 where s1: "addGate op (gp_name g1) (gp_name g2) (l + 1) s = (g, s1)" "vinv cn f s1" "ext A s s1" "has_val cn f s1 g (opval op x y)" "gp_layer g = l + 1"
    using tot_addGate [where A = A, OF 1(2,3) vs(2-5)] unfolding tot_def by auto
  obtain out s2 where s2: "pair_gates op (l + 1) gs s1 = (out, s2)" "vinv cn f s2" "ext A s1 s2" "vals_at cn f s2 (l + 1) out (pair_vals op ws)"
    using 1(1) [OF s1(1) [symmetric] refl s1(2) 1(3) vals_at_ext [OF 1(2) s1(3) vs(6)]] 1(5) unfolding tot_def by auto
  have "pair_gates op (l + 1) (g1 # g2 # gs) s = (g # out, s2)" using s1(1) s2(1) by simp
  then show ?case using s2 has_val_step [OF s2(3) s1(4,2)] s1(5) ext_trans [OF s1(3) s2(3)] vs(1) by (simp add: tot_def vals_at_def)
qed (auto simp: tot_def vals_at_def list_all2_Cons1)

lemma promote_all_total:
  assumes "vinv cn f s" "list_all2 (has_val cn f s) gs vs" "\<forall>g \<in> set gs. gp_layer g \<le> l"
  shows "tot A cn f (promote_all gs l s) s (\<lambda>gs' s'. vals_at cn f s' l gs' vs)"
  using assms
proof (induction gs arbitrary: s vs)
  case (Cons g gs)
  obtain x ws where vs: "vs = x # ws" "has_val cn f s g x" "list_all2 (has_val cn f s) gs ws" using Cons.prems(2) by (auto simp: list_all2_Cons1)
  obtain g' s1 where s1: "promoteGate g l s = Some (g', s1)" "vinv cn f s1" "ext A s s1" "has_val cn f s1 g' x" "gp_layer g' = l"
    using promoteGate_total [where A = A, OF Cons.prems(1) vs(2), of l] Cons.prems(3) by (auto simp: tot_def)
  have "list_all2 (has_val cn f s1) gs ws" by (rule list_all2_mono [OF vs(3)]) (rule has_val_step [OF s1(3) _ Cons.prems(1)])
  then obtain gs' s2 where s2: "promote_all gs l s1 = Some (gs', s2)" "vinv cn f s2" "ext A s1 s2" "vals_at cn f s2 l gs' ws"
    using Cons.IH [OF s1(2), of ws] Cons.prems(3) by (auto simp: tot_def)
  then show ?case using s1 vs(1) has_val_step [OF s2(3) s1(4,2)] ext_trans [OF s1(3) s2(3)] by (simp add: tot_def vals_at_def)
qed (simp add: tot_def vals_at_def)

lemma reduce_layer_total:
  assumes "vinv cn f s" "op = OpADD \<or> op = OpMUL" "vals_at cn f s l gs vs" "gs \<noteq> []"
  shows "tot A cn f (reduce_layer op l gs s) s (\<lambda>out s'. \<exists>ws. vals_at cn f s' (l + 1) out ws \<and> total' op ws = total' op vs \<and> length out = (length gs + 1) div 2)"
proof (cases "odd (length gs)")
  case False
  have len: "length vs = length gs" using assms(3) by (auto simp: vals_at_def dest: list_all2_lengthD)
  have op: "op = OpADD \<or> op = OpMUL" using assms(2) by auto
  obtain out s' where s': "pair_gates op (l + 1) gs s = (out, s')" "vinv cn f s'" "ext A s s'" "vals_at cn f s' (l + 1) out (pair_vals op vs)"
    using pair_gates_total [where A = A, OF assms(1) op assms(3)] False unfolding tot_def by auto
  have "length out = length gs div 2" using s'(4) False len length_pair_vals [of vs op] by (auto simp: vals_at_def dest: list_all2_lengthD)
  then show ?thesis using s' False len total_pairs [OF assms(2), of vs] by (auto simp: reduce_layer_def tot_def)
next
  case True
  have op: "op = OpADD \<or> op = OpMUL" using assms(2) by auto
  obtain g gs' x ws where gs: "gs = g # gs'" "vs = x # ws" "has_val cn f s g x" "gp_layer g = l" "vals_at cn f s l gs' ws"
    using assms(3,4) by (cases gs) (auto simp: vals_at_def list_all2_Cons1)
  obtain g' s1 where s1: "promoteGate g (l + 1) s = Some (g', s1)" "vinv cn f s1" "ext A s s1" "has_val cn f s1 g' x" "gp_layer g' = l + 1"
    using promoteGate_total [where A = A, OF assms(1) gs(3), of "l + 1"] gs(4) by (auto simp: tot_def)
  have len: "length ws = length gs'" using gs(5) by (auto simp: vals_at_def dest: list_all2_lengthD)
  have ev: "even (length gs')" using True gs(1) by simp
  obtain out s' where s': "pair_gates op (l + 1) gs' s1 = (out, s')" "vinv cn f s'" "ext A s1 s'" "vals_at cn f s' (l + 1) out (pair_vals op ws)"
    using pair_gates_total [where A = A, OF s1(2) op vals_at_ext [OF assms(1) s1(3) gs(5)] ev] unfolding tot_def by auto
  have r: "reduce_layer op l gs s = Some (g' # out, s')" using True gs(1) s1(1) s'(1) by (simp add: reduce_layer_def Let_def)
  have "length out = length gs' div 2" using s'(4) ev len length_pair_vals [of ws op] by (auto simp: vals_at_def dest: list_all2_lengthD)
  moreover have "vals_at cn f s' (l + 1) (g' # out) (x # pair_vals op ws)" using s'(4) has_val_step [OF s'(3) s1(4,2)] s1(5) by (simp add: vals_at_def)
  moreover have "total' op (x # pair_vals op ws) = total' op vs" using total_pairs [OF assms(2), of ws] ev len gs(2) by (simp add: total_Cons [OF assms(2)])
  ultimately show ?thesis using r s'(2) ext_trans [OF s1(3) s'(3)] True gs(1) by (auto simp: tot_def)
qed

lemma reduce_loop_total:
  assumes "vinv cn f s" "op = OpADD \<or> op = OpMUL" "vals_at cn f s l gs vs" "gs \<noteq> []"
  shows "tot A cn f (reduce_loop op l gs s) s (\<lambda>out s'. \<exists>g. out = [g] \<and> has_val cn f s' g (total' op vs))"
  using assms
proof (induction "length gs" arbitrary: l gs s vs rule: less_induct)
  case less
  show ?case
  proof (cases "length gs > 1")
    case True
    obtain out s1 ws where s1: "reduce_layer op l gs s = Some (out, s1)" "vinv cn f s1" "ext A s s1" "vals_at cn f s1 (l + 1) out ws"
        "total' op ws = total' op vs" "length out = (length gs + 1) div 2"
      using reduce_layer_total [where A = A, OF less.prems] by (auto simp: tot_def)
    have "length out < length gs" "out \<noteq> []" using s1(6) True by auto
    from less.hyps [OF this(1) s1(2) less.prems(2) s1(4) this(2)] show ?thesis
      using s1(1,3,5) True ext_trans by (subst reduce_loop.simps) (fastforce simp: tot_def)
  next
    case False
    then obtain g where g: "gs = [g]" using less.prems(4) by (cases gs) auto
    then obtain x where "vs = [x]" "has_val cn f s g x" using less.prems(3) by (auto simp: vals_at_def list_all2_Cons1)
    then show ?thesis using g less.prems(1,2) by (subst reduce_loop.simps) (auto simp: tot_def total'_def)
  qed
qed

lemma reduce_total:
  assumes v: "vinv cn f s" and op: "op = OpADD \<or> op = OpMUL" and gs: "list_all2 (has_val cn f s) gs vs" "gs \<noteq> []"
  shows "tot A cn f (reduce op gs s) s (\<lambda>g s'. has_val cn f s' g (total' op vs))"
proof (cases "length gs = 1")
  case True
  then obtain g x where "gs = [g]" "vs = [x]" "has_val cn f s g x" using gs by (cases gs) (auto simp: list_all2_Cons1)
  then show ?thesis using v op by (auto simp: reduce_def tot_def total'_def)
next
  case False
  let ?l = "fold (\<lambda>g m. max m (gp_layer g)) gs 0"
  obtain ins s1 where s1: "promote_all gs ?l s = Some (ins, s1)" "vinv cn f s1" "ext A s s1" "vals_at cn f s1 ?l ins vs"
    using promote_all_total [where A = A, OF v gs(1), of ?l] fold_max_ge(1) [of _ gs gp_layer] by (auto simp: tot_def)
  have "ins \<noteq> []" using s1(4) gs by (auto simp: vals_at_def)
  then obtain g s2 where "reduce_loop op ?l ins s1 = Some ([g], s2)" "vinv cn f s2" "ext A s1 s2" "has_val cn f s2 g (total' op vs)"
    using reduce_loop_total [where A = A, OF s1(2) op s1(4)] by (auto simp: tot_def)
  then show ?thesis using s1(1,3) gs(2) False ext_trans by (auto simp: reduce_def Let_def tot_def)
qed

end

end
