(* ===== verification/Pws_Parser.thy ===== *)
theory Pws_Parser
  imports Pws_Constraints Pws_Tokens
begin

text \<open>
  The parser of the compiler's files (\<^verbatim>\<open>circuit/pws_circuit_parser.cpp\<close>, lines 30 to 45, 95 to 139 and 650 to 1280). A parsing
  function acts on the parser and on its token reader; its outcome is a value with the new states, a crash (the
  \<open>None\<close> of the builder), or that the fuel ran out. Fuel bounds the calls of the loops of \<^verbatim>\<open>parse\<close>, \<^verbatim>\<open>parsePoly\<close> and \<^verbatim>\<open>parsePolyTerm\<close>, which are
  the ones that read until they find a token. \<^verbatim>\<open>mpq_set_str\<close> and \<^verbatim>\<open>mpz_set_str\<close> of GMP are arguments: whether a text is a
  rational, and the integer a text stands for. The reports of \<^verbatim>\<open>parseError\<close> go to the terminal and are left out.
\<close>

section \<open>Outcomes\<close>

datatype 'a presult = Ret 'a PWSCircuitParser Tokenizer | Crash | OutOfFuel

type_synonym 'a pm = "PWSCircuitParser \<Rightarrow> Tokenizer \<Rightarrow> 'a presult"

definition pret :: "'a \<Rightarrow> 'a pm" where
  "pret x s t = Ret x s t"

definition pbind :: "'a pm \<Rightarrow> ('a \<Rightarrow> 'b pm) \<Rightarrow> 'b pm" where
  "pbind m k s t = (case m s t of Ret x s t \<Rightarrow> k x s t | Crash \<Rightarrow> Crash | OutOfFuel \<Rightarrow> OutOfFuel)"

definition pbuild :: "(PWSCircuitParser \<Rightarrow> ('a \<times> PWSCircuitParser) option) \<Rightarrow> 'a pm" where
  "pbuild f s t = (case f s of None \<Rightarrow> Crash | Some (x, s) \<Rightarrow> Ret x s t)"

definition prewind :: "unit pm" where
  "prewind s t = Ret () s (rewind t)"

definition pmodify :: "(PWSCircuitParser \<Rightarrow> PWSCircuitParser) \<Rightarrow> unit pm" where
  "pmodify f s t = Ret () (f s) t"

text \<open>\<^verbatim>\<open>pws >> token\<close>, with the member variable \<^verbatim>\<open>token\<close>.\<close>

definition next_token :: "string pm" where
  "next_token s t = (case next_string (token s) t of (w, t) \<Rightarrow> Ret w (s\<lparr>token := w\<rparr>) t)"

text \<open>The function \<^verbatim>\<open>assert\<close> of the file has a token of its own.\<close>

definition assert_token :: "string \<Rightarrow> bool pm" where
  "assert_token want s t = (case next_string [] t of (w, t) \<Rightarrow> Ret (w = want) s t)"

section \<open>Primitives\<close>

text \<open>For a negative number the report of the error reads memory before a string.\<close>

definition parseVar :: "string \<Rightarrow> Primitive option pm" where
  "parseVar tok =
     (let varType' = (if tok = [] then None
        else if hd tok = CHR ''I'' then Some INPUT else if hd tok = CHR ''O'' then Some OUTPUT
        else if hd tok = CHR ''V'' then Some TEMP else if hd tok = CHR ''M'' then Some MAGIC else None)
      in case varType' of None \<Rightarrow> pret None
         | Some ty \<Rightarrow>
             if length tok \<le> 1 then pret None
             else let name = atoi (tl tok)
                  in if name < 0 then (\<lambda>s t. Crash)
                     else pbuild (\<lambda>s. Some (case addVariable ty (nat name) s of (p, s) \<Rightarrow> (Some p, s))))"

definition parseConst :: "(string \<Rightarrow> bool) \<Rightarrow> string \<Rightarrow> Primitive option pm" where
  "parseConst mpq_ok tok =
     (if \<not> mpq_ok tok then pret None
      else pbuild (\<lambda>s. Some (case addConstant tok s of (p, s) \<Rightarrow> (Some p, s))))"

text \<open>The first character of an empty token is the terminating 0.\<close>

definition parsePrimitive :: "(string \<Rightarrow> bool) \<Rightarrow> Primitive option pm" where
  "parsePrimitive mpq_ok =
     pbind next_token (\<lambda>tok. if tok \<noteq> [] \<and> (is_digit (hd tok) \<or> hd tok = CHR ''-'') then parseConst mpq_ok tok else parseVar tok)"

section \<open>Polynomials\<close>

definition count_adds :: "nat \<Rightarrow> PWSCircuitParser \<Rightarrow> PWSCircuitParser" where
  "count_adds n s = s\<lparr>opCount := (opCount s)\<lparr>numAdds := numAdds (opCount s) + n\<rparr>\<rparr>"

definition count_mults :: "nat \<Rightarrow> PWSCircuitParser \<Rightarrow> PWSCircuitParser" where
  "count_mults n s = s\<lparr>opCount := (opCount s)\<lparr>numMults := numMults (opCount s) + n\<rparr>\<rparr>"

text \<open>The end of \<^verbatim>\<open>parsePoly\<close> and of \<^verbatim>\<open>parsePolyTerm\<close>: no gate after an error or for an empty list, the gate itself for one.\<close>

definition finish :: "OpType \<Rightarrow> (nat \<Rightarrow> PWSCircuitParser \<Rightarrow> PWSCircuitParser) \<Rightarrow> bool \<Rightarrow> GatePosition list \<Rightarrow> GatePosition option pm" where
  "finish op count abort' gs =
     (if abort' \<or> gs = [] then pret None
      else if length gs = 1 then pret (Some (hd gs))
      else pbind (pmodify (count (length gs - 1))) (\<lambda>_. pbind (pbuild (reduce op gs)) (\<lambda>g. pret (Some g))))"

definition finishPoly :: "bool \<Rightarrow> GatePosition list \<Rightarrow> GatePosition option pm" where
  "finishPoly = finish OpADD count_adds"

definition finishTerm :: "bool \<Rightarrow> GatePosition list \<Rightarrow> GatePosition option pm" where
  "finishTerm = finish OpMUL count_mults"

text \<open>The last gate is negated where a minus sign was read; with no gate to negate, \<^verbatim>\<open>back()\<close> of an empty vector is read.\<close>

definition negate_back :: "bool \<Rightarrow> GatePosition list \<Rightarrow> GatePosition list pm" where
  "negate_back negate vars =
     (if negate then
        if vars = [] then (\<lambda>s t. Crash)
        else pbind (pbuild (negateGate (last vars))) (\<lambda>g. pret (butlast vars @ [g]))
      else pret vars)"

fun parsePoly :: "(string \<Rightarrow> bool) \<Rightarrow> nat \<Rightarrow> string \<Rightarrow> GatePosition list \<Rightarrow> GatePosition option pm"
  and parsePolyTerm :: "(string \<Rightarrow> bool) \<Rightarrow> nat \<Rightarrow> bool \<Rightarrow> GatePosition list \<Rightarrow> GatePosition option pm" where
  "parsePoly mpq_ok 0 end' terms s t = OutOfFuel"
| "parsePoly mpq_ok (Suc fuel) end' terms s t = (
     if hasNext t then
       pbind next_token (\<lambda>tok.
         if tok = ''+'' then
           if terms = [] then finishPoly True terms else parsePoly mpq_ok fuel end' terms
         else if tok = end' then finishPoly False terms
         else pbind prewind (\<lambda>_.
           pbind (parsePolyTerm mpq_ok fuel False []) (\<lambda>term.
           parsePoly mpq_ok fuel end' (case term of None \<Rightarrow> terms | Some g \<Rightarrow> terms @ [g])))) s t
     else finishPoly False terms s t)"
| "parsePolyTerm mpq_ok 0 negate vars s t = OutOfFuel"
| "parsePolyTerm mpq_ok (Suc fuel) negate vars s t = (
     if hasNext t then
       pbind next_token (\<lambda>tok.
         if tok = ''('' then
           pbind (parsePoly mpq_ok fuel '')'' []) (\<lambda>r.
             case r of None \<Rightarrow> finishTerm True vars
             | Some g \<Rightarrow> pbind (negate_back negate (vars @ [g])) (parsePolyTerm mpq_ok fuel False))
         else if tok = ''E'' \<or> tok = '')'' then pbind prewind (\<lambda>_. finishTerm False vars)
         else if tok = ''*'' then
           if vars = [] then finishTerm True vars
           else pbind (negate_back negate vars) (parsePolyTerm mpq_ok fuel False)
         else if tok = ''+'' then
           if vars = [] then finishTerm True vars
           else pbind prewind (\<lambda>_. finishTerm False vars)
         else if tok = ''-'' then parsePolyTerm mpq_ok fuel True vars
         else pbind prewind (\<lambda>_.
           pbind (parsePrimitive mpq_ok) (\<lambda>r.
             case r of None \<Rightarrow> finishTerm True vars
             | Some p \<Rightarrow> pbind (pbuild (getGate p 0)) (\<lambda>g.
                 pbind (negate_back negate (vars @ [g])) (parsePolyTerm mpq_ok fuel False))))) s t
     else finishTerm False vars s t)"

section \<open>Constraints\<close>

text \<open>The two macros for an early return.\<close>

definition assert_return :: "string \<Rightarrow> unit pm \<Rightarrow> unit pm" where
  "assert_return want k = pbind (assert_token want) (\<lambda>ok. if ok then k else pret ())"

definition valid_return :: "'a option pm \<Rightarrow> ('a \<Rightarrow> unit pm) \<Rightarrow> unit pm" where
  "valid_return m k = pbind m (\<lambda>r. case r of None \<Rightarrow> pret () | Some x \<Rightarrow> k x)"

definition prim_after :: "(string \<Rightarrow> bool) \<Rightarrow> string \<Rightarrow> (Primitive \<Rightarrow> unit pm) \<Rightarrow> unit pm" where
  "prim_after mpq_ok label k = assert_return label (valid_return (parsePrimitive mpq_ok) k)"

text \<open>A number that cannot be read leaves the stream failed, so that the next label is not found and the number is not used.\<close>

definition int_after :: "string \<Rightarrow> (int \<Rightarrow> unit pm) \<Rightarrow> unit pm" where
  "int_after label k = assert_return label (\<lambda>s t. case next_int 0 t of (n, t) \<Rightarrow> k n s t)"

definition parsePolyConstraint :: "(string \<Rightarrow> bool) \<Rightarrow> nat \<Rightarrow> unit pm" where
  "parsePolyConstraint mpq_ok fuel =
     valid_return (parsePrimitive mpq_ok) (\<lambda>p.
       assert_return ''='' (
         valid_return (parsePoly mpq_ok fuel ''E'' []) (\<lambda>g.
           pbuild (\<lambda>s. map_option (Pair ()) (if isVariable p then bindVariable p g s else bindOutputConstant p g s)))))"

definition parseLessThanInt :: "bool \<Rightarrow> (string \<Rightarrow> bool) \<Rightarrow> unit pm" where
  "parseLessThanInt rtl mpq_ok s0 =
     (let opGuard = getOpGuard s0
      in prim_after mpq_ok ''N_0'' (\<lambda>n0. int_after ''N'' (\<lambda>nVars.
         prim_after mpq_ok ''Mlt'' (\<lambda>mlt. prim_after mpq_ok ''Meq'' (\<lambda>meq. prim_after mpq_ok ''Mgt'' (\<lambda>mgt.
         prim_after mpq_ok ''X1'' (\<lambda>x1. prim_after mpq_ok ''X2'' (\<lambda>x2. prim_after mpq_ok ''Y'' (\<lambda>y.
           pbuild (lessThanInt_gates rtl opGuard (prim_idx n0) (nat (nVars - 1)) mlt meq mgt x1 x2 y)))))))))
       s0)"

definition parseLessThanFloat :: "bool \<Rightarrow> (string \<Rightarrow> bool) \<Rightarrow> (mpz \<Rightarrow> mpz \<Rightarrow> mpz) \<Rightarrow> mpz \<Rightarrow> unit pm" where
  "parseLessThanFloat rtl mpq_ok mpz_invert prime' s0 =
     (let opGuard = getOpGuard s0
      in prim_after mpq_ok ''N_0'' (\<lambda>n0. int_after ''Na'' (\<lambda>nAVars. prim_after mpq_ok ''N'' (\<lambda>n.
         prim_after mpq_ok ''D_0'' (\<lambda>d0. int_after ''Nb'' (\<lambda>nBVars. prim_after mpq_ok ''D'' (\<lambda>d.
         prim_after mpq_ok ''ND'' (\<lambda>nd.
         prim_after mpq_ok ''Mlt'' (\<lambda>mlt. prim_after mpq_ok ''Meq'' (\<lambda>meq. prim_after mpq_ok ''Mgt'' (\<lambda>mgt.
         prim_after mpq_ok ''X1'' (\<lambda>x1. prim_after mpq_ok ''X2'' (\<lambda>x2. prim_after mpq_ok ''Y'' (\<lambda>y.
           pbuild (lessThanFloat_gates rtl mpz_invert prime' opGuard (prim_idx n0) (nat nAVars) n (prim_idx d0) (nat (nBVars + 1)) d nd
             mlt meq mgt x1 x2 y))))))))))))))
       s0)"

definition parseNotEqual :: "bool \<Rightarrow> (string \<Rightarrow> bool) \<Rightarrow> unit pm" where
  "parseNotEqual rtl mpq_ok s0 =
     (let opGuard = getOpGuard s0
      in prim_after mpq_ok ''M'' (\<lambda>m. prim_after mpq_ok ''X1'' (\<lambda>x1. prim_after mpq_ok ''X2'' (\<lambda>x2. prim_after mpq_ok ''Y'' (\<lambda>y.
           pbuild (notEqual_gates rtl opGuard m x1 x2 y))))) s0)"

definition parseDivide :: "(string \<Rightarrow> bool) \<Rightarrow> (string \<Rightarrow> mpz option) \<Rightarrow> (mpz \<Rightarrow> mpz \<Rightarrow> mpz) \<Rightarrow> mpz \<Rightarrow> unit pm" where
  "parseDivide mpq_ok mpz_set_str mpz_invert prime' =
     valid_return (parsePrimitive mpq_ok) (\<lambda>p.
       if \<not> isVariable p then pret ()
       else assert_return ''='' (
         valid_return (pbind next_token parseVar) (\<lambda>dividend.
           assert_return ''/'' (
             pbind next_token (\<lambda>tok.
               case mpz_set_str tok of
                 None \<Rightarrow> pmodify count_div
               | Some divisor \<Rightarrow> pbuild (divide_gates mpz_invert prime' p dividend divisor))))))"

section \<open>Files\<close>

definition parse_one ::
  "bool \<Rightarrow> (string \<Rightarrow> bool) \<Rightarrow> (string \<Rightarrow> mpz option) \<Rightarrow> (mpz \<Rightarrow> mpz \<Rightarrow> mpz) \<Rightarrow> mpz \<Rightarrow> nat \<Rightarrow> string \<Rightarrow> unit pm" where
  "parse_one rtl mpq_ok mpz_set_str mpz_invert prime' fuel tok =
     (if tok = ''P'' then parsePolyConstraint mpq_ok fuel
      else if tok = ''<I'' then parseLessThanInt rtl mpq_ok
      else if tok = ''<F'' then parseLessThanFloat rtl mpq_ok mpz_invert prime'
      else if tok = ''!='' then parseNotEqual rtl mpq_ok
      else if tok = ''/'' then parseDivide mpq_ok mpz_set_str mpz_invert prime'
      else if take 2 tok = ''//'' then (\<lambda>s t. Ret () s (ignoreLine t))
      else pret ())"

fun parse_loop ::
  "bool \<Rightarrow> (string \<Rightarrow> bool) \<Rightarrow> (string \<Rightarrow> mpz option) \<Rightarrow> (mpz \<Rightarrow> mpz \<Rightarrow> mpz) \<Rightarrow> mpz \<Rightarrow> nat \<Rightarrow> unit pm" where
  "parse_loop rtl mpq_ok mpz_set_str mpz_invert prime' 0 s t = OutOfFuel"
| "parse_loop rtl mpq_ok mpz_set_str mpz_invert prime' (Suc fuel) s t = (
     if hasNext t then
       pbind next_token (\<lambda>tok.
         pbind (parse_one rtl mpq_ok mpz_set_str mpz_invert prime' fuel tok) (\<lambda>_.
           parse_loop rtl mpq_ok mpz_set_str mpz_invert prime' fuel)) s t
     else Ret () s t)"

text \<open>\<open>None\<close> for the file is a file that could not be opened.\<close>

definition parse ::
  "bool \<Rightarrow> (string \<Rightarrow> bool) \<Rightarrow> (string \<Rightarrow> mpz option) \<Rightarrow> (mpz \<Rightarrow> mpz \<Rightarrow> mpz) \<Rightarrow> mpz \<Rightarrow> nat \<Rightarrow> string option \<Rightarrow> PWSCircuitParser \<Rightarrow>
   unit presult" where
  "parse rtl mpq_ok mpz_set_str mpz_invert prime' fuel pwsFile s =
     (let s = parser_clear s
      in case pwsFile of None \<Rightarrow> Ret () s (Tokenizer_new [])
         | Some text' \<Rightarrow>
             pbind (parse_loop rtl mpq_ok mpz_set_str mpz_invert prime' fuel) (\<lambda>_.
               pbuild (\<lambda>s. map_option (\<lambda>s. ((), clearPrivate (constructInvertedIndexes s))) (makeOutputLayer s)))
             s (Tokenizer_new text'))"

end
