(* ===== verification/Pws_Poly.thy ===== *)
theory Pws_Poly
  imports Pws_Values_Reduce Pws_Parser
begin

text \<open>
  Polynomials: the text that the compiler writes for one, its value, and that the parser turns the text into a gate with that value.
\<close>

section \<open>Polynomials and their text\<close>

text \<open>A factor is a name or a number, or a polynomial in parentheses; a term is a product of factors, each with or without a minus sign; a
  polynomial is a sum of terms.\<close>

datatype factor = Prim string | Paren "(bool \<times> factor) list list"

definition sep :: "string \<Rightarrow> string list list \<Rightarrow> string list" where
  "sep w wss = (case wss of [] \<Rightarrow> [] | ws # wss \<Rightarrow> ws @ concat (map (\<lambda>ws. w # ws) wss))"

fun factor_toks :: "factor \<Rightarrow> string list" where
  "factor_toks (Prim w) = [w]"
| "factor_toks (Paren ts) =
     ''('' # sep ''+'' (map (\<lambda>t. sep ''*'' (map (\<lambda>(neg, x). (if neg then [''-''] else []) @ factor_toks x) t)) ts) @ ['')'']"

definition signed_toks :: "bool \<times> factor \<Rightarrow> string list" where
  "signed_toks sx = (if fst sx then [''-''] else []) @ factor_toks (snd sx)"

definition term_toks :: "(bool \<times> factor) list \<Rightarrow> string list" where
  "term_toks t = sep ''*'' (map signed_toks t)"

definition poly_toks :: "(bool \<times> factor) list list \<Rightarrow> string list" where
  "poly_toks ts = sep ''+'' (map term_toks ts)"

lemma factor_toks_Paren: "factor_toks (Paren ts) = ''('' # poly_toks ts @ ['')'']"
  by (simp add: poly_toks_def term_toks_def [abs_def] signed_toks_def [abs_def] case_prod_unfold)

declare factor_toks.simps(2) [simp del]

fun factor_val :: "(string \<Rightarrow> 'a::comm_ring_1) \<Rightarrow> factor \<Rightarrow> 'a" where
  "factor_val env (Prim w) = env w"
| "factor_val env (Paren ts) =
     sum_list (map (\<lambda>t. prod_list (map (\<lambda>(neg, x). if neg then - factor_val env x else factor_val env x) t)) ts)"

definition signed_val' :: "(string \<Rightarrow> 'a::comm_ring_1) \<Rightarrow> bool \<times> factor \<Rightarrow> 'a" where
  "signed_val' env sx = (if fst sx then - factor_val env (snd sx) else factor_val env (snd sx))"

definition term_val :: "(string \<Rightarrow> 'a::comm_ring_1) \<Rightarrow> (bool \<times> factor) list \<Rightarrow> 'a" where
  "term_val env t = prod_list (map (signed_val' env) t)"

definition poly_val :: "(string \<Rightarrow> 'a::comm_ring_1) \<Rightarrow> (bool \<times> factor) list list \<Rightarrow> 'a" where
  "poly_val env ts = sum_list (map (term_val env) ts)"

lemma factor_val_Paren: "factor_val env (Paren ts) = poly_val env ts"
  by (simp add: poly_val_def term_val_def [abs_def] signed_val'_def [abs_def] case_prod_unfold)

declare factor_val.simps(2) [simp del]

section \<open>Names\<close>

text \<open>The type a name starts with, and the place of the variable; a token that starts like a number is a constant.\<close>

definition num_tok :: "string \<Rightarrow> bool" where
  "num_tok w \<longleftrightarrow> w \<noteq> [] \<and> (is_digit (hd w) \<or> hd w = CHR ''-'')"

definition var_type :: "string \<Rightarrow> VarType option" where
  "var_type w = (if w = [] then None else if hd w = CHR ''I'' then Some INPUT else if hd w = CHR ''O'' then Some OUTPUT
     else if hd w = CHR ''V'' then Some TEMP else if hd w = CHR ''M'' then Some MAGIC else None)"

definition var_of :: "string \<Rightarrow> Primitive" where
  "var_of w = (if hd w = CHR ''I'' \<or> hd w = CHR ''O'' then INPUT_OUTPUT (nat (atoi (tl w))) else INTERMEDIATE (nat (atoi (tl w))))"

definition var_tok :: "string \<Rightarrow> bool" where
  "var_tok w \<longleftrightarrow> is_token w \<and> var_type w \<noteq> None \<and> 1 < length w \<and> 0 \<le> atoi (tl w)"

definition prim_tok :: "allowed \<Rightarrow> (string \<Rightarrow> bool) \<Rightarrow> string \<Rightarrow> bool" where
  "prim_tok A ok w \<longleftrightarrow> var_tok w \<and> (var_of w, the (var_type w)) \<in> a_types A \<and> (var_of w, 0) \<in> a_layers A \<or> is_token w \<and> num_tok w \<and> w \<noteq> ''-'' \<and> ok w"

fun factor_ok :: "allowed \<Rightarrow> (string \<Rightarrow> bool) \<Rightarrow> factor \<Rightarrow> bool" where
  "factor_ok A ok (Prim w) = prim_tok A ok w"
| "factor_ok A ok (Paren ts) = (ts \<noteq> [] \<and> list_all (\<lambda>t. t \<noteq> [] \<and> list_all (\<lambda>(_, x). factor_ok A ok x) t) ts)"

definition term_ok :: "allowed \<Rightarrow> (string \<Rightarrow> bool) \<Rightarrow> (bool \<times> factor) list \<Rightarrow> bool" where
  "term_ok A ok t \<longleftrightarrow> t \<noteq> [] \<and> list_all (\<lambda>sx. factor_ok A ok (snd sx)) t"

definition poly_ok :: "allowed \<Rightarrow> (string \<Rightarrow> bool) \<Rightarrow> (bool \<times> factor) list list \<Rightarrow> bool" where
  "poly_ok A ok ts \<longleftrightarrow> ts \<noteq> [] \<and> list_all (term_ok A ok) ts"

lemma factor_ok_Paren: "factor_ok A ok (Paren ts) = poly_ok A ok ts"
  by (simp add: poly_ok_def term_ok_def [abs_def] case_prod_unfold)

declare factor_ok.simps(2) [simp del]

text \<open>The value of a name: what its text reads as, or the value of its variable.\<close>

definition tok_env :: "(string \<Rightarrow> 'a) \<Rightarrow> (nat \<Rightarrow> 'a::comm_ring_1) \<Rightarrow> PWSCircuitParser \<Rightarrow> string \<Rightarrow> 'a" where
  "tok_env cn f s w = (if num_tok w then cn w else pval f s (var_of w))"

definition tok_live :: "PWSCircuitParser \<Rightarrow> string \<Rightarrow> bool" where
  "tok_live s w \<longleftrightarrow> (if num_tok w then True else live s (var_of w))"

lemma tok_live_ext: "ext A s s' \<Longrightarrow> tok_live s w \<Longrightarrow> tok_live s' w"
  by (cases "num_tok w") (auto simp: tok_live_def dest: live_ext(1))

lemma tok_env_ext: "pwf s \<Longrightarrow> ext A s s' \<Longrightarrow> tok_live s w \<Longrightarrow> tok_env cn f s' w = tok_env cn f s w"
  using pval_ext [of s A s' "var_of w" f] by (auto simp: tok_env_def tok_live_def)

fun factor_names :: "factor \<Rightarrow> string list" where
  "factor_names (Prim w) = [w]"
| "factor_names (Paren ts) = concat (map (\<lambda>t. concat (map (\<lambda>(_, x). factor_names x) t)) ts)"

section \<open>Reading\<close>

lemma vinv_token: "vinv cn f s \<Longrightarrow> vinv cn f (s\<lparr>token := w\<rparr>)"
proof -
  assume v: "vinv cn f s"
  let ?s = "s\<lparr>token := w\<rparr>"
  have G: "getCircuitPrimitive ?s p = getCircuitPrimitive s p" "toPrimitive ?s p = toPrimitive s p" for p
    by (rule getCircuitPrimitive_cong toPrimitive_cong; simp)+
  have "pwf ?s" using v by (simp add: vinv_def swf_def pwf_def prims_wf_def tables_wf_def refs_wf_def G)
  with v show ?thesis by (simp add: vinv_def swf_def bound_ok_def typed_ok_def G consts_ok_def one_value_def gv_def)
qed

lemma ext_token: "ext A s (s\<lparr>token := w\<rparr>)"
proof -
  have "getCircuitPrimitive (s\<lparr>token := w\<rparr>) p = getCircuitPrimitive s p" for p by (rule getCircuitPrimitive_cong) simp_all
  moreover have "ptype (s\<lparr>token := w\<rparr>) p = ptype s p" for p by (rule ptype_cong) simp_all
  moreover have "kept s (s\<lparr>token := w\<rparr>)" by (rule kept_cong) (simp_all add: no_divisions_def)
  ultimately show ?thesis by (simp add: ext_def live_def)
qed

text \<open>The outcome of a parsing step that returns, for a text that starts with what it reads.\<close>

definition ptot :: "allowed \<Rightarrow> (string \<Rightarrow> 'a) \<Rightarrow> (nat \<Rightarrow> 'a::comm_ring_1) \<Rightarrow> 'b presult \<Rightarrow> PWSCircuitParser \<Rightarrow> string \<Rightarrow> ('b \<Rightarrow> PWSCircuitParser \<Rightarrow> bool) \<Rightarrow> bool" where
  "ptot A cn f r s cs Q \<longleftrightarrow> (\<exists>x s' t'. r = Ret x s' t' \<and> vinv cn f s' \<and> ext A s s' \<and> at_text t' cs \<and> Q x s')"

lemma ptot_bind:
  assumes "ptot A cn f (m s t) s cs Q" "\<And>x s' t'. vinv cn f s' \<Longrightarrow> ext A s s' \<Longrightarrow> at_text t' cs \<Longrightarrow> Q x s' \<Longrightarrow> ptot A cn f (k x s' t') s' cs' R"
  shows "ptot A cn f (pbind m k s t) s cs' R"
proof -
  obtain x s' t' where m: "m s t = Ret x s' t'" "vinv cn f s'" "ext A s s'" "at_text t' cs" "Q x s'" using assms(1) by (auto simp: ptot_def)
  from assms(2) [OF m(2-5)] show ?thesis using m(1,3) ext_trans by (fastforce simp: ptot_def pbind_def)
qed

lemma ptot_build: "tot A cn f (g s) s Q \<Longrightarrow> at_text t cs \<Longrightarrow> ptot A cn f (pbuild g s t) s cs Q"
  by (auto simp: tot_def ptot_def pbuild_def)

lemma ptot_ret: "vinv cn f s \<Longrightarrow> at_text t cs \<Longrightarrow> Q x s \<Longrightarrow> ptot A cn f (pret x s t) s cs Q"
  by (simp add: ptot_def pret_def)

text \<open>Reading a token, with or without going back.\<close>

lemma next_token_total:
  assumes "vinv cn f s" "at_text t (tok_text (w # ws) @ cs)" "is_token w" "blank_start cs"
  shows "\<exists>t'. next_token s t = Ret w (s\<lparr>token := w\<rparr>) t' \<and> at_text t' (tok_text ws @ cs) \<and> at_text (rewind t') (tok_text (w # ws) @ cs)"
proof -
  obtain t' where t': "next_string (token s) t = (w, t')" "at_text t' (tok_text ws @ cs)" "at_text (rewind t') (tok_text (w # ws) @ cs)"
    using next_string_token [OF assms(2-4)] by blast
  then show ?thesis by (simp add: next_token_def)
qed

lemma at_text_hasNext: "at_text t cs \<Longrightarrow> hasNext t"
  by (simp add: at_text_def is_good_def hasNext_def)

section \<open>Values of what has been read\<close>

definition fac_at :: "(string \<Rightarrow> 'a) \<Rightarrow> (nat \<Rightarrow> 'a::comm_ring_1) \<Rightarrow> PWSCircuitParser \<Rightarrow> GatePosition \<Rightarrow> bool \<times> factor \<Rightarrow> bool" where
  "fac_at cn f s g sx \<longleftrightarrow> has_val cn f s g (signed_val' (tok_env cn f s) sx) \<and> list_all (tok_live s) (factor_names (snd sx))"

definition term_names :: "(bool \<times> factor) list \<Rightarrow> string list" where
  "term_names t = concat (map (\<lambda>sx. factor_names (snd sx)) t)"

definition poly_names :: "(bool \<times> factor) list list \<Rightarrow> string list" where
  "poly_names ts = concat (map term_names ts)"

definition term_at :: "(string \<Rightarrow> 'a) \<Rightarrow> (nat \<Rightarrow> 'a::comm_ring_1) \<Rightarrow> PWSCircuitParser \<Rightarrow> GatePosition \<Rightarrow> (bool \<times> factor) list \<Rightarrow> bool" where
  "term_at cn f s g t \<longleftrightarrow> has_val cn f s g (term_val (tok_env cn f s) t) \<and> list_all (tok_live s) (term_names t)"

definition poly_at :: "(string \<Rightarrow> 'a) \<Rightarrow> (nat \<Rightarrow> 'a::comm_ring_1) \<Rightarrow> PWSCircuitParser \<Rightarrow> GatePosition \<Rightarrow> (bool \<times> factor) list list \<Rightarrow> bool" where
  "poly_at cn f s g ts \<longleftrightarrow> has_val cn f s g (poly_val (tok_env cn f s) ts) \<and> list_all (tok_live s) (poly_names ts)"

lemma factor_names_Paren: "factor_names (Paren ts) = poly_names ts"
  by (simp add: poly_names_def term_names_def [abs_def] case_prod_unfold)

declare factor_names.simps(2) [simp del]

lemma factor_val_cong: "(\<And>w. w \<in> set (factor_names x) \<Longrightarrow> env w = env' w) \<Longrightarrow> factor_val env x = factor_val env' x"
proof (induction x)
  case (Paren ts)
  have "signed_val' env sx = signed_val' env' sx" if "t \<in> set ts" "sx \<in> set t" for t sx
    using Paren.IH [OF that, of "snd sx"] Paren.prems that
    by (cases sx) (force simp: signed_val'_def factor_names_Paren poly_names_def term_names_def)
  then have "map (signed_val' env) t = map (signed_val' env') t" if "t \<in> set ts" for t using that by simp
  then show ?case unfolding factor_val_Paren poly_val_def term_val_def by (simp cong: map_cong)
qed simp

lemma signed_val_ext:
  assumes "pwf s" "ext A s s'" "list_all (tok_live s) (factor_names (snd sx))"
  shows "signed_val' (tok_env cn f s') sx = signed_val' (tok_env cn f s) sx"
proof -
  have "factor_val (tok_env cn f s') (snd sx) = factor_val (tok_env cn f s) (snd sx)"
    by (rule factor_val_cong, rule tok_env_ext [OF assms(1,2)]) (use assms(3) in \<open>simp add: list_all_iff\<close>)
  then show ?thesis by (simp add: signed_val'_def)
qed

lemma term_val_ext:
  assumes "pwf s" "ext A s s'" "list_all (tok_live s) (term_names t)"
  shows "term_val (tok_env cn f s') t = term_val (tok_env cn f s) t"
proof -
  have "signed_val' (tok_env cn f s') sx = signed_val' (tok_env cn f s) sx" if "sx \<in> set t" for sx
    by (rule signed_val_ext [OF assms(1,2)]) (use that assms(3) in \<open>auto simp: term_names_def list_all_iff\<close>)
  then show ?thesis unfolding term_val_def by (simp cong: map_cong)
qed

lemma poly_val_ext:
  assumes "pwf s" "ext A s s'" "list_all (tok_live s) (poly_names ts)"
  shows "poly_val (tok_env cn f s') ts = poly_val (tok_env cn f s) ts"
proof -
  have "term_val (tok_env cn f s') t = term_val (tok_env cn f s) t" if "t \<in> set ts" for t
    by (rule term_val_ext [OF assms(1,2)]) (use that assms(3) in \<open>auto simp: poly_names_def list_all_iff\<close>)
  then show ?thesis unfolding poly_val_def by (simp cong: map_cong)
qed

lemma all_live_ext: "ext A s s' \<Longrightarrow> list_all (tok_live s) ws \<Longrightarrow> list_all (tok_live s') ws"
  by (auto simp: list_all_iff intro: tok_live_ext)

lemma fac_at_ext: "pwf s \<Longrightarrow> ext A s s' \<Longrightarrow> fac_at cn f s g sx \<Longrightarrow> fac_at cn f s' g sx"
  using signed_val_ext has_val_ext all_live_ext unfolding fac_at_def by metis

lemma term_at_ext: "pwf s \<Longrightarrow> ext A s s' \<Longrightarrow> term_at cn f s g t \<Longrightarrow> term_at cn f s' g t"
  using term_val_ext has_val_ext all_live_ext unfolding term_at_def by metis

lemma vinv_opCount: "vinv cn f s \<Longrightarrow> vinv cn f (s\<lparr>opCount := c\<rparr>)" "ext A s (s\<lparr>opCount := c\<rparr>)"
proof -
  let ?s = "s\<lparr>opCount := c\<rparr>"
  have G: "getCircuitPrimitive ?s p = getCircuitPrimitive s p" "toPrimitive ?s p = toPrimitive s p" for p
    by (rule getCircuitPrimitive_cong toPrimitive_cong; simp)+
  have "ptype ?s p = ptype s p" for p by (rule ptype_cong) simp_all
  moreover have "kept s ?s" by (rule kept_cong) (simp_all add: no_divisions_def)
  ultimately show "ext A s ?s" by (simp add: ext_def live_def G)
  assume v: "vinv cn f s"
  have "pwf ?s" using v by (simp add: vinv_def swf_def pwf_def prims_wf_def tables_wf_def refs_wf_def G)
  with v show "vinv cn f ?s" by (simp add: vinv_def swf_def bound_ok_def typed_ok_def G consts_ok_def one_value_def gv_def)
qed

section \<open>Correctness of the parser on polynomials\<close>

context numeral_reader
begin

lemma finish_total:
  assumes v: "vinv cn f s" and op: "op = OpADD \<or> op = OpMUL" and gs: "list_all2 (has_val cn f s) gs vs" "gs \<noteq> []"
    and c: "\<And>n. \<exists>c. count n s = s\<lparr>opCount := c\<rparr>" and t: "at_text t cs"
  shows "ptot A cn f (finish op count False gs s t) s cs (\<lambda>r s'. \<exists>g. r = Some g \<and> has_val cn f s' g (total' op vs))"
proof (cases "length gs = 1")
  case True
  then obtain g x where "gs = [g]" "vs = [x]" "has_val cn f s g x" using gs by (cases gs) (auto simp: list_all2_Cons1)
  then show ?thesis using v op t by (auto simp: finish_def ptot_def pret_def total'_def)
next
  case False
  obtain k where k: "count (length gs - 1) s = s\<lparr>opCount := k\<rparr>" using c by blast
  let ?s = "s\<lparr>opCount := k\<rparr>"
  have "list_all2 (has_val cn f ?s) gs vs" by (rule list_all2_mono [OF gs(1)]) (rule has_val_step [OF vinv_opCount(2) _ v])
  from reduce_total [where A = A, OF vinv_opCount(1) [OF v] op this gs(2)]
  obtain g s' where s': "reduce op gs ?s = Some (g, s')" "vinv cn f s'" "ext A ?s s'" "has_val cn f s' g (total' op vs)"
    by (auto simp: tot_def)
  then show ?thesis using False gs(2) t k ext_trans [OF vinv_opCount(2) s'(3)]
    by (auto simp: finish_def ptot_def pbind_def pmodify_def pbuild_def pret_def)
qed

lemma finishTerm_total:
  assumes v: "vinv cn f s" and gs: "list_all2 (fac_at cn f s) gs xs" "gs \<noteq> []" and t: "at_text t cs"
  shows "ptot A cn f (finishTerm False gs s t) s cs (\<lambda>r s'. \<exists>g. r = Some g \<and> term_at cn f s' g xs)"
proof -
  have h: "list_all2 (has_val cn f s) gs (map (signed_val' (tok_env cn f s)) xs)"
    using gs(1) by (auto simp: fac_at_def list_all2_map2 elim: list_all2_mono)
  have l: "list_all (tok_live s) (term_names xs)" using gs(1) unfolding term_names_def
    by (induction gs xs rule: list_all2_induct) (auto simp: fac_at_def)
  have "ptot A cn f (finish OpMUL count_mults False gs s t) s cs (\<lambda>r s'. \<exists>g. r = Some g \<and>
      has_val cn f s' g (total' OpMUL (map (signed_val' (tok_env cn f s)) xs)))"
    by (rule finish_total [where A = A, OF v _ h gs(2) _ t]) (auto simp: count_mults_def)
  then obtain g s' t' where r: "finishTerm False gs s t = Ret (Some g) s' t'" "vinv cn f s'" "ext A s s'" "at_text t' cs"
      "has_val cn f s' g (term_val (tok_env cn f s) xs)"
    by (auto simp: finishTerm_def ptot_def total'_def term_val_def)
  have "term_at cn f s' g xs"
    using r(5) term_val_ext [OF vinv_pwf [OF v] r(3) l, of cn f] all_live_ext [OF r(3) l] by (simp add: term_at_def)
  then show ?thesis using r by (simp add: ptot_def)
qed

lemma finishPoly_total:
  assumes v: "vinv cn f s" and gs: "list_all2 (term_at cn f s) gs ts" "gs \<noteq> []" and t: "at_text t cs"
  shows "ptot A cn f (finishPoly False gs s t) s cs (\<lambda>r s'. \<exists>g. r = Some g \<and> poly_at cn f s' g ts)"
proof -
  have h: "list_all2 (has_val cn f s) gs (map (term_val (tok_env cn f s)) ts)"
    using gs(1) by (auto simp: term_at_def list_all2_map2 elim: list_all2_mono)
  have l: "list_all (tok_live s) (poly_names ts)" using gs(1) unfolding poly_names_def
    by (induction gs ts rule: list_all2_induct) (auto simp: term_at_def)
  have "ptot A cn f (finish OpADD count_adds False gs s t) s cs (\<lambda>r s'. \<exists>g. r = Some g \<and>
      has_val cn f s' g (total' OpADD (map (term_val (tok_env cn f s)) ts)))"
    by (rule finish_total [where A = A, OF v _ h gs(2) _ t]) (auto simp: count_adds_def)
  then obtain g s' t' where r: "finishPoly False gs s t = Ret (Some g) s' t'" "vinv cn f s'" "ext A s s'" "at_text t' cs"
      "has_val cn f s' g (poly_val (tok_env cn f s) ts)"
    by (auto simp: finishPoly_def ptot_def total'_def poly_val_def)
  have "poly_at cn f s' g ts"
    using r(5) poly_val_ext [OF vinv_pwf [OF v] r(3) l, of cn f] all_live_ext [OF r(3) l] by (simp add: poly_at_def)
  then show ?thesis using r by (simp add: ptot_def)
qed

end

end
