(* ===== verification/Pws_Poly_Correct.thy ===== *)
theory Pws_Poly_Correct
  imports Pws_Poly
begin

text \<open>
  The parser reads the text of a polynomial to its end and returns a gate with the value of the polynomial, in any position
  of a file and with fuel for its tokens.
\<close>

section \<open>Names\<close>

lemma var_tok_hd:
  assumes "var_tok w"
  shows "\<not> num_tok w" "w \<notin> {''('', '')'', ''E'', ''*'', ''+'', ''-''}" "w \<noteq> []"
  using assms by (auto simp: var_tok_def var_type_def num_tok_def is_digit_def split: if_splits)

lemma num_tok_hd: "num_tok w \<Longrightarrow> w \<noteq> ''-'' \<Longrightarrow> w \<notin> {''('', '')'', ''E'', ''*'', ''+'', ''-''}"
  by (auto simp: num_tok_def is_digit_def)

lemma prim_tok_special: "prim_tok A ok w \<Longrightarrow> w \<notin> {''('', '')'', ''E'', ''*'', ''+'', ''-''} \<and> is_token w"
  using var_tok_hd(2) num_tok_hd by (auto simp: prim_tok_def var_tok_def)

text \<open>What reading a factor does, at the place of a term where one is expected.\<close>

definition reads_factor :: "allowed \<Rightarrow> (string \<Rightarrow> 'a::comm_ring_1) \<Rightarrow> (string \<Rightarrow> bool) \<Rightarrow> factor \<Rightarrow> bool" where
  "reads_factor A cn ok x \<longleftrightarrow> (\<forall>fuel neg vars f s t ws cs. vinv cn f s \<longrightarrow> at_text t (tok_text (factor_toks x @ ws) @ cs) \<longrightarrow> blank_start cs \<longrightarrow>
     length (factor_toks x) + 1 \<le> fuel \<longrightarrow>
     (\<exists>g s' t'. parsePolyTerm ok (Suc fuel) neg vars s t = parsePolyTerm ok fuel False (vars @ [g]) s' t' \<and> vinv cn f s' \<and> ext A s s' \<and>
        at_text t' (tok_text ws @ cs) \<and> fac_at cn f s' g (neg, x)))"

definition end_tok :: "string \<Rightarrow> bool" where
  "end_tok e \<longleftrightarrow> e = ''E'' \<or> e = '')''"

lemma special_tokens: "is_token ''('' \<and> is_token '')'' \<and> is_token ''E'' \<and> is_token ''*'' \<and> is_token ''+'' \<and> is_token ''-''"
  by (simp add: is_token_def isspace_def)

lemma factor_toks_ne: "factor_toks x \<noteq> []"
  by (cases x) (simp_all add: factor_toks_Paren)

context numeral_reader
begin

lemma parseVar_total:
  assumes v: "vinv cn f s" and w: "var_tok w" "(var_of w, the (var_type w)) \<in> a_types A" and t: "at_text t cs"
  shows "ptot A cn f (parseVar w s t) s cs (\<lambda>r s'. r = Some (var_of w) \<and> (\<exists>q. getCircuitPrimitive s' (var_of w) = Some q) \<and>
    (ptype s (var_of w) = None \<longrightarrow> ptype s' (var_of w) = var_type w))"
proof -
  obtain ty where ty: "var_type w = Some ty" using w(1) by (auto simp: var_tok_def)
  let ?n = "nat (atoi (tl w))"
  have p: "parseVar w = pbuild (\<lambda>s. Some (case addVariable ty ?n s of (p, s) \<Rightarrow> (Some p, s)))"
    using w(1) ty by (auto simp: parseVar_def var_tok_def var_type_def Let_def)
  have o: "var_of w = (if ty = INPUT \<or> ty = OUTPUT then INPUT_OUTPUT ?n else INTERMEDIATE ?n)"
    using ty by (auto simp: var_of_def var_type_def split: if_splits)
  obtain p s' where a: "addVariable ty ?n s = (p, s')" by fastforce
  have "tot A cn f (Some (p, s')) s (\<lambda>p s'. (\<exists>q. getCircuitPrimitive s' p = Some q) \<and> isVariable p \<and>
      (ptype s p = None \<longrightarrow> ptype s' p = Some ty) \<and> p = var_of w)"
    using tot_addVariable [where A = A, OF v, of ty ?n] w(2) ty unfolding o a by simp
  then show ?thesis using a t ty by (auto simp: p ptot_def pbuild_def tot_def)
qed

text \<open>A name or a number becomes a gate with its value.\<close>

lemma primitive_gate:
  assumes v: "vinv cn f s" and w: "prim_tok A ok w" and t: "at_text t (tok_text (w # ws) @ cs)" "blank_start cs"
  shows "\<exists>p s1 t1 g s2. parsePrimitive ok s t = Ret (Some p) s1 t1 \<and> getGate p 0 s1 = Some (g, s2) \<and> vinv cn f s2 \<and> ext A s s2 \<and>
    at_text t1 (tok_text ws @ cs) \<and> fac_at cn f s2 g (False, Prim w)"
proof -
  let ?s = "s\<lparr>token := w\<rparr>"
  have tw: "is_token w" using prim_tok_special [OF w] by simp
  obtain t1 where t1: "next_token s t = Ret w ?s t1" "at_text t1 (tok_text ws @ cs)" using next_token_total [OF v t(1) tw t(2)] by blast
  have vs: "vinv cn f ?s" by (rule vinv_token [OF v])
  show ?thesis
  proof (cases "var_tok w")
    case True
    have va: "(var_of w, the (var_type w)) \<in> a_types A" "(var_of w, 0) \<in> a_layers A" using w var_tok_hd(1) [OF True] by (simp_all add: prim_tok_def)
    obtain s2 t2 q where s2: "parseVar w ?s t1 = Ret (Some (var_of w)) s2 t2" "vinv cn f s2" "ext A ?s s2" "at_text t2 (tok_text ws @ cs)"
        "getCircuitPrimitive s2 (var_of w) = Some q"
      using parseVar_total [where A = A, OF vs True va(1) t1(2)] by (auto simp: ptot_def)
    obtain g s3 where s3: "getGate (var_of w) 0 s2 = Some (g, s3)" "vinv cn f s3" "ext A s2 s3" "has_val cn f s3 g (pval f s3 (var_of w))" "live s3 (var_of w)"
      using getGate_total [where A = A, OF s2(2,5), of 0] va by (auto simp: tot_def)
    have nt: "\<not> num_tok w" by (rule var_tok_hd(1) [OF True])
    have "parsePrimitive ok s t = Ret (Some (var_of w)) s2 t2" using t1(1) s2(1) nt by (auto simp: parsePrimitive_def pbind_def num_tok_def)
    moreover have "fac_at cn f s3 g (False, Prim w)" using s3(4,5) nt by (simp add: fac_at_def signed_val'_def tok_env_def tok_live_def)
    ultimately show ?thesis using s2(4) s3(1-3) ext_trans [OF ext_trans [OF ext_token s2(3)] s3(3)] by blast
  next
    case False
    then have n: "num_tok w" "ok w" using w by (auto simp: prim_tok_def)
    obtain p s2 where s2: "addConstant w ?s = (p, s2)" "vinv cn f s2" "ext A ?s s2" "const_of s2 p w"
      using tot_addConstant [where A = A, OF vs, of w] unfolding tot_def by auto
    obtain g s3 where s3: "getGate p 0 s2 = Some (g, s3)" "vinv cn f s3" "ext A s2 s3" "has_val cn f s3 g (cn w)"
      using const_gate_total [where A = A, OF s2(2,4), of 0] by (auto simp: tot_def)
    have "parsePrimitive ok s t = Ret (Some p) s2 t1"
      using t1(1) s2(1) n by (auto simp: parsePrimitive_def pbind_def num_tok_def parseConst_def pbuild_def)
    moreover have "fac_at cn f s3 g (False, Prim w)" using s3(4) n(1) by (simp add: fac_at_def signed_val'_def tok_env_def tok_live_def)
    ultimately show ?thesis using t1(2) s3(1-3) ext_trans [OF ext_trans [OF ext_token s2(3)] s3(3)] by blast
  qed
qed

lemma negate_back_total:
  assumes v: "vinv cn f s" and g: "fac_at cn f s g (False, x)"
  shows "\<exists>g' s'. negate_back neg (vars @ [g]) s t = Ret (vars @ [g']) s' t \<and> vinv cn f s' \<and> ext A s s' \<and> fac_at cn f s' g' (neg, x)"
proof (cases neg)
  case False
  then show ?thesis using v g by (simp add: negate_back_def pret_def)
next
  case True
  have h: "has_val cn f s g (factor_val (tok_env cn f s) x)" "list_all (tok_live s) (factor_names x)"
    using g by (simp_all add: fac_at_def signed_val'_def)
  obtain g' s' where s': "negateGate g s = Some (g', s')" "vinv cn f s'" "ext A s s'" "has_val cn f s' g' (- factor_val (tok_env cn f s) x)"
    using negateGate_total [where A = A, OF v h(1)] by (auto simp: tot_def)
  have "fac_at cn f s' g' (True, x)"
    using s'(4) signed_val_ext [OF vinv_pwf [OF v] s'(3), of "(True, x)" cn f] all_live_ext [OF s'(3)] h(2)
    by (simp add: fac_at_def signed_val'_def)
  then show ?thesis using s' True by (simp add: negate_back_def pbind_def pbuild_def pret_def)
qed

section \<open>Factors\<close>

lemma factor_Prim:
  assumes v: "vinv cn f s" and w: "prim_tok A ok w" and t: "at_text t (tok_text (w # ws) @ cs)" "blank_start cs"
  shows "\<exists>g s' t'. parsePolyTerm ok (Suc fuel) neg vars s t = parsePolyTerm ok fuel False (vars @ [g]) s' t' \<and> vinv cn f s' \<and> ext A s s' \<and>
    at_text t' (tok_text ws @ cs) \<and> fac_at cn f s' g (neg, Prim w)"
proof -
  let ?s = "s\<lparr>token := w\<rparr>"
  have sp: "w \<notin> {''('', '')'', ''E'', ''*'', ''+'', ''-''}" "is_token w" using prim_tok_special [OF w] by simp_all
  obtain t1 where t1: "next_token s t = Ret w ?s t1" "at_text (rewind t1) (tok_text (w # ws) @ cs)"
    using next_token_total [OF v t(1) sp(2) t(2)] by blast
  obtain p s1 t2 g0 s2 where s2: "parsePrimitive ok ?s (rewind t1) = Ret (Some p) s1 t2" "getGate p 0 s1 = Some (g0, s2)" "vinv cn f s2" "ext A ?s s2"
      "at_text t2 (tok_text ws @ cs)" "fac_at cn f s2 g0 (False, Prim w)"
    using primitive_gate [where A = A, OF vinv_token [OF v] w t1(2) t(2)] by blast
  obtain g s3 where s3: "negate_back neg (vars @ [g0]) s2 t2 = Ret (vars @ [g]) s3 t2" "vinv cn f s3" "ext A s2 s3" "fac_at cn f s3 g (neg, Prim w)"
    using negate_back_total [where A = A, OF s2(3,6)] by blast
  have "parsePolyTerm ok (Suc fuel) neg vars s t = parsePolyTerm ok fuel False (vars @ [g]) s3 t2"
    using at_text_hasNext [OF t(1)] t1(1) sp(1) s2(1,2) s3(1) by (simp add: pbind_def prewind_def pbuild_def)
  then show ?thesis using s3(2,4) s2(5) ext_trans [OF ext_trans [OF ext_token s2(4)] s3(3)] by blast
qed

section \<open>Terms\<close>

lemma reads_signed:
  assumes x: "reads_factor A cn ok (snd sx)" and v: "vinv cn f s" and t: "at_text t (tok_text (signed_toks sx @ ws) @ cs)" "blank_start cs"
    and fuel: "length (signed_toks sx) + 2 \<le> fuel"
  shows "\<exists>g s' t' fuel'. parsePolyTerm ok fuel False vars s t = parsePolyTerm ok fuel' False (vars @ [g]) s' t' \<and> vinv cn f s' \<and> ext A s s' \<and>
    at_text t' (tok_text ws @ cs) \<and> fac_at cn f s' g sx \<and> fuel \<le> fuel' + length (signed_toks sx)"
proof (cases "fst sx")
  case False
  then have st: "signed_toks sx = factor_toks (snd sx)" by (simp add: signed_toks_def)
  obtain k where k: "fuel = Suc k" "length (factor_toks (snd sx)) + 1 \<le> k" using fuel st by (cases fuel) auto
  have "(False, snd sx) = sx" using False by (metis prod.collapse)
  moreover obtain g s' t' where "parsePolyTerm ok (Suc k) False vars s t = parsePolyTerm ok k False (vars @ [g]) s' t'" "vinv cn f s'" "ext A s s'"
      "at_text t' (tok_text ws @ cs)" "fac_at cn f s' g (False, snd sx)"
    using x [unfolded reads_factor_def, rule_format, OF v t(1) [unfolded st] t(2) k(2), of False vars] by blast
  moreover have "fuel \<le> k + length (signed_toks sx)" using factor_toks_ne [of "snd sx"] st k(1) by (cases "factor_toks (snd sx)") auto
  ultimately show ?thesis unfolding k(1) by metis
next
  case True
  then have st: "signed_toks sx = ''-'' # factor_toks (snd sx)" by (simp add: signed_toks_def)
  obtain k where k: "fuel = Suc (Suc k)" "length (factor_toks (snd sx)) + 1 \<le> k" using fuel st by (cases fuel; cases "fuel - 1") auto
  let ?s = "s\<lparr>token := ''-''\<rparr>"
  have t': "at_text t (tok_text (''-'' # (factor_toks (snd sx) @ ws)) @ cs)" using t(1) st by simp
  obtain t1 where t1: "next_token s t = Ret ''-'' ?s t1" "at_text t1 (tok_text (factor_toks (snd sx) @ ws) @ cs)"
    using next_token_total [OF v t' _ t(2)] special_tokens by blast
  have "parsePolyTerm ok fuel False vars s t = parsePolyTerm ok (Suc k) True vars ?s t1"
    using at_text_hasNext [OF t(1)] t1(1) k(1) by (simp add: pbind_def)
  moreover have "(True, snd sx) = sx" using True by (metis prod.collapse)
  moreover obtain g s' t' where "parsePolyTerm ok (Suc k) True vars ?s t1 = parsePolyTerm ok k False (vars @ [g]) s' t'" "vinv cn f s'" "ext A ?s s'"
      "at_text t' (tok_text ws @ cs)" "fac_at cn f s' g (True, snd sx)"
    using x [unfolded reads_factor_def, rule_format, OF vinv_token [OF v] t1(2) t(2) k(2), of True vars] by blast
  moreover have "fuel \<le> k + length (signed_toks sx)" using factor_toks_ne [of "snd sx"] st k(1) by (cases "factor_toks (snd sx)") auto
  ultimately show ?thesis using ext_trans [OF ext_token] by metis
qed

lemma reads_term_rest:
  assumes "\<forall>sx \<in> set xs. reads_factor A cn ok (snd sx)" "end_tok e \<or> e = ''+''" "blank_start cs"
    "vinv cn f s" "at_text t (tok_text (concat (map (\<lambda>sx. ''*'' # signed_toks sx) xs) @ e # ws) @ cs)"
    "list_all2 (fac_at cn f s) vars ys" "vars \<noteq> []" "length (concat (map (\<lambda>sx. ''*'' # signed_toks sx) xs)) + 2 \<le> fuel"
  shows "ptot A cn f (parsePolyTerm ok fuel False vars s t) s (tok_text (e # ws) @ cs) (\<lambda>r s'. \<exists>g. r = Some g \<and> term_at cn f s' g (ys @ xs))"
  using assms
proof (induction xs arbitrary: s t vars ys fuel)
  case Nil
  obtain k where k: "fuel = Suc k" using Nil(8) by (cases fuel) auto
  let ?s = "s\<lparr>token := e\<rparr>"
  have e: "is_token e" using Nil(2) special_tokens by (auto simp: end_tok_def)
  have t: "at_text t (tok_text (e # ws) @ cs)" using Nil(5) by simp
  obtain t1 where t1: "next_token s t = Ret e ?s t1" "at_text (rewind t1) (tok_text (e # ws) @ cs)"
    using next_token_total [OF Nil(4) t e Nil(3)] by blast
  have "list_all2 (fac_at cn f ?s) vars ys" by (rule list_all2_mono [OF Nil(6)]) (rule fac_at_ext [OF vinv_pwf [OF Nil(4)] ext_token])
  from finishTerm_total [where A = A, OF vinv_token [OF Nil(4)] this Nil(7) t1(2)]
  have "ptot A cn f (finishTerm False vars ?s (rewind t1)) ?s (tok_text (e # ws) @ cs) (\<lambda>r s'. \<exists>g. r = Some g \<and> term_at cn f s' g ys)" .
  moreover have "parsePolyTerm ok fuel False vars s t = finishTerm False vars ?s (rewind t1)"
    using at_text_hasNext [OF t] t1(1) Nil(2,7) k by (auto simp: pbind_def prewind_def end_tok_def)
  ultimately show ?case using ext_trans [OF ext_token] by (auto simp: ptot_def)
next
  case (Cons x xs)
  obtain k where k: "fuel = Suc k" using Cons(9) by (cases fuel) auto
  let ?s = "s\<lparr>token := ''*''\<rparr>" let ?r = "concat (map (\<lambda>sx. ''*'' # signed_toks sx) xs) @ e # ws"
  have t: "at_text t (tok_text (''*'' # (signed_toks x @ ?r)) @ cs)" using Cons(6) by simp
  obtain t1 where t1: "next_token s t = Ret ''*'' ?s t1" "at_text t1 (tok_text (signed_toks x @ ?r) @ cs)"
    using next_token_total [OF Cons(5) t _ Cons(4)] special_tokens by blast
  have st: "parsePolyTerm ok fuel False vars s t = parsePolyTerm ok k False vars ?s t1"
    using at_text_hasNext [OF t] t1(1) Cons(8) k by (simp add: pbind_def negate_back_def pret_def)
  have lk: "length (signed_toks x) + 2 \<le> k" using Cons(9) k by simp
  obtain g s2 t2 k2 where s2: "parsePolyTerm ok k False vars ?s t1 = parsePolyTerm ok k2 False (vars @ [g]) s2 t2" "vinv cn f s2" "ext A ?s s2"
      "at_text t2 (tok_text ?r @ cs)" "fac_at cn f s2 g x" "k \<le> k2 + length (signed_toks x)"
    using reads_signed [where A = A, OF _ vinv_token [OF Cons(5)] t1(2) Cons(4) lk, of ok vars] Cons(2) by (metis list.set_intros(1))
  have es: "ext A s s2" using ext_trans [OF ext_token s2(3)] .
  have "list_all2 (fac_at cn f s2) vars ys" by (rule list_all2_mono [OF Cons(7)]) (rule fac_at_ext [OF vinv_pwf [OF Cons(5)] es])
  then have vs: "list_all2 (fac_at cn f s2) (vars @ [g]) (ys @ [x])" using s2(5) by (simp add: list_all2_appendI)
  have "ptot A cn f (parsePolyTerm ok k2 False (vars @ [g]) s2 t2) s2 (tok_text (e # ws) @ cs) (\<lambda>r s'. \<exists>g. r = Some g \<and> term_at cn f s' g ((ys @ [x]) @ xs))"
    by (rule Cons(1)) (use Cons(2-4,9) s2 vs k in auto)
  then show ?case using st s2(1) ext_trans [OF es] by (auto simp: ptot_def)
qed

lemma reads_term:
  assumes xs: "\<forall>sx \<in> set xs. reads_factor A cn ok (snd sx)" "xs \<noteq> []" and e: "end_tok e \<or> e = ''+''" and v: "vinv cn f s"
    and t: "at_text t (tok_text (term_toks xs @ e # ws) @ cs)" "blank_start cs" and fuel: "length (term_toks xs) + 2 \<le> fuel"
  shows "ptot A cn f (parsePolyTerm ok fuel False [] s t) s (tok_text (e # ws) @ cs) (\<lambda>r s'. \<exists>g. r = Some g \<and> term_at cn f s' g xs)"
proof -
  obtain x xs' where x: "xs = x # xs'" using xs(2) by (cases xs) auto
  let ?r = "concat (map (\<lambda>sx. ''*'' # signed_toks sx) xs')"
  have tt: "term_toks xs = signed_toks x @ ?r" by (simp add: term_toks_def sep_def x o_def)
  have t0: "at_text t (tok_text (signed_toks x @ (?r @ e # ws)) @ cs)" using t(1) tt by simp
  have l0: "length (signed_toks x) + 2 \<le> fuel" using fuel tt by simp
  have x0: "reads_factor A cn ok (snd x)" using xs(1) x by simp
  obtain g s2 t2 k2 where s2: "parsePolyTerm ok fuel False [] s t = parsePolyTerm ok k2 False ([] @ [g]) s2 t2" "vinv cn f s2" "ext A s s2"
      "at_text t2 (tok_text (?r @ e # ws) @ cs)" "fac_at cn f s2 g x" "fuel \<le> k2 + length (signed_toks x)"
    using reads_signed [where A = A, OF x0 v t0 t(2) l0, of "[]"] by blast
  have "ptot A cn f (parsePolyTerm ok k2 False [g] s2 t2) s2 (tok_text (e # ws) @ cs) (\<lambda>r s'. \<exists>g. r = Some g \<and> term_at cn f s' g ([x] @ xs'))"
    by (rule reads_term_rest [where A = A, OF _ e t(2) s2(2,4)]) (use xs(1) x s2(5,6) fuel tt in auto)
  then show ?thesis using s2(1,3) x ext_trans [OF s2(3)] by (auto simp: ptot_def)
qed

section \<open>Polynomials\<close>

text \<open>The first token of a term does not end a polynomial.\<close>

lemma term_toks_first:
  assumes "term_ok A ok xs"
  obtains w ws where "term_toks xs = w # ws" "is_token w" "w \<noteq> ''+''" "\<not> end_tok w"
proof -
  obtain x xs' where x: "xs = x # xs'" "factor_ok A ok (snd x)" using assms by (cases xs) (auto simp: term_ok_def)
  obtain w ws where w: "factor_toks (snd x) = w # ws" "is_token w" "w \<noteq> ''+''" "\<not> end_tok w"
    using x(2) prim_tok_special special_tokens by (cases "snd x") (auto simp: factor_toks_Paren end_tok_def)
  show ?thesis
  proof (cases "fst x")
    case True
    then show ?thesis using that [of "''-''"] special_tokens x(1) by (auto simp: term_toks_def sep_def signed_toks_def end_tok_def)
  next
    case False
    then show ?thesis using that [of w] w x(1) by (auto simp: term_toks_def sep_def signed_toks_def)
  qed
qed

text \<open>The rest of a polynomial after a term, with the terms read so far.\<close>

definition plus_toks :: "(bool \<times> factor) list list \<Rightarrow> string list" where
  "plus_toks ts = concat (map (\<lambda>t. ''+'' # term_toks t) ts)"

lemma reads_next_term:
  assumes xs: "\<forall>sx \<in> set xs. reads_factor A cn ok (snd sx)" "term_ok A ok xs" and e: "end_tok e \<or> e = ''+''" and en: "end_tok en" and v: "vinv cn f s"
    and t: "at_text t (tok_text (term_toks xs @ e # ws) @ cs)" "blank_start cs" and fuel: "length (term_toks xs) + 3 \<le> fuel"
  shows "\<exists>g s' t' k. parsePoly ok fuel en gs s t = parsePoly ok k en (gs @ [g]) s' t' \<and> fuel = Suc k \<and> vinv cn f s' \<and> ext A s s' \<and>
    at_text t' (tok_text (e # ws) @ cs) \<and> term_at cn f s' g xs"
proof -
  obtain k where k: "fuel = Suc k" "length (term_toks xs) + 2 \<le> k" using fuel by (cases fuel) auto
  obtain w us where w: "term_toks xs = w # us" "is_token w" "w \<noteq> ''+''" "\<not> end_tok w" by (rule term_toks_first [OF xs(2)])
  let ?s = "s\<lparr>token := w\<rparr>"
  have t0: "at_text t (tok_text (w # (us @ e # ws)) @ cs)" using t(1) w(1) by simp
  obtain t1 where t1: "next_token s t = Ret w ?s t1" "at_text (rewind t1) (tok_text (term_toks xs @ e # ws) @ cs)"
    using next_token_total [OF v t0 w(2) t(2)] w(1) by auto
  have ne: "xs \<noteq> []" using xs(2) by (simp add: term_ok_def)
  obtain g s2 t2 where s2: "parsePolyTerm ok k False [] ?s (rewind t1) = Ret (Some g) s2 t2" "vinv cn f s2" "ext A ?s s2" "at_text t2 (tok_text (e # ws) @ cs)"
      "term_at cn f s2 g xs"
    using reads_term [where A = A, OF xs(1) ne e vinv_token [OF v, of w] t1(2) t(2) k(2)] unfolding ptot_def by blast
  have "w \<noteq> en" using w(4) en by auto
  then have "parsePoly ok fuel en gs s t = parsePoly ok k en (gs @ [g]) s2 t2"
    using at_text_hasNext [OF t(1)] t1(1) w(3) s2(1) k(1) by (simp add: pbind_def prewind_def)
  then show ?thesis using s2 k(1) ext_trans [OF ext_token s2(3)] by blast
qed

lemma reads_poly_rest:
  assumes "\<forall>t \<in> set ts. \<forall>sx \<in> set t. reads_factor A cn ok (snd sx)" "list_all (term_ok A ok) ts" "end_tok en" "blank_start cs"
    "vinv cn f s" "at_text t (tok_text (plus_toks ts @ en # ws) @ cs)"
    "list_all2 (term_at cn f s) gs us" "gs \<noteq> []" "length (plus_toks ts) + 3 \<le> fuel"
  shows "ptot A cn f (parsePoly ok fuel en gs s t) s (tok_text ws @ cs) (\<lambda>r s'. \<exists>g. r = Some g \<and> poly_at cn f s' g (us @ ts))"
  using assms
proof (induction ts arbitrary: s t gs us fuel)
  case Nil
  obtain k where k: "fuel = Suc k" using Nil(9) by (cases fuel) auto
  let ?s = "s\<lparr>token := en\<rparr>"
  have e: "is_token en" "en \<noteq> ''+''" using Nil(3) special_tokens by (auto simp: end_tok_def)
  have t: "at_text t (tok_text (en # ws) @ cs)" using Nil(6) by (simp add: plus_toks_def)
  obtain t1 where t1: "next_token s t = Ret en ?s t1" "at_text t1 (tok_text ws @ cs)"
    using next_token_total [OF Nil(5) t e(1) Nil(4)] by blast
  have "list_all2 (term_at cn f ?s) gs us" by (rule list_all2_mono [OF Nil(7)]) (rule term_at_ext [OF vinv_pwf [OF Nil(5)] ext_token])
  from finishPoly_total [where A = A, OF vinv_token [OF Nil(5)] this Nil(8) t1(2)]
  have "ptot A cn f (finishPoly False gs ?s t1) ?s (tok_text ws @ cs) (\<lambda>r s'. \<exists>g. r = Some g \<and> poly_at cn f s' g us)" .
  moreover have "parsePoly ok fuel en gs s t = finishPoly False gs ?s t1"
    using at_text_hasNext [OF t] t1(1) e(2) k by (simp add: pbind_def)
  ultimately show ?case using ext_trans [OF ext_token] by (auto simp: ptot_def)
next
  case (Cons x ts)
  obtain k where k: "fuel = Suc k" using Cons(10) by (cases fuel) auto
  let ?s = "s\<lparr>token := ''+''\<rparr>"
  have px: "plus_toks (x # ts) = ''+'' # term_toks x @ plus_toks ts" by (simp add: plus_toks_def)
  obtain e ws' where e: "plus_toks ts @ en # ws = e # ws'" "end_tok e \<or> e = ''+''" using Cons(4) by (cases ts) (auto simp: plus_toks_def)
  have t: "at_text t (tok_text (''+'' # (term_toks x @ e # ws')) @ cs)" using Cons(7) px e(1) by simp
  obtain t1 where t1: "next_token s t = Ret ''+'' ?s t1" "at_text t1 (tok_text (term_toks x @ e # ws') @ cs)"
    using next_token_total [OF Cons(6) t _ Cons(5)] special_tokens by blast
  have st: "parsePoly ok fuel en gs s t = parsePoly ok k en gs ?s t1"
    using at_text_hasNext [OF t] t1(1) Cons(9) k by (simp add: pbind_def)
  have lk: "length (term_toks x) + 3 \<le> k" using Cons(10) k px by simp
  have x: "\<forall>sx \<in> set x. reads_factor A cn ok (snd sx)" "term_ok A ok x" using Cons(2,3) by simp_all
  obtain g s2 t2 k2 where s2: "parsePoly ok k en gs ?s t1 = parsePoly ok k2 en (gs @ [g]) s2 t2" "k = Suc k2" "vinv cn f s2" "ext A ?s s2"
      "at_text t2 (tok_text (e # ws') @ cs)" "term_at cn f s2 g x"
    using reads_next_term [where A = A, OF x e(2) Cons(4) vinv_token [OF Cons(6), of "''+''"] t1(2) Cons(5) lk, of gs] by blast
  have es: "ext A s s2" using ext_trans [OF ext_token s2(4)] .
  have "list_all2 (term_at cn f s2) gs us" by (rule list_all2_mono [OF Cons(8)]) (rule term_at_ext [OF vinv_pwf [OF Cons(6)] es])
  then have vs: "list_all2 (term_at cn f s2) (gs @ [g]) (us @ [x])" using s2(6) by (simp add: list_all2_appendI)
  have tx: "1 \<le> length (term_toks x)" by (rule term_toks_first [OF x(2)]) simp
  have "ptot A cn f (parsePoly ok k2 en (gs @ [g]) s2 t2) s2 (tok_text ws @ cs) (\<lambda>r s'. \<exists>g. r = Some g \<and> poly_at cn f s' g ((us @ [x]) @ ts))"
  proof (rule Cons(1))
    show "at_text t2 (tok_text (plus_toks ts @ en # ws) @ cs)" using s2(5) e(1) by simp
    show "length (plus_toks ts) + 3 \<le> k2" using Cons(10) k px s2(2) tx by simp
    show "\<forall>t \<in> set ts. \<forall>sx \<in> set t. reads_factor A cn ok (snd sx)" using Cons(2) by simp
    show "list_all (term_ok A ok) ts" using Cons(3) by simp
  qed (use Cons(4,5) s2(3) vs in simp_all)
  then show ?case using st s2(1) ext_trans [OF es] by (auto simp: ptot_def)
qed

lemma reads_poly:
  assumes fs: "\<forall>t \<in> set ts. \<forall>sx \<in> set t. reads_factor A cn ok (snd sx)" and ts: "poly_ok A ok ts" and en: "end_tok en" and v: "vinv cn f s"
    and t: "at_text t (tok_text (poly_toks ts @ en # ws) @ cs)" "blank_start cs" and fuel: "length (poly_toks ts) + 3 \<le> fuel"
  shows "ptot A cn f (parsePoly ok fuel en [] s t) s (tok_text ws @ cs) (\<lambda>r s'. \<exists>g. r = Some g \<and> poly_at cn f s' g ts)"
proof -
  obtain x ts' where x: "ts = x # ts'" "term_ok A ok x" "list_all (term_ok A ok) ts'" using ts by (cases ts) (auto simp: poly_ok_def)
  have pt: "poly_toks ts = term_toks x @ plus_toks ts'" by (simp add: poly_toks_def plus_toks_def sep_def x o_def)
  obtain e ws' where e: "plus_toks ts' @ en # ws = e # ws'" "end_tok e \<or> e = ''+''" using en by (cases ts') (auto simp: plus_toks_def)
  have t0: "at_text t (tok_text (term_toks x @ e # ws') @ cs)" using t(1) pt e(1) by simp
  have x0: "\<forall>sx \<in> set x. reads_factor A cn ok (snd sx)" and l0: "length (term_toks x) + 3 \<le> fuel" using fs x(1) fuel pt by simp_all
  have tx: "1 \<le> length (term_toks x)" by (rule term_toks_first [OF x(2)]) simp
  obtain g s2 t2 k where s2: "parsePoly ok fuel en [] s t = parsePoly ok k en ([] @ [g]) s2 t2" "fuel = Suc k" "vinv cn f s2" "ext A s s2"
      "at_text t2 (tok_text (e # ws') @ cs)" "term_at cn f s2 g x"
    using reads_next_term [where A = A, OF x0 x(2) e(2) en v t0 t(2) l0, of "[]"] by blast
  have "ptot A cn f (parsePoly ok k en [g] s2 t2) s2 (tok_text ws @ cs) (\<lambda>r s'. \<exists>g. r = Some g \<and> poly_at cn f s' g ([x] @ ts'))"
  proof (rule reads_poly_rest [where A = A, OF _ x(3) en t(2) s2(3)])
    show "at_text t2 (tok_text (plus_toks ts' @ en # ws) @ cs)" using s2(5) e(1) by simp
    show "length (plus_toks ts') + 3 \<le> k" using fuel pt s2(2) tx by simp
  qed (use fs x(1) s2(6) in simp_all)
  then show ?thesis using s2(1) x(1) ext_trans [OF s2(4)] by (auto simp: ptot_def)
qed

lemma reads_factor_all: "factor_ok A ok x \<Longrightarrow> reads_factor A cn ok x"
proof (induction x)
  case (Prim w)
  then have w: "prim_tok A ok w" by simp
  show ?case unfolding reads_factor_def by (intro allI impI, rule factor_Prim [OF _ w]) simp_all
next
  case (Paren ts)
  have ts: "poly_ok A ok ts" using Paren.prems by (simp add: factor_ok_Paren)
  have fs: "\<forall>t \<in> set ts. \<forall>sx \<in> set t. reads_factor A cn ok (snd sx)"
    using Paren.IH ts by (fastforce simp: poly_ok_def term_ok_def list_all_iff)
  show ?case unfolding reads_factor_def
  proof (intro allI impI)
    fix fuel neg vars f s t ws cs
    assume v: "vinv cn f s" and t: "at_text t (tok_text (factor_toks (Paren ts) @ ws) @ cs)" "blank_start cs"
      and fuel: "length (factor_toks (Paren ts)) + 1 \<le> fuel"
    let ?s = "s\<lparr>token := ''(''\<rparr>"
    have t0: "at_text t (tok_text (''('' # (poly_toks ts @ '')'' # ws)) @ cs)" using t(1) by (simp add: factor_toks_Paren)
    obtain t1 where t1: "next_token s t = Ret ''('' ?s t1" "at_text t1 (tok_text (poly_toks ts @ '')'' # ws) @ cs)"
      using next_token_total [OF v t0 _ t(2)] special_tokens by blast
    have l: "length (poly_toks ts) + 3 \<le> fuel" and en: "end_tok '')''" using fuel by (simp_all add: factor_toks_Paren end_tok_def)
    obtain g0 s2 t2 where s2: "parsePoly ok fuel '')'' [] ?s t1 = Ret (Some g0) s2 t2" "vinv cn f s2" "ext A ?s s2" "at_text t2 (tok_text ws @ cs)"
        "poly_at cn f s2 g0 ts"
      using reads_poly [where A = A, OF fs ts en vinv_token [OF v, of "''(''"] t1(2) t(2) l] unfolding ptot_def by blast
    have f2: "fac_at cn f s2 g0 (False, Paren ts)"
      using s2(5) by (simp add: fac_at_def poly_at_def signed_val'_def factor_val_Paren factor_names_Paren)
    obtain g s3 where s3: "negate_back neg (vars @ [g0]) s2 t2 = Ret (vars @ [g]) s3 t2" "vinv cn f s3" "ext A s2 s3" "fac_at cn f s3 g (neg, Paren ts)"
      using negate_back_total [where A = A, OF s2(2) f2] by blast
    have "parsePolyTerm ok (Suc fuel) neg vars s t = parsePolyTerm ok fuel False (vars @ [g]) s3 t2"
      using at_text_hasNext [OF t(1)] t1(1) s2(1) s3(1) by (simp add: pbind_def)
    then show "\<exists>g s' t'. parsePolyTerm ok (Suc fuel) neg vars s t = parsePolyTerm ok fuel False (vars @ [g]) s' t' \<and> vinv cn f s' \<and> ext A s s' \<and>
        at_text t' (tok_text ws @ cs) \<and> fac_at cn f s' g (neg, Paren ts)"
      using s3(2,4) s2(4) ext_trans [OF ext_trans [OF ext_token s2(3)] s3(3)] by blast
  qed
qed

text \<open>The parser reads a polynomial to its end and returns a gate with its value.\<close>

lemma parsePoly_total:
  assumes "poly_ok A ok ts" "end_tok en" "vinv cn f s" "at_text t (tok_text (poly_toks ts @ en # ws) @ cs)" "blank_start cs"
    "length (poly_toks ts) + 3 \<le> fuel"
  shows "ptot A cn f (parsePoly ok fuel en [] s t) s (tok_text ws @ cs) (\<lambda>r s'. \<exists>g. r = Some g \<and> poly_at cn f s' g ts)"
  by (rule reads_poly [where A = A, OF _ assms])
    (use assms(1) in \<open>auto simp: poly_ok_def term_ok_def list_all_iff intro!: reads_factor_all\<close>)

end

end
