(* ===== verification/Pws_Program.thy ===== *)
theory Pws_Program
  imports Pws_Poly_Correct
begin

text \<open>
  Files of polynomial constraints: a program that gives every variable one polynomial over inputs and over variables it has
  given before. The parser reads its text to the end, and the gates it binds to the variables have the values of a run of the program.
\<close>

section \<open>Programs\<close>

type_synonym stmt = "string \<times> (bool \<times> factor) list list"

definition stmt_toks :: "stmt \<Rightarrow> string list" where
  "stmt_toks st = ''P'' # fst st # ''='' # poly_toks (snd st) @ [''E'']"

definition prog_toks :: "stmt list \<Rightarrow> string list" where
  "prog_toks prog = concat (map stmt_toks prog)"

definition poly_reads :: "(bool \<times> factor) list list \<Rightarrow> string list" where
  "poly_reads ts = filter (\<lambda>w. \<not> num_tok w) (poly_names ts)"

text \<open>A name is an input or one of the variables set before, and a variable is set once and not read before.\<close>

fun prog_ok :: "(string \<Rightarrow> bool) \<Rightarrow> Primitive list \<Rightarrow> Primitive list \<Rightarrow> stmt list \<Rightarrow> bool" where
  "prog_ok ok set' used [] \<longleftrightarrow> True"
| "prog_ok ok set' used ((y, ts) # prog) \<longleftrightarrow>
     var_tok y \<and> poly_ok (Allowed UNIV UNIV) ok ts \<and>
     list_all (\<lambda>w. var_of w \<in> set set' \<or> var_type w = Some INPUT) (poly_reads ts) \<and>
     var_of y \<notin> set used \<and> list_all (\<lambda>w. var_of w \<noteq> var_of y) (poly_reads ts) \<and>
     prog_ok ok (var_of y # set') (var_of y # map var_of (poly_reads ts) @ used) prog"

text \<open>A run of a program from the values of the inputs.\<close>

definition name_env :: "(string \<Rightarrow> 'a) \<Rightarrow> (Primitive \<Rightarrow> 'a) \<Rightarrow> string \<Rightarrow> 'a" where
  "name_env cn e w = (if num_tok w then cn w else e (var_of w))"

fun prog_run :: "(string \<Rightarrow> 'a::comm_ring_1) \<Rightarrow> stmt list \<Rightarrow> (Primitive \<Rightarrow> 'a) \<Rightarrow> Primitive \<Rightarrow> 'a" where
  "prog_run cn [] e = e"
| "prog_run cn ((y, ts) # prog) e = prog_run cn prog (e(var_of y := poly_val (name_env cn e) ts))"

lemma poly_val_cong: "(\<And>w. w \<in> set (poly_names ts) \<Longrightarrow> env w = env' w) \<Longrightarrow> poly_val env ts = poly_val env' ts"
  using factor_val_cong [of "Paren ts" env env'] by (simp add: factor_val_Paren factor_names_Paren)

text \<open>An environment in which every assignment holds is the result of the run.\<close>

definition assigned :: "stmt list \<Rightarrow> Primitive set" where
  "assigned prog = (\<lambda>st. var_of (fst st)) ` set prog"

lemma prog_ok_used: "prog_ok ok set' used prog \<Longrightarrow> p \<in> set used \<Longrightarrow> p \<notin> assigned prog"
  by (induction ok set' used prog rule: prog_ok.induct) (auto simp: assigned_def)

lemma prog_run_fixpoint:
  assumes "prog_ok ok set' used prog" "\<And>p. p \<notin> assigned prog \<Longrightarrow> e0 p = e p"
    and "\<And>y ts. (y, ts) \<in> set prog \<Longrightarrow> e (var_of y) = poly_val (name_env cn e) ts"
  shows "prog_run cn prog e0 = e"
  using assms
proof (induction ok set' used prog arbitrary: e0 rule: prog_ok.induct)
  case (1 ok set' used)
  then show ?case by (auto simp: assigned_def)
next
  case (2 ok set' used y ts prog)
  have "var_of w \<notin> assigned ((y, ts) # prog)" if "w \<in> set (poly_reads ts)" for w
    using 2(2) prog_ok_used [of ok "var_of y # set'" "var_of y # map var_of (poly_reads ts) @ used" prog "var_of w"] that
    by (auto simp: assigned_def list_all_iff)
  then have "e0 (var_of w) = e (var_of w)" if "w \<in> set (poly_names ts)" "\<not> num_tok w" for w using 2(3) that by (simp add: poly_reads_def)
  then have "poly_val (name_env cn e0) ts = poly_val (name_env cn e) ts" by (intro poly_val_cong) (simp add: name_env_def)
  also have "\<dots> = e (var_of y)" using 2(4) [of y ts] by simp
  finally have "e0(var_of y := poly_val (name_env cn e0) ts) = e0(var_of y := e (var_of y))" by simp
  moreover have "prog_run cn prog (e0(var_of y := e (var_of y))) = e"
    by (rule 2(1)) (use 2(2-4) in \<open>auto simp: assigned_def\<close>)
  ultimately show ?case by simp
qed

section \<open>What is allowed to a constraint\<close>

definition allow_reads :: "(bool \<times> factor) list list \<Rightarrow> allowed" where
  "allow_reads ts = Allowed ((\<lambda>w. (var_of w, the (var_type w))) ` set (poly_reads ts)) ((\<lambda>w. (var_of w, 0)) ` set (poly_reads ts))"

lemma factor_ok_mono:
  "factor_ok (Allowed UNIV UNIV) ok x \<Longrightarrow> (\<And>w. w \<in> set (factor_names x) \<Longrightarrow> \<not> num_tok w \<Longrightarrow> (var_of w, the (var_type w)) \<in> a_types A \<and> (var_of w, 0) \<in> a_layers A) \<Longrightarrow>
   factor_ok A ok x"
proof (induction x)
  case (Prim w)
  then show ?case using var_tok_hd(1) by (auto simp: prim_tok_def)
next
  case (Paren ts)
  have "factor_ok A ok (snd sx)" if "t \<in> set ts" "sx \<in> set t" for t sx
  proof (rule Paren.IH [OF that])
    show "snd sx \<in> Basic_BNFs.snds sx" by (simp add: snds.simps prod.collapse)
    show "factor_ok (Allowed UNIV UNIV) ok (snd sx)" using Paren.prems(1) that by (auto simp: factor_ok_Paren poly_ok_def term_ok_def list_all_iff)
  qed (use Paren.prems(2) that in \<open>auto simp: factor_names_Paren poly_names_def term_names_def\<close>)
  then show ?case using Paren.prems(1) by (auto simp: factor_ok_Paren poly_ok_def term_ok_def list_all_iff)
qed

lemma poly_ok_reads: "poly_ok (Allowed UNIV UNIV) ok ts \<Longrightarrow> poly_ok (allow_reads ts) ok ts"
  using factor_ok_mono [of ok "Paren ts" "allow_reads ts"]
  by (auto simp: factor_ok_Paren factor_names_Paren allow_reads_def poly_reads_def)

lemma ext_mono: "ext A s s' \<Longrightarrow> a_types A \<subseteq> a_types B \<Longrightarrow> a_layers A \<subseteq> a_layers B \<Longrightarrow> ext B s s'"
  unfolding ext_def by blast

definition allow_stmt :: "stmt \<Rightarrow> allowed" where
  "allow_stmt st = Allowed (insert (var_of (fst st), the (var_type (fst st))) (a_types (allow_reads (snd st))))
     ({(p, l). p = var_of (fst st)} \<union> a_layers (allow_reads (snd st)))"

lemma poly_at_ext: "pwf s \<Longrightarrow> ext A s s' \<Longrightarrow> poly_at cn f s g ts \<Longrightarrow> poly_at cn f s' g ts"
  using poly_val_ext has_val_ext all_live_ext unfolding poly_at_def by metis

text \<open>The variable is bound to a gate with the value of its polynomial.\<close>

definition stmt_at :: "(string \<Rightarrow> 'a) \<Rightarrow> (nat \<Rightarrow> 'a::comm_ring_1) \<Rightarrow> PWSCircuitParser \<Rightarrow> stmt \<Rightarrow> bool" where
  "stmt_at cn f s st \<longleftrightarrow> live s (var_of (fst st)) \<and> ptype s (var_of (fst st)) = var_type (fst st) \<and>
     poly_at cn f s (first_gate s (var_of (fst st))) (snd st)"

lemma ptype_keep: "ext A s s' \<Longrightarrow> ptype s p = Some ty \<Longrightarrow> ptype s' p = Some ty"
  using ptype_ext [of A s s' p] ptype_None_ext [of A s s' p] by (cases "ptype s' p") auto

lemma stmt_at_ext:
  assumes "pwf s" "ext A s s'" "stmt_at cn f s st"
  shows "stmt_at cn f s' st"
proof -
  obtain ty where ty: "ptype s (var_of (fst st)) = Some ty"
    using assms(3) by (cases "var_of (fst st)") (auto simp: stmt_at_def live_def var_of_def split: if_splits)
  then have "ptype s' (var_of (fst st)) = var_type (fst st)" using ptype_keep [OF assms(2) ty] ty assms(3) by (simp add: stmt_at_def)
  then show ?thesis using live_ext [OF assms(2)] poly_at_ext [OF assms(1,2), where cn = cn and f = f] assms(3) by (simp add: stmt_at_def)
qed

section \<open>Constraints\<close>

context numeral_reader
begin

lemma stmt_total:
  assumes v: "vinv cn f s" and y: "var_tok y" and ts: "poly_ok (Allowed UNIV UNIV) ok ts"
    and fresh: "ptype s (var_of y) = None" "list_all (\<lambda>w. var_of w \<noteq> var_of y) (poly_reads ts)"
    and t: "at_text t (tok_text (y # ''='' # poly_toks ts @ ''E'' # ws) @ cs)" "blank_start cs" and fuel: "length (poly_toks ts) + 3 \<le> fuel"
  shows "ptot (allow_stmt (y, ts)) cn f (parsePolyConstraint ok fuel s t) s (tok_text ws @ cs) (\<lambda>_ s'. stmt_at cn f s' (y, ts))"
proof -
  let ?y = "var_of y" and ?s = "s\<lparr>token := y\<rparr>" and ?A = "Allowed {(var_of y, the (var_type y))} {}"
  have ty: "is_token y" "\<not> num_tok y" using y var_tok_hd by (auto simp: var_tok_def)
  have iv: "isVariable ?y" by (simp add: var_of_def isVariable_def)
  have eq: "is_token ''=''" by (simp add: is_token_def isspace_def)
  obtain t1 where t1: "next_token s t = Ret y ?s t1" "at_text t1 (tok_text (''='' # poly_toks ts @ ''E'' # ws) @ cs)"
    using next_token_total [OF v t(1) ty(1) t(2)] by blast
  have A0: "(?y, the (var_type y)) \<in> a_types ?A" by simp
  obtain s2 t2 q where s2: "parseVar y ?s t1 = Ret (Some ?y) s2 t2" "vinv cn f s2" "ext ?A ?s s2"
      "at_text t2 (tok_text (''='' # poly_toks ts @ ''E'' # ws) @ cs)" "getCircuitPrimitive s2 ?y = Some q" "ptype ?s ?y = None \<longrightarrow> ptype s2 ?y = var_type y"
    using parseVar_total [OF vinv_token [OF v, of y] y A0 t1(2)] by (auto simp: ptot_def)
  have prim: "parsePrimitive ok s t = Ret (Some ?y) s2 t2" using t1(1) s2(1) ty(2) by (auto simp: parsePrimitive_def pbind_def num_tok_def)
  have p0: "ptype ?s ?y = None" using fresh(1) ptype_cong [of ?s s] by simp
  have e2: "ext ?A s s2" using ext_trans [OF ext_token s2(3)] .
  have nl: "\<not> live s ?y" using fresh(1) iv by (auto simp: ptype_None live_def)
  then have n2: "\<not> live s2 ?y" using e2 iv by (auto simp: ext_def)
  obtain t3 where t3: "next_string [] t2 = (''='', t3)" "at_text t3 (tok_text (poly_toks ts @ ''E'' # ws) @ cs)"
    using next_string_token [OF s2(4) eq t(2)] by blast
  obtain g s3 t4 where s3: "parsePoly ok fuel ''E'' [] s2 t3 = Ret (Some g) s3 t4" "vinv cn f s3" "ext (allow_reads ts) s2 s3"
      "at_text t4 (tok_text ws @ cs)" "poly_at cn f s3 g ts"
    using parsePoly_total [OF poly_ok_reads [OF ts] _ s2(2) t3(2) t(2) fuel] unfolding ptot_def end_tok_def by blast
  have n3: "\<not> live s3 ?y" using n2 s3(3) iv fresh(2) by (fastforce simp: ext_def allow_reads_def list_all_iff)
  obtain q3 where q3: "getCircuitPrimitive s3 ?y = Some q3" "\<not> isBound q3" using s2(5) s3(3) n3 unfolding ext_def live_def by blast
  have gp: "pos_in s3 g" using s3(5) by (simp add: poly_at_def has_val_def)
  let ?B = "Allowed {} {(p, l). p = ?y}"
  obtain s4 where s4: "bindVariable ?y g s3 = Some s4" "vinv cn f s4" "ext ?B s3 s4" "live s4 ?y" "first_gate s4 ?y = g"
    using bindVariable_fresh [where A = ?B, OF s3(2) q3 gp] iv by auto
  have "parsePolyConstraint ok fuel s t = Ret () s4 t4"
    using prim t3(1) s3(1) s4(1) iv
    by (simp add: parsePolyConstraint_def valid_return_def assert_return_def assert_token_def pbind_def pbuild_def)
  moreover have "ext (allow_stmt (y, ts)) s s4"
    by (rule ext_trans [OF ext_trans [OF ext_mono [OF e2] ext_mono [OF s3(3)]] ext_mono [OF s4(3)]])
      (auto simp: allow_stmt_def)
  moreover have "ptype s4 ?y = var_type y"
    using s2(6) p0 y ptype_keep [OF s3(3)] ptype_keep [OF s4(3)] by (auto simp: var_tok_def)
  ultimately show ?thesis
    using s4 s3(4) poly_at_ext [OF vinv_pwf [OF s3(2)] s4(3) s3(5)] by (auto simp: ptot_def stmt_at_def)
qed

end

section \<open>The end of a file\<close>

text \<open>At the end every constraint is given up, whatever the token that is left.\<close>

lemma at_end:
  assumes "is_eof t" "is_fail t"
  shows "tellg t = t\<lparr>lastPos := None\<rparr>" "\<not> hasNext t" "next_string v t = (v, t\<lparr>lastPos := None\<rparr>)" "next_token s t = Ret (token s) s (t\<lparr>lastPos := None\<rparr>)"
  using assms by (simp_all add: tellg_def is_good_def hasNext_def next_string_def next_token_def)

lemma parse_one_end:
  assumes "is_eof t" "is_fail t"
  shows "\<exists>t'. parse_one rtl ok set_str inv' p fuel (token s) s t = Ret () s t' \<and> \<not> hasNext t'"
proof -
  note E = at_end [OF assms]
  have a: "assert_return want k s t = Ret () s (t\<lparr>lastPos := None\<rparr>)" if "want \<noteq> []" for want k
    using that by (simp add: assert_return_def pbind_def assert_token_def E pret_def)
  have p: "prim_after ok want k s t = Ret () s (t\<lparr>lastPos := None\<rparr>)" if "want \<noteq> []" for want k
    using a [OF that] by (simp add: prim_after_def)
  have h: "\<not> hasNext (t\<lparr>lastPos := None\<rparr>)" using assms by (simp add: hasNext_def)
  have n: "parsePrimitive ok s t = Ret None s (t\<lparr>lastPos := None\<rparr>)" if "token s = ''P'' \<or> token s = ''/''"
    using that by (auto simp: parsePrimitive_def pbind_def E is_digit_def parseVar_def pret_def)
  have i: "\<not> hasNext (ignoreLine t)" using assms by (simp add: hasNext_def ignoreLine_def Let_def E is_good_def)
  show ?thesis
    using p n h i E(2) by (auto simp: parse_one_def parsePolyConstraint_def parseLessThanInt_def parseLessThanFloat_def parseNotEqual_def parseDivide_def
        valid_return_def pbind_def pret_def)
qed

lemma parse_loop_end:
  assumes "at_text t cs" "list_all isspace cs" "2 \<le> fuel"
  shows "\<exists>t'. parse_loop rtl ok set_str inv' p fuel s t = Ret () s t'"
proof -
  obtain k where k: "fuel = Suc (Suc k)" using assms(3) by (metis add_2_eq_Suc le_Suc_ex)
  have d: "dropWhile isspace cs = []" using assms(2) by (simp add: list_all_iff)
  obtain t1 where t1: "next_token s t = Ret (token s) s t1" "is_eof t1" "is_fail t1"
    using assms(1) d by (simp add: next_token_def next_string_def tellg_def at_text_def is_good_def hasNext_def sentry_def)
  obtain t2 where t2: "parse_one rtl ok set_str inv' p (Suc k) (token s) s t1 = Ret () s t2" "\<not> hasNext t2"
    using parse_one_end [OF t1(2,3)] by blast
  have "parse_loop rtl ok set_str inv' p fuel s t = Ret () s t2"
    using at_text_hasNext [OF assms(1)] t1(1) t2 k by (simp add: pbind_def)
  then show ?thesis by blast
qed

section \<open>Files\<close>

text \<open>The variables that exist: those that have been used, of which those that have not been set are inputs.\<close>

definition known :: "Primitive list \<Rightarrow> Primitive list \<Rightarrow> PWSCircuitParser \<Rightarrow> bool" where
  "known set' used s \<longleftrightarrow> (\<forall>p ty. ptype s p = Some ty \<longrightarrow> p \<in> set used \<and> (p \<in> set set' \<or> ty = INPUT))"

definition allow_prog :: "stmt list \<Rightarrow> allowed" where
  "allow_prog prog = Allowed UNIV {(p, l). p \<in> assigned prog \<or> l = 0}"

lemma known_stmt:
  assumes "known set' used s" "ext (allow_stmt (y, ts)) s s'" "list_all (\<lambda>w. var_of w \<in> set set' \<or> var_type w = Some INPUT) (poly_reads ts)"
  shows "known (var_of y # set') (var_of y # map var_of (poly_reads ts) @ used) s'"
  unfolding known_def
proof (intro allI impI)
  fix p ty assume "ptype s' p = Some ty"
  from ptype_ext [OF assms(2) this] consider "ptype s p = Some ty" | "p = var_of y" | w where "w \<in> set (poly_reads ts)" "p = var_of w" "ty = the (var_type w)"
    by (auto simp: allow_stmt_def allow_reads_def)
  then show "p \<in> set (var_of y # map var_of (poly_reads ts) @ used) \<and> (p \<in> set (var_of y # set') \<or> ty = INPUT)"
  proof cases
    case 1
    then show ?thesis using assms(1) by (auto simp: known_def)
  next
    case 3
    then have "var_of w \<in> set set' \<or> var_type w = Some INPUT" using assms(3) by (simp add: list_all_iff)
    then show ?thesis using 3 by auto
  qed simp
qed

context numeral_reader
begin

lemma prog_total:
  assumes "prog_ok ok set' used prog" "vinv cn f s" "known set' used s" "at_text t (tok_text (prog_toks prog) @ cs)" "blank_start cs"
    "list_all isspace cs" "length (prog_toks prog) + 2 \<le> fuel"
  shows "\<exists>s' t'. parse_loop rtl ok set_str inv' p fuel s t = Ret () s' t' \<and> vinv cn f s' \<and> ext (allow_prog prog) s s' \<and>
    list_all (stmt_at cn f s') prog \<and> (\<forall>p ty. ptype s' p = Some ty \<longrightarrow> p \<in> set set' \<or> p \<in> assigned prog \<or> ty = INPUT)"
  using assms
proof (induction ok set' used prog arbitrary: s t fuel rule: prog_ok.induct)
  case (1 ok set' used)
  have t: "at_text t cs" "2 \<le> fuel" using 1(4,7) by (simp_all add: prog_toks_def tok_text_def)
  show ?case using parse_loop_end [OF t(1) 1(6) t(2), of rtl ok set_str inv' p s] 1(2,3) ext_refl unfolding known_def by fastforce
next
  case (2 ok set' used y ts prog)
  let ?s = "s\<lparr>token := ''P''\<rparr>" let ?r = "prog_toks prog"
  have pt: "prog_toks ((y, ts) # prog) = ''P'' # y # ''='' # poly_toks ts @ ''E'' # ?r" by (simp add: prog_toks_def stmt_toks_def)
  have st: "var_tok y" "poly_ok (Allowed UNIV UNIV) ok ts" "list_all (\<lambda>w. var_of w \<in> set set' \<or> var_type w = Some INPUT) (poly_reads ts)"
      "var_of y \<notin> set used" "list_all (\<lambda>w. var_of w \<noteq> var_of y) (poly_reads ts)" using 2(2) by simp_all
  have ok': "prog_ok ok (var_of y # set') (var_of y # map var_of (poly_reads ts) @ used) prog" using 2(2) by simp
  obtain k where k: "fuel = Suc k" using 2(8) by (cases fuel) auto
  have t: "at_text t (tok_text (''P'' # (y # ''='' # poly_toks ts @ ''E'' # ?r)) @ cs)" using 2(5) pt by simp
  have w: "is_token ''P''" by (simp add: is_token_def isspace_def)
  obtain t1 where t1: "next_token s t = Ret ''P'' ?s t1" "at_text t1 (tok_text (y # ''='' # poly_toks ts @ ''E'' # ?r) @ cs)"
    using next_token_total [OF 2(3) t w 2(6)] by blast
  have "ptype s (var_of y) = None" using 2(4) st(4) unfolding known_def by (cases "ptype s (var_of y)") auto
  then have fr: "ptype ?s (var_of y) = None" using ptype_cong [of ?s s] by simp
  have lk: "length (poly_toks ts) + 3 \<le> k" "length ?r + 2 \<le> k" using 2(8) k pt by simp_all
  obtain s2 t2 where s2: "parsePolyConstraint ok k ?s t1 = Ret () s2 t2" "vinv cn f s2" "ext (allow_stmt (y, ts)) ?s s2" "at_text t2 (tok_text ?r @ cs)"
      "stmt_at cn f s2 (y, ts)"
    using stmt_total [OF vinv_token [OF 2(3), of "''P''"] st(1,2) fr st(5) t1(2) 2(6) lk(1)] unfolding ptot_def by auto
  have e2: "ext (allow_stmt (y, ts)) s s2" using ext_trans [OF ext_token s2(3)] .
  have kn: "known (var_of y # set') (var_of y # map var_of (poly_reads ts) @ used) s2" by (rule known_stmt [OF 2(4) e2 st(3)])
  obtain s3 t3 where s3: "parse_loop rtl ok set_str inv' p k s2 t2 = Ret () s3 t3" "vinv cn f s3" "ext (allow_prog prog) s2 s3" "list_all (stmt_at cn f s3) prog"
      "\<forall>p ty. ptype s3 p = Some ty \<longrightarrow> p \<in> set (var_of y # set') \<or> p \<in> assigned prog \<or> ty = INPUT"
    using 2(1) [OF ok' s2(2) kn s2(4) 2(6,7) lk(2)] by blast
  have "parse_loop rtl ok set_str inv' p fuel s t = Ret () s3 t3"
    using at_text_hasNext [OF t] t1(1) s2(1) s3(1) k by (simp add: pbind_def parse_one_def)
  moreover have "ext (allow_prog ((y, ts) # prog)) s s3"
    by (rule ext_trans [OF ext_mono [OF e2] ext_mono [OF s3(3)]]) (auto simp: allow_prog_def allow_stmt_def allow_reads_def assigned_def)
  moreover have "stmt_at cn f s3 (y, ts)" by (rule stmt_at_ext [OF vinv_pwf [OF s2(2)] s3(3) s2(5)])
  ultimately show ?case using s3(2,4,5) by (auto simp: assigned_def)
qed

end

end
