(* ===== verification/Pws_Keep_Constraints.thy ===== *)
theory Pws_Keep_Constraints
  imports Pws_Keep
begin

text \<open>
  The gates of comparisons, inequality tests and divisions, and the output layer, keep the invariant of \<open>Pws_Wf\<close>, as long as
  the names that are bound are names of variables.
\<close>

section \<open>Rules\<close>

lemma pkeep_bind2:
  assumes "pkeep m s (\<lambda>(a, b) s'. Q a b s')" "\<And>a b s'. pwf s' \<Longrightarrow> pstep s s' \<Longrightarrow> Q a b s' \<Longrightarrow> pkeep (f a b s') s' R"
  shows "pkeep (Option.bind m (\<lambda>((a, b), s). f a b s)) s R"
  unfolding case_prod_unfold
  by (rule pkeep_bind [OF assms(1), unfolded case_prod_unfold]) (use assms(2) in \<open>simp add: case_prod_unfold\<close>)

lemma pkeep_let_state:
  assumes "pstep s s1" "pwf s1 \<Longrightarrow> pstep s s1 \<Longrightarrow> pkeep (f s1) s1 R"
  shows "pkeep (let s = s1 in f s) s R"
  using assms unfolding pkeep_def Let_def by (blast intro: pstep_trans dest: pstep_pwf)

lemma pstep_all: "pstep s s' \<Longrightarrow> list_all (pos_in s) gs \<Longrightarrow> list_all (pos_in s') gs"
  by (auto simp: list_all_iff intro: pstep_pos)

definition flags_in :: "PWSCircuitParser \<Rightarrow> GatePosition list \<Rightarrow> bool" where
  "flags_in s ms \<longleftrightarrow> list_all (pos_in s) ms \<and> length ms = 3"

lemma flags_in_nth: "flags_in s ms \<Longrightarrow> i < 3 \<Longrightarrow> pos_in s (ms ! i)"
  by (simp add: flags_in_def list_all_length)

lemma flags_in_step: "pstep s s' \<Longrightarrow> flags_in s ms \<Longrightarrow> flags_in s' ms"
  by (auto simp: flags_in_def dest: pstep_all)

lemma pkeep_makeGate_pos:
  assumes "pwf s" "op \<noteq> OpCONSTANT" "pos_in s a" "pos_in s b"
  shows "pkeep (makeGate op a b s) s (\<lambda>g s'. pos_in s' g)"
  by (rule pkeep_weaken [OF pkeep_makeGate [OF assms]]) simp

lemma pkeep_getGate_pos: "pwf s \<Longrightarrow> pkeep (getGate p layer s) s (\<lambda>g s'. pos_in s' g)"
  by (rule pkeep_weaken [OF pkeep_getGate]) auto

lemma pkeep_reduce_all:
  assumes "pwf s" "op \<noteq> OpCONSTANT" "list_all (pos_in s) gs"
  shows "pkeep (reduce op gs s) s (\<lambda>g s'. pos_in s' g)"
  by (rule pkeep_reduce) (use assms in \<open>auto simp: list_all_iff\<close>)

lemma all_pos_rules: "list_all P []" "P x \<Longrightarrow> list_all P xs \<Longrightarrow> list_all P (x # xs)"
    "list_all P xs \<Longrightarrow> list_all P ys \<Longrightarrow> list_all P (xs @ ys)"
  by simp_all

lemma op_neq: "OpADD \<noteq> OpCONSTANT" "OpMUL \<noteq> OpCONSTANT" "OpDIV_INT \<noteq> OpCONSTANT"
  by simp_all

text \<open>What holds of a state holds after a step.\<close>

lemmas step_elims = pstep_pos pstep_all flags_in_step guard_wf_step
lemmas keep_facts = all_pos_rules op_neq TrueI conjI

lemmas gate_binds = pkeep_bind [OF pkeep_getGate_pos] pkeep_bind [OF pkeep_makeGate_pos] pkeep_bind [OF pkeep_makeZeroOrOtherGate]
  pkeep_bind [OF pkeep_reduce_all] ukeep_bind [OF ukeep_makeMagic] ukeep_bind [OF ukeep_bindVariable] pkeep_let [OF addConstant_step]
  pkeep_let [OF addVariable_step] pkeep_let_state [OF pstep_bindOutputConstant_int]

section \<open>Shared steps\<close>

lemma pkeep_gates_of:
  assumes "pwf s"
  shows "pkeep (gates_of rtl p1 p2 s) s (\<lambda>(g1, g2) s'. pos_in s' g1 \<and> pos_in s' g2)"
  unfolding gates_of_def by (cases rtl) (simp_all, (intro gate_binds pkeep_Some, use assms in \<open>auto dest: pstep_pos\<close>)+)

lemma pkeep_makeSub_of:
  assumes "pwf s"
  shows "pkeep (makeSub_of rtl p1 p2 s) s (\<lambda>g s'. pos_in s' g)"
  unfolding makeSub_of_def by (intro pkeep_bind2 [OF pkeep_gates_of] pkeep_makeSubGate) (use assms in auto)

lemma pkeep_bit_gates:
  assumes "pwf s"
  shows "pkeep (bit_gates n k num s) s (\<lambda>(gs, _) s'. list_all (pos_in s') gs)"
  using assms
proof (induction k arbitrary: n num s)
  case (Suc k)
  show ?case unfolding bit_gates.simps
    by (intro gate_binds pkeep_bind2 [OF Suc.IH] pkeep_Some) (use Suc.prems in \<open>auto dest: pstep_pos\<close>)
qed (simp add: pkeep_def)

lemma pkeep_difference_gates:
  assumes "pwf s"
  shows "pkeep (difference_gates n k s) s (\<lambda>(gs, g) s'. list_all (pos_in s') gs \<and> pos_in s' g)"
  unfolding difference_gates_def
  by (intro pkeep_bind2 [OF pkeep_bit_gates] gate_binds pkeep_Some) (use assms in \<open>auto dest: pstep_all\<close>)

lemma pkeep_flag_gates:
  assumes "pwf s"
  shows "pkeep (flag_gates mlt meq mgt s) s (\<lambda>ms s'. flags_in s' ms)"
  unfolding flag_gates_def
  by (intro gate_binds pkeep_Some pstep_bindOutputConstant_int)
    (use assms in \<open>auto simp: flags_in_def bindOutputConstant_int_def dest: pstep_pos\<close>)

lemma pkeep_compare_gates:
  assumes "pwf s" "flags_in s ms" "pos_in s d" "pos_in s a" "pos_in s b"
  shows "pkeep (compare_gates ms d a b s) s (\<lambda>_ _. True)"
proof -
  have m: "pos_in s (ms ! 0)" "pos_in s (ms ! 1)" "pos_in s (ms ! 2)" using assms(2) by (auto intro: flags_in_nth)
  show ?thesis unfolding compare_gates_def
    by (insert assms m, intro gate_binds pkeep_Some pstep_bindOutputConstant_int)
      ((elim conjE)?; (assumption | rule keep_facts | erule step_elims)+)+
qed

section \<open>Constraints\<close>

lemma pstep_count: "pwf s \<Longrightarrow> pstep s (count_cmp s)" "pwf s \<Longrightarrow> pstep s (count_div s)"
  by (simp_all add: count_cmp_def count_div_def pstep_opCount)

lemma pstep_magic_cmp:
  assumes "pwf s" "guard_wf (circuitDesc s) guard" "list_all (pos_in s) (op_positions op)"
  shows "pstep s (count_cmp (addMagicOp op guard s))"
  using pstep_addMagicOp [OF assms] pstep_count(1) by (blast intro: pstep_trans dest: pstep_pwf)

lemma flags_in_all: "flags_in s ms \<Longrightarrow> list_all (pos_in s) ms"
  by (simp add: flags_in_def)

lemma pkeep_lessThanInt_gates:
  assumes "pwf s" "isVariable y" "guard_wf (circuitDesc s) guard"
  shows "pkeep (lessThanInt_gates rtl guard n0 nVars mlt meq mgt x1 x2 y s) s (\<lambda>_ _. True)"
proof -
  have fin: "pstep s' (count_cmp (addMagicOp (LessThanIntOperation ms nis g1 g2) guard s'))"
    if "pwf s'" "guard_wf (circuitDesc s') guard" "flags_in s' ms" "list_all (pos_in s') nis" "pos_in s' g1" "pos_in s' g2" for s' ms nis g1 g2
    by (rule pstep_magic_cmp) (use that in \<open>auto dest: flags_in_all\<close>)
  show ?thesis unfolding lessThanInt_gates_def
    by (insert assms, intro pkeep_bind2 [OF pkeep_difference_gates] pkeep_bind [OF pkeep_flag_gates] gate_binds pkeep_bind [OF pkeep_makeSub_of]
        pkeep_bind [OF pkeep_compare_gates] pkeep_bind2 [OF pkeep_gates_of] pkeep_Some fin)
      ((elim conjE)?; (assumption | rule keep_facts | erule step_elims)+)+
qed

lemma pkeep_den_gates:
  assumes "pwf s"
  shows "pkeep (den_gates p h d k num s) s (\<lambda>(gs, gs') s'. list_all (pos_in s') gs \<and> list_all (pos_in s') gs')"
  using assms
proof (induction k arbitrary: d num s)
  case (Suc k)
  show ?case unfolding den_gates.simps
    by (intro gate_binds pkeep_bind2 [OF Suc.IH] pkeep_Some) (use Suc.prems in \<open>auto dest: pstep_pos\<close>)
qed (simp add: pkeep_def)

lemma pkeep_lessThanFloat_gates:
  assumes "pwf s" "isVariable n" "isVariable d" "isVariable nd" "isVariable y" "guard_wf (circuitDesc s) guard"
  shows "pkeep (lessThanFloat_gates rtl inv' prime' guard n0 na n d0 nb d nd mlt meq mgt x1 x2 y s) s (\<lambda>_ _. True)"
proof -
  have fin: "pstep s' (count_cmp (addMagicOp (LessThanFloatOperation ms nis ds g1 g2) guard s'))"
    if "pwf s'" "guard_wf (circuitDesc s') guard" "flags_in s' ms" "list_all (pos_in s') nis" "list_all (pos_in s') ds" "pos_in s' g1" "pos_in s' g2"
    for s' ms nis ds g1 g2
    by (rule pstep_magic_cmp) (use that in \<open>auto dest: flags_in_all\<close>)
  show ?thesis unfolding lessThanFloat_gates_def
    by (insert assms, intro pkeep_bind2 [OF pkeep_difference_gates] pkeep_bind2 [OF pkeep_den_gates] pkeep_bind [OF pkeep_flag_gates] gate_binds
        pkeep_bind [OF pkeep_makeSub_of] pkeep_bind [OF pkeep_compare_gates] pkeep_bind2 [OF pkeep_gates_of] pkeep_Some fin)
      ((elim conjE)?; (assumption | rule keep_facts | erule step_elims)+)+
qed

lemma pkeep_notEqual_gates:
  assumes "pwf s" "isVariable y" "guard_wf (circuitDesc s) guard"
  shows "pkeep (notEqual_gates rtl guard m x1 x2 y s) s (\<lambda>_ _. True)"
proof -
  have fin: "pkeep (let s = addMagicOp (NotEqualOperation mg g1 g2) guard s' in Some ((), s\<lparr>opCount := (opCount s)\<lparr>numIneqs := numIneqs (opCount s) + 1\<rparr>\<rparr>))
      s' (\<lambda>_ _. True)" if "pwf s'" "guard_wf (circuitDesc s') guard" "pos_in s' mg" "pos_in s' g1" "pos_in s' g2" for s' mg g1 g2
    by (intro pkeep_let_state pkeep_Some pstep_addMagicOp pstep_opCount) (use that in auto)
  show ?thesis unfolding notEqual_gates_def
    by (insert assms, intro gate_binds pkeep_bind [OF pkeep_makeSub_of] pkeep_bind2 [OF pkeep_gates_of] fin)
      ((elim conjE)?; (assumption | rule keep_facts | erule step_elims)+)+
qed

lemma pkeep_divide_gates:
  assumes "pwf s" "isVariable p"
  shows "pkeep (divide_gates inv' prime' p x c s) s (\<lambda>_ _. True)"
  unfolding divide_gates_def by (insert assms, intro gate_binds pkeep_Some pstep_count)
      ((elim conjE)?; (assumption | rule keep_facts | erule step_elims)+)+

section \<open>The output layer\<close>

lemma fold_ukeep:
  assumes "pwf s" "\<And>x s. pwf s \<Longrightarrow> P x s \<Longrightarrow> ukeep (f x s) s" "\<And>x. x \<in> set xs \<Longrightarrow> P x s" "\<And>x s s'. P x s \<Longrightarrow> pstep s s' \<Longrightarrow> P x s'"
  shows "ukeep (fold (\<lambda>x r. Option.bind r (f x)) xs (Some s)) s"
  using assms(1,3)
proof (induction xs arbitrary: s)
  case Nil
  then show ?case by (simp add: ukeep_def)
next
  case (Cons x xs)
  have n: "fold (\<lambda>x r. Option.bind r (f x)) xs None = None" by (induction xs) auto
  show ?case
  proof (cases "f x s")
    case (Some s1)
    have st: "pstep s s1" using assms(2) [OF Cons.prems(1) Cons.prems(2) [of x]] Some by (simp add: ukeep_def)
    have "ukeep (fold (\<lambda>x r. Option.bind r (f x)) xs (Some s1)) s1"
      by (rule Cons.IH) (use st Cons.prems assms(4) in \<open>auto dest: pstep_pwf\<close>)
    then show ?thesis using Some st pstep_trans by (auto simp: ukeep_def)
  qed (simp add: ukeep_def n)
qed

lemma ukeep_bind_state:
  assumes "ukeep m s" "\<And>s'. pwf s' \<Longrightarrow> pstep s s' \<Longrightarrow> ukeep (f s') s'"
  shows "ukeep (Option.bind m f) s"
  unfolding ukeep_def
proof (intro allI impI, elim bind_SomeE)
  fix s'' s' assume "m = Some s'" "f s' = Some s''"
  then show "pstep s s''" using assms pstep_pwf pstep_trans unfolding ukeep_def by blast
qed

lemma fold_max_pos: "(x, c) \<in> set xs \<Longrightarrow> f x \<le> fold (\<lambda>(g, _) m. max (f g) m) xs (n :: nat)" "n \<le> fold (\<lambda>(g, _) m. max (f g) m) xs n"
proof (induction xs arbitrary: n)
  case (Cons y ys)
  { case 1 then show ?case using Cons(1,2) [of "max (f (fst y)) n"] by (cases y) (auto intro: order_trans) }
  { case 2 then show ?case using Cons(2) [of "max (f (fst y)) n"] by (cases y) auto }
qed auto

lemma fold_max_start: "n \<le> fold (\<lambda>(a, b) m. max (h a b) m) xs (n :: nat)"
proof (induction xs arbitrary: n)
  case (Cons x xs)
  show ?case using Cons [of "max (h (fst x) (snd x)) n"] by (cases x) simp
qed simp

lemma output_layer_ge: "(g, c) \<in> set (outConstantDesc s) \<Longrightarrow> gp_layer g \<le> output_layer s"
  unfolding output_layer_def by (rule order_trans [OF fold_max_pos(1) fold_max_start])

lemma ukeep_push_outConstant:
  assumes "pwf s" "pos_in s g" "gp_layer g \<le> l"
  shows "ukeep (do { (newPos, s) \<leftarrow> promoteGate g l s; Some (push_outConstant v (gp_name newPos) s) }) s"
proof -
  have "pstep s' (push_outConstant v n s')" if "pwf s'" for s' n
    by (rule pstep_refs [OF that]) (use that in \<open>auto simp: push_outConstant_def refs_wf_def pwf_def\<close>)
  then show ?thesis using pkeep_promoteGate [OF assms] pstep_trans pstep_pwf unfolding ukeep_def pkeep_def
    by (auto simp: bind_eq_Some_conv)
qed

lemma ukeep_makeOutputLayer:
  assumes "pwf s"
  shows "ukeep (makeOutputLayer s) s"
proof -
  define s0 where "s0 = s\<lparr>outputGateBegin := nat (fold (\<lambda>(_, v) m. min m (int (cv_name v))) (bound_outputs s) (2 ^ 31 - 1))\<rparr>"
  have s0: "pstep s s0" by (rule pstep_refs) (use assms in \<open>auto simp: s0_def refs_wf_def pwf_def\<close>)
  let ?l = "output_layer s"
  let ?P = "\<lambda>(g, v) s'. pos_in s' g \<and> gp_layer g \<le> ?l"
  have "ukeep (makeOutputLayer s) s0"
    unfolding makeOutputLayer_def Let_def s0_def [symmetric]
  proof (intro ukeep_bind_state)
    show "ukeep (fold (\<lambda>(g, v) r. Option.bind r (\<lambda>s. do { (newPos, s) \<leftarrow> promoteGate g ?l s; Some (push_outConstant v (gp_name newPos) s) }))
        (outConstantDesc s0) (Some s0)) s0"
      unfolding case_prod_beta
      by (rule fold_ukeep [where P = ?P])
        (use ukeep_push_outConstant [unfolded case_prod_beta] s0 output_layer_ge [of _ _ s] in
          \<open>auto simp: s0_def pstep_def pwf_def refs_wf_def intro: valid_pos_grows\<close>)
    fix s' assume "pwf s'"
    then show "ukeep (fold (\<lambda>(n, _) r. Option.bind r (\<lambda>s. map_option snd (promotePrimitive (INPUT_OUTPUT n) ?l s))) (bound_outputs s') (Some s')) s'"
      unfolding case_prod_beta
      by (rule fold_ukeep [where P = "\<lambda>_ _. True"]) (use pkeep_promotePrimitive in \<open>auto simp: ukeep_def pkeep_def\<close>)
  qed
  then show ?thesis using s0 pstep_trans by (auto simp: ukeep_def)
qed

end
