(* ===== verification/Pws_Parse_Inv.thy ===== *)
theory Pws_Parse_Inv
  imports Pws_Keep_Constraints Pws_Parser "HOL-Library.Sublist"
begin

text \<open>
  Parsing keeps the invariant of the builder, for every text in which the names that a constraint binds are not numbers. The
  text that is left, and the position to go back to, are always ends of the file, so a label that is found is a label of the
  file.
\<close>

section \<open>Streams over a file\<close>

definition over :: "string \<Rightarrow> PWSCircuitParser \<Rightarrow> Tokenizer \<Rightarrow> bool" where
  "over txt s t \<longleftrightarrow> suffix (is_rest t) txt \<and> (\<forall>r. lastPos t = Some r \<longrightarrow> suffix r txt) \<and> sublist (token s) txt"

lemma over_step: "over txt s t \<Longrightarrow> pstep s s' \<Longrightarrow> over txt s' t"
  by (simp add: over_def pstep_def)

lemma suffix_dropWhile_trans: "suffix xs txt \<Longrightarrow> suffix (dropWhile P xs) txt"
  using suffix_dropWhile suffix_order.trans by blast

lemma sublist_takeWhile: "suffix xs txt \<Longrightarrow> sublist (takeWhile P xs) txt"
  by (metis prefix_imp_sublist suffix_imp_sublist sublist_order.order.trans takeWhile_is_prefix)

lemma over_tellg: "over txt s t \<Longrightarrow> over txt s (tellg t)"
  by (auto simp: over_def tellg_def)

lemma over_sentry: "over txt s t \<Longrightarrow> over txt s (snd (sentry t))"
  by (auto simp: over_def sentry_def Let_def suffix_dropWhile_trans)

text \<open>Reading a word leaves the reader over the file, and the word is one of the file or the one that was there.\<close>

lemma next_string_over:
  assumes "over txt s t" "next_string v t = (w, t')"
  shows "over txt s t' \<and> (w = v \<or> sublist w txt)"
proof -
  let ?t = "snd (sentry (tellg t))"
  have o: "over txt s (tellg t)" "over txt s ?t" using over_tellg over_sentry assms(1) by blast+
  show ?thesis
  proof (cases "hasNext (tellg t) \<and> fst (sentry (tellg t))")
    case True
    then have "w = takeWhile (\<lambda>c. \<not> isspace c) (is_rest ?t)"
      "t' = ?t\<lparr>is_rest := dropWhile (\<lambda>c. \<not> isspace c) (is_rest ?t), is_eof := (dropWhile (\<lambda>c. \<not> isspace c) (is_rest ?t) = [])\<rparr>"
      using assms(2) by (auto simp: next_string_def Let_def case_prod_beta)
    then show ?thesis using o(2) by (auto simp: over_def suffix_dropWhile_trans sublist_takeWhile)
  next
    case False
    then show ?thesis using assms(2) o by (auto simp: next_string_def Let_def case_prod_beta split: if_splits)
  qed
qed

lemma over_rewind: "over txt s t \<Longrightarrow> over txt s (rewind t)"
  by (auto simp: over_def rewind_def split: option.split)

lemma over_ignoreLine: "over txt s t \<Longrightarrow> over txt s (ignoreLine t)"
proof -
  assume "over txt s t"
  then have o: "over txt s (tellg t)" by (rule over_tellg)
  then have "suffix (tl (dropWhile (\<lambda>c. c \<noteq> CHR 0x0A) (is_rest (tellg t)))) txt"
    by (meson over_def suffix_dropWhile_trans suffix_order.trans suffix_tl)
  with o show ?thesis by (auto simp: over_def ignoreLine_def Let_def)
qed

lemma next_int_over: "over txt s t \<Longrightarrow> over txt s (snd (next_int v t))"
proof -
  assume "over txt s t"
  then have o: "over txt s (tellg t)" "over txt s (snd (sentry (tellg t)))" using over_tellg over_sentry by blast+
  have "suffix (dropWhile is_digit (snd (split_sign (is_rest (snd (sentry (tellg t))))))) txt"
    using o(2) by (auto simp: over_def split_sign_def intro!: suffix_dropWhile_trans suffix_order.trans [OF suffix_tl])
  with o show ?thesis by (auto simp: over_def next_int_def Let_def case_prod_beta)
qed

section \<open>Labels\<close>

text \<open>Whatever follows the label, it does not look like a number.\<close>

definition label_ok :: "string \<Rightarrow> string \<Rightarrow> bool" where
  "label_ok label txt \<longleftrightarrow>
     (\<forall>r. suffix (label @ r) txt \<longrightarrow> r = [] \<or> isspace (hd r) \<longrightarrow>
        (let r' = dropWhile isspace r in r' \<noteq> [] \<and> \<not> is_digit (hd r') \<and> hd r' \<noteq> CHR ''-''))"

lemma label_next:
  assumes "over txt s t" "label_ok label txt" "label \<noteq> []" "next_string [] t = (label, t')"
  shows "is_good t' \<and> (let r' = dropWhile isspace (is_rest t') in r' \<noteq> [] \<and> \<not> is_digit (hd r') \<and> hd r' \<noteq> CHR ''-'')"
proof -
  let ?t = "snd (sentry (tellg t))" let ?p = "\<lambda>c. \<not> isspace c"
  have ok: "hasNext (tellg t)" "fst (sentry (tellg t))"
    using assms(3,4) by (auto simp: next_string_def Let_def case_prod_beta split: if_splits)
  then have g: "is_good (tellg t)" by (auto simp: sentry_def split: if_splits)
  have t': "label = takeWhile ?p (is_rest ?t)" "t' = ?t\<lparr>is_rest := dropWhile ?p (is_rest ?t), is_eof := (dropWhile ?p (is_rest ?t) = [])\<rparr>"
    using assms(4) ok by (auto simp: next_string_def Let_def case_prod_beta)
  have "is_rest ?t = label @ is_rest t'" by (simp add: t')
  moreover have "suffix (is_rest ?t) txt" using over_sentry [OF over_tellg [OF assms(1)]] by (simp add: over_def)
  moreover have "is_rest t' = [] \<or> isspace (hd (is_rest t'))" 
    by (cases "dropWhile ?p (is_rest ?t) = []") (use hd_dropWhile [of ?p "is_rest ?t"] in \<open>simp_all only: t'(2) Tokenizer.simps\<close>, simp_all)
  ultimately have L: "let r' = dropWhile isspace (is_rest t') in r' \<noteq> [] \<and> \<not> is_digit (hd r') \<and> hd r' \<noteq> CHR ''-''"
    using assms(2) unfolding label_ok_def by metis
  then have "is_rest t' \<noteq> []" by (auto simp: Let_def)
  moreover have "\<not> is_fail ?t" using g ok(2) by (auto simp: sentry_def is_good_def Let_def split: if_splits)
  ultimately show ?thesis using L by (simp add: is_good_def t'(2))
qed

lemma next_string_hd:
  assumes "is_good t" "dropWhile isspace (is_rest t) \<noteq> []" "next_string v t = (w, t')"
  shows "w \<noteq> [] \<and> hd w = hd (dropWhile isspace (is_rest t))"
proof -
  let ?r = "dropWhile isspace (is_rest t)"
  have "sentry (tellg t) = (True, t\<lparr>lastPos := Some (is_rest t), is_rest := ?r\<rparr>)" "hasNext (tellg t)"
    using assms(1,2) by (simp_all add: tellg_def sentry_def Let_def hasNext_def is_good_def)
  then have "w = takeWhile (\<lambda>c. \<not> isspace c) ?r" using assms(3) by (auto simp: next_string_def Let_def)
  moreover have "\<not> isspace (hd ?r)" using assms(2) by (rule hd_dropWhile)
  ultimately show ?thesis using assms(2) by (cases ?r) auto
qed

section \<open>Sequences of parsing steps\<close>

definition mkeep :: "string \<Rightarrow> 'a presult \<Rightarrow> PWSCircuitParser \<Rightarrow> ('a \<Rightarrow> PWSCircuitParser \<Rightarrow> bool) \<Rightarrow> bool" where
  "mkeep txt r s Q \<longleftrightarrow>
     (\<forall>x s' t'. r = Ret x s' t' \<longrightarrow> pwf s' \<and> grows s s' \<and> over txt s' t' \<and> Q x s')"

lemma mkeep_bind:
  assumes "mkeep txt (m s t) s Q"
    and "\<And>x s' t'. m s t = Ret x s' t' \<Longrightarrow> pwf s' \<Longrightarrow> grows s s' \<Longrightarrow> over txt s' t' \<Longrightarrow> Q x s' \<Longrightarrow> mkeep txt (k x s' t') s' R"
  shows "mkeep txt (pbind m k s t) s R"
proof (cases "m s t")
  case (Ret x s' t')
  then have "pwf s'" "grows s s'" "over txt s' t'" "Q x s'" using assms(1) by (auto simp: mkeep_def)
  with assms(2) [OF Ret] have "mkeep txt (k x s' t') s' R" by blast
  with \<open>grows s s'\<close> show ?thesis unfolding mkeep_def pbind_def Ret by (auto intro: desc_grows_trans)
qed (simp_all add: mkeep_def pbind_def)

lemma mkeep_ret: "pwf s \<Longrightarrow> over txt s t \<Longrightarrow> Q x s \<Longrightarrow> mkeep txt (pret x s t) s Q"
  by (simp add: mkeep_def pret_def)

lemma mkeep_build:
  assumes "pkeep (f s) s Q" "over txt s t"
  shows "mkeep txt (pbuild f s t) s Q"
  using assms over_step unfolding mkeep_def pbuild_def pkeep_def pstep_def by (auto split: option.splits)

lemma mkeep_modify: "pstep s (f s) \<Longrightarrow> over txt s t \<Longrightarrow> mkeep txt (pmodify f s t) s (\<lambda>_ _. True)"
  using over_step by (auto simp: mkeep_def pmodify_def pstep_def)

lemma mkeep_rewind: "pwf s \<Longrightarrow> over txt s t \<Longrightarrow> mkeep txt (prewind s t) s (\<lambda>_ _. True)"
  by (simp add: mkeep_def prewind_def over_rewind)

lemma mkeep_weaken: "mkeep txt r s Q \<Longrightarrow> (\<And>x s'. Q x s' \<Longrightarrow> R x s') \<Longrightarrow> mkeep txt r s R"
  by (auto simp: mkeep_def)

lemma pwf_token: "pwf s \<Longrightarrow> pwf (s\<lparr>token := w\<rparr>)"
proof -
  assume p: "pwf s"
  have "getCircuitPrimitive (s\<lparr>token := w\<rparr>) p = getCircuitPrimitive s p" for p by (rule getCircuitPrimitive_cong) simp_all
  with p show ?thesis by (simp add: pwf_def prims_wf_def tables_wf_def refs_wf_def)
qed

lemma mkeep_next_token:
  assumes "pwf s" "over txt s t"
  shows "mkeep txt (next_token s t) s (\<lambda>w s'. sublist w txt)"
proof -
  obtain w t' where n: "next_string (token s) t = (w, t')" by fastforce
  from next_string_over [OF assms(2) n] have "over txt s t'" "sublist w txt" using assms(2) by (auto simp: over_def)
  then show ?thesis using assms(1) by (simp add: mkeep_def next_token_def n pwf_token over_def)
qed

lemma mkeep_assert:
  assumes "pwf s" "over txt s t"
  shows "mkeep txt (assert_token want s t) s (\<lambda>_ _. True)"
  using assms next_string_over [OF assms(2), of "[]"] by (auto simp: mkeep_def assert_token_def split: prod.splits)

section \<open>Primitives and polynomials\<close>

lemma mkeep_parseVar:
  assumes "pwf s" "over txt s t"
  shows "mkeep txt (parseVar tok s t) s (\<lambda>p _. \<forall>p'. p = Some p' \<longrightarrow> isVariable p')"
proof -
  have "mkeep txt (pbuild (\<lambda>s. Some (case addVariable ty n s of (p, s) \<Rightarrow> (Some p, s))) s t) s (\<lambda>p _. \<forall>p'. p = Some p' \<longrightarrow> isVariable p')" for ty n
    by (rule mkeep_build [OF _ assms(2)])
      (use pstep_addVariable(1) [OF assms(1)] addVariable_get(2) in \<open>auto simp: pkeep_def split: prod.splits\<close>)
  moreover have "mkeep txt (pret None s t) s (\<lambda>p _. \<forall>p'. p = Some p' \<longrightarrow> isVariable p')" using assms by (rule mkeep_ret) simp
  moreover have "mkeep txt Crash s (\<lambda>p _. \<forall>p'. p = Some p' \<longrightarrow> isVariable p')" by (simp add: mkeep_def)
  ultimately show ?thesis by (auto simp: parseVar_def Let_def split: option.split)
qed

lemma mkeep_parseConst:
  assumes "pwf s" "over txt s t"
  shows "mkeep txt (parseConst ok tok s t) s (\<lambda>_ _. True)"
  unfolding parseConst_def
  using pstep_addConstant(1) [OF assms(1)]
  by (auto intro!: mkeep_ret [OF assms] mkeep_build [OF _ assms(2)] simp: pkeep_def split: prod.splits)

lemma mkeep_parsePrimitive:
  assumes "pwf s" "over txt s t"
  shows "mkeep txt (parsePrimitive ok s t) s (\<lambda>_ _. True)"
  unfolding parsePrimitive_def
  by (rule mkeep_bind [where m = next_token, OF mkeep_next_token [OF assms]]) (auto intro: mkeep_parseConst mkeep_weaken [OF mkeep_parseVar])

lemma mkeep_finish:
  assumes "pwf s" "over txt s t" "list_all (pos_in s) gs" "op \<noteq> OpCONSTANT" "\<And>n s. pwf s \<Longrightarrow> pstep s (count n s)"
  shows "mkeep txt (finish op count ab gs s t) s (\<lambda>r s'. \<forall>g. r = Some g \<longrightarrow> pos_in s' g)"
proof -
  have r: "mkeep txt (pbind (pmodify (count n)) (\<lambda>_. pbind (pbuild (reduce op gs)) (\<lambda>g. pret (Some g))) s t) s (\<lambda>r s'. \<forall>g. r = Some g \<longrightarrow> pos_in s' g)" for n
    by (intro mkeep_bind [where m = "pmodify (count n)", OF mkeep_modify] mkeep_bind [where m = "pbuild (reduce op gs)", OF mkeep_build [OF pkeep_reduce_all]]
        mkeep_ret)
      (use assms valid_pos_grows in \<open>auto simp: list_all_iff\<close>)
  show ?thesis unfolding finish_def using assms(1-3) r by (auto intro: mkeep_ret simp: list_all_iff)
qed

abbreviation gate_ok :: "GatePosition option \<Rightarrow> PWSCircuitParser \<Rightarrow> bool" where
  "gate_ok r s \<equiv> (\<forall>g. r = Some g \<longrightarrow> pos_in s g)"

lemma all_grows: "list_all (pos_in s) gs \<Longrightarrow> grows s s' \<Longrightarrow> list_all (pos_in s') gs"
  by (auto simp: list_all_iff intro: valid_pos_grows)

lemma mkeep_if: "(c \<Longrightarrow> mkeep txt (a s t) s Q) \<Longrightarrow> (\<not> c \<Longrightarrow> mkeep txt (b s t) s Q) \<Longrightarrow> mkeep txt ((if c then a else b) s t) s Q"
  by simp

lemma mkeep_split: "mkeep txt r s Q \<Longrightarrow> mkeep txt r' s Q \<Longrightarrow> mkeep txt (if c then r else r') s Q"
  by simp

lemma mkeep_case:
  "(r = None \<Longrightarrow> mkeep txt (a s t) s Q) \<Longrightarrow> (\<And>x. r = Some x \<Longrightarrow> mkeep txt (f x s t) s Q) \<Longrightarrow>
   mkeep txt ((case r of None \<Rightarrow> a | Some x \<Rightarrow> f x) s t) s Q"
  by (cases r) auto

lemma mkeep_negate_back:
  assumes "pwf s" "over txt s t" "list_all (pos_in s) gs"
  shows "mkeep txt (negate_back neg gs s t) s (\<lambda>gs' s'. list_all (pos_in s') gs')"
proof (cases "neg \<and> gs \<noteq> []")
  case True
  then have g: "pos_in s (last gs)" using assms(3) by (simp add: list_all_iff)
  have "mkeep txt (pbind (pbuild (negateGate (last gs))) (\<lambda>g. pret (butlast gs @ [g])) s t) s (\<lambda>gs' s'. list_all (pos_in s') gs')"
    by (intro mkeep_bind [where m = "pbuild (negateGate (last gs))", OF mkeep_build [where f = "negateGate (last gs)", OF pkeep_negateGate [OF assms(1) g] assms(2)]] mkeep_ret)
      (use assms(3) in \<open>auto simp: list_all_iff dest: in_set_butlastD intro: valid_pos_grows\<close>)
  then show ?thesis using True by (simp add: negate_back_def)
next
  case False
  then show ?thesis using assms by (auto simp: negate_back_def mkeep_def [of _ Crash] intro!: mkeep_ret)
qed

lemma mkeep_finishPoly:
  assumes "pwf s" "over txt s t" "list_all (pos_in s) gs"
  shows "mkeep txt (finishPoly ab gs s t) s gate_ok" "mkeep txt (finishTerm ab gs s t) s gate_ok"
  unfolding finishPoly_def finishTerm_def
  by (rule mkeep_finish; use assms in \<open>simp add: count_adds_def count_mults_def pstep_opCount\<close>)+

lemma mkeep_poly:
  "(\<forall>s t gs end'. pwf s \<longrightarrow> over txt s t \<longrightarrow> list_all (pos_in s) gs \<longrightarrow> mkeep txt (parsePoly ok fuel end' gs s t) s gate_ok) \<and>
   (\<forall>s t gs neg. pwf s \<longrightarrow> over txt s t \<longrightarrow> list_all (pos_in s) gs \<longrightarrow> mkeep txt (parsePolyTerm ok fuel neg gs s t) s gate_ok)"
proof (induction fuel)
  case 0
  then show ?case by (simp add: mkeep_def)
next
  case (Suc fuel)
  have poly: "mkeep txt (parsePoly ok fuel end' gs s t) s gate_ok" if "pwf s" "over txt s t" "list_all (pos_in s) gs" for s t gs end'
    using Suc.IH that by blast
  have pterm: "mkeep txt (parsePolyTerm ok fuel neg gs s t) s gate_ok" if "pwf s" "over txt s t" "list_all (pos_in s) gs" for s t gs neg
    using Suc.IH that by blast
  have loop: "mkeep txt (pbind (negate_back neg gs) (parsePolyTerm ok fuel False) s t) s gate_ok"
    if "pwf s" "over txt s t" "list_all (pos_in s) gs" for s t gs neg
    by (rule mkeep_bind [where m = "negate_back neg gs", OF mkeep_negate_back [OF that]]) (rule pterm)
  have leave: "mkeep txt (pbind prewind (\<lambda>_. finishTerm ab gs) s t) s gate_ok"
    if "pwf s" "over txt s t" "list_all (pos_in s) gs" for s t gs ab
    by (rule mkeep_bind [where m = prewind, OF mkeep_rewind]) (use that mkeep_finishPoly(2) all_grows in auto)
  have prim: "mkeep txt (pbind (pbuild (getGate p 0)) (\<lambda>g. pbind (negate_back neg (gs @ [g])) (parsePolyTerm ok fuel False)) s t) s gate_ok"
    if "pwf s" "over txt s t" "list_all (pos_in s) gs" for s t gs neg p
    by (rule mkeep_bind [where m = "pbuild (getGate p 0)", OF mkeep_build [where f = "getGate p 0", OF pkeep_getGate_pos]]) (use that all_grows in \<open>auto intro!: loop\<close>)
  have P: "mkeep txt (parsePoly ok (Suc fuel) end' gs s t) s gate_ok" if "pwf s" "over txt s t" "list_all (pos_in s) gs" for s t gs end'
    unfolding parsePoly.simps
  proof (rule mkeep_split)
    show "mkeep txt (pbind next_token (\<lambda>tok. if tok = ''+'' then if gs = [] then finishPoly True gs else parsePoly ok fuel end' gs
        else if tok = end' then finishPoly False gs
        else pbind prewind (\<lambda>_. pbind (parsePolyTerm ok fuel False []) (\<lambda>term.
          parsePoly ok fuel end' (case term of None \<Rightarrow> gs | Some g \<Rightarrow> gs @ [g])))) s t) s gate_ok"
      by (intro mkeep_bind [where m = next_token, OF mkeep_next_token] mkeep_if mkeep_finishPoly(1) poly
          mkeep_bind [where m = prewind, OF mkeep_rewind] mkeep_bind [where m = "parsePolyTerm ok fuel False []", OF pterm])
        (use that in \<open>auto dest: all_grows split: option.split\<close>, (blast intro: all_grows)+)
  qed (rule mkeep_finishPoly(1) [OF that])
  have T: "mkeep txt (parsePolyTerm ok (Suc fuel) neg gs s t) s gate_ok" if "pwf s" "over txt s t" "list_all (pos_in s) gs" for s t gs neg
    unfolding parsePolyTerm.simps
    by (intro mkeep_split mkeep_bind [where m = next_token, OF mkeep_next_token] mkeep_if mkeep_case mkeep_finishPoly(2) pterm loop leave prim
        mkeep_bind [where m = prewind, OF mkeep_rewind] mkeep_bind [where m = "parsePrimitive ok", OF mkeep_parsePrimitive]
        mkeep_bind [where m = "parsePoly ok fuel '')'' []", OF poly])
      (use that in \<open>auto dest: all_grows\<close>, (blast intro: all_grows)+)
  show ?case using P T by blast
qed

section \<open>Constraints\<close>

lemma mkeep_valid_return:
  assumes "mkeep txt (m s t) s Q" "\<And>x s' t'. m s t = Ret (Some x) s' t' \<Longrightarrow> pwf s' \<Longrightarrow> grows s s' \<Longrightarrow> over txt s' t' \<Longrightarrow> Q (Some x) s' \<Longrightarrow> mkeep txt (k x s' t') s' (\<lambda>_ _. True)"
  shows "mkeep txt (valid_return m k s t) s (\<lambda>_ _. True)"
  unfolding valid_return_def
  by (rule mkeep_bind [where m = m, OF assms(1)], rule mkeep_case) (use assms(2) in \<open>auto intro: mkeep_ret\<close>)

lemma mkeep_assert_return:
  assumes "pwf s" "over txt s t"
    and "\<And>t'. next_string [] t = (want, t') \<Longrightarrow> over txt s t' \<Longrightarrow> mkeep txt (k s t') s (\<lambda>_ _. True)"
  shows "mkeep txt (assert_return want k s t) s (\<lambda>_ _. True)"
proof -
  obtain w t' where n: "next_string [] t = (w, t')" by fastforce
  have "over txt s t'" using next_string_over [OF assms(2) n] by simp
  then show ?thesis using assms(1,3) n
    by (auto simp: assert_return_def pbind_def assert_token_def intro: mkeep_ret)
qed

lemma mkeep_prim_after:
  assumes "pwf s" "over txt s t" "\<And>p s' t'. pwf s' \<Longrightarrow> grows s s' \<Longrightarrow> over txt s' t' \<Longrightarrow> mkeep txt (k p s' t') s' (\<lambda>_ _. True)"
  shows "mkeep txt (prim_after ok label k s t) s (\<lambda>_ _. True)"
  unfolding prim_after_def
  by (intro mkeep_assert_return mkeep_valid_return [where m = "parsePrimitive ok", OF mkeep_parsePrimitive]) (use assms in auto)

text \<open>A label that no number follows gives a variable.\<close>

lemma parsePrimitive_variable:
  assumes "pwf s" "over txt s t" "is_good t" "let r' = dropWhile isspace (is_rest t) in r' \<noteq> [] \<and> \<not> is_digit (hd r') \<and> hd r' \<noteq> CHR ''-''"
    and "parsePrimitive ok s t = Ret (Some p) s' t'"
  shows "isVariable p"
proof -
  obtain w t1 where n: "next_string (token s) t = (w, t1)" by fastforce
  have w: "w \<noteq> []" "\<not> is_digit (hd w)" "hd w \<noteq> CHR ''-''" using next_string_hd [OF assms(3) _ n] assms(4) by (auto simp: Let_def)
  have "over txt (s\<lparr>token := w\<rparr>) t1" using next_string_over [OF assms(2) n] assms(2) by (auto simp: over_def)
  from mkeep_parseVar [OF pwf_token [OF assms(1)] this, of w] show ?thesis
    using assms(5) w by (simp add: parsePrimitive_def pbind_def next_token_def n mkeep_def)
qed

lemma mkeep_var_after:
  assumes "pwf s" "over txt s t" "label_ok label txt" "label \<noteq> []"
    and "\<And>p s' t'. pwf s' \<Longrightarrow> grows s s' \<Longrightarrow> over txt s' t' \<Longrightarrow> isVariable p \<Longrightarrow> mkeep txt (k p s' t') s' (\<lambda>_ _. True)"
  shows "mkeep txt (prim_after ok label k s t) s (\<lambda>_ _. True)"
  unfolding prim_after_def
proof (rule mkeep_assert_return [OF assms(1,2)])
  fix t' assume t': "next_string [] t = (label, t')" "over txt s t'"
  note L = label_next [OF assms(2-4) t'(1)]
  show "mkeep txt (valid_return (parsePrimitive ok) k s t') s (\<lambda>_ _. True)"
    by (rule mkeep_valid_return [where m = "parsePrimitive ok", OF mkeep_parsePrimitive [OF assms(1) t'(2)]])
      (use assms(5) parsePrimitive_variable [OF assms(1) t'(2)] L in blast)
qed

lemma mkeep_int_after:
  assumes "pwf s" "over txt s t" "\<And>n t'. over txt s t' \<Longrightarrow> mkeep txt (k n s t') s (\<lambda>_ _. True)"
  shows "mkeep txt (int_after label k s t) s (\<lambda>_ _. True)"
  unfolding int_after_def
  by (rule mkeep_assert_return [OF assms(1,2)]) (use assms(3) next_int_over in \<open>auto simp: case_prod_beta\<close>)

lemma mkeep_polyConstraint:
  assumes "pwf s" "over txt s t"
  shows "mkeep txt (parsePolyConstraint ok fuel s t) s (\<lambda>_ _. True)"
proof -
  have fin: "mkeep txt (pbuild (\<lambda>s. map_option (Pair ()) (if isVariable p then bindVariable p g s else bindOutputConstant p g s)) s t) s (\<lambda>_ _. True)"
    if "pwf s" "over txt s t" "pos_in s g" for p g s t
    by (rule mkeep_build [OF _ that(2)])
      (use ukeep_bindVariable [OF that(1), of p g] ukeep_bindOutputConstant [OF that(1,3), of p] in \<open>auto simp: ukeep_def pkeep_def\<close>)
  have P: "mkeep txt (parsePoly ok fuel end' [] s t) s gate_ok" if "pwf s" "over txt s t" for s t end'
    using mkeep_poly [of "txt" ok fuel] that by auto
  show ?thesis unfolding parsePolyConstraint_def
    by (intro mkeep_valid_return [where m = "parsePrimitive ok", OF mkeep_parsePrimitive] mkeep_assert_return
        mkeep_valid_return [where m = "parsePoly ok fuel ''E'' []", OF P] fin) (use assms in auto)
qed

lemma guard_grows: "grows s s' \<Longrightarrow> guard_wf (circuitDesc s) guard \<Longrightarrow> guard_wf (circuitDesc s') guard"
  by (rule guard_wf_grows)

lemma mkeep_lessThanInt:
  assumes "pwf s" "over txt s t" "label_ok ''Y'' txt"
  shows "mkeep txt (parseLessThanInt rtl ok s t) s (\<lambda>_ _. True)"
  unfolding parseLessThanInt_def Let_def
  by (insert assms getOpGuard_wf [of s], intro mkeep_var_after [where label = "''Y''"] mkeep_prim_after mkeep_int_after mkeep_build pkeep_lessThanInt_gates)
    (assumption | simp; fail | erule guard_grows)+

lemma mkeep_lessThanFloat:
  assumes "pwf s" "over txt s t" "label_ok ''Y'' txt" "label_ok ''N'' txt" "label_ok ''D'' txt" "label_ok ''ND'' txt"
  shows "mkeep txt (parseLessThanFloat rtl ok inv' p s t) s (\<lambda>_ _. True)"
  unfolding parseLessThanFloat_def Let_def
  by (insert assms getOpGuard_wf [of s], intro mkeep_var_after [where label = "''Y''"] mkeep_var_after [where label = "''N''"]
      mkeep_var_after [where label = "''D''"] mkeep_var_after [where label = "''ND''"] mkeep_prim_after mkeep_int_after mkeep_build
      pkeep_lessThanFloat_gates)
    (assumption | simp; fail | erule guard_grows)+

lemma mkeep_notEqual:
  assumes "pwf s" "over txt s t" "label_ok ''Y'' txt"
  shows "mkeep txt (parseNotEqual rtl ok s t) s (\<lambda>_ _. True)"
  unfolding parseNotEqual_def Let_def
  by (insert assms getOpGuard_wf [of s], intro mkeep_var_after [where label = "''Y''"] mkeep_prim_after mkeep_build pkeep_notEqual_gates)
    (assumption | simp; fail | erule guard_grows)+

lemma mkeep_divide:
  assumes "pwf s" "over txt s t"
  shows "mkeep txt (parseDivide ok set_str inv' p s t) s (\<lambda>_ _. True)"
proof -
  have v: "mkeep txt (pbind next_token parseVar s t) s (\<lambda>p _. True)" if "pwf s" "over txt s t" for s t
    by (rule mkeep_bind [where m = next_token, OF mkeep_next_token [OF that]]) (rule mkeep_weaken [OF mkeep_parseVar], simp_all)
  show ?thesis unfolding parseDivide_def
    by (intro mkeep_valid_return [where m = "parsePrimitive ok", OF mkeep_parsePrimitive] mkeep_if mkeep_ret mkeep_assert_return
        mkeep_valid_return [where m = "pbind next_token parseVar", OF v] mkeep_bind [where m = next_token, OF mkeep_next_token] mkeep_case
        mkeep_modify mkeep_build pkeep_divide_gates pstep_count)
      (use assms in auto)
qed

section \<open>Files\<close>

text \<open>The names that are bound are not numbers: after \<^verbatim>\<open>Y\<close>, and in files that compare rationals after \<^verbatim>\<open>N\<close>, \<^verbatim>\<open>D\<close> and \<^verbatim>\<open>ND\<close>.\<close>

definition binds_variables :: "string \<Rightarrow> bool" where
  "binds_variables txt \<longleftrightarrow> label_ok ''Y'' txt \<and>
     (sublist ''<F'' txt \<longrightarrow> label_ok ''N'' txt \<and> label_ok ''D'' txt \<and> label_ok ''ND'' txt)"

lemma mkeep_parse_one:
  assumes "pwf s" "over txt s t" "binds_variables txt" "sublist tok txt"
  shows "mkeep txt (parse_one rtl ok set_str inv' p fuel tok s t) s (\<lambda>_ _. True)"
  unfolding parse_one_def
proof (intro mkeep_if mkeep_polyConstraint mkeep_lessThanInt mkeep_lessThanFloat mkeep_notEqual mkeep_divide mkeep_ret)
  show "mkeep txt (Ret () s (ignoreLine t)) s (\<lambda>_ _. True)" using assms over_ignoreLine by (simp add: mkeep_def)
qed (use assms in \<open>auto simp: binds_variables_def\<close>)

lemma mkeep_parse_loop:
  assumes "pwf s" "over txt s t" "binds_variables txt"
  shows "mkeep txt (parse_loop rtl ok set_str inv' p fuel s t) s (\<lambda>_ _. True)"
  using assms(1,2)
proof (induction fuel arbitrary: s t)
  case (Suc fuel)
  show ?case unfolding parse_loop.simps
    by (intro mkeep_split mkeep_bind [where m = next_token, OF mkeep_next_token]
        mkeep_bind [where m = "parse_one rtl ok set_str inv' p fuel tok" for tok, OF mkeep_parse_one] Suc.IH)
      (use Suc.prems assms(3) in \<open>auto simp: mkeep_def\<close>)
qed (simp add: mkeep_def)

lemma pwf_clear: "pwf (parser_clear s)"
proof -
  have "getCircuitPrimitive (parser_clear s) p = None" for p
    by (cases p) (simp_all add: parser_clear_def clearIndexes_def clearPrivate_def)
  then show ?thesis
    by (simp add: pwf_def desc_wf_def prims_wf_def tables_wf_def refs_wf_def parser_clear_def clearIndexes_def clearPrivate_def)
qed

lemma map_gate_unbind: "map (map gate_unbind) desc = desc"
  by (simp add: map_idI)

lemma parse_inv:
  assumes "parse rtl ok set_str inv' p fuel (Some txt) s = Ret () s' t'" "binds_variables txt" "token s = []"
  obtains s1 s2 where "pwf s1" "makeOutputLayer s1 = Some s2" "pwf s2" "s' = clearPrivate (constructInvertedIndexes s2)"
proof -
  have o: "over txt (parser_clear s) (Tokenizer_new txt)"
    using assms(3) by (auto simp: over_def Tokenizer_new_def tellg_def is_good_def parser_clear_def clearIndexes_def clearPrivate_def)
  obtain s1 t1 where l: "parse_loop rtl ok set_str inv' p fuel (parser_clear s) (Tokenizer_new txt) = Ret () s1 t1"
      and r: "pbuild (\<lambda>s. map_option (\<lambda>s. ((), clearPrivate (constructInvertedIndexes s))) (makeOutputLayer s)) s1 t1 = Ret () s' t'"
    using assms(1) by (auto simp: parse_def Let_def pbind_def split: presult.splits)
  have "pwf s1" using mkeep_parse_loop [OF pwf_clear o assms(2)] l by (auto simp: mkeep_def)
  moreover obtain s2 where s2: "makeOutputLayer s1 = Some s2" "s' = clearPrivate (constructInvertedIndexes s2)"
    using r by (auto simp: pbuild_def split: option.splits)
  moreover have "pwf s2" using ukeep_makeOutputLayer [OF \<open>pwf s1\<close>] s2(1) by (auto simp: ukeep_def dest: pstep_pwf)
  ultimately show ?thesis by (intro that)
qed


text \<open>The condition on labels, as a test of the ends of the file.\<close>

definition label_at :: "string \<Rightarrow> string \<Rightarrow> bool" where
  "label_at label r \<longleftrightarrow> prefix label r \<longrightarrow>
     (let r = drop (length label) r; r' = dropWhile isspace r
      in r = [] \<or> isspace (hd r) \<longrightarrow> r' \<noteq> [] \<and> \<not> is_digit (hd r') \<and> hd r' \<noteq> CHR ''-'')"

lemma label_ok_code [code]: "label_ok label txt \<longleftrightarrow> list_all (label_at label) (suffixes txt)"
proof -
  have "label_ok label txt \<longleftrightarrow> (\<forall>r. suffix (label @ r) txt \<longrightarrow> label_at label (label @ r))"
    by (auto simp: label_ok_def label_at_def Let_def)
  also have "\<dots> \<longleftrightarrow> (\<forall>x. suffix x txt \<longrightarrow> label_at label x)" by (metis label_at_def prefix_def)
  finally show ?thesis unfolding list_all_iff Ball_def in_set_suffixes .
qed

fun ret_state :: "'a presult \<Rightarrow> PWSCircuitParser option" where
  "ret_state (Ret x s t) = Some s"
| "ret_state Crash = None"
| "ret_state OutOfFuel = None"

lemma ret_stateD: "ret_state r = Some s \<Longrightarrow> \<exists>x t. r = Ret x s t"
  by (cases r) auto

definition sample_text :: string where
  "sample_text = ''!= M V1 X1 I0 X2 I1 Y V2 '' @ [CHR 0x0A] @ ''P O3 = V2 * I0 + 1 E'' @ [CHR 0x0A]"


end
