(* ===== verification/Pws_Compile.thy ===== *)
theory Pws_Compile
  imports Pws_Program Pws_Parse_Inv
begin

text \<open>
  What parsing a file leaves: after the program has been read, the outputs are promoted to the output layer and the indexes of
  inputs and outputs are built. The gates that the indexes name have the values of a run of the program.
\<close>

section \<open>The gate of a primitive in a layer\<close>

lemma promotePrimitive_index:
  assumes "promotePrimitive p layer s = Some (g, s')"
  shows "\<exists>q. getCircuitPrimitive s' p = Some q \<and> gate_index_at q layer = Some g"
proof -
  have "\<exists>q. getCircuitPrimitive (snd (g, s')) p = Some q \<and> gate_index_at q layer = Some (fst (g, s'))"
  proof (rule promotePrimitive.raw_induct [OF _ assms], goal_cases)
    case (1 pr p layer s y)
    from 1(2) show ?case unfolding Let_def by (elim do_elims) (auto dest!: 1(1))
  qed
  then show ?thesis by simp
qed

lemma gate_index_at_ext: "gate_index_at q l = Some g \<Longrightarrow> prim_ext q q' \<Longrightarrow> gate_index_at q' l = Some g"
  by (auto simp: gate_index_at_def prim_ext_def isBound_def prefix_def nth_append split: if_splits)

lemma index_ext:
  assumes "ext A s s'" "getCircuitPrimitive s p = Some q" "gate_index_at q l = Some g"
  shows "\<exists>q'. getCircuitPrimitive s' p = Some q' \<and> gate_index_at q' l = Some g"
  using assms gate_index_at_ext unfolding ext_def by blast

section \<open>The output layer\<close>

text \<open>The outputs that are given gates in the output layer.\<close>

definition placed :: "PWSCircuitParser \<Rightarrow> nat \<Rightarrow> nat \<Rightarrow> bool" where
  "placed s l n \<longleftrightarrow> (\<exists>q g. getCircuitPrimitive s (INPUT_OUTPUT n) = Some q \<and> gate_index_at q l = Some g)"

lemma placed_ext: "ext A s s' \<Longrightarrow> placed s l n \<Longrightarrow> placed s' l n"
  unfolding placed_def using index_ext by blast

definition below :: "PWSCircuitParser \<Rightarrow> nat \<Rightarrow> nat \<Rightarrow> bool" where
  "below s l n \<longleftrightarrow> (\<exists>q. getCircuitPrimitive s (INPUT_OUTPUT n) = Some q \<and> isBound q \<and> minLayer q \<le> int l)"

lemma below_ext:
  assumes "ext A s s'" "below s l n"
  shows "below s' l n"
proof -
  obtain q where q: "getCircuitPrimitive s (INPUT_OUTPUT n) = Some q" "isBound q" "minLayer q \<le> int l" using assms(2) by (auto simp: below_def)
  then obtain q' where "getCircuitPrimitive s' (INPUT_OUTPUT n) = Some q'" "prim_ext q q'" using assms(1) unfolding ext_def by blast
  then show ?thesis using q by (auto simp: below_def prim_ext_def isBound_def)
qed

context numeral_reader
begin

lemma promote_outputs_total:
  assumes "vinv cn f s" "\<forall>x \<in> set xs. below s l (fst x)"
  shows "\<exists>s'. fold (\<lambda>(n, _) r. Option.bind r (\<lambda>s. map_option snd (promotePrimitive (INPUT_OUTPUT n) l s))) xs (Some s) = Some s' \<and>
    vinv cn f s' \<and> ext A s s' \<and> length (circuitDesc s') \<le> max (length (circuitDesc s)) (Suc l) \<and> (\<forall>x \<in> set xs. placed s' l (fst x))"
  using assms
proof (induction xs arbitrary: s)
  case (Cons x xs)
  let ?n = "fst x"
  obtain q where q: "getCircuitPrimitive s (INPUT_OUTPUT ?n) = Some q" "isBound q" "minLayer q \<le> int l" using Cons(3) by (auto simp: below_def)
  obtain g s1 where s1: "promotePrimitive (INPUT_OUTPUT ?n) l s = Some (g, s1)" "vinv cn f s1" "ext A s s1"
    using promote_total [where A = A, OF Cons(2) q] by (auto simp: tot_def)
  have len: "length (circuitDesc s1) \<le> max (length (circuitDesc s)) (Suc l)"
    using promotePrimitive_inv [OF s1(1)] vinv_pwf [OF Cons(2)] by (simp add: promote_post_def)
  have pl: "placed s1 l ?n" using promotePrimitive_index [OF s1(1)] by (auto simp: placed_def)
  have "\<forall>x \<in> set xs. below s1 l (fst x)" using Cons(3) below_ext [OF s1(3)] by simp
  from Cons(1) [OF s1(2) this] obtain s' where
    s': "fold (\<lambda>(n, _) r. Option.bind r (\<lambda>s. map_option snd (promotePrimitive (INPUT_OUTPUT n) l s))) xs (Some s1) = Some s'"
      "vinv cn f s'" "ext A s1 s'" "length (circuitDesc s') \<le> max (length (circuitDesc s1)) (Suc l)" "\<forall>x \<in> set xs. placed s' l (fst x)"
    by blast
  have "fold (\<lambda>(n, _) r. Option.bind r (\<lambda>s. map_option snd (promotePrimitive (INPUT_OUTPUT n) l s))) (x # xs) (Some s) = Some s'"
    using s'(1) s1(1) by (cases x) simp
  then show ?case using s'(2,4,5) ext_trans [OF s1(3) s'(3)] placed_ext [OF s'(3) pl] len by auto
qed simp

end

lemma output_layer_above:
  assumes "(n, v) \<in> set (bound_outputs s)"
  shows "nat (minLayer (cv_base v)) \<le> output_layer s"
proof -
  have "x \<in> set xs \<Longrightarrow> h x \<le> fold (\<lambda>x m. max (h x) m) xs (k :: nat)" for x xs h k
  proof (induction xs arbitrary: k)
    case (Cons y ys)
    have "k \<le> fold (\<lambda>x m. max (h x) m) ys k" for k by (induction ys arbitrary: k) (auto intro: order_trans [OF max.cobounded2])
    then show ?case using Cons by (auto intro: order_trans [OF max.cobounded1])
  qed simp
  from this [OF assms, of "\<lambda>(_, v). nat (minLayer (cv_base v))"] show ?thesis
    by (simp add: output_layer_def case_prod_unfold)
qed

lemma io_entry:
  assumes "sorted_io s" "(n, v) \<in> set (inOutVarsMap s)"
  shows "map_of (inOutVarsMap s) n = Some v"
proof -
  have "distinct (map fst (inOutVarsMap s))" using assms(1) by (simp add: sorted_io_def strict_sorted_iff)
  then show ?thesis using assms(2) by simp
qed

lemma begin_step:
  shows vinv_begin: "vinv cn f s \<Longrightarrow> vinv cn f (s\<lparr>outputGateBegin := b\<rparr>)"
    and ext_begin: "ext A s (s\<lparr>outputGateBegin := b\<rparr>)"
proof -
  let ?s = "s\<lparr>outputGateBegin := b\<rparr>"
  have G: "getCircuitPrimitive ?s p = getCircuitPrimitive s p" "toPrimitive ?s p = toPrimitive s p" "ptype ?s p = ptype s p" for p
    by (rule getCircuitPrimitive_cong toPrimitive_cong ptype_cong; simp)+
  show "ext A s ?s" by (simp add: ext_def live_def G kept_def sorted_io_def no_divisions_def)
  assume v: "vinv cn f s"
  have "pwf ?s" using v by (simp add: vinv_def swf_def pwf_def prims_wf_def tables_wf_def refs_wf_def G)
  with v show "vinv cn f ?s" by (simp add: vinv_def swf_def bound_ok_def typed_ok_def G consts_ok_def one_value_def gv_def)
qed

context numeral_reader
begin

lemma makeOutputLayer_total:
  assumes v: "vinv cn f s" and o: "outConstantDesc s = []" "sorted_io s"
  shows "\<exists>s'. makeOutputLayer s = Some s' \<and> vinv cn f s' \<and> ext A s s' \<and> length (circuitDesc s') \<le> max (length (circuitDesc s)) (Suc (output_layer s)) \<and>
    (\<forall>x \<in> set (bound_outputs s). placed s' (output_layer s) (fst x))"
proof -
  let ?s = "s\<lparr>outputGateBegin := nat (fold (\<lambda>(_, v) m. min m (int (cv_name v))) (bound_outputs s) (2 ^ 31 - 1))\<rparr>"
  note v' = vinv_begin [OF v] and e = ext_begin [of A s]
  have b: "bound_outputs ?s = bound_outputs s" by (simp add: bound_outputs_def)
  have "below ?s (output_layer s) (fst x)" if x: "x \<in> set (bound_outputs s)" for x
  proof -
    obtain n w where w: "x = (n, w)" "(n, w) \<in> set (inOutVarsMap s)" "isBound (cv_base w)" using x by (auto simp: bound_outputs_def)
    have g: "getCircuitPrimitive s (INPUT_OUTPUT n) = Some (cv_base w)" using io_entry [OF o(2) w(2)] by simp
    have "minLayer (cv_base w) \<le> int (output_layer s)"
      using output_layer_above [of n w s] x w(1) bound_index(1) [OF vinv_pwf [OF v] g w(3)] by simp
    then show ?thesis using g w(1,3) by (auto simp: below_def)
  qed
  then obtain s' where s': "fold (\<lambda>(n, _) r. Option.bind r (\<lambda>t. map_option snd (promotePrimitive (INPUT_OUTPUT n) (output_layer s) t))) (bound_outputs s) (Some ?s) = Some s'"
      "vinv cn f s'" "ext A ?s s'" "length (circuitDesc s') \<le> max (length (circuitDesc ?s)) (Suc (output_layer s))"
      "\<forall>x \<in> set (bound_outputs s). placed s' (output_layer s) (fst x)"
    using promote_outputs_total [where A = A, OF v'] by blast
  have "makeOutputLayer s = Some s'" using s'(1) o(1) b by (simp add: makeOutputLayer_def Let_def)
  then show ?thesis using s'(2,4,5) ext_trans [OF e s'(3)] by auto
qed

end

section \<open>The indexes\<close>

lemma map_of_fold_set:
  assumes "distinct (map fst xs)" "(n, v) \<in> set xs" "\<forall>(a, b) \<in> set xs. k b = a"
  shows "map_of (fold (\<lambda>(_, v). map_set (k v) (h v)) xs m) n = Some (h v)"
proof -
  have skip: "map_of (fold (\<lambda>(_, v). map_set (k v) (h v)) xs m) n = map_of m n" if "n \<notin> fst ` set xs" "\<forall>(a, b) \<in> set xs. k b = a" for xs m
    using that by (induction xs arbitrary: m) auto
  show ?thesis using assms
  proof (induction xs arbitrary: m)
    case (Cons x xs)
    show ?case
    proof (cases "x = (n, v)")
      case True
      then show ?thesis using Cons.prems skip [of xs "map_set (k v) (h v) m"] by force
    qed (use Cons in auto)
  qed simp
qed

lemma index_gates:
  assumes s: "sorted_io s" "typed_ok s" and q: "getCircuitPrimitive s (INPUT_OUTPUT n) = Some q" "isBound q"
  shows "ptype s (INPUT_OUTPUT n) = Some OUTPUT \<Longrightarrow> map_of (pwsOutGates (constructInvertedIndexes s)) n = Some (last (gateIndex q))"
    "ptype s (INPUT_OUTPUT n) = Some INPUT \<Longrightarrow> map_of (pwsInGates (constructInvertedIndexes s)) n = Some (hd (gateIndex q))"
proof -
  obtain v where v: "map_of (inOutVarsMap s) n = Some v" "cv_base v = q" using q(1) by auto
  have d: "distinct (map fst (inOutVarsMap s))" using s(1) by (simp add: sorted_io_def strict_sorted_iff)
  have k: "cv_name b = a" if "(a, b) \<in> set (inOutVarsMap s)" for a b
  proof -
    have "getCircuitPrimitive s (INPUT_OUTPUT a) = Some (cv_base b)" "toPrimitive s (INPUT_OUTPUT a) = Some (CVar_toPrimitive b)"
      using io_entry [OF s(1) that] by simp_all
    then have "CVar_toPrimitive b = INPUT_OUTPUT a" using s(2) unfolding typed_ok_def by (metis option.inject)
    then show ?thesis by (auto simp: CVar_toPrimitive_def split: if_splits)
  qed
  have dd: "distinct (map fst (filter P (filter Q (inOutVarsMap s))))" for P Q using d by (simp add: distinct_map_filter)
  have m: "(n, v) \<in> set (inOutVarsMap s)" using v(1) by (rule map_of_SomeD)
  show "map_of (pwsOutGates (constructInvertedIndexes s)) n = Some (last (gateIndex q))" if "ptype s (INPUT_OUTPUT n) = Some OUTPUT"
    unfolding constructInvertedIndexes_def Let_def
    using map_of_fold_set [OF dd, of n v "\<lambda>(_, v). varType v = OUTPUT" "\<lambda>(_, v). isBound (cv_base v)" cv_name "\<lambda>v. last (gateIndex (cv_base v))"]
      m v q(2) that k by auto
  show "map_of (pwsInGates (constructInvertedIndexes s)) n = Some (hd (gateIndex q))" if "ptype s (INPUT_OUTPUT n) = Some INPUT"
    unfolding constructInvertedIndexes_def Let_def
    using map_of_fold_set [OF dd, of n v "\<lambda>(_, v). varType v = INPUT" "\<lambda>(_, v). isBound (cv_base v)" cv_name "\<lambda>v. hd (gateIndex (cv_base v))"]
      m v q(2) that k by auto
qed

lemma index_constants:
  assumes "i < length (constants s)" "isBound (cc_base (constants s ! i))"
  shows "(cc_value (constants s ! i), hd (gateIndex (cc_base (constants s ! i)))) \<in> set (inConstants (constructInvertedIndexes s))"
  using assms by (auto simp: constructInvertedIndexes_def Let_def)

section \<open>Files\<close>

text \<open>The inputs of a run are read off the input layer through the index, and the constants are where their index says.\<close>

definition input_env :: "PWSCircuitParser \<Rightarrow> (nat \<Rightarrow> 'a::comm_ring_1) \<Rightarrow> Primitive \<Rightarrow> 'a" where
  "input_env s f p = (case p of INPUT_OUTPUT n \<Rightarrow> (case map_of (pwsInGates s) n of None \<Rightarrow> 0 | Some i \<Rightarrow> f i) | _ \<Rightarrow> 0)"

definition consts_given :: "(string \<Rightarrow> 'a) \<Rightarrow> (nat \<Rightarrow> 'a) \<Rightarrow> PWSCircuitParser \<Rightarrow> bool" where
  "consts_given cn f s \<longleftrightarrow> (\<forall>(c, i) \<in> set (inConstants s). f i = cn c)"

lemma getCircuitPrimitive_clear: "getCircuitPrimitive (parser_clear s) p = None"
  by (cases p) (simp_all add: parser_clear_def clearIndexes_def clearPrivate_def)

lemma ptype_clear: "ptype (parser_clear s) p = None"
  by (simp add: ptype_None getCircuitPrimitive_clear)

lemma vinv_clear: "vinv cn f (parser_clear s)"
  by (simp add: vinv_def swf_def pwf_clear bound_ok_def typed_ok_def one_value_def getCircuitPrimitive_clear valid_pos_def)
    (simp add: parser_clear_def)

lemma clear_fields: "outConstantDesc (parser_clear s) = []" "magicOps (parser_clear s) = []" "sorted_io (parser_clear s)" "no_divisions (parser_clear s)"
  by (simp_all add: parser_clear_def clearIndexes_def clearPrivate_def sorted_io_def no_divisions_def)

lemma at_text_new: "at_text (Tokenizer_new cs) cs"
  by (simp add: at_text_def Tokenizer_new_def tellg_def is_good_def)

context numeral_reader
begin

text \<open>The state after the program has been read: the environment of the values of the variables is the result of a run.\<close>

lemma program_run:
  assumes prog: "prog_ok ok [] [] prog" and v: "vinv cn f s2" and st: "list_all (stmt_at cn f s2) prog" and c: "consts_ok cn f s2"
    and inp: "\<And>p. isVariable p \<Longrightarrow> live s2 p \<Longrightarrow> p \<notin> assigned prog \<Longrightarrow> pval f s2 p = e0 p"
    and y: "(y, ts) \<in> set prog"
  shows "pval f s2 (var_of y) = prog_run cn prog e0 (var_of y)"
proof -
  define e where "e = (\<lambda>p. if p \<in> assigned prog \<or> isVariable p \<and> live s2 p then pval f s2 p else e0 p)"
  have "e (var_of y) = poly_val (name_env cn e) ts" if "(y, ts) \<in> set prog" for y ts
  proof -
    have "stmt_at cn f s2 (y, ts)" using st that by (auto simp: list_all_iff)
    then have p: "poly_at cn f s2 (first_gate s2 (var_of y)) ts" by (simp add: stmt_at_def)
    have "name_env cn e w = tok_env cn f s2 w" if w: "w \<in> set (poly_names ts)" for w
    proof (cases "num_tok w")
      case False
      then have "live s2 (var_of w)" using p w by (auto simp: poly_at_def list_all_iff tok_live_def)
      then show ?thesis using False by (simp add: name_env_def tok_env_def e_def var_of_def isVariable_def)
    qed (simp add: name_env_def tok_env_def)
    then have "poly_val (name_env cn e) ts = poly_val (tok_env cn f s2) ts" by (rule poly_val_cong)
    also have "\<dots> = pval f s2 (var_of y)" using p c by (simp add: poly_at_def has_val_def pval_def)
    also have "\<dots> = e (var_of y)" using that by (force simp: e_def assigned_def)
    finally show ?thesis by simp
  qed
  then have "prog_run cn prog e0 = e" by (intro prog_run_fixpoint [OF prog]) (use inp in \<open>auto simp: e_def\<close>)
  moreover have "var_of y \<in> assigned prog" using y by (force simp: assigned_def)
  ultimately show ?thesis by (simp add: e_def)
qed

text \<open>The highest gate of an output, and the layer it is in.\<close>

lemma last_gate:
  assumes v: "vinv cn f s" and q: "getCircuitPrimitive s p = Some q" "gate_index_at q l = Some g"
  shows "has_val cn f s \<lparr>gp_layer = nat (maxLayer q), gp_name = last (gateIndex q)\<rparr> (pval f s p)" "l \<le> nat (maxLayer q)"
proof -
  have b: "isBound q" by (rule gate_index_at_in(3) [OF vinv_pwf [OF v] q])
  have w: "0 \<le> minLayer q" "maxLayer q = minLayer q + int (length (gateIndex q)) - 1" "gateIndex q \<noteq> []"
    using pwf_get [OF vinv_pwf [OF v] q(1)] b by (auto simp: prim_wf_def isBound_def)
  then have "gate_index_at q (nat (maxLayer q)) = Some \<lparr>gp_layer = nat (maxLayer q), gp_name = last (gateIndex q)\<rparr>"
    by (cases "gateIndex q" rule: rev_cases) (auto simp: gate_index_at_def nth_append)
  from has_val_index [OF v q(1) this]
  show "has_val cn f s \<lparr>gp_layer = nat (maxLayer q), gp_name = last (gateIndex q)\<rparr> (pval f s p)" .
  show "l \<le> nat (maxLayer q)" using q(2) w by (auto simp: gate_index_at_def split: if_splits)
qed

lemma parse_program:
  assumes prog: "prog_ok ok [] [] prog" and cs: "blank_start cs" "list_all isspace cs" and fuel: "length (prog_toks prog) + 2 \<le> fuel"
  shows "\<exists>s1 t1 s'. parse_loop rtl ok set_str inv' pr fuel (parser_clear s) (Tokenizer_new (tok_text (prog_toks prog) @ cs)) = Ret () s1 t1 \<and>
    parse rtl ok set_str inv' pr fuel (Some (tok_text (prog_toks prog) @ cs)) s = Ret () s' t1 \<and>
    desc_wf (circuitDesc s') \<and> no_divisions s' \<and> magicOps s' = [] \<and>
    (\<forall>y ts. (y, ts) \<in> set prog \<longrightarrow> var_type y = Some OUTPUT \<longrightarrow>
      (\<exists>l i. map_of (pwsOutGates s') (prim_idx (var_of y)) = Some i \<and> valid_pos (circuitDesc s') \<lparr>gp_layer = l, gp_name = i\<rparr> \<and>
        (length (circuitDesc s1) = Suc (output_layer s1) \<longrightarrow> Suc l = length (circuitDesc s')) \<and>
        (\<forall>f. consts_given cn f s' \<longrightarrow> gval f (circuitDesc s') l i = prog_run cn prog (input_env s' f) (var_of y))))"
proof -
  let ?c = "parser_clear s" and ?t = "Tokenizer_new (tok_text (prog_toks prog) @ cs)"
  have kn: "known [] [] ?c" by (simp add: known_def ptype_clear)
  obtain s1 t1 where loop: "parse_loop rtl ok set_str inv' pr fuel ?c ?t = Ret () s1 t1"
    using prog_total [OF prog vinv_clear [of cn "\<lambda>_. 0"] kn at_text_new cs fuel, of rtl set_str inv' pr] by blast
  have S1: "vinv cn f s1" "ext (allow_prog prog) ?c s1" "list_all (stmt_at cn f s1) prog"
      "\<forall>p ty. ptype s1 p = Some ty \<longrightarrow> p \<in> assigned prog \<or> ty = INPUT" for f
    using prog_total [OF prog vinv_clear [of cn f] kn at_text_new cs fuel, of rtl set_str inv' pr] loop by auto
  have k1: "outConstantDesc s1 = []" "magicOps s1 = []" "sorted_io s1" "no_divisions s1"
    using S1(2) clear_fields by (auto simp: ext_def kept_def)
  let ?A = "Allowed {} {}" and ?L = "output_layer s1"
  obtain s2 where out: "makeOutputLayer s1 = Some s2"
    using makeOutputLayer_total [where A = ?A, OF S1(1) k1(1,3)] by blast
  have S2: "vinv cn f s2" "ext ?A s1 s2" "length (circuitDesc s2) \<le> max (length (circuitDesc s1)) (Suc ?L)"
      "\<forall>x \<in> set (bound_outputs s1). placed s2 ?L (fst x)" for f
    using makeOutputLayer_total [where A = ?A and f = f, OF S1(1) k1(1,3)] out by auto
  have k2: "magicOps s2 = []" "sorted_io s2" "no_divisions s2" using S2(2) k1 by (auto simp: ext_def kept_def)
  let ?s' = "clearPrivate (constructInvertedIndexes s2)"
  have fields: "circuitDesc ?s' = circuitDesc s2" "magicOps ?s' = magicOps s2" "pwsOutGates ?s' = pwsOutGates (constructInvertedIndexes s2)"
      "pwsInGates ?s' = pwsInGates (constructInvertedIndexes s2)" "inConstants ?s' = inConstants (constructInvertedIndexes s2)"
    by (simp_all add: clearPrivate_def map_gate_unbind) (simp_all add: constructInvertedIndexes_def Let_def)
  have parse: "parse rtl ok set_str inv' pr fuel (Some (tok_text (prog_toks prog) @ cs)) s = Ret () ?s' t1"
    using loop out by (simp add: parse_def Let_def pbind_def pbuild_def)
  have typed: "typed_ok s2" using S2(1) by (simp add: vinv_def swf_def)
  have cok: "consts_ok cn f s2" if "consts_given cn f ?s'" for f
    using that index_constants [of _ s2] unfolding consts_ok_def consts_given_def fields(5) by fastforce
  have inp: "pval f s2 p = input_env ?s' f p" if p: "isVariable p" "live s2 p" "p \<notin> assigned prog" for f p
  proof -
    have l1: "live s1 p" using S2(2) p(1,2) by (auto simp: ext_def)
    then have ly: "gp_layer (first_gate s1 p) = 0" using S1(2) p(1,3) by (auto simp: ext_def live_def getCircuitPrimitive_clear allow_prog_def)
    obtain ty where ty: "ptype s1 p = Some ty" using l1 p(1) by (cases "ptype s1 p") (auto simp: ptype_None live_def)
    then have pi: "ptype s2 p = Some INPUT" using S1(4) p(3) ptype_keep [OF S2(2)] by auto
    obtain q where q: "getCircuitPrimitive s2 p = Some q" "isBound q" using p(2) by (auto simp: live_def)
    have "toPrimitive s2 p = Some p" using typed q(1) by (auto simp: typed_ok_def)
    then obtain n where n: "p = INPUT_OUTPUT n" using pi p(1) by (cases p) (auto simp: CVar_toPrimitive_def isIO_def isVariable_def)
    have "gp_layer (first_gate s2 p) = 0" using ly live_ext(2) [OF S2(2) l1] by simp
    then have "pval f s2 p = f (hd (gateIndex q))" using q(1) by (simp add: pval_def gv_def first_gate_def)
    moreover have "map_of (pwsInGates ?s') n = Some (hd (gateIndex q))" using index_gates(2) [OF k2(2) typed] q pi fields(4) unfolding n by simp
    ultimately show ?thesis by (simp add: input_env_def n)
  qed
  have outs: "\<exists>l i. map_of (pwsOutGates ?s') (prim_idx (var_of y)) = Some i \<and> valid_pos (circuitDesc ?s') \<lparr>gp_layer = l, gp_name = i\<rparr> \<and>
        (length (circuitDesc s1) = Suc ?L \<longrightarrow> Suc l = length (circuitDesc ?s')) \<and>
        (\<forall>f. consts_given cn f ?s' \<longrightarrow> gval f (circuitDesc ?s') l i = prog_run cn prog (input_env ?s' f) (var_of y))"
    if y: "(y, ts) \<in> set prog" "var_type y = Some OUTPUT" for y ts
  proof -
    let ?n = "prim_idx (var_of y)"
    have vy: "var_of y = INPUT_OUTPUT ?n" using y(2) by (auto simp: var_type_def var_of_def prim_idx_def split: if_splits)
    have "stmt_at cn f s1 (y, ts)" for f using S1(3) y(1) by (auto simp: list_all_iff)
    then have l1: "live s1 (var_of y)" "ptype s1 (var_of y) = Some OUTPUT" using y(2) by (simp_all add: stmt_at_def)
    then have l1': "live s1 (INPUT_OUTPUT ?n)" "ptype s1 (INPUT_OUTPUT ?n) = Some OUTPUT" unfolding vy [symmetric] .
    then obtain v where v: "map_of (inOutVarsMap s1) ?n = Some v" "isBound (cv_base v)" "varType v = OUTPUT" by (auto simp: live_def)
    then have "(?n, v) \<in> set (bound_outputs s1)" using map_of_SomeD by (fastforce simp: bound_outputs_def)
    then obtain q g where q: "getCircuitPrimitive s2 (var_of y) = Some q" "gate_index_at q ?L = Some g"
      using S2(4) vy by (fastforce simp: placed_def)
    note lg = last_gate [OF S2(1) q]
    let ?l = "nat (maxLayer q)" let ?g = "\<lparr>gp_layer = ?l, gp_name = last (gateIndex q)\<rparr>"
    have b: "isBound q" by (rule gate_index_at_in(3) [OF vinv_pwf [OF S2(1)] q])
    have pos: "pos_in s2 ?g" using lg(1) by (simp add: has_val_def)
    have "ptype s2 (var_of y) = Some OUTPUT" by (rule ptype_keep [OF S2(2) l1(2)])
    then have io: "map_of (pwsOutGates ?s') ?n = Some (last (gateIndex q))"
      using index_gates(1) [OF k2(2) typed, of ?n q] q(1) b fields(3) unfolding vy [symmetric] by simp
    have gr: "length (circuitDesc s1) \<le> length (circuitDesc s2)" using S2(2) by (simp add: ext_def desc_ext_def desc_grows_def)
    have "Suc ?l = length (circuitDesc ?s')" if "length (circuitDesc s1) = Suc ?L"
      using that S2(3) gr pos lg(2) by (simp add: fields valid_pos_def)
    moreover have "gval f (circuitDesc ?s') ?l (last (gateIndex q)) = prog_run cn prog (input_env ?s' f) (var_of y)" if c: "consts_given cn f ?s'" for f
    proof -
      have "list_all (stmt_at cn f s2) prog"
        using S1(3) [of f] stmt_at_ext [OF vinv_pwf [OF S1(1)] S2(2), of cn f] by (auto simp: list_all_iff)
      from program_run [OF prog S2(1) this cok [OF c] _ y(1), of "input_env ?s' f"] inp
      have "pval f s2 (var_of y) = prog_run cn prog (input_env ?s' f) (var_of y)" by blast
      then show ?thesis using lg(1) cok [OF c] by (simp add: has_val_def gv_def fields)
    qed
    ultimately show ?thesis using io pos fields(1) by auto
  qed
  have "desc_wf (circuitDesc ?s')" "no_divisions ?s'" "magicOps ?s' = []"
    using vinv_pwf [OF S2(1)] k2 fields(1,2) by (simp_all add: pwf_def no_divisions_def)
  then show ?thesis using loop parse outs by blast
qed

end

end
