(* ===== verification/Pws_Run.thy ===== *)
theory Pws_Run
  imports Pws_Compile Pws_Facts
begin

text \<open>
  From the text of a program to the values in the circuit: a compiled circuit without divisions and magic operations gives every gate the
  value of its description, and so the outputs of a parsed program are those of a run of it.
\<close>

section \<open>Evaluation of a description\<close>

lemma gate_op_makeGate: "op \<noteq> OpDIV_INT \<Longrightarrow> gate_op (gate (makeGate_op op) i j) a b = opval op a b"
  by (cases op) (simp_all add: gate_op_def opval_def makeGate_op_def)

lemma opval_mod:
  fixes a b :: int
  assumes "a mod p = a' mod p" "b mod p = b' mod p"
  shows "opval op a b mod p = opval op a' b' mod p"
  using assms by (cases op) (auto simp: opval_def makeGate_op_def intro: mod_add_cong mod_mult_cong)

lemma evaluate_description:
  assumes inv: "gmp_invert mpz_invert" "prime_modulus (cprime c)" and c: "data_shape c" "layer_image c (depth c - 1)"
    and d: "layers c = rev (map pws_layer desc)" "desc \<noteq> []" "desc_wf desc" "\<forall>layer \<in> set desc. \<forall>d \<in> set layer. gd_op d \<noteq> OpDIV_INT"
  shows "\<exists>c'. evaluate mpz_invert c = Some c' \<and> (\<forall>l j. l < length desc \<longrightarrow> j < length (desc ! l) \<longrightarrow>
    zData c' ! (depth c - Suc l) ! j mod cprime c = gval (\<lambda>i. zData c ! (depth c - 1) ! i) desc l j mod cprime c)"
proof -
  let ?n = "length desc"
  have n: "depth c = ?n" "0 < ?n" using d(1,2) by (simp_all add: depth_def)
  have ly: "layers c ! l = pws_layer (desc ! (?n - Suc l))" if "l < ?n" for l using that d(1) by (simp add: rev_nth)
  have sz: "layer_size (layers c ! l) = length (desc ! (?n - Suc l))" if "l < ?n" for l using ly [OF that] by (simp add: layer_size_def pws_layer_def)
  have nd: "gd_op (desc ! l ! j) \<noteq> OpDIV_INT" if "l < ?n" "j < length (desc ! l)" for l j
    using d(4) nth_mem [OF that(1)] nth_mem [OF that(2)] by blast
  have wf: "gd_in1 (desc ! Suc l ! j) < length (desc ! l) \<and> gd_in2 (desc ! Suc l ! j) < length (desc ! l)"
    if "Suc l < ?n" "j < length (desc ! Suc l)" for l j using d(3) that by (auto simp: desc_wf_def gate_wf_def Let_def)
  have w: "wires_in_range (layers c ! l) (layer_size (layers c ! Suc l)) \<and> no_div (layers c ! l)" if l: "Suc l < depth c" for l
  proof -
    let ?k = "?n - Suc (Suc l)"
    have k: "?n - Suc l = Suc ?k" "Suc ?k < ?n" using l n by simp_all
    have "no_div (layers c ! l)" using ly [of l] l n k nd [of "Suc ?k"]
      by (auto simp: no_div_def pws_layer_def list_all_iff in_set_conv_nth makeGate_op_def split: OpType.splits)
    moreover have "wires_in_range (layers c ! l) (layer_size (layers c ! Suc l))"
      using ly [of l] sz [of "Suc l"] l n k wf [OF k(2)] by (auto simp: wires_in_range_def pws_layer_def list_all_iff in_set_conv_nth)
    ultimately show ?thesis by simp
  qed
  obtain c' where c': "evaluate mpz_invert c = Some c'" "layers c' = layers c" "cprime c' = cprime c" "zData c' ! (depth c - 1) = zData c ! (depth c - 1)"
      "\<And>l g. Suc l < depth c \<Longrightarrow> g < layer_size (layers c ! l) \<Longrightarrow> gate_holds c' l g"
    using gmp_invert.evaluate_image [OF inv c] w n by auto
  have "zData c' ! (?n - Suc l) ! j mod cprime c = gval (\<lambda>i. zData c ! (?n - 1) ! i) desc l j mod cprime c"
    if "l < ?n" "j < length (desc ! l)" for l j
    using that
  proof (induction l arbitrary: j)
    case 0
    then show ?case using c'(4) n by simp
  next
    case (Suc l)
    let ?d = "desc ! Suc l ! j" and ?i = "?n - Suc (Suc l)"
    have i: "?i < ?n" "Suc ?i = ?n - Suc l" "Suc ?i < depth c" using Suc.prems(1) n by simp_all
    have "gates (layers c ! ?i) ! j = gate (makeGate_op (gd_op ?d)) (gd_in1 ?d) (gd_in2 ?d)"
      using ly [OF i(1)] Suc.prems by (simp add: pws_layer_def Suc_diff_Suc)
    moreover have "gate_holds c' ?i j" by (rule c'(5) [OF i(3)]) (use sz [OF i(1)] Suc.prems in \<open>simp add: Suc_diff_Suc\<close>)
    ultimately have "zData c' ! ?i ! j mod cprime c =
        opval (gd_op ?d) (zData c' ! (?n - Suc l) ! gd_in1 ?d) (zData c' ! (?n - Suc l) ! gd_in2 ?d) mod cprime c"
      using gate_op_makeGate [OF nd [OF Suc.prems]] by (simp add: gate_holds_def c'(2,3) i(2) [symmetric] Let_def)
    also have "\<dots> = gval (\<lambda>i. zData c ! (?n - 1) ! i) desc (Suc l) j mod cprime c"
      unfolding gval.simps Let_def by (rule opval_mod; rule Suc.IH) (use wf [OF Suc.prems] Suc.prems in simp_all)
    finally show ?case .
  qed
  then show ?thesis using c'(1) n by auto
qed

section \<open>Programs\<close>

text \<open>C14: \<^verbatim>\<open>PWSCircuitParser::parse\<close> on the text of a program of polynomial constraints, in which every variable is set once and after
  the variables it depends on. With fuel for its tokens the parser reads the file to the end. It leaves a well-formed description without
  divisions and magic operations, and an index in which every output is a gate. Whatever values the input gates have, if those of
  the constants are right, the gate of an output has the value that a run of the program gives the output, from the inputs the
  index names; and where no gate lies above the deepest output it is in the top layer.\<close>

theorem parsed_program_correct:
  fixes prog :: "stmt list" and cn :: "string \<Rightarrow> 'a::comm_ring_1"
  assumes "prog_ok ok [] [] prog" "blank_start cs" "list_all isspace cs" "length (prog_toks prog) + 2 \<le> fuel" "cn = (\<lambda>c. of_int (atoi c))"
  shows "\<exists>s1 t1 s'. parse_loop rtl ok set_str inv' pr fuel (parser_clear s) (Tokenizer_new (tok_text (prog_toks prog) @ cs)) = Ret () s1 t1 \<and>
    parse rtl ok set_str inv' pr fuel (Some (tok_text (prog_toks prog) @ cs)) s = Ret () s' t1 \<and>
    desc_wf (circuitDesc s') \<and> no_divisions s' \<and> magicOps s' = [] \<and>
    (\<forall>y ts. (y, ts) \<in> set prog \<longrightarrow> var_type y = Some OUTPUT \<longrightarrow>
      (\<exists>l i. map_of (pwsOutGates s') (prim_idx (var_of y)) = Some i \<and> valid_pos (circuitDesc s') \<lparr>gp_layer = l, gp_name = i\<rparr> \<and>
        (length (circuitDesc s1) = Suc (output_layer s1) \<longrightarrow> Suc l = length (circuitDesc s')) \<and>
        (\<forall>f. consts_given cn f s' \<longrightarrow> gval f (circuitDesc s') l i = prog_run cn prog (input_env s' f) (var_of y))))"
  unfolding assms(5) by (rule decimal.parse_program [OF assms(1-4)])

text \<open>C13: From the text to the values. The circuit that \<^verbatim>\<open>PWSCircuit::constructCircuit\<close> builds from a parsed program is evaluated without
  an abort, and the gate of its output layer that the index names for an output holds, modulo the prime, what a run of the
  program on the values of the input gates gives the output. Asked of the circuit are data of the right shape, rationals with their
  images in the input layer, the constants where their index says, and that no gate lies above the deepest output.\<close>

theorem compiled_program_correct:
  assumes prog: "prog_ok ok [] [] prog" and cs: "blank_start cs" "list_all isspace cs" and fuel: "length (prog_toks prog) + 2 \<le> fuel"
    and parse: "parse rtl ok set_str inv' pr fuel (Some (tok_text (prog_toks prog) @ cs)) s = Ret () s' t'"
    and top: "parse_loop rtl ok set_str inv' pr fuel (parser_clear s) (Tokenizer_new (tok_text (prog_toks prog) @ cs)) = Ret () s1 t1"
      "length (circuitDesc s1) = Suc (output_layer s1)"
    and circuit: "pws_constructCircuit (PWSParse.truncate s') c0 = Some c1" "layers c = layers (circ c1)"
    and data: "gmp_invert mpz_invert" "prime_modulus (cprime c)" "data_shape c" "layer_image c (depth c - 1)"
      "consts_given atoi (\<lambda>i. zData c ! (depth c - 1) ! i) s'"
  shows "\<exists>c'. pws_evaluate mpz_invert (PWSParse.truncate s') c = Some c' \<and>
    (\<forall>y ts. (y, ts) \<in> set prog \<longrightarrow> var_type y = Some OUTPUT \<longrightarrow>
      (\<exists>i. map_of (pwsOutGates s') (prim_idx (var_of y)) = Some i \<and>
        zData c' ! 0 ! i mod cprime c = prog_run atoi prog (input_env s' (\<lambda>i. zData c ! (depth c - 1) ! i)) (var_of y) mod cprime c))"
proof -
  let ?D = "circuitDesc s'" and ?f = "\<lambda>i. zData c ! (depth c - 1) ! i"
  have Q: "desc_wf ?D \<and> no_divisions s' \<and> magicOps s' = [] \<and> (\<forall>y ts. (y, ts) \<in> set prog \<longrightarrow> var_type y = Some OUTPUT \<longrightarrow>
      (\<exists>l i. map_of (pwsOutGates s') (prim_idx (var_of y)) = Some i \<and> valid_pos ?D \<lparr>gp_layer = l, gp_name = i\<rparr> \<and> Suc l = length ?D \<and>
        (\<forall>f. consts_given atoi f s' \<longrightarrow> gval f ?D l i = prog_run atoi prog (input_env s' f) (var_of y))))"
    using decimal.parse_program [OF prog cs fuel, of rtl set_str inv' pr s, where ?'a = int] parse top by (auto simp: of_int_eq_id)
  then have P: "desc_wf ?D" "no_divisions s'" "magicOps s' = []" by simp_all
  have outs: "\<exists>i. map_of (pwsOutGates s') (prim_idx (var_of y)) = Some i \<and> valid_pos ?D \<lparr>gp_layer = length ?D - 1, gp_name = i\<rparr> \<and>
        gval ?f ?D (length ?D - 1) i = prog_run atoi prog (input_env s' ?f) (var_of y)"
    if y: "(y, ts) \<in> set prog" "var_type y = Some OUTPUT" for y ts
  proof -
    obtain l i where i: "map_of (pwsOutGates s') (prim_idx (var_of y)) = Some i" "valid_pos ?D \<lparr>gp_layer = l, gp_name = i\<rparr>" "Suc l = length ?D"
        "gval ?f ?D l i = prog_run atoi prog (input_env s' ?f) (var_of y)"
      using Q y data(5) by blast
    moreover from i(3) have "l = length ?D - 1" by simp
    ultimately show ?thesis by simp
  qed
  have ly: "layers c = rev (map pws_layer ?D)" using construct_layers [OF circuit(1)] circuit(2) by (simp add: PWSParse.truncate_def)
  show ?thesis
  proof (cases "?D = []")
    case True
    then have "depth c = 0" using ly by (simp add: depth_def)
    then have "evaluate mpz_invert c = Some c" by (simp add: evaluate_def)
    moreover have "pws_evaluate mpz_invert (PWSParse.truncate s') c = evaluate mpz_invert c"
      by (rule evaluate_plain) (simp add: P(3) PWSParse.truncate_def)
    ultimately show ?thesis using outs True by (force simp: valid_pos_def)
  next
    case False
    have n: "depth c = length ?D" using ly by (simp add: depth_def)
    obtain c' where c': "evaluate mpz_invert c = Some c'" "\<And>l j. l < length ?D \<Longrightarrow> j < length (?D ! l) \<Longrightarrow>
        zData c' ! (depth c - Suc l) ! j mod cprime c = gval ?f ?D l j mod cprime c"
      using evaluate_description [OF data(1-4) ly False P(1)] P(2) unfolding no_divisions_def by blast
    have "pws_evaluate mpz_invert (PWSParse.truncate s') c = Some c'"
      using evaluate_plain [of "PWSParse.truncate s'"] c'(1) P(3) by (simp add: PWSParse.truncate_def)
    moreover have "\<exists>i. map_of (pwsOutGates s') (prim_idx (var_of y)) = Some i \<and>
        zData c' ! 0 ! i mod cprime c = prog_run atoi prog (input_env s' ?f) (var_of y) mod cprime c"
      if "(y, ts) \<in> set prog" "var_type y = Some OUTPUT" for y ts
      using outs [OF that] c'(2) [of "length ?D - 1"] n False by (auto simp: valid_pos_def)
    ultimately show ?thesis by blast
  qed
qed

section \<open>An example\<close>

text \<open>\<open>V1 = I0 * I1 + 3\<close> and \<open>O2 = - V1 * ( V1 + I0 )\<close>.\<close>

definition sample_prog :: "stmt list" where
  "sample_prog = [(''V1'', [[(False, Prim ''I0''), (False, Prim ''I1'')], [(False, Prim ''3'')]]),
     (''O2'', [[(True, Prim ''V1''), (False, Paren [[(False, Prim ''V1'')], [(False, Prim ''I0'')]])]])]"

definition sample_parse :: "unit presult" where
  "sample_parse = parse True (\<lambda>_. True) (\<lambda>_. None) (\<lambda>a b. a) 5 30 (Some (tok_text (prog_toks sample_prog) @ [CHR 0x0A])) (parser_new 0)"

definition sample_loop :: "unit presult" where
  "sample_loop = parse_loop True (\<lambda>_. True) (\<lambda>_. None) (\<lambda>a b. a) 5 30 (parser_clear (parser_new 0)) (Tokenizer_new (tok_text (prog_toks sample_prog) @ [CHR 0x0A]))"

lemma sample_hyps:
  "prog_ok (\<lambda>_. True) [] [] sample_prog" "blank_start [CHR 0x0A]" "list_all isspace [CHR 0x0A]" "length (prog_toks sample_prog) + 2 \<le> 30"
  by code_simp+

lemma sample_results:
  "map_option (\<lambda>s. (map length (circuitDesc s), pwsInGates s, pwsOutGates s, inConstants s)) (ret_state sample_parse) =
     Some ([5, 5, 3, 2, 1], [(0, 0), (1, 1)], [(2, 0)], [(''3'', 2), (''0'', 3), (''-1'', 4)])"
  "map_option (\<lambda>s. (length (circuitDesc s), output_layer s)) (ret_state sample_loop) = Some (5, 4)"
  by code_simp+

lemma sample_facts:
  assumes "sample_loop = Ret () s1 t1" "sample_parse = Ret () s' t"
  shows "map length (circuitDesc s') = [5, 5, 3, 2, 1]" "length (circuitDesc s') = 5" "pwsInGates s' = [(0, 0), (1, 1)]" "pwsOutGates s' = [(2, 0)]"
    "inConstants s' = [(''3'', 2), (''0'', 3), (''-1'', 4)]" "length (circuitDesc s1) = Suc (output_layer s1)"
  using sample_results(1) [unfolded assms(2)] sample_results(2) [unfolded assms(1)] by (auto dest: arg_cong [of _ _ length])

lemma sample_run:
  assumes "e (INPUT_OUTPUT 0) = (2 :: int)" "e (INPUT_OUTPUT 1) = 5"
  shows "prog_run atoi sample_prog e (INPUT_OUTPUT 2) = - 195"
proof -
  have n: "num_tok ''3''" "\<not> num_tok ''I0''" "\<not> num_tok ''I1''" "\<not> num_tok ''V1''" "atoi ''3'' = 3" by code_simp+
  have v: "var_of ''I0'' = INPUT_OUTPUT 0" "var_of ''I1'' = INPUT_OUTPUT 1" "var_of ''V1'' = INTERMEDIATE 1" "var_of ''O2'' = INPUT_OUTPUT 2" by code_simp+
  show ?thesis by (simp add: sample_prog_def poly_val_def term_val_def signed_val'_def factor_val_Paren name_env_def n v assms del: One_nat_def)
qed

lemma sample_sets: "(''O2'', snd (sample_prog ! 1)) \<in> set sample_prog" "var_type ''O2'' = Some OUTPUT" "prim_idx (var_of ''O2'') = 2" "var_of ''O2'' = INPUT_OUTPUT 2"
  by (simp add: sample_prog_def) (code_simp+)

definition sample_inputs :: "int list" where
  "sample_inputs = [2, 5, 3, 0, - 1]"

lemma sample_env:
  assumes "pwsInGates s = [(0, 0), (1, 1)]" "inConstants s = [(''3'', 2), (''0'', 3), (''-1'', 4)]"
  shows "consts_given atoi ((!) sample_inputs) s" "prog_run atoi sample_prog (input_env s ((!) sample_inputs)) (INPUT_OUTPUT 2) = - 195"
proof -
  have "atoi ''3'' = 3" "atoi ''0'' = 0" "atoi ''-1'' = - 1" by code_simp+
  then show "consts_given atoi ((!) sample_inputs) s" by (simp add: consts_given_def assms(2) sample_inputs_def)
  show "prog_run atoi sample_prog (input_env s ((!) sample_inputs)) (INPUT_OUTPUT 2) = - 195"
    by (rule sample_run) (simp_all add: input_env_def assms(1) sample_inputs_def)
qed

theorem parsed_program_correct_witness:
  "\<exists>s'. ret_state sample_parse = Some s' \<and> desc_wf (circuitDesc s') \<and> gval ((!) sample_inputs) (circuitDesc s') 4 0 = - 195"
proof -
  have c: "atoi = (\<lambda>c. of_int (atoi c))" by simp
  obtain s1 t1 s' where R: "sample_loop = Ret () s1 t1" "sample_parse = Ret () s' t1" "desc_wf (circuitDesc s')"
    "\<And>y ts. (y, ts) \<in> set sample_prog \<Longrightarrow> var_type y = Some OUTPUT \<Longrightarrow>
      \<exists>l i. map_of (pwsOutGates s') (prim_idx (var_of y)) = Some i \<and> (length (circuitDesc s1) = Suc (output_layer s1) \<longrightarrow> Suc l = length (circuitDesc s')) \<and>
        (\<forall>f. consts_given atoi f s' \<longrightarrow> gval f (circuitDesc s') l i = prog_run atoi sample_prog (input_env s' f) (var_of y))"
    using parsed_program_correct [OF sample_hyps c, of True "\<lambda>_. None" "\<lambda>a b. a" 5 "parser_new 0", folded sample_loop_def sample_parse_def]
    by (elim exE conjE) blast
  note F = sample_facts [OF R(1,2)]
  obtain l i where l: "map_of (pwsOutGates s') 2 = Some i" "Suc l = 5" "gval ((!) sample_inputs) (circuitDesc s') l i = - 195"
    using R(4) [OF sample_sets(1,2)] sample_env [OF F(3,5)] F(6) unfolding sample_sets F(2) by (auto simp: prim_idx_def)
  then have "gval ((!) sample_inputs) (circuitDesc s') 4 0 = - 195" using F(4) by simp
  then show ?thesis using R(3) unfolding R(2) by (intro exI [of _ s']) simp
qed

text \<open>The circuit of the example modulo 7, with the inputs 2 and 5.\<close>

definition sample_circuit :: "CMTCircuit \<Rightarrow> Circuit" where
  "sample_circuit c = \<lparr>layers = layers (circ c),
     qData = [replicate 1 0, replicate 2 0, replicate 3 0, replicate 5 0, map of_int sample_inputs],
     zData = [replicate 1 0, replicate 2 0, replicate 3 0, replicate 5 0, sample_inputs], valid = True, cprime = 7\<rparr>"

lemma sample_circuit_ready:
  assumes "layers (circ c) = rev (map pws_layer desc)" "map length desc = [5, 5, 3, 2, 1]"
  shows "data_shape (sample_circuit c)" "layer_image (sample_circuit c) 4" "depth (sample_circuit c) = 5" "cprime (sample_circuit c) = 7"
proof -
  have s: "map layer_size (layers (circ c)) = [1, 2, 3, 5, 5]"
    using assms(2) by (simp add: assms(1) rev_map [symmetric] o_def layer_size_def pws_layer_def)
  show d: "depth (sample_circuit c) = 5" using arg_cong [OF s, of length] by (simp add: sample_circuit_def depth_def)
  then have sz: "layer_size (layers (sample_circuit c) ! l) = [1, 2, 3, 5, 5] ! l" if "l < 5" for l
    using that nth_map [of l "layers (circ c)" layer_size] s by (simp add: sample_circuit_def depth_def)
  show "cprime (sample_circuit c) = 7" by (simp add: sample_circuit_def)
  have "\<forall>l < 5. length (qData (sample_circuit c) ! l) = [1, 2, 3, 5, 5] ! l \<and> length (zData (sample_circuit c) ! l) = [1, 2, 3, 5, 5] ! l"
    by (simp add: sample_circuit_def sample_inputs_def numeral_eq_Suc All_less_Suc)
  then show "data_shape (sample_circuit c)" using sz by (simp add: data_shape_def d) (simp add: sample_circuit_def)
  have "\<forall>g < 5. image 7 (map of_int sample_inputs ! g, sample_inputs ! g)" by code_simp
  then show "layer_image (sample_circuit c) 4" using sz [of 4] by (simp add: layer_image_def) (simp add: sample_circuit_def)
qed

theorem compiled_program_correct_witness:
  "\<exists>s' c1 c'. ret_state sample_parse = Some s' \<and> pws_constructCircuit (PWSParse.truncate s') blank_circuit = Some c1 \<and>
     pws_evaluate mod_inverse (PWSParse.truncate s') (sample_circuit c1) = Some c' \<and> zData c' ! 0 ! 0 mod 7 = 1"
proof -
  have "\<not> Option.is_none (Option.bind (ret_state sample_parse) (\<lambda>s. pws_constructCircuit (PWSParse.truncate s) blank_circuit))" by code_simp
  then obtain s' c1 where S: "ret_state sample_parse = Some s'" "pws_constructCircuit (PWSParse.truncate s') blank_circuit = Some c1"
    by (auto simp: Option.is_none_def bind_eq_Some_conv)
  obtain t' where P: "sample_parse = Ret () s' t'" using ret_stateD [OF S(1)] by auto
  obtain s1 t1 where L: "sample_loop = Ret () s1 t1" using sample_results(2) ret_stateD by fastforce
  note F = sample_facts [OF L P]
  have ly: "layers (circ c1) = rev (map pws_layer (circuitDesc s'))" using construct_layers [OF S(2)] by (simp add: PWSParse.truncate_def)
  note C = sample_circuit_ready [OF ly F(1)]
  have z: "zData (sample_circuit c1) ! 4 = sample_inputs" "layers (sample_circuit c1) = layers (circ c1)" by (simp_all add: sample_circuit_def)
  have p: "prime_modulus (cprime (sample_circuit c1))" using prime_modulus_7 C(4) by simp
  have i: "layer_image (sample_circuit c1) (depth (sample_circuit c1) - 1)" and k: "consts_given atoi ((!) (zData (sample_circuit c1) ! (depth (sample_circuit c1) - 1))) s'"
    using C(2,3) sample_env(1) [OF F(3,5)] z by simp_all
  obtain c' where c': "pws_evaluate mod_inverse (PWSParse.truncate s') (sample_circuit c1) = Some c'"
      "\<exists>i. map_of (pwsOutGates s') (prim_idx (var_of ''O2'')) = Some i \<and>
        zData c' ! 0 ! i mod 7 = prog_run atoi sample_prog (input_env s' ((!) sample_inputs)) (var_of ''O2'') mod 7"
    using compiled_program_correct [OF sample_hyps P [unfolded sample_parse_def] L [unfolded sample_loop_def] F(6) S(2) z(2) euclid.gmp_invert_axioms p C(1) i k]
      sample_sets(1,2) C(3,4) z(1) by auto
  then have "zData c' ! 0 ! 0 mod 7 = 1" using F(4) sample_env(2) [OF F(3,5)] by (simp add: sample_sets prim_idx_def)
  then show ?thesis using S c'(1) by blast
qed

end
