(* ===== verification/Pws_Errors.thy ===== *)
theory Pws_Errors
  imports Pws_Run
begin

text \<open>
  Files on which the parser does not do what it means to: polynomials without an end, which it reads forever, and programs that
  it gives other gates than those of their run.
\<close>

section \<open>Polynomials without an end\<close>

text \<open>A closing parenthesis is left for the caller, and \<^verbatim>\<open>parsePoly\<close> with another end mark starts a term with it again.\<close>

lemma stray_poly:
  assumes "at_text t (tok_text ('')'' # ws) @ cs)" "blank_start cs"
  shows "parsePoly ok fuel ''E'' [] s t = OutOfFuel"
  using assms(1)
proof (induction fuel arbitrary: s t)
  case (Suc k)
  let ?s = "s\<lparr>token := '')''\<rparr>"
  have tk: "is_token '')''" by (simp add: is_token_def isspace_def)
  have read: "\<exists>t1. next_token s t = Ret '')'' (s\<lparr>token := '')''\<rparr>) t1 \<and> at_text (rewind t1) (tok_text ('')'' # ws) @ cs)"
    if "at_text t (tok_text ('')'' # ws) @ cs)" for s t
    using next_string_token [OF that tk assms(2), of "token s"] by (auto simp: next_token_def)
  obtain t1 where t1: "next_token s t = Ret '')'' ?s t1" "at_text (rewind t1) (tok_text ('')'' # ws) @ cs)" using read [OF Suc(2)] by blast
  obtain t2 where t2: "next_token ?s (rewind t1) = Ret '')'' ?s t2" "at_text (rewind t2) (tok_text ('')'' # ws) @ cs)"
    using read [OF t1(2), of ?s] by auto
  show ?case
  proof (cases k)
    case 0
    then show ?thesis using at_text_hasNext [OF Suc(2)] t1(1) by (simp add: pbind_def prewind_def)
  next
    case (Suc k')
    have "parsePolyTerm ok k False [] ?s (rewind t1) = Ret None ?s (rewind t2)"
      using at_text_hasNext [OF t1(2)] t2(1) by (simp add: Suc pbind_def prewind_def finishTerm_def finish_def pret_def)
    then have "parsePoly ok (Suc k) ''E'' [] s t = parsePoly ok k ''E'' [] ?s (rewind t2)"
      using at_text_hasNext [OF Suc.prems] t1(1) by (simp add: pbind_def prewind_def)
    then show ?thesis using Suc.IH [OF t2(2)] by simp
  qed
qed simp

text \<open>At the end of the file a stream fails for good: it gives the last token again whenever it is asked.\<close>

definition stuck :: "Tokenizer \<Rightarrow> bool" where
  "stuck t \<longleftrightarrow> is_fail t \<and> \<not> is_eof t \<and> lastPos t = None"

lemma stuck_token: "stuck t \<Longrightarrow> next_token s t = Ret (token s) s t \<and> rewind t = t \<and> hasNext t"
  by (simp add: stuck_def next_token_def next_string_def tellg_def is_good_def hasNext_def sentry_def rewind_def)

lemma parseVar_known:
  assumes "vinv cn f s" "var_tok w"
  shows "\<exists>s' q. parseVar w s t = Ret (Some (var_of w)) s' t \<and> vinv cn f s' \<and> token s' = token s \<and> getCircuitPrimitive s' (var_of w) = Some q"
proof -
  obtain ty where ty: "var_type w = Some ty" using assms(2) by (auto simp: var_tok_def)
  let ?n = "nat (atoi (tl w))" and ?A = "Allowed UNIV UNIV"
  have p: "parseVar w = pbuild (\<lambda>s. Some (case addVariable ty ?n s of (p, s) \<Rightarrow> (Some p, s)))"
    using assms(2) ty by (auto simp: parseVar_def var_tok_def var_type_def Let_def)
  have o: "var_of w = (if ty = INPUT \<or> ty = OUTPUT then INPUT_OUTPUT ?n else INTERMEDIATE ?n)"
    using ty by (auto simp: var_of_def var_type_def split: if_splits)
  obtain p s' where a: "addVariable ty ?n s = (p, s')" by fastforce
  have "token s' = token s" using a by (auto simp: addVariable_def Let_def split: if_splits)
  moreover have "tot ?A cn f (Some (p, s')) s (\<lambda>p s'. (\<exists>q. getCircuitPrimitive s' p = Some q) \<and> isVariable p \<and>
      (ptype s p = None \<longrightarrow> ptype s' p = Some ty) \<and> p = var_of w)"
    using tot_addVariable [where A = ?A, OF assms(1), of ty ?n] unfolding o a by simp
  ultimately show ?thesis using a by (auto simp: p pbuild_def tot_def)
qed

lemma getGate_token:
  assumes "vinv cn f s" "getGate p l s = Some (g, s')"
  shows "token s' = token s"
  using pkeep_getGate_pos [OF vinv_pwf [OF assms(1)], of p l] assms(2) by (auto simp: pkeep_def pstep_def)


lemma variable_step:
  assumes "hasNext t" "next_token s t = Ret w s1 t1" "next_token s1 (rewind t1) = Ret w s1 t2" "var_tok w" "token s1 = w"
    and "vinv (\<lambda>c. of_int (atoi c)) (f :: nat \<Rightarrow> int) s1"
  shows "\<exists>g s2. parsePolyTerm ok (Suc k) False vars s t = parsePolyTerm ok k False (vars @ [g]) s2 t2 \<and> token s2 = w \<and>
    vinv (\<lambda>c. of_int (atoi c)) f s2"
proof -
  note N = var_tok_hd [OF assms(4)]
  obtain s2 q where s2: "parseVar w s1 t2 = Ret (Some (var_of w)) s2 t2" "vinv (\<lambda>c. of_int (atoi c)) f s2" "token s2 = w"
      "getCircuitPrimitive s2 (var_of w) = Some q"
    using parseVar_known [OF assms(6,4)] assms(5) by blast
  have p: "parsePrimitive ok s1 (rewind t1) = Ret (Some (var_of w)) s2 t2" using assms(3) s2(1) N(1) by (auto simp: parsePrimitive_def pbind_def num_tok_def)
  obtain g s3 where s3: "getGate (var_of w) 0 s2 = Some (g, s3)" "vinv (\<lambda>c. of_int (atoi c)) f s3"
    using decimal.getGate_total [where A = "Allowed UNIV UNIV", OF s2(2,4), of 0] by (auto simp: tot_def)
  moreover have "token s3 = w" using getGate_token [OF s2(2) s3(1)] s2(3) by simp
  ultimately show ?thesis using assms(1,2) p N(2) by (auto simp: pbind_def prewind_def pbuild_def negate_back_def pret_def)
qed

lemma stuck_term:
  assumes "var_tok (token s)" "stuck t" "vinv (\<lambda>c. of_int (atoi c)) (f :: nat \<Rightarrow> int) s"
  shows "parsePolyTerm ok fuel False vars s t = OutOfFuel"
  using assms(1,3)
proof (induction fuel arbitrary: s vars)
  case (Suc k)
  note T = stuck_token [OF assms(2), of s]
  obtain g s2 where "parsePolyTerm ok (Suc k) False vars s t = parsePolyTerm ok k False (vars @ [g]) s2 t" "token s2 = token s"
      "vinv (\<lambda>c. of_int (atoi c)) f s2"
    using variable_step [of t s "token s" s t t, where ok = ok and k = k and vars = vars, OF _ _ _ Suc(2) refl Suc(3)] T by (auto simp del: parsePolyTerm.simps)
  then show ?case using Suc.IH [of s2] Suc(2) by simp
qed simp

text \<open>The last token of a file, in the blanks behind it: the first read sets both marks, and the second leaves the stream stuck.\<close>

lemma end_stuck:
  assumes "at_text t cs" "list_all isspace cs"
  shows "\<exists>t1 t2. next_token s t = Ret (token s) s t1 \<and> next_token s (rewind t1) = Ret (token s) s t2 \<and> stuck t2"
proof -
  have "dropWhile isspace cs = []" using assms(2) by (simp add: list_all_iff)
  then show ?thesis using assms(1)
    by (simp add: next_token_def next_string_def tellg_def at_text_def is_good_def hasNext_def sentry_def rewind_def stuck_def)
qed

lemma truncated_poly:
  assumes v: "vinv (\<lambda>c. of_int (atoi c)) (f :: nat \<Rightarrow> int) s" and t: "at_text t (tok_text [w] @ cs)" and w: "var_tok w" and cs: "blank_start cs" "list_all isspace cs"
  shows "parsePoly ok fuel ''E'' [] s t = OutOfFuel"
proof (cases fuel)
  case (Suc k)
  let ?s = "s\<lparr>token := w\<rparr>"
  have tk: "is_token w" using w by (simp add: var_tok_def)
  have vs: "vinv (\<lambda>c. of_int (atoi c)) f ?s" by (rule vinv_token [OF v])
  obtain t1 where t1: "next_token s t = Ret w ?s t1" "at_text (rewind t1) (tok_text [w] @ cs)" using next_token_total [OF v t tk cs(1)] by blast
  obtain t2 where t2: "next_token ?s (rewind t1) = Ret w ?s t2" "at_text (rewind t2) (tok_text [w] @ cs)"
    using next_token_total [OF vs t1(2) tk cs(1)] by auto
  obtain t3 where t3: "next_token ?s (rewind t2) = Ret w ?s t3" "at_text t3 cs"
    using next_token_total [OF vs t2(2) tk cs(1)] by (auto simp: tok_text_def)
  have "parsePolyTerm ok k False [] ?s (rewind t1) = OutOfFuel"
  proof (cases k)
    case (Suc k1)
    obtain g s2 where s2: "parsePolyTerm ok k False [] ?s (rewind t1) = parsePolyTerm ok k1 False [g] s2 t3" "token s2 = w" "vinv (\<lambda>c. of_int (atoi c)) f s2"
      using variable_step [where ok = ok and k = k1 and vars = "[]", OF at_text_hasNext [OF t1(2)] t2(1) t3(1) w _ vs] Suc by (auto simp del: parsePolyTerm.simps)
    have "parsePolyTerm ok k1 False [g] s2 t3 = OutOfFuel"
    proof (cases k1)
      case (Suc k2)
      obtain t4 t5 where t5: "next_token s2 t3 = Ret w s2 t4" "next_token s2 (rewind t4) = Ret w s2 t5" "stuck t5"
        using end_stuck [OF t3(2) cs(2), of s2] s2(2) by auto
      obtain g' s3 where "parsePolyTerm ok k1 False [g] s2 t3 = parsePolyTerm ok k2 False [g, g'] s3 t5" "token s3 = w" "vinv (\<lambda>c. of_int (atoi c)) f s3"
        using variable_step [where ok = ok and k = k2 and vars = "[g]", OF at_text_hasNext [OF t3(2)] t5(1,2) w s2(2,3)] Suc by (auto simp del: parsePolyTerm.simps)
      then show ?thesis using stuck_term [OF _ t5(3), of s3] w by simp
    qed simp
    then show ?thesis using s2(1) by simp
  qed simp
  then show ?thesis using at_text_hasNext [OF t] t1(1) var_tok_hd(2) [OF w] Suc by (auto simp: pbind_def prewind_def)
qed simp

text \<open>A polynomial that never ends makes the file that holds it one that is never read.\<close>

lemma constraint_hangs:
  assumes y: "var_tok y" and cs: "blank_start cs"
    and hang: "\<And>k s t. vinv (\<lambda>c. of_int (atoi c)) (\<lambda>_. 0 :: int) s \<Longrightarrow> at_text t (tok_text ws @ cs) \<Longrightarrow> parsePoly ok k ''E'' [] s t = OutOfFuel"
  shows "parse rtl ok set_str inv' pr fuel (Some (tok_text (''P'' # y # ''='' # ws) @ cs)) s = OutOfFuel"
proof (cases fuel)
  case (Suc k)
  let ?cn = "\<lambda>c. of_int (atoi c) :: int" and ?f = "\<lambda>_ :: nat. 0 :: int"
  let ?t = "Tokenizer_new (tok_text (''P'' # y # ''='' # ws) @ cs)" and ?s = "parser_clear s\<lparr>token := ''P''\<rparr>"
  have tk: "is_token ''P''" "is_token ''=''" "is_token y" "\<not> num_tok y"
    using y var_tok_hd(1) by (simp_all add: is_token_def isspace_def var_tok_def)
  have v: "vinv ?cn ?f (parser_clear s)" by (rule vinv_clear)
  obtain t1 where t1: "next_token (parser_clear s) ?t = Ret ''P'' ?s t1" "at_text t1 (tok_text (y # ''='' # ws) @ cs)"
    using next_token_total [OF v at_text_new tk(1) cs] by blast
  obtain t2 where t2: "next_token ?s t1 = Ret y (?s\<lparr>token := y\<rparr>) t2" "at_text t2 (tok_text (''='' # ws) @ cs)"
    using next_token_total [OF vinv_token [OF v] t1(2) tk(3) cs] by blast
  obtain s3 where s3: "parseVar y (?s\<lparr>token := y\<rparr>) t2 = Ret (Some (var_of y)) s3 t2" "vinv ?cn ?f s3"
    using parseVar_known [OF vinv_token [OF vinv_token [OF v]] y] by blast
  have prim: "parsePrimitive ok ?s t1 = Ret (Some (var_of y)) s3 t2" using t2(1) s3(1) tk(4) by (auto simp: parsePrimitive_def pbind_def num_tok_def)
  obtain t3 where t3: "next_string [] t2 = (''='', t3)" "at_text t3 (tok_text ws @ cs)" using next_string_token [OF t2(2) tk(2) cs] by blast
  have "parsePolyConstraint ok k ?s t1 = OutOfFuel"
    using prim t3(1) hang [OF s3(2) t3(2)] by (simp add: parsePolyConstraint_def valid_return_def assert_return_def assert_token_def pbind_def)
  then have "parse_loop rtl ok set_str inv' pr (Suc k) (parser_clear s) ?t = OutOfFuel"
    using at_text_hasNext [OF at_text_new] t1(1) by (simp add: pbind_def parse_one_def)
  then show ?thesis by (simp add: parse_def pbind_def Suc Let_def)
qed (simp add: parse_def pbind_def)

text \<open>C36: A closing parenthesis that nothing opens. \<^verbatim>\<open>parsePolyTerm\<close> puts it back for its caller, and \<^verbatim>\<open>parsePoly\<close>, which waits for
  another end mark, starts a term with it again: whatever follows it in the file, and however many steps it is given, the parser does not return.\<close>

theorem stray_parenthesis_hangs:
  assumes "var_tok y" "blank_start cs"
  shows "parse rtl ok set_str inv' pr fuel (Some (tok_text (''P'' # y # ''='' # '')'' # ws) @ cs)) s = OutOfFuel"
  by (rule constraint_hangs [OF assms]) (rule stray_poly [OF _ assms(2)])

lemma small_text: "var_tok ''O0''" "var_tok ''I1''" "blank_start [CHR 0x0A]" "list_all isspace [CHR 0x0A]"
  by code_simp+

theorem stray_parenthesis_hangs_witness:
  "parse True (\<lambda>_. True) (\<lambda>_. None) (\<lambda>a b. a) 5 1000 (Some (tok_text [''P'', ''O0'', ''='', '')'', ''E''] @ [CHR 0x0A])) (parser_new 0) = OutOfFuel"
  by (rule stray_parenthesis_hangs [OF small_text(1,3)])



section \<open>Variables that are bound twice\<close>

text \<open>\<open>V1 = I0 * I1\<close>, \<open>V2 = V1\<close>, \<open>V2 = I0 + I1\<close> and \<open>O3 = V1 * I0\<close>.\<close>

definition rebind_prog :: "stmt list" where
  "rebind_prog = [(''V1'', [[(False, Prim ''I0''), (False, Prim ''I1'')]]), (''V2'', [[(False, Prim ''V1'')]]),
     (''V2'', [[(False, Prim ''I0'')], [(False, Prim ''I1'')]]), (''O3'', [[(False, Prim ''V1''), (False, Prim ''I0'')]])]"

definition rebind_parse :: "unit presult" where
  "rebind_parse = parse True (\<lambda>_. True) (\<lambda>_. None) (\<lambda>a b. a) 5 40 (Some (tok_text (prog_toks rebind_prog) @ [CHR 0x0A])) (parser_new 0)"

lemma rebind_result:
  "map_option (\<lambda>s. (map (map gate_core) (circuitDesc s), pwsInGates s, pwsOutGates s, inConstants s)) (ret_state rebind_parse) =
     Some ([[(OpCONSTANT, 0, 0), (OpCONSTANT, 0, 0), (OpCONSTANT, 0, 0)], [(OpMUL, 0, 1), (OpADD, 0, 1), (OpADD, 0, 2)], [(OpMUL, 1, 2)]],
       [(0, 0), (1, 1)], [(3, 0)], [(''0'', 2)])"
  by code_simp

lemma gval_core:
  assumes "map (map gate_core) D = C" "Suc l < length C" "j < length (C ! Suc l)"
  shows "gval f D (Suc l) j = (case C ! Suc l ! j of (op, a, b) \<Rightarrow> opval op (gval f D l a) (gval f D l b))"
proof -
  have "gate_core (D ! Suc l ! j) = C ! Suc l ! j" using assms by auto
  from this [symmetric] show ?thesis by (simp add: gate_core_def Let_def)
qed

text \<open>C38: A variable that is bound twice. \<^verbatim>\<open>unbind\<close> does not unbind a gate, since \<^verbatim>\<open>invalidate\<close> does nothing to a valid value. In
  \<open>V1 = I0 * I1\<close>, \<open>V2 = V1\<close>, \<open>V2 = I0 + I1\<close>, \<open>O3 = V1 * I0\<close> the gate of the first product stays bound to V2 and is taken for its new
  gate when it is promoted: the circuit computes \<open>(I0 + I1) * I0\<close>, while a run of the program gives \<open>I0 * I1 * I0\<close>.\<close>

theorem rebinding_miscompiles:
  "\<exists>s' t' i. parse True (\<lambda>_. True) (\<lambda>_. None) (\<lambda>a b. a) 5 40 (Some (tok_text (prog_toks rebind_prog) @ [CHR 0x0A])) (parser_new 0) = Ret () s' t' \<and>
     pwsInGates s' = [(0, 0), (1, 1)] \<and> inConstants s' = [(''0'', 2)] \<and> map_of (pwsOutGates s') 3 = Some i \<and>
     (\<forall>a b :: int. gval ((!) [a, b, 0]) (circuitDesc s') (length (circuitDesc s') - 1) i = (a + b) * a) \<and>
     (\<forall>e. prog_run atoi rebind_prog e (INPUT_OUTPUT 3) = e (INPUT_OUTPUT 0) * e (INPUT_OUTPUT 1) * e (INPUT_OUTPUT 0))"
proof -
  obtain s' where s': "ret_state rebind_parse = Some s'"
      "map (map gate_core) (circuitDesc s') = [[(OpCONSTANT, 0, 0), (OpCONSTANT, 0, 0), (OpCONSTANT, 0, 0)], [(OpMUL, 0, 1), (OpADD, 0, 1), (OpADD, 0, 2)], [(OpMUL, 1, 2)]]"
      "pwsInGates s' = [(0, 0), (1, 1)]" "pwsOutGates s' = [(3, 0)]" "inConstants s' = [(''0'', 2)]"
    using rebind_result by auto
  obtain t' where t': "rebind_parse = Ret () s' t'" using ret_stateD [OF s'(1)] by auto
  have n: "length (circuitDesc s') = Suc (Suc (Suc 0))" using arg_cong [OF s'(2), of length] by simp
  have g: "gval ((!) [a, b, 0]) (circuitDesc s') (Suc (Suc 0)) 0 = (a + b) * (a :: int)" for a b by (simp add: gval_core [OF s'(2)] del: gval.simps(2))
  have w: "\<not> num_tok ''I0''" "\<not> num_tok ''I1''" "\<not> num_tok ''V1''" "var_of ''I0'' = INPUT_OUTPUT 0" "var_of ''I1'' = INPUT_OUTPUT 1"
      "var_of ''V1'' = INTERMEDIATE 1" "var_of ''V2'' = INTERMEDIATE 2" "var_of ''O3'' = INPUT_OUTPUT 3" by code_simp+
  have r: "prog_run atoi rebind_prog e (INPUT_OUTPUT 3) = e (INPUT_OUTPUT 0) * e (INPUT_OUTPUT 1) * e (INPUT_OUTPUT 0)" for e
    by (simp add: rebind_prog_def poly_val_def term_val_def signed_val'_def name_env_def w del: One_nat_def)
  show ?thesis
    by (intro exI [of _ s'] exI [of _ t'] exI [of _ 0] conjI allI r) (use t' g s'(3-5) n in \<open>simp_all add: rebind_parse_def\<close>)
qed

end
