(* ===== verification/Pws_Comparisons.thy ===== *)
theory Pws_Comparisons
  imports Pws_Values_Reduce Pws_Constraints
begin

text \<open>
  The gates of inequality tests and comparisons: the value of every gate that they are made of, the checks that they record as output
  constants, and what a circuit in which the checks hold says of the result. The relation \<open>wext\<close> is the part of \<open>ext\<close> that
  also holds where types change and checks are recorded.
\<close>

section \<open>Steps that record checks\<close>

definition wext :: "Primitive set \<Rightarrow> PWSCircuitParser \<Rightarrow> PWSCircuitParser \<Rightarrow> bool" where
  "wext V s s' \<longleftrightarrow> desc_ext (circuitDesc s) (circuitDesc s') \<and>
     (\<forall>p q. getCircuitPrimitive s p = Some q \<longrightarrow> (\<exists>q'. getCircuitPrimitive s' p = Some q' \<and> prim_ext q q')) \<and>
     prefix (map cc_value (constants s)) (map cc_value (constants s')) \<and>
     set (outConstantDesc s) \<subseteq> set (outConstantDesc s') \<and> (\<forall>p. isVariable p \<longrightarrow> live s' p \<longrightarrow> live s p \<or> p \<in> V)"

lemma wext_refl [simp]: "wext V s s"
  by (simp add: wext_def)

abbreviation only_of :: "Primitive set \<Rightarrow> allowed" where
  "only_of V \<equiv> Allowed UNIV {(p, l). p \<in> V}"

lemma ext_wext: "ext (only_of V) s s' \<Longrightarrow> wext V s s'"
  by (auto simp: ext_def wext_def kept_def)

lemma wext_trans:
  assumes "wext V s s'" "wext V s' s''"
  shows "wext V s s''"
  unfolding wext_def
proof (intro conjI allI impI)
  show "desc_ext (circuitDesc s) (circuitDesc s'')" using assms desc_ext_trans by (auto simp: wext_def)
  show "prefix (map cc_value (constants s)) (map cc_value (constants s''))" using assms by (auto simp: wext_def intro: prefix_order.trans)
  show "set (outConstantDesc s) \<subseteq> set (outConstantDesc s'')" using assms by (auto simp: wext_def)
  show "\<exists>q'. getCircuitPrimitive s'' p = Some q' \<and> prim_ext q q'" if "getCircuitPrimitive s p = Some q" for p q
    using assms that prim_ext_trans unfolding wext_def by metis
  show "live s p \<or> p \<in> V" if "isVariable p" "live s'' p" for p using assms that unfolding wext_def by metis
qed

lemma wext_live:
  assumes "wext V s s'" "live s p"
  shows "live s' p" "first_gate s' p = first_gate s p"
proof -
  obtain q where q: "getCircuitPrimitive s p = Some q" "isBound q" using assms(2) by (auto simp: live_def)
  then obtain q' where q': "getCircuitPrimitive s' p = Some q'" "prim_ext q q'" using assms(1) unfolding wext_def by blast
  show "live s' p" "first_gate s' p = first_gate s p"
    using q q' by (auto simp: live_def prim_ext_def isBound_def first_gate_def prefix_hd)
qed

lemma wext_pos: "wext V s s' \<Longrightarrow> pos_in s g \<Longrightarrow> pos_in s' g"
  by (auto simp: wext_def desc_ext_def intro: valid_pos_grows)

lemma wext_gv: "pwf s \<Longrightarrow> wext V s s' \<Longrightarrow> pos_in s g \<Longrightarrow> gv f s' g = gv f s g"
  by (simp add: gv_def gval_ext pwf_def wext_def valid_pos_def)

lemma wext_consts:
  assumes "wext V s s'" "consts_ok cn f s'"
  shows "consts_ok cn f s"
  unfolding consts_ok_def
proof (intro allI impI)
  fix i assume i: "i < length (constants s)" and b: "isBound (cc_base (constants s ! i))"
  have p: "prefix (map cc_value (constants s)) (map cc_value (constants s'))" using assms(1) by (simp add: wext_def)
  then have i': "i < length (constants s')" using i prefix_length_le [OF p] by simp
  have v: "cc_value (constants s' ! i) = cc_value (constants s ! i)" 
  proof -
    obtain zs where "map cc_value (constants s') = map cc_value (constants s) @ zs" using p by (auto simp: prefix_def)
    then have "map cc_value (constants s') ! i = map cc_value (constants s) ! i" using i by (simp add: nth_append)
    then show ?thesis using i i' by simp
  qed
  have "getCircuitPrimitive s (CONSTANT i) = Some (cc_base (constants s ! i))" using i by simp
  then have "live s (CONSTANT i)" using b by (simp add: live_def)
  from wext_live [OF assms(1) this] i i' b
  have "isBound (cc_base (constants s' ! i))" "hd (gateIndex (cc_base (constants s' ! i))) = hd (gateIndex (cc_base (constants s ! i)))"
    by (auto simp: live_def first_gate_def)
  then show "f (hd (gateIndex (cc_base (constants s ! i)))) = cn (cc_value (constants s ! i))"
    using assms(2) i' v by (auto simp: consts_ok_def)
qed

lemma wext_val: "wext V s s' \<Longrightarrow> vinv cn f s \<Longrightarrow> has_val cn f s g v \<Longrightarrow> has_val cn f s' g v"
  using wext_consts wext_gv wext_pos vinv_pwf unfolding has_val_def by metis

lemma wext_pval: "wext V s s' \<Longrightarrow> vinv cn f s \<Longrightarrow> live s p \<Longrightarrow> pval f s' p = pval f s p"
  by (metis wext_gv first_gate_in wext_live(2) pval_def vinv_pwf)

lemma wext_get: "wext V s s' \<Longrightarrow> getCircuitPrimitive s p = Some q \<Longrightarrow> \<exists>q. getCircuitPrimitive s' p = Some q"
  unfolding wext_def by blast

text \<open>A check: a gate of a value, and the constant that it has to have.\<close>

definition checked :: "(string \<Rightarrow> 'a) \<Rightarrow> (nat \<Rightarrow> 'a::comm_ring_1) \<Rightarrow> PWSCircuitParser \<Rightarrow> 'a \<Rightarrow> int \<Rightarrow> bool" where
  "checked cn f s v c \<longleftrightarrow> (\<exists>g. (g, int_str c) \<in> set (outConstantDesc s) \<and> has_val cn f s g v)"

lemma wext_checked: "wext V s s' \<Longrightarrow> vinv cn f s \<Longrightarrow> checked cn f s v c \<Longrightarrow> checked cn f s' v c"
  using wext_val unfolding checked_def wext_def by blast

text \<open>A primitive that exists and, once it has a gate, has the value.\<close>

definition wtot :: "Primitive set \<Rightarrow> (string \<Rightarrow> 'a) \<Rightarrow> (nat \<Rightarrow> 'a::comm_ring_1) \<Rightarrow> ('b \<times> PWSCircuitParser) option \<Rightarrow> PWSCircuitParser \<Rightarrow> ('b \<Rightarrow> PWSCircuitParser \<Rightarrow> bool) \<Rightarrow> bool" where
  "wtot V cn f r s Q \<longleftrightarrow> (\<exists>x s'. r = Some (x, s') \<and> vinv cn f s' \<and> wext V s s' \<and> Q x s')"

lemma tot_wtot: "tot (only_of V) cn f r s Q \<Longrightarrow> wtot V cn f r s Q"
  unfolding tot_def wtot_def using ext_wext by metis

lemma wtot_bind:
  assumes "wtot V cn f m s Q" "\<And>x s'. vinv cn f s' \<Longrightarrow> wext V s s' \<Longrightarrow> Q x s' \<Longrightarrow> wtot V cn f (k x s') s' R"
  shows "wtot V cn f (Option.bind m (\<lambda>(x, s). k x s)) s R"
proof -
  obtain x s' where m: "m = Some (x, s')" "vinv cn f s'" "wext V s s'" "Q x s'" using assms(1) by (auto simp: wtot_def)
  then obtain y s'' where "k x s' = Some (y, s'')" "vinv cn f s''" "wext V s' s''" "R y s''" using assms(2) [of s' x] by (auto simp: wtot_def)
  then show ?thesis using m(1,3) wext_trans by (auto simp: wtot_def)
qed

lemma wtot_Some: "vinv cn f s' \<Longrightarrow> wext V s s' \<Longrightarrow> Q x s' \<Longrightarrow> wtot V cn f (Some (x, s')) s Q"
  by (simp add: wtot_def)

lemma wtot_weaken: "wtot V cn f m s Q \<Longrightarrow> (\<And>x s'. vinv cn f s' \<Longrightarrow> wext V s s' \<Longrightarrow> Q x s' \<Longrightarrow> R x s') \<Longrightarrow> wtot V cn f m s R"
  by (auto simp: wtot_def)

section \<open>Recorded checks, magic variables and operations\<close>

lemma vinv_cong:
  assumes v: "vinv cn f s" and w: "refs_wf s'" and d: "circuitDesc s' = circuitDesc s" "constants s' = constants s" "constMap s' = constMap s"
    and G: "\<And>p. getCircuitPrimitive s' p = getCircuitPrimitive s p" "\<And>p. toPrimitive s' p = toPrimitive s p"
  shows "vinv cn f s'"
  using v w by (simp add: vinv_def swf_def pwf_def prims_wf_def tables_wf_def bound_ok_def typed_ok_def consts_ok_def one_value_def gv_def d G)

lemma wext_cong:
  assumes "circuitDesc s' = circuitDesc s" "constants s' = constants s" "\<And>p. getCircuitPrimitive s' p = getCircuitPrimitive s p"
    "set (outConstantDesc s) \<subseteq> set (outConstantDesc s')"
  shows "wext V s s'"
  using assms by (simp add: wext_def live_def)

lemma record_check:
  assumes v: "vinv cn f s" and g: "has_val cn f s g x"
  shows "vinv cn f (bindOutputConstant_int g c s)" "wext V s (bindOutputConstant_int g c s)" "checked cn f (bindOutputConstant_int g c s) x c"
proof -
  let ?s = "bindOutputConstant_int g c s"
  have F: "circuitDesc ?s = circuitDesc s" "constants ?s = constants s" "constMap ?s = constMap s" "magicOps ?s = magicOps s"
    "varMap ?s = varMap s" "inOutVarsMap ?s = inOutVarsMap s" "outConstantDesc ?s = outConstantDesc s @ [(g, int_str c)]"
    by (simp_all add: bindOutputConstant_int_def)
  have G: "getCircuitPrimitive ?s p = getCircuitPrimitive s p" "toPrimitive ?s p = toPrimitive s p" for p
    by (rule getCircuitPrimitive_cong toPrimitive_cong; simp add: F)+
  have r: "refs_wf ?s" using v g by (auto simp: refs_wf_def F vinv_def swf_def pwf_def has_val_def)
  show "vinv cn f ?s" by (rule vinv_cong [OF v r F(1-3) G])
  show w: "wext V s ?s" by (rule wext_cong) (auto simp: F G)
  then show "checked cn f ?s x c" using wext_val [OF w v g] by (auto simp: checked_def F)
qed

lemma makeMagic_total:
  assumes v: "vinv cn f s" and q: "getCircuitPrimitive s (INTERMEDIATE n) = Some q"
  shows "\<exists>s'. makeMagic (INTERMEDIATE n) s = Some s' \<and> vinv cn f s' \<and> wext V s s'"
proof -
  obtain v0 where v0: "map_of (varMap s) n = Some v0" using q by auto
  let ?s = "s\<lparr>varMap := map_set n (v0\<lparr>varType := MAGIC\<rparr>) (varMap s)\<rparr>"
  have m: "makeMagic (INTERMEDIATE n) s = Some ?s" using v0 by (simp add: makeMagic_def)
  have "typed_ok s" using v by (simp add: vinv_def swf_def)
  then have "toPrimitive s (INTERMEDIATE n) = Some (INTERMEDIATE n)" using q unfolding typed_ok_def by blast
  then have c: "cv_name v0 = n" "CVar_toPrimitive v0 = INTERMEDIATE n" using v0 by (auto simp: CVar_toPrimitive_def split: if_splits)
  have G: "getCircuitPrimitive ?s p = getCircuitPrimitive s p" "toPrimitive ?s p = toPrimitive s p" for p
    using v0 c by (cases p; simp add: CVar_toPrimitive_def isIO_def)+
  have "refs_wf ?s" using v by (simp add: vinv_def swf_def pwf_def refs_wf_def)
  then have "vinv cn f ?s" by (intro vinv_cong [OF v]) (simp_all add: G)
  moreover have "wext V s ?s" by (rule wext_cong) (simp_all add: G)
  ultimately show ?thesis using m by blast
qed

lemma addMagicOp_total:
  assumes v: "vinv cn f s" and g: "guard_wf (circuitDesc s) guard" and p: "list_all (pos_in s) (op_positions op)"
  shows "vinv cn f (addMagicOp op guard s)" "wext V s (addMagicOp op guard s)"
proof -
  let ?s = "addMagicOp op guard s"
  have F: "circuitDesc ?s = circuitDesc s" "constants ?s = constants s" "constMap ?s = constMap s" "magicOps ?s = magicOps s @ [(guard, op)]"
    "varMap ?s = varMap s" "inOutVarsMap ?s = inOutVarsMap s" "outConstantDesc ?s = outConstantDesc s"
    by (simp_all add: addMagicOp_def)
  have G: "getCircuitPrimitive ?s p = getCircuitPrimitive s p" "toPrimitive ?s p = toPrimitive s p" for p
    by (rule getCircuitPrimitive_cong toPrimitive_cong; simp add: F)+
  have r: "refs_wf ?s" using v g p by (auto simp: refs_wf_def F vinv_def swf_def pwf_def)
  show "vinv cn f ?s" by (rule vinv_cong [OF v r F(1-3) G])
  show "wext V s ?s" by (rule wext_cong) (simp_all add: F G)
qed

lemma wext_guard: "wext V s s' \<Longrightarrow> guard_wf (circuitDesc s) guard \<Longrightarrow> guard_wf (circuitDesc s') guard"
  by (auto simp: wext_def desc_ext_def intro: guard_wf_grows)

lemma count_total: "vinv cn f s \<Longrightarrow> vinv cn f (s\<lparr>opCount := c\<rparr>) \<and> wext V s (s\<lparr>opCount := c\<rparr>)"
proof -
  assume v: "vinv cn f s"
  let ?s = "s\<lparr>opCount := c\<rparr>"
  have G: "getCircuitPrimitive ?s p = getCircuitPrimitive s p" "toPrimitive ?s p = toPrimitive s p" for p
    by (rule getCircuitPrimitive_cong toPrimitive_cong; simp)+
  have "refs_wf ?s" using v by (simp add: vinv_def swf_def pwf_def refs_wf_def)
  then have "vinv cn f ?s" by (intro vinv_cong [OF v]) (simp_all add: G)
  moreover have "wext V s ?s" by (rule wext_cong) (simp_all add: G)
  ultimately show ?thesis by simp
qed

section \<open>Values of primitives\<close>

definition is_val :: "(nat \<Rightarrow> 'a::comm_ring_1) \<Rightarrow> PWSCircuitParser \<Rightarrow> Primitive \<Rightarrow> 'a \<Rightarrow> bool" where
  "is_val f s p v \<longleftrightarrow> live s p \<and> pval f s p = v"

lemma wext_is_val: "wext V s s' \<Longrightarrow> vinv cn f s \<Longrightarrow> is_val f s p v \<Longrightarrow> is_val f s' p v"
  by (simp add: is_val_def wext_live wext_pval)

lemma is_val_unique: "is_val f s p v \<Longrightarrow> is_val f s p w \<Longrightarrow> v = w"
  by (simp add: is_val_def)

text \<open>The primitives exist, and those that are variables may be given a gate.\<close>

definition usable :: "Primitive set \<Rightarrow> PWSCircuitParser \<Rightarrow> Primitive \<Rightarrow> bool" where
  "usable V s p \<longleftrightarrow> (\<exists>q. getCircuitPrimitive s p = Some q) \<and> (isVariable p \<longrightarrow> p \<in> V)"

lemma wext_usable: "wext V s s' \<Longrightarrow> usable V s p \<Longrightarrow> usable V s' p"
  using wext_get by (auto simp: usable_def)

lemma usable_more: "usable V s p \<Longrightarrow> usable (insert y V) s p"
  by (auto simp: usable_def)

context numeral_reader
begin

lemma getGate_w:
  assumes v: "vinv cn f s" and p: "usable V s p"
  shows "wtot V cn f (getGate p 0 s) s (\<lambda>g s'. \<exists>x. is_val f s' p x \<and> has_val cn f s' g x)"
proof -
  obtain q where q: "getCircuitPrimitive s p = Some q" "isVariable p \<longrightarrow> (p, 0) \<in> a_layers (only_of V)" using p by (auto simp: usable_def)
  have "tot (only_of V) cn f (getGate p 0 s) s (\<lambda>g s'. has_val cn f s' g (pval f s' p) \<and> live s' p \<and> (0 \<noteq> (0 :: nat) \<longrightarrow> gp_layer g = 0))"
    by (rule getGate_total [OF v q(1) disjI1 [OF refl] q(2)])
  from tot_wtot [OF this] show ?thesis by (rule wtot_weaken) (auto simp: is_val_def)
qed

lemma const_w:
  assumes v: "vinv cn f s"
  shows "\<exists>p s1 g s2. addConstant (int_str n) s = (p, s1) \<and> getGate p 0 s1 = Some (g, s2) \<and> vinv cn f s2 \<and> wext V s s2 \<and> has_val cn f s2 g (of_int n)"
proof -
  obtain p s1 where s1: "addConstant (int_str n) s = (p, s1)" "vinv cn f s1" "ext (only_of V) s s1" "const_of s1 p (int_str n)"
    using tot_addConstant [where A = "only_of V", OF v, of "int_str n"] unfolding tot_def by auto
  obtain g s2 where s2: "getGate p 0 s1 = Some (g, s2)" "vinv cn f s2" "ext (only_of V) s1 s2" "has_val cn f s2 g (of_int n)"
    using const_gate_total [where A = "only_of V", OF s1(2,4), of 0] unfolding tot_def cn_int by auto
  show ?thesis using s1(1) s2 wext_trans [OF ext_wext [OF s1(3)] ext_wext [OF s2(3)]] by blast
qed

lemmas makeGate_w = tot_wtot [OF makeGate_total]
lemmas reduce_w = tot_wtot [OF reduce_total]
lemmas makeSubGate_w = tot_wtot [OF makeSubGate_total]

text \<open>The product of a variable and its difference from a number has to be 0.\<close>

lemma zero_or_other_w:
  assumes v: "vinv cn f s" and p: "usable V s var"
  shows "wtot V cn f (makeZeroOrOtherGate var other s) s (\<lambda>_ s'. \<exists>x. is_val f s' var x \<and> checked cn f s' (x * (x - of_int other)) 0)"
proof -
  obtain c s1 g s2 where s2: "addConstant (int_str (- other)) s = (c, s1)" "getGate c 0 s1 = Some (g, s2)" "vinv cn f s2" "wext V s s2"
      "has_val cn f s2 g (of_int (- other))"
    using const_w [OF v] by blast
  obtain vg s3 x where s3: "getGate var 0 s2 = Some (vg, s3)" "vinv cn f s3" "wext V s2 s3" "is_val f s3 var x" "has_val cn f s3 vg x"
    using getGate_w [OF s2(3) wext_usable [OF s2(4) p]] unfolding wtot_def by blast
  obtain nz s4 where s4: "makeGate OpADD g vg s3 = Some (nz, s4)" "vinv cn f s4" "wext V s3 s4" "has_val cn f s4 nz (of_int (- other) + x)"
    using makeGate_w [where V = V, OF s3(2) _ wext_val [OF s3(3) s2(3,5)] s3(5), of OpADD] unfolding wtot_def by auto
  obtain z s5 where s5: "makeGate OpMUL vg nz s4 = Some (z, s5)" "vinv cn f s5" "wext V s4 s5" "has_val cn f s5 z (x * (of_int (- other) + x))"
    using makeGate_w [where V = V, OF s4(2) _ wext_val [OF s4(3) s3(2,5)] s4(4), of OpMUL] unfolding wtot_def by auto
  let ?s = "bindOutputConstant_int z 0 s5"
  note R = record_check [OF s5(2,4), where c = 0]
  have w: "wext V s3 ?s" using wext_trans [OF wext_trans [OF s4(3) s5(3)] R(2)] .
  have "makeZeroOrOtherGate var other s = Some (z, ?s)" using s2(1,2) s3(1) s4(1) s5(1) by (simp add: makeZeroOrOtherGate_def)
  moreover have "wext V s ?s" using wext_trans [OF wext_trans [OF s2(4) s3(3)] w] .
  ultimately show ?thesis using R(1,3) wext_is_val [OF w s3(2,4)] by (auto simp: wtot_def algebra_simps)
qed

lemma two_gates:
  assumes v: "vinv cn f s" and p: "usable V s p1" "usable V s p2"
  shows "\<exists>g1 s1 g2 s2 x1 x2. getGate p1 0 s = Some (g1, s1) \<and> getGate p2 0 s1 = Some (g2, s2) \<and> vinv cn f s2 \<and> wext V s s2 \<and>
    is_val f s2 p1 x1 \<and> is_val f s2 p2 x2 \<and> has_val cn f s2 g1 x1 \<and> has_val cn f s2 g2 x2"
proof -
  obtain g1 s1 x1 where s1: "getGate p1 0 s = Some (g1, s1)" "vinv cn f s1" "wext V s s1" "is_val f s1 p1 x1" "has_val cn f s1 g1 x1"
    using getGate_w [OF v p(1)] unfolding wtot_def by blast
  obtain g2 s2 x2 where s2: "getGate p2 0 s1 = Some (g2, s2)" "vinv cn f s2" "wext V s1 s2" "is_val f s2 p2 x2" "has_val cn f s2 g2 x2"
    using getGate_w [OF s1(2) wext_usable [OF s1(3) p(2)]] unfolding wtot_def by blast
  show ?thesis using s1(1) s2 wext_trans [OF s1(3) s2(3)] wext_is_val [OF s2(3) s1(2,4)] wext_val [OF s2(3) s1(2,5)] by blast
qed

lemma gates_of_w:
  assumes v: "vinv cn f s" and p: "usable V s p1" "usable V s p2"
  shows "wtot V cn f (gates_of rtl p1 p2 s) s (\<lambda>(g1, g2) s'. \<exists>x1 x2. is_val f s' p1 x1 \<and> is_val f s' p2 x2 \<and> has_val cn f s' g1 x1 \<and> has_val cn f s' g2 x2)"
proof (cases rtl)
  case True
  then show ?thesis using two_gates [OF v p(2,1)] unfolding gates_of_def wtot_def by auto blast
next
  case False
  then show ?thesis using two_gates [OF v p] unfolding gates_of_def wtot_def by auto blast
qed

lemma makeSub_of_w:
  assumes v: "vinv cn f s" and p: "usable V s p1" "usable V s p2"
  shows "wtot V cn f (makeSub_of rtl p1 p2 s) s (\<lambda>g s'. \<exists>x1 x2. is_val f s' p1 x1 \<and> is_val f s' p2 x2 \<and> has_val cn f s' g (x1 - x2))"
proof -
  obtain g1 g2 s1 x1 x2 where s1: "gates_of rtl p1 p2 s = Some ((g1, g2), s1)" "vinv cn f s1" "wext V s s1" "is_val f s1 p1 x1" "is_val f s1 p2 x2"
      "has_val cn f s1 g1 x1" "has_val cn f s1 g2 x2"
    using gates_of_w [OF v p, of rtl] unfolding wtot_def by auto
  obtain g s2 where s2: "makeSubGate g1 g2 s1 = Some (g, s2)" "vinv cn f s2" "wext V s1 s2" "has_val cn f s2 g (x1 - x2)"
    using makeSubGate_w [where V = V, OF s1(2,6,7)] unfolding wtot_def by auto
  show ?thesis using s1(1) s2 wext_trans [OF s1(3) s2(3)] wext_is_val [OF s2(3) s1(2)] s1(4,5) by (auto simp: makeSub_of_def wtot_def)
qed

text \<open>The result of a constraint is bound to a variable that has no gate yet.\<close>

lemma wext_more: "wext V s s' \<Longrightarrow> V \<subseteq> W \<Longrightarrow> wext W s s'"
  unfolding wext_def by blast

lemma bind_result:
  assumes v: "vinv cn f s" and y: "isVariable y" "getCircuitPrimitive s y = Some q" "\<not> live s y" and g: "has_val cn f s g x"
  shows "\<exists>s'. bindVariable y g s = Some s' \<and> vinv cn f s' \<and> wext (insert y V) s s' \<and> live s' y \<and> has_val cn f s' (first_gate s' y) x"
proof -
  let ?W = "insert y V"
  have q: "\<not> isBound q" using y by (auto simp: live_def)
  have a: "(y, gp_layer g) \<in> a_layers (only_of ?W)" by simp
  have pg: "pos_in s g" using g by (simp add: has_val_def)
  obtain s' where s': "bindVariable y g s = Some s'" "vinv cn f s'" "ext (only_of ?W) s s'" "live s' y" "first_gate s' y = g"
    using bindVariable_fresh [where A = "only_of ?W", OF v y(2) q pg disjI1 [OF y(1)]] a by blast
  then show ?thesis using wext_val [OF ext_wext [OF s'(3)] v g] ext_wext by blast
qed

text \<open>Both differences of two primitives.\<close>

lemma sub_pair:
  assumes v: "vinv cn f s" and p: "usable V s x1" "usable V s x2"
  shows "\<exists>d s1 e s2 u w. makeSub_of rtl x1 x2 s = Some (d, s1) \<and> makeSub_of rtl x2 x1 s1 = Some (e, s2) \<and> vinv cn f s2 \<and> wext V s s2 \<and>
    is_val f s2 x1 u \<and> is_val f s2 x2 w \<and> has_val cn f s2 d (u - w) \<and> has_val cn f s2 e (w - u)"
proof -
  obtain d s1 u w where s1: "makeSub_of rtl x1 x2 s = Some (d, s1)" "vinv cn f s1" "wext V s s1" "is_val f s1 x1 u" "is_val f s1 x2 w" "has_val cn f s1 d (u - w)"
    using makeSub_of_w [OF v p] unfolding wtot_def by blast
  obtain e s2 w' u' where s2: "makeSub_of rtl x2 x1 s1 = Some (e, s2)" "vinv cn f s2" "wext V s1 s2" "is_val f s2 x2 w'" "is_val f s2 x1 u'" "has_val cn f s2 e (w' - u')"
    using makeSub_of_w [OF s1(2) wext_usable [OF s1(3) p(2)] wext_usable [OF s1(3) p(1)]] unfolding wtot_def by blast
  note k = wext_is_val [OF s2(3) s1(2,4)] wext_is_val [OF s2(3) s1(2,5)]
  have "u' = u" "w' = w" using is_val_unique k s2(4,5) by blast+
  then show ?thesis using s1(1) s2(1,2,6) wext_trans [OF s1(3) s2(3)] k wext_val [OF s2(3) s1(2,6)] by blast
qed

text \<open>The end of a constraint: the operation that computes its magic gates, and the statistics.\<close>

lemma magic_tail:
  assumes v: "vinv cn f s" and p: "usable V s x1" "usable V s x2" and gw: "guard_wf (circuitDesc s) guard"
    and op: "\<And>g1 g2. op_positions (op g1 g2) = ps @ [g1, g2]" "list_all (pos_in s) ps"
  shows "\<exists>g1 g2 s1. gates_of rtl x1 x2 s = Some ((g1, g2), s1) \<and> (\<forall>c. vinv cn f ((addMagicOp (op g1 g2) guard s1)\<lparr>opCount := c\<rparr>) \<and>
    wext V s ((addMagicOp (op g1 g2) guard s1)\<lparr>opCount := c\<rparr>))"
proof -
  obtain g1 g2 s1 where s1: "gates_of rtl x1 x2 s = Some ((g1, g2), s1)" "vinv cn f s1" "wext V s s1" "pos_in s1 g1" "pos_in s1 g2"
    using gates_of_w [OF v p, of rtl] unfolding wtot_def has_val_def by auto
  have "list_all (pos_in s1) (op_positions (op g1 g2))" using op s1(4,5) wext_pos [OF s1(3)] by (auto simp: list_all_iff)
  note M = addMagicOp_total [OF s1(2) wext_guard [OF s1(3) gw] this]
  show ?thesis using s1(1) count_total [OF M(1)] wext_trans [OF s1(3) wext_trans [OF M(2)]] by blast
qed

section \<open>Inequality\<close>

lemma notEqual_w:
  assumes v: "vinv cn f s" and p: "usable V s (INTERMEDIATE n)" "usable V s x1" "usable V s x2"
    and y: "isVariable y" "getCircuitPrimitive s y = Some q" "\<not> live s y" "y \<notin> V" and gw: "guard_wf (circuitDesc s) guard"
  shows "wtot (insert y V) cn f (notEqual_gates rtl guard (INTERMEDIATE n) x1 x2 y s) s (\<lambda>_ s'. \<exists>m u w. is_val f s' x1 u \<and> is_val f s' x2 w \<and>
    live s' y \<and> has_val cn f s' (first_gate s' y) (m * (u - w)) \<and> checked cn f s' (m * (u - w) * (w - u) + (u - w)) 0)"
proof -
  let ?m = "INTERMEDIATE n" and ?W = "insert y V"
  obtain qm where qm: "getCircuitPrimitive s ?m = Some qm" using p(1) by (auto simp: usable_def)
  obtain s1 where s1: "makeMagic ?m s = Some s1" "vinv cn f s1" "wext V s s1" using makeMagic_total [OF v qm] by blast
  obtain mg s2 m where s2: "getGate ?m 0 s1 = Some (mg, s2)" "vinv cn f s2" "wext V s1 s2" "has_val cn f s2 mg m"
    using getGate_w [OF s1(2) wext_usable [OF s1(3) p(1)]] unfolding wtot_def by blast
  have w2: "wext V s s2" using wext_trans [OF s1(3) s2(3)] .
  obtain d s3 e s4 u w where s4: "makeSub_of rtl x1 x2 s2 = Some (d, s3)" "makeSub_of rtl x2 x1 s3 = Some (e, s4)" "vinv cn f s4" "wext V s2 s4"
      "is_val f s4 x1 u" "is_val f s4 x2 w" "has_val cn f s4 d (u - w)" "has_val cn f s4 e (w - u)"
    using sub_pair [OF s2(2) wext_usable [OF w2 p(2)] wext_usable [OF w2 p(3)]] by blast
  obtain md s5 where s5: "makeGate OpMUL mg d s4 = Some (md, s5)" "vinv cn f s5" "wext V s4 s5" "has_val cn f s5 md (m * (u - w))"
    using makeGate_w [where V = V, OF s4(3) _ wext_val [OF s4(4) s2(2,4)] s4(7), of OpMUL] unfolding wtot_def by auto
  obtain mdd s6 where s6: "makeGate OpMUL md e s5 = Some (mdd, s6)" "vinv cn f s6" "wext V s5 s6" "has_val cn f s6 mdd (m * (u - w) * (w - u))"
    using makeGate_w [where V = V, OF s5(2) _ s5(4) wext_val [OF s5(3) s4(3,8)], of OpMUL] unfolding wtot_def by auto
  obtain c s7 where s7: "makeGate OpADD mdd d s6 = Some (c, s7)" "vinv cn f s7" "wext V s6 s7" "has_val cn f s7 c (m * (u - w) * (w - u) + (u - w))"
    using makeGate_w [where V = V, OF s6(2) _ s6(4) wext_val [OF wext_trans [OF s5(3) s6(3)] s4(3,7)], of OpADD] unfolding wtot_def by auto
  have w47: "wext V s4 s7" using wext_trans [OF s5(3) wext_trans [OF s6(3) s7(3)]] .
  have w7: "wext V s s7" using wext_trans [OF w2 wext_trans [OF s4(4) w47]] .
  obtain q7 where q7: "getCircuitPrimitive s7 y = Some q7" using wext_get [OF w7 y(2)] by blast
  have n7: "\<not> live s7 y" using w7 y by (auto simp: wext_def)
  obtain s8 where s8: "bindVariable y md s7 = Some s8" "vinv cn f s8" "wext ?W s7 s8" "live s8 y" "has_val cn f s8 (first_gate s8 y) (m * (u - w))"
    using bind_result [OF s7(2) y(1) q7 n7 wext_val [OF wext_trans [OF s6(3) s7(3)] s5(2,4)]] by blast
  let ?s9 = "bindOutputConstant_int c 0 s8"
  note R = record_check [OF s8(2) wext_val [OF s8(3) s7(2,4)], where c = 0]
  note more = wext_more [of V, OF _ subset_insertI]
  have w49: "wext ?W s4 ?s9" using wext_trans [OF more [OF w47] wext_trans [OF s8(3) R(2)]] .
  have w9: "wext ?W s ?s9" using wext_trans [OF more [OF wext_trans [OF w2 s4(4)]] w49] .
  have pm: "list_all (pos_in ?s9) [mg]" using wext_pos [OF wext_trans [OF more [OF s4(4)] w49]] s2(4) by (simp add: has_val_def)
  obtain g1 g2 s10 where s10: "gates_of rtl x1 x2 ?s9 = Some ((g1, g2), s10)"
      "\<And>c. vinv cn f ((addMagicOp (NotEqualOperation mg g1 g2) guard s10)\<lparr>opCount := c\<rparr>)" "\<And>c. wext ?W ?s9 ((addMagicOp (NotEqualOperation mg g1 g2) guard s10)\<lparr>opCount := c\<rparr>)"
    using magic_tail [OF R(1) wext_usable [OF w9 usable_more [OF p(2)]] wext_usable [OF w9 usable_more [OF p(3)]] wext_guard [OF w9 gw] _ pm, of "NotEqualOperation mg" rtl]
    by auto
  let ?s11 = "addMagicOp (NotEqualOperation mg g1 g2) guard s10"
  let ?s' = "?s11\<lparr>opCount := (opCount ?s11)\<lparr>numIneqs := numIneqs (opCount ?s11) + 1\<rparr>\<rparr>"
  have e: "notEqual_gates rtl guard ?m x1 x2 y s = Some ((), ?s')"
    using s1(1) s2(1) s4(1,2) s5(1) s6(1) s7(1) s8(1) s10(1) by (simp add: notEqual_gates_def Let_def)
  note l9 = s10(3) [of "(opCount ?s11)\<lparr>numIneqs := numIneqs (opCount ?s11) + 1\<rparr>"]
  have l8: "wext ?W s8 ?s'" using wext_trans [OF R(2) l9] .
  have l4: "wext ?W s4 ?s'" using wext_trans [OF w49 l9] .
  show ?thesis using e s10(2) wext_trans [OF w9 l9] wext_is_val [OF l4 s4(3,5)] wext_is_val [OF l4 s4(3,6)] wext_live [OF l8 s8(4)] wext_val [OF l8 s8(2,5)]
      wext_checked [OF l9 R(1,3)] unfolding wtot_def by metis
qed

end

section \<open>Comparison\<close>

fun powers :: "int \<Rightarrow> nat \<Rightarrow> int list" where
  "powers num 0 = []"
| "powers num (Suc k) = num # powers (2 * num) k"

text \<open>The bits of a difference, with the check that each is 0 or its power of 2.\<close>

definition bits_at :: "(string \<Rightarrow> 'a) \<Rightarrow> (nat \<Rightarrow> 'a::comm_ring_1) \<Rightarrow> PWSCircuitParser \<Rightarrow> int list \<Rightarrow> GatePosition list \<Rightarrow> 'a list \<Rightarrow> bool" where
  "bits_at cn f s ws gs bs \<longleftrightarrow> list_all2 (has_val cn f s) gs bs \<and> list_all2 (\<lambda>b w. checked cn f s (b * (b - of_int w)) 0) bs ws"

lemma wext_bits: "wext V s s' \<Longrightarrow> vinv cn f s \<Longrightarrow> bits_at cn f s ws gs bs \<Longrightarrow> bits_at cn f s' ws gs bs"
  unfolding bits_at_def using wext_val wext_checked by (auto elim!: list_all2_mono)

context numeral_reader
begin

lemma bit_gates_w:
  assumes "vinv cn f s" "\<And>i. i < k \<Longrightarrow> INTERMEDIATE (n0 + i) \<in> V"
  shows "wtot V cn f (bit_gates n0 k num s) s (\<lambda>(gs, num') s'. num' = num * 2 ^ k \<and> (\<exists>bs. bits_at cn f s' (powers num k) gs bs))"
  using assms
proof (induction k arbitrary: n0 num s)
  case 0
  then show ?case by (simp add: wtot_def bits_at_def)
next
  case (Suc k)
  let ?n = "INTERMEDIATE n0"
  have nV: "?n \<in> V" using Suc.prems(2) [of 0] by simp
  have a0: "((if MAGIC = INPUT \<or> MAGIC = OUTPUT then INPUT_OUTPUT n0 else INTERMEDIATE n0), MAGIC) \<in> a_types (only_of V)" by simp
  obtain s1 q where s1: "addVariable MAGIC n0 s = (?n, s1)" "vinv cn f s1" "ext (only_of V) s s1" "getCircuitPrimitive s1 ?n = Some q"
    using tot_addVariable [where A = "only_of V", OF Suc.prems(1) a0] unfolding tot_def by auto
  have u1: "usable V s1 ?n" using s1(4) nV unfolding usable_def by blast
  obtain s2 where s2: "makeMagic ?n s1 = Some s2" "vinv cn f s2" "wext V s1 s2" using makeMagic_total [OF s1(2,4)] by blast
  obtain z s3 b where s3: "makeZeroOrOtherGate ?n num s2 = Some (z, s3)" "vinv cn f s3" "wext V s2 s3" "is_val f s3 ?n b" "checked cn f s3 (b * (b - of_int num)) 0"
    using zero_or_other_w [OF s2(2) wext_usable [OF s2(3) u1]] unfolding wtot_def by blast
  have u3: "usable V s3 ?n" using wext_usable [OF wext_trans [OF s2(3) s3(3)] u1] .
  obtain g s4 b' where s4: "getGate ?n 0 s3 = Some (g, s4)" "vinv cn f s4" "wext V s3 s4" "is_val f s4 ?n b'" "has_val cn f s4 g b'"
    using getGate_w [OF s3(2) u3] unfolding wtot_def by blast
  have b: "b' = b" using is_val_unique [OF s4(4) wext_is_val [OF s4(3) s3(2,4)]] .
  have k: "INTERMEDIATE (Suc n0 + i) \<in> V" if "i < k" for i using Suc.prems(2) [of "Suc i"] that by simp
  obtain gs num' s5 bs where s5: "bit_gates (Suc n0) k (2 * num) s4 = Some ((gs, num'), s5)" "vinv cn f s5" "wext V s4 s5" "num' = 2 * num * 2 ^ k"
      "bits_at cn f s5 (powers (2 * num) k) gs bs"
    using Suc.IH [where ?n0.0 = "Suc n0" and num = "2 * num", OF s4(2) k] unfolding wtot_def by auto
  have "bit_gates n0 (Suc k) num s = Some ((g # gs, num'), s5)" using s1(1) s2(1) s3(1) s4(1) s5(1) by simp
  moreover have "wext V s s5" using wext_trans [OF ext_wext [OF s1(3)] wext_trans [OF wext_trans [OF s2(3) s3(3)] wext_trans [OF s4(3) s5(3)]]] .
  moreover have "bits_at cn f s5 (powers num (Suc k)) (g # gs) (b # bs)"
    using s5(5) wext_val [OF s5(3) s4(2,5)] b wext_checked [OF wext_trans [OF s4(3) s5(3)] s3(2,5)] by (simp add: bits_at_def)
  ultimately show ?case using s5(2,4) by (auto simp: wtot_def)
qed

lemma difference_w:
  assumes v: "vinv cn f s" and V: "\<And>i. i < k \<Longrightarrow> INTERMEDIATE (n0 + i) \<in> V"
  shows "wtot V cn f (difference_gates n0 k s) s (\<lambda>(gs, g) s'. (\<exists>bs. bits_at cn f s' (powers 1 k) gs bs) \<and> has_val cn f s' g (- (2 ^ k)))"
proof -
  obtain gs s1 bs where s1: "bit_gates n0 k 1 s = Some ((gs, 2 ^ k), s1)" "vinv cn f s1" "wext V s s1" "bits_at cn f s1 (powers 1 k) gs bs"
    using bit_gates_w [where V = V and num = 1 and k = k, OF v V] unfolding wtot_def by auto
  obtain p s2 g s3 where s3: "addConstant (int_str (- (2 ^ k))) s1 = (p, s2)" "getGate p 0 s2 = Some (g, s3)" "vinv cn f s3" "wext V s1 s3"
      "has_val cn f s3 g (of_int (- (2 ^ k)))"
    using const_w [OF s1(2)] by blast
  have "difference_gates n0 k s = Some ((gs, g), s3)" using s1(1) s3(1,2) by (simp add: difference_gates_def)
  then show ?thesis using s3(3,5) wext_trans [OF s1(3) s3(4)] wext_bits [OF s3(4) s1(2,4)] by (auto simp: wtot_def)
qed

lemma zero_or_one:
  assumes "vinv cn f s" "usable V s var"
  shows "\<exists>z s' x. makeZeroOrOtherGate var 1 s = Some (z, s') \<and> vinv cn f s' \<and> wext V s s' \<and> is_val f s' var x \<and> checked cn f s' (x * (x - 1)) 0"
  using zero_or_other_w [OF assms, of 1] unfolding wtot_def by auto

text \<open>The three flags: each is 0 or 1, and their sum is 1.\<close>

lemma flag_gates_w:
  assumes v: "vinv cn f s" and p: "usable V s (INTERMEDIATE a)" "usable V s (INTERMEDIATE b)" "usable V s (INTERMEDIATE c)"
  shows "wtot V cn f (flag_gates (INTERMEDIATE a) (INTERMEDIATE b) (INTERMEDIATE c) s) s (\<lambda>ms s'. \<exists>x y z g0 g1 g2. ms = [g0, g1, g2] \<and>
    has_val cn f s' g0 x \<and> has_val cn f s' g1 y \<and> has_val cn f s' g2 z \<and> checked cn f s' (x * (x - 1)) 0 \<and> checked cn f s' (y * (y - 1)) 0 \<and>
    checked cn f s' (z * (z - 1)) 0 \<and> checked cn f s' (x + y + z) 1)"
proof -
  let ?a = "INTERMEDIATE a" and ?b = "INTERMEDIATE b" and ?c = "INTERMEDIATE c"
  have U: "\<exists>q. getCircuitPrimitive s' p = Some q" if "usable V s' p" for s' p using that by (auto simp: usable_def)
  obtain s1 where s1: "makeMagic ?a s = Some s1" "vinv cn f s1" "wext V s s1" using makeMagic_total [OF v] U [OF p(1)] by blast
  obtain s2 where s2: "makeMagic ?b s1 = Some s2" "vinv cn f s2" "wext V s1 s2"
    using makeMagic_total [OF s1(2)] U [OF wext_usable [OF s1(3) p(2)]] by blast
  have w2: "wext V s s2" using wext_trans [OF s1(3) s2(3)] .
  obtain s3 where s3: "makeMagic ?c s2 = Some s3" "vinv cn f s3" "wext V s2 s3"
    using makeMagic_total [OF s2(2)] U [OF wext_usable [OF w2 p(3)]] by blast
  have w3: "wext V s s3" using wext_trans [OF w2 s3(3)] .
  obtain za s4 x where s4: "makeZeroOrOtherGate ?a 1 s3 = Some (za, s4)" "vinv cn f s4" "wext V s3 s4" "is_val f s4 ?a x" "checked cn f s4 (x * (x - 1)) 0"
    using zero_or_one [OF s3(2) wext_usable [OF w3 p(1)]] by blast
  have w4: "wext V s s4" using wext_trans [OF w3 s4(3)] .
  obtain zb s5 y where s5: "makeZeroOrOtherGate ?b 1 s4 = Some (zb, s5)" "vinv cn f s5" "wext V s4 s5" "is_val f s5 ?b y" "checked cn f s5 (y * (y - 1)) 0"
    using zero_or_one [OF s4(2) wext_usable [OF w4 p(2)]] by blast
  have w5: "wext V s s5" using wext_trans [OF w4 s5(3)] .
  obtain zc s6 z where s6: "makeZeroOrOtherGate ?c 1 s5 = Some (zc, s6)" "vinv cn f s6" "wext V s5 s6" "is_val f s6 ?c z" "checked cn f s6 (z * (z - 1)) 0"
    using zero_or_one [OF s5(2) wext_usable [OF w5 p(3)]] by blast
  have w6: "wext V s s6" using wext_trans [OF w5 s6(3)] .
  obtain g0 s7 g1 s8 x' y' where s8: "getGate ?a 0 s6 = Some (g0, s7)" "getGate ?b 0 s7 = Some (g1, s8)" "vinv cn f s8" "wext V s6 s8"
      "is_val f s8 ?a x'" "is_val f s8 ?b y'" "has_val cn f s8 g0 x'" "has_val cn f s8 g1 y'"
    using two_gates [OF s6(2) wext_usable [OF w6 p(1)] wext_usable [OF w6 p(2)]] by blast
  have w8: "wext V s s8" using wext_trans [OF w6 s8(4)] .
  obtain g2 s9 z' where s9: "getGate ?c 0 s8 = Some (g2, s9)" "vinv cn f s9" "wext V s8 s9" "is_val f s9 ?c z'" "has_val cn f s9 g2 z'"
    using getGate_w [OF s8(3) wext_usable [OF w8 p(3)]] unfolding wtot_def by blast
  have l6: "wext V s6 s9" using wext_trans [OF s8(4) s9(3)] .
  have l5: "wext V s5 s9" using wext_trans [OF s6(3) l6] .
  have l4: "wext V s4 s9" using wext_trans [OF s5(3) l5] .
  have eq: "x' = x" "y' = y" "z' = z"
    using is_val_unique [OF wext_is_val [OF s9(3) s8(3,5)] wext_is_val [OF l4 s4(2,4)]] is_val_unique [OF wext_is_val [OF s9(3) s8(3,6)] wext_is_val [OF l5 s5(2,4)]]
      is_val_unique [OF s9(4) wext_is_val [OF l6 s6(2,4)]] by simp_all
  note h = wext_val [OF s9(3) s8(3,7)] wext_val [OF s9(3) s8(3,8)] s9(5)
  have "list_all2 (has_val cn f s9) [g0, g1, g2] [x, y, z]" using h eq by simp
  then obtain t s10 where s10: "reduce OpADD [g0, g1, g2] s9 = Some (t, s10)" "vinv cn f s10" "wext V s9 s10" "has_val cn f s10 t (x + y + z)"
    using reduce_w [where V = V, OF s9(2), of OpADD "[g0, g1, g2]" "[x, y, z]"] unfolding wtot_def by (auto simp: total'_def algebra_simps)
  let ?s = "bindOutputConstant_int t 1 s10"
  note R = record_check [OF s10(2,4), where c = 1]
  have l: "wext V s9 ?s" using wext_trans [OF s10(3) R(2)] .
  have "flag_gates ?a ?b ?c s = Some ([g0, g1, g2], ?s)"
    using s1(1) s2(1) s3(1) s4(1) s5(1) s6(1) s8(1,2) s9(1) s10(1) by (simp add: flag_gates_def)
  then show ?thesis
    using R(1,3) wext_trans [OF wext_trans [OF w8 s9(3)] l] wext_val [OF l s9(2)] h eq wext_checked [OF wext_trans [OF l4 l] s4(2,5)]
      wext_checked [OF wext_trans [OF l5 l] s5(2,5)] wext_checked [OF wext_trans [OF l6 l] s6(2,5)]
    unfolding wtot_def by (intro exI conjI) (assumption | rule refl | simp)+
qed

text \<open>What the flags say of the difference.\<close>

lemma compare_w:
  assumes v: "vinv cn f s" and h: "has_val cn f s g0 x" "has_val cn f s g1 y" "has_val cn f s g2 z" "has_val cn f s d n" "has_val cn f s a u" "has_val cn f s b w"
  shows "wtot V cn f (compare_gates [g0, g1, g2] d a b s) s (\<lambda>_ s'. checked cn f s' (x * (n + w)) 0 \<and> checked cn f s' (z * (n + u)) 0 \<and> checked cn f s' (y * u) 0)"
proof -
  obtain p s1 where s1: "makeGate OpADD d b s = Some (p, s1)" "vinv cn f s1" "wext V s s1" "has_val cn f s1 p (n + w)"
    using makeGate_w [where V = V, OF v _ h(4,6), of OpADD] unfolding wtot_def by auto
  obtain lt s2 where s2: "makeGate OpMUL g0 p s1 = Some (lt, s2)" "vinv cn f s2" "wext V s1 s2" "has_val cn f s2 lt (x * (n + w))"
    using makeGate_w [where V = V, OF s1(2) _ wext_val [OF s1(3) v h(1)] s1(4), of OpMUL] unfolding wtot_def by auto
  let ?s3 = "bindOutputConstant_int lt 0 s2"
  note R3 = record_check [OF s2(2,4), where c = 0]
  have w3: "wext V s ?s3" using wext_trans [OF wext_trans [OF s1(3) s2(3)] R3(2)] .
  obtain q s4 where s4: "makeGate OpADD d a ?s3 = Some (q, s4)" "vinv cn f s4" "wext V ?s3 s4" "has_val cn f s4 q (n + u)"
    using makeGate_w [where V = V, OF R3(1) _ wext_val [OF w3 v h(4)] wext_val [OF w3 v h(5)], of OpADD] unfolding wtot_def by auto
  have w4: "wext V s s4" using wext_trans [OF w3 s4(3)] .
  obtain gt s5 where s5: "makeGate OpMUL g2 q s4 = Some (gt, s5)" "vinv cn f s5" "wext V s4 s5" "has_val cn f s5 gt (z * (n + u))"
    using makeGate_w [where V = V, OF s4(2) _ wext_val [OF w4 v h(3)] s4(4), of OpMUL] unfolding wtot_def by auto
  let ?s6 = "bindOutputConstant_int gt 0 s5"
  note R6 = record_check [OF s5(2,4), where c = 0]
  have w6: "wext V s ?s6" using wext_trans [OF w4 wext_trans [OF s5(3) R6(2)]] .
  obtain eq s7 where s7: "makeGate OpMUL g1 a ?s6 = Some (eq, s7)" "vinv cn f s7" "wext V ?s6 s7" "has_val cn f s7 eq (y * u)"
    using makeGate_w [where V = V, OF R6(1) _ wext_val [OF w6 v h(2)] wext_val [OF w6 v h(5)], of OpMUL] unfolding wtot_def by auto
  let ?s8 = "bindOutputConstant_int eq 0 s7"
  note R8 = record_check [OF s7(2,4), where c = 0]
  have l6: "wext V ?s6 ?s8" using wext_trans [OF s7(3) R8(2)] .
  have l3: "wext V ?s3 ?s8" using wext_trans [OF s4(3) wext_trans [OF wext_trans [OF s5(3) R6(2)] l6]] .
  have "compare_gates [g0, g1, g2] d a b s = Some ((), ?s8)" using s1(1) s2(1) s4(1) s5(1) s7(1) by (simp add: compare_gates_def Let_def)
  then show ?thesis using R8(1,3) wext_trans [OF w6 l6] wext_checked [OF l3 R3(1,3)] wext_checked [OF l6 R6(1,3)] by (auto simp: wtot_def)
qed

end

end
