(* ===== verification/Pws_Checks.thy ===== *)
theory Pws_Checks
  imports Pws_Comparisons Pws_Compile
begin

text \<open>
  Soundness of the gates of an inequality test and of a comparison of integers: in a circuit in which the recorded checks hold modulo the
  prime, the result has the value that the test has on the operands, whatever the prover puts into the magic gates.
\<close>

section \<open>The gates of a comparison\<close>

context numeral_reader
begin

lemma lessThan_w:
  assumes v: "vinv cn f s" and V: "\<And>i. i < k \<Longrightarrow> INTERMEDIATE (n0 + i) \<in> V"
    and m: "usable V s (INTERMEDIATE a)" "usable V s (INTERMEDIATE b)" "usable V s (INTERMEDIATE c)" and p: "usable V s x1" "usable V s x2"
    and y: "isVariable y" "getCircuitPrimitive s y = Some q" "\<not> live s y" "y \<notin> V" and gw: "guard_wf (circuitDesc s) guard"
  shows "wtot (insert y V) cn f (lessThanInt_gates rtl guard n0 k (INTERMEDIATE a) (INTERMEDIATE b) (INTERMEDIATE c) x1 x2 y s) s (\<lambda>_ s'.
    \<exists>lt eq gt bs u w. is_val f s' x1 u \<and> is_val f s' x2 w \<and> live s' y \<and> has_val cn f s' (first_gate s' y) lt \<and>
      list_all2 (\<lambda>b w. checked cn f s' (b * (b - of_int w)) 0) bs (powers 1 k) \<and>
      checked cn f s' (lt * (lt - 1)) 0 \<and> checked cn f s' (eq * (eq - 1)) 0 \<and> checked cn f s' (gt * (gt - 1)) 0 \<and> checked cn f s' (lt + eq + gt) 1 \<and>
      checked cn f s' (lt * (sum_list bs - 2 ^ k + (w - u))) 0 \<and> checked cn f s' (gt * (sum_list bs - 2 ^ k + (u - w))) 0 \<and> checked cn f s' (eq * (u - w)) 0)"
proof -
  let ?W = "insert y V" and ?a = "INTERMEDIATE a" and ?b = "INTERMEDIATE b" and ?c = "INTERMEDIATE c"
  obtain nis cg s1 bs where s1: "difference_gates n0 k s = Some ((nis, cg), s1)" "vinv cn f s1" "wext V s s1" "bits_at cn f s1 (powers 1 k) nis bs"
      "has_val cn f s1 cg (- (2 ^ k))"
    using difference_w [where V = V and k = k, OF v V] unfolding wtot_def by auto
  obtain ms s2 lt eq gt g0 g1 g2 where s2: "flag_gates ?a ?b ?c s1 = Some (ms, s2)" "vinv cn f s2" "wext V s1 s2" "ms = [g0, g1, g2]"
      "has_val cn f s2 g0 lt" "has_val cn f s2 g1 eq" "has_val cn f s2 g2 gt"
      "checked cn f s2 (lt * (lt - 1)) 0" "checked cn f s2 (eq * (eq - 1)) 0" "checked cn f s2 (gt * (gt - 1)) 0" "checked cn f s2 (lt + eq + gt) 1"
    using flag_gates_w [OF s1(2) wext_usable [OF s1(3) m(1)] wext_usable [OF s1(3) m(2)] wext_usable [OF s1(3) m(3)]] unfolding wtot_def by blast
  have w2: "wext V s s2" using wext_trans [OF s1(3) s2(3)] .
  note b2 = wext_bits [OF s2(3) s1(2,4)]
  have "list_all2 (has_val cn f s2) (nis @ [cg]) (bs @ [- (2 ^ k)])"
    using b2 wext_val [OF s2(3) s1(2,5)] by (auto simp: bits_at_def intro: list_all2_appendI)
  then obtain n s3 where s3: "reduce OpADD (nis @ [cg]) s2 = Some (n, s3)" "vinv cn f s3" "wext V s2 s3" "has_val cn f s3 n (sum_list bs - 2 ^ k)"
    using reduce_w [where V = V, OF s2(2), of OpADD "nis @ [cg]" "bs @ [- (2 ^ k)]"] unfolding wtot_def by (auto simp: total'_def)
  have w3: "wext V s s3" using wext_trans [OF w2 s3(3)] .
  obtain d s4 e s5 u w where s5: "makeSub_of rtl x1 x2 s3 = Some (d, s4)" "makeSub_of rtl x2 x1 s4 = Some (e, s5)" "vinv cn f s5" "wext V s3 s5"
      "is_val f s5 x1 u" "is_val f s5 x2 w" "has_val cn f s5 d (u - w)" "has_val cn f s5 e (w - u)"
    using sub_pair [OF s3(2) wext_usable [OF w3 p(1)] wext_usable [OF w3 p(2)]] by blast
  have l2: "wext V s2 s5" using wext_trans [OF s3(3) s5(4)] .
  note h = wext_val [OF l2 s2(2,5)] wext_val [OF l2 s2(2,6)] wext_val [OF l2 s2(2,7)] wext_val [OF s5(4) s3(2,4)]
  obtain s6 where s6: "compare_gates [g0, g1, g2] n d e s5 = Some ((), s6)" "vinv cn f s6" "wext V s5 s6"
      "checked cn f s6 (lt * (sum_list bs - 2 ^ k + (w - u))) 0" "checked cn f s6 (gt * (sum_list bs - 2 ^ k + (u - w))) 0" "checked cn f s6 (eq * (u - w)) 0"
    using compare_w [where V = V, OF s5(3) h s5(7,8)] unfolding wtot_def by auto
  have l6: "wext V s2 s6" using wext_trans [OF l2 s6(3)] .
  have w6: "wext V s s6" using wext_trans [OF w2 l6] .
  obtain q6 where q6: "getCircuitPrimitive s6 y = Some q6" using wext_get [OF w6 y(2)] by blast
  have n6: "\<not> live s6 y" using w6 y by (auto simp: wext_def)
  obtain s7 where s7: "bindVariable y g0 s6 = Some s7" "vinv cn f s7" "wext ?W s6 s7" "live s7 y" "has_val cn f s7 (first_gate s7 y) lt"
    using bind_result [OF s6(2) y(1) q6 n6 wext_val [OF l6 s2(2,5)]] by blast
  note more = wext_more [of V, OF _ subset_insertI]
  have l7: "wext ?W s2 s7" using wext_trans [OF more [OF l6] s7(3)] .
  have w7: "wext ?W s s7" using wext_trans [OF more [OF w2] l7] .
  have pm: "list_all (pos_in s7) (ms @ nis)"
    using wext_pos [OF l7] s2(4-7) b2 by (auto simp: has_val_def bits_at_def list_all_iff list_all2_conv_all_nth in_set_conv_nth)
  obtain h1 h2 s8 where s8: "gates_of rtl x1 x2 s7 = Some ((h1, h2), s8)"
      "\<And>c. vinv cn f ((addMagicOp (LessThanIntOperation ms nis h1 h2) guard s8)\<lparr>opCount := c\<rparr>)"
      "\<And>c. wext ?W s7 ((addMagicOp (LessThanIntOperation ms nis h1 h2) guard s8)\<lparr>opCount := c\<rparr>)"
    using magic_tail [OF s7(2) wext_usable [OF w7 usable_more [OF p(1)]] wext_usable [OF w7 usable_more [OF p(2)]] wext_guard [OF w7 gw] _ pm,
        of "LessThanIntOperation ms nis" rtl]
    by auto
  let ?s8 = "addMagicOp (LessThanIntOperation ms nis h1 h2) guard s8"
  let ?s' = "count_cmp ?s8"
  have v': "vinv cn f ?s'" and l': "wext ?W s7 ?s'" using s8(2,3) by (simp_all add: count_cmp_def)
  have e: "lessThanInt_gates rtl guard n0 k ?a ?b ?c x1 x2 y s = Some ((), ?s')"
    using s1(1) s2(1,4) s3(1) s5(1,2) s6(1) s7(1) s8(1) by (simp add: lessThanInt_gates_def)
  have L2: "wext ?W s2 ?s'" and L5: "wext ?W s5 ?s'" and L6: "wext ?W s6 ?s'"
    using wext_trans [OF l7 l'] wext_trans [OF more [OF s6(3)] wext_trans [OF s7(3) l']] wext_trans [OF s7(3) l'] by blast+
  have bits: "list_all2 (\<lambda>b w. checked cn f ?s' (b * (b - of_int w)) 0) bs (powers 1 k)"
    using wext_bits [OF L2 s2(2) b2] by (simp add: bits_at_def)
  note K2 = wext_checked [OF L2 s2(2)] and K6 = wext_checked [OF L6 s6(2)]
  have "is_val f ?s' x1 u" "is_val f ?s' x2 w" "live ?s' y" "has_val cn f ?s' (first_gate ?s' y) lt"
    using wext_is_val [OF L5 s5(3,5)] wext_is_val [OF L5 s5(3,6)] wext_live [OF l' s7(4)] wext_val [OF l' s7(2,5)] by simp_all
  then show ?thesis unfolding wtot_def
    by (intro exI [of _ "()"] exI [of _ ?s'] conjI e v' wext_trans [OF w7 l'] exI [of _ lt] exI [of _ eq] exI [of _ gt] exI [of _ bs] exI [of _ u] exI [of _ w]
        bits K2 s2(8-11) K6 s6(4-6))
qed

end

section \<open>What the checks say\<close>

interpretation integers: numeral_reader atoi
  by unfold_locales (simp add: atoi_int_str)

text \<open>Every gate that has an output constant is that constant modulo the prime.\<close>

definition checks_hold :: "int \<Rightarrow> (nat \<Rightarrow> int) \<Rightarrow> PWSCircuitParser \<Rightarrow> bool" where
  "checks_hold p f s \<longleftrightarrow> list_all (\<lambda>(g, c). gv f s g mod p = atoi c mod p) (outConstantDesc s)"

lemma wtot_unit: "wtot V cn f r s Q \<Longrightarrow> \<exists>s'. r = Some ((), s') \<and> vinv cn f s' \<and> wext V s s' \<and> Q () s'"
  by (auto simp: wtot_def)

lemma checked_holds: "checked atoi f s v c \<Longrightarrow> consts_ok atoi f s \<Longrightarrow> checks_hold p f s \<Longrightarrow> v mod p = c mod p"
  by (force simp: checked_def checks_hold_def list_all_iff has_val_def atoi_int_str)

lemma diff_zero_mod: "(a - b) mod p = (0 :: int) \<Longrightarrow> a mod p = b mod p"
  by (simp add: mod_eq_dvd_iff mod_0_imp_dvd)

lemma bit_sum:
  assumes "prime_modulus p" "list_all2 (\<lambda>b w. b * (b - w) mod p = 0) bs (powers n k)"
  shows "\<exists>t. 0 \<le> t \<and> t < 2 ^ k \<and> sum_list bs mod p = n * t mod p"
  using assms(2)
proof (induction k arbitrary: n bs)
  case 0
  then show ?case by (intro exI [of _ 0]) simp
next
  case (Suc k)
  then obtain b bs' where b: "bs = b # bs'" "b * (b - n) mod p = 0" "list_all2 (\<lambda>b w. b * (b - w) mod p = 0) bs' (powers (2 * n) k)"
    by (auto simp: list_all2_Cons2)
  obtain t where t: "0 \<le> t" "t < 2 ^ k" "sum_list bs' mod p = 2 * n * t mod p" using Suc.IH [OF b(3)] by blast
  have "b mod p = 0 \<or> (b - n) mod p = 0" using prime_modulus_mult_0 [OF assms(1) b(2)] .
  then obtain c where c: "c = 0 \<or> c = 1" "b mod p = n * c mod p"
  proof
    assume "b mod p = 0"
    then show thesis using that [of 0] by simp
  next
    assume "(b - n) mod p = 0"
    then show thesis using that [of 1] diff_zero_mod by simp
  qed
  have "sum_list bs mod p = (n * c + 2 * n * t) mod p" using mod_add_cong [OF c(2) t(3)] b(1) by simp
  also have "\<dots> = n * (c + 2 * t) mod p" by (simp add: algebra_simps)
  finally show ?case using t c(1) by (intro exI [of _ "c + 2 * t"]) auto
qed

lemma flag_cases:
  assumes "prime_modulus p" "x * (x - 1) mod p = (0 :: int)"
  shows "x mod p = 0 \<or> x mod p = 1"
  using prime_modulus_mult_0 [OF assms] diff_zero_mod [of x 1 p] prime_modulus_gt2 [OF assms(1)] by auto

lemma one_flag:
  assumes "2 < p" "x mod p = 0 \<or> x mod p = 1" "y mod p = 0 \<or> y mod p = 1" "z mod p = 0 \<or> z mod p = (1 :: int)" "(x + y + z) mod p = 1 mod p"
  shows "x mod p = 1 \<and> y mod p = 0 \<and> z mod p = 0 \<or> x mod p = 0 \<and> y mod p = 1 \<and> z mod p = 0 \<or> x mod p = 0 \<and> y mod p = 0 \<and> z mod p = 1"
proof -
  have "(x mod p + y mod p + z mod p) mod p = 1" 
    using mod_add_cong [OF mod_add_cong [OF mod_mod_trivial mod_mod_trivial] mod_mod_trivial, of x p y z] assms(1,5) by simp
  moreover have "2 mod p = 2" "3 mod p \<noteq> 1" using assms(1) by (cases "p = 3"; simp)+
  ultimately show ?thesis using assms(1-4) by auto
qed

text \<open>A difference in range is 0 if its residue is.\<close>

lemma small_zero: "x mod p = 0 \<Longrightarrow> \<bar>x\<bar> < p \<Longrightarrow> x = (0 :: int)"
  by (metis dvd_eq_mod_eq_0 zdvd_not_zless abs_of_pos abs_dvd_iff dvd_abs_iff zero_less_abs_iff not_less)

lemma signed_difference:
  assumes "prime_modulus p" "l * (S - 2 ^ k + d) mod p = 0" "l mod p = 1" "S mod p = t mod p" "0 \<le> t" "t < 2 ^ k" "d mod p = e mod p" "\<bar>e\<bar> \<le> 2 ^ k" "2 ^ (k + 1) < p"
  shows "0 < (e :: int)"
proof -
  have "(S - 2 ^ k + d) mod p = 0" using prime_modulus_mult_0 [OF assms(1,2)] assms(3) by simp
  then have "(t - 2 ^ k + e) mod p = 0" using mod_add_cong [OF mod_diff_cong [OF assms(4) refl] assms(7), of "2 ^ k"] by simp
  moreover have "\<bar>t - 2 ^ k + e\<bar> < p" using assms(5,6,8,9) by auto
  ultimately have "t - 2 ^ k + e = 0" by (rule small_zero)
  then show ?thesis using assms(6) by simp
qed

lemma comparison_value:
  assumes p: "prime_modulus p" "2 ^ (k + 1) < p" and bits: "list_all2 (\<lambda>b w. b * (b - w) mod p = 0) bs (powers 1 k)"
    and flags: "lt * (lt - 1) mod p = 0" "eq * (eq - 1) mod p = 0" "gt * (gt - 1) mod p = 0" "(lt + eq + gt) mod p = 1 mod p"
    and rel: "lt * (sum_list bs - 2 ^ k + (w - u)) mod p = 0" "gt * (sum_list bs - 2 ^ k + (u - w)) mod p = 0" "eq * (u - w) mod p = 0"
    and ij: "u mod p = i mod p" "w mod p = j mod p" "\<bar>i - j\<bar> \<le> (2 :: int) ^ k"
  shows "lt mod p = (if i < j then 1 else 0)"
proof -
  obtain t where t: "0 \<le> t" "t < 2 ^ k" "sum_list bs mod p = t mod p" using bit_sum [OF p(1) bits] by auto
  have d: "(w - u) mod p = (j - i) mod p" "(u - w) mod p = (i - j) mod p" using mod_diff_cong [OF ij(2,1)] mod_diff_cong [OF ij(1,2)] .
  have a: "\<bar>j - i\<bar> \<le> 2 ^ k" using ij(3) by simp
  from one_flag [OF prime_modulus_gt2 [OF p(1)] flag_cases [OF p(1) flags(1)] flag_cases [OF p(1) flags(2)] flag_cases [OF p(1) flags(3)] flags(4)]
  show ?thesis
  proof (elim disjE conjE)
    assume "lt mod p = 1"
    then show ?thesis using signed_difference [OF p(1) rel(1) _ t(3,1,2) d(1) a p(2)] by simp
  next
    assume f: "lt mod p = 0" "eq mod p = 1"
    then have "(u - w) mod p = 0" using prime_modulus_mult_0 [OF p(1) rel(3)] by simp
    then have "i - j = 0" using small_zero [of "i - j" p] d(2) ij(3) p(2) by simp
    then show ?thesis using f by simp
  next
    assume f: "lt mod p = 0" "gt mod p = 1"
    then show ?thesis using signed_difference [OF p(1) rel(2) _ t(3,1,2) d(2) ij(3) p(2)] by simp
  qed
qed

section \<open>Soundness\<close>

text \<open>C16: An inequality test whose check holds. From any state of the builder that satisfies its invariant the gates of
  \<open>x1 != x2\<close> are made, and in a circuit in which the constants are right and the recorded checks hold modulo the prime, the result is 0
  if the operands are equal modulo the prime and 1 otherwise, whatever the value of the magic variable is.\<close>

theorem not_equal_sound:
  assumes s: "vinv atoi f s" "list_all (\<lambda>q. getCircuitPrimitive s q \<noteq> None) [INTERMEDIATE n, x1, x2, y]"
    and y: "isVariable y" "\<not> live s y" "y \<notin> {INTERMEDIATE n, x1, x2}" and p: "prime_modulus p"
  shows "\<exists>s'. notEqual_gates rtl (getOpGuard s) (INTERMEDIATE n) x1 x2 y s = Some ((), s') \<and> vinv atoi f s' \<and> live s' y \<and>
    (consts_ok atoi f s' \<longrightarrow> checks_hold p f s' \<longrightarrow> pval f s' y mod p = (if pval f s' x1 mod p = pval f s' x2 mod p then 0 else 1))"
proof -
  let ?V = "{INTERMEDIATE n, x1, x2}"
  have U: "usable ?V s (INTERMEDIATE n)" "usable ?V s x1" "usable ?V s x2" using s(2) by (auto simp: usable_def)
  obtain q where q: "getCircuitPrimitive s y = Some q" using s(2) by auto
  obtain s' m u w where s': "notEqual_gates rtl (getOpGuard s) (INTERMEDIATE n) x1 x2 y s = Some ((), s')" "vinv atoi f s'"
      "is_val f s' x1 u" "is_val f s' x2 w" "live s' y" "has_val atoi f s' (first_gate s' y) (m * (u - w))"
      "checked atoi f s' (m * (u - w) * (w - u) + (u - w)) 0"
    using wtot_unit [OF integers.notEqual_w [where rtl = rtl, OF s(1) U y(1) q y(2,3) getOpGuard_wf]] by blast
  have "m * (u - w) mod p = (if u mod p = w mod p then 0 else 1)" if c: "consts_ok atoi f s'" "checks_hold p f s'"
  proof -
    have "m * (u - w) * (w - u) + (u - w) = (u - w) * (1 - m * (u - w))" by algebra
    then have "(u - w) * (1 - m * (u - w)) mod p = 0" using checked_holds [OF s'(7) c] by simp
    from prime_modulus_mult_0 [OF p this] show ?thesis
    proof
      assume 1: "(u - w) mod p = 0"
      then have "m * (u - w) mod p = 0" by (simp add: mod_0_imp_dvd dvd_imp_mod_0)
      then show ?thesis using diff_zero_mod [OF 1] by simp
    next
      assume 2: "(1 - m * (u - w)) mod p = 0"
      have one: "m * (u - w) mod p = 1" using diff_zero_mod [OF 2] prime_modulus_gt2 [OF p] by simp
      then have "u mod p \<noteq> w mod p" by (metis dvd_mult mod_0_imp_dvd mod_eq_dvd_iff dvd_imp_mod_0 zero_neq_one)
      then show ?thesis using one by simp
    qed
  qed
  then show ?thesis using s' by (auto simp: is_val_def pval_def has_val_def)
qed

text \<open>C15: A comparison whose checks hold. The gates of \<open>x1 < x2\<close> with \<open>k\<close> bits are made from any state that satisfies the invariant.
  In a circuit in which the constants are right and all recorded checks hold modulo the prime, the result is 1 if \<open>x1\<close> is the smaller operand
  and 0 otherwise, for operands that stand for integers at most \<open>2 ^ k\<close> apart and a prime above \<open>2 ^ (k + 1)\<close>: no values of the
  bits and flags make the circuit accept another result.\<close>

theorem less_than_sound:
  assumes s: "vinv atoi f s" "list_all (\<lambda>q. getCircuitPrimitive s q \<noteq> None) [INTERMEDIATE a, INTERMEDIATE b, INTERMEDIATE c, x1, x2, y]"
    and y: "isVariable y" "\<not> live s y" "y \<notin> {INTERMEDIATE a, INTERMEDIATE b, INTERMEDIATE c, x1, x2} \<union> INTERMEDIATE ` {n0..<n0 + k}"
    and p: "prime_modulus p" "2 ^ (k + 1) < p"
  shows "\<exists>s'. lessThanInt_gates rtl (getOpGuard s) n0 k (INTERMEDIATE a) (INTERMEDIATE b) (INTERMEDIATE c) x1 x2 y s = Some ((), s') \<and>
    vinv atoi f s' \<and> live s' y \<and> (\<forall>i j. consts_ok atoi f s' \<longrightarrow> checks_hold p f s' \<longrightarrow> pval f s' x1 mod p = i mod p \<longrightarrow> pval f s' x2 mod p = j mod p \<longrightarrow>
      \<bar>i - j\<bar> \<le> 2 ^ k \<longrightarrow> pval f s' y mod p = (if i < j then 1 else 0))"
proof -
  let ?V = "{INTERMEDIATE a, INTERMEDIATE b, INTERMEDIATE c, x1, x2} \<union> INTERMEDIATE ` {n0..<n0 + k}"
  have U: "usable ?V s (INTERMEDIATE a)" "usable ?V s (INTERMEDIATE b)" "usable ?V s (INTERMEDIATE c)" "usable ?V s x1" "usable ?V s x2"
    using s(2) by (auto simp: usable_def)
  obtain q where q: "getCircuitPrimitive s y = Some q" using s(2) by auto
  have V: "INTERMEDIATE (n0 + i) \<in> ?V" if "i < k" for i using that by simp
  obtain s' lt eq gt bs u w where s': "lessThanInt_gates rtl (getOpGuard s) n0 k (INTERMEDIATE a) (INTERMEDIATE b) (INTERMEDIATE c) x1 x2 y s = Some ((), s')"
      "vinv atoi f s'" "is_val f s' x1 u" "is_val f s' x2 w" "live s' y" "has_val atoi f s' (first_gate s' y) lt"
      "list_all2 (\<lambda>b w. checked atoi f s' (b * (b - w)) 0) bs (powers 1 k)" "checked atoi f s' (lt * (lt - 1)) 0" "checked atoi f s' (eq * (eq - 1)) 0"
      "checked atoi f s' (gt * (gt - 1)) 0" "checked atoi f s' (lt + eq + gt) 1" "checked atoi f s' (lt * (sum_list bs - 2 ^ k + (w - u))) 0"
      "checked atoi f s' (gt * (sum_list bs - 2 ^ k + (u - w))) 0" "checked atoi f s' (eq * (u - w)) 0"
    using wtot_unit [OF integers.lessThan_w [where V = ?V and k = k and rtl = rtl, OF s(1) V U y(1) q y(2,3) getOpGuard_wf], unfolded of_int_eq_id id_apply]
    by blast
  have "lt mod p = (if i < j then 1 else 0)"
    if C: "consts_ok atoi f s'" "checks_hold p f s'" and ij: "u mod p = i mod p" "w mod p = j mod p" "\<bar>i - j\<bar> \<le> 2 ^ k" for i j
    by (rule comparison_value [OF p _ _ _ _ _ _ _ _ ij]) (use checked_holds [OF _ C] s'(7-14) in \<open>auto elim!: list_all2_mono\<close>)
  then show ?thesis using s'(1-6) by (auto simp: is_val_def pval_def has_val_def)
qed

section \<open>Examples\<close>

text \<open>The inputs 0 and 1, a result V9 and magic variables from M2 on.\<close>

definition known_vars :: "(VarType \<times> nat) list" where
  "known_vars = [(INPUT, 0), (INPUT, 1), (TEMP, 9), (MAGIC, 2), (MAGIC, 3), (MAGIC, 4)]"

definition test_state :: PWSCircuitParser where
  "test_state = fold (\<lambda>(ty, n) s. snd (addVariable ty n s)) known_vars (parser_clear (parser_new 0))"

lemma vinv_vars: "vinv cn f s \<Longrightarrow> vinv cn f (fold (\<lambda>(ty, n) s. snd (addVariable ty n s)) vs s)"
proof (induction vs arbitrary: s)
  case (Cons v vs)
  have "vinv cn f (snd (addVariable (fst v) (snd v) s))"
    using tot_addVariable [where A = "only_of UNIV" and ty = "fst v" and n = "snd v", OF Cons.prems] unfolding tot_def by (auto split: if_splits)
  then show ?case using Cons.IH by (simp add: case_prod_unfold)
qed simp

lemma test_ready: "vinv atoi f test_state" "\<not> live test_state (INTERMEDIATE 9)"
  "list_all (\<lambda>q. getCircuitPrimitive test_state q \<noteq> None) [INTERMEDIATE 2, INPUT_OUTPUT 0, INPUT_OUTPUT 1, INTERMEDIATE 9]"
  "list_all (\<lambda>q. getCircuitPrimitive test_state q \<noteq> None) [INTERMEDIATE 2, INTERMEDIATE 3, INTERMEDIATE 4, INPUT_OUTPUT 0, INPUT_OUTPUT 1, INTERMEDIATE 9]"
proof -
  show "vinv atoi f test_state" unfolding test_state_def by (rule vinv_vars [OF vinv_clear])
  have "getCircuitPrimitive test_state (INTERMEDIATE 9) = Some CPrimitive_new" by code_simp
  then show "\<not> live test_state (INTERMEDIATE 9)" by (auto simp: live_def isBound_def CPrimitive_new_def simp del: getCircuitPrimitive.simps)
qed (code_simp+)

text \<open>5 and 3 with the inverse of their difference modulo 7, and 2 and 3 with one bit and the flag for smaller.\<close>

definition unequal_inputs :: "nat \<Rightarrow> int" where
  "unequal_inputs = (!) [4, 3, 5, - 1, 0]"

definition smaller_inputs :: "nat \<Rightarrow> int" where
  "smaller_inputs = (!) [- 1, 1, 0, - 2, 1, 0, 0, 3, 2]"

lemma unequal_checks:
  "map_option (\<lambda>(_, s). (consts_ok atoi unequal_inputs s, checks_hold 7 unequal_inputs s, map (\<lambda>p. pval unequal_inputs s p mod 7) [INPUT_OUTPUT 0, INPUT_OUTPUT 1]))
     (notEqual_gates True (getOpGuard test_state) (INTERMEDIATE 2) (INPUT_OUTPUT 0) (INPUT_OUTPUT 1) (INTERMEDIATE 9) test_state) = Some (True, True, [5, 3])"
  by code_simp

lemma smaller_checks:
  "map_option (\<lambda>(_, s). (consts_ok atoi smaller_inputs s, checks_hold 7 smaller_inputs s, map (\<lambda>p. pval smaller_inputs s p mod 7) [INPUT_OUTPUT 0, INPUT_OUTPUT 1]))
     (lessThanInt_gates True (getOpGuard test_state) 5 1 (INTERMEDIATE 2) (INTERMEDIATE 3) (INTERMEDIATE 4) (INPUT_OUTPUT 0) (INPUT_OUTPUT 1) (INTERMEDIATE 9) test_state) =
   Some (True, True, [2, 3])"
  by code_simp

theorem not_equal_sound_witness:
  "\<exists>s'. notEqual_gates True (getOpGuard test_state) (INTERMEDIATE 2) (INPUT_OUTPUT 0) (INPUT_OUTPUT 1) (INTERMEDIATE 9) test_state = Some ((), s') \<and>
     checks_hold 7 unequal_inputs s' \<and> pval unequal_inputs s' (INTERMEDIATE 9) mod 7 = 1"
proof -
  have v: "isVariable (INTERMEDIATE 9)" "INTERMEDIATE 9 \<notin> {INTERMEDIATE 2, INPUT_OUTPUT 0, INPUT_OUTPUT 1}" by (simp_all add: isVariable_def)
  from not_equal_sound [OF test_ready(1) test_ready(3) v(1) test_ready(2) v(2) prime_modulus_7, of True unequal_inputs]
  obtain s' where s': "notEqual_gates True (getOpGuard test_state) (INTERMEDIATE 2) (INPUT_OUTPUT 0) (INPUT_OUTPUT 1) (INTERMEDIATE 9) test_state = Some ((), s')"
      "consts_ok atoi unequal_inputs s' \<longrightarrow> checks_hold 7 unequal_inputs s' \<longrightarrow> pval unequal_inputs s' (INTERMEDIATE 9) mod 7 =
        (if pval unequal_inputs s' (INPUT_OUTPUT 0) mod 7 = pval unequal_inputs s' (INPUT_OUTPUT 1) mod 7 then 0 else 1)" by blast
  then show ?thesis using unequal_checks by auto
qed

theorem less_than_sound_witness:
  "\<exists>s'. lessThanInt_gates True (getOpGuard test_state) 5 1 (INTERMEDIATE 2) (INTERMEDIATE 3) (INTERMEDIATE 4) (INPUT_OUTPUT 0) (INPUT_OUTPUT 1) (INTERMEDIATE 9) test_state =
       Some ((), s') \<and> checks_hold 7 smaller_inputs s' \<and> pval smaller_inputs s' (INTERMEDIATE 9) mod 7 = 1"
proof -
  have v: "isVariable (INTERMEDIATE 9)" "(2 :: int) ^ (1 + 1) < 7"
      "INTERMEDIATE 9 \<notin> {INTERMEDIATE 2, INTERMEDIATE 3, INTERMEDIATE 4, INPUT_OUTPUT 0, INPUT_OUTPUT 1} \<union> INTERMEDIATE ` {5..<5 + 1}"
    by (auto simp: isVariable_def)
  from less_than_sound [OF test_ready(1) test_ready(4) v(1) test_ready(2) v(3) prime_modulus_7 v(2), of True smaller_inputs]
  obtain s' where s': "lessThanInt_gates True (getOpGuard test_state) 5 1 (INTERMEDIATE 2) (INTERMEDIATE 3) (INTERMEDIATE 4) (INPUT_OUTPUT 0) (INPUT_OUTPUT 1)
        (INTERMEDIATE 9) test_state = Some ((), s')"
      "\<forall>i j. consts_ok atoi smaller_inputs s' \<longrightarrow> checks_hold 7 smaller_inputs s' \<longrightarrow> pval smaller_inputs s' (INPUT_OUTPUT 0) mod 7 = i mod 7 \<longrightarrow>
        pval smaller_inputs s' (INPUT_OUTPUT 1) mod 7 = j mod 7 \<longrightarrow> \<bar>i - j\<bar> \<le> 2 ^ 1 \<longrightarrow> pval smaller_inputs s' (INTERMEDIATE 9) mod 7 = (if i < j then 1 else 0)"
    by blast
  then show ?thesis using s'(2) [rule_format, of 2 3] smaller_checks by auto
qed

end
