(* ===== verification/Elgamal.thy ===== *)
theory Elgamal
  imports Extrap "HOL-Library.Multiset"
begin

text \<open>
  The commitment of Ginger and Zaatar (\<^verbatim>\<open>crypto/crypto.cpp\<close>): ElGamal encryption of exponents, which is additively
  homomorphic. The verifier encrypts a vector, the prover raises the ciphertexts to its proof vector and multiplies them, and
  the verifier decrypts one ciphertext. \<^verbatim>\<open>mpz_powm\<close> is a power modulo the public prime; the exponents are never negative. The
  library \<^verbatim>\<open>gmpmee\<close> (fixed-base and simultaneous exponentiation) is not part of the repository: its two routines are
  arguments with the laws of the locale \<open>gmpmee\<close>. Random exponents are arguments. The threads of a parallel section are
  given by the order in which they enter the critical section.
\<close>

record elgamal_key =
  eg_p :: mpz
  eg_g :: mpz
  eg_gr :: mpz
  eg_r :: mpz
  eg_q :: mpz

definition mpz_powm :: "int \<Rightarrow> int \<Rightarrow> int \<Rightarrow> int" where
  "mpz_powm b e m = b ^ nat e mod m"

definition elgamal_precompute :: "elgamal_key \<Rightarrow> elgamal_key" where
  "elgamal_precompute k = k\<lparr>eg_gr := mpz_powm (eg_g k) (eg_r k) (eg_p k), eg_q := (eg_p k - 1) div 2\<rparr>"

definition set_elgamal_priv_key :: "int \<Rightarrow> int \<Rightarrow> int \<Rightarrow> elgamal_key \<Rightarrow> elgamal_key" where
  "set_elgamal_priv_key p_arg g_arg r_arg k = elgamal_precompute (k\<lparr>eg_p := p_arg, eg_g := g_arg, eg_r := r_arg\<rparr>)"

definition set_elgamal_pub_key :: "int \<Rightarrow> int \<Rightarrow> elgamal_key \<Rightarrow> elgamal_key" where
  "set_elgamal_pub_key p_arg g_arg k = k\<lparr>eg_p := p_arg, eg_g := g_arg\<rparr>"

text \<open>\<open>fpowm b m e\<close> stands for \<^verbatim>\<open>gmpmee_fpowm\<close> with the table of base \<open>b\<close> and modulus \<open>m\<close>.\<close>

definition elgamal_enc_with_rand ::
  "(int \<Rightarrow> int \<Rightarrow> int \<Rightarrow> int) \<Rightarrow> elgamal_key \<Rightarrow> int \<Rightarrow> int \<Rightarrow> int \<times> int" where
  "elgamal_enc_with_rand fpowm k plain rnd =
    (let t = fpowm (eg_g k) (eg_p k) plain;
         c1 = fpowm (eg_g k) (eg_p k) rnd;
         c2 = fpowm (eg_gr k) (eg_p k) rnd
     in (c1, c2 * t mod eg_p k))"

definition elgamal_enc_vec ::
  "(int \<Rightarrow> int \<Rightarrow> int \<Rightarrow> int) \<Rightarrow> elgamal_key \<Rightarrow> mpz_vec \<Rightarrow> nat \<Rightarrow> mpz_vec \<Rightarrow> mpz_vec" where
  "elgamal_enc_vec fpowm k plain sz rs =
    concat (map (\<lambda>i. let (c1, c2) = elgamal_enc_with_rand fpowm k (plain ! i) (rs ! i) in [c1, c2]) [0..<sz])"

definition elgamal_dec :: "(int \<Rightarrow> int \<Rightarrow> int) \<Rightarrow> elgamal_key \<Rightarrow> int \<Rightarrow> int \<Rightarrow> int" where
  "elgamal_dec mpz_invert k c1 c2 = mpz_invert (mpz_powm c1 (eg_r k) (eg_p k)) (eg_p k) * c2 mod eg_p k"

definition elgamal_hadd :: "elgamal_key \<Rightarrow> int \<times> int \<Rightarrow> int \<times> int \<Rightarrow> int \<times> int" where
  "elgamal_hadd k c d = (fst c * fst d mod eg_p k, snd c * snd d mod eg_p k)"

definition elgamal_smul :: "elgamal_key \<Rightarrow> int \<times> int \<Rightarrow> int \<Rightarrow> int \<times> int" where
  "elgamal_smul k c coefficient =
    (if coefficient = 0 then (1, 1)
     else (mpz_powm (fst c) coefficient (eg_p k), mpz_powm (snd c) coefficient (eg_p k)))"

text \<open>The vector is written to its file with the first halves of all ciphertexts before the second halves.\<close>

definition dump_vector_interleaved :: "nat \<Rightarrow> mpz_vec \<Rightarrow> mpz_vec" where
  "dump_vector_interleaved sz q =
    map (\<lambda>i. q ! (2 * i)) [0..<sz div 2] @ map (\<lambda>i. q ! (2 * i + 1)) [0..<sz div 2]"

section \<open>The two encrypted dot products\<close>

text \<open>
  In \<^verbatim>\<open>dot_product_regular_enc\<close> the iterations are divided among threads (\<open>parts\<close>, one list of indices for each thread,
  in the order in which the threads finish). In \<^verbatim>\<open>dot_product_simel_enc\<close> thread \<open>id\<close> has a block of indices, and \<open>ord\<close>
  is the order in which the threads finish.
\<close>

definition dot_product_regular_enc ::
  "elgamal_key \<Rightarrow> nat list list \<Rightarrow> nat \<Rightarrow> mpz_vec \<Rightarrow> mpz_vec \<Rightarrow> int \<times> int" where
  "dot_product_regular_enc k parts sz q d =
    fold (\<lambda>part out. elgamal_hadd k out
            (fold (\<lambda>i priv. elgamal_hadd k priv (elgamal_smul k (q ! i, q ! (sz + i)) (d ! i))) part (1, 1)))
      parts (1, 1)"

definition thread_sizes :: "nat \<Rightarrow> nat \<Rightarrow> nat list" where
  "thread_sizes num_threads sz =
    map (\<lambda>i. if i < num_threads - 1 then sz div num_threads else sz - (num_threads - 1) * (sz div num_threads))
      [0..<num_threads]"

definition thread_base :: "nat list \<Rightarrow> nat \<Rightarrow> nat" where
  "thread_base sizes tid = fold (\<lambda>i base. base + sizes ! i) [0..<tid] 0"

definition dot_product_simel_enc ::
  "(int list \<Rightarrow> int list \<Rightarrow> int \<Rightarrow> int) \<Rightarrow> elgamal_key \<Rightarrow> nat \<Rightarrow> nat list \<Rightarrow> nat \<Rightarrow> mpz_vec \<Rightarrow> mpz_vec \<Rightarrow> int \<times> int"
where
  "dot_product_simel_enc spowm k num_threads ord sz q d =
    (let sizes = thread_sizes num_threads sz in
     fold (\<lambda>tid out. let base = thread_base sizes tid; n = sizes ! tid in
             elgamal_hadd k out (spowm (take n (drop base q)) (take n (drop base d)) (eg_p k),
                                 spowm (take n (drop (sz + base) q)) (take n (drop base d)) (eg_p k)))
       ord (1, 1))"

text \<open>The products that the prover holds for its two proof vectors are multiplied (\<^verbatim>\<open>prover_interactive\<close>).\<close>

definition commitment_answer ::
  "(int list \<Rightarrow> int list \<Rightarrow> int \<Rightarrow> int) \<Rightarrow> elgamal_key \<Rightarrow> nat \<Rightarrow> nat list \<Rightarrow> mpz_vec \<Rightarrow> mpz_vec \<Rightarrow> mpz_vec \<Rightarrow> mpz_vec \<Rightarrow>
   int \<times> int"
where
  "commitment_answer spowm k num_threads ord f1_commitment F1 f2_commitment F2 =
    elgamal_hadd k (dot_product_simel_enc spowm k num_threads ord (length F1) f1_commitment F1)
                   (dot_product_simel_enc spowm k num_threads ord (length F2) f2_commitment F2)"

section \<open>The library of exponentiations\<close>

locale gmpmee =
  fixes fpowm :: "int \<Rightarrow> int \<Rightarrow> int \<Rightarrow> int"
    and spowm :: "int list \<Rightarrow> int list \<Rightarrow> int \<Rightarrow> int"
  assumes fpowm_power: "1 < m \<Longrightarrow> 0 \<le> e \<Longrightarrow> fpowm b m e = b ^ nat e mod m"
    and spowm_power: "1 < m \<Longrightarrow> length bs = length es \<Longrightarrow> (\<And>e. e \<in> set es \<Longrightarrow> 0 \<le> e) \<Longrightarrow>
      spowm bs es m = (\<Prod>i < length bs. bs ! i ^ nat (es ! i)) mod m"

text \<open>
  Without the library the program uses \<^verbatim>\<open>mpz_powm\<close> and the loop of \<^verbatim>\<open>dot_product_regular_enc\<close>. These are the operations
  the locale is interpreted with.
\<close>

definition spowm_regular :: "int list \<Rightarrow> int list \<Rightarrow> int \<Rightarrow> int" where
  "spowm_regular bs es m =
    fst (dot_product_regular_enc \<lparr>eg_p = m, eg_g = 0, eg_gr = 0, eg_r = 0, eg_q = 0\<rparr> [[0..<length bs]] (length bs) (bs @ bs) es)"

lemma elgamal_smul_power:
  assumes "1 < eg_p k" and "0 \<le> d"
  shows "fst (elgamal_smul k c d) mod eg_p k = fst c ^ nat d mod eg_p k"
    and "snd (elgamal_smul k c d) mod eg_p k = snd c ^ nat d mod eg_p k"
  using assms by (auto simp: elgamal_smul_def mpz_powm_def)

lemma fold_hadd:
  assumes "1 < eg_p k"
  shows "fold (\<lambda>i acc. elgamal_hadd k acc (f i)) xs c =
    (if xs = [] then c
     else (fst c * (\<Prod>i\<leftarrow>xs. fst (f i)) mod eg_p k, snd c * (\<Prod>i\<leftarrow>xs. snd (f i)) mod eg_p k))"
  by (induction xs arbitrary: c) (auto simp: elgamal_hadd_def mod_mult_left_eq mod_mult_right_eq mult.assoc)

lemma fold_hadd_1:
  assumes "1 < eg_p k"
  shows "fold (\<lambda>i acc. elgamal_hadd k acc (f i)) xs (1, 1) =
    ((\<Prod>i\<leftarrow>xs. fst (f i)) mod eg_p k, (\<Prod>i\<leftarrow>xs. snd (f i)) mod eg_p k)"
  using assms by (subst fold_hadd) auto

lemma prod_list_mod_cong:
  assumes "\<And>x. x \<in> set xs \<Longrightarrow> f x mod (p :: int) = g x mod p"
  shows "prod_list (map f xs) mod p = prod_list (map g xs) mod p"
  using assms by (induction xs) (auto intro: mod_mult_cong)

lemma prod_mod_cong:
  assumes "\<And>i. i \<in> A \<Longrightarrow> f i mod (p :: int) = g i mod p"
  shows "prod f A mod p = prod g A mod p"
  by (subst (1 2) mod_prod_eq [symmetric]) (simp add: assms)

lemma prod_list_mset:
  assumes "mset xs = mset [0..<n]"
  shows "prod_list (map f xs) = (\<Prod>i < n. f i :: int)"
proof -
  have "prod_list (map f xs) = prod_mset (image_mset f (mset xs))" by (simp add: prod_mset_prod_list flip: mset_map)
  also have "\<dots> = prod_list (map f [0..<n])" unfolding assms by (simp only: mset_map [symmetric] prod_mset_prod_list)
  also have "\<dots> = (\<Prod>i < n. f i)" by (simp add: prod.list_conv_set_nth atLeast0LessThan)
  finally show ?thesis .
qed

lemma prod_list_concat: "prod_list (concat xss) = prod_list (map prod_list (xss :: int list list))"
  by (induction xss) auto

text \<open>What an encrypted dot product is.\<close>

definition enc_product :: "int \<Rightarrow> nat \<Rightarrow> mpz_vec \<Rightarrow> mpz_vec \<Rightarrow> int \<times> int" where
  "enc_product p n q d =
    ((\<Prod>i < n. q ! i ^ nat (d ! i)) mod p, (\<Prod>i < n. q ! (n + i) ^ nat (d ! i)) mod p)"

lemma regular_enc_product:
  assumes p: "1 < eg_p k" and d: "\<And>i. i < n \<Longrightarrow> 0 \<le> d ! i" and parts: "mset (concat parts) = mset [0..<n]"
  shows "dot_product_regular_enc k parts n q d = enc_product (eg_p k) n q d"
proof -
  let ?s = "\<lambda>i. elgamal_smul k (q ! i, q ! (n + i)) (d ! i)"
  have set: "set (concat parts) = {..<n}" using arg_cong [OF parts, of set_mset] by (simp only: set_mset_mset) auto
  have dist: "(\<Prod>part\<leftarrow>parts. (\<Prod>i\<leftarrow>part. f i) mod eg_p k) mod eg_p k = (\<Prod>i < n. f i) mod eg_p k" for f :: "nat \<Rightarrow> int"
  proof -
    have "(\<Prod>part\<leftarrow>parts. (\<Prod>i\<leftarrow>part. f i) mod eg_p k) mod eg_p k = (\<Prod>part\<leftarrow>parts. (\<Prod>i\<leftarrow>part. f i)) mod eg_p k"
      by (rule prod_list_mod_cong) simp
    also have "(\<Prod>part\<leftarrow>parts. (\<Prod>i\<leftarrow>part. f i)) = prod_list (map f (concat parts))"
      by (simp add: map_concat prod_list_concat comp_def)
    finally show ?thesis using prod_list_mset [OF parts] by simp
  qed
  have cong: "(\<Prod>i < n. f (?s i)) mod eg_p k = (\<Prod>i < n. g i ^ nat (d ! i)) mod eg_p k"
    if "\<And>i. i < n \<Longrightarrow> f (?s i) mod eg_p k = g i ^ nat (d ! i) mod eg_p k" for f :: "int \<times> int \<Rightarrow> int" and g
    using that by (intro prod_mod_cong) auto
  show ?thesis unfolding dot_product_regular_enc_def fold_hadd_1 [OF p] enc_product_def
    by (simp add: dist) (intro conjI cong; simp add: elgamal_smul_power p d)
qed

interpretation gm_regular: gmpmee "\<lambda>b m e. mpz_powm b e m" spowm_regular
proof
  show "mpz_powm b e m = b ^ nat e mod m" for b m e by (simp add: mpz_powm_def)
  fix m :: int and bs es :: "int list"
  assume m: "1 < m" and len: "length bs = length es" and es: "\<And>e. e \<in> set es \<Longrightarrow> 0 \<le> e"
  let ?k = "\<lparr>eg_p = m, eg_g = 0, eg_gr = 0, eg_r = 0, eg_q = 0\<rparr>"
  have "dot_product_regular_enc ?k [[0..<length bs]] (length bs) (bs @ bs) es = enc_product (eg_p ?k) (length bs) (bs @ bs) es"
    by (rule regular_enc_product) (use m es len in auto)
  then show "spowm_regular bs es m = (\<Prod>i < length bs. bs ! i ^ nat (es ! i)) mod m"
    by (simp add: spowm_regular_def enc_product_def nth_append)
qed

lemma thread_base_simps [simp]:
  "thread_base sizes 0 = 0" "thread_base sizes (Suc t) = thread_base sizes t + sizes ! t"
  by (simp_all add: thread_base_def)

lemma thread_base_block:
  assumes "t < nt"
  shows "thread_base (thread_sizes nt n) t = t * (n div nt)"
  using assms by (induction t) (auto simp: thread_sizes_def)

lemma thread_base_end:
  assumes "0 < nt"
  shows "thread_base (thread_sizes nt n) nt = n"
proof -
  obtain t where t: "nt = Suc t" using assms by (cases nt) auto
  have "t * (n div nt) \<le> nt * (n div nt)" by (simp add: t)
  then have "t * (n div nt) \<le> n" using times_div_less_eq_dividend [of nt n] by (rule order_trans)
  then show ?thesis using thread_base_block [of t nt n] by (simp add: t thread_sizes_def nth_append)
qed

lemma thread_base_mono: "s \<le> t \<Longrightarrow> thread_base sizes s \<le> thread_base sizes t"
  by (induction t) (auto simp: le_Suc_eq)

lemma prod_blocks:
  "(\<Prod>t < nt. \<Prod>i < sizes ! t. f (thread_base sizes t + i)) = (\<Prod>i < thread_base sizes nt. f i :: int)"
proof (induction nt)
  case (Suc nt)
  have "(\<Prod>i < a + b. f i) = (\<Prod>i < a. f i) * (\<Prod>i < b. f (a + i))" for a b :: nat
    using prod.atLeastLessThan_concat [of 0 a "a + b" f] prod.atLeastLessThan_shift_0 [of f a "a + b"]
    by (simp add: atLeast0LessThan add.commute comp_def)
  with Suc show ?case by simp
qed simp

context gmpmee
begin

lemma simel_enc_product:
  assumes p: "1 < eg_p k" and nt: "0 < nt" and ord: "mset ord = mset [0..<nt]"
    and q: "length q = 2 * n" and len: "length d = n" and d: "\<And>i. i < n \<Longrightarrow> 0 \<le> d ! i"
  shows "dot_product_simel_enc spowm k nt ord n q d = enc_product (eg_p k) n q d"
proof -
  let ?s = "thread_sizes nt n" and ?b = "thread_base (thread_sizes nt n)"
  have set: "set ord = {..<nt}" using arg_cong [OF ord, of set_mset] by (simp only: set_mset_mset) auto
  have bound: "?b t + ?s ! t \<le> n" if "t < nt" for t
    using thread_base_mono [of "Suc t" nt ?s] that thread_base_end [OF nt, of n] by simp
  have block: "spowm (take (?s ! t) (drop (z + ?b t) q)) (take (?s ! t) (drop (?b t) d)) (eg_p k) =
      (\<Prod>i < ?s ! t. q ! (z + (?b t + i)) ^ nat (d ! (?b t + i))) mod eg_p k"
    if "t < nt" "z + n \<le> length q" for z t
    using bound [OF that(1)] that(2) len p by (subst spowm_power) (auto simp: add.assoc in_set_conv_nth intro!: d)
  have total: "(\<Prod>t\<leftarrow>ord. F t) mod eg_p k = (\<Prod>i < n. q ! (z + i) ^ nat (d ! i)) mod eg_p k"
    if "z + n \<le> length q" and F: "F = (\<lambda>t. spowm (take (?s ! t) (drop (z + ?b t) q)) (take (?s ! t) (drop (?b t) d)) (eg_p k))"
    for z F
  proof -
    have "(\<Prod>t\<leftarrow>ord. F t) mod eg_p k =
        (\<Prod>t\<leftarrow>ord. \<Prod>i < ?s ! t. q ! (z + (?b t + i)) ^ nat (d ! (?b t + i))) mod eg_p k"
      by (rule prod_list_mod_cong) (use set block that in auto)
    also have "\<dots> = (\<Prod>t < nt. \<Prod>i < ?s ! t. q ! (z + (?b t + i)) ^ nat (d ! (?b t + i))) mod eg_p k"
      by (simp only: prod_list_mset [OF ord])
    also have "\<dots> = (\<Prod>i < n. q ! (z + i) ^ nat (d ! i)) mod eg_p k"
      using prod_blocks [of "\<lambda>i. q ! (z + i) ^ nat (d ! i)" ?s nt] thread_base_end [OF nt, of n] by simp
    finally show ?thesis .
  qed
  show ?thesis
    unfolding dot_product_simel_enc_def Let_def fold_hadd_1 [OF p] enc_product_def
    using total [of 0] total [of n] q by simp
qed

end

section \<open>Decrypting a product\<close>

lemma length_enc_vec [simp]: "length (elgamal_enc_vec fpowm k plain n rs) = 2 * n"
proof -
  have "length (elgamal_enc_vec fpowm k plain n rs) = sum_list (map (\<lambda>_. 2) [0..<n])"
    unfolding elgamal_enc_vec_def length_concat map_map comp_def by (simp add: split_beta Let_def numeral_2_eq_2)
  then show ?thesis by (simp add: sum_list_triv)
qed

lemma concat_pairs_nth:
  assumes "i < n"
  shows "concat (map (\<lambda>i. [f i, g i]) [0..<n]) ! (2 * i) = f i"
    and "concat (map (\<lambda>i. [f i, g i]) [0..<n]) ! Suc (2 * i) = g i"
proof -
  have len: "length (concat (map (\<lambda>i. [f i, g i]) [0..<m])) = 2 * m" for m by (induction m) auto
  show "concat (map (\<lambda>i. [f i, g i]) [0..<n]) ! (2 * i) = f i" "concat (map (\<lambda>i. [f i, g i]) [0..<n]) ! Suc (2 * i) = g i"
    using assms by (induction n) (auto simp: nth_append len less_Suc_eq)
qed

lemma interleaved_enc_vec:
  "dump_vector_interleaved (2 * n) (elgamal_enc_vec fpowm k plain n rs) =
   map (\<lambda>i. fst (elgamal_enc_with_rand fpowm k (plain ! i) (rs ! i))) [0..<n] @
   map (\<lambda>i. snd (elgamal_enc_with_rand fpowm k (plain ! i) (rs ! i))) [0..<n]"
  by (simp add: dump_vector_interleaved_def elgamal_enc_vec_def split_beta concat_pairs_nth)

lemma length_interleaved [simp]: "length (dump_vector_interleaved (2 * n) q) = 2 * n"
  by (simp add: dump_vector_interleaved_def)

lemma prod_power_sum: "(\<Prod>i \<in> A. b ^ e i) = (b :: int) ^ (\<Sum>i \<in> A. e i)"
  by (simp add: power_sum)

lemma mod_power_cong: "a mod p = b mod (p :: int) \<Longrightarrow> a ^ n mod p = b ^ n mod p"
  by (subst (1 2) power_mod [symmetric]) simp

context gmpmee
begin

lemma enc_product_enc_vec:
  assumes p: "1 < eg_p k" and gr: "eg_gr k mod eg_p k = eg_g k ^ r mod eg_p k"
    and plain: "\<And>i. i < n \<Longrightarrow> 0 \<le> plain ! i" and rs: "\<And>i. i < n \<Longrightarrow> 0 \<le> rs ! i"
  shows "enc_product (eg_p k) n (dump_vector_interleaved (2 * n) (elgamal_enc_vec fpowm k plain n rs)) d =
    (eg_g k ^ (\<Sum>i < n. nat (rs ! i) * nat (d ! i)) mod eg_p k,
     eg_g k ^ (r * (\<Sum>i < n. nat (rs ! i) * nat (d ! i)) + (\<Sum>i < n. nat (plain ! i) * nat (d ! i))) mod eg_p k)"
proof -
  have enc: "elgamal_enc_with_rand fpowm k (plain ! i) (rs ! i) =
      (eg_g k ^ nat (rs ! i) mod eg_p k, (eg_gr k ^ nat (rs ! i)) * (eg_g k ^ nat (plain ! i)) mod eg_p k)" if "i < n" for i
    using that plain rs p by (simp add: elgamal_enc_with_rand_def fpowm_power mod_mult_eq)
  have 1: "(\<Prod>i < n. (eg_g k ^ nat (rs ! i) mod eg_p k) ^ nat (d ! i)) mod eg_p k =
      (\<Prod>i < n. eg_g k ^ (nat (rs ! i) * nat (d ! i))) mod eg_p k"
    by (rule prod_mod_cong) (simp add: power_mod power_mult)
  have gr': "eg_gr k ^ nat (rs ! i) mod eg_p k = eg_g k ^ (r * nat (rs ! i)) mod eg_p k" for i
    using mod_power_cong [OF gr] by (simp add: power_mult)
  have 2: "(\<Prod>i < n. ((eg_gr k ^ nat (rs ! i)) * (eg_g k ^ nat (plain ! i)) mod eg_p k) ^ nat (d ! i)) mod eg_p k =
      (\<Prod>i < n. eg_g k ^ (r * (nat (rs ! i) * nat (d ! i)) + nat (plain ! i) * nat (d ! i))) mod eg_p k"
  proof (rule prod_mod_cong)
    fix i
    have "eg_gr k ^ nat (rs ! i) * eg_g k ^ nat (plain ! i) mod eg_p k =
        eg_g k ^ (r * nat (rs ! i)) * eg_g k ^ nat (plain ! i) mod eg_p k"
      by (rule mod_mult_cong [OF gr' refl])
    from mod_power_cong [OF this, of "nat (d ! i)"]
    show "((eg_gr k ^ nat (rs ! i)) * (eg_g k ^ nat (plain ! i)) mod eg_p k) ^ nat (d ! i) mod eg_p k =
      eg_g k ^ (r * (nat (rs ! i) * nat (d ! i)) + nat (plain ! i) * nat (d ! i)) mod eg_p k"
      by (simp add: power_mod power_add [symmetric] power_mult [symmetric] algebra_simps)
  qed
  have "enc_product (eg_p k) n (dump_vector_interleaved (2 * n) (elgamal_enc_vec fpowm k plain n rs)) d =
      ((\<Prod>i < n. (eg_g k ^ nat (rs ! i) mod eg_p k) ^ nat (d ! i)) mod eg_p k,
       (\<Prod>i < n. ((eg_gr k ^ nat (rs ! i)) * (eg_g k ^ nat (plain ! i)) mod eg_p k) ^ nat (d ! i)) mod eg_p k)"
    unfolding enc_product_def interleaved_enc_vec
    by (intro arg_cong2 [of _ _ _ _ Pair] arg_cong [of _ _ "\<lambda>x. x mod eg_p k"] prod.cong refl)
      (auto simp: nth_append enc)
  then show ?thesis unfolding 1 2 prod_power_sum by (simp add: sum.distrib sum_distrib_left)
qed

end

lemma elgamal_dec_power:
  assumes inv: "gmp_invert mpz_invert" and p: "1 < eg_p k" and g: "coprime (eg_g k) (eg_p k)" and r: "eg_r k = int r"
  shows "elgamal_dec mpz_invert k (eg_g k ^ a mod eg_p k) (eg_g k ^ (r * a + m) mod eg_p k) = eg_g k ^ m mod eg_p k"
proof -
  let ?p = "eg_p k" and ?x = "eg_g k ^ (r * a)"
  have x: "mpz_powm (eg_g k ^ a mod ?p) (eg_r k) ?p = ?x mod ?p"
    by (simp add: mpz_powm_def r power_mod power_mult [symmetric] mult.commute)
  have "coprime (?x mod ?p) ?p" using g p by simp
  from gmp_invert.mpz_invert_mult [OF inv p this]
  have one: "?x * mpz_invert (?x mod ?p) ?p mod ?p = 1" by (simp add: mod_mult_left_eq)
  have "elgamal_dec mpz_invert k (eg_g k ^ a mod ?p) (eg_g k ^ (r * a + m) mod ?p) =
      (?x * mpz_invert (?x mod ?p) ?p) * eg_g k ^ m mod ?p"
    unfolding elgamal_dec_def x by (simp add: mod_mult_right_eq power_add mult_ac)
  also have "\<dots> = (?x * mpz_invert (?x mod ?p) ?p mod ?p) * eg_g k ^ m mod ?p" by (simp only: mod_mult_left_eq)
  finally show ?thesis unfolding one by simp
qed

lemma int_sum_prod_nat:
  assumes "\<And>i. i < n \<Longrightarrow> 0 \<le> xs ! i" and "\<And>i. i < n \<Longrightarrow> 0 \<le> ys ! i"
  shows "(\<Sum>i < n. nat (xs ! i) * nat (ys ! i)) = nat (\<Sum>i < n. xs ! i * ys ! i)"
proof -
  have "int (\<Sum>i < n. nat (xs ! i) * nat (ys ! i)) = (\<Sum>i < n. xs ! i * ys ! i)"
    unfolding of_nat_sum by (rule sum.cong) (auto simp: assms)
  then show ?thesis by linarith
qed

lemma precompute_fields [simp]:
  "eg_p (set_elgamal_priv_key p g r k) = p" "eg_g (set_elgamal_priv_key p g r k) = g"
  "eg_r (set_elgamal_priv_key p g r k) = r" "eg_gr (set_elgamal_priv_key p g r k) = g ^ nat r mod p"
  "eg_q (set_elgamal_priv_key p g r k) = (p - 1) div 2" "eg_p (set_elgamal_pub_key p g k) = p"
  by (simp_all add: set_elgamal_priv_key_def elgamal_precompute_def set_elgamal_pub_key_def mpz_powm_def)

lemma commitment_opens:
  assumes lib: "gmpmee fpowm spowm" "gmp_invert mpz_invert"
    and key: "1 < p" "coprime g p" "0 \<le> r" and nt: "0 < nt" "mset ord = mset [0..<nt]"
    and con1: "\<forall>i < length F1. 0 \<le> con1 ! i \<and> 0 \<le> rs1 ! i \<and> 0 \<le> F1 ! i"
    and con2: "\<forall>i < length F2. 0 \<le> con2 ! i \<and> 0 \<le> rs2 ! i \<and> 0 \<le> F2 ! i"
    and k: "k = set_elgamal_priv_key p g r k0"
    and c: "c = commitment_answer spowm (set_elgamal_pub_key p g k1) nt ord
          (dump_vector_interleaved (2 * length F1) (elgamal_enc_vec fpowm k con1 (length F1) rs1)) F1
          (dump_vector_interleaved (2 * length F2) (elgamal_enc_vec fpowm k con2 (length F2) rs2)) F2"
  shows "elgamal_dec mpz_invert k (fst c) (snd c) =
    g ^ nat ((\<Sum>i < length F1. con1 ! i * F1 ! i) + (\<Sum>i < length F2. con2 ! i * F2 ! i)) mod p"
proof -
  let ?S = "\<lambda>con F. \<Sum>i < length F. con ! i * F ! i"
  let ?N = "\<lambda>xs F. \<Sum>i < length F. nat (xs ! i) * nat (F ! i)"
  have half: "dot_product_simel_enc spowm (set_elgamal_pub_key p g k1) nt ord (length F)
      (dump_vector_interleaved (2 * length F) (elgamal_enc_vec fpowm k con (length F) rs)) F =
      (g ^ ?N rs F mod p, g ^ (nat r * ?N rs F + ?N con F) mod p)"
    if "\<forall>i < length F. 0 \<le> con ! i \<and> 0 \<le> rs ! i \<and> 0 \<le> F ! i" for con rs F
    using gmpmee.simel_enc_product [OF lib(1) _ nt, of "set_elgamal_pub_key p g k1"
        "dump_vector_interleaved (2 * length F) (elgamal_enc_vec fpowm k con (length F) rs)" "length F" F]
      gmpmee.enc_product_enc_vec [OF lib(1), of k "nat r" "length F" con rs F] that key
    by (simp add: k)
  let ?a = "?N rs1 F1 + ?N rs2 F2" and ?m = "?N con1 F1 + ?N con2 F2"
  have "c = (g ^ ?a mod p, g ^ (nat r * ?a + ?m) mod p)"
    unfolding c commitment_answer_def half [OF con1] half [OF con2] elgamal_hadd_def
    by (simp add: mod_mult_eq power_add [symmetric] algebra_simps)
  then have "elgamal_dec mpz_invert k (fst c) (snd c) = g ^ ?m mod p"
    using elgamal_dec_power [OF lib(2), of k "nat r" ?a ?m] key by (simp add: k)
  also have "?m = nat (?S con1 F1) + nat (?S con2 F2)"
    using con1 con2 int_sum_prod_nat by simp
  also have "\<dots> = nat (?S con1 F1 + ?S con2 F2)"
    using con1 con2 by (intro nat_add_distrib [symmetric] sum_nonneg) auto
  finally show ?thesis .
qed

text \<open>
  C0: Decrypting what the prover returns for the commitment gives the generator to the power of the two dot products of
  the verifier's secret vectors with the prover's proof vectors, whatever the random exponents, the number of threads of the
  prover and the order in which they finish.
\<close>

theorem commitment_decrypts:
  assumes lib: "gmpmee fpowm spowm" "gmp_invert mpz_invert"
    and key: "1 < p" "coprime g p" "0 \<le> r" and nt: "0 < nt" "mset ord = mset [0..<nt]"
    and con1: "\<forall>i < length F1. 0 \<le> con1 ! i \<and> 0 \<le> rs1 ! i \<and> 0 \<le> F1 ! i"
    and con2: "\<forall>i < length F2. 0 \<le> con2 ! i \<and> 0 \<le> rs2 ! i \<and> 0 \<le> F2 ! i"
    and k: "k = set_elgamal_priv_key p g r k0"
    and c: "c = commitment_answer spowm (set_elgamal_pub_key p g k1) nt ord
          (dump_vector_interleaved (2 * length F1) (elgamal_enc_vec fpowm k con1 (length F1) rs1)) F1
          (dump_vector_interleaved (2 * length F2) (elgamal_enc_vec fpowm k con2 (length F2) rs2)) F2"
  shows "elgamal_dec mpz_invert k (fst c) (snd c) =
    g ^ nat ((\<Sum>i < length F1. con1 ! i * F1 ! i) + (\<Sum>i < length F2. con2 ! i * F2 ! i)) mod p"
  using commitment_opens [OF lib key nt con1 con2 k c] .

lemma commitment_decrypts_witness:
  "elgamal_dec mod_inverse (set_elgamal_priv_key 23 2 3 \<lparr>eg_p = 0, eg_g = 0, eg_gr = 0, eg_r = 0, eg_q = 0\<rparr>) 3 6 = 13"
proof -
  let ?k0 = "\<lparr>eg_p = 0, eg_g = 0, eg_gr = 0, eg_r = 0, eg_q = 0\<rparr>"
  let ?k = "set_elgamal_priv_key 23 2 3 ?k0" and ?pow = "\<lambda>b m e. mpz_powm b e m"
  have c: "(3, 6) = commitment_answer spowm_regular (set_elgamal_pub_key 23 2 ?k0) 2 [1, 0]
      (dump_vector_interleaved (2 * length [2::int, 1]) (elgamal_enc_vec ?pow ?k [1, 3] (length [2::int, 1]) [1, 2])) [2, 1]
      (dump_vector_interleaved (2 * length [1::int]) (elgamal_enc_vec ?pow ?k [2] (length [1::int]) [4])) [1]"
    by code_simp
  have cp: "coprime 2 (23 :: int)" by (simp add: coprime_left_2_iff_odd)
  have ord: "mset [1, 0 :: nat] = mset [0..<2]" by (simp add: numeral_2_eq_2 del: mset_upt)
  have "elgamal_dec mod_inverse ?k (fst (3 :: int, 6 :: int)) (snd (3 :: int, 6 :: int)) =
      2 ^ nat ((\<Sum>i < length [2::int, 1]. [1, 3] ! i * [2, 1] ! i) + (\<Sum>i < length [1::int]. [2] ! i * [1] ! i)) mod 23"
    by (rule commitment_decrypts [OF gm_regular.gmpmee_axioms euclid.gmp_invert_axioms _ cp _ _ ord _ _ refl c])
      (auto simp: less_Suc_eq)
  also have "\<dots> = 13" by (simp add: numeral_2_eq_2)
  finally show ?thesis by simp
qed

end
