(* ===== verification/Pcp_Queries.thy ===== *)
theory Pcp_Queries
  imports Elgamal
begin

text \<open>
  The class \<^verbatim>\<open>Venezia\<close> (\<^verbatim>\<open>libv/libv.cpp\<close>), shared by the verifiers and provers of Ginger and Zaatar: creation of the queries of
  the linear PCP, the tests on the answers, and the interpolation points of Zaatar.

  The random generators are tapes: \<open>pub\<close> is the generator whose seed the verifier discloses, \<open>priv\<close> the private one, and the
  two positions count the draws made. A query vector and the array of coins that go with a consistency query are an
  option, \<open>None\<close> for the two null pointers that the prover passes. A loop whose iterations write disjoint slots is a map.
  \<^verbatim>\<open>filled\<close> is the number of coins used so far minus one, as in the source.
\<close>

record rng =
  pub :: "nat \<Rightarrow> mpz"
  pub_at :: nat
  priv :: "nat \<Rightarrow> mpz"
  priv_at :: nat

definition get_random_pub :: "rng \<Rightarrow> mpz \<times> rng" where
  "get_random_pub g = (pub g (pub_at g), g\<lparr>pub_at := Suc (pub_at g)\<rparr>)"

definition get_random_priv :: "rng \<Rightarrow> mpz \<times> rng" where
  "get_random_priv g = (priv g (priv_at g), g\<lparr>priv_at := Suc (priv_at g)\<rparr>)"

definition get_random_vec_pub :: "nat \<Rightarrow> rng \<Rightarrow> mpz_vec \<times> rng" where
  "get_random_vec_pub n g = (map (\<lambda>i. pub g (pub_at g + i)) [0..<n], g\<lparr>pub_at := pub_at g + n\<rparr>)"

definition get_random_vec_priv :: "nat \<Rightarrow> rng \<Rightarrow> mpz_vec \<times> rng" where
  "get_random_vec_priv n g = (map (\<lambda>i. priv g (priv_at g + i)) [0..<n], g\<lparr>priv_at := priv_at g + n\<rparr>)"

section \<open>Queries\<close>

type_synonym con_and_coins = "(mpz_vec \<times> mpz_vec) option"

definition create_commitment_query ::
  "(int \<Rightarrow> int \<Rightarrow> int \<Rightarrow> int) \<Rightarrow> elgamal_key \<Rightarrow> nat \<Rightarrow> rng \<Rightarrow> mpz_vec \<times> mpz_vec \<times> rng" where
  "create_commitment_query fpowm k n g =
    (let (con_q, g) = get_random_vec_priv n g;
         (rs, g) = get_random_vec_priv n g
     in (elgamal_enc_vec fpowm k con_q n rs, con_q, g))"

definition update_con_query :: "mpz \<Rightarrow> mpz \<Rightarrow> mpz \<Rightarrow> mpz" where
  "update_con_query con beta q = con + beta * q"

definition update_con_query_vec :: "nat \<Rightarrow> mpz_vec \<Rightarrow> mpz \<Rightarrow> mpz_vec \<Rightarrow> mpz_vec" where
  "update_con_query_vec n con beta q = map (\<lambda>i. update_con_query (con ! i) beta (q ! i)) [0..<n]"

definition set_coin :: "mpz_vec \<Rightarrow> int \<Rightarrow> mpz \<Rightarrow> mpz_vec" where
  "set_coin coins k c = coins[nat k := c]"

text \<open>The third linearity query is the sum of the first two and is not formed; its coin goes to both of them.\<close>

definition create_lin_test_queries ::
  "nat \<Rightarrow> con_and_coins \<Rightarrow> int \<Rightarrow> rng \<Rightarrow> mpz_vec \<times> mpz_vec \<times> con_and_coins \<times> rng" where
  "create_lin_test_queries n cc filled g =
    (case cc of
       None \<Rightarrow>
         let l1 = map (\<lambda>i. pub g (pub_at g + 2 * i)) [0..<n];
             l2 = map (\<lambda>i. pub g (pub_at g + 2 * i + 1)) [0..<n]
         in (l1, l2, None, g\<lparr>pub_at := pub_at g + 2 * n\<rparr>)
     | Some (con, coins) \<Rightarrow>
         let (c1, g) = get_random_priv g;
             (c2, g) = get_random_priv g;
             (c3, g) = get_random_priv g;
             coins = set_coin (set_coin (set_coin coins (filled + 1) c1) (filled + 2) c2) (filled + 3) c3;
             l1 = map (\<lambda>i. pub g (pub_at g + 2 * i)) [0..<n];
             l2 = map (\<lambda>i. pub g (pub_at g + 2 * i + 1)) [0..<n];
             con = map (\<lambda>i. update_con_query (update_con_query (con ! i) (c1 + c3) (l1 ! i)) (c2 + c3) (l2 ! i)) [0..<n]
         in (l1, l2, Some (con, coins), g\<lparr>pub_at := pub_at g + 2 * n\<rparr>))"

definition create_corr_test_queries_reuse ::
  "nat \<Rightarrow> mpz_vec \<Rightarrow> nat \<Rightarrow> mpz_vec \<Rightarrow> mpz_vec \<Rightarrow> con_and_coins \<Rightarrow> int \<Rightarrow> int \<Rightarrow> rng \<Rightarrow> mpz_vec \<times> con_and_coins \<times> rng"
where
  "create_corr_test_queries_reuse size_1 c1_q size_2 c2_q r cc filled3 prime g =
    (let c3_q = concat (map (\<lambda>i. map (\<lambda>j. (c1_q ! i * c2_q ! j + r ! (i * size_2 + j)) mod prime) [0..<size_2]) [0..<size_1])
     in case cc of
          None \<Rightarrow> (c3_q, None, g)
        | Some (con, coins) \<Rightarrow>
            let (c, g) = get_random_priv g
            in (c3_q, Some (update_con_query_vec (size_1 * size_2) con c c3_q, set_coin coins (filled3 + 1) c), g))"

definition create_ckt_test_queries ::
  "nat \<Rightarrow> mpz_vec \<Rightarrow> mpz_vec \<Rightarrow> con_and_coins \<Rightarrow> int \<Rightarrow> int \<Rightarrow> rng \<Rightarrow> mpz_vec \<times> con_and_coins \<times> rng" where
  "create_ckt_test_queries n a q_2 cc filled prime g =
    (let q_1 = map (\<lambda>i. (q_2 ! i + a ! i) mod prime) [0..<n]
     in case cc of
          None \<Rightarrow> (q_1, None, g)
        | Some (con, coins) \<Rightarrow>
            let (c, g) = get_random_priv g
            in (q_1, Some (update_con_query_vec n con c q_1, set_coin coins (filled + 1) c), g))"

definition outer_product :: "nat \<Rightarrow> mpz_vec \<Rightarrow> nat \<Rightarrow> mpz_vec \<Rightarrow> mpz_vec \<Rightarrow> int \<Rightarrow> mpz_vec" where
  "outer_product size_1 q1 size_2 q2 msk prime =
    concat (map (\<lambda>i. map (\<lambda>j. (q1 ! i * q2 ! j + msk ! (i * size_2 + j)) mod prime) [0..<size_2]) [0..<size_1])"

section \<open>The quadratic program at a random point\<close>

text \<open>An entry of a sparse matrix: variable \<open>i\<close>, constraint \<open>j\<close>, coefficient.\<close>

record poly_compressed =
  pc_i :: nat
  pc_j :: nat
  coefficient :: mpz

definition eval_poly_at ::
  "(int \<Rightarrow> int \<Rightarrow> int) \<Rightarrow> mpz_vec \<Rightarrow> mpz_vec \<Rightarrow> int \<Rightarrow> int \<Rightarrow> int \<Rightarrow> poly_compressed list \<Rightarrow> mpz_vec \<Rightarrow> mpz_vec"
where
  "eval_poly_at mpz_invert powers set_v prime tau l_tau poly ev =
    map (\<lambda>x. x * l_tau mod prime)
      (fold (\<lambda>e ev. ev[pc_i e := (ev ! pc_i e +
               (set_v ! pc_j e * coefficient e mod prime) * mpz_invert (tau - powers ! pc_j e) prime) mod prime]) poly ev)"

definition node_product :: "mpz_vec \<Rightarrow> int \<Rightarrow> nat \<Rightarrow> int \<Rightarrow> int option" where
  "node_product powers prime size_2 tau =
    fold (\<lambda>i l. Option.bind l (\<lambda>l. if tau - powers ! i = 0 then None else Some (l * (tau - powers ! i) mod prime)))
      [0..<size_2] (Some 1)"

record eval_point =
  ep_tau :: mpz
  ep_d_star :: mpz
  ep_A :: mpz_vec
  ep_B :: mpz_vec
  ep_C :: mpz_vec

text \<open>The program ends when the point is one of the nodes (\<open>None\<close>).\<close>

definition evaluate_polynomial_at_random_point ::
  "(int \<Rightarrow> int \<Rightarrow> int) \<Rightarrow> mpz_vec \<Rightarrow> nat \<Rightarrow> mpz_vec \<Rightarrow> poly_compressed list \<Rightarrow> poly_compressed list \<Rightarrow> poly_compressed list \<Rightarrow>
   mpz_vec \<Rightarrow> mpz_vec \<Rightarrow> mpz_vec \<Rightarrow> int \<Rightarrow> rng \<Rightarrow> (eval_point \<times> rng) option"
where
  "evaluate_polynomial_at_random_point mpz_invert powers size_2 set_v poly_A poly_B poly_C evA evB evC prime g =
    (let (tau, g) = get_random_pub g in
     Option.bind (node_product powers prime size_2 tau) (\<lambda>l_tau.
       let ev = eval_poly_at mpz_invert powers set_v prime tau l_tau
       in Some (\<lparr>ep_tau = tau, ep_d_star = mpz_invert (tau - 1) prime * l_tau mod prime,
                 ep_A = ev poly_A evA, ep_B = ev poly_B evB, ep_C = ev poly_C evC\<rparr>, g)))"

record div_queries =
  dq_f1_q1 :: mpz_vec
  dq_f1_q2 :: mpz_vec
  dq_f1_q3 :: mpz_vec
  dq_f2_q1 :: mpz_vec
  dq_point :: eval_point

definition tau_powers :: "nat \<Rightarrow> int \<Rightarrow> int \<Rightarrow> mpz_vec" where
  "tau_powers n tau prime =
    fold (\<lambda>i q. q[i := (if 0 < i then q ! (i - 1) * tau mod prime else 1)]) [0..<n] (replicate n 0)"

text \<open>Both callers pass one array of coins twice, or null pointers throughout.\<close>

definition create_div_corr_test_queries ::
  "(int \<Rightarrow> int \<Rightarrow> int) \<Rightarrow> mpz_vec \<Rightarrow> nat \<Rightarrow> nat \<Rightarrow> (mpz_vec \<times> mpz_vec \<times> mpz_vec) option \<Rightarrow> int \<Rightarrow> int \<Rightarrow> mpz_vec \<Rightarrow> mpz_vec \<Rightarrow>
   mpz_vec \<Rightarrow> poly_compressed list \<Rightarrow> poly_compressed list \<Rightarrow> poly_compressed list \<Rightarrow> mpz_vec \<Rightarrow> mpz_vec \<Rightarrow> mpz_vec \<Rightarrow>
   int \<Rightarrow> rng \<Rightarrow> (div_queries \<times> (mpz_vec \<times> mpz_vec \<times> mpz_vec) option \<times> rng) option"
where
  "create_div_corr_test_queries mpz_invert powers size_1 size_2 cc fill1 fill2 corr_q corr_q2
     set_v poly_A poly_B poly_C evA evB evC prime g =
    (let (c1, g1) = get_random_priv g; (c2, g2) = get_random_priv g1; (c3, g3) = get_random_priv g2;
         (d1, g4) = get_random_priv g3;
         g = (if cc = None then g else g4)
     in Option.bind
          (evaluate_polynomial_at_random_point mpz_invert powers size_2 set_v poly_A poly_B poly_C evA evB evC prime g)
          (\<lambda>(pt, g).
            let f2_q1 = map (\<lambda>i. (tau_powers size_2 (ep_tau pt) prime ! i + corr_q2 ! i) mod prime) [0..<size_2];
                corrected = (\<lambda>ev. map (\<lambda>i. (ev ! (i + 1) + corr_q ! i) mod prime) [0..<size_1]);
                f1_q1 = corrected (ep_A pt); f1_q2 = corrected (ep_B pt); f1_q3 = corrected (ep_C pt);
                cc = map_option (\<lambda>(con1, con2, coins).
                  (map (\<lambda>i. update_con_query (update_con_query (update_con_query (con1 ! i) c1 (f1_q1 ! i)) c2 (f1_q2 ! i)) c3 (f1_q3 ! i))
                     [0..<size_1],
                   update_con_query_vec size_2 con2 d1 f2_q1,
                   set_coin (set_coin (set_coin (set_coin coins (fill1 + 1) c1) (fill1 + 2) c2) (fill1 + 3) c3) (fill2 + 1) d1)) cc
            in Some (\<lparr>dq_f1_q1 = f1_q1, dq_f1_q2 = f1_q2, dq_f1_q3 = f1_q3, dq_f2_q1 = f2_q1, dq_point = pt\<rparr>, cc, g)))"

section \<open>Tests\<close>

definition lin_test :: "int \<Rightarrow> int \<Rightarrow> int \<Rightarrow> int \<Rightarrow> bool" where
  "lin_test a1 a2 a3 prime = ((a1 + a2) mod prime = a3 mod prime)"

definition corr_test :: "int \<Rightarrow> int \<Rightarrow> int \<Rightarrow> int \<Rightarrow> int \<Rightarrow> bool" where
  "corr_test a1 a2 a3 a4 prime = (a1 * a2 mod prime = (a3 - a4) mod prime)"

definition ckt_test :: "nat \<Rightarrow> mpz_vec \<Rightarrow> int \<Rightarrow> int \<Rightarrow> bool" where
  "ckt_test n arr c prime =
    (fold (\<lambda>i acc. acc + (arr ! (2 * i) - arr ! (2 * i + 1))) [0..<n div 2] c mod prime = 0)"

definition consistency_test ::
  "(int \<Rightarrow> int \<Rightarrow> int \<Rightarrow> int) \<Rightarrow> elgamal_key \<Rightarrow> nat \<Rightarrow> int \<Rightarrow> int \<Rightarrow> mpz_vec \<Rightarrow> mpz_vec \<Rightarrow> bool" where
  "consistency_test fpowm k n con_answer com_answer answers con_coins =
    (let t = con_answer - fold (\<lambda>i acc. acc + con_coins ! i * answers ! i) [0..<n] 0
     in if 0 \<le> t \<and> t < eg_q k then fpowm (eg_g k) (eg_p k) t = com_answer else False)"

definition dot_product :: "nat \<Rightarrow> mpz_vec \<Rightarrow> mpz_vec \<Rightarrow> int" where
  "dot_product n q d = fold (\<lambda>i acc. acc + d ! i * q ! i) [0..<n] 0"

definition dot_product_par :: "nat \<Rightarrow> nat list \<Rightarrow> nat \<Rightarrow> mpz_vec \<Rightarrow> mpz_vec \<Rightarrow> int" where
  "dot_product_par num_threads ord n q d =
    (let sizes = thread_sizes num_threads n in
     fold (\<lambda>tid acc. acc + dot_product (sizes ! tid) (drop (thread_base sizes tid) q) (drop (thread_base sizes tid) d)) ord 0)"

section \<open>Interpolation points\<close>

text \<open>\<^verbatim>\<open>compute_set_v\<close> for the powers of a root of unity, and the version for the points \<open>0, 1, \<dots>\<close>.\<close>

definition compute_set_v_omega :: "(int \<Rightarrow> int \<Rightarrow> int) \<Rightarrow> nat \<Rightarrow> mpz_vec \<Rightarrow> int \<Rightarrow> mpz_vec" where
  "compute_set_v_omega mpz_invert n powers prime =
    (let v0 = mpz_invert (fold (\<lambda>i acc. acc * (powers ! 0 - powers ! i) mod prime) [1..<n] 1) prime;
         inv_of_omega_c_1 = mpz_invert (powers ! (n - 1)) prime
     in fold (\<lambda>j set_v. set_v[j + 1 := set_v ! j * inv_of_omega_c_1 mod prime]) [0..<n - 1] ((replicate n 0)[0 := v0]))"

definition compute_set_v_int :: "(int \<Rightarrow> int \<Rightarrow> int) \<Rightarrow> nat \<Rightarrow> int \<Rightarrow> mpz_vec" where
  "compute_set_v_int mpz_invert n prime =
    (let v0 = mpz_invert (fold (\<lambda>i acc. acc * (- int i) mod prime) [1..<n] 1) prime
     in fold (\<lambda>j set_v. set_v[j := (set_v ! (j - 1) * mpz_invert (int j) prime mod prime) * (int j - int n) mod prime])
          [1..<n] ((replicate n 0)[0 := v0]))"

text \<open>
  \<open>urandom i\<close> is the \<open>i\<close>-th number that \<^verbatim>\<open>mpz_urandomb\<close> returns from the fixed seed. The search for a non-residue
  need not end (\<open>None\<close>), and the program ends when the result is not a root of unity (\<open>Some None\<close>).
\<close>

partial_function (option) find_nonresidue :: "(nat \<Rightarrow> int) \<Rightarrow> int \<Rightarrow> nat \<Rightarrow> int option" where
  "find_nonresidue urandom prime i =
    (let x = urandom i mod prime
     in if x \<noteq> 0 \<and> mpz_powm x ((prime - 1) div 2) prime \<noteq> 1 then Some x
        else find_nonresidue urandom prime (Suc i))"

definition powers_of :: "int \<Rightarrow> nat \<Rightarrow> int \<Rightarrow> mpz_vec" where
  "powers_of omega n prime =
    fold (\<lambda>i ps. ps[i := ps ! (i - 1) * omega mod prime]) [1..<n] ((replicate n 0)[0 := 1])"

definition generate_root_of_unity :: "(nat \<Rightarrow> int) \<Rightarrow> nat \<Rightarrow> int \<Rightarrow> (int \<times> mpz_vec) option option" where
  "generate_root_of_unity urandom n prime =
    map_option (\<lambda>x. let omega = mpz_powm x ((prime - 1) div int n) prime
                    in if mpz_powm omega (int n) prime \<noteq> 1 then None else Some (omega, powers_of omega n prime))
      (find_nonresidue urandom prime 0)"

end
