(* ===== verification/Pcp_Nodes.thy ===== *)
theory Pcp_Nodes
  imports Pcp_Queries Hamdist_Value
begin

text \<open>
  The interpolation points of Zaatar. \<^verbatim>\<open>generate_root_of_unity\<close> returns an element of exact order \<open>n\<close> when \<open>n\<close> is a power
  of two that divides \<open>p - 1\<close>, and \<^verbatim>\<open>compute_set_v\<close> holds the inverses of the products of the differences of the points,
  which is what Lagrange interpolation needs.
\<close>

definition root_order :: "int \<Rightarrow> int \<Rightarrow> nat \<Rightarrow> bool" where
  "root_order p w n \<longleftrightarrow> 0 < n \<and> w ^ n mod p = 1 \<and> (\<forall>d \<in> {1..<n}. w ^ d mod p \<noteq> 1)"

lemma length_powers_of [simp]: "length (powers_of w n p) = n"
  unfolding powers_of_def by (rule fold_invariant_set) simp_all

lemma powers_of_nth:
  assumes "i < n" and "1 < p"
  shows "powers_of w n p ! i = w ^ i mod p"
proof -
  define P where "P k ps \<longleftrightarrow> length ps = n \<and> (\<forall>i < k. ps ! i = w ^ i mod p)" for k and ps :: "int list"
  have "P n (powers_of w n p)"
    unfolding powers_of_def
  proof (rule fold_range_inv)
    show "1 \<le> n" using assms(1) by simp
    show "P 1 ((replicate n 0)[0 := 1])" using assms by (auto simp: P_def)
    show "P (Suc k) (ps[k := ps ! (k - 1) * w mod p])" if k: "1 \<le> k" "k < n" and P: "P k ps" for k ps
    proof -
      have "ps ! (k - 1) * w mod p = w ^ k mod p"
        using k P by (cases k) (auto simp: P_def mod_mult_left_eq mod_mult_right_eq mult.commute)
      then show ?thesis using P k by (auto simp: P_def less_Suc_eq)
    qed
  qed
  then show ?thesis using assms by (simp add: P_def)
qed

section \<open>Powers of a root of unity\<close>

lemma root_power_nonzero:
  assumes "root_order p w n" and "1 < p"
  shows "w ^ i mod p \<noteq> 0"
proof
  assume "w ^ i mod p = 0"
  then have "(w ^ i) ^ n mod p = 0" using assms(1) by (cases n) (auto simp: root_order_def mod_eq_0_iff_dvd)
  moreover have "(w ^ i) ^ n mod p = (w ^ n) ^ i mod p" by (simp add: power_mult [symmetric] mult.commute)
  moreover have "\<dots> = 1 ^ i mod p" by (rule mod_power_cong) (use assms in \<open>simp add: root_order_def\<close>)
  ultimately show False using assms(2) by simp
qed

lemma root_power_mod:
  assumes "root_order p w n" and "1 < p"
  shows "w ^ (i mod n) mod p = w ^ i mod p"
proof -
  have "w ^ i mod p = (w ^ n) ^ (i div n) * w ^ (i mod n) mod p"
    by (simp add: power_mult [symmetric] power_add [symmetric])
  also have "\<dots> = 1 ^ (i div n) * w ^ (i mod n) mod p"
    by (rule mod_mult_cong [OF mod_power_cong refl]) (use assms in \<open>simp add: root_order_def\<close>)
  finally show ?thesis by simp
qed

lemma root_power_inj:
  assumes p: "prime_modulus p" and w: "root_order p w n" and ij: "i < n" "j < n" and eq: "w ^ i mod p = w ^ j mod p"
  shows "i = j"
proof -
  have False if "i < j" "j < n" "w ^ i mod p = w ^ j mod p" for i j
  proof -
    have "(w ^ j - w ^ i) mod p = 0" using that(3) by (simp add: mod_eq_dvd_iff mod_eq_0_iff_dvd dvd_diff_commute)
    moreover have "w ^ j - w ^ i = w ^ i * (w ^ (j - i) - 1)"
      using that(1) by (simp add: algebra_simps power_add [symmetric])
    ultimately have "(w ^ (j - i) - 1) mod p = 0"
      using prime_modulus_mult_0 [OF p, of "w ^ i" "w ^ (j - i) - 1"] root_power_nonzero [OF w] prime_modulus_gt2 [OF p]
      by auto
    then have "w ^ (j - i) mod p = 1" using prime_modulus_gt2 [OF p]
      by (metis mod_0_imp_dvd mod_eq_dvd_iff mod_pos_pos_trivial one_less_numeral_iff order_less_trans semiring_norm(76) zero_le_one)
    moreover have "j - i \<in> {1..<n}" using that by auto
    ultimately show False using w by (auto simp: root_order_def)
  qed
  from this [of i j] this [of j i] ij eq show ?thesis by (metis linorder_neqE_nat)
qed

lemma odd_part: "0 < (d :: nat) \<Longrightarrow> \<exists>e m. d = 2 ^ e * m \<and> odd m"
proof (induction d rule: less_induct)
  case (less d)
  show ?case
  proof (cases "odd d")
    case True
    then show ?thesis by (intro exI [of _ 0] exI [of _ d]) simp
  next
    case False
    then obtain c where c: "d = 2 * c" by blast
    with less obtain e m where "c = 2 ^ e * m" "odd m" by (metis dvd_triv_left less_add_same_cancel1 mult_2 nat_0_less_mult_iff)
    then show ?thesis using c by (intro exI [of _ "Suc e"] exI [of _ m]) auto
  qed
qed

lemma primitive_root_order:
  assumes p: "prime_modulus p" and n: "n = 2 ^ k" and w: "w ^ n mod p = 1"
    and half: "0 < k \<Longrightarrow> w ^ (n div 2) mod p \<noteq> 1"
  shows "root_order p w n"
  unfolding root_order_def
proof (intro conjI ballI notI)
  have p1: "2 < p" using prime_modulus_gt2 [OF p] .
  fix d assume d: "d \<in> {1..<n}" and wd: "w ^ d mod p = 1"
  obtain e m where em: "d = 2 ^ e * m" "odd m" using odd_part [of d] d by auto
  have "2 ^ e \<le> d" using em d by (cases m) auto
  also have "d < 2 ^ k" using d n by simp
  finally have ek: "e < k" by simp
  let ?h = "w ^ 2 ^ (k - 1)"
  have "?h * ?h mod p = 1"
    using w ek by (simp add: n power_add [symmetric] mult_2 [symmetric] power_Suc [symmetric] del: power_Suc)
  then have "(?h - 1) * (?h + 1) mod p = 0" using p1
    by (metis (no_types, opaque_lifting) dvd_imp_mod_0 mod_eq_dvd_iff mod_pos_pos_trivial square_diff_one_factored
        zero_le_one order_less_trans one_less_numeral_iff semiring_norm(76) mult.commute)
  moreover have "n div 2 = 2 ^ (k - 1)" using ek by (cases k) (auto simp: n)
  then have "?h mod p \<noteq> 1" using half ek by simp
  then have "(?h - 1) mod p \<noteq> 0" using p1
    by (metis dvd_eq_mod_eq_0 mod_eq_dvd_iff mod_pos_pos_trivial zero_le_one order_less_trans one_less_numeral_iff semiring_norm(76))
  ultimately have "(?h + 1) mod p = 0" using prime_modulus_mult_0 [OF p, of "?h - 1" "?h + 1"] by simp
  then have h: "?h mod p = (- 1) mod p" by (simp add: mod_eq_dvd_iff dvd_eq_mod_eq_0)
  have "w ^ (d * 2 ^ (k - 1 - e)) mod p = 1 ^ 2 ^ (k - 1 - e) mod p"
    unfolding power_mult by (rule mod_power_cong) (use wd p1 in simp)
  moreover have "d * 2 ^ (k - 1 - e) = 2 ^ (k - 1) * m" using em(1) ek by (simp add: power_add [symmetric] mult.assoc mult.left_commute)
  moreover have "w ^ (2 ^ (k - 1) * m) mod p = (- 1) ^ m mod p"
    unfolding power_mult by (rule mod_power_cong [OF h])
  ultimately have "(- 1) mod p = (1 :: int)" using em(2) p1 by simp
  then show False using p1 by (simp add: zmod_minus1)
qed (use assms prime_modulus_gt2 [OF p] in auto)

lemma find_nonresidue_found:
  "find_nonresidue urandom p i = Some x \<Longrightarrow> x mod p \<noteq> 0 \<and> mpz_powm x ((p - 1) div 2) p \<noteq> 1"
proof (rule find_nonresidue.raw_induct [of "\<lambda>u q i x. x mod q \<noteq> 0 \<and> mpz_powm x ((q - 1) div 2) q \<noteq> 1"])
  fix f u q i x
  assume IH: "\<And>u q i x. f u q i = Some x \<Longrightarrow> x mod q \<noteq> 0 \<and> mpz_powm x ((q - 1) div 2) q \<noteq> 1"
    and body: "(let x = u i mod q in if x \<noteq> 0 \<and> mpz_powm x ((q - 1) div 2) q \<noteq> 1 then Some x else f u q (Suc i)) = Some x"
  show "x mod q \<noteq> 0 \<and> mpz_powm x ((q - 1) div 2) q \<noteq> 1"
  proof (cases "u i mod q \<noteq> 0 \<and> mpz_powm (u i mod q) ((q - 1) div 2) q \<noteq> 1")
    case True
    then have "x = u i mod q" using body by (simp add: Let_def)
    then show ?thesis using True by simp
  next
    case False
    then have "f u q (Suc i) = Some x" using body by (simp add: Let_def split: if_splits)
    then show ?thesis by (rule IH)
  qed
qed

text \<open>
  C0: When the number \<open>n\<close> of points is a power of two that divides \<open>p - 1\<close> and the search for a non-residue ends,
  \<^verbatim>\<open>generate_root_of_unity\<close> does not exit, and it returns an element of order exactly \<open>n\<close> and its powers.
\<close>

theorem root_of_unity_order:
  assumes p: "prime_modulus p" and n: "n = 2 ^ k" and dvd: "int n dvd p - 1"
    and found: "find_nonresidue urandom p 0 = Some x"
  shows "\<exists>w. generate_root_of_unity urandom n p = Some (Some (w, map (\<lambda>i. w ^ i mod p) [0..<n])) \<and> root_order p w n"
proof -
  have p2: "2 < p" using prime_modulus_gt2 [OF p] .
  have x: "x mod p \<noteq> 0" "mpz_powm x ((p - 1) div 2) p \<noteq> 1" using find_nonresidue_found [OF found] by auto
  obtain m where m: "p - 1 = int n * int m" using dvd p2
    by (metis dvdE int_nat_eq diff_gt_0_iff_gt less_imp_le order_less_trans one_less_numeral_iff semiring_norm(76)
        zero_less_mult_pos of_nat_0_less_iff zero_less_power pos2 n)
  have n0: "0 < n" by (simp add: n)
  let ?w = "mpz_powm x ((p - 1) div int n) p"
  have e: "nat ((p - 1) div int n) = m" using m n0 by simp
  have w: "?w ^ a mod p = x ^ (m * a) mod p" for a
    by (simp add: mpz_powm_def e power_mod power_mult)
  have pm: "nat (p - 1) = n * m" using m by (simp add: nat_mult_distrib)
  have one: "?w ^ n mod p = 1" using fermat_little [OF p x(1)] w pm by (simp add: mult.commute)
  have half: "?w ^ (n div 2) mod p \<noteq> 1" if "0 < k"
  proof -
    have "n = 2 * (n div 2)" using n that by (cases k) auto
    then have "p - 1 = 2 * (int (n div 2) * int m)" using m by (metis mult.assoc of_nat_mult of_nat_numeral)
    then have "nat ((p - 1) div 2) = m * (n div 2)" by (simp add: nat_mult_distrib)
    with x(2) show ?thesis unfolding w by (simp add: mpz_powm_def)
  qed
  have powers: "powers_of ?w n p = map (\<lambda>i. ?w ^ i mod p) [0..<n]"
    using powers_of_nth p2 by (intro nth_equalityI) auto
  show ?thesis
    using primitive_root_order [OF p n one half] one found
    by (intro exI [of _ ?w]) (simp add: generate_root_of_unity_def Let_def powers mpz_powm_def [of ?w])
qed

lemma root_of_unity_order_witness:
  "\<exists>w. generate_root_of_unity (\<lambda>_. 3) 4 17 = Some (Some (w, map (\<lambda>i. w ^ i mod 17) [0..<4])) \<and> root_order 17 w 4"
proof (rule root_of_unity_order [where k = 2 and x = 3])
  show "prime_modulus 17" by code_simp
  show "find_nonresidue (\<lambda>_. 3) 17 0 = Some 3"
    by (subst find_nonresidue.simps) (simp add: mpz_powm_def)
qed simp_all

section \<open>Lagrange interpolation\<close>

text \<open>The product of the differences of point \<open>j\<close> with the others, and the interpolating polynomial.\<close>

lemma root_difference_product:
  assumes p: "prime_modulus p" and w: "root_order p w n" and j: "j < n"
  shows "(\<Prod>k \<in> {..<n} - {j}. w ^ j - w ^ k) mod p = (w ^ (n - 1)) ^ j * (\<Prod>k \<in> {1..<n}. 1 - w ^ k) mod p"
proof -
  have p1: "1 < p" using prime_modulus_gt2 [OF p] by simp
  let ?f = "\<lambda>d. (j + d) mod n"
  have bij: "bij_betw ?f {1..<n} ({..<n} - {j})"
  proof (rule bij_betw_byWitness [where f' = "\<lambda>k. (k + n - j) mod n"])
    show "\<forall>d \<in> {1..<n}. (?f d + n - j) mod n = d"
    proof
      fix d assume d: "d \<in> {1..<n}"
      show "(?f d + n - j) mod n = d"
        using d j by (cases "j + d < n") (auto simp: mod_if)
    qed
    show "\<forall>k \<in> {..<n} - {j}. ?f ((k + n - j) mod n) = k"
    proof
      fix k assume k: "k \<in> {..<n} - {j}"
      show "?f ((k + n - j) mod n) = k"
        using k j by (cases "k < j") (auto simp: mod_if)
    qed
    show "?f ` {1..<n} \<subseteq> {..<n} - {j}"
    proof
      fix k assume "k \<in> ?f ` {1..<n}"
      then obtain d where "d \<in> {1..<n}" "k = (j + d) mod n" by blast
      then show "k \<in> {..<n} - {j}" using j by (cases "j + d < n") (auto simp: mod_if)
    qed
    show "(\<lambda>k. (k + n - j) mod n) ` ({..<n} - {j}) \<subseteq> {1..<n}"
    proof
      fix d assume "d \<in> (\<lambda>k. (k + n - j) mod n) ` ({..<n} - {j})"
      then obtain k where "k \<in> {..<n} - {j}" "d = (k + n - j) mod n" by blast
      then show "d \<in> {1..<n}" using j by (cases "k < j") (auto simp: mod_if)
    qed
  qed
  have "(\<Prod>k \<in> {..<n} - {j}. w ^ j - w ^ k) mod p = (\<Prod>d \<in> {1..<n}. w ^ j - w ^ ?f d) mod p"
    using prod.reindex_bij_betw [OF bij, of "\<lambda>k. w ^ j - w ^ k"] by simp
  also have "\<dots> = (\<Prod>d \<in> {1..<n}. w ^ j * (1 - w ^ d)) mod p"
  proof (rule prod_mod_cong)
    fix d
    have "(w ^ j - w ^ ?f d) mod p = (w ^ j - w ^ (j + d)) mod p"
      by (rule mod_diff_cong [OF refl root_power_mod [OF w p1]])
    then show "(w ^ j - w ^ ?f d) mod p = w ^ j * (1 - w ^ d) mod p" by (simp add: power_add algebra_simps)
  qed
  also have "(\<Prod>d \<in> {1..<n}. w ^ j * (1 - w ^ d)) = (w ^ (n - 1)) ^ j * (\<Prod>k \<in> {1..<n}. 1 - w ^ k)"
    by (simp add: prod.distrib power_mult [symmetric] mult.commute)
  finally show ?thesis .
qed

lemma length_set_v [simp]: "length (compute_set_v_omega mpz_invert n powers p) = n"
  unfolding compute_set_v_omega_def Let_def by (rule fold_invariant_set) simp_all

lemma set_v_nth:
  assumes "j < n"
  shows "compute_set_v_omega mpz_invert n powers p ! j mod p =
    mpz_invert (fold (\<lambda>i acc. acc * (powers ! 0 - powers ! i) mod p) [1..<n] 1) p * mpz_invert (powers ! (n - 1)) p ^ j mod p"
proof -
  let ?v0 = "mpz_invert (fold (\<lambda>i acc. acc * (powers ! 0 - powers ! i) mod p) [1..<n] 1) p"
  let ?c = "mpz_invert (powers ! (n - 1)) p"
  define P where "P k sv \<longleftrightarrow> length sv = n \<and> (\<forall>i \<le> k. i < n \<longrightarrow> sv ! i mod p = ?v0 * ?c ^ i mod p)" for k and sv :: "int list"
  have "P (n - 1) (compute_set_v_omega mpz_invert n powers p)"
    unfolding compute_set_v_omega_def Let_def
  proof (rule fold_range_inv)
    show "P 0 ((replicate n 0)[0 := ?v0])" using assms by (auto simp: P_def)
    show "P (Suc k) (sv[k + 1 := sv ! k * ?c mod p])" if k: "k < n - 1" and P: "P k sv" for k sv
    proof -
      have "sv ! k * ?c mod p = (sv ! k mod p) * ?c mod p" by (simp add: mod_mult_left_eq)
      also have "\<dots> = ?v0 * ?c ^ Suc k mod p" using P k by (simp add: P_def mod_mult_left_eq mod_mult_right_eq mult_ac)
      finally show ?thesis using P k by (auto simp: P_def le_Suc_eq)
    qed
  qed simp
  then show ?thesis using assms by (simp add: P_def)
qed

lemma set_v_weight:
  assumes inv: "gmp_invert mpz_invert" and p: "prime_modulus p" and w: "root_order p w n" and j: "j < n"
  shows "compute_set_v_omega mpz_invert n (powers_of w n p) p ! j *
      (\<Prod>k \<in> {..<n} - {j}. powers_of w n p ! j - powers_of w n p ! k) mod p = 1"
proof -
  have p1: "1 < p" using prime_modulus_gt2 [OF p] by simp
  let ?P = "\<Prod>k \<in> {1..<n}. 1 - w ^ k" and ?a = "w ^ (n - 1) mod p"
  let ?v = "compute_set_v_omega mpz_invert n (powers_of w n p) p ! j"
  have diff: "(powers_of w n p ! i - powers_of w n p ! k) mod p = (w ^ i - w ^ k) mod p" if "i < n" "k < n" for i k
    using that p1 by (simp add: powers_of_nth mod_diff_eq)
  have v0: "fold (\<lambda>i acc. acc * (powers_of w n p ! 0 - powers_of w n p ! i) mod p) [1..<n] 1 mod p = ?P mod p"
  proof -
    have "(\<Prod>i = 1..<n. powers_of w n p ! 0 - powers_of w n p ! i) mod p = ?P mod p"
      by (rule prod_mod_cong) (use diff [of 0] j in auto)
    then show ?thesis by (simp add: fold_mult_mod_prod)
  qed
  have P: "?P mod p \<noteq> 0"
  proof (rule prod_mod_nonzero [OF _ p])
    fix k assume k: "k \<in> {1..<n}"
    show "(1 - w ^ k) mod p \<noteq> 0"
    proof
      assume "(1 - w ^ k) mod p = 0"
      then have "w ^ k mod p = 1 mod p" by (metis dvd_eq_mod_eq_0 mod_eq_dvd_iff)
      then show False using w k p1 by (auto simp: root_order_def)
    qed
  qed simp
  have prod: "(\<Prod>k \<in> {..<n} - {j}. powers_of w n p ! j - powers_of w n p ! k) mod p = ?a ^ j * ?P mod p"
  proof -
    have "(\<Prod>k \<in> {..<n} - {j}. powers_of w n p ! j - powers_of w n p ! k) mod p = (\<Prod>k \<in> {..<n} - {j}. w ^ j - w ^ k) mod p"
      by (rule prod_mod_cong) (use diff j in auto)
    also have "\<dots> = (w ^ (n - 1)) ^ j * ?P mod p" by (rule root_difference_product [OF p w j])
    also have "\<dots> = ?a ^ j * ?P mod p" by (rule mod_mult_cong [OF _ refl]) (simp add: power_mod)
    finally show ?thesis .
  qed
  let ?F = "fold (\<lambda>i acc. acc * (powers_of w n p ! 0 - powers_of w n p ! i) mod p) [1..<n] 1"
  let ?x = "mpz_invert ?F p" and ?y = "mpz_invert ?a p"
  have v: "?v mod p = ?x * ?y ^ j mod p" using set_v_nth [OF j, of mpz_invert "powers_of w n p" p] p1 j by (simp add: powers_of_nth)
  have x: "?P * ?x mod p = 1"
    using gmp_invert.mpz_invert_prime [OF inv p, of ?F] P v0 by (metis mod_mult_left_eq)
  have "?a mod p \<noteq> 0" using root_power_nonzero [OF w p1, of "n - 1"] by simp
  then have y: "(?a * ?y) ^ j mod p = 1"
    using mod_power_cong [of "?a * ?y" p 1 j] gmp_invert.mpz_invert_prime [OF inv p, of ?a] p1 by simp
  have "?v * (\<Prod>k \<in> {..<n} - {j}. powers_of w n p ! j - powers_of w n p ! k) mod p = (?x * ?y ^ j) * (?a ^ j * ?P) mod p"
    by (rule mod_mult_cong [OF v prod])
  also have "\<dots> = (?P * ?x) * (?a * ?y) ^ j mod p" by (simp add: power_mult_distrib mult_ac)
  also have "\<dots> = 1 * 1 mod p" by (rule mod_mult_cong) (use x y p1 in auto)
  finally show ?thesis using p1 by simp
qed

text \<open>
  C0: For the powers of an element of order \<open>n\<close>, entry \<open>j\<close> of \<^verbatim>\<open>compute_set_v\<close> is the inverse modulo \<open>p\<close> of the product of the
  differences of point \<open>j\<close> with every other point: the weight of Lagrange interpolation.
\<close>

theorem set_v_lagrange:
  assumes "gmp_invert mpz_invert" and "prime_modulus p" and "root_order p w n" and "j < n"
  shows "compute_set_v_omega mpz_invert n (powers_of w n p) p ! j *
      (\<Prod>k \<in> {..<n} - {j}. powers_of w n p ! j - powers_of w n p ! k) mod p = 1"
  by (rule set_v_weight [OF assms])

lemma set_v_lagrange_witness:
  "compute_set_v_omega mod_inverse 4 (powers_of 4 4 17) 17 ! 2 *
      (\<Prod>k \<in> {..<4} - {2}. powers_of 4 4 17 ! 2 - powers_of 4 4 17 ! k) mod 17 = 1"
proof (rule set_v_lagrange [OF euclid.gmp_invert_axioms])
  show "prime_modulus 17" "root_order 17 4 4" by code_simp+
qed simp

end
