(* ===== verification/Zaatar.thy ===== *)
theory Zaatar
  imports Pcp_Nodes
begin

text \<open>
  The two sides of Zaatar (\<^verbatim>\<open>libv/zcomputation_v.cpp\<close>, \<^verbatim>\<open>libv/zcomputation_p.cpp\<close>) and what they inherit from
  \<^verbatim>\<open>libv/verifier.cpp\<close> and \<^verbatim>\<open>libv/prover.cpp\<close>: creation of the queries, their deduction by the prover from the disclosed
  seed, the answers, and the tests. A file of a query is an element of a list, in the order of the query numbers; a query
  whose file is not written is \<open>None\<close>. Arrays that are filled from the left in the order of the repetitions grow by appending.
\<close>

definition NUM_REPS_PCP :: nat where "NUM_REPS_PCP = 8"
definition NUM_REPS_LIN :: nat where "NUM_REPS_LIN = 20"
definition NUM_LIN_QUERIES :: nat where "NUM_LIN_QUERIES = 6"
definition NUM_DIV_QUERIES :: nat where "NUM_DIV_QUERIES = 4"
definition NUM_LIN_PCP_QUERIES :: nat where
  "NUM_LIN_PCP_QUERIES = NUM_REPS_LIN * NUM_LIN_QUERIES + NUM_DIV_QUERIES"

definition Q1 :: nat where "Q1 = 0"
definition Q2 :: nat where "Q2 = 1"
definition Q3 :: nat where "Q3 = 2"
definition Q4 :: nat where "Q4 = 3"
definition Q5 :: nat where "Q5 = 4"
definition Q6 :: nat where "Q6 = 5"
definition Q7 :: nat where "Q7 = NUM_LIN_QUERIES * NUM_REPS_LIN"
definition Q8 :: nat where "Q8 = NUM_LIN_QUERIES * NUM_REPS_LIN + 1"
definition Q9 :: nat where "Q9 = NUM_LIN_QUERIES * NUM_REPS_LIN + 2"
definition Q10 :: nat where "Q10 = NUM_LIN_QUERIES * NUM_REPS_LIN + 3"

text \<open>The quadratic program: sizes, sparse matrices, the prime, and the nodes with their weights.\<close>

record qap =
  chi :: nat
  n_prime :: nat
  size_input :: nat
  size_output :: nat
  poly_A :: "poly_compressed list"
  poly_B :: "poly_compressed list"
  poly_C :: "poly_compressed list"
  qprime :: int
  powers_of_omega :: mpz_vec
  set_v :: mpz_vec

definition size_f1_vec :: "qap \<Rightarrow> nat" where "size_f1_vec q = n_prime q"
definition size_f2_vec :: "qap \<Rightarrow> nat" where "size_f2_vec q = chi q + 1"
definition num_vars :: "qap \<Rightarrow> nat" where "num_vars q = n_prime q + size_input q + size_output q"

section \<open>The queries of the verifier\<close>

record zverifier =
  zv_f1_q4 :: mpz_vec
  zv_f2_q4 :: mpz_vec
  zv_con1 :: mpz_vec
  zv_con2 :: mpz_vec
  zv_coins :: mpz_vec
  zv_filled :: int
  zv_d_star :: mpz_vec
  zv_A_io :: mpz_vec
  zv_B_io :: mpz_vec
  zv_C_io :: mpz_vec
  zv_rng :: rng

definition z_lin_queries :: "nat \<Rightarrow> nat \<Rightarrow> nat \<Rightarrow> zverifier \<Rightarrow> zverifier" where
  "z_lin_queries n1 n2 i s =
    (let (f1_q1, f1_q2, cc, g) = create_lin_test_queries n1 (Some (zv_con1 s, zv_coins s)) (zv_filled s) (zv_rng s);
         (con1, coins) = the cc;
         filled = zv_filled s + 3;
         (f2_q1, f2_q2, cc, g) = create_lin_test_queries n2 (Some (zv_con2 s, coins)) filled g;
         (con2, coins) = the cc;
         filled = filled + 3
     in s\<lparr>zv_con1 := con1, zv_con2 := con2, zv_coins := coins, zv_filled := filled, zv_rng := g,
          zv_f1_q4 := (if i = 0 then f1_q1 else zv_f1_q4 s), zv_f2_q4 := (if i = 0 then f2_q1 else zv_f2_q4 s)\<rparr>)"

definition io_part :: "qap \<Rightarrow> mpz_vec \<Rightarrow> mpz_vec" where
  "io_part q ev = ev ! 0 # map (\<lambda>i. ev ! (1 + n_prime q + i)) [0..<size_input q + size_output q]"

definition z_div_queries :: "(int \<Rightarrow> int \<Rightarrow> int) \<Rightarrow> qap \<Rightarrow> zverifier \<Rightarrow> zverifier option" where
  "z_div_queries mpz_invert q s =
    map_option (\<lambda>(dq, cc, g).
       let (con1, con2, coins) = the cc; pt = dq_point dq
       in s\<lparr>zv_con1 := con1, zv_con2 := con2, zv_coins := coins, zv_filled := zv_filled s + 4, zv_rng := g,
            zv_d_star := zv_d_star s @ [ep_d_star pt],
            zv_A_io := zv_A_io s @ io_part q (ep_A pt), zv_B_io := zv_B_io s @ io_part q (ep_B pt),
            zv_C_io := zv_C_io s @ io_part q (ep_C pt)\<rparr>)
      (create_div_corr_test_queries mpz_invert (powers_of_omega q) (size_f1_vec q) (size_f2_vec q)
         (Some (zv_con1 s, zv_con2 s, zv_coins s)) (zv_filled s) (zv_filled s + 3) (zv_f1_q4 s) (zv_f2_q4 s)
         (set_v q) (poly_A q) (poly_B q) (poly_C q)
         (replicate (num_vars q + 1) 0) (replicate (num_vars q + 1) 0) (replicate (num_vars q + 1) 0) (qprime q) (zv_rng s))"

definition z_create_plain_queries :: "(int \<Rightarrow> int \<Rightarrow> int) \<Rightarrow> qap \<Rightarrow> zverifier \<Rightarrow> zverifier option" where
  "z_create_plain_queries mpz_invert q s =
    fold (\<lambda>rho s. Option.bind s (\<lambda>s.
            z_div_queries mpz_invert q (fold (z_lin_queries (size_f1_vec q) (size_f2_vec q)) [0..<NUM_REPS_LIN] s)))
      [0..<NUM_REPS_PCP] (Some (s\<lparr>zv_filled := - 1\<rparr>))"

section \<open>The queries of the prover\<close>

record zqueries =
  zq_f1_q4 :: mpz_vec
  zq_f2_q4 :: mpz_vec
  zq_files :: "mpz_vec option list"
  zq_rng :: rng

definition z_deduce_lin :: "nat \<Rightarrow> nat \<Rightarrow> nat \<Rightarrow> zqueries \<Rightarrow> zqueries" where
  "z_deduce_lin n1 n2 i s =
    (let (f1_q1, f1_q2, _, g) = create_lin_test_queries n1 None 0 (zq_rng s);
         (f2_q1, f2_q2, _, g) = create_lin_test_queries n2 None 0 g
     in s\<lparr>zq_files := zq_files s @ [Some f1_q1, Some f1_q2, None, Some f2_q1, Some f2_q2, None], zq_rng := g,
          zq_f1_q4 := (if i = 0 then f1_q1 else zq_f1_q4 s), zq_f2_q4 := (if i = 0 then f2_q1 else zq_f2_q4 s)\<rparr>)"

definition z_deduce_div :: "(int \<Rightarrow> int \<Rightarrow> int) \<Rightarrow> qap \<Rightarrow> zqueries \<Rightarrow> zqueries option" where
  "z_deduce_div mpz_invert q s =
    map_option (\<lambda>(dq, _, g). s\<lparr>zq_files := zq_files s @ [Some (dq_f1_q1 dq), Some (dq_f1_q2 dq), Some (dq_f1_q3 dq), Some (dq_f2_q1 dq)],
                               zq_rng := g\<rparr>)
      (create_div_corr_test_queries mpz_invert (powers_of_omega q) (size_f1_vec q) (size_f2_vec q)
         None 0 0 (zq_f1_q4 s) (zq_f2_q4 s) (set_v q) (poly_A q) (poly_B q) (poly_C q)
         (replicate (num_vars q + 1) 0) (replicate (num_vars q + 1) 0) (replicate (num_vars q + 1) 0) (qprime q) (zq_rng s))"

text \<open>The files of all repetitions, one after the other.\<close>

definition z_deduce_queries :: "(int \<Rightarrow> int \<Rightarrow> int) \<Rightarrow> qap \<Rightarrow> zqueries \<Rightarrow> zqueries option" where
  "z_deduce_queries mpz_invert q s =
    fold (\<lambda>rho s. Option.bind s (\<lambda>s.
            z_deduce_div mpz_invert q (fold (z_deduce_lin (size_f1_vec q) (size_f2_vec q)) [0..<NUM_REPS_LIN] s)))
      [0..<NUM_REPS_PCP] (Some s)"

section \<open>Answers\<close>

text \<open>
  The tables that \<^verbatim>\<open>find_cur_qlengths\<close> fills: for each query the proof vector that answers it (\<open>0\<close> and \<open>1\<close>), \<open>None\<close> for the
  null pointer that makes the prover add its two previous answers.
\<close>

definition z_lin_table :: "nat option list" where
  "z_lin_table = [Some 0, Some 0, None, Some 1, Some 1, None]"

definition z_qquery_F_ptrs :: "nat option list" where
  "z_qquery_F_ptrs = concat (replicate NUM_REPS_LIN z_lin_table) @ [Some 0, Some 0, Some 0, Some 1]"

text \<open>
  A repetition of \<^verbatim>\<open>prover_answer_queries\<close>: \<open>a1\<close> and \<open>a2\<close> are the last two answers, which are kept from one repetition and
  instance to the next. A missing file is \<open>None\<close>.
\<close>

record answering =
  an_answers :: mpz_vec
  an_a1 :: mpz
  an_a2 :: mpz

definition prover_answer_query ::
  "nat \<Rightarrow> nat list \<Rightarrow> mpz_vec list \<Rightarrow> nat option list \<Rightarrow> mpz_vec option list \<Rightarrow> nat \<Rightarrow> answering \<Rightarrow> answering option"
where
  "prover_answer_query nt ord Fs table files j s =
    map_option (\<lambda>answer. \<lparr>an_answers = an_answers s @ [answer], an_a1 = (if j = 0 then an_a1 s else an_a2 s), an_a2 = answer\<rparr>)
      (case table ! j of
         None \<Rightarrow> Some (an_a1 s + an_a2 s)
       | Some f \<Rightarrow> map_option (\<lambda>query. dot_product_par nt ord (length (Fs ! f)) query (Fs ! f)) (files ! j))"

definition prover_answer_rep ::
  "nat \<Rightarrow> nat list \<Rightarrow> mpz_vec list \<Rightarrow> nat option list \<Rightarrow> mpz_vec option list \<Rightarrow> answering \<Rightarrow> answering option"
where
  "prover_answer_rep nt ord Fs table files s =
    fold (\<lambda>j s. Option.bind s (prover_answer_query nt ord Fs table files j)) [0..<length table] (Some s)"

definition prover_answer_queries ::
  "nat \<Rightarrow> nat list \<Rightarrow> mpz_vec list \<Rightarrow> nat option list \<Rightarrow> nat \<Rightarrow> mpz_vec option list \<Rightarrow> mpz \<times> mpz \<Rightarrow> mpz_vec option" where
  "prover_answer_queries nt ord Fs table num_repetitions files a12 =
    map_option an_answers
      (fold (\<lambda>rho s. Option.bind s (prover_answer_rep nt ord Fs table (drop (rho * length table) files)))
        [0..<num_repetitions] (Some \<lparr>an_answers = [], an_a1 = fst a12, an_a2 = snd a12\<rparr>))"

definition prover_consistency_answer :: "nat \<Rightarrow> nat list \<Rightarrow> mpz_vec list \<Rightarrow> mpz_vec list \<Rightarrow> mpz" where
  "prover_consistency_answer nt ord Fs queries =
    fold (\<lambda>j con_answer. con_answer + dot_product_par nt ord (length (Fs ! j)) (queries ! j) (Fs ! j)) [0..<length Fs] 0"

section \<open>Tests\<close>

definition z_lin_tests :: "int \<Rightarrow> mpz_vec \<Rightarrow> nat \<Rightarrow> bool" where
  "z_lin_tests p f_answers rho_base =
    fold (\<lambda>i result. let base = rho_base + i * NUM_LIN_QUERIES in
            result \<and> lin_test (f_answers ! (base + Q1)) (f_answers ! (base + Q2)) (f_answers ! (base + Q3)) p
                   \<and> lin_test (f_answers ! (base + Q4)) (f_answers ! (base + Q5)) (f_answers ! (base + Q6)) p)
      [0..<NUM_REPS_LIN] True"

definition tau_value :: "qap \<Rightarrow> mpz_vec \<Rightarrow> nat \<Rightarrow> mpz_vec \<Rightarrow> int \<Rightarrow> int" where
  "tau_value q tau_io base io corrected =
    fold (\<lambda>i acc. acc + io ! i * tau_io ! (base + 1 + i)) [0..<size_input q + size_output q] (tau_io ! base) + corrected"

definition z_div_test :: "qap \<Rightarrow> zverifier \<Rightarrow> mpz_vec \<Rightarrow> nat \<Rightarrow> mpz_vec \<Rightarrow> nat \<Rightarrow> bool" where
  "z_div_test q s io rho f_answers rho_base =
    (let p = qprime q;
         lhs = (f_answers ! (rho_base + Q10) - f_answers ! (rho_base + Q4)) * zv_d_star s ! rho mod p;
         base = rho * (1 + size_input q + size_output q);
         A_tau = tau_value q (zv_A_io s) base io (f_answers ! (rho_base + Q7) - f_answers ! (rho_base + Q1));
         B_tau = tau_value q (zv_B_io s) base io (f_answers ! (rho_base + Q8) - f_answers ! (rho_base + Q1));
         C_tau = tau_value q (zv_C_io s) base io (f_answers ! (rho_base + Q9) - f_answers ! (rho_base + Q1))
     in lhs = (A_tau * B_tau + C_tau) mod p)"

definition run_interactive_tests :: "qap \<Rightarrow> zverifier \<Rightarrow> mpz_vec \<Rightarrow> mpz_vec \<Rightarrow> bool" where
  "run_interactive_tests q s io f_answers =
    fold (\<lambda>rho result. let rho_base = rho * NUM_LIN_PCP_QUERIES in
            result \<and> z_lin_tests (qprime q) f_answers rho_base \<and> z_div_test q s io rho f_answers rho_base)
      [0..<NUM_REPS_PCP] True"

definition z_run_tests ::
  "(int \<Rightarrow> int \<Rightarrow> int) \<Rightarrow> (int \<Rightarrow> int \<Rightarrow> int \<Rightarrow> int) \<Rightarrow> elgamal_key \<Rightarrow> qap \<Rightarrow> zverifier \<Rightarrow> mpz_vec \<Rightarrow> int \<times> int \<Rightarrow> int \<Rightarrow> mpz_vec \<Rightarrow> bool"
where
  "z_run_tests mpz_invert fpowm k q s io com_answer a f_answers =
    (let f_s = elgamal_dec mpz_invert k (fst com_answer) (snd com_answer)
     in consistency_test fpowm k (NUM_REPS_PCP * NUM_LIN_PCP_QUERIES) a f_s f_answers (zv_coins s) \<and>
        run_interactive_tests q s io f_answers)"

end
