(* ===== verification/Zaatar_Answers.thy ===== *)
theory Zaatar_Answers
  imports Zaatar
begin

text \<open>
  The exchange of queries and answers in Zaatar: the prover deduces the queries of the verifier, its answers are dot
  products with its proof vectors, and the consistency query is the combination of the queries with the coins.
\<close>

section \<open>Dot products\<close>

definition ip :: "mpz_vec \<Rightarrow> mpz_vec \<Rightarrow> int" where
  "ip q F = (\<Sum>i < length F. q ! i * F ! i)"

lemma dot_product_sum: "dot_product n q d = (\<Sum>i < n. d ! i * q ! i)"
  by (simp add: dot_product_def fold_add_sum atLeast0LessThan)

lemma sum_blocks:
  "(\<Sum>t < nt. \<Sum>i < sizes ! t. f (thread_base sizes t + i)) = (\<Sum>i < thread_base sizes nt. f i :: int)"
proof (induction nt)
  case (Suc nt)
  have "(\<Sum>i < a + b. f i) = (\<Sum>i < a. f i) + (\<Sum>i < b. f (a + i))" for a b :: nat
    using sum.atLeastLessThan_concat [of 0 a "a + b" f] sum.atLeastLessThan_shift_0 [of f a "a + b"]
    by (simp add: atLeast0LessThan add.commute comp_def)
  with Suc show ?case by simp
qed simp

lemma fold_add_sum_list: "fold (\<lambda>x acc. acc + f x) xs (c :: int) = c + sum_list (map f xs)"
  by (induction xs arbitrary: c) auto

lemma sum_list_mset_upt:
  assumes "mset xs = mset [0..<n]"
  shows "sum_list (map f xs) = (\<Sum>i < n. f i :: int)"
proof -
  have "sum_list (map f xs) = sum_mset (image_mset f (mset xs))" by (simp add: sum_mset_sum_list flip: mset_map)
  also have "\<dots> = sum_list (map f [0..<n])" unfolding assms by (simp only: mset_map [symmetric] sum_mset_sum_list)
  also have "\<dots> = (\<Sum>i < n. f i)" by (simp add: sum_list_distinct_conv_sum_set atLeast0LessThan)
  finally show ?thesis .
qed

lemma dot_product_par_ip:
  assumes nt: "0 < nt" and ord: "mset ord = mset [0..<nt]" and q: "length F \<le> length q"
  shows "dot_product_par nt ord (length F) q F = ip q F"
proof -
  let ?s = "thread_sizes nt (length F)" and ?b = "thread_base (thread_sizes nt (length F))"
  have set: "set ord = {..<nt}" using arg_cong [OF ord, of set_mset] by (simp only: set_mset_mset) auto
  have bound: "?b t + ?s ! t \<le> length F" if "t < nt" for t
    using thread_base_mono [of "Suc t" nt ?s] that thread_base_end [OF nt, of "length F"] by simp
  have block: "dot_product (?s ! t) (drop (?b t) q) (drop (?b t) F) = (\<Sum>i < ?s ! t. q ! (?b t + i) * F ! (?b t + i))"
    if "t < nt" for t
    unfolding dot_product_sum using bound [OF that] q by (intro sum.cong) (auto simp: mult.commute)
  have "dot_product_par nt ord (length F) q F = (\<Sum>t\<leftarrow>ord. dot_product (?s ! t) (drop (?b t) q) (drop (?b t) F))"
    by (simp add: dot_product_par_def Let_def fold_add_sum_list)
  also have "\<dots> = (\<Sum>t < nt. dot_product (?s ! t) (drop (?b t) q) (drop (?b t) F))" by (rule sum_list_mset_upt [OF ord])
  also have "\<dots> = (\<Sum>t < nt. \<Sum>i < ?s ! t. q ! (?b t + i) * F ! (?b t + i))" by (rule sum.cong) (simp_all add: block)
  also have "\<dots> = ip q F"
    using sum_blocks [of "\<lambda>i. q ! i * F ! i" ?s nt] thread_base_end [OF nt, of "length F"] by (simp add: ip_def)
  finally show ?thesis .
qed

lemma ip_map_linear:
  assumes "n = length F" and "\<And>i. i < n \<Longrightarrow> f i = a ! i + b * q ! i"
  shows "ip (map f [0..<n]) F = ip a F + b * ip q F"
  using assms by (simp add: ip_def sum.distrib sum_distrib_left algebra_simps)

lemma ip_map_linear2:
  assumes "n = length F" and "\<And>i. i < n \<Longrightarrow> f i = a ! i + b * q ! i + c * r ! i"
  shows "ip (map f [0..<n]) F = ip a F + b * ip q F + c * ip r F"
  using assms by (simp add: ip_def sum.distrib sum_distrib_left algebra_simps)

lemma ip_map_linear3:
  assumes "n = length F" and "\<And>i. i < n \<Longrightarrow> f i = a ! i + b * q ! i + c * r ! i + d * s ! i"
  shows "ip (map f [0..<n]) F = ip a F + b * ip q F + c * ip r F + d * ip s F"
  using assms by (simp add: ip_def sum.distrib sum_distrib_left algebra_simps)

section \<open>The queries of a repetition\<close>

text \<open>The four vectors drawn for one round of linearity tests, from position \<open>k\<close> of the tape.\<close>

definition lin_draws :: "(nat \<Rightarrow> mpz) \<Rightarrow> nat \<Rightarrow> nat \<Rightarrow> nat \<Rightarrow> mpz_vec \<times> mpz_vec \<times> mpz_vec \<times> mpz_vec" where
  "lin_draws f n1 n2 k =
    (map (\<lambda>i. f (k + 2 * i)) [0..<n1], map (\<lambda>i. f (k + 2 * i + 1)) [0..<n1],
     map (\<lambda>i. f (k + 2 * n1 + 2 * i)) [0..<n2], map (\<lambda>i. f (k + 2 * n1 + 2 * i + 1)) [0..<n2])"

definition lin_files :: "mpz_vec \<times> mpz_vec \<times> mpz_vec \<times> mpz_vec \<Rightarrow> mpz_vec option list" where
  "lin_files b = (case b of (l1, l2, m1, m2) \<Rightarrow> [Some l1, Some l2, None, Some m1, Some m2, None])"

definition lin_answers :: "mpz_vec \<Rightarrow> mpz_vec \<Rightarrow> mpz_vec \<times> mpz_vec \<times> mpz_vec \<times> mpz_vec \<Rightarrow> mpz_vec" where
  "lin_answers F1 F2 b = (case b of (l1, l2, m1, m2) \<Rightarrow>
     [ip l1 F1, ip l2 F1, ip l1 F1 + ip l2 F1, ip m1 F2, ip m2 F2, ip m1 F2 + ip m2 F2])"

lemma length_lin_files [simp]: "length (lin_files b) = 6"
  by (simp add: lin_files_def split: prod.split)

lemma length_lin_answers [simp]: "length (lin_answers F1 F2 b) = 6"
  by (simp add: lin_answers_def split: prod.split)

lemma z_deduce_lin_step:
  assumes "b = lin_draws (pub (zq_rng s)) n1 n2 (pub_at (zq_rng s))"
  shows "z_deduce_lin n1 n2 i s =
    s\<lparr>zq_files := zq_files s @ lin_files b, zq_rng := (zq_rng s)\<lparr>pub_at := pub_at (zq_rng s) + 2 * (n1 + n2)\<rparr>,
      zq_f1_q4 := (if i = 0 then fst b else zq_f1_q4 s), zq_f2_q4 := (if i = 0 then fst (snd (snd b)) else zq_f2_q4 s)\<rparr>"
  unfolding assms z_deduce_lin_def create_lin_test_queries_def lin_draws_def lin_files_def Let_def
  by (simp add: add.assoc)

text \<open>
  What the consistency query of the verifier keeps: with the answers given so far, the dot products of the two
  consistency queries with the proof vectors are those of the commitment plus the answers weighted with the coins.
\<close>

definition con_inv :: "mpz_vec \<Rightarrow> mpz_vec \<Rightarrow> int \<Rightarrow> nat \<Rightarrow> zverifier \<Rightarrow> mpz_vec \<Rightarrow> bool" where
  "con_inv F1 F2 K N s ans \<longleftrightarrow>
    ip (zv_con1 s) F1 + ip (zv_con2 s) F2 = K + (\<Sum>j < length ans. zv_coins s ! j * ans ! j) \<and>
    zv_filled s = int (length ans) - 1 \<and> length (zv_coins s) = N \<and>
    length (zv_con1 s) = length F1 \<and> length (zv_con2 s) = length F2"

lemma sum_append_coins:
  assumes "length coins = length coins'" and "length ans + length new \<le> length coins"
    and "\<And>j. j < length ans \<Longrightarrow> coins' ! j = coins ! j"
  shows "(\<Sum>j < length (ans @ new). coins' ! j * (ans @ new) ! j) =
    (\<Sum>j < length ans. coins ! j * ans ! j) + (\<Sum>j < length new. coins' ! (length ans + j) * new ! j :: int)"
proof -
  have "(\<Sum>j < a + b. f j) = (\<Sum>j < a. f j) + (\<Sum>j < b. f (a + j))" for f :: "nat \<Rightarrow> int" and a b :: nat
    using sum.atLeastLessThan_concat [of 0 a "a + b" f] sum.atLeastLessThan_shift_0 [of f a "a + b"]
    by (simp add: atLeast0LessThan add.commute comp_def)
  then show ?thesis using assms(3) by (simp add: nth_append)
qed

lemma z_lin_queries_step:
  assumes "b = lin_draws (pub (zv_rng s)) n1 n2 (pub_at (zv_rng s))" and "b = (l1, l2, m1, m2)"
    and "c = (\<lambda>j. priv (zv_rng s) (priv_at (zv_rng s) + j))" and "zv_filled s = int k - 1"
  shows "z_lin_queries n1 n2 i s =
    s\<lparr>zv_con1 := map (\<lambda>i. zv_con1 s ! i + (c 0 + c 2) * l1 ! i + (c 1 + c 2) * l2 ! i) [0..<n1],
      zv_con2 := map (\<lambda>i. zv_con2 s ! i + (c 3 + c 5) * m1 ! i + (c 4 + c 5) * m2 ! i) [0..<n2],
      zv_coins := (zv_coins s)[k := c 0, k + 1 := c 1, k + 2 := c 2, k + 3 := c 3, k + 4 := c 4, k + 5 := c 5],
      zv_filled := int (k + 6) - 1,
      zv_rng := (zv_rng s)\<lparr>pub_at := pub_at (zv_rng s) + 2 * (n1 + n2), priv_at := priv_at (zv_rng s) + 6\<rparr>,
      zv_f1_q4 := (if i = 0 then l1 else zv_f1_q4 s), zv_f2_q4 := (if i = 0 then m1 else zv_f2_q4 s)\<rparr>"
proof -
  have b: "l1 = map (\<lambda>i. pub (zv_rng s) (pub_at (zv_rng s) + 2 * i)) [0..<n1]"
    "l2 = map (\<lambda>i. pub (zv_rng s) (pub_at (zv_rng s) + 2 * i + 1)) [0..<n1]"
    "m1 = map (\<lambda>i. pub (zv_rng s) (pub_at (zv_rng s) + 2 * n1 + 2 * i)) [0..<n2]"
    "m2 = map (\<lambda>i. pub (zv_rng s) (pub_at (zv_rng s) + 2 * n1 + 2 * i + 1)) [0..<n2]"
    using assms(1,2) by (simp_all add: lin_draws_def)
  have k: "nat (int k - 1 + 1) = k" "nat (int k - 1 + 2) = k + 1" "nat (int k - 1 + 3) = k + 2"
    "nat (int k - 1 + 3 + 1) = k + 3" "nat (int k - 1 + 3 + 2) = k + 4" "nat (int k - 1 + 3 + 3) = k + 5"
    by (simp_all add: nat_eq_iff)
  show ?thesis
    unfolding z_lin_queries_def create_lin_test_queries_def get_random_priv_def set_coin_def update_con_query_def Let_def
      assms(3,4) prod.case option.case k option.sel
    by (simp add: b k numeral_eq_Suc)
qed

lemma con_inv_lin:
  assumes inv: "con_inv F1 F2 K N s ans" and N: "length ans + 6 \<le> N" and n: "n1 = length F1" "n2 = length F2"
    and b: "b = lin_draws (pub (zv_rng s)) n1 n2 (pub_at (zv_rng s))"
  shows "con_inv F1 F2 K N (z_lin_queries n1 n2 i s) (ans @ lin_answers F1 F2 b)"
proof -
  obtain l1 l2 m1 m2 where b': "b = (l1, l2, m1, m2)" by (cases b)
  define c where "c = (\<lambda>j. priv (zv_rng s) (priv_at (zv_rng s) + j))"
  let ?k = "length ans"
  let ?coins = "(zv_coins s)[?k := c 0, ?k + 1 := c 1, ?k + 2 := c 2, ?k + 3 := c 3, ?k + 4 := c 4, ?k + 5 := c 5]"
  have filled: "zv_filled s = int ?k - 1" using inv by (simp add: con_inv_def)
  have len: "length (zv_coins s) = N" using inv by (simp add: con_inv_def)
  have coins: "?coins ! (?k + 0) = c 0" "?coins ! (?k + 1) = c 1" "?coins ! (?k + 2) = c 2" "?coins ! (?k + 3) = c 3"
    "?coins ! (?k + 4) = c 4" "?coins ! (?k + 5) = c 5"
    using N by (simp_all add: len nth_list_update)
  have sum: "(\<Sum>j < length (ans @ lin_answers F1 F2 b). ?coins ! j * (ans @ lin_answers F1 F2 b) ! j) =
      (\<Sum>j < ?k. zv_coins s ! j * ans ! j) + (\<Sum>j < 6. ?coins ! (?k + j) * lin_answers F1 F2 b ! j)"
    by (subst sum_append_coins [of "zv_coins s"]) (use N in \<open>simp_all add: len\<close>)
  have six: "(\<Sum>j < 6. ?coins ! (?k + j) * lin_answers F1 F2 b ! j) =
      c 0 * ip l1 F1 + c 1 * ip l2 F1 + c 2 * (ip l1 F1 + ip l2 F1) +
      c 3 * ip m1 F2 + c 4 * ip m2 F2 + c 5 * (ip m1 F2 + ip m2 F2)"
  proof -
    have "(\<Sum>j < 6. f j) = f 0 + f 1 + f 2 + f 3 + f 4 + f 5" for f :: "nat \<Rightarrow> int"
      by (simp add: eval_nat_numeral)
    note expand = this
    have "lin_answers F1 F2 b ! 0 = ip l1 F1" "lin_answers F1 F2 b ! 1 = ip l2 F1" "lin_answers F1 F2 b ! 2 = ip l1 F1 + ip l2 F1"
      "lin_answers F1 F2 b ! 3 = ip m1 F2" "lin_answers F1 F2 b ! 4 = ip m2 F2" "lin_answers F1 F2 b ! 5 = ip m1 F2 + ip m2 F2"
      by (simp_all add: lin_answers_def b')
    then show ?thesis unfolding expand coins by simp
  qed
  have con1: "ip (map (\<lambda>i. zv_con1 s ! i + (c 0 + c 2) * l1 ! i + (c 1 + c 2) * l2 ! i) [0..<n1]) F1 =
      ip (zv_con1 s) F1 + (c 0 + c 2) * ip l1 F1 + (c 1 + c 2) * ip l2 F1"
    by (rule ip_map_linear2 [OF n(1)]) simp
  have con2: "ip (map (\<lambda>i. zv_con2 s ! i + (c 3 + c 5) * m1 ! i + (c 4 + c 5) * m2 ! i) [0..<n2]) F2 =
      ip (zv_con2 s) F2 + (c 3 + c 5) * ip m1 F2 + (c 4 + c 5) * ip m2 F2"
    by (rule ip_map_linear2 [OF n(2)]) simp
  have "ip (zv_con1 s) F1 + ip (zv_con2 s) F2 = K + (\<Sum>j < ?k. zv_coins s ! j * ans ! j)" using inv by (simp add: con_inv_def)
  then have "ip (map (\<lambda>i. zv_con1 s ! i + (c 0 + c 2) * l1 ! i + (c 1 + c 2) * l2 ! i) [0..<n1]) F1 +
      ip (map (\<lambda>i. zv_con2 s ! i + (c 3 + c 5) * m1 ! i + (c 4 + c 5) * m2 ! i) [0..<n2]) F2 =
      K + (\<Sum>j < length (ans @ lin_answers F1 F2 b). ?coins ! j * (ans @ lin_answers F1 F2 b) ! j)"
    unfolding con1 con2 sum six by (simp only: algebra_simps)
  then show ?thesis
    unfolding z_lin_queries_step [OF b b' c_def filled] con_inv_def using len n by simp
qed

section \<open>The divisibility queries\<close>

definition point_at :: "(int \<Rightarrow> int \<Rightarrow> int) \<Rightarrow> qap \<Rightarrow> int \<Rightarrow> eval_point option" where
  "point_at mpz_invert q tau =
    map_option (\<lambda>l_tau. let ev = (\<lambda>poly. eval_poly_at mpz_invert (powers_of_omega q) (set_v q) (qprime q) tau l_tau poly
                                      (replicate (num_vars q + 1) 0))
       in \<lparr>ep_tau = tau, ep_d_star = mpz_invert (tau - 1) (qprime q) * l_tau mod qprime q,
           ep_A = ev (poly_A q), ep_B = ev (poly_B q), ep_C = ev (poly_C q)\<rparr>)
      (node_product (powers_of_omega q) (qprime q) (size_f2_vec q) tau)"

definition corrected :: "qap \<Rightarrow> mpz_vec \<Rightarrow> mpz_vec \<Rightarrow> mpz_vec" where
  "corrected q corr_q ev = map (\<lambda>i. (ev ! (i + 1) + corr_q ! i) mod qprime q) [0..<size_f1_vec q]"

definition corrected_powers :: "qap \<Rightarrow> mpz_vec \<Rightarrow> int \<Rightarrow> mpz_vec" where
  "corrected_powers q corr_q2 tau =
    map (\<lambda>i. (tau_powers (size_f2_vec q) tau (qprime q) ! i + corr_q2 ! i) mod qprime q) [0..<size_f2_vec q]"

definition div_files :: "qap \<Rightarrow> mpz_vec \<Rightarrow> mpz_vec \<Rightarrow> eval_point \<Rightarrow> mpz_vec option list" where
  "div_files q q4 r4 pt =
    [Some (corrected q q4 (ep_A pt)), Some (corrected q q4 (ep_B pt)), Some (corrected q q4 (ep_C pt)),
     Some (corrected_powers q r4 (ep_tau pt))]"

definition div_answers :: "mpz_vec \<Rightarrow> mpz_vec \<Rightarrow> qap \<Rightarrow> mpz_vec \<Rightarrow> mpz_vec \<Rightarrow> eval_point \<Rightarrow> mpz_vec" where
  "div_answers F1 F2 q q4 r4 pt =
    [ip (corrected q q4 (ep_A pt)) F1, ip (corrected q q4 (ep_B pt)) F1, ip (corrected q q4 (ep_C pt)) F1,
     ip (corrected_powers q r4 (ep_tau pt)) F2]"

lemma length_div [simp]: "length (div_files q q4 r4 pt) = 4" "length (div_answers F1 F2 q q4 r4 pt) = 4"
  by (simp_all add: div_files_def div_answers_def)

lemma evaluate_point_at:
  "evaluate_polynomial_at_random_point mpz_invert (powers_of_omega q) (size_f2_vec q) (set_v q) (poly_A q) (poly_B q) (poly_C q)
     (replicate (num_vars q + 1) 0) (replicate (num_vars q + 1) 0) (replicate (num_vars q + 1) 0) (qprime q) g =
   map_option (\<lambda>pt. (pt, g\<lparr>pub_at := Suc (pub_at g)\<rparr>)) (point_at mpz_invert q (pub g (pub_at g)))"
  by (simp add: evaluate_polynomial_at_random_point_def point_at_def get_random_pub_def Let_def map_option_case
      split: option.split)

lemma point_at_tau: "point_at mpz_invert q tau = Some pt \<Longrightarrow> ep_tau pt = tau"
  by (auto simp: point_at_def Let_def)

lemma z_deduce_div_step:
  "z_deduce_div mpz_invert q s =
    map_option (\<lambda>pt. s\<lparr>zq_files := zq_files s @ div_files q (zq_f1_q4 s) (zq_f2_q4 s) pt,
                       zq_rng := (zq_rng s)\<lparr>pub_at := Suc (pub_at (zq_rng s))\<rparr>\<rparr>)
      (point_at mpz_invert q (pub (zq_rng s) (pub_at (zq_rng s))))"
  unfolding z_deduce_div_def create_div_corr_test_queries_def evaluate_point_at Let_def get_random_priv_def
  by (cases "point_at mpz_invert q (pub (zq_rng s) (pub_at (zq_rng s)))")
    (simp_all add: div_files_def corrected_def corrected_powers_def)

definition z_div_update :: "qap \<Rightarrow> zverifier \<Rightarrow> (nat \<Rightarrow> int) \<Rightarrow> nat \<Rightarrow> eval_point \<Rightarrow> zverifier" where
  "z_div_update q s c k pt = s\<lparr>
     zv_con1 := map (\<lambda>i. zv_con1 s ! i + c 0 * corrected q (zv_f1_q4 s) (ep_A pt) ! i +
         c 1 * corrected q (zv_f1_q4 s) (ep_B pt) ! i + c 2 * corrected q (zv_f1_q4 s) (ep_C pt) ! i) [0..<size_f1_vec q],
     zv_con2 := map (\<lambda>i. zv_con2 s ! i + c 3 * corrected_powers q (zv_f2_q4 s) (ep_tau pt) ! i) [0..<size_f2_vec q],
     zv_coins := (zv_coins s)[k := c 0, k + 1 := c 1, k + 2 := c 2, k + 3 := c 3],
     zv_filled := int (k + 4) - 1,
     zv_rng := (zv_rng s)\<lparr>pub_at := Suc (pub_at (zv_rng s)), priv_at := priv_at (zv_rng s) + 4\<rparr>,
     zv_d_star := zv_d_star s @ [ep_d_star pt],
     zv_A_io := zv_A_io s @ io_part q (ep_A pt), zv_B_io := zv_B_io s @ io_part q (ep_B pt),
     zv_C_io := zv_C_io s @ io_part q (ep_C pt)\<rparr>"

lemma z_div_queries_step:
  assumes "c = (\<lambda>j. priv (zv_rng s) (priv_at (zv_rng s) + j))" and "zv_filled s = int k - 1"
  shows "z_div_queries mpz_invert q s =
    map_option (z_div_update q s c k) (point_at mpz_invert q (pub (zv_rng s) (pub_at (zv_rng s))))"
proof -
  have k: "nat (int k - 1 + 1) = k" "nat (int k - 1 + 2) = k + 1" "nat (int k - 1 + 3) = k + 2"
    "nat (int k - 1 + 3 + 1) = k + 3"
    by (simp_all add: nat_eq_iff)
  show ?thesis
    unfolding z_div_queries_def create_div_corr_test_queries_def evaluate_point_at Let_def get_random_priv_def
      set_coin_def update_con_query_vec_def update_con_query_def assms k
    by (cases "point_at mpz_invert q (pub (zv_rng s) (pub_at (zv_rng s)))")
      (simp_all add: z_div_update_def corrected_def corrected_powers_def k numeral_eq_Suc)
qed

lemma con_inv_div:
  assumes inv: "con_inv F1 F2 K N s ans" and N: "length ans + 4 \<le> N"
    and n: "size_f1_vec q = length F1" "size_f2_vec q = length F2" and step: "z_div_queries mpz_invert q s = Some s'"
  obtains pt where "point_at mpz_invert q (pub (zv_rng s) (pub_at (zv_rng s))) = Some pt"
    and "con_inv F1 F2 K N s' (ans @ div_answers F1 F2 q (zv_f1_q4 s) (zv_f2_q4 s) pt)"
    and "zv_d_star s' = zv_d_star s @ [ep_d_star pt]" and "zv_A_io s' = zv_A_io s @ io_part q (ep_A pt)"
    and "zv_B_io s' = zv_B_io s @ io_part q (ep_B pt)" and "zv_C_io s' = zv_C_io s @ io_part q (ep_C pt)"
    and "pub (zv_rng s') = pub (zv_rng s)" and "pub_at (zv_rng s') = Suc (pub_at (zv_rng s))"
proof -
  define c where "c = (\<lambda>j. priv (zv_rng s) (priv_at (zv_rng s) + j))"
  let ?k = "length ans"
  have filled: "zv_filled s = int ?k - 1" and len: "length (zv_coins s) = N" using inv by (simp_all add: con_inv_def)
  from step [unfolded z_div_queries_step [OF c_def filled]] obtain pt where
    pt: "point_at mpz_invert q (pub (zv_rng s) (pub_at (zv_rng s))) = Some pt" and s': "s' = z_div_update q s c ?k pt" by auto
  let ?new = "div_answers F1 F2 q (zv_f1_q4 s) (zv_f2_q4 s) pt"
  let ?d1 = "corrected q (zv_f1_q4 s) (ep_A pt)" and ?d2 = "corrected q (zv_f1_q4 s) (ep_B pt)"
    and ?d3 = "corrected q (zv_f1_q4 s) (ep_C pt)" and ?e = "corrected_powers q (zv_f2_q4 s) (ep_tau pt)"
  let ?coins = "(zv_coins s)[?k := c 0, ?k + 1 := c 1, ?k + 2 := c 2, ?k + 3 := c 3]"
  have coins: "?coins ! (?k + 0) = c 0" "?coins ! (?k + 1) = c 1" "?coins ! (?k + 2) = c 2" "?coins ! (?k + 3) = c 3"
    using N by (simp_all add: len nth_list_update)
  have sum: "(\<Sum>j < length (ans @ ?new). ?coins ! j * (ans @ ?new) ! j) =
      (\<Sum>j < ?k. zv_coins s ! j * ans ! j) + (\<Sum>j < 4. ?coins ! (?k + j) * ?new ! j)"
    by (subst sum_append_coins [of "zv_coins s"]) (use N in \<open>simp_all add: len\<close>)
  have four: "(\<Sum>j < 4. ?coins ! (?k + j) * ?new ! j) = c 0 * ip ?d1 F1 + c 1 * ip ?d2 F1 + c 2 * ip ?d3 F1 + c 3 * ip ?e F2"
  proof -
    have expand: "(\<Sum>j < 4. f j) = f 0 + f 1 + f 2 + f 3" for f :: "nat \<Rightarrow> int"
      by (simp add: eval_nat_numeral)
    have "?new ! 0 = ip ?d1 F1" "?new ! 1 = ip ?d2 F1" "?new ! 2 = ip ?d3 F1" "?new ! 3 = ip ?e F2"
      by (simp_all add: div_answers_def)
    then show ?thesis unfolding expand coins by simp
  qed
  have con1: "ip (map (\<lambda>i. zv_con1 s ! i + c 0 * ?d1 ! i + c 1 * ?d2 ! i + c 2 * ?d3 ! i) [0..<size_f1_vec q]) F1 =
      ip (zv_con1 s) F1 + c 0 * ip ?d1 F1 + c 1 * ip ?d2 F1 + c 2 * ip ?d3 F1"
    by (rule ip_map_linear3 [OF n(1)]) simp
  have con2: "ip (map (\<lambda>i. zv_con2 s ! i + c 3 * ?e ! i) [0..<size_f2_vec q]) F2 = ip (zv_con2 s) F2 + c 3 * ip ?e F2"
    by (rule ip_map_linear [OF n(2)]) simp
  have "ip (zv_con1 s) F1 + ip (zv_con2 s) F2 = K + (\<Sum>j < ?k. zv_coins s ! j * ans ! j)" using inv by (simp add: con_inv_def)
  then have "ip (map (\<lambda>i. zv_con1 s ! i + c 0 * ?d1 ! i + c 1 * ?d2 ! i + c 2 * ?d3 ! i) [0..<size_f1_vec q]) F1 +
      ip (map (\<lambda>i. zv_con2 s ! i + c 3 * ?e ! i) [0..<size_f2_vec q]) F2 =
      K + (\<Sum>j < length (ans @ ?new). ?coins ! j * (ans @ ?new) ! j)"
    unfolding con1 con2 sum four by (simp only: algebra_simps)
  then have "con_inv F1 F2 K N s' (ans @ ?new)"
    unfolding s' z_div_update_def con_inv_def using len n by simp
  then show ?thesis using that [OF pt] by (simp add: s' z_div_update_def)
qed

section \<open>A repetition\<close>

definition lin_width :: "nat \<Rightarrow> nat \<Rightarrow> nat" where "lin_width n1 n2 = 2 * (n1 + n2)"

definition lin_blocks :: "(nat \<Rightarrow> mpz) \<Rightarrow> nat \<Rightarrow> nat \<Rightarrow> nat \<Rightarrow> nat \<Rightarrow> (mpz_vec \<times> mpz_vec \<times> mpz_vec \<times> mpz_vec) list" where
  "lin_blocks f n1 n2 k m = map (\<lambda>j. lin_draws f n1 n2 (k + j * lin_width n1 n2)) [0..<m]"

lemma lin_blocks_simps [simp]:
  "length (lin_blocks f n1 n2 k m) = m" "lin_blocks f n1 n2 k 0 = []"
  "lin_blocks f n1 n2 k (Suc m) = lin_blocks f n1 n2 k m @ [lin_draws f n1 n2 (k + m * lin_width n1 n2)]"
  by (simp_all add: lin_blocks_def)

lemma prover_lin_rounds:
  assumes "g = zq_rng s"
  shows "fold (z_deduce_lin n1 n2) [0..<m] s =
    s\<lparr>zq_files := zq_files s @ concat (map lin_files (lin_blocks (pub g) n1 n2 (pub_at g) m)),
      zq_rng := g\<lparr>pub_at := pub_at g + m * lin_width n1 n2\<rparr>,
      zq_f1_q4 := (if m = 0 then zq_f1_q4 s else fst (lin_draws (pub g) n1 n2 (pub_at g))),
      zq_f2_q4 := (if m = 0 then zq_f2_q4 s else fst (snd (snd (lin_draws (pub g) n1 n2 (pub_at g)))))\<rparr>"
proof (induction m)
  case 0
  then show ?case using assms by simp
next
  case (Suc m)
  then show ?case using assms by (auto simp: z_deduce_lin_step [OF refl] lin_width_def)
qed

lemma verifier_lin_rounds:
  assumes g: "g = zv_rng s" and inv: "con_inv F1 F2 K N s ans" and n: "n1 = length F1" "n2 = length F2"
    and N: "length ans + 6 * m \<le> N"
  defines "t \<equiv> fold (z_lin_queries n1 n2) [0..<m] s"
  shows "con_inv F1 F2 K N t (ans @ concat (map (lin_answers F1 F2) (lin_blocks (pub g) n1 n2 (pub_at g) m)))"
    and "pub (zv_rng t) = pub g" and "pub_at (zv_rng t) = pub_at g + m * lin_width n1 n2"
    and "0 < m \<Longrightarrow> zv_f1_q4 t = fst (lin_draws (pub g) n1 n2 (pub_at g))"
    and "0 < m \<Longrightarrow> zv_f2_q4 t = fst (snd (snd (lin_draws (pub g) n1 n2 (pub_at g))))"
    and "zv_d_star t = zv_d_star s" and "zv_A_io t = zv_A_io s" and "zv_B_io t = zv_B_io s" and "zv_C_io t = zv_C_io s"
proof -
  have len: "length (concat (map (lin_answers F1 F2) bs)) = 6 * length bs" for bs by (induction bs) auto
  have "con_inv F1 F2 K N t (ans @ concat (map (lin_answers F1 F2) (lin_blocks (pub g) n1 n2 (pub_at g) m))) \<and>
    pub (zv_rng t) = pub g \<and> pub_at (zv_rng t) = pub_at g + m * lin_width n1 n2 \<and>
    (0 < m \<longrightarrow> zv_f1_q4 t = fst (lin_draws (pub g) n1 n2 (pub_at g)) \<and>
      zv_f2_q4 t = fst (snd (snd (lin_draws (pub g) n1 n2 (pub_at g))))) \<and>
    zv_d_star t = zv_d_star s \<and> zv_A_io t = zv_A_io s \<and> zv_B_io t = zv_B_io s \<and> zv_C_io t = zv_C_io s"
    unfolding t_def using N
  proof (induction m)
    case 0
    then show ?case using inv g by simp
  next
    case (Suc m)
    let ?t = "fold (z_lin_queries n1 n2) [0..<m] s"
    let ?ans = "ans @ concat (map (lin_answers F1 F2) (lin_blocks (pub g) n1 n2 (pub_at g) m))"
    from Suc have IH: "con_inv F1 F2 K N ?t ?ans" "pub (zv_rng ?t) = pub g"
      "pub_at (zv_rng ?t) = pub_at g + m * lin_width n1 n2"
      "0 < m \<longrightarrow> zv_f1_q4 ?t = fst (lin_draws (pub g) n1 n2 (pub_at g)) \<and>
        zv_f2_q4 ?t = fst (snd (snd (lin_draws (pub g) n1 n2 (pub_at g))))"
      "zv_d_star ?t = zv_d_star s \<and> zv_A_io ?t = zv_A_io s \<and> zv_B_io ?t = zv_B_io s \<and> zv_C_io ?t = zv_C_io s"
      by auto
    let ?b = "lin_draws (pub g) n1 n2 (pub_at g + m * lin_width n1 n2)"
    have b: "?b = lin_draws (pub (zv_rng ?t)) n1 n2 (pub_at (zv_rng ?t))" by (simp add: IH)
    obtain l1 l2 m1 m2 where b': "?b = (l1, l2, m1, m2)" by (cases ?b)
    have filled: "zv_filled ?t = int (length ?ans) - 1" using IH(1) by (simp add: con_inv_def)
    have "con_inv F1 F2 K N (z_lin_queries n1 n2 m ?t) (?ans @ lin_answers F1 F2 ?b)"
      by (rule con_inv_lin [OF IH(1) _ n b]) (use Suc.prems in \<open>simp add: len\<close>)
    moreover note step = z_lin_queries_step [OF b b' refl filled, of m]
    ultimately show ?case using IH b' by (simp add: step) (auto simp: lin_width_def)
  qed
  then show "con_inv F1 F2 K N t (ans @ concat (map (lin_answers F1 F2) (lin_blocks (pub g) n1 n2 (pub_at g) m)))"
    "pub (zv_rng t) = pub g" "pub_at (zv_rng t) = pub_at g + m * lin_width n1 n2"
    "0 < m \<Longrightarrow> zv_f1_q4 t = fst (lin_draws (pub g) n1 n2 (pub_at g))"
    "0 < m \<Longrightarrow> zv_f2_q4 t = fst (snd (snd (lin_draws (pub g) n1 n2 (pub_at g))))"
    "zv_d_star t = zv_d_star s" "zv_A_io t = zv_A_io s" "zv_B_io t = zv_B_io s" "zv_C_io t = zv_C_io s"
    by auto
qed

text \<open>Position \<open>k\<close> of the tape is where the repetition starts; its point is drawn after the linearity queries.\<close>

definition tau_at :: "qap \<Rightarrow> nat" where
  "tau_at q = NUM_REPS_LIN * lin_width (size_f1_vec q) (size_f2_vec q)"

definition rep_at :: "qap \<Rightarrow> nat \<Rightarrow> nat" where "rep_at q r = r * Suc (tau_at q)"

definition rep_block :: "qap \<Rightarrow> (nat \<Rightarrow> mpz) \<Rightarrow> nat \<Rightarrow> mpz_vec \<times> mpz_vec \<times> mpz_vec \<times> mpz_vec" where
  "rep_block q f k = lin_draws f (size_f1_vec q) (size_f2_vec q) k"

definition rep_files :: "qap \<Rightarrow> (nat \<Rightarrow> mpz) \<Rightarrow> nat \<Rightarrow> eval_point \<Rightarrow> mpz_vec option list" where
  "rep_files q f k pt = concat (map lin_files (lin_blocks f (size_f1_vec q) (size_f2_vec q) k NUM_REPS_LIN)) @
     div_files q (fst (rep_block q f k)) (fst (snd (snd (rep_block q f k)))) pt"

definition rep_answers :: "mpz_vec \<Rightarrow> mpz_vec \<Rightarrow> qap \<Rightarrow> (nat \<Rightarrow> mpz) \<Rightarrow> nat \<Rightarrow> eval_point \<Rightarrow> mpz_vec" where
  "rep_answers F1 F2 q f k pt =
     concat (map (lin_answers F1 F2) (lin_blocks f (size_f1_vec q) (size_f2_vec q) k NUM_REPS_LIN)) @
     div_answers F1 F2 q (fst (rep_block q f k)) (fst (snd (snd (rep_block q f k)))) pt"

lemma length_concat_map_const: "(\<And>x. x \<in> set xs \<Longrightarrow> length (f x) = n) \<Longrightarrow> length (concat (map f xs)) = length xs * n"
  by (induction xs) auto

lemma length_rep [simp]:
  "length (rep_files q f k pt) = NUM_LIN_PCP_QUERIES" "length (rep_answers F1 F2 q f k pt) = NUM_LIN_PCP_QUERIES"
  by (simp_all add: rep_files_def rep_answers_def length_concat_map_const [where n = 6] NUM_LIN_PCP_QUERIES_def
      NUM_LIN_QUERIES_def NUM_DIV_QUERIES_def)

lemma NUM_REPS_LIN_pos [simp]: "0 < NUM_REPS_LIN" "NUM_REPS_LIN \<noteq> 0"
  by (simp_all add: NUM_REPS_LIN_def)

definition z_rep_v :: "(int \<Rightarrow> int \<Rightarrow> int) \<Rightarrow> qap \<Rightarrow> zverifier \<Rightarrow> zverifier option" where
  "z_rep_v mpz_invert q s =
    z_div_queries mpz_invert q (fold (z_lin_queries (size_f1_vec q) (size_f2_vec q)) [0..<NUM_REPS_LIN] s)"

definition z_rep_p :: "(int \<Rightarrow> int \<Rightarrow> int) \<Rightarrow> qap \<Rightarrow> zqueries \<Rightarrow> zqueries option" where
  "z_rep_p mpz_invert q s =
    z_deduce_div mpz_invert q (fold (z_deduce_lin (size_f1_vec q) (size_f2_vec q)) [0..<NUM_REPS_LIN] s)"

lemma z_rep_p_step:
  assumes "point_at mpz_invert q (pub (zq_rng s) (pub_at (zq_rng s) + tau_at q)) = Some pt"
  obtains t where "z_rep_p mpz_invert q s = Some t" and "zq_files t = zq_files s @ rep_files q (pub (zq_rng s)) (pub_at (zq_rng s)) pt"
    and "pub (zq_rng t) = pub (zq_rng s)" and "pub_at (zq_rng t) = pub_at (zq_rng s) + Suc (tau_at q)"
  using assms that
  unfolding z_rep_p_def z_deduce_div_step prover_lin_rounds [OF refl]
  by (auto simp: tau_at_def rep_files_def rep_block_def)

lemma z_rep_v_step:
  assumes inv: "con_inv F1 F2 K N s ans" and N: "length ans + NUM_LIN_PCP_QUERIES \<le> N"
    and n: "size_f1_vec q = length F1" "size_f2_vec q = length F2"
    and pt: "point_at mpz_invert q (pub (zv_rng s) (pub_at (zv_rng s) + tau_at q)) = Some pt"
  obtains t where "z_rep_v mpz_invert q s = Some t"
    and "con_inv F1 F2 K N t (ans @ rep_answers F1 F2 q (pub (zv_rng s)) (pub_at (zv_rng s)) pt)"
    and "zv_d_star t = zv_d_star s @ [ep_d_star pt]" and "zv_A_io t = zv_A_io s @ io_part q (ep_A pt)"
    and "zv_B_io t = zv_B_io s @ io_part q (ep_B pt)" and "zv_C_io t = zv_C_io s @ io_part q (ep_C pt)"
    and "pub (zv_rng t) = pub (zv_rng s)" and "pub_at (zv_rng t) = pub_at (zv_rng s) + Suc (tau_at q)"
proof -
  have N': "length ans + 6 * NUM_REPS_LIN + 4 \<le> N"
    using N by (simp add: NUM_LIN_PCP_QUERIES_def NUM_LIN_QUERIES_def NUM_DIV_QUERIES_def)
  let ?t = "fold (z_lin_queries (size_f1_vec q) (size_f2_vec q)) [0..<NUM_REPS_LIN] s"
  let ?bs = "lin_blocks (pub (zv_rng s)) (size_f1_vec q) (size_f2_vec q) (pub_at (zv_rng s)) NUM_REPS_LIN"
  let ?ans = "ans @ concat (map (lin_answers F1 F2) ?bs)"
  have lin: "con_inv F1 F2 K N ?t ?ans" "pub (zv_rng ?t) = pub (zv_rng s)" "pub_at (zv_rng ?t) = pub_at (zv_rng s) + tau_at q"
    "zv_f1_q4 ?t = fst (rep_block q (pub (zv_rng s)) (pub_at (zv_rng s)))"
    "zv_f2_q4 ?t = fst (snd (snd (rep_block q (pub (zv_rng s)) (pub_at (zv_rng s)))))"
    "zv_d_star ?t = zv_d_star s" "zv_A_io ?t = zv_A_io s" "zv_B_io ?t = zv_B_io s" "zv_C_io ?t = zv_C_io s"
    using verifier_lin_rounds [OF refl inv n, of NUM_REPS_LIN] N' by (simp_all add: tau_at_def rep_block_def)
  have filled: "zv_filled ?t = int (length ?ans) - 1" using lin(1) by (simp add: con_inv_def)
  have pt': "point_at mpz_invert q (pub (zv_rng ?t) (pub_at (zv_rng ?t))) = Some pt" using pt lin(2,3) by simp
  obtain t where t: "z_div_queries mpz_invert q ?t = Some t"
    using z_div_queries_step [OF refl filled, of mpz_invert q] pt' by auto
  have len: "length ?ans + 4 \<le> N" using N' by (simp add: length_concat_map_const [where n = 6] mult.commute)
  obtain pt2 where pt2: "point_at mpz_invert q (pub (zv_rng ?t) (pub_at (zv_rng ?t))) = Some pt2"
    and res: "con_inv F1 F2 K N t (?ans @ div_answers F1 F2 q (zv_f1_q4 ?t) (zv_f2_q4 ?t) pt2)"
      "zv_d_star t = zv_d_star ?t @ [ep_d_star pt2]" "zv_A_io t = zv_A_io ?t @ io_part q (ep_A pt2)"
      "zv_B_io t = zv_B_io ?t @ io_part q (ep_B pt2)" "zv_C_io t = zv_C_io ?t @ io_part q (ep_C pt2)"
      "pub (zv_rng t) = pub (zv_rng ?t)" "pub_at (zv_rng t) = Suc (pub_at (zv_rng ?t))"
    by (rule con_inv_div [OF lin(1) len n t])
  have "pt2 = pt" using pt2 pt' by simp
  note res = res [unfolded this lin]
  show ?thesis
  proof (rule that [of t])
    show "z_rep_v mpz_invert q s = Some t" unfolding z_rep_v_def by (rule t)
    show "con_inv F1 F2 K N t (ans @ rep_answers F1 F2 q (pub (zv_rng s)) (pub_at (zv_rng s)) pt)"
      unfolding rep_answers_def append_assoc [symmetric] by (rule res)
  qed (simp_all add: res)
qed

section \<open>All repetitions\<close>

lemma prover_reps:
  assumes pts: "\<And>r. r < m \<Longrightarrow> point_at mpz_invert q (f (k + rep_at q r + tau_at q)) = Some (pts r)"
    and f: "pub (zq_rng s) = f" "pub_at (zq_rng s) = k"
  shows "\<exists>t. fold (\<lambda>r s. Option.bind s (z_rep_p mpz_invert q)) [0..<m] (Some s) = Some t \<and>
    zq_files t = zq_files s @ concat (map (\<lambda>r. rep_files q f (k + rep_at q r) (pts r)) [0..<m]) \<and>
    pub (zq_rng t) = f \<and> pub_at (zq_rng t) = k + rep_at q m"
  using pts
proof (induction m)
  case 0
  then show ?case using f by (simp add: rep_at_def)
next
  case (Suc m)
  then obtain t where t: "fold (\<lambda>r s. Option.bind s (z_rep_p mpz_invert q)) [0..<m] (Some s) = Some t"
    "zq_files t = zq_files s @ concat (map (\<lambda>r. rep_files q f (k + rep_at q r) (pts r)) [0..<m])"
    "pub (zq_rng t) = f" "pub_at (zq_rng t) = k + rep_at q m" by auto
  have "point_at mpz_invert q (pub (zq_rng t) (pub_at (zq_rng t) + tau_at q)) = Some (pts m)" using t Suc.prems by simp
  then obtain t' where "z_rep_p mpz_invert q t = Some t'" "zq_files t' = zq_files t @ rep_files q (pub (zq_rng t)) (pub_at (zq_rng t)) (pts m)"
    "pub (zq_rng t') = pub (zq_rng t)" "pub_at (zq_rng t') = pub_at (zq_rng t) + Suc (tau_at q)"
    by (rule z_rep_p_step)
  then show ?case using t by (simp add: rep_at_def)
qed

lemma verifier_reps:
  assumes pts: "\<And>r. r < m \<Longrightarrow> point_at mpz_invert q (f (k + rep_at q r + tau_at q)) = Some (pts r)"
    and f: "pub (zv_rng s) = f" "pub_at (zv_rng s) = k" and inv: "con_inv F1 F2 K N s []"
    and N: "m * NUM_LIN_PCP_QUERIES \<le> N" and n: "size_f1_vec q = length F1" "size_f2_vec q = length F2"
  shows "\<exists>t. fold (\<lambda>r s. Option.bind s (z_rep_v mpz_invert q)) [0..<m] (Some s) = Some t \<and>
    con_inv F1 F2 K N t (concat (map (\<lambda>r. rep_answers F1 F2 q f (k + rep_at q r) (pts r)) [0..<m])) \<and>
    zv_d_star t = zv_d_star s @ map (\<lambda>r. ep_d_star (pts r)) [0..<m] \<and>
    zv_A_io t = zv_A_io s @ concat (map (\<lambda>r. io_part q (ep_A (pts r))) [0..<m]) \<and>
    zv_B_io t = zv_B_io s @ concat (map (\<lambda>r. io_part q (ep_B (pts r))) [0..<m]) \<and>
    zv_C_io t = zv_C_io s @ concat (map (\<lambda>r. io_part q (ep_C (pts r))) [0..<m]) \<and>
    pub (zv_rng t) = f \<and> pub_at (zv_rng t) = k + rep_at q m"
  using pts N
proof (induction m)
  case 0
  then show ?case using f inv by (simp add: rep_at_def)
next
  case (Suc m)
  let ?ans = "concat (map (\<lambda>r. rep_answers F1 F2 q f (k + rep_at q r) (pts r)) [0..<m])"
  from Suc obtain t where t: "fold (\<lambda>r s. Option.bind s (z_rep_v mpz_invert q)) [0..<m] (Some s) = Some t"
    "con_inv F1 F2 K N t ?ans" "zv_d_star t = zv_d_star s @ map (\<lambda>r. ep_d_star (pts r)) [0..<m]"
    "zv_A_io t = zv_A_io s @ concat (map (\<lambda>r. io_part q (ep_A (pts r))) [0..<m])"
    "zv_B_io t = zv_B_io s @ concat (map (\<lambda>r. io_part q (ep_B (pts r))) [0..<m])"
    "zv_C_io t = zv_C_io s @ concat (map (\<lambda>r. io_part q (ep_C (pts r))) [0..<m])"
    "pub (zv_rng t) = f" "pub_at (zv_rng t) = k + rep_at q m" by auto
  have len: "length ?ans + NUM_LIN_PCP_QUERIES \<le> N"
    using Suc.prems(2) by (simp add: length_concat_map_const [where n = NUM_LIN_PCP_QUERIES])
  have pt: "point_at mpz_invert q (pub (zv_rng t) (pub_at (zv_rng t) + tau_at q)) = Some (pts m)" using t Suc.prems by simp
  obtain t' where t': "z_rep_v mpz_invert q t = Some t'"
    "con_inv F1 F2 K N t' (?ans @ rep_answers F1 F2 q (pub (zv_rng t)) (pub_at (zv_rng t)) (pts m))"
    "zv_d_star t' = zv_d_star t @ [ep_d_star (pts m)]" "zv_A_io t' = zv_A_io t @ io_part q (ep_A (pts m))"
    "zv_B_io t' = zv_B_io t @ io_part q (ep_B (pts m))" "zv_C_io t' = zv_C_io t @ io_part q (ep_C (pts m))"
    "pub (zv_rng t') = pub (zv_rng t)" "pub_at (zv_rng t') = pub_at (zv_rng t) + Suc (tau_at q)"
    by (rule z_rep_v_step [OF t(2) len n pt])
  then show ?case using t by (simp add: rep_at_def)
qed

section \<open>The answers of the prover\<close>

lemma concat_uniform_nth:
  assumes "\<And>x. x \<in> set xss \<Longrightarrow> length x = n" and "m < length xss" and "r < n"
  shows "concat xss ! (m * n + r) = xss ! m ! r"
  using assms
proof (induction xss arbitrary: m)
  case (Cons x xss)
  then show ?case by (cases m) (auto simp: nth_append algebra_simps)
qed simp

lemma length_F_ptrs [simp]: "length z_qquery_F_ptrs = NUM_LIN_PCP_QUERIES" "length z_lin_table = 6"
proof -
  show "length z_lin_table = 6" by (simp add: z_lin_table_def)
  have "length (concat (replicate n z_lin_table)) = n * 6" for n by (induction n) (auto simp: z_lin_table_def)
  then show "length z_qquery_F_ptrs = NUM_LIN_PCP_QUERIES"
    by (simp add: z_qquery_F_ptrs_def NUM_LIN_PCP_QUERIES_def NUM_LIN_QUERIES_def NUM_DIV_QUERIES_def)
qed

lemma F_ptrs_nth:
  "m < NUM_REPS_LIN \<Longrightarrow> r < 6 \<Longrightarrow> z_qquery_F_ptrs ! (m * 6 + r) = z_lin_table ! r"
  "r < 4 \<Longrightarrow> z_qquery_F_ptrs ! (NUM_REPS_LIN * 6 + r) = [Some 0, Some 0, Some 0, Some 1] ! r"
proof -
  have len: "length (concat (replicate NUM_REPS_LIN z_lin_table)) = NUM_REPS_LIN * 6"
    using length_concat_map_const [of "replicate NUM_REPS_LIN z_lin_table" "\<lambda>x. x" 6] by simp
  show "z_qquery_F_ptrs ! (m * 6 + r) = z_lin_table ! r" if "m < NUM_REPS_LIN" "r < 6"
  proof -
    have "m * 6 + r < NUM_REPS_LIN * 6" using that by linarith
    then have "z_qquery_F_ptrs ! (m * 6 + r) = concat (replicate NUM_REPS_LIN z_lin_table) ! (m * 6 + r)"
      by (simp add: z_qquery_F_ptrs_def nth_append len)
    also have "\<dots> = z_lin_table ! r" using that by (subst concat_uniform_nth) auto
    finally show ?thesis .
  qed
  show "z_qquery_F_ptrs ! (NUM_REPS_LIN * 6 + r) = [Some 0, Some 0, Some 0, Some 1] ! r" if "r < 4"
    using that by (simp add: z_qquery_F_ptrs_def nth_append len)
qed

lemma rep_files_nth:
  "m < NUM_REPS_LIN \<Longrightarrow> r < 6 \<Longrightarrow> rep_files q f k pt ! (m * 6 + r) =
     lin_files (lin_draws f (size_f1_vec q) (size_f2_vec q) (k + m * lin_width (size_f1_vec q) (size_f2_vec q))) ! r"
  "r < 4 \<Longrightarrow> rep_files q f k pt ! (NUM_REPS_LIN * 6 + r) =
     div_files q (fst (rep_block q f k)) (fst (snd (snd (rep_block q f k)))) pt ! r"
proof -
  let ?bs = "lin_blocks f (size_f1_vec q) (size_f2_vec q) k NUM_REPS_LIN"
  have len: "length (concat (map lin_files ?bs)) = NUM_REPS_LIN * 6" by (simp add: length_concat_map_const [where n = 6])
  show "rep_files q f k pt ! (m * 6 + r) =
     lin_files (lin_draws f (size_f1_vec q) (size_f2_vec q) (k + m * lin_width (size_f1_vec q) (size_f2_vec q))) ! r"
    if "m < NUM_REPS_LIN" "r < 6"
  proof -
    have "m * 6 + r < NUM_REPS_LIN * 6" using that by linarith
    then have "rep_files q f k pt ! (m * 6 + r) = concat (map lin_files ?bs) ! (m * 6 + r)"
      by (simp add: rep_files_def nth_append len)
    also have "\<dots> = map lin_files ?bs ! m ! r" using that by (subst concat_uniform_nth [where n = 6]) auto
    finally show ?thesis using that by (simp add: lin_blocks_def)
  qed
  show "rep_files q f k pt ! (NUM_REPS_LIN * 6 + r) =
     div_files q (fst (rep_block q f k)) (fst (snd (snd (rep_block q f k)))) pt ! r" if "r < 4"
    using that by (simp add: rep_files_def nth_append len)
qed

lemma prover_answer_given:
  assumes nt: "0 < nt" "mset ord = mset [0..<nt]" and "table ! j = Some f" and "files ! j = Some query"
    and "length (Fs ! f) \<le> length query"
  shows "prover_answer_query nt ord Fs table files j s =
    Some \<lparr>an_answers = an_answers s @ [ip query (Fs ! f)], an_a1 = (if j = 0 then an_a1 s else an_a2 s), an_a2 = ip query (Fs ! f)\<rparr>"
  using assms by (simp add: prover_answer_query_def dot_product_par_ip)

lemma prover_answer_sum:
  assumes "table ! j = None"
  shows "prover_answer_query nt ord Fs table files j s =
    Some \<lparr>an_answers = an_answers s @ [an_a1 s + an_a2 s], an_a1 = (if j = 0 then an_a1 s else an_a2 s), an_a2 = an_a1 s + an_a2 s\<rparr>"
  using assms by (simp add: prover_answer_query_def)

lemma upt_append: "[0..<k + n] = [0..<k] @ [k..<k + n]"
  by (rule upt_add_eq_append) simp

lemma prover_lin_block:
  assumes nt: "0 < nt" "mset ord = mset [0..<nt]"
    and table: "\<And>r. r < 6 \<Longrightarrow> table ! (k + r) = z_lin_table ! r" and files: "\<And>r. r < 6 \<Longrightarrow> files ! (k + r) = lin_files b ! r"
    and b: "b = (l1, l2, m1, m2)" and len: "length F1 \<le> length l1" "length F1 \<le> length l2" "length F2 \<le> length m1" "length F2 \<le> length m2"
  shows "\<exists>a1 a2. fold (\<lambda>j s. Option.bind s (prover_answer_query nt ord [F1, F2] table files j)) [k..<k + 6] (Some s) =
    Some \<lparr>an_answers = an_answers s @ lin_answers F1 F2 b, an_a1 = a1, an_a2 = a2\<rparr>"
proof -
  let ?k1 = "Suc k" and ?k2 = "Suc (Suc k)" and ?k3 = "Suc (Suc (Suc k))" and ?k4 = "Suc (Suc (Suc (Suc k)))"
    and ?k5 = "Suc (Suc (Suc (Suc (Suc k))))"
  have t: "table ! k = Some 0" "table ! ?k1 = Some 0" "table ! ?k2 = None" "table ! ?k3 = Some 1"
    "table ! ?k4 = Some 1" "table ! ?k5 = None"
    using table [of 0] table [of 1] table [of 2] table [of 3] table [of 4] table [of 5]
    by (simp_all add: z_lin_table_def eval_nat_numeral)
  have f: "files ! k = Some l1" "files ! ?k1 = Some l2" "files ! ?k3 = Some m1" "files ! ?k4 = Some m2"
    using files [of 0] files [of 1] files [of 3] files [of 4] by (simp_all add: lin_files_def b eval_nat_numeral)
  have upt: "[k..<k + 6] = [k, ?k1, ?k2, ?k3, ?k4, ?k5]" by (simp add: upt_rec eval_nat_numeral)
  note steps = prover_answer_given [OF nt t(1) f(1)] prover_answer_given [OF nt t(2) f(2)] prover_answer_sum [OF t(3)]
    prover_answer_given [OF nt t(4) f(3)] prover_answer_given [OF nt t(5) f(4)] prover_answer_sum [OF t(6)]
  show ?thesis unfolding upt by (simp add: steps len lin_answers_def b)
qed

lemma prover_div_block:
  assumes nt: "0 < nt" "mset ord = mset [0..<nt]"
    and table: "\<And>r. r < 4 \<Longrightarrow> table ! (k + r) = [Some 0, Some 0, Some 0, Some 1] ! r"
    and files: "\<And>r. r < 4 \<Longrightarrow> files ! (k + r) = div_files q q4 r4 pt ! r"
    and len: "length F1 = size_f1_vec q" "length F2 = size_f2_vec q"
  shows "\<exists>a1 a2. fold (\<lambda>j s. Option.bind s (prover_answer_query nt ord [F1, F2] table files j)) [k..<k + 4] (Some s) =
    Some \<lparr>an_answers = an_answers s @ div_answers F1 F2 q q4 r4 pt, an_a1 = a1, an_a2 = a2\<rparr>"
proof -
  let ?k1 = "Suc k" and ?k2 = "Suc (Suc k)" and ?k3 = "Suc (Suc (Suc k))"
  have t: "table ! k = Some 0" "table ! ?k1 = Some 0" "table ! ?k2 = Some 0" "table ! ?k3 = Some 1"
    using table [of 0] table [of 1] table [of 2] table [of 3] by (simp_all add: eval_nat_numeral)
  have f: "files ! k = Some (corrected q q4 (ep_A pt))" "files ! ?k1 = Some (corrected q q4 (ep_B pt))"
    "files ! ?k2 = Some (corrected q q4 (ep_C pt))" "files ! ?k3 = Some (corrected_powers q r4 (ep_tau pt))"
    using files [of 0] files [of 1] files [of 2] files [of 3] by (simp_all add: div_files_def eval_nat_numeral)
  have upt: "[k..<k + 4] = [k, ?k1, ?k2, ?k3]" by (simp add: upt_rec eval_nat_numeral)
  have l: "length (corrected q c v) = length F1" "length (corrected_powers q c x) = length F2" for c v x
    by (simp_all add: corrected_def corrected_powers_def len)
  note steps = prover_answer_given [OF nt t(1) f(1)] prover_answer_given [OF nt t(2) f(2)]
    prover_answer_given [OF nt t(3) f(3)] prover_answer_given [OF nt t(4) f(4)]
  show ?thesis unfolding upt by (simp add: steps l div_answers_def)
qed

lemma prover_rep_answers:
  assumes nt: "0 < nt" "mset ord = mset [0..<nt]"
    and len: "length F1 = size_f1_vec q" "length F2 = size_f2_vec q"
    and files: "\<And>j. j < NUM_LIN_PCP_QUERIES \<Longrightarrow> files ! j = rep_files q f k pt ! j"
  shows "\<exists>a1 a2. prover_answer_rep nt ord [F1, F2] z_qquery_F_ptrs files s =
    Some \<lparr>an_answers = an_answers s @ rep_answers F1 F2 q f k pt, an_a1 = a1, an_a2 = a2\<rparr>"
proof -
  let ?step = "\<lambda>j s. Option.bind s (prover_answer_query nt ord [F1, F2] z_qquery_F_ptrs files j)"
  let ?bs = "\<lambda>m. lin_blocks f (size_f1_vec q) (size_f2_vec q) k m"
  have total: "NUM_LIN_PCP_QUERIES = NUM_REPS_LIN * 6 + 4"
    by (simp add: NUM_LIN_PCP_QUERIES_def NUM_LIN_QUERIES_def NUM_DIV_QUERIES_def)
  have lin: "\<exists>a1 a2. fold ?step [0..<m * 6] (Some s) =
    Some \<lparr>an_answers = an_answers s @ concat (map (lin_answers F1 F2) (?bs m)), an_a1 = a1, an_a2 = a2\<rparr>"
    if "m \<le> NUM_REPS_LIN" for m
    using that
  proof (induction m)
    case 0
    then show ?case by (cases s) simp
  next
    case (Suc m)
    then obtain a1 a2 where IH: "fold ?step [0..<m * 6] (Some s) =
      Some \<lparr>an_answers = an_answers s @ concat (map (lin_answers F1 F2) (?bs m)), an_a1 = a1, an_a2 = a2\<rparr>" by auto
    let ?b = "lin_draws f (size_f1_vec q) (size_f2_vec q) (k + m * lin_width (size_f1_vec q) (size_f2_vec q))"
    obtain l1 l2 m1 m2 where b: "?b = (l1, l2, m1, m2)" by (cases ?b)
    then have l: "length F1 \<le> length l1" "length F1 \<le> length l2" "length F2 \<le> length m1" "length F2 \<le> length m2"
      by (auto simp: lin_draws_def len)
    have m: "m < NUM_REPS_LIN" using Suc.prems by simp
    have fl: "files ! (m * 6 + r) = lin_files ?b ! r" if "r < 6" for r
    proof -
      have "m * 6 + r < NUM_LIN_PCP_QUERIES" using m that by (simp add: total)
      then show ?thesis using files rep_files_nth(1) [OF m that] by simp
    qed
    have upt: "[0..<Suc m * 6] = [0..<m * 6] @ [m * 6..<m * 6 + 6]"
      using upt_append [of "m * 6" 6] upt_add_eq_append [of 0 "m * 6" 6] by (simp add: add.commute)
    show ?case
      using prover_lin_block [OF nt F_ptrs_nth(1) [OF m] fl b l, of "\<lparr>an_answers = an_answers s @ concat (map (lin_answers F1 F2) (?bs m)), an_a1 = a1, an_a2 = a2\<rparr>"]
      unfolding upt fold_append comp_def IH by simp
  qed
  from lin [of NUM_REPS_LIN] obtain a1 a2 where l: "fold ?step [0..<NUM_REPS_LIN * 6] (Some s) =
    Some \<lparr>an_answers = an_answers s @ concat (map (lin_answers F1 F2) (?bs NUM_REPS_LIN)), an_a1 = a1, an_a2 = a2\<rparr>" by auto
  have fl: "files ! (NUM_REPS_LIN * 6 + r) = div_files q (fst (rep_block q f k)) (fst (snd (snd (rep_block q f k)))) pt ! r"
    if "r < 4" for r
    using files [of "NUM_REPS_LIN * 6 + r"] rep_files_nth(2) [OF that] that by (simp add: total)
  have upt: "[0..<NUM_REPS_LIN * 6 + 4] = [0..<NUM_REPS_LIN * 6] @ [NUM_REPS_LIN * 6..<NUM_REPS_LIN * 6 + 4]"
    by (rule upt_add_eq_append) simp
  show ?thesis
    using prover_div_block [OF nt F_ptrs_nth(2) fl len,
        of "\<lparr>an_answers = an_answers s @ concat (map (lin_answers F1 F2) (?bs NUM_REPS_LIN)), an_a1 = a1, an_a2 = a2\<rparr>"]
    unfolding prover_answer_rep_def length_F_ptrs total upt fold_append comp_def l by (simp add: rep_answers_def)
qed

lemma prover_all_answers:
  assumes nt: "0 < nt" "mset ord = mset [0..<nt]"
    and len: "length F1 = size_f1_vec q" "length F2 = size_f2_vec q"
  shows "prover_answer_queries nt ord [F1, F2] z_qquery_F_ptrs m
      (concat (map (\<lambda>r. rep_files q f (k + rep_at q r) (pts r)) [0..<m])) a12 =
    Some (concat (map (\<lambda>r. rep_answers F1 F2 q f (k + rep_at q r) (pts r)) [0..<m]))"
proof -
  let ?files = "concat (map (\<lambda>r. rep_files q f (k + rep_at q r) (pts r)) [0..<m])"
  let ?step = "\<lambda>rho s. Option.bind s (prover_answer_rep nt ord [F1, F2] z_qquery_F_ptrs (drop (rho * length z_qquery_F_ptrs) ?files))"
  have "\<exists>a1 a2. fold ?step [0..<j] (Some \<lparr>an_answers = [], an_a1 = fst a12, an_a2 = snd a12\<rparr>) =
      Some \<lparr>an_answers = concat (map (\<lambda>r. rep_answers F1 F2 q f (k + rep_at q r) (pts r)) [0..<j]), an_a1 = a1, an_a2 = a2\<rparr>"
    if "j \<le> m" for j
    using that
  proof (induction j)
    case 0
    then show ?case by simp
  next
    case (Suc j)
    then obtain a1 a2 where IH: "fold ?step [0..<j] (Some \<lparr>an_answers = [], an_a1 = fst a12, an_a2 = snd a12\<rparr>) =
      Some \<lparr>an_answers = concat (map (\<lambda>r. rep_answers F1 F2 q f (k + rep_at q r) (pts r)) [0..<j]), an_a1 = a1, an_a2 = a2\<rparr>"
      by auto
    have total: "length ?files = m * NUM_LIN_PCP_QUERIES"
      by (simp add: length_concat_map_const [where n = NUM_LIN_PCP_QUERIES])
    have fl: "drop (j * length z_qquery_F_ptrs) ?files ! i = rep_files q f (k + rep_at q j) (pts j) ! i"
      if i: "i < NUM_LIN_PCP_QUERIES" for i
    proof -
      have "drop (j * length z_qquery_F_ptrs) ?files ! i = ?files ! (j * NUM_LIN_PCP_QUERIES + i)"
        using Suc.prems total by (subst nth_drop) auto
      also have "\<dots> = map (\<lambda>r. rep_files q f (k + rep_at q r) (pts r)) [0..<m] ! j ! i"
        using Suc.prems i by (subst concat_uniform_nth [where n = NUM_LIN_PCP_QUERIES]) auto
      finally show ?thesis using Suc.prems by simp
    qed
    show ?case
      using prover_rep_answers [OF nt len fl, of "\<lparr>an_answers = concat (map (\<lambda>r. rep_answers F1 F2 q f (k + rep_at q r) (pts r)) [0..<j]), an_a1 = a1, an_a2 = a2\<rparr>"] IH
      by simp
  qed
  from this [of m] show ?thesis by (auto simp: prover_answer_queries_def)
qed

end
