(* ===== verification/Zaatar_Tests.thy ===== *)
theory Zaatar_Tests
  imports Zaatar_Answers
begin

text \<open>
  What the tests of the verifier mean when the answers are dot products with two proof vectors: the linearity tests hold,
  and the divisibility test of a repetition is an equation at the point that was drawn.
\<close>

text \<open>The assignment to all variables: the constant, the proof vector, the inputs and the outputs.\<close>

definition assignment :: "mpz_vec \<Rightarrow> mpz_vec \<Rightarrow> mpz_vec" where
  "assignment F1 io = 1 # F1 @ io"

definition div_holds :: "int \<Rightarrow> eval_point \<Rightarrow> mpz_vec \<Rightarrow> mpz_vec \<Rightarrow> bool" where
  "div_holds p pt w F2 \<longleftrightarrow>
    poly_eval F2 (ep_tau pt) * ep_d_star pt mod p = (ip (ep_A pt) w * ip (ep_B pt) w + ip (ep_C pt) w) mod p"

lemma tau_powers_nth:
  assumes "i < n"
  shows "tau_powers n tau p ! i mod p = tau ^ i mod p" and "length (tau_powers n tau p) = n"
proof -
  define P where "P k q \<longleftrightarrow> length q = n \<and> (\<forall>i < k. q ! i mod p = tau ^ i mod p)" for k and q :: "int list"
  have "P n (tau_powers n tau p)"
    unfolding tau_powers_def
  proof (rule fold_range_inv)
    show "P 0 (replicate n 0)" by (simp add: P_def)
    show "P (Suc k) (q[k := (if 0 < k then q ! (k - 1) * tau mod p else 1)])" if k: "k < n" and q: "P k q" for k q
    proof (cases k)
      case 0
      then show ?thesis using k q by (auto simp: P_def)
    next
      case (Suc j)
      then have "q ! j * tau mod p = tau ^ k mod p"
        using q by (simp add: P_def mult.commute) (metis lessI mod_mult_right_eq)
      then show ?thesis using k q Suc by (auto simp: P_def less_Suc_eq)
    qed
  qed simp
  then show "tau_powers n tau p ! i mod p = tau ^ i mod p" "length (tau_powers n tau p) = n" using assms by (simp_all add: P_def)
qed

lemma poly_eval_sum: "poly_eval cs x = (\<Sum>i < length cs. cs ! i * x ^ i)"
proof (induction cs)
  case (Cons c cs)
  have "(\<Sum>i < length (c # cs). (c # cs) ! i * x ^ i) = c + (\<Sum>i < length cs. cs ! i * x ^ Suc i)"
    by (simp add: sum.lessThan_Suc_shift del: sum.lessThan_Suc)
  also have "\<dots> = c + x * (\<Sum>i < length cs. cs ! i * x ^ i)" by (simp add: sum_distrib_left mult_ac)
  finally show ?case using Cons by simp
qed simp

text \<open>Self-correction: the difference of a corrected answer and the answer to the correction query.\<close>

lemma ip_corrected:
  assumes "size_f1_vec q = length F1"
  shows "(ip (corrected q c ev) F1 - ip c F1) mod qprime q = (\<Sum>i < length F1. ev ! Suc i * F1 ! i) mod qprime q"
proof -
  have "ip (corrected q c ev) F1 mod qprime q = (\<Sum>i < length F1. (ev ! Suc i + c ! i) * F1 ! i) mod qprime q"
    unfolding ip_def by (rule sum_mod_cong) (simp add: corrected_def assms mod_mult_left_eq)
  also have "(\<Sum>i < length F1. (ev ! Suc i + c ! i) * F1 ! i) = (\<Sum>i < length F1. ev ! Suc i * F1 ! i) + ip c F1"
    by (simp add: ip_def sum.distrib algebra_simps)
  finally show ?thesis using mod_diff_cong [of "ip (corrected q c ev) F1" "qprime q" _ "ip c F1" "ip c F1"] by fastforce
qed

lemma ip_corrected_powers:
  assumes "size_f2_vec q = length F2"
  shows "(ip (corrected_powers q c tau) F2 - ip c F2) mod qprime q = poly_eval F2 tau mod qprime q"
proof -
  let ?p = "qprime q"
  have "ip (corrected_powers q c tau) F2 mod ?p = (\<Sum>i < length F2. (tau ^ i + c ! i) * F2 ! i) mod ?p"
    unfolding ip_def
  proof (rule sum_mod_cong)
    fix i assume i: "i \<in> {..<length F2}"
    have "(tau_powers (length F2) tau ?p ! i + c ! i) mod ?p = (tau ^ i + c ! i) mod ?p"
      using i by (intro mod_add_cong [OF tau_powers_nth(1) refl]) simp
    then show "corrected_powers q c tau ! i * F2 ! i mod ?p = (tau ^ i + c ! i) * F2 ! i mod ?p"
      using i by (simp add: corrected_powers_def assms) (metis mod_mult_left_eq)
  qed
  also have "(\<Sum>i < length F2. (tau ^ i + c ! i) * F2 ! i) = poly_eval F2 tau + ip c F2"
    by (simp add: ip_def poly_eval_sum sum.distrib algebra_simps)
  finally show ?thesis using mod_diff_cong [of "ip (corrected_powers q c tau) F2" "?p" _ "ip c F2" "ip c F2"] by fastforce
qed

lemma ip_assignment:
  assumes "length F1 = n_prime q" and "length io = size_input q + size_output q"
  shows "ip ev (assignment F1 io) = ev ! 0 + (\<Sum>i < length F1. ev ! Suc i * F1 ! i) +
    (\<Sum>i < size_input q + size_output q. io ! i * ev ! (1 + n_prime q + i))"
proof -
  have split: "(\<Sum>i < a + b. f i) = (\<Sum>i < a. f i) + (\<Sum>i < b. f (a + i))" for f :: "nat \<Rightarrow> int" and a b :: nat
    using sum.atLeastLessThan_concat [of 0 a "a + b" f] sum.atLeastLessThan_shift_0 [of f a "a + b"]
    by (simp add: atLeast0LessThan add.commute comp_def)
  have "ip ev (assignment F1 io) = ev ! 0 + (\<Sum>i < length F1 + length io. ev ! Suc i * (F1 @ io) ! i)"
    by (simp add: ip_def assignment_def sum.lessThan_Suc_shift del: sum.lessThan_Suc)
  also have "\<dots> = ev ! 0 + (\<Sum>i < length F1. ev ! Suc i * F1 ! i) + (\<Sum>i < length io. ev ! Suc (length F1 + i) * io ! i)"
    by (simp add: split nth_append)
  finally show ?thesis using assms by (simp add: mult.commute)
qed

lemma tau_value_ip:
  assumes len: "length F1 = n_prime q" "length io = size_input q + size_output q"
    and io: "\<And>i. i < 1 + size_input q + size_output q \<Longrightarrow> tau_io ! (base + i) = io_part q ev ! i"
    and corr: "corr mod p = (\<Sum>i < length F1. ev ! Suc i * F1 ! i) mod p"
  shows "tau_value q tau_io base io corr mod p = ip ev (assignment F1 io) mod p"
proof -
  have "tau_value q tau_io base io corr = tau_io ! base + (\<Sum>i < size_input q + size_output q. io ! i * tau_io ! (base + 1 + i)) + corr"
    by (simp add: tau_value_def fold_add_sum atLeast0LessThan)
  also have "(\<Sum>i < size_input q + size_output q. io ! i * tau_io ! (base + 1 + i)) =
      (\<Sum>i < size_input q + size_output q. io ! i * ev ! (1 + n_prime q + i))"
  proof (rule sum.cong)
    fix i assume "i \<in> {..<size_input q + size_output q}"
    then show "io ! i * tau_io ! (base + 1 + i) = io ! i * ev ! (1 + n_prime q + i)"
      using io [of "Suc i"] by (simp add: io_part_def)
  qed simp
  also have "tau_io ! base = ev ! 0" using io [of 0] by (simp add: io_part_def)
  finally have eq: "tau_value q tau_io base io corr =
      ev ! 0 + (\<Sum>i < size_input q + size_output q. io ! i * ev ! (1 + n_prime q + i)) + corr" .
  show ?thesis
    unfolding eq ip_assignment [OF len] mod_add_cong [OF refl corr, of "ev ! 0 + (\<Sum>i < size_input q + size_output q. io ! i * ev ! (1 + n_prime q + i))"]
    by (simp add: algebra_simps)
qed

section \<open>The tests of a repetition\<close>

lemma rep_answers_nth:
  "m < NUM_REPS_LIN \<Longrightarrow> r < 6 \<Longrightarrow> rep_answers F1 F2 q f k pt ! (m * 6 + r) =
     lin_answers F1 F2 (lin_draws f (size_f1_vec q) (size_f2_vec q) (k + m * lin_width (size_f1_vec q) (size_f2_vec q))) ! r"
  "r < 4 \<Longrightarrow> rep_answers F1 F2 q f k pt ! (NUM_REPS_LIN * 6 + r) =
     div_answers F1 F2 q (fst (rep_block q f k)) (fst (snd (snd (rep_block q f k)))) pt ! r"
proof -
  let ?bs = "lin_blocks f (size_f1_vec q) (size_f2_vec q) k NUM_REPS_LIN"
  have len: "length (concat (map (lin_answers F1 F2) ?bs)) = NUM_REPS_LIN * 6" by (simp add: length_concat_map_const [where n = 6])
  show "rep_answers F1 F2 q f k pt ! (m * 6 + r) =
     lin_answers F1 F2 (lin_draws f (size_f1_vec q) (size_f2_vec q) (k + m * lin_width (size_f1_vec q) (size_f2_vec q))) ! r"
    if "m < NUM_REPS_LIN" "r < 6"
  proof -
    have "m * 6 + r < NUM_REPS_LIN * 6" using that by linarith
    then have "rep_answers F1 F2 q f k pt ! (m * 6 + r) = concat (map (lin_answers F1 F2) ?bs) ! (m * 6 + r)"
      by (simp add: rep_answers_def nth_append len)
    also have "\<dots> = map (lin_answers F1 F2) ?bs ! m ! r" using that by (subst concat_uniform_nth [where n = 6]) auto
    finally show ?thesis using that by (simp add: lin_blocks_def)
  qed
  show "rep_answers F1 F2 q f k pt ! (NUM_REPS_LIN * 6 + r) =
     div_answers F1 F2 q (fst (rep_block q f k)) (fst (snd (snd (rep_block q f k)))) pt ! r" if "r < 4"
    using that by (simp add: rep_answers_def nth_append len)
qed

lemma fold_conj: "fold (\<lambda>i result. result \<and> P i) xs b \<longleftrightarrow> b \<and> (\<forall>i \<in> set xs. P i)"
  by (induction xs arbitrary: b) auto

lemma z_lin_tests_pass:
  assumes ans: "\<And>j. j < NUM_LIN_PCP_QUERIES \<Longrightarrow> answers ! (base + j) = rep_answers F1 F2 q f k pt ! j"
  shows "z_lin_tests p answers base"
proof -
  have total: "NUM_LIN_PCP_QUERIES = NUM_REPS_LIN * 6 + 4"
    by (simp add: NUM_LIN_PCP_QUERIES_def NUM_LIN_QUERIES_def NUM_DIV_QUERIES_def)
  have at: "answers ! (base + m * 6 + r) =
     lin_answers F1 F2 (lin_draws f (size_f1_vec q) (size_f2_vec q) (k + m * lin_width (size_f1_vec q) (size_f2_vec q))) ! r"
    if "m < NUM_REPS_LIN" "r < 6" for m r
    using ans [of "m * 6 + r"] rep_answers_nth(1) [OF that] that by (simp add: total add.assoc)
  have "lin_test (answers ! (base + m * 6 + 0)) (answers ! (base + m * 6 + 1)) (answers ! (base + m * 6 + 2)) p \<and>
      lin_test (answers ! (base + m * 6 + 3)) (answers ! (base + m * 6 + 4)) (answers ! (base + m * 6 + 5)) p"
    if m: "m < NUM_REPS_LIN" for m
    unfolding at [OF m, of 0, simplified] at [OF m, of 1, simplified] at [OF m, of 2, simplified] at [OF m, of 3, simplified]
      at [OF m, of 4, simplified] at [OF m, of 5, simplified]
    using at [OF m, of 0] at [OF m, of 1] at [OF m, of 2] at [OF m, of 3] at [OF m, of 4] at [OF m, of 5]
    by (cases "lin_draws f (size_f1_vec q) (size_f2_vec q) (k + m * lin_width (size_f1_vec q) (size_f2_vec q))")
      (simp add: lin_test_def lin_answers_def)
  then show ?thesis
    unfolding z_lin_tests_def Let_def fold_conj NUM_LIN_QUERIES_def Q1_def Q2_def Q3_def Q4_def Q5_def Q6_def by simp
qed

lemma z_div_test_iff:
  assumes n: "size_f1_vec q = length F1" "size_f2_vec q = length F2" and io_len: "length io = size_input q + size_output q"
    and ans: "\<And>j. j < NUM_LIN_PCP_QUERIES \<Longrightarrow> answers ! (base + j) = rep_answers F1 F2 q f k pt ! j"
    and d_star: "zv_d_star s ! rho = ep_d_star pt"
    and io: "\<And>i. i < 1 + size_input q + size_output q \<Longrightarrow>
        zv_A_io s ! (rho * (1 + size_input q + size_output q) + i) = io_part q (ep_A pt) ! i \<and>
        zv_B_io s ! (rho * (1 + size_input q + size_output q) + i) = io_part q (ep_B pt) ! i \<and>
        zv_C_io s ! (rho * (1 + size_input q + size_output q) + i) = io_part q (ep_C pt) ! i"
  shows "z_div_test q s io rho answers base \<longleftrightarrow> div_holds (qprime q) pt (assignment F1 io) F2"
proof -
  let ?p = "qprime q" and ?b = "rho * (1 + size_input q + size_output q)"
  let ?q4 = "fst (rep_block q f k)" and ?r4 = "fst (snd (snd (rep_block q f k)))"
  have total: "NUM_LIN_PCP_QUERIES = NUM_REPS_LIN * 6 + 4"
    by (simp add: NUM_LIN_PCP_QUERIES_def NUM_LIN_QUERIES_def NUM_DIV_QUERIES_def)
  have lin: "answers ! (base + Q1) = ip ?q4 F1" "answers ! (base + Q4) = ip ?r4 F2"
    using ans [of 0] ans [of 3] rep_answers_nth(1) [of 0 0] rep_answers_nth(1) [of 0 3]
    by (simp_all add: total Q1_def Q4_def lin_answers_def rep_block_def split: prod.split)
  have div: "answers ! (base + (NUM_REPS_LIN * 6 + r)) = div_answers F1 F2 q ?q4 ?r4 pt ! r" if "r < 4" for r
    using ans [of "NUM_REPS_LIN * 6 + r"] rep_answers_nth(2) [OF that] that by (simp add: total)
  have Q: "answers ! (base + Q7) = ip (corrected q ?q4 (ep_A pt)) F1" "answers ! (base + Q8) = ip (corrected q ?q4 (ep_B pt)) F1"
    "answers ! (base + Q9) = ip (corrected q ?q4 (ep_C pt)) F1" "answers ! (base + Q10) = ip (corrected_powers q ?r4 (ep_tau pt)) F2"
    using div [of 0] div [of 1] div [of 2] div [of 3]
    by (simp_all add: Q7_def Q8_def Q9_def Q10_def NUM_LIN_QUERIES_def div_answers_def mult.commute)
  have F1: "length F1 = n_prime q" using n by (simp add: size_f1_vec_def)
  have A: "tau_value q (zv_A_io s) ?b io (answers ! (base + Q7) - answers ! (base + Q1)) mod ?p = ip (ep_A pt) (assignment F1 io) mod ?p"
    unfolding Q lin by (rule tau_value_ip [OF F1 io_len _ ip_corrected [OF n(1)]]) (use io in blast)
  have B: "tau_value q (zv_B_io s) ?b io (answers ! (base + Q8) - answers ! (base + Q1)) mod ?p = ip (ep_B pt) (assignment F1 io) mod ?p"
    unfolding Q lin by (rule tau_value_ip [OF F1 io_len _ ip_corrected [OF n(1)]]) (use io in blast)
  have C: "tau_value q (zv_C_io s) ?b io (answers ! (base + Q9) - answers ! (base + Q1)) mod ?p = ip (ep_C pt) (assignment F1 io) mod ?p"
    unfolding Q lin by (rule tau_value_ip [OF F1 io_len _ ip_corrected [OF n(1)]]) (use io in blast)
  have H: "(answers ! (base + Q10) - answers ! (base + Q4)) * zv_d_star s ! rho mod ?p = poly_eval F2 (ep_tau pt) * ep_d_star pt mod ?p"
    unfolding Q lin d_star by (rule mod_mult_cong [OF ip_corrected_powers [OF n(2)] refl])
  show ?thesis
    unfolding z_div_test_def Let_def div_holds_def H mod_add_cong [OF mod_mult_cong [OF A B] C] by (rule refl)
qed

end
