(* ===== verification/Zaatar_Qap.thy ===== *)
theory Zaatar_Qap
  imports Zaatar_Tests
begin

text \<open>
  The quadratic program behind Zaatar's divisibility test. The entries of a sparse matrix and an assignment give a value at
  each node; \<open>qap_poly\<close> is the polynomial through them. The evaluations that the verifier prepares at a random
  point are the values of these polynomials there. When the assignment violates a constraint, no proof vector passes the test
  at more than \<open>2 * chi\<close> points.
\<close>

section \<open>Products of polynomial functions\<close>

lemma polyfn_mult_list:
  assumes "polyfn p (Suc b) g"
  shows "polyfn p (length cs + Suc b) (\<lambda>x. poly_eval (c # cs) x * g x)"
proof (induction cs arbitrary: c)
  case Nil
  have "polyfn p (Suc b) (\<lambda>x. c * g x)" by (rule polyfn_scale [OF assms])
  then show ?case by simp
next
  case (Cons d cs)
  have "polyfn p (length (d # cs) + Suc b) (\<lambda>x. c * g x + x * (poly_eval (d # cs) x * g x))"
    using polyfn_times_x [OF Cons [of d]] polyfn_mono [OF polyfn_scale [OF assms, of c]] by (intro polyfn_add) auto
  then show ?case by (rule polyfn_cong) (simp add: algebra_simps)
qed

lemma polyfn_mult:
  assumes "polyfn p (Suc a) f" and "polyfn p (Suc b) g"
  shows "polyfn p (Suc (a + b)) (\<lambda>x. f x * g x)"
proof -
  obtain cs where cs: "length cs = Suc a" "\<And>x. f x mod p = poly_eval cs x mod p" using assms(1) by (auto simp: polyfn_def)
  then obtain c ds where "cs = c # ds" by (cases cs) auto
  with polyfn_mult_list [OF assms(2), of ds c] cs(1) have "polyfn p (Suc (a + b)) (\<lambda>x. poly_eval cs x * g x)" by simp
  then show ?thesis by (rule polyfn_cong) (rule mod_mult_cong [OF cs(2) [symmetric] refl])
qed

lemma polyfn_poly_eval: "length cs \<le> n \<Longrightarrow> polyfn p n (poly_eval cs)"
  by (rule polyfn_mono [of p "length cs"]) (auto simp: polyfn_def)

lemma polyfn_prod_shift: "finite A \<Longrightarrow> polyfn p (Suc (card A)) (\<lambda>x. \<Prod>k \<in> A. x - a k)"
  using polyfn_prod_linear [of A p "\<lambda>k. - a k" "\<lambda>_. 1"] by simp

section \<open>The polynomials of the program\<close>

definition qap_ok :: "(int \<Rightarrow> int \<Rightarrow> int) \<Rightarrow> int \<Rightarrow> qap \<Rightarrow> bool" where
  "qap_ok mpz_invert w q \<longleftrightarrow>
    prime_modulus (qprime q) \<and> root_order (qprime q) w (size_f2_vec q) \<and>
    powers_of_omega q = powers_of w (size_f2_vec q) (qprime q) \<and>
    set_v q = compute_set_v_omega mpz_invert (size_f2_vec q) (powers_of_omega q) (qprime q) \<and>
    (\<forall>e \<in> set (poly_A q @ poly_B q @ poly_C q). pc_i e \<le> num_vars q \<and> pc_j e < size_f2_vec q)"

definition qap_pv :: "poly_compressed list \<Rightarrow> mpz_vec \<Rightarrow> nat \<Rightarrow> int" where
  "qap_pv poly w j = (\<Sum>e\<leftarrow>poly. if pc_j e = j then coefficient e * w ! pc_i e else 0)"

definition node_poly :: "qap \<Rightarrow> nat \<Rightarrow> int \<Rightarrow> int" where
  "node_poly q j x = (\<Prod>k \<in> {..<size_f2_vec q} - {j}. x - powers_of_omega q ! k)"

definition qap_poly :: "qap \<Rightarrow> poly_compressed list \<Rightarrow> mpz_vec \<Rightarrow> int \<Rightarrow> int" where
  "qap_poly q poly w x = (\<Sum>j < size_f2_vec q. qap_pv poly w j * (set_v q ! j * node_poly q j x))"

definition qap_sat :: "qap \<Rightarrow> mpz_vec \<Rightarrow> bool" where
  "qap_sat q w \<longleftrightarrow> (\<forall>j \<in> {1..chi q}.
     (qap_pv (poly_A q) w j * qap_pv (poly_B q) w j + qap_pv (poly_C q) w j) mod qprime q = 0)"

lemma qap_poly_polyfn: "polyfn p (size_f2_vec q) (qap_poly q poly w)"
proof -
  have "polyfn p (Suc (card ({..<size_f2_vec q} - {j}))) (node_poly q j)" for j
    using polyfn_prod_shift [of "{..<size_f2_vec q} - {j}" p "\<lambda>k. powers_of_omega q ! k"]
    by (simp add: node_poly_def [abs_def])
  then have node: "polyfn p (size_f2_vec q) (node_poly q j)" if "j < size_f2_vec q" for j
    by (rule polyfn_mono) (use that in \<open>simp add: card_Diff_singleton\<close>)
  show ?thesis unfolding qap_poly_def [abs_def]
    by (intro polyfn_sum polyfn_scale node) (auto simp: size_f2_vec_def)
qed

lemma node_poly_zero: "k < size_f2_vec q \<Longrightarrow> k \<noteq> j \<Longrightarrow> node_poly q j (powers_of_omega q ! k) = 0"
  unfolding node_poly_def by (rule prod_zero) auto

lemma qap_poly_node:
  assumes inv: "gmp_invert mpz_invert" and ok: "qap_ok mpz_invert w q" and j: "j < size_f2_vec q"
  shows "qap_poly q poly a (powers_of_omega q ! j) mod qprime q = qap_pv poly a j mod qprime q"
proof -
  let ?p = "qprime q" and ?x = "powers_of_omega q ! j"
  have "qap_poly q poly a ?x =
      qap_pv poly a j * (set_v q ! j * node_poly q j ?x) +
      (\<Sum>i \<in> {..<size_f2_vec q} - {j}. qap_pv poly a i * (set_v q ! i * node_poly q i ?x))"
    unfolding qap_poly_def by (rule sum.remove) (use j in auto)
  also have "(\<Sum>i \<in> {..<size_f2_vec q} - {j}. qap_pv poly a i * (set_v q ! i * node_poly q i ?x)) = 0"
    by (rule sum.neutral) (use node_poly_zero j in auto)
  finally have eq: "qap_poly q poly a ?x = qap_pv poly a j * (set_v q ! j * node_poly q j ?x)" by simp
  have "set_v q ! j * node_poly q j ?x mod ?p = 1"
    using ok set_v_weight [OF inv, of ?p w "size_f2_vec q" j] j by (simp add: qap_ok_def node_poly_def)
  then have "qap_pv poly a j * (set_v q ! j * node_poly q j ?x) mod ?p = qap_pv poly a j * 1 mod ?p"
    by (metis mod_mult_right_eq)
  then show ?thesis using eq by simp
qed

section \<open>The evaluations at a point\<close>

lemma node_product_Some:
  assumes "node_product powers p n tau = Some l"
  shows "l mod p = (\<Prod>i < n. tau - powers ! i) mod p \<and> (\<forall>i < n. tau \<noteq> powers ! i)"
  using assms
proof (induction n arbitrary: l)
  case 0
  then show ?case by (simp add: node_product_def)
next
  case (Suc n)
  then obtain l' where l': "node_product powers p n tau = Some l'" "tau - powers ! n \<noteq> 0" "l = l' * (tau - powers ! n) mod p"
    by (auto simp: node_product_def bind_eq_Some_conv split: if_splits)
  have "l mod p = (\<Prod>i < n. tau - powers ! i) * (tau - powers ! n) mod p"
    unfolding l'(3) mod_mod_trivial by (rule mod_mult_cong [OF conjunct1 [OF Suc.IH [OF l'(1)]] refl])
  then show ?case using Suc.IH [OF l'(1)] l'(2) by (auto simp: less_Suc_eq)
qed

lemma node_product_defined:
  assumes "\<And>i. i < n \<Longrightarrow> tau \<noteq> powers ! i"
  shows "\<exists>l. node_product powers p n tau = Some l"
  using assms
proof (induction n)
  case (Suc n)
  then obtain l where "node_product powers p n tau = Some l" by auto
  then show ?case using Suc.prems [of n] by (simp add: node_product_def)
qed (simp add: node_product_def)

lemma fold_entries_nth:
  assumes "\<And>e. e \<in> set poly \<Longrightarrow> pc_i e < length ev" and "i < length ev"
  shows "fold (\<lambda>e ev. ev[pc_i e := (ev ! pc_i e + g e) mod p]) poly ev ! i mod p =
    (ev ! i + (\<Sum>e\<leftarrow>poly. if pc_i e = i then g e else 0)) mod (p :: int)"
  using assms
proof (induction poly arbitrary: ev)
  case (Cons e poly)
  let ?ev = "ev[pc_i e := (ev ! pc_i e + g e) mod p]"
  have "fold (\<lambda>e ev. ev[pc_i e := (ev ! pc_i e + g e) mod p]) (e # poly) ev ! i mod p =
      (?ev ! i + (\<Sum>e\<leftarrow>poly. if pc_i e = i then g e else 0)) mod p"
    using Cons by simp
  also have "\<dots> = ((ev ! i + (if pc_i e = i then g e else 0)) + (\<Sum>e\<leftarrow>poly. if pc_i e = i then g e else 0)) mod p"
    using Cons.prems by (cases "pc_i e = i") (simp_all add: mod_add_left_eq)
  finally show ?case by (simp add: add.assoc)
qed simp

lemma length_fold_entries [simp]:
  "length (fold (\<lambda>e ev. ev[pc_i e := (ev ! pc_i e + g e) mod p]) poly ev) = length (ev :: int list)"
  by (induction poly arbitrary: ev) auto

lemma sum_list_if_swap:
  fixes n :: nat
  assumes "\<And>e. e \<in> set poly \<Longrightarrow> h e < n"
  shows "(\<Sum>i < n. w i * (\<Sum>e\<leftarrow>poly. if h e = i then g e else 0)) = (\<Sum>e\<leftarrow>poly. w (h e) * g e :: int)"
  using assms
proof (induction poly)
  case (Cons e poly)
  have "(\<Sum>i < n. w i * (if h e = i then g e else 0)) = w (h e) * g e"
  proof -
    have "(\<Sum>i < n. w i * (if h e = i then g e else 0)) = (\<Sum>i \<in> {h e}. w i * g e)"
      using Cons.prems [of e] by (intro sum.mono_neutral_cong_right) auto
    then show ?thesis by simp
  qed
  with Cons show ?case by (simp add: sum.distrib distrib_left)
qed simp

lemma sum_list_mod_cong:
  assumes "\<And>x. x \<in> set xs \<Longrightarrow> f x mod (p :: int) = g x mod p"
  shows "sum_list (map f xs) mod p = sum_list (map g xs) mod p"
  using assms by (induction xs) (auto intro: mod_add_cong)

text \<open>The evaluations of the verifier against an assignment are the polynomial through the point values.\<close>

lemma ip_eval_poly_at:
  assumes inv: "gmp_invert mpz_invert" and p: "prime_modulus p"
    and l: "node_product powers p n tau = Some l" and nodes: "\<And>j. j < n \<Longrightarrow> powers ! j \<in> {0..<p}" and tau: "tau \<in> {0..<p}"
    and entries: "\<And>e. e \<in> set poly \<Longrightarrow> pc_i e < length w \<and> pc_j e < n"
  shows "ip (eval_poly_at mpz_invert powers sv p tau l poly (replicate (length w) 0)) w mod p =
    (\<Sum>j < n. qap_pv poly w j * (sv ! j * (\<Prod>k \<in> {..<n} - {j}. tau - powers ! k))) mod p"
proof -
  let ?i = "\<lambda>e. mpz_invert (tau - powers ! pc_j e) p"
  let ?g = "\<lambda>e. (sv ! pc_j e * coefficient e mod p) * ?i e"
  let ?ev = "eval_poly_at mpz_invert powers sv p tau l poly (replicate (length w) 0)"
  let ?N = "\<lambda>j. \<Prod>k \<in> {..<n} - {j}. tau - powers ! k"
  have ev: "?ev ! i mod p = l * (\<Sum>e\<leftarrow>poly. if pc_i e = i then ?g e else 0) mod p" if i: "i < length w" for i
  proof -
    let ?f = "fold (\<lambda>e ev. ev[pc_i e := (ev ! pc_i e + ?g e) mod p]) poly (replicate (length w) 0)"
    have "?ev ! i = ?f ! i * l mod p" using i by (simp add: eval_poly_at_def)
    moreover have "?f ! i mod p = (\<Sum>e\<leftarrow>poly. if pc_i e = i then ?g e else 0) mod p"
      by (subst fold_entries_nth) (use entries i in auto)
    note f = this
    ultimately have "?ev ! i mod p = ?f ! i * l mod p" by simp
    also have "\<dots> = (\<Sum>e\<leftarrow>poly. if pc_i e = i then ?g e else 0) * l mod p" by (rule mod_mult_cong [OF f refl])
    finally show ?thesis by (simp only: mult.commute)
  qed
  have entry: "w ! pc_i e * (l * ?g e) mod p = coefficient e * w ! pc_i e * (sv ! pc_j e * ?N (pc_j e)) mod p"
    if e: "e \<in> set poly" for e
  proof -
    let ?j = "pc_j e"
    have j: "?j < n" using entries [OF e] by simp
    have diff: "(tau - powers ! ?j) mod p \<noteq> 0"
    proof (rule small_mod_nonzero)
      have "tau \<noteq> powers ! ?j" using node_product_Some [OF l] j by blast
      then show "0 < \<bar>tau - powers ! ?j\<bar>" by simp
      show "\<bar>tau - powers ! ?j\<bar> < p" using nodes [OF j] tau by auto
    qed
    have "l mod p = (tau - powers ! ?j) * ?N ?j mod p"
      using node_product_Some [OF l] prod.remove [of "{..<n}" ?j "\<lambda>i. tau - powers ! i"] j by simp
    then have "l * ?i e mod p = ((tau - powers ! ?j) * ?N ?j) * ?i e mod p" by (rule mod_mult_cong) simp
    also have "\<dots> = ?N ?j mod p" by (rule gmp_invert.mpz_invert_cancel [OF inv p diff])
    finally have li: "l * ?i e mod p = ?N ?j mod p" .
    have "w ! pc_i e * (l * ?g e) = w ! pc_i e * ((sv ! ?j * coefficient e mod p) * (l * ?i e))" by (simp add: mult_ac)
    also have "\<dots> mod p = w ! pc_i e * ((sv ! ?j * coefficient e) * ?N ?j) mod p"
      by (intro mod_mult_cong li refl mod_mod_trivial)
    finally show ?thesis by (simp add: mult_ac)
  qed
  have "ip ?ev w mod p = (\<Sum>i < length w. w ! i * (l * (\<Sum>e\<leftarrow>poly. if pc_i e = i then ?g e else 0))) mod p"
    unfolding ip_def
  proof (rule sum_mod_cong)
    fix i assume "i \<in> {..<length w}"
    then have "?ev ! i * w ! i mod p = l * (\<Sum>e\<leftarrow>poly. if pc_i e = i then ?g e else 0) * w ! i mod p"
      by (intro mod_mult_cong ev refl) simp
    then show "?ev ! i * w ! i mod p = w ! i * (l * (\<Sum>e\<leftarrow>poly. if pc_i e = i then ?g e else 0)) mod p"
      by (simp add: mult_ac)
  qed
  also have "(\<Sum>i < length w. w ! i * (l * (\<Sum>e\<leftarrow>poly. if pc_i e = i then ?g e else 0))) =
      (\<Sum>i < length w. (w ! i * l) * (\<Sum>e\<leftarrow>poly. if pc_i e = i then ?g e else 0))" by (simp add: mult.assoc)
  also have "\<dots> = (\<Sum>e\<leftarrow>poly. (w ! pc_i e * l) * ?g e)" by (rule sum_list_if_swap) (use entries in auto)
  also have "\<dots> mod p = (\<Sum>e\<leftarrow>poly. (coefficient e * w ! pc_i e) * (sv ! pc_j e * ?N (pc_j e))) mod p"
    by (rule sum_list_mod_cong) (use entry in \<open>simp add: mult.assoc\<close>)
  also have "(\<Sum>e\<leftarrow>poly. (coefficient e * w ! pc_i e) * (sv ! pc_j e * ?N (pc_j e))) =
      (\<Sum>e\<leftarrow>poly. (sv ! pc_j e * ?N (pc_j e)) * (coefficient e * w ! pc_i e))" by (simp add: mult.commute)
  also have "\<dots> = (\<Sum>j < n. (sv ! j * ?N j) * qap_pv poly w j)"
    unfolding qap_pv_def by (rule sum_list_if_swap [symmetric]) (use entries in auto)
  finally show ?thesis by (simp add: mult.commute)
qed

definition vanish :: "qap \<Rightarrow> int \<Rightarrow> int" where
  "vanish q x = (\<Prod>k \<in> {1..<size_f2_vec q}. x - powers_of_omega q ! k)"

lemma qap_powers_range:
  assumes "qap_ok mpz_invert w q" and "j < size_f2_vec q"
  shows "powers_of_omega q ! j \<in> {0..<qprime q}"
  using assms by (auto simp: qap_ok_def powers_of_nth dest!: prime_modulus_gt2)

lemma qap_powers_0: "qap_ok mpz_invert w q \<Longrightarrow> powers_of_omega q ! 0 = 1"
  by (auto simp: qap_ok_def powers_of_nth size_f2_vec_def dest!: prime_modulus_gt2)

lemma point_at_values:
  assumes inv: "gmp_invert mpz_invert" and ok: "qap_ok mpz_invert w q" and tau: "tau \<in> {0..<qprime q}"
    and pt: "point_at mpz_invert q tau = Some pt" and a: "length a = num_vars q + 1"
  shows "ip (ep_A pt) a mod qprime q = qap_poly q (poly_A q) a tau mod qprime q"
    and "ip (ep_B pt) a mod qprime q = qap_poly q (poly_B q) a tau mod qprime q"
    and "ip (ep_C pt) a mod qprime q = qap_poly q (poly_C q) a tau mod qprime q"
    and "ep_d_star pt mod qprime q = vanish q tau mod qprime q" and "ep_tau pt = tau"
proof -
  let ?p = "qprime q" and ?n = "size_f2_vec q"
  have p: "prime_modulus ?p" using ok by (simp add: qap_ok_def)
  obtain l where l: "node_product (powers_of_omega q) ?p ?n tau = Some l"
    and pt': "ep_A pt = eval_poly_at mpz_invert (powers_of_omega q) (set_v q) ?p tau l (poly_A q) (replicate (length a) 0)"
      "ep_B pt = eval_poly_at mpz_invert (powers_of_omega q) (set_v q) ?p tau l (poly_B q) (replicate (length a) 0)"
      "ep_C pt = eval_poly_at mpz_invert (powers_of_omega q) (set_v q) ?p tau l (poly_C q) (replicate (length a) 0)"
      "ep_d_star pt = mpz_invert (tau - 1) ?p * l mod ?p" "ep_tau pt = tau"
    using pt a by (auto simp: point_at_def Let_def)
  note ev = ip_eval_poly_at [OF inv p l qap_powers_range [OF ok] tau, folded node_poly_def]
  show "ip (ep_A pt) a mod ?p = qap_poly q (poly_A q) a tau mod ?p" "ip (ep_B pt) a mod ?p = qap_poly q (poly_B q) a tau mod ?p"
    "ip (ep_C pt) a mod ?p = qap_poly q (poly_C q) a tau mod ?p"
    unfolding pt' qap_poly_def by (rule ev; use ok a in \<open>auto simp: qap_ok_def less_Suc_eq_le\<close>)+
  have n: "0 < ?n" by (simp add: size_f2_vec_def)
  have one: "powers_of_omega q ! 0 = 1" by (rule qap_powers_0 [OF ok])
  have "l mod ?p = (tau - 1) * vanish q tau mod ?p"
  proof -
    have "(\<Prod>i < ?n. tau - powers_of_omega q ! i) = (tau - powers_of_omega q ! 0) * (\<Prod>i \<in> {..<?n} - {0}. tau - powers_of_omega q ! i)"
      by (rule prod.remove) (use n in auto)
    moreover have "{..<?n} - {0} = {1..<?n}" by auto
    ultimately show ?thesis using node_product_Some [OF l] by (simp add: vanish_def one)
  qed
  then have "mpz_invert (tau - 1) ?p * l mod ?p = mpz_invert (tau - 1) ?p * ((tau - 1) * vanish q tau) mod ?p"
    by (intro mod_mult_cong refl)
  also have "\<dots> = (tau - 1) * vanish q tau * mpz_invert (tau - 1) ?p mod ?p" by (simp add: mult_ac)
  also have "\<dots> = vanish q tau mod ?p"
  proof (rule gmp_invert.mpz_invert_cancel [OF inv p], rule small_mod_nonzero)
    have "tau \<noteq> powers_of_omega q ! 0" using node_product_Some [OF l] n by blast
    then show "0 < \<bar>tau - 1\<bar>" by (simp add: one)
    show "\<bar>tau - 1\<bar> < ?p" using tau prime_modulus_gt2 [OF p] by auto
  qed
  finally show "ep_d_star pt mod ?p = vanish q tau mod ?p" by (simp add: pt'(4))
  show "ep_tau pt = tau" by (rule pt'(5))
qed

lemma div_holds_iff:
  assumes "gmp_invert mpz_invert" and "qap_ok mpz_invert w q" and "tau \<in> {0..<qprime q}"
    and "point_at mpz_invert q tau = Some pt" and "length a = num_vars q + 1"
  shows "div_holds (qprime q) pt a F2 \<longleftrightarrow> poly_eval F2 tau * vanish q tau mod qprime q =
    (qap_poly q (poly_A q) a tau * qap_poly q (poly_B q) a tau + qap_poly q (poly_C q) a tau) mod qprime q"
proof -
  note v = point_at_values [OF assms]
  show ?thesis
    unfolding div_holds_def v(5) mod_mult_cong [OF refl v(4)] mod_add_cong [OF mod_mult_cong [OF v(1,2)] v(3)] by (rule refl)
qed

section \<open>Few points pass for a wrong assignment\<close>

lemma vanish_polyfn: "polyfn p (size_f2_vec q) (vanish q)"
  using polyfn_prod_shift [of "{1..<size_f2_vec q}" p "\<lambda>k. powers_of_omega q ! k"]
  by (simp add: vanish_def [abs_def] size_f2_vec_def)

lemma constraint_polyfn:
  "polyfn p (2 * chi q + 1) (\<lambda>x. qap_poly q A a x * qap_poly q B a x + qap_poly q C a x)"
proof -
  have poly: "polyfn p (Suc (chi q)) (qap_poly q P a)" for P using qap_poly_polyfn [of p q P a] by (simp add: size_f2_vec_def)
  have "polyfn p (Suc (chi q + chi q)) (\<lambda>x. qap_poly q A a x * qap_poly q B a x)" by (rule polyfn_mult [OF poly poly])
  then show ?thesis using polyfn_mono [OF poly, of "2 * chi q + 1"] by (intro polyfn_add) (auto simp: mult_2)
qed

lemma few_points_pass:
  assumes inv: "gmp_invert mpz_invert" and ok: "qap_ok mpz_invert w q"
    and a: "length a = num_vars q + 1" and F2: "length F2 = size_f2_vec q" and unsat: "\<not> qap_sat q a"
  shows "card {tau \<in> {0..<qprime q}. \<exists>pt. point_at mpz_invert q tau = Some pt \<and> div_holds (qprime q) pt a F2} \<le> 2 * chi q"
proof -
  let ?p = "qprime q" and ?x = "\<lambda>j. powers_of_omega q ! j"
  let ?f = "\<lambda>x. poly_eval F2 x * vanish q x"
  let ?g = "\<lambda>x. qap_poly q (poly_A q) a x * qap_poly q (poly_B q) a x + qap_poly q (poly_C q) a x"
  have p: "prime_modulus ?p" using ok by (simp add: qap_ok_def)
  obtain j where j: "j \<in> {1..chi q}"
    "(qap_pv (poly_A q) a j * qap_pv (poly_B q) a j + qap_pv (poly_C q) a j) mod ?p \<noteq> 0"
    using unsat by (auto simp: qap_sat_def)
  have jn: "j < size_f2_vec q" using j(1) by (simp add: size_f2_vec_def)
  have "?g (?x j) mod ?p = (qap_pv (poly_A q) a j * qap_pv (poly_B q) a j + qap_pv (poly_C q) a j) mod ?p"
    by (intro mod_add_cong mod_mult_cong qap_poly_node [OF inv ok jn])
  moreover have "vanish q (?x j) = 0" unfolding vanish_def by (rule prod_zero) (use j(1) jn in auto)
  ultimately have diff: "?f (?x j) mod ?p \<noteq> ?g (?x j) mod ?p" using j(2) by simp
  have f: "polyfn ?p (2 * chi q + 1) ?f"
    using polyfn_mult [of ?p "chi q" "poly_eval F2" "chi q" "vanish q"] polyfn_poly_eval [of F2 "Suc (chi q)" ?p]
      vanish_polyfn [of ?p q] F2 by (simp add: size_f2_vec_def mult_2)
  have "card {r \<in> {0..<?p}. ?f r mod ?p = ?g r mod ?p} < 2 * chi q + 1"
    by (rule polyfn_root_bound [OF p f constraint_polyfn diff])
  moreover have "card {tau \<in> {0..<?p}. \<exists>pt. point_at mpz_invert q tau = Some pt \<and> div_holds ?p pt a F2} \<le>
      card {r \<in> {0..<?p}. ?f r mod ?p = ?g r mod ?p}"
    by (rule card_mono, rule finite_subset [of _ "{0..<?p}"]) (auto simp: div_holds_iff [OF inv ok _ _ a])
  ultimately show ?thesis by simp
qed

end
