(* ===== verification/Zaatar_Run.thy ===== *)
theory Zaatar_Run
  imports Zaatar_Qap
begin

text \<open>
  A run of Zaatar for one instance, from the commitment to the verdict (\<^verbatim>\<open>Verifier::begin_pepper\<close> with the phases of the
  prover). The prover starts the disclosed generator from its seed, the verifier has not used it before. When the
  assignment meets the constraints and the second proof vector is the quotient polynomial, the verifier accepts, whatever the
  random numbers, as long as no point drawn is a node. When the assignment violates a constraint, acceptance needs
  every point to fall into a set of at most \<open>2 * chi\<close> points.
\<close>

definition zverifier_start :: "mpz_vec \<Rightarrow> mpz_vec \<Rightarrow> rng \<Rightarrow> zverifier" where
  "zverifier_start con1 con2 g =
    \<lparr>zv_f1_q4 = [], zv_f2_q4 = [], zv_con1 = con1, zv_con2 = con2,
     zv_coins = replicate (NUM_REPS_PCP * NUM_LIN_PCP_QUERIES) 0, zv_filled = 0, zv_d_star = [],
     zv_A_io = [], zv_B_io = [], zv_C_io = [], zv_rng = g\<rparr>"

definition zqueries_start :: "(nat \<Rightarrow> mpz) \<Rightarrow> zqueries" where
  "zqueries_start f =
    \<lparr>zq_f1_q4 = [], zq_f2_q4 = [], zq_files = [], zq_rng = \<lparr>pub = f, pub_at = 0, priv = (\<lambda>_. 0), priv_at = 0\<rparr>\<rparr>"

text \<open>The answers of a prover with proof vectors \<open>F1\<close> and \<open>F2\<close> to the queries it deduces.\<close>

definition zprover_answers ::
  "(int \<Rightarrow> int \<Rightarrow> int) \<Rightarrow> qap \<Rightarrow> nat \<Rightarrow> nat list \<Rightarrow> mpz_vec \<Rightarrow> mpz_vec \<Rightarrow> (nat \<Rightarrow> mpz) \<Rightarrow> mpz \<times> mpz \<Rightarrow> mpz_vec option" where
  "zprover_answers mpz_invert q nt ord F1 F2 f a12 =
    Option.bind (z_deduce_queries mpz_invert q (zqueries_start f))
      (\<lambda>s. prover_answer_queries nt ord [F1, F2] z_qquery_F_ptrs NUM_REPS_PCP (zq_files s) a12)"

definition zaatar_run ::
  "(int \<Rightarrow> int \<Rightarrow> int) \<Rightarrow> (int \<Rightarrow> int \<Rightarrow> int \<Rightarrow> int) \<Rightarrow> (int list \<Rightarrow> int list \<Rightarrow> int \<Rightarrow> int) \<Rightarrow> elgamal_key \<Rightarrow> elgamal_key \<Rightarrow> qap \<Rightarrow>
   nat \<Rightarrow> nat list \<Rightarrow> mpz_vec \<Rightarrow> mpz_vec \<Rightarrow> mpz_vec \<Rightarrow> mpz \<times> mpz \<Rightarrow> rng \<Rightarrow> bool option"
where
  "zaatar_run mpz_invert fpowm spowm k kp q nt ord F1 F2 io a12 g =
    (let n1 = size_f1_vec q; n2 = size_f2_vec q;
         (f1_commitment, con1, g) = create_commitment_query fpowm k n1 g;
         (f2_commitment, con2, g) = create_commitment_query fpowm k n2 g;
         com = commitment_answer spowm kp nt ord (dump_vector_interleaved (2 * n1) f1_commitment) F1
                 (dump_vector_interleaved (2 * n2) f2_commitment) F2
     in Option.bind (z_create_plain_queries mpz_invert q (zverifier_start con1 con2 g)) (\<lambda>v.
          map_option (z_run_tests mpz_invert fpowm k q v io com
                       (prover_consistency_answer nt ord [F1, F2] [zv_con1 v, zv_con2 v]))
            (zprover_answers mpz_invert q nt ord F1 F2 (pub g) a12)))"

section \<open>Queries and answers of a run\<close>

definition zaatar_tau :: "qap \<Rightarrow> (nat \<Rightarrow> mpz) \<Rightarrow> nat \<Rightarrow> mpz" where
  "zaatar_tau q f r = f (rep_at q r + tau_at q)"

lemma z_create_plain_queries_reps:
  "z_create_plain_queries mpz_invert q s =
    fold (\<lambda>r s. Option.bind s (z_rep_v mpz_invert q)) [0..<NUM_REPS_PCP] (Some (s\<lparr>zv_filled := - 1\<rparr>))"
  unfolding z_create_plain_queries_def z_rep_v_def ..

lemma z_deduce_queries_reps:
  "z_deduce_queries mpz_invert q s = fold (\<lambda>r s. Option.bind s (z_rep_p mpz_invert q)) [0..<NUM_REPS_PCP] (Some s)"
  unfolding z_deduce_queries_def z_rep_p_def ..

lemma zprover_answers_eq:
  assumes nt: "0 < nt" "mset ord = mset [0..<nt]" and len: "length F1 = size_f1_vec q" "length F2 = size_f2_vec q"
    and pts: "\<And>r. r < NUM_REPS_PCP \<Longrightarrow> point_at mpz_invert q (zaatar_tau q f r) = Some (pts r)"
  shows "zprover_answers mpz_invert q nt ord F1 F2 f a12 =
    Some (concat (map (\<lambda>r. rep_answers F1 F2 q f (rep_at q r) (pts r)) [0..<NUM_REPS_PCP]))"
proof -
  from prover_reps [of NUM_REPS_PCP mpz_invert q f 0 pts "zqueries_start f"] pts obtain t where
    "z_deduce_queries mpz_invert q (zqueries_start f) = Some t"
    "zq_files t = concat (map (\<lambda>r. rep_files q f (0 + rep_at q r) (pts r)) [0..<NUM_REPS_PCP])"
    unfolding z_deduce_queries_reps by (auto simp: zqueries_start_def zaatar_tau_def)
  then show ?thesis
    using prover_all_answers [OF nt len, of NUM_REPS_PCP f 0 pts a12] by (simp add: zprover_answers_def)
qed

lemma verifier_queries:
  assumes len: "length F1 = size_f1_vec q" "length F2 = size_f2_vec q" and con: "length con1 = length F1" "length con2 = length F2"
    and f: "pub g = f" "pub_at g = 0"
    and pts: "\<And>r. r < NUM_REPS_PCP \<Longrightarrow> point_at mpz_invert q (zaatar_tau q f r) = Some (pts r)"
  obtains v where "z_create_plain_queries mpz_invert q (zverifier_start con1 con2 g) = Some v"
    and "con_inv F1 F2 (ip con1 F1 + ip con2 F2) (NUM_REPS_PCP * NUM_LIN_PCP_QUERIES) v
      (concat (map (\<lambda>r. rep_answers F1 F2 q f (rep_at q r) (pts r)) [0..<NUM_REPS_PCP]))"
    and "zv_d_star v = map (\<lambda>r. ep_d_star (pts r)) [0..<NUM_REPS_PCP]"
    and "zv_A_io v = concat (map (\<lambda>r. io_part q (ep_A (pts r))) [0..<NUM_REPS_PCP])"
    and "zv_B_io v = concat (map (\<lambda>r. io_part q (ep_B (pts r))) [0..<NUM_REPS_PCP])"
    and "zv_C_io v = concat (map (\<lambda>r. io_part q (ep_C (pts r))) [0..<NUM_REPS_PCP])"
proof -
  let ?s = "(zverifier_start con1 con2 g)\<lparr>zv_filled := - 1\<rparr>"
  have inv: "con_inv F1 F2 (ip con1 F1 + ip con2 F2) (NUM_REPS_PCP * NUM_LIN_PCP_QUERIES) ?s []"
    using con by (simp add: con_inv_def zverifier_start_def)
  have "pub (zv_rng ?s) = f" "pub_at (zv_rng ?s) = 0" using f by (simp_all add: zverifier_start_def)
  from verifier_reps [of NUM_REPS_PCP mpz_invert q f 0 pts, OF _ this inv order_refl] pts len
  obtain v where "fold (\<lambda>r s. Option.bind s (z_rep_v mpz_invert q)) [0..<NUM_REPS_PCP] (Some ?s) = Some v"
    and v: "con_inv F1 F2 (ip con1 F1 + ip con2 F2) (NUM_REPS_PCP * NUM_LIN_PCP_QUERIES) v
        (concat (map (\<lambda>r. rep_answers F1 F2 q f (0 + rep_at q r) (pts r)) [0..<NUM_REPS_PCP]))"
      "zv_d_star v = zv_d_star ?s @ map (\<lambda>r. ep_d_star (pts r)) [0..<NUM_REPS_PCP]"
      "zv_A_io v = zv_A_io ?s @ concat (map (\<lambda>r. io_part q (ep_A (pts r))) [0..<NUM_REPS_PCP])"
      "zv_B_io v = zv_B_io ?s @ concat (map (\<lambda>r. io_part q (ep_B (pts r))) [0..<NUM_REPS_PCP])"
      "zv_C_io v = zv_C_io ?s @ concat (map (\<lambda>r. io_part q (ep_C (pts r))) [0..<NUM_REPS_PCP])"
    by (auto simp: zaatar_tau_def)
  then have "z_create_plain_queries mpz_invert q (zverifier_start con1 con2 g) = Some v"
    unfolding z_create_plain_queries_reps by simp
  then show ?thesis using that [of v] v by (simp add: zverifier_start_def)
qed

text \<open>With the answers of the prover, the interactive tests are the equation at each point.\<close>

lemma interactive_tests_iff:
  assumes n: "length F1 = size_f1_vec q" "length F2 = size_f2_vec q" and io: "length io = size_input q + size_output q"
    and d_star: "zv_d_star v = map (\<lambda>r. ep_d_star (pts r)) [0..<NUM_REPS_PCP]"
    and A: "zv_A_io v = concat (map (\<lambda>r. io_part q (ep_A (pts r))) [0..<NUM_REPS_PCP])"
    and B: "zv_B_io v = concat (map (\<lambda>r. io_part q (ep_B (pts r))) [0..<NUM_REPS_PCP])"
    and C: "zv_C_io v = concat (map (\<lambda>r. io_part q (ep_C (pts r))) [0..<NUM_REPS_PCP])"
  shows "run_interactive_tests q v io (concat (map (\<lambda>r. rep_answers F1 F2 q f (rep_at q r) (pts r)) [0..<NUM_REPS_PCP])) \<longleftrightarrow>
    (\<forall>r < NUM_REPS_PCP. div_holds (qprime q) (pts r) (assignment F1 io) F2)"
proof -
  let ?ans = "concat (map (\<lambda>r. rep_answers F1 F2 q f (rep_at q r) (pts r)) [0..<NUM_REPS_PCP])"
  let ?w = "1 + size_input q + size_output q"
  have ans: "?ans ! (r * NUM_LIN_PCP_QUERIES + j) = rep_answers F1 F2 q f (rep_at q r) (pts r) ! j"
    if "r < NUM_REPS_PCP" "j < NUM_LIN_PCP_QUERIES" for r j
    using that by (subst concat_uniform_nth [where n = NUM_LIN_PCP_QUERIES]) auto
  have io_nth: "concat (map (\<lambda>r. io_part q (h r)) [0..<NUM_REPS_PCP]) ! (r * ?w + i) = io_part q (h r) ! i"
    if "r < NUM_REPS_PCP" "i < ?w" for h :: "nat \<Rightarrow> mpz_vec" and r i
    using that by (subst concat_uniform_nth [where n = ?w]) (auto simp: io_part_def)
  have lin: "z_lin_tests (qprime q) ?ans (r * NUM_LIN_PCP_QUERIES)" if "r < NUM_REPS_PCP" for r
    by (rule z_lin_tests_pass) (rule ans [OF that])
  have div: "z_div_test q v io r ?ans (r * NUM_LIN_PCP_QUERIES) \<longleftrightarrow> div_holds (qprime q) (pts r) (assignment F1 io) F2"
    if r: "r < NUM_REPS_PCP" for r
    by (rule z_div_test_iff [OF n(1) [symmetric] n(2) [symmetric] io ans [OF r]])
      (use r io_nth [OF r] in \<open>simp_all add: d_star A B C\<close>)
  show ?thesis unfolding run_interactive_tests_def Let_def fold_conj using lin div by auto
qed

section \<open>The consistency test\<close>

lemma create_commitment_query_simps:
  "create_commitment_query fpowm k n g =
    (elgamal_enc_vec fpowm k (map (\<lambda>i. priv g (priv_at g + i)) [0..<n]) n (map (\<lambda>i. priv g (priv_at g + n + i)) [0..<n]),
     map (\<lambda>i. priv g (priv_at g + i)) [0..<n], g\<lparr>priv_at := priv_at g + 2 * n\<rparr>)"
  by (simp add: create_commitment_query_def get_random_vec_priv_def add.assoc)

lemma prover_consistency_ip:
  assumes "0 < nt" "mset ord = mset [0..<nt]" and "length q1 = length F1" "length q2 = length F2"
  shows "prover_consistency_answer nt ord [F1, F2] [q1, q2] = ip q1 F1 + ip q2 F2"
  using assms by (simp add: prover_consistency_answer_def dot_product_par_ip numeral_2_eq_2)

lemma ip_bounds:
  assumes "\<And>i. i < length F \<Longrightarrow> 0 \<le> c ! i \<and> c ! i < M" and "\<And>i. i < length F \<Longrightarrow> 0 \<le> F ! i \<and> F ! i < p"
  shows "0 \<le> ip c F" and "ip c F \<le> int (length F) * (M * p)"
proof -
  show "0 \<le> ip c F" unfolding ip_def by (rule sum_nonneg) (use assms in auto)
  have "ip c F \<le> (\<Sum>i < length F. M * p)"
    unfolding ip_def
  proof (rule sum_mono)
    fix i assume "i \<in> {..<length F}"
    then have "0 \<le> c ! i" "c ! i \<le> M" "0 \<le> F ! i" "F ! i \<le> p"
      using assms(1) [of i] assms(2) [of i] by simp_all
    then show "c ! i * F ! i \<le> M * p" by (intro mult_mono) auto
  qed
  then show "ip c F \<le> int (length F) * (M * p)" by simp
qed

lemma consistency_passes:
  assumes lib: "gmpmee fpowm spowm" and k: "1 < eg_p k"
    and inv: "con_inv F1 F2 K N v ans" and N: "length ans = N" and a: "a = ip (zv_con1 v) F1 + ip (zv_con2 v) F2"
    and K: "0 \<le> K" "K < eg_q k" and com: "com = eg_g k ^ nat K mod eg_p k"
  shows "consistency_test fpowm k N a com ans (zv_coins v)"
proof -
  have "a - fold (\<lambda>i acc. acc + zv_coins v ! i * ans ! i) [0..<N] 0 = K"
    using inv N unfolding con_inv_def a fold_add_sum by (simp add: atLeast0LessThan)
  then show ?thesis
    using K gmpmee.fpowm_power [OF lib k K(1)] by (simp add: consistency_test_def com)
qed

section \<open>Completeness and soundness of a run\<close>

lemma zaatar_point_defined:
  assumes "tau \<notin> set (powers_of_omega q)" and "length (powers_of_omega q) = size_f2_vec q"
  obtains pt where "point_at mpz_invert q tau = Some pt"
proof -
  have "\<exists>l. node_product (powers_of_omega q) (qprime q) (size_f2_vec q) tau = Some l"
    by (rule node_product_defined) (use assms in \<open>metis nth_mem\<close>)
  then show ?thesis using that by (auto simp: point_at_def)
qed

lemma zaatar_accepts:
  assumes lib: "gmpmee fpowm spowm" "gmp_invert mpz_invert" and ok: "qap_ok mpz_invert w q"
    and key: "1 < P" "coprime G P" "0 \<le> r" "k = set_elgamal_priv_key P G r k0" "kp = set_elgamal_pub_key P G k1"
    and nt: "0 < nt" "mset ord = mset [0..<nt]"
    and F: "length F1 = size_f1_vec q" "length F2 = size_f2_vec q" "length io = size_input q + size_output q"
      "\<forall>x \<in> set (F1 @ F2). 0 \<le> x \<and> x < qprime q"
    and div: "\<And>x. poly_eval F2 x * vanish q x mod qprime q =
      (qap_poly q (poly_A q) (assignment F1 io) x * qap_poly q (poly_B q) (assignment F1 io) x +
       qap_poly q (poly_C q) (assignment F1 io) x) mod qprime q"
    and priv: "\<forall>i. 0 \<le> priv g i \<and> priv g i < M"
    and size: "int (length F1 + length F2) * (M * qprime q) < (P - 1) div 2"
    and g: "pub_at g = 0"
    and tau: "\<forall>r < NUM_REPS_PCP. zaatar_tau q (pub g) r \<in> {0..<qprime q} - set (powers_of_omega q)"
  shows "zaatar_run mpz_invert fpowm spowm k kp q nt ord F1 F2 io a12 g = Some True"
proof -
  let ?n1 = "size_f1_vec q" and ?n2 = "size_f2_vec q" and ?a = "assignment F1 io"
  define con1 where "con1 = map (\<lambda>i. priv g (priv_at g + i)) [0..<?n1]"
  define rs1 where "rs1 = map (\<lambda>i. priv g (priv_at g + ?n1 + i)) [0..<?n1]"
  define con2 where "con2 = map (\<lambda>i. priv g (priv_at g + 2 * ?n1 + i)) [0..<?n2]"
  define rs2 where "rs2 = map (\<lambda>i. priv g (priv_at g + 2 * ?n1 + ?n2 + i)) [0..<?n2]"
  define g' where "g' = g\<lparr>priv_at := priv_at g + 2 * ?n1 + 2 * ?n2\<rparr>"
  have q1: "create_commitment_query fpowm k ?n1 g = (elgamal_enc_vec fpowm k con1 ?n1 rs1, con1, g\<lparr>priv_at := priv_at g + 2 * ?n1\<rparr>)"
    by (simp add: create_commitment_query_simps con1_def rs1_def)
  have q2: "create_commitment_query fpowm k ?n2 (g\<lparr>priv_at := priv_at g + 2 * ?n1\<rparr>) = (elgamal_enc_vec fpowm k con2 ?n2 rs2, con2, g')"
    by (simp add: create_commitment_query_simps con2_def rs2_def g'_def)
  define com where "com = commitment_answer spowm kp nt ord (dump_vector_interleaved (2 * ?n1) (elgamal_enc_vec fpowm k con1 ?n1 rs1)) F1
      (dump_vector_interleaved (2 * ?n2) (elgamal_enc_vec fpowm k con2 ?n2 rs2)) F2"
  have powers: "length (powers_of_omega q) = ?n2" using ok by (simp add: qap_ok_def)
  define pts where "pts = (\<lambda>r. the (point_at mpz_invert q (zaatar_tau q (pub g) r)))"
  have pts: "point_at mpz_invert q (zaatar_tau q (pub g) r) = Some (pts r)" if "r < NUM_REPS_PCP" for r
  proof -
    have "zaatar_tau q (pub g) r \<notin> set (powers_of_omega q)" using tau that by blast
    then obtain pt where "point_at mpz_invert q (zaatar_tau q (pub g) r) = Some pt" by (rule zaatar_point_defined [OF _ powers])
    then show ?thesis by (simp add: pts_def)
  qed
  let ?ans = "concat (map (\<lambda>r. rep_answers F1 F2 q (pub g) (rep_at q r) (pts r)) [0..<NUM_REPS_PCP])"
  have ans: "zprover_answers mpz_invert q nt ord F1 F2 (pub g) a12 = Some ?ans"
    by (rule zprover_answers_eq [OF nt F(1,2) pts])
  have con_len: "length con1 = length F1" "length con2 = length F2" by (simp_all add: con1_def con2_def F)
  have g': "pub g' = pub g" "pub_at g' = 0" by (simp_all add: g'_def g)
  obtain v where v: "z_create_plain_queries mpz_invert q (zverifier_start con1 con2 g') = Some v"
    and inv: "con_inv F1 F2 (ip con1 F1 + ip con2 F2) (NUM_REPS_PCP * NUM_LIN_PCP_QUERIES) v ?ans"
    and io: "zv_d_star v = map (\<lambda>r. ep_d_star (pts r)) [0..<NUM_REPS_PCP]"
      "zv_A_io v = concat (map (\<lambda>r. io_part q (ep_A (pts r))) [0..<NUM_REPS_PCP])"
      "zv_B_io v = concat (map (\<lambda>r. io_part q (ep_B (pts r))) [0..<NUM_REPS_PCP])"
      "zv_C_io v = concat (map (\<lambda>r. io_part q (ep_C (pts r))) [0..<NUM_REPS_PCP])"
    by (rule verifier_queries [OF F(1,2) con_len g' pts])
  have nonneg: "\<forall>i < length F1. 0 \<le> con1 ! i \<and> 0 \<le> rs1 ! i \<and> 0 \<le> F1 ! i"
    "\<forall>i < length F2. 0 \<le> con2 ! i \<and> 0 \<le> rs2 ! i \<and> 0 \<le> F2 ! i"
    using priv F by (auto simp: con1_def rs1_def con2_def rs2_def)
  let ?K = "ip con1 F1 + ip con2 F2"
  have ip1: "0 \<le> ip con1 F1" "ip con1 F1 \<le> int (length F1) * (M * qprime q)"
    by (rule ip_bounds; use priv F in \<open>auto simp: con1_def\<close>)+
  have ip2: "0 \<le> ip con2 F2" "ip con2 F2 \<le> int (length F2) * (M * qprime q)"
    by (rule ip_bounds; use priv F in \<open>auto simp: con2_def\<close>)+
  have K: "0 \<le> ?K" "?K < eg_q k" using ip1 ip2 size by (auto simp: key(4) distrib_right)
  have dec: "elgamal_dec mpz_invert k (fst com) (snd com) = eg_g k ^ nat ?K mod eg_p k"
    using commitment_opens [OF lib key(1-3) nt nonneg key(4), of com k1] unfolding com_def F(1,2) [symmetric] key(5) ip_def
    by (simp add: key(4))
  have len_ans: "length ?ans = NUM_REPS_PCP * NUM_LIN_PCP_QUERIES"
    by (simp add: length_concat_map_const [where n = NUM_LIN_PCP_QUERIES])
  have consistent: "consistency_test fpowm k (NUM_REPS_PCP * NUM_LIN_PCP_QUERIES)
      (prover_consistency_answer nt ord [F1, F2] [zv_con1 v, zv_con2 v]) (elgamal_dec mpz_invert k (fst com) (snd com)) ?ans (zv_coins v)"
  proof (rule consistency_passes [OF lib(1) _ inv len_ans _ K dec])
    show "1 < eg_p k" using key by simp
    show "prover_consistency_answer nt ord [F1, F2] [zv_con1 v, zv_con2 v] = ip (zv_con1 v) F1 + ip (zv_con2 v) F2"
      by (rule prover_consistency_ip [OF nt]) (use inv in \<open>simp_all add: con_inv_def\<close>)
  qed
  have a_len: "length ?a = num_vars q + 1" using F by (simp add: assignment_def num_vars_def size_f1_vec_def)
  have "div_holds (qprime q) (pts r) ?a F2" if r: "r < NUM_REPS_PCP" for r
    using div_holds_iff [OF lib(2) ok _ pts [OF r] a_len] tau r div by auto
  then have "run_interactive_tests q v io ?ans" unfolding interactive_tests_iff [OF F(1-3) io] by blast
  then have "z_run_tests mpz_invert fpowm k q v io com (prover_consistency_answer nt ord [F1, F2] [zv_con1 v, zv_con2 v]) ?ans"
    using consistent by (simp add: z_run_tests_def Let_def)
  then show ?thesis
    unfolding zaatar_run_def Let_def q1 q2 prod.case com_def [symmetric] v g'(1) ans by simp
qed

lemma prover_points_defined:
  assumes "fold (\<lambda>r s. Option.bind s (z_rep_p mpz_invert q)) [0..<m] (Some s) = Some t"
    and "pub (zq_rng s) = f" "pub_at (zq_rng s) = 0" and "r < m"
  shows "\<exists>pt. point_at mpz_invert q (zaatar_tau q f r) = Some pt"
  using assms(1,4)
proof (induction m arbitrary: t r)
  case (Suc m)
  let ?fold = "\<lambda>m. fold (\<lambda>r s. Option.bind s (z_rep_p mpz_invert q)) [0..<m] (Some s)"
  from Suc.prems(1) obtain t' where t': "?fold m = Some t'" "z_rep_p mpz_invert q t' = Some t"
    by (auto simp: bind_eq_Some_conv)
  show ?case
  proof (cases "r = m")
    case False
    then show ?thesis using Suc.IH [OF t'(1)] Suc.prems(2) by simp
  next
    case True
    define pts where "pts = (\<lambda>r. the (point_at mpz_invert q (zaatar_tau q f r)))"
    have "point_at mpz_invert q (f (0 + rep_at q r + tau_at q)) = Some (pts r)" if r: "r < m" for r
    proof -
      obtain pt where "point_at mpz_invert q (zaatar_tau q f r) = Some pt" using Suc.IH [OF t'(1) r] by blast
      then show ?thesis by (simp add: pts_def zaatar_tau_def)
    qed
    from prover_reps [OF this assms(2,3), of m] t'(1) have "pub (zq_rng t') = f" "pub_at (zq_rng t') = rep_at q m" by simp_all
    moreover have "\<exists>pt. point_at mpz_invert q (pub (zq_rng t') (pub_at (zq_rng t') + tau_at q)) = Some pt"
      using t'(2) unfolding z_rep_p_def z_deduce_div_step prover_lin_rounds [OF refl] by (auto simp: tau_at_def)
    ultimately show ?thesis by (simp add: zaatar_tau_def True)
  qed
qed simp

lemma zaatar_accepted_points:
  assumes inv: "gmp_invert mpz_invert" and ok: "qap_ok mpz_invert w q"
    and nt: "0 < nt" "mset ord = mset [0..<nt]"
    and F: "length F1 = size_f1_vec q" "length F2 = size_f2_vec q" "length io = size_input q + size_output q"
    and g: "pub_at g = 0" and acc: "zaatar_run mpz_invert fpowm spowm k kp q nt ord F1 F2 io a12 g = Some True"
    and r: "r < NUM_REPS_PCP"
  shows "\<exists>pt. point_at mpz_invert q (zaatar_tau q (pub g) r) = Some pt \<and> div_holds (qprime q) pt (assignment F1 io) F2"
proof -
  let ?n1 = "size_f1_vec q" and ?n2 = "size_f2_vec q"
  define con1 where "con1 = map (\<lambda>i. priv g (priv_at g + i)) [0..<?n1]"
  define con2 where "con2 = map (\<lambda>i. priv g (priv_at g + 2 * ?n1 + i)) [0..<?n2]"
  define g' where "g' = g\<lparr>priv_at := priv_at g + 2 * ?n1 + 2 * ?n2\<rparr>"
  from acc obtain v ans where v: "z_create_plain_queries mpz_invert q (zverifier_start con1 con2 g') = Some v"
    and ans: "zprover_answers mpz_invert q nt ord F1 F2 (pub g) a12 = Some ans" and tests: "run_interactive_tests q v io ans"
    unfolding zaatar_run_def Let_def create_commitment_query_simps
    by (auto simp: bind_eq_Some_conv con1_def con2_def g'_def z_run_tests_def Let_def)
  from ans obtain t where "z_deduce_queries mpz_invert q (zqueries_start (pub g)) = Some t"
    by (auto simp: zprover_answers_def bind_eq_Some_conv)
  then have t: "fold (\<lambda>r s. Option.bind s (z_rep_p mpz_invert q)) [0..<NUM_REPS_PCP] (Some (zqueries_start (pub g))) = Some t"
    by (simp only: z_deduce_queries_reps)
  define pts where "pts = (\<lambda>r. the (point_at mpz_invert q (zaatar_tau q (pub g) r)))"
  have pts: "point_at mpz_invert q (zaatar_tau q (pub g) r) = Some (pts r)" if r: "r < NUM_REPS_PCP" for r
  proof -
    obtain pt where "point_at mpz_invert q (zaatar_tau q (pub g) r) = Some pt"
      using prover_points_defined [OF t _ _ r, of "pub g"] by (auto simp: zqueries_start_def)
    then show ?thesis by (simp add: pts_def)
  qed
  let ?ans = "concat (map (\<lambda>r. rep_answers F1 F2 q (pub g) (rep_at q r) (pts r)) [0..<NUM_REPS_PCP])"
  have ans': "ans = ?ans" using ans zprover_answers_eq [OF nt F(1,2) pts] by simp
  have con_len: "length con1 = length F1" "length con2 = length F2" by (simp_all add: con1_def con2_def F)
  have g': "pub g' = pub g" "pub_at g' = 0" by (simp_all add: g'_def g)
  obtain v' where v': "z_create_plain_queries mpz_invert q (zverifier_start con1 con2 g') = Some v'"
    and io: "zv_d_star v' = map (\<lambda>r. ep_d_star (pts r)) [0..<NUM_REPS_PCP]"
      "zv_A_io v' = concat (map (\<lambda>r. io_part q (ep_A (pts r))) [0..<NUM_REPS_PCP])"
      "zv_B_io v' = concat (map (\<lambda>r. io_part q (ep_B (pts r))) [0..<NUM_REPS_PCP])"
      "zv_C_io v' = concat (map (\<lambda>r. io_part q (ep_C (pts r))) [0..<NUM_REPS_PCP])"
    by (rule verifier_queries [OF F(1,2) con_len g' pts])
  have "v' = v" using v v' by simp
  then have "div_holds (qprime q) (pts r) (assignment F1 io) F2"
    using tests r unfolding ans' interactive_tests_iff [OF F io [unfolded \<open>v' = v\<close>]] by blast
  then show ?thesis using pts [OF r] by blast
qed

text \<open>
  C0: Soundness of the linear PCP. If the assignment of the prover together with the inputs and outputs violates a
  constraint of the quadratic program, there is a set of at most \<open>2 * chi\<close> residues such that the verifier accepts a prover with
  these proof vectors only if the point of each of the eight repetitions lies in the set, whatever the second proof vector
  and all other random numbers.
\<close>

theorem zaatar_soundness:
  assumes inv: "gmp_invert mpz_invert" and ok: "qap_ok mpz_invert w q"
    and F: "length F1 = size_f1_vec q" "length F2 = size_f2_vec q" "length io = size_input q + size_output q"
    and unsat: "\<not> qap_sat q (assignment F1 io)"
  shows "\<exists>bad \<subseteq> {0..<qprime q}. card bad \<le> 2 * chi q \<and>
    (\<forall>fpowm spowm k kp nt ord a12 g. 0 < nt \<and> mset ord = mset [0..<nt] \<and> pub_at g = 0 \<and> (\<forall>i. pub g i \<in> {0..<qprime q}) \<and>
       zaatar_run mpz_invert fpowm spowm k kp q nt ord F1 F2 io a12 g = Some True \<longrightarrow>
       (\<forall>r < NUM_REPS_PCP. zaatar_tau q (pub g) r \<in> bad))"
proof -
  let ?a = "assignment F1 io"
  have a: "length ?a = num_vars q + 1" using F by (simp add: assignment_def num_vars_def size_f1_vec_def)
  let ?bad = "{tau \<in> {0..<qprime q}. \<exists>pt. point_at mpz_invert q tau = Some pt \<and> div_holds (qprime q) pt ?a F2}"
  have "card ?bad \<le> 2 * chi q" by (rule few_points_pass [OF inv ok a F(2) unsat])
  moreover have "zaatar_tau q (pub g) r \<in> ?bad"
    if "0 < nt" "mset ord = mset [0..<nt]" "pub_at g = 0" "\<forall>i. pub g i \<in> {0..<qprime q}"
      "zaatar_run mpz_invert fpowm spowm k kp q nt ord F1 F2 io a12 g = Some True" "r < NUM_REPS_PCP"
    for fpowm spowm k kp nt ord a12 g r
    using zaatar_accepted_points [OF inv ok that(1,2) F that(3,5,6)] that(4) by (auto simp: zaatar_tau_def)
  ultimately show ?thesis by (intro exI [of _ ?bad]) blast
qed

text \<open>A quadratic program with one variable whose only constraint is that the output is the square of the variable.\<close>

definition square_program :: qap where
  "square_program =
    \<lparr>chi = 3, n_prime = 1, size_input = 1, size_output = 1,
     poly_A = [\<lparr>pc_i = 1, pc_j = 1, coefficient = 1\<rparr>], poly_B = [\<lparr>pc_i = 1, pc_j = 1, coefficient = 1\<rparr>],
     poly_C = [\<lparr>pc_i = 3, pc_j = 1, coefficient = - 1\<rparr>], qprime = 17, powers_of_omega = powers_of 4 4 17,
     set_v = compute_set_v_omega mod_inverse 4 (powers_of 4 4 17) 17\<rparr>"

lemma square_program_ok: "qap_ok mod_inverse 4 square_program"
proof -
  have "prime_modulus 17" "root_order 17 4 4" by code_simp+
  then show ?thesis by (simp add: qap_ok_def square_program_def size_f2_vec_def num_vars_def)
qed

lemma square_program_sizes [simp]:
  "size_f1_vec square_program = 1" "size_f2_vec square_program = 4" "size_input square_program = 1"
  "size_output square_program = 1" "qprime square_program = 17" "chi square_program = 3"
  by (simp_all add: square_program_def size_f1_vec_def size_f2_vec_def)

lemma zaatar_soundness_witness:
  "\<exists>bad \<subseteq> {0..<17}. card bad \<le> 6 \<and>
    (\<forall>fpowm spowm k kp nt ord a12 g. 0 < nt \<and> mset ord = mset [0..<nt] \<and> pub_at g = 0 \<and> (\<forall>i. pub g i \<in> {0..<17}) \<and>
       zaatar_run mod_inverse fpowm spowm k kp square_program nt ord [2] [0, 0, 0, 0] [1, 5] a12 g = Some True \<longrightarrow>
       (\<forall>r < NUM_REPS_PCP. zaatar_tau square_program (pub g) r \<in> bad))"
proof -
  have "\<not> qap_sat square_program (assignment [2] [1, 5])"
    by (simp add: qap_sat_def square_program_def qap_pv_def assignment_def)
  from zaatar_soundness [OF euclid.gmp_invert_axioms square_program_ok _ _ _ this, of "[0, 0, 0, 0]"]
  show ?thesis by simp
qed

end
