(* ===== verification/Spec2Isabelle.thy ===== *)
theory Spec2Isabelle
  imports Hamdist_Value Prover_Machine Arithmetic_Facts Batch_Facts Sumcheck_Soundness Paging Pws_Facts Pws_Run Pws_Errors Pws_Checks Zaatar_Run
begin

text \<open>
  A verification development of two protocols for verified computation: the GKR protocol (the variant of Cormode,
  Mitzenmacher and Thaler) implemented in \<^verbatim>\<open>src/code/pepper/cmtgkr\<close>, and Zaatar, an efficient argument built from a linear
  PCP, implemented in \<^verbatim>\<open>src/code/pepper/libv\<close> and \<^verbatim>\<open>src/code/pepper/crypto\<close>.

  \<^bold>\<open>The GKR program.\<close> A verifier wants the values of a layered arithmetic circuit over a prime field on a batch of inputs,
  and several provers evaluate it, each on a share of the batch. The verifier goes through the layers from the
  output down. At each level it runs a sum-check (\<^verbatim>\<open>base/cmt_sumcheck_v.cpp\<close> against \<^verbatim>\<open>base/cmt_sumcheck_p.cpp\<close>) that turns
  a claim about the multilinear extension of a layer at a point into claims about two points of the layer below,
  and a further exchange, the mini-IP, that turns the two points into one (\<^verbatim>\<open>base/cmt_circuit_verifier.cpp\<close>
  against \<^verbatim>\<open>base/cmt_circuit_prover.cpp\<close>). The verifier recomputes the claim about the input layer itself. The
  wiring of a layer enters as the multilinear extension of its predicates, summed gate by gate
  (\<^verbatim>\<open>circuit/circuit_layer.cpp\<close>) or, for regular circuits, by closed forms (\<^verbatim>\<open>cmtgkr_env.cpp\<close>, \<^verbatim>\<open>wiremle_flt.cpp\<close>,
  \<^verbatim>\<open>wiremle_hamdist.cpp\<close>).

  \<^bold>\<open>Conventions.\<close> Big integers are \<^typ>\<open>int\<close>, rationals are \<^typ>\<open>rat\<close>, \<^verbatim>\<open>size_t\<close> counters that cannot reach their bound are
  \<^typ>\<open>nat\<close> and those that can wrap are written modulo \<open>2 ^ 64\<close>. A loop over a range is a \<open>fold\<close>
  over \<open>[a..<b]\<close>. An abort (failed \<^verbatim>\<open>assert\<close>, division by zero inside GMP, access outside a vector) is \<open>None\<close>. Random draws
  are arguments. \<^verbatim>\<open>mpz_invert\<close> of GMP is an argument with the laws of the locale \<open>gmp_invert\<close>, which an extended Euclid
  interprets. Messages are values of a datatype, a prover is a state and a handler from a message to the answers and the
  next state, and the network is a list of such provers. Only the loops of the parser of circuit files that read until they find a token have fuel, since they need not end: it bounds
  the passes through them, and running out of it is an outcome of its own. Every other loop of the modelled code is bounded by a
  size the program has in hand, and a prover's message loop is one call of its handler per message.

  \<^bold>\<open>Arithmetic.\<close> \<open>Prime_Field\<close> has the field facts and the interface of \<^verbatim>\<open>mpz_invert\<close>; \<open>Cmt_Env\<close> and \<open>Extrap\<close> model the
  modular operations, the Lagrange basis, the multilinear extensions and the extrapolation of \<^verbatim>\<open>cmtgkr_env.cpp\<close>; \<open>Mpn_Vector\<close>
  models \<^verbatim>\<open>common/mpnvector.cpp\<close>. \<open>Arithmetic_Facts\<close> and \<open>Extrap\<close> state what they compute: extrapolation is exact, the
  barycentric form agrees with it away from the nodes (and is 0 at a node), the basis table filled by doubling is the basis, and the two
  evaluations of a layer agree.

  \<^bold>\<open>Circuits.\<close> \<open>Circuit\<close> models gates, layers, evaluation and wiring predicates; \<open>Cmt_Circuit\<close> the circuits
  with named inputs, outputs and magic gates and the wiring patterns of \<^verbatim>\<open>basic_cmt_circuit.cpp\<close>; \<open>Wiring_Mle\<close> and \<open>Wiring_Apps\<close>
  the closed-form predicates; \<open>App_Circuits\<close> the Hamming-distance and matrix circuits. \<open>Circuit_Evaluate\<close> shows that
  evaluation keeps the residue of every gate the image of its rational. \<open>Wiring_Sums\<close>, \<open>Circuit_Builder\<close>,
  \<open>Hamdist_Build\<close>, \<open>Hamdist_Wiring\<close> and \<open>Hamdist_Levels\<close> show for every size and prime that the Hamming-distance circuit is built as
  intended and that its closed-form predicates are the extensions of its wiring. \<open>Hamdist_Value\<close> shows what its output gate holds.
  \<open>Circuit_Data\<close> models the store that pages gate values to files (\<^verbatim>\<open>circuit_data.cpp\<close>), and \<open>Paging\<close> shows that it refines plain
  arrays, through the locale \<open>layer_store\<close>; this is why the circuits above keep their values in lists.

  \<^bold>\<open>Messages.\<close> \<open>Cmt_Comm\<close> models the messages, the split of the batch, distribution and gathering
  (\<^verbatim>\<open>cmt_comm_consts.cpp\<close>, \<^verbatim>\<open>cmt_protocol_config.h\<close>, \<^verbatim>\<open>cmt_verifier.cpp\<close>, \<^verbatim>\<open>net_client.cpp\<close>); \<open>Batch_Facts\<close> shows that the
  split is a partition, that gathering undoes distribution, and what happens at the edges.

  \<^bold>\<open>Sum-check.\<close> \<open>Sumcheck_Prover\<close> and \<open>Sumcheck_Verifier\<close> model the two sides. \<open>Sumcheck_Rounds\<close>, \<open>Sumcheck_Complete\<close>,
  \<open>Sumcheck_Label_Rounds\<close>, \<open>Sumcheck_Label_Poly\<close>, \<open>Sumcheck_Run\<close> and \<open>Sumcheck_Invariant\<close> give the meaning of the prover's tables
  and polynomials round by round. \<open>Sumcheck_Accept\<close> states what the verifier needs of a prover as the
  locale \<open>sumcheck_prover\<close> and shows that it accepts; \<open>Sumcheck_Honest\<close> interprets the locale with the prover of the source, where
  \<open>Wire_Predicates\<close> has the final check. \<open>Sumcheck_Soundness\<close> shows that a round catches a false claim when the coin
  comes after the polynomial, and that with the message order of the source it does not.

  \<^bold>\<open>The whole protocol.\<close> \<open>Circuit_Prover\<close> and \<open>Circuit_Verifier\<close> model the two programs. \<open>Circuit_Level\<close> shows that the circuit
  prover in its sum-check mode simulates the sum-check prover, \<open>Circuit_Level_Accept\<close> that one level is accepted, and
  \<open>Circuit_Protocol\<close> that all levels are, for every circuit whose layers meet \<open>levels_ok\<close>. \<open>Prover_Machine\<close> takes the prover as a
  state machine: an invariant of every reachable state, and what becomes of the prover when it is rejected.

  \<^bold>\<open>Compiled circuits.\<close> \<open>Pws_Circuit\<close> models the circuits that are described by a file of the compiler (\<^verbatim>\<open>pws_circuit.cpp\<close>) and
  the operations that compute their magic gates (\<^verbatim>\<open>magic_var_operation.cpp\<close>), and \<open>Pws_Facts\<close> what these compute. \<open>Pws_Builder\<close>,
  \<open>Pws_Constraints\<close>, \<open>Pws_Tokens\<close> and \<open>Pws_Parser\<close> model the parser of the files (\<^verbatim>\<open>pws_circuit_parser.cpp\<close>, \<^verbatim>\<open>tokenizer.h\<close>,
  \<^verbatim>\<open>pws_primitives.h\<close>): the gates it adds, the constraints it expands, the stream it reads from, and the parsing itself.
  \<open>Pws_Wf\<close>, \<open>Pws_Keep\<close>, \<open>Pws_Keep_Constraints\<close> and \<open>Pws_Parse_Inv\<close> have the invariant of the description that is built, for every
  text. \<open>Pws_Values\<close>, \<open>Pws_Values_Steps\<close>, \<open>Pws_Values_Ops\<close> and \<open>Pws_Values_Reduce\<close> follow the values of gates through the
  builder, \<open>Pws_Poly\<close> has the syntax and the meaning of polynomials, and \<open>Pws_Poly_Correct\<close> shows that the text of a
  polynomial becomes a gate with its value. \<open>Pws_Program\<close> has programs of polynomial constraints with their run, and shows that the
  parser reads the text of one to the end; fuel for its tokens and two more passes is enough. \<open>Pws_Compile\<close> follows the values into
  the output layer and the indexes, and \<open>Pws_Run\<close> states the whole way: the circuit built from the text of a program is
  evaluated, and its outputs are those of the run. \<open>Pws_Comparisons\<close> and \<open>Pws_Checks\<close> do the same for inequality tests and comparisons,
  whose magic gates are free: where the recorded checks hold, the result is right. \<open>Pws_Errors\<close> has files on which the parser does not
  return, and a program that it compiles wrongly. The locale \<open>numeral_reader\<close> is what they need of the reading of numerals, which
  \<^verbatim>\<open>atoi\<close> interprets. Values of comparisons of rationals and of divisions are not followed.

  \<^bold>\<open>Zaatar.\<close> The verifier (\<^verbatim>\<open>libv/zcomputation_v.cpp\<close> with \<^verbatim>\<open>libv/verifier.cpp\<close>) encrypts two secret vectors, the prover
  (\<^verbatim>\<open>libv/zcomputation_p.cpp\<close> with \<^verbatim>\<open>libv/prover.cpp\<close>) commits to two proof vectors by a product of ciphertexts, both then derive
  the queries of eight repetitions of a linear PCP from one disclosed generator, and the verifier tests the answers. The
  proof vectors are an assignment and the quotient of a divisibility that holds exactly if the assignment meets the constraints of
  a quadratic program. \<open>Elgamal\<close> models the encryption (\<^verbatim>\<open>crypto/crypto.cpp\<close>) over the locale \<open>gmpmee\<close> of the library of
  exponentiations, which is interpreted with the path that the code takes without it; it shows that the commitment opens to the
  dot products. \<open>Pcp_Queries\<close> models queries, tests and interpolation points (\<^verbatim>\<open>libv/libv.cpp\<close>), \<open>Pcp_Nodes\<close> shows that the points
  are the powers of a root of unity of the right order and that their weights are those of Lagrange. \<open>Zaatar\<close> models the two
  sides. \<open>Zaatar_Answers\<close> shows that prover and verifier derive the same queries and keeps the consistency equation as an invariant,
  \<open>Zaatar_Tests\<close> reduces the tests on an honest prover's answers to one equation at each point, \<open>Zaatar_Qap\<close> reads the equation as
  one of polynomials, and \<open>Zaatar_Run\<close> has a whole run with what acceptance says about the assignment. The search for a root of
  unity may not end and is a partial function; every other loop is bounded by a size.

  \<^bold>\<open>Not modelled.\<close> The printing functions of the parser; byte formats and directories of the files of paged gate data; MPI
  transport, measurement and drivers; the copies of earlier versions under \<^verbatim>\<open>old\<close>, \<^verbatim>\<open>ref\<close> and \<^verbatim>\<open>unmodified\<close>; of Zaatar, the
  files the two sides exchange, the batch and its distribution, the bits of the random generator and the generation of keys; and
  Ginger, the older protocol of \<^verbatim>\<open>libv\<close>, with \<^verbatim>\<open>lib_gpu\<close> and the applications.
\<close>

end
